(* ===== verification/Prelude.thy ===== *)
theory Prelude
  imports Main "HOL-Library.Word"
begin

text \<open>
  Shared vocabulary of the development: the machine types the kernel uses, the slices and
  little-endian encodings every on-disk and in-memory format is built from, the first-match
  searches (\<open>iter().position(..)\<close>, \<open>iter().find(..)\<close>) that all fixed tables use, and the
  generic lemmas about them.  A Rust \<open>&str\<close> or \<open>&[u8]\<close> is the list of its bytes; a
  \<open>usize\<close>, \<open>u32\<close> or \<open>u64\<close> value that is only counted with is a \<open>nat\<close>, with its bound
  written where the code depends on it.
\<close>

unbundle bit_operations_syntax

type_synonym u8 = "8 word"
type_synonym u16 = "16 word"
type_synonym u32 = "32 word"
type_synonym u64 = "64 word"
type_synonym bytes = "u8 list"

named_theorems table_simps \<open>rewriting of searches and updates on fixed tables\<close>
named_theorems slice_simps \<open>rewriting of slices of concatenated byte fields\<close>

section \<open>Bytes and slices\<close>

definition bytes_of :: "string \<Rightarrow> bytes" where
  "bytes_of s = map (\<lambda>c. of_nat (of_char c :: nat)) s"

lemma length_bytes_of [simp]: "length (bytes_of s) = length s"
  by (simp add: bytes_of_def)

text \<open>\<open>xs[a..b]\<close> and \<open>xs[a..a + ys.len()].copy_from_slice(ys)\<close>.\<close>

definition slice :: "'a list \<Rightarrow> nat \<Rightarrow> nat \<Rightarrow> 'a list" where
  "slice xs a b = take (b - a) (drop a xs)"

definition splice :: "'a list \<Rightarrow> nat \<Rightarrow> 'a list \<Rightarrow> 'a list" where
  "splice xs a ys = take a xs @ ys @ drop (a + length ys) xs"

lemma length_slice [simp]: "b \<le> length xs \<Longrightarrow> length (slice xs a b) = b - a"
  by (simp add: slice_def)

lemma length_splice [simp]: "a + length ys \<le> length xs \<Longrightarrow> length (splice xs a ys) = length xs"
  by (simp add: splice_def)

lemma slice_all [simp]: "slice xs 0 (length xs) = xs"
  by (simp add: slice_def)

lemma slice_append_right [slice_simps]:
  "length xs \<le> a \<Longrightarrow> slice (xs @ ys) a b = slice ys (a - length xs) (b - length xs)"
  by (simp add: slice_def)

lemma slice_append_left [slice_simps]:
  "b \<le> length xs \<Longrightarrow> slice (xs @ ys) a b = slice xs a b"
  by (simp add: slice_def)

lemma slice_splice_same [slice_simps]:
  "a + length ys \<le> length xs \<Longrightarrow> slice (splice xs a ys) a (a + length ys) = ys"
  by (simp add: slice_def splice_def)

lemma slice_splice_before:
  "b \<le> a \<Longrightarrow> a \<le> length xs \<Longrightarrow> slice (splice xs a ys) c b = slice xs c b"
  by (simp add: slice_def splice_def) (simp add: drop_take min_absorb1 diff_le_mono)

lemma slice_splice_after:
  assumes "a + length ys \<le> c" "a + length ys \<le> length xs"
  shows "slice (splice xs a ys) c b = slice xs c b"
  using assms by (simp add: slice_def splice_def)

section \<open>Little-endian integers\<close>

fun le_bytes :: "nat \<Rightarrow> nat \<Rightarrow> bytes" where
  "le_bytes 0 v = []"
| "le_bytes (Suc n) v = of_nat (v mod 256) # le_bytes n (v div 256)"

fun le_val :: "bytes \<Rightarrow> nat" where
  "le_val [] = 0"
| "le_val (b # bs) = unat b + 256 * le_val bs"

lemma length_le_bytes [simp]: "length (le_bytes n v) = n"
  by (induction n arbitrary: v) auto

lemma unat_of_nat_byte [simp]: "unat (of_nat (v mod 256) :: u8) = v mod 256"
  by (simp add: unat_of_nat)

lemma le_val_le_bytes_mod: "le_val (le_bytes n v) = v mod 256 ^ n"
proof (induction n arbitrary: v)
  case 0
  show ?case by simp
next
  case (Suc n)
  have "v mod 256 + 256 * (v div 256 mod 256 ^ n) = v mod (256 * 256 ^ n)"
    by (simp add: mod_mult2_eq)
  with Suc show ?case by simp
qed

lemma le_val_le_bytes [simp]: "v < 256 ^ n \<Longrightarrow> le_val (le_bytes n v) = v"
  by (simp add: le_val_le_bytes_mod)

lemma unat_byte_less [simp]: "unat (b :: u8) < 256"
  using unsigned_less [of b] by simp

lemma le_val_less: "le_val bs < 256 ^ length bs"
proof (induction bs)
  case Nil
  show ?case by simp
next
  case (Cons b bs)
  have "unat b < 256" by simp
  with Cons have "unat b + 256 * le_val bs < 256 * 256 ^ length bs" by linarith
  then show ?case by simp
qed

lemma le_bytes_le_val [simp]: "le_bytes (length bs) (le_val bs) = bs"
proof (induction bs)
  case Nil
  show ?case by simp
next
  case (Cons b bs)
  have lt: "unat b < 256" by simp
  have "(of_nat ((unat b + 256 * le_val bs) mod 256) :: u8) = b"
    using lt by simp
  moreover have "(unat b + 256 * le_val bs) div 256 = le_val bs"
    using lt by simp
  ultimately show ?case using Cons by simp
qed

section \<open>First match in a table\<close>

text \<open>\<open>iter().position(p)\<close>.\<close>

fun position :: "('a \<Rightarrow> bool) \<Rightarrow> 'a list \<Rightarrow> nat option" where
  "position p [] = None"
| "position p (x # xs) = (if p x then Some 0 else map_option Suc (position p xs))"

lemma position_None: "position p xs = None \<longleftrightarrow> (\<forall>x \<in> set xs. \<not> p x)"
  by (induction xs) auto

lemma position_Some:
  "position p xs = Some i \<longleftrightarrow> i < length xs \<and> p (xs ! i) \<and> (\<forall>j < i. \<not> p (xs ! j))"
proof (induction xs arbitrary: i)
  case Nil
  show ?case by simp
next
  case (Cons x xs)
  show ?case
  proof (cases i)
    case 0
    then show ?thesis by auto
  next
    case (Suc k)
    show ?thesis using Cons [of k] Suc by (auto simp: less_Suc_eq_0_disj)
  qed
qed

lemma position_SomeD:
  assumes "position p xs = Some i"
  shows "i < length xs" "p (xs ! i)" "j < i \<Longrightarrow> \<not> p (xs ! j)"
  using assms by (auto simp: position_Some)

lemma find_position: "find p xs = map_option ((!) xs) (position p xs)"
  by (induction xs) (auto simp: option.map_comp comp_def)

lemma position_None_nth: "position p xs = None \<Longrightarrow> i < length xs \<Longrightarrow> \<not> p (xs ! i)"
  by (auto simp: position_None)

lemma position_cong:
  "length xs = length ys \<Longrightarrow> (\<And>i. i < length ys \<Longrightarrow> p (xs ! i) = q (ys ! i))
     \<Longrightarrow> position p xs = position q ys"
proof (induction xs ys rule: list_induct2)
  case (Cons x xs y ys)
  have "position p xs = position q ys"
    by (rule Cons.IH) (use Cons.prems [of "Suc _"] in simp)
  then show ?case using Cons.prems [of 0] by simp
qed simp

text \<open>When at most one element satisfies the predicate, that element is the one found.\<close>

lemma position_unique:
  assumes "i < length xs" "p (xs ! i)" "\<And>j. j < length xs \<Longrightarrow> p (xs ! j) \<Longrightarrow> j = i"
  shows "position p xs = Some i"
proof -
  have "\<not> p (xs ! j)" if "j < i" for j
    using assms(1) assms(3) [of j] that by auto
  with assms(1,2) show ?thesis by (simp add: position_Some)
qed

section \<open>Checked arithmetic\<close>

definition checked_add :: "u64 \<Rightarrow> u64 \<Rightarrow> u64 option" where
  "checked_add a b = (if unat a + unat b < 2 ^ 64 then Some (a + b) else None)"

lemma checked_add_Some: "checked_add a b = Some c \<longleftrightarrow> unat a + unat b < 2 ^ 64 \<and> c = a + b"
  by (auto simp: checked_add_def)

lemma checked_add_unat: "checked_add a b = Some c \<Longrightarrow> unat c = unat a + unat b"
  by (auto simp: checked_add_def unat_word_ariths split: if_splits)

end
