(* ===== verification/Ata.thy ===== *)
theory Ata
  imports Prelude
begin

text \<open>
  The ATA PIO driver of \<open>kernel/src/ata.rs\<close>: how a 32-bit LBA is split over the task-file
  registers, how a 512-byte sector crosses the 16-bit data port, and the two operations
  \<open>read_sector\<close> and \<open>write_sector\<close> on a drive.  The drive itself is hardware: its state is the
  words it stores per sector and, per sector, whether it answers a command with the ERR bit
  (\<open>wait_drq\<close> then returns the error).  A drive that never clears BSY would keep the polling
  loops of the driver busy for ever; the model is of a drive that answers.

  The locale \<open>block_device\<close> is the interface the filesystem relies on; it is interpreted on the
  driver at the end of the theory.
\<close>

section \<open>Task-file registers\<close>

record ata_regs =
  drive_head :: u8
  sector_count_reg :: u8
  lba_low :: u8
  lba_mid :: u8
  lba_high :: u8

definition select_and_setup :: "u32 \<Rightarrow> ata_regs" where
  "select_and_setup lba =
     \<lparr>drive_head = 0xE0 OR ucast (drop_bit 24 lba AND 0x0F),
      sector_count_reg = 1,
      lba_low = ucast (lba AND 0xFF),
      lba_mid = ucast (drop_bit 8 lba AND 0xFF),
      lba_high = ucast (drop_bit 16 lba AND 0xFF)\<rparr>"

text \<open>The sector a drive in LBA28 mode addresses for given register contents (ATA standard).\<close>

definition ata_addressed :: "ata_regs \<Rightarrow> nat" where
  "ata_addressed r =
     unat (drive_head r AND 0x0F) * 2 ^ 24 + unat (lba_high r) * 2 ^ 16
       + unat (lba_mid r) * 2 ^ 8 + unat (lba_low r)"

definition ata_addr :: "nat \<Rightarrow> nat" where
  "ata_addr lba = ata_addressed (select_and_setup (of_nat lba))"

lemma mask_FF: "(0xFF :: 'a::len word) = mask 8" by (simp add: mask_eq_exp_minus_1)
lemma mask_0F: "(0x0F :: 'a::len word) = mask 4" by (simp add: mask_eq_exp_minus_1)

lemma unat_low_byte: "unat (ucast (w AND 0xFF :: u32) :: u8) = unat w mod 256"
proof -
  have "(ucast (w AND 0xFF) :: u8) = ucast w"
    unfolding mask_FF by (rule bit_word_eqI) (auto simp: bit_simps)
  then show ?thesis by (simp add: unsigned_ucast_eq take_bit_eq_mod)
qed
lemma unat_head_nibble:
  "unat ((0xE0 OR ucast (w AND 0x0F :: u32) :: u8) AND 0x0F) = unat w mod 16"
proof -
  have E0: "(0xE0::u8) = push_bit 5 (mask 3)" by (simp add: mask_eq_exp_minus_1)
  have "((0xE0 OR ucast (w AND 0x0F) :: u8) AND 0x0F) = ucast (take_bit 4 w)"
    unfolding mask_0F E0 by (rule bit_word_eqI) (auto simp: bit_simps)
  also have "unat \<dots> = take_bit 8 (take_bit 4 (unat w))"
    by (simp only: unsigned_ucast_eq unsigned_take_bit_eq len_of_numeral_defs) simp
  also have "\<dots> = unat w mod 16" by (simp add: take_bit_eq_mod)
  finally show ?thesis .
qed
lemma nat_digits_28:
  fixes x :: nat
  shows "x div 2 ^ 24 mod 16 * 2 ^ 24 + x div 2 ^ 16 mod 256 * 2 ^ 16
           + x div 2 ^ 8 mod 256 * 2 ^ 8 + x mod 256 = x mod 2 ^ 28"
proof -
  have "x mod 2 ^ 28 = x mod (2^8 * (2^8 * (2^8 * 2^4)))" by simp
  also have "\<dots> = 2^8 * (2^8 * (2^8 * (x div 2^8 div 2^8 div 2^8 mod 2^4)
    + x div 2^8 div 2^8 mod 2^8) + x div 2^8 mod 2^8) + x mod 2^8"
    by (simp only: mod_mult2_eq)
  finally show ?thesis by (simp add: div_mult2_eq [symmetric])
qed

lemma ata_addressed_setup: "ata_addressed (select_and_setup lba) = unat lba mod 2 ^ 28"
proof -
  have "unat (drop_bit k lba) = unat lba div 2 ^ k" for k
    by (simp only: unat_drop_bit_eq drop_bit_eq_div [where ?'a = nat])
  then show ?thesis
    unfolding ata_addressed_def select_and_setup_def
    by (simp only: ata_regs.select_convs unat_low_byte unat_head_nibble nat_digits_28)
qed

lemma ata_addr_mod: "ata_addr lba = lba mod 2 ^ 28"
proof -
  have "lba mod 2 ^ 32 mod 2 ^ 28 = lba mod (2 ^ 28 :: nat)"
    by (simp add: mod_mod_cancel)
  then show ?thesis
    by (simp add: ata_addr_def ata_addressed_setup unat_of_nat)
qed

lemma ata_addr_small [simp]: "lba < 2 ^ 28 \<Longrightarrow> ata_addr lba = lba"
  by (simp add: ata_addr_mod)

section \<open>The 16-bit data port\<close>

fun pio_in :: "u16 list \<Rightarrow> bytes" where
  "pio_in [] = []"
| "pio_in (w # ws) = ucast (w AND 0xFF) # ucast (drop_bit 8 w) # pio_in ws"

fun pio_out :: "bytes \<Rightarrow> u16 list" where
  "pio_out (a # b # bs) = (ucast a OR push_bit 8 (ucast b)) # pio_out bs"
| "pio_out _ = []"

lemma length_pio_in [simp]: "length (pio_in ws) = 2 * length ws"
  by (induction ws) auto

lemma length_pio_out: "length (pio_out bs) = length bs div 2"
  by (induction bs rule: pio_out.induct) auto

lemma pio_word_low: "ucast ((ucast (a :: u8) OR push_bit 8 (ucast (b :: u8)) :: u16) AND 0xFF) = a"
  unfolding mask_FF by (rule bit_word_eqI) (auto simp: bit_simps)

lemma pio_word_high: "ucast (drop_bit 8 (ucast (a :: u8) OR push_bit 8 (ucast (b :: u8)) :: u16)) = b"
  by (rule bit_word_eqI) (auto simp: bit_simps dest: bit_imp_le_length)

lemma pio_roundtrip: "even (length bs) \<Longrightarrow> pio_in (pio_out bs) = bs"
proof (induction bs rule: pio_out.induct)
  case (1 a b bs)
  have "pio_in (pio_out bs) = bs" using 1 by simp
  then show ?case by (simp only: pio_out.simps pio_in.simps pio_word_low pio_word_high)
qed auto

section \<open>Sector reads and writes\<close>

datatype ata_error = ATA_error_bit

record disk =
  sector_words :: "nat \<Rightarrow> nat \<Rightarrow> u16"
  read_fails :: "nat \<Rightarrow> bool"
  write_fails :: "nat \<Rightarrow> bool"

definition SECTOR_SIZE :: nat where [simp]: "SECTOR_SIZE = 512"

definition read_sector :: "disk \<Rightarrow> nat \<Rightarrow> ata_error + bytes" where
  "read_sector d lba =
     (let a = ata_addr lba
      in if read_fails d a then Inl ATA_error_bit
         else Inr (pio_in (map (sector_words d a) [0..<256])))"

definition write_sector :: "disk \<Rightarrow> nat \<Rightarrow> bytes \<Rightarrow> (ata_error + unit) \<times> disk" where
  "write_sector d lba buf =
     (let a = ata_addr lba; ws = pio_out buf
      in if write_fails d a then (Inl ATA_error_bit, d)
         else (Inr (),
               d\<lparr>sector_words := (sector_words d)
                   (a := (\<lambda>i. if i < length ws then ws ! i else sector_words d a i))\<rparr>))"

lemma read_sector_length: "read_sector d lba = Inr buf \<Longrightarrow> length buf = 512"
  by (auto simp: read_sector_def Let_def split: if_splits)

lemma read_write_same:
  assumes "write_sector d lba buf = (Inr (), d')" "length buf = 512" "\<not> read_fails d (ata_addr lba)"
  shows "read_sector d' lba = Inr buf"
proof -
  have "map (\<lambda>i. if i < length (pio_out buf) then pio_out buf ! i else sector_words d (ata_addr lba) i)
          [0..<256] = pio_out buf"
    by (rule nth_equalityI) (auto simp: length_pio_out assms(2))
  then show ?thesis
    using assms by (auto simp: read_sector_def write_sector_def Let_def pio_roundtrip split: if_splits)
qed

lemma read_write_other:
  "write_sector d lba buf = (r, d') \<Longrightarrow> ata_addr l \<noteq> ata_addr lba \<Longrightarrow> read_sector d' l = read_sector d l"
  by (auto simp: read_sector_def write_sector_def Let_def split: if_splits)

lemma write_sector_faults:
  "write_sector d lba buf = (r, d') \<Longrightarrow> read_fails d' = read_fails d \<and> write_fails d' = write_fails d"
  by (auto simp: write_sector_def Let_def split: if_splits)

section \<open>The block-device interface\<close>

text \<open>
  What a client of the driver may rely on, for block numbers below a capacity: a completed
  write is what the next read of the block returns, other blocks keep their contents, and
  neither changes which blocks the device can serve.
\<close>

locale block_device =
  fixes rd :: "'d \<Rightarrow> nat \<Rightarrow> 'e + bytes"
    and wr :: "'d \<Rightarrow> nat \<Rightarrow> bytes \<Rightarrow> ('e + unit) \<times> 'd"
    and readable :: "'d \<Rightarrow> nat \<Rightarrow> bool"
    and writable :: "'d \<Rightarrow> nat \<Rightarrow> bool"
    and capacity :: nat
  assumes wr_succeeds: "writable d l \<Longrightarrow> fst (wr d l b) = Inr ()"
    and rd_after_wr: "fst (wr d l b) = Inr () \<Longrightarrow> length b = 512 \<Longrightarrow> l < capacity \<Longrightarrow> readable d l
          \<Longrightarrow> rd (snd (wr d l b)) l = Inr b"
    and rd_other: "l < capacity \<Longrightarrow> l' < capacity \<Longrightarrow> l' \<noteq> l \<Longrightarrow> rd (snd (wr d l b)) l' = rd d l'"
    and readable_wr: "readable (snd (wr d l b)) l' = readable d l'"
    and writable_wr: "writable (snd (wr d l b)) l' = writable d l'"

text \<open>The loops of the filesystem over consecutive sectors.\<close>

fun write_blocks :: "('d \<Rightarrow> nat \<Rightarrow> bytes \<Rightarrow> ('e + unit) \<times> 'd) \<Rightarrow> 'd \<Rightarrow> nat \<Rightarrow> bytes list \<Rightarrow> ('e + unit) \<times> 'd"
  where
  "write_blocks wr d base [] = (Inr (), d)"
| "write_blocks wr d base (c # cs) =
     (case wr d base c of
        (Inl e, d') \<Rightarrow> (Inl e, d')
      | (Inr _, d') \<Rightarrow> write_blocks wr d' (Suc base) cs)"

fun read_blocks :: "('d \<Rightarrow> nat \<Rightarrow> 'e + bytes) \<Rightarrow> 'd \<Rightarrow> nat \<Rightarrow> nat \<Rightarrow> 'e + bytes" where
  "read_blocks rd d base 0 = Inr []"
| "read_blocks rd d base (Suc n) =
     (case rd d base of
        Inl e \<Rightarrow> Inl e
      | Inr c \<Rightarrow> (case read_blocks rd d (Suc base) n of Inl e \<Rightarrow> Inl e | Inr r \<Rightarrow> Inr (c @ r)))"

context block_device
begin

lemma wr_cases: "wr d l b = (r, d') \<Longrightarrow> fst (wr d l b) = r \<and> snd (wr d l b) = d'"
  by simp

lemma write_blocks_frame:
  "base + length cs \<le> capacity \<Longrightarrow> l < capacity \<Longrightarrow> l \<notin> {base..<base + length cs}
    \<Longrightarrow> rd (snd (write_blocks wr d base cs)) l = rd d l"
proof (induction cs arbitrary: d base)
  case Nil
  then show ?case by simp
next
  case (Cons c cs)
  have one: "rd (snd (wr d base c)) l = rd d l"
    using Cons.prems by (intro rd_other) auto
  show ?case
  proof (cases "wr d base c")
    case (Pair r d')
    then show ?thesis
      using Cons.IH [of "Suc base" d'] Cons.prems one by (cases r) auto
  qed
qed

lemma write_blocks_caps:
  "readable (snd (write_blocks wr d base cs)) l = readable d l
    \<and> writable (snd (write_blocks wr d base cs)) l = writable d l"
proof (induction cs arbitrary: d base)
  case Nil
  then show ?case by simp
next
  case (Cons c cs)
  show ?case
  proof (cases "wr d base c")
    case (Pair r d')
    then have "readable d' l = readable d l" "writable d' l = writable d l"
      using readable_wr [of d base c l] writable_wr [of d base c l] by auto
    with Pair show ?thesis using Cons.IH [of d' "Suc base"] by (cases r) auto
  qed
qed

lemma write_blocks_succeeds:
  "(\<And>l. l \<in> {base..<base + length cs} \<Longrightarrow> writable d l) \<Longrightarrow> fst (write_blocks wr d base cs) = Inr ()"
proof (induction cs arbitrary: d base)
  case Nil
  then show ?case by simp
next
  case (Cons c cs)
  obtain r d' where w: "wr d base c = (r, d')" by (cases "wr d base c")
  have "fst (wr d base c) = Inr ()"
    by (rule wr_succeeds) (use Cons.prems [of base] in simp)
  then have r: "r = Inr ()" using w by simp
  have "fst (write_blocks wr d' (Suc base) cs) = Inr ()"
  proof (rule Cons.IH)
    fix l assume "l \<in> {Suc base..<Suc base + length cs}"
    then show "writable d' l"
      using Cons.prems [of l] writable_wr [of d base c l] w by simp
  qed
  then show ?case by (simp add: w r)
qed

lemma read_written_blocks:
  assumes "fst (write_blocks wr d base cs) = Inr ()" "base + length cs \<le> capacity"
    and "\<And>c. c \<in> set cs \<Longrightarrow> length c = 512"
    and "\<And>l. l \<in> {base..<base + length cs} \<Longrightarrow> readable d l"
  shows "read_blocks rd (snd (write_blocks wr d base cs)) base (length cs) = Inr (concat cs)"
  using assms
proof (induction cs arbitrary: d base)
  case Nil
  then show ?case by simp
next
  case (Cons c cs)
  obtain r d' where w: "wr d base c = (r, d')" by (cases "wr d base c")
  have r: "r = Inr ()" using Cons.prems(1) w by (cases r) auto
  let ?d2 = "snd (write_blocks wr d' (Suc base) cs)"
  have "rd ?d2 base = rd d' base"
    using Cons.prems(2) by (intro write_blocks_frame) auto
  also have "\<dots> = Inr c"
    using rd_after_wr [of d base c] w r Cons.prems(2-4) by auto
  finally have hd: "rd ?d2 base = Inr c" .
  have tl: "read_blocks rd ?d2 (Suc base) (length cs) = Inr (concat cs)"
  proof (rule Cons.IH)
    fix l assume "l \<in> {Suc base..<Suc base + length cs}"
    then have "readable d l" using Cons.prems(4) by simp
    then show "readable d' l" using readable_wr [of d base c l] w by simp
  qed (use Cons.prems w r in auto)
  show ?case using hd tl by (simp add: w r)
qed

lemma read_blocks_cong:
  "(\<And>l. l \<in> {base..<base + n} \<Longrightarrow> rd d' l = rd d l) \<Longrightarrow> read_blocks rd d' base n = read_blocks rd d base n"
proof (induction n arbitrary: base)
  case 0
  show ?case by simp
next
  case (Suc n)
  have "rd d' base = rd d base" by (rule Suc.prems) simp
  moreover have "read_blocks rd d' (Suc base) n = read_blocks rd d (Suc base) n"
    by (rule Suc.IH) (rule Suc.prems, simp)
  ultimately show ?case by (simp split: sum.split)
qed

end

definition disk_readable :: "disk \<Rightarrow> nat \<Rightarrow> bool" where
  "disk_readable d l \<longleftrightarrow> \<not> read_fails d (ata_addr l)"

definition disk_writable :: "disk \<Rightarrow> nat \<Rightarrow> bool" where
  "disk_writable d l \<longleftrightarrow> \<not> write_fails d (ata_addr l)"

interpretation ata_dev: block_device read_sector write_sector disk_readable disk_writable "2 ^ 28"
proof
  fix d :: disk and l l' :: nat and b :: bytes
  show "fst (write_sector d l b) = Inr ()" if "disk_writable d l"
    using that by (simp add: disk_writable_def write_sector_def Let_def)
  show "read_sector (snd (write_sector d l b)) l = Inr b"
    if "fst (write_sector d l b) = Inr ()" "length b = 512" "l < 2 ^ 28" "disk_readable d l"
    using that by (cases "write_sector d l b") (auto intro: read_write_same simp: disk_readable_def)
  show "read_sector (snd (write_sector d l b)) l' = read_sector d l'"
    if "l < 2 ^ 28" "l' < 2 ^ 28" "l' \<noteq> l"
    using that by (cases "write_sector d l b") (auto intro: read_write_other)
  show "disk_readable (snd (write_sector d l b)) l' = disk_readable d l'"
    using write_sector_faults [of d l b] by (cases "write_sector d l b") (auto simp: disk_readable_def)
  show "disk_writable (snd (write_sector d l b)) l' = disk_writable d l'"
    using write_sector_faults [of d l b] by (cases "write_sector d l b") (auto simp: disk_writable_def)
qed

end
