(* ===== verification/Utf8.thy ===== *)
theory Utf8
  imports Prelude
begin

text \<open>
  The two standard-library conversions the kernel applies to bytes it did not write itself:
  \<open>core::str::from_utf8\<close> (accept or reject) and \<open>String::from_utf8_lossy\<close> (replace every
  maximal ill-formed prefix by U+FFFD).  \<open>utf8_step\<close> classifies the first sequence of a
  non-empty buffer: well-formed or not, and how many bytes it takes up.
\<close>

definition in_range :: "u8 \<Rightarrow> u8 \<Rightarrow> u8 \<Rightarrow> bool" where
  "in_range lo hi b \<longleftrightarrow> lo \<le> b \<and> b \<le> hi"

definition byte_at :: "bytes \<Rightarrow> nat \<Rightarrow> u8" where
  "byte_at bs i = (if i < length bs then bs ! i else 0)"

definition second_ok :: "u8 \<Rightarrow> u8 \<Rightarrow> bool" where
  "second_ok b c =
     (if b = 0xE0 then in_range 0xA0 0xBF c
      else if b = 0xED then in_range 0x80 0x9F c
      else if b = 0xF0 then in_range 0x90 0xBF c
      else if b = 0xF4 then in_range 0x80 0x8F c
      else in_range 0x80 0xBF c)"

definition utf8_step :: "bytes \<Rightarrow> bool \<times> nat" where
  "utf8_step bs =
     (let b = byte_at bs 0; c1 = byte_at bs 1;
          c2 = in_range 0x80 0xBF (byte_at bs 2); c3 = in_range 0x80 0xBF (byte_at bs 3)
      in if b < 0x80 then (True, 1)
         else if in_range 0xC2 0xDF b then (if second_ok b c1 then (True, 2) else (False, 1))
         else if in_range 0xE0 0xEF b then
           (if \<not> second_ok b c1 then (False, 1) else if \<not> c2 then (False, 2) else (True, 3))
         else if in_range 0xF0 0xF4 b then
           (if \<not> second_ok b c1 then (False, 1) else if \<not> c2 then (False, 2)
            else if \<not> c3 then (False, 3) else (True, 4))
         else (False, 1))"

lemma utf8_step_pos: "0 < snd (utf8_step bs)"
  by (simp add: utf8_step_def Let_def)

function utf8_valid :: "bytes \<Rightarrow> bool" where
  "utf8_valid bs =
     (if bs = [] then True
      else fst (utf8_step bs) \<and> utf8_valid (drop (snd (utf8_step bs)) bs))"
  by pat_completeness auto
termination
  by (relation "measure length") (auto simp: utf8_step_pos)

function utf8_lossy :: "bytes \<Rightarrow> bytes" where
  "utf8_lossy bs =
     (if bs = [] then []
      else (if fst (utf8_step bs) then take (snd (utf8_step bs)) bs else [0xEF, 0xBF, 0xBD])
             @ utf8_lossy (drop (snd (utf8_step bs)) bs))"
  by pat_completeness auto
termination
  by (relation "measure length") (auto simp: utf8_step_pos)

declare utf8_valid.simps [simp del] utf8_lossy.simps [simp del]

lemma utf8_valid_Nil [simp]: "utf8_valid []"
  by (subst utf8_valid.simps) simp

lemma utf8_lossy_Nil [simp]: "utf8_lossy [] = []"
  by (subst utf8_lossy.simps) simp

lemma utf8_step_ascii [simp]: "b < 0x80 \<Longrightarrow> utf8_step (b # bs) = (True, 1)"
  by (simp add: utf8_step_def byte_at_def)

lemma utf8_valid_ascii: "\<forall>b \<in> set bs. b < 0x80 \<Longrightarrow> utf8_valid bs"
proof (induction bs)
  case (Cons b bs)
  then show ?case by (subst utf8_valid.simps) simp
qed simp

lemma utf8_lossy_valid: "utf8_valid bs \<Longrightarrow> utf8_lossy bs = bs"
proof (induction bs rule: utf8_lossy.induct)
  case (1 bs)
  show ?case
  proof (cases "bs = []")
    case False
    then have step: "fst (utf8_step bs)" "utf8_valid (drop (snd (utf8_step bs)) bs)"
      using 1(2) by (subst (asm) utf8_valid.simps; simp)+
    with 1(1) False have "utf8_lossy (drop (snd (utf8_step bs)) bs) = drop (snd (utf8_step bs)) bs"
      by blast
    with step False show ?thesis by (subst utf8_lossy.simps) simp
  qed simp
qed

end
