(* ===== verification/Fs.thy ===== *)
theory Fs
  imports Ata Utf8
begin

text \<open>
  The filesystem of \<open>kernel/src/fs.rs\<close>: its on-disk directory tables, the path walk, the
  occupancy scan and first-fit allocator over the shared 64-sector pool, and the operations
  \<open>make_dir\<close>, \<open>write_file\<close>, \<open>read_file\<close>, \<open>delete_file\<close>, \<open>remove_dir\<close> and \<open>list\<close>, each a
  function of the drive \<open>disk\<close>.  Operations that write return their result together with the
  drive they leave behind, so every partial write of an error path is in the model.  The error
  strings of the source are the constructors of \<open>fs_error\<close>; \<open>Panic\<close> is an arithmetic overflow
  (the kernel is built in the debug profile, where \<open>+\<close> and \<open>-\<close> are checked).
\<close>

section \<open>Constants, errors and entries\<close>

definition DIR_LBA :: nat where [simp]: "DIR_LBA = 1"
definition MAX_ENTRIES :: nat where [simp]: "MAX_ENTRIES = 8"
definition FILE_DATA_START_LBA :: nat where [simp]: "FILE_DATA_START_LBA = 2"
definition MAGIC :: nat where [simp]: "MAGIC = 0x53504B46"
definition NAME_LEN :: nat where [simp]: "NAME_LEN = 16"
definition ENTRY_LEN :: nat where [simp]: "ENTRY_LEN = 25"
definition MAX_FILE_BYTES :: nat where [simp]: "MAX_FILE_BYTES = 4096"
definition NUM_DATA_SECTORS :: nat where [simp]: "NUM_DATA_SECTORS = 64"
definition MAX_DEPTH :: nat where [simp]: "MAX_DEPTH = 32"

datatype fs_error =
    EmptyComponent | TooDeep | NoSuchDirectory | NotADirectory | MissingName
  | AlreadyExists | DirectoryFull | NoSpace | DiskError | FileTooLarge
  | IsADirectory | NoSuchFile | NotEmpty | IsAFile | Panic

record dir_entry =
  e_used :: bool
  e_is_dir :: bool
  e_name :: bytes
  e_len :: nat
  e_start_lba :: nat
  e_sector_count :: nat

definition empty_entry :: dir_entry where
  "empty_entry = \<lparr>e_used = False, e_is_dir = False, e_name = replicate 16 0,
     e_len = 0, e_start_lba = 0, e_sector_count = 0\<rparr>"

lemma empty_entry_simps [simp]:
  "\<not> e_used empty_entry" "\<not> e_is_dir empty_entry" "e_name empty_entry = replicate 16 0"
  "e_len empty_entry = 0" "e_start_lba empty_entry = 0" "e_sector_count empty_entry = 0"
  by (simp_all add: empty_entry_def)

definition name_str :: "dir_entry \<Rightarrow> bytes" where
  "name_str e =
     utf8_lossy (take (case position (\<lambda>b. b = 0) (e_name e) of Some i \<Rightarrow> i | None \<Rightarrow> NAME_LEN) (e_name e))"

definition name_bytes :: "bytes \<Rightarrow> bytes" where
  "name_bytes nm = (let n = min (length nm) NAME_LEN in take n nm @ replicate (NAME_LEN - n) 0)"

lemma length_name_bytes [simp]: "length (name_bytes nm) = 16"
  by (simp add: name_bytes_def Let_def)

section \<open>Sector access as the filesystem sees it\<close>

text \<open>\<open>ata::read_sector\<close>/\<open>write_sector\<close> with the driver's error turned into a string, and the
  \<open>u32\<close> overflow of an LBA computed past the end of the address space.\<close>

definition fs_read :: "disk \<Rightarrow> nat \<Rightarrow> fs_error + bytes" where
  "fs_read d lba =
     (if 2 ^ 32 \<le> lba then Inl Panic
      else case read_sector d lba of Inl _ \<Rightarrow> Inl DiskError | Inr b \<Rightarrow> Inr b)"

definition fs_write :: "disk \<Rightarrow> nat \<Rightarrow> bytes \<Rightarrow> (fs_error + unit) \<times> disk" where
  "fs_write d lba b =
     (case write_sector d lba b of
        (Inl _, d') \<Rightarrow> (Inl DiskError, d')
      | (Inr _, d') \<Rightarrow> (Inr (), d'))"

interpretation fs_dev: block_device fs_read fs_write disk_readable disk_writable "2 ^ 28"
proof
  fix d :: disk and l l' :: nat and b :: bytes
  have snd_eq: "snd (fs_write d l b) = snd (write_sector d l b)"
    by (simp add: fs_write_def split: prod.split sum.split)
  have ok: "fst (fs_write d l b) = Inr () \<longleftrightarrow> fst (write_sector d l b) = Inr ()"
    by (auto simp: fs_write_def split: prod.split sum.split)
  show "fst (fs_write d l b) = Inr ()" if "disk_writable d l"
    using ata_dev.wr_succeeds [OF that] ok by simp
  show "fs_read (snd (fs_write d l b)) l = Inr b"
    if "fst (fs_write d l b) = Inr ()" "length b = 512" "l < 2 ^ 28" "disk_readable d l"
    using ata_dev.rd_after_wr [of d l b] that ok by (simp add: fs_read_def snd_eq)
  show "fs_read (snd (fs_write d l b)) l' = fs_read d l'" if "l < 2 ^ 28" "l' < 2 ^ 28" "l' \<noteq> l"
    using ata_dev.rd_other [OF that] by (simp add: fs_read_def snd_eq)
  show "disk_readable (snd (fs_write d l b)) l' = disk_readable d l'"
    using ata_dev.readable_wr by (simp add: snd_eq)
  show "disk_writable (snd (fs_write d l b)) l' = disk_writable d l'"
    using ata_dev.writable_wr by (simp add: snd_eq)
qed

section \<open>Directory tables on disk\<close>

definition flag_byte :: "bool \<Rightarrow> u8" where
  "flag_byte b = (if b then 1 else 0)"

definition enc_entry :: "dir_entry \<Rightarrow> bytes" where
  "enc_entry e = [flag_byte (e_used e), flag_byte (e_is_dir e)] @ e_name e
     @ le_bytes 2 (e_len e) @ le_bytes 4 (e_start_lba e) @ [of_nat (e_sector_count e)]"

definition dec_entry :: "bytes \<Rightarrow> nat \<Rightarrow> dir_entry" where
  "dec_entry buf off =
     \<lparr>e_used = (buf ! off \<noteq> 0),
      e_is_dir = (buf ! (off + 1) \<noteq> 0),
      e_name = slice buf (off + 2) (off + 2 + NAME_LEN),
      e_len = le_val (slice buf (off + 2 + NAME_LEN) (off + 4 + NAME_LEN)),
      e_start_lba = le_val (slice buf (off + 4 + NAME_LEN) (off + 8 + NAME_LEN)),
      e_sector_count = unat (buf ! (off + 8 + NAME_LEN))\<rparr>"

definition load_dir_at :: "disk \<Rightarrow> nat \<Rightarrow> dir_entry list" where
  "load_dir_at d lba =
     (case read_sector d lba of
        Inl _ \<Rightarrow> replicate MAX_ENTRIES empty_entry
      | Inr buf \<Rightarrow>
          if le_val (slice buf 0 4) \<noteq> MAGIC then replicate MAX_ENTRIES empty_entry
          else map (\<lambda>i. dec_entry buf (4 + i * ENTRY_LEN)) [0..<MAX_ENTRIES])"

definition dir_image :: "dir_entry list \<Rightarrow> bytes" where
  "dir_image es =
     (let body = le_bytes 4 MAGIC @ concat (map enc_entry es)
      in body @ replicate (SECTOR_SIZE - length body) 0)"

definition save_dir_at :: "disk \<Rightarrow> nat \<Rightarrow> dir_entry list \<Rightarrow> (fs_error + unit) \<times> disk" where
  "save_dir_at d lba es = fs_write d lba (dir_image es)"

text \<open>The values a table can hold: the Rust field types and the array length.\<close>

definition entry_ok :: "dir_entry \<Rightarrow> bool" where
  "entry_ok e \<longleftrightarrow> length (e_name e) = 16 \<and> e_len e < 2 ^ 16 \<and> e_start_lba e < 2 ^ 32
     \<and> e_sector_count e < 256"

definition table_ok :: "dir_entry list \<Rightarrow> bool" where
  "table_ok es \<longleftrightarrow> length es = 8 \<and> (\<forall>e \<in> set es. entry_ok e)"

lemma entry_ok_empty [simp]: "entry_ok empty_entry"
  by (simp add: entry_ok_def)

lemma length_load_dir_at [simp]: "length (load_dir_at d lba) = 8"
  by (simp add: load_dir_at_def split: sum.split)

lemma length_enc_entry [simp]: "length (e_name e) = 16 \<Longrightarrow> length (enc_entry e) = 25"
  by (simp add: enc_entry_def)

lemma dec_enc_entry:
  assumes "entry_ok e"
  shows "dec_entry (xs @ enc_entry e @ ys) (length xs) = e"
proof -
  have n: "length (e_name e) = 16" and "e_len e < 256 ^ 2" "e_start_lba e < 256 ^ 4"
    and "e_sector_count e < 256"
    using assms by (simp_all add: entry_ok_def)
  then show ?thesis
    by (cases e)
      (simp add: dec_entry_def enc_entry_def flag_byte_def nth_append slice_def unat_of_nat
        del: le_bytes.simps)
qed

lemma length_concat_enc:
  "\<forall>e \<in> set es. entry_ok e \<Longrightarrow> length (concat (map enc_entry es)) = 25 * length es"
  by (induction es) (auto simp: entry_ok_def)

lemma dec_entry_nth:
  assumes "\<forall>e \<in> set es. entry_ok e" "i < length es"
  shows "dec_entry (xs @ concat (map enc_entry es) @ ys) (length xs + i * 25) = es ! i"
proof -
  have es: "es = take i es @ es ! i # drop (Suc i) es"
    using assms(2) by (rule id_take_nth_drop)
  have "xs @ concat (map enc_entry es) @ ys
      = (xs @ concat (map enc_entry (take i es))) @ enc_entry (es ! i)
          @ (concat (map enc_entry (drop (Suc i) es)) @ ys)"
    by (subst es) simp
  moreover have "length (concat (map enc_entry (take i es))) = 25 * i"
    using assms by (subst length_concat_enc) (auto dest: in_set_takeD)
  ultimately show ?thesis
    using dec_enc_entry [of "es ! i" "xs @ concat (map enc_entry (take i es))"] assms
    by (simp add: mult.commute)
qed

lemma length_dir_image: "table_ok es \<Longrightarrow> length (dir_image es) = 512"
  by (simp add: dir_image_def Let_def table_ok_def length_concat_enc)

lemma load_dir_image:
  assumes "table_ok es" "read_sector d lba = Inr (dir_image es)"
  shows "load_dir_at d lba = es"
proof -
  have len: "length es = 8" and ok: "\<forall>e \<in> set es. entry_ok e"
    using assms(1) by (simp_all add: table_ok_def)
  obtain pad where im: "dir_image es = le_bytes 4 MAGIC @ concat (map enc_entry es) @ pad"
    by (simp add: dir_image_def Let_def)
  have "le_val (slice (dir_image es) 0 4) = le_val (le_bytes 4 MAGIC)"
    by (simp add: im slice_def del: le_bytes.simps le_val.simps)
  then have "le_val (slice (dir_image es) 0 4) = MAGIC"
    by (simp del: le_bytes.simps le_val.simps)
  moreover have "map (\<lambda>i. dec_entry (dir_image es) (4 + i * ENTRY_LEN)) [0..<MAX_ENTRIES] = es"
  proof (rule nth_equalityI)
    fix i assume "i < length (map (\<lambda>i. dec_entry (dir_image es) (4 + i * ENTRY_LEN)) [0..<MAX_ENTRIES])"
    then have i: "i < 8" by simp
    have "dec_entry (dir_image es) (4 + i * 25) = es ! i"
      using dec_entry_nth [OF ok, of i "le_bytes 4 MAGIC" pad] len i
      by (simp add: im del: le_bytes.simps)
    then show "map (\<lambda>i. dec_entry (dir_image es) (4 + i * ENTRY_LEN)) [0..<MAX_ENTRIES] ! i = es ! i"
      using i by simp
  qed (simp add: len)
  ultimately show ?thesis
    using assms(2) by (simp add: load_dir_at_def del: MAGIC_def)
qed

text \<open>Whatever is on the disk, a loaded table has eight entries of the declared field widths.\<close>

lemma le_val_slice_less: "le_val (slice buf a b) < 256 ^ (b - a)"
proof -
  have "le_val (slice buf a b) < 256 ^ length (slice buf a b)" by (rule le_val_less)
  also have "\<dots> \<le> 256 ^ (b - a)" by (rule power_increasing) (auto simp: slice_def)
  finally show ?thesis .
qed

lemma dec_entry_ok: "length buf = 512 \<Longrightarrow> off + 25 \<le> 512 \<Longrightarrow> entry_ok (dec_entry buf off)"
  using le_val_slice_less [of buf "off + 18" "off + 20"] le_val_slice_less [of buf "off + 20" "off + 24"]
  by (simp add: entry_ok_def dec_entry_def slice_def add.commute)

lemma table_ok_load [simp]: "table_ok (load_dir_at d lba)"
  by (auto simp: table_ok_def load_dir_at_def intro!: dec_entry_ok read_sector_length
      split: sum.split)

lemma entry_ok_load [simp]: "i < 8 \<Longrightarrow> entry_ok (load_dir_at d lba ! i)"
  using table_ok_load [of d lba] by (simp add: table_ok_def)

lemma table_ok_update: "table_ok es \<Longrightarrow> entry_ok e \<Longrightarrow> table_ok (es[i := e])"
  using set_update_subset_insert [of es i e] by (auto simp: table_ok_def)

lemma load_dir_cong: "read_sector d' l = read_sector d l \<Longrightarrow> load_dir_at d' l = load_dir_at d l"
  by (simp add: load_dir_at_def)

section \<open>Paths\<close>

text \<open>\<open>str::split('/')\<close> and \<open>str::rsplit_once('/')\<close>; 47 is the byte of \<open>'/'\<close>.\<close>

fun split_slash :: "bytes \<Rightarrow> bytes list" where
  "split_slash [] = [[]]"
| "split_slash (c # cs) =
     (if c = 47 then [] # split_slash cs
      else case split_slash cs of h # t \<Rightarrow> (c # h) # t | [] \<Rightarrow> [[c]])"

fun rsplit_slash :: "bytes \<Rightarrow> (bytes \<times> bytes) option" where
  "rsplit_slash [] = None"
| "rsplit_slash (c # cs) =
     (case rsplit_slash cs of
        Some (a, b) \<Rightarrow> Some (c # a, b)
      | None \<Rightarrow> if c = 47 then Some ([], cs) else None)"

definition used_named :: "bytes \<Rightarrow> dir_entry \<Rightarrow> bool" where
  "used_named n e \<longleftrightarrow> e_used e \<and> e_name e = n"

fun resolve_from :: "disk \<Rightarrow> bytes list \<Rightarrow> nat \<Rightarrow> nat \<Rightarrow> fs_error + nat" where
  "resolve_from d [] depth lba = Inr lba"
| "resolve_from d (c # cs) depth lba =
     (if c = [] then Inl EmptyComponent
      else if MAX_DEPTH \<le> depth then Inl TooDeep
      else case find (used_named (name_bytes c)) (load_dir_at d lba) of
             None \<Rightarrow> Inl NoSuchDirectory
           | Some e \<Rightarrow> if \<not> e_is_dir e then Inl NotADirectory
                       else resolve_from d cs (Suc depth) (e_start_lba e))"

definition resolve_dir_lba :: "disk \<Rightarrow> bytes \<Rightarrow> fs_error + nat" where
  "resolve_dir_lba d path =
     (if path = [] then Inr DIR_LBA else resolve_from d (split_slash path) 0 DIR_LBA)"

definition resolve_table :: "disk \<Rightarrow> bytes \<Rightarrow> fs_error + (nat \<times> bytes)" where
  "resolve_table d path =
     (case rsplit_slash path of
        Some (dir, nm) \<Rightarrow>
          if nm = [] then Inl MissingName
          else (case resolve_dir_lba d dir of Inl e \<Rightarrow> Inl e | Inr lba \<Rightarrow> Inr (lba, nm))
      | None \<Rightarrow> Inr (DIR_LBA, path))"

section \<open>Occupied sectors and the first-fit allocator\<close>

function collect_occupied_at :: "disk \<Rightarrow> nat \<Rightarrow> nat \<Rightarrow> (nat \<times> nat) list" where
  "collect_occupied_at d table_lba depth =
     (if MAX_DEPTH \<le> depth then []
      else concat (map (\<lambda>e.
             if \<not> e_used e \<or> e_sector_count e = 0 then []
             else (e_start_lba e, e_sector_count e)
                    # (if e_is_dir e then collect_occupied_at d (e_start_lba e) (depth + 1) else []))
           (load_dir_at d table_lba)))"
  by pat_completeness auto
termination
  by (relation "measure (\<lambda>(d, l, k). 32 - k)") auto

declare collect_occupied_at.simps [simp del]

definition collect_occupied :: "disk \<Rightarrow> (nat \<times> nat) option \<Rightarrow> (nat \<times> nat) list" where
  "collect_occupied d exclude =
     (let ranges = collect_occupied_at d DIR_LBA 0
      in case exclude of Some ex \<Rightarrow> remove1 ex ranges | None \<Rightarrow> ranges)"

text \<open>One candidate against the occupied ranges; \<open>None\<close> is the overflow of \<open>occ_start + occ_count\<close>.\<close>

fun clashes :: "(nat \<times> nat) list \<Rightarrow> nat \<Rightarrow> nat \<Rightarrow> bool option" where
  "clashes [] cand_start cand_end = Some False"
| "clashes ((occ_start, occ_count) # occ) cand_start cand_end =
     (if 2 ^ 32 \<le> occ_start + occ_count then None
      else if cand_start < occ_start + occ_count \<and> occ_start < cand_end then Some True
      else clashes occ cand_start cand_end)"

fun scan_spans :: "(nat \<times> nat) list \<Rightarrow> nat \<Rightarrow> nat list \<Rightarrow> fs_error + nat option" where
  "scan_spans occ needed [] = Inr None"
| "scan_spans occ needed (start # starts) =
     (case clashes occ (FILE_DATA_START_LBA + start) (FILE_DATA_START_LBA + start + needed) of
        None \<Rightarrow> Inl Panic
      | Some True \<Rightarrow> scan_spans occ needed starts
      | Some False \<Rightarrow> Inr (Some start))"

definition find_free_span :: "(nat \<times> nat) list \<Rightarrow> nat \<Rightarrow> fs_error + nat option" where
  "find_free_span occ needed =
     (if NUM_DATA_SECTORS < needed then Inl Panic
      else scan_spans occ needed [0..<NUM_DATA_SECTORS - needed + 1])"

definition free_span :: "(nat \<times> nat) list \<Rightarrow> nat \<Rightarrow> nat \<Rightarrow> bool" where
  "free_span occ a n \<longleftrightarrow> (\<forall>(s, c) \<in> set occ. {a..<a + n} \<inter> {s..<s + c} = {})"

definition ranges_ok :: "(nat \<times> nat) list \<Rightarrow> bool" where
  "ranges_ok occ \<longleftrightarrow> (\<forall>(s, c) \<in> set occ. 0 < c \<and> s + c < 2 ^ 32)"

lemma clashes_ok:
  "ranges_ok occ \<Longrightarrow> 0 < n \<Longrightarrow> clashes occ a (a + n) = Some (\<not> free_span occ a n)"
proof (induction occ)
  case Nil
  show ?case by (simp add: free_span_def)
next
  case (Cons r occ)
  obtain s c where r: "r = (s, c)" by (cases r)
  have sc: "0 < c" "s + c < 2 ^ 32" and ok: "ranges_ok occ"
    using Cons.prems(1) by (auto simp: ranges_ok_def r)
  have "{a..<a + n} \<inter> {s..<s + c} = {} \<longleftrightarrow> \<not> (a < s + c \<and> s < a + n)"
  proof
    assume "{a..<a + n} \<inter> {s..<s + c} = {}"
    moreover have "max a s \<in> {a..<a + n} \<inter> {s..<s + c}" if "a < s + c \<and> s < a + n"
      using that sc Cons.prems(2) by auto
    ultimately show "\<not> (a < s + c \<and> s < a + n)" by blast
  qed auto
  with Cons.IH [OF ok Cons.prems(2)] sc show ?case
    by (auto simp: r free_span_def)
qed

lemma scan_spans_ok:
  assumes "ranges_ok occ" "0 < n"
  shows "scan_spans occ n sts = Inr (find (\<lambda>st. free_span occ (2 + st) n) sts)"
  by (induction sts) (simp_all add: clashes_ok [OF assms] add.assoc [symmetric] del: add_2_eq_Suc)

lemma find_free_span_ok:
  assumes "ranges_ok occ" "0 < n" "n \<le> 64"
  shows "find_free_span occ n = Inr (find (\<lambda>st. free_span occ (2 + st) n) [0..<65 - n])"
proof -
  have "NUM_DATA_SECTORS - n + 1 = 65 - n" using assms(3) by simp
  then show ?thesis using assms by (simp add: find_free_span_def scan_spans_ok del: upt_Suc)
qed

lemma find_free_span_Some:
  assumes "ranges_ok occ" "0 < n" "n \<le> 64" "find_free_span occ n = Inr (Some st)"
  shows "st + n \<le> 64" "free_span occ (2 + st) n"
  using assms by (auto simp: find_free_span_ok find_Some_iff)

section \<open>The operations\<close>

definition make_dir :: "disk \<Rightarrow> bytes \<Rightarrow> (fs_error + unit) \<times> disk" where
  "make_dir d path =
     (case resolve_table d path of
        Inl e \<Rightarrow> (Inl e, d)
      | Inr (table_lba, nm) \<Rightarrow>
          let table = load_dir_at d table_lba; target = name_bytes nm
          in if list_ex (used_named target) table then (Inl AlreadyExists, d)
             else case position (\<lambda>e. \<not> e_used e) table of
                    None \<Rightarrow> (Inl DirectoryFull, d)
                  | Some slot \<Rightarrow>
             (case find_free_span (collect_occupied d None) 1 of
                Inl e \<Rightarrow> (Inl e, d)
              | Inr None \<Rightarrow> (Inl NoSpace, d)
              | Inr (Some start_pool) \<Rightarrow>
                  let new_lba = FILE_DATA_START_LBA + start_pool
                  in (case save_dir_at d new_lba (replicate MAX_ENTRIES empty_entry) of
                        (Inl e, d1) \<Rightarrow> (Inl e, d1)
                      | (Inr _, d1) \<Rightarrow>
                          save_dir_at d1 table_lba
                            (table[slot := \<lparr>e_used = True, e_is_dir = True, e_name = target,
                               e_len = 0, e_start_lba = new_lba, e_sector_count = 1\<rparr>]))))"

definition file_sectors :: "bytes \<Rightarrow> nat \<Rightarrow> bytes list" where
  "file_sectors data needed =
     map (\<lambda>i. let start = i * SECTOR_SIZE;
                  part = slice data start (min (start + SECTOR_SIZE) (length data))
              in part @ replicate (SECTOR_SIZE - length part) 0) [0..<needed]"

definition write_file :: "disk \<Rightarrow> bytes \<Rightarrow> bytes \<Rightarrow> (fs_error + unit) \<times> disk" where
  "write_file d path data =
     (if MAX_FILE_BYTES < length data then (Inl FileTooLarge, d)
      else case resolve_table d path of
        Inl e \<Rightarrow> (Inl e, d)
      | Inr (table_lba, nm) \<Rightarrow>
          let entries = load_dir_at d table_lba; target = name_bytes nm;
              existing = position (used_named target) entries
          in if (case existing of Some i \<Rightarrow> e_is_dir (entries ! i) | None \<Rightarrow> False)
             then (Inl IsADirectory, d)
             else case (case existing of Some i \<Rightarrow> Some i
                        | None \<Rightarrow> position (\<lambda>e. \<not> e_used e) entries) of
                    None \<Rightarrow> (Inl DirectoryFull, d)
                  | Some slot \<Rightarrow>
             let old = entries ! slot;
                 old_alloc = (if e_used old then Some (e_start_lba old, e_sector_count old) else None);
                 needed = (if data = [] then 0 else (length data + SECTOR_SIZE - 1) div SECTOR_SIZE)
             in (case (if needed = 0 then Inr (Some 0)
                       else find_free_span (collect_occupied d old_alloc) needed) of
                   Inl e \<Rightarrow> (Inl e, d)
                 | Inr None \<Rightarrow> (Inl NoSpace, d)
                 | Inr (Some start_pool) \<Rightarrow>
                     (case write_blocks fs_write d (FILE_DATA_START_LBA + start_pool)
                             (file_sectors data needed) of
                        (Inl e, d1) \<Rightarrow> (Inl e, d1)
                      | (Inr _, d1) \<Rightarrow>
                          save_dir_at d1 table_lba
                            (entries[slot := \<lparr>e_used = True, e_is_dir = False, e_name = target,
                               e_len = length data mod 2 ^ 16,
                               e_start_lba = (if needed = 0 then 0 else FILE_DATA_START_LBA + start_pool),
                               e_sector_count = needed mod 2 ^ 8\<rparr>]))))"

definition read_file :: "disk \<Rightarrow> bytes \<Rightarrow> fs_error + bytes" where
  "read_file d path =
     (case resolve_table d path of
        Inl e \<Rightarrow> Inl e
      | Inr (table_lba, nm) \<Rightarrow>
          (case find (used_named (name_bytes nm)) (load_dir_at d table_lba) of
             None \<Rightarrow> Inl NoSuchFile
           | Some e \<Rightarrow>
               if e_is_dir e then Inl IsADirectory
               else if e_sector_count e = 0 then Inr []
               else (case read_blocks fs_read d (e_start_lba e) (e_sector_count e) of
                       Inl err \<Rightarrow> Inl err
                     | Inr data \<Rightarrow> Inr (take (e_len e) data))))"

definition delete_file :: "disk \<Rightarrow> bytes \<Rightarrow> (fs_error + unit) \<times> disk" where
  "delete_file d path =
     (case resolve_table d path of
        Inl e \<Rightarrow> (Inl e, d)
      | Inr (table_lba, nm) \<Rightarrow>
          let entries = load_dir_at d table_lba
          in (case position (used_named (name_bytes nm)) entries of
                None \<Rightarrow> (Inl NoSuchFile, d)
              | Some slot \<Rightarrow>
                  if e_is_dir (entries ! slot) then (Inl IsADirectory, d)
                  else save_dir_at d table_lba (entries[slot := empty_entry])))"

definition remove_dir :: "disk \<Rightarrow> bytes \<Rightarrow> (fs_error + unit) \<times> disk" where
  "remove_dir d path =
     (case resolve_table d path of
        Inl e \<Rightarrow> (Inl e, d)
      | Inr (table_lba, nm) \<Rightarrow>
          let entries = load_dir_at d table_lba
          in (case position (used_named (name_bytes nm)) entries of
                None \<Rightarrow> (Inl NoSuchFile, d)
              | Some slot \<Rightarrow>
                  if \<not> e_is_dir (entries ! slot) then (Inl IsAFile, d)
                  else if list_ex e_used (load_dir_at d (e_start_lba (entries ! slot)))
                  then (Inl NotEmpty, d)
                  else save_dir_at d table_lba (entries[slot := empty_entry])))"

definition list_dir :: "disk \<Rightarrow> bytes option \<Rightarrow> fs_error + (bytes \<times> bool \<times> nat) list" where
  "list_dir d dir =
     (case (case dir of Some p \<Rightarrow> resolve_dir_lba d p | None \<Rightarrow> Inr DIR_LBA) of
        Inl e \<Rightarrow> Inl e
      | Inr lba \<Rightarrow>
          Inr (map (\<lambda>e. (name_str e, e_is_dir e, e_len e)) (filter e_used (load_dir_at d lba))))"

end
