(* ===== verification/Fs_Inv.thy ===== *)
theory Fs_Inv
  imports Fs
begin

text \<open>
  What a disk means and when it is sound.  \<open>tree\<close> reads a directory table and everything below
  it as a map from (16-byte, zero-padded) names to files and directories: the abstract
  filesystem.  \<open>fp\<close> is the set of pool sectors a table's entries own, transitively.  \<open>wf_dir\<close>
  says that the table is well formed: names are unique, every entry lies in the pool with the
  sector count its kind and length demand, no two entries share a sector, and every
  subdirectory is well formed in turn, within the number of levels the occupancy scan visits.
  The central lemma \<open>update_path\<close> says how all three change when one table, at the end of a
  path, is replaced.
\<close>

section \<open>The abstract filesystem\<close>

datatype node = File bytes | Dir "bytes \<Rightarrow> node option"

type_synonym dirmap = "bytes \<Rightarrow> node option"

fun dir_at :: "dirmap \<Rightarrow> bytes list \<Rightarrow> dirmap option" where
  "dir_at m [] = Some m"
| "dir_at m (c # cs) = (case m c of Some (Dir m') \<Rightarrow> dir_at m' cs | _ \<Rightarrow> None)"

fun upd_at :: "dirmap \<Rightarrow> bytes list \<Rightarrow> (dirmap \<Rightarrow> dirmap) \<Rightarrow> dirmap" where
  "upd_at m [] f = f m"
| "upd_at m (c # cs) f =
     (case m c of Some (Dir m') \<Rightarrow> m(c \<mapsto> Dir (upd_at m' cs f)) | _ \<Rightarrow> m)"

definition file_data :: "disk \<Rightarrow> dir_entry \<Rightarrow> bytes" where
  "file_data d e =
     (case read_blocks fs_read d (e_start_lba e) (e_sector_count e) of
        Inr b \<Rightarrow> take (e_len e) b | Inl _ \<Rightarrow> [])"

fun tree :: "disk \<Rightarrow> nat \<Rightarrow> nat \<Rightarrow> dirmap" where
  "tree d 0 lba = Map.empty"
| "tree d (Suc k) lba = (\<lambda>n.
     case find (used_named n) (load_dir_at d lba) of
       None \<Rightarrow> None
     | Some e \<Rightarrow> Some (if e_is_dir e then Dir (tree d k (e_start_lba e)) else File (file_data d e)))"

definition enode :: "disk \<Rightarrow> nat \<Rightarrow> dir_entry \<Rightarrow> node" where
  "enode d k e = (if e_is_dir e then Dir (tree d k (e_start_lba e)) else File (file_data d e))"

lemma tree_Suc:
  "tree d (Suc k) lba n = map_option (enode d k) (find (used_named n) (load_dir_at d lba))"
  by (simp add: enode_def split: option.split)

section \<open>Sectors owned and well-formedness\<close>

definition span :: "dir_entry \<Rightarrow> nat set" where
  "span e = {e_start_lba e..<e_start_lba e + e_sector_count e}"

fun fp :: "disk \<Rightarrow> nat \<Rightarrow> nat \<Rightarrow> nat set" where
  "fp d 0 lba = {}"
| "fp d (Suc k) lba =
     (\<Union>e \<in> {e \<in> set (load_dir_at d lba). e_used e}.
        span e \<union> (if e_is_dir e then fp d k (e_start_lba e) else {}))"

definition efp :: "disk \<Rightarrow> nat \<Rightarrow> dir_entry \<Rightarrow> nat set" where
  "efp d k e = span e \<union> (if e_is_dir e then fp d k (e_start_lba e) else {})"

definition fresh_names :: "dir_entry list \<Rightarrow> bool" where
  "fresh_names t \<longleftrightarrow> (\<forall>i < length t. \<forall>m < length t. e_used (t ! i) \<longrightarrow> e_used (t ! m)
     \<longrightarrow> e_name (t ! i) = e_name (t ! m) \<longrightarrow> i = m)"

fun wf_dir :: "disk \<Rightarrow> nat \<Rightarrow> nat \<Rightarrow> bool" where
  "wf_dir d 0 lba = False"
| "wf_dir d (Suc k) lba =
     (let t = load_dir_at d lba
      in fresh_names t
       \<and> (\<forall>i < 8. \<forall>m < 8. i \<noteq> m \<longrightarrow> e_used (t ! i) \<longrightarrow> e_used (t ! m)
            \<longrightarrow> efp d k (t ! i) \<inter> efp d k (t ! m) = {})
       \<and> (\<forall>i < 8. e_used (t ! i) \<longrightarrow>
            span (t ! i) \<subseteq> {2..<66}
            \<and> (if e_is_dir (t ! i)
               then e_sector_count (t ! i) = 1 \<and> e_start_lba (t ! i) \<notin> fp d k (e_start_lba (t ! i))
                    \<and> wf_dir d k (e_start_lba (t ! i))
               else e_len (t ! i) \<le> 4096 \<and> e_sector_count (t ! i) = (e_len (t ! i) + 511) div 512)))"

definition wf_entry :: "disk \<Rightarrow> nat \<Rightarrow> dir_entry \<Rightarrow> bool" where
  "wf_entry d k e \<longleftrightarrow> span e \<subseteq> {2..<66}
     \<and> (if e_is_dir e
        then e_sector_count e = 1 \<and> e_start_lba e \<notin> fp d k (e_start_lba e) \<and> wf_dir d k (e_start_lba e)
        else e_len e \<le> 4096 \<and> e_sector_count e = (e_len e + 511) div 512)"

definition disjoint_entries :: "disk \<Rightarrow> nat \<Rightarrow> dir_entry list \<Rightarrow> bool" where
  "disjoint_entries d k t \<longleftrightarrow> (\<forall>i < 8. \<forall>m < 8. i \<noteq> m \<longrightarrow> e_used (t ! i) \<longrightarrow> e_used (t ! m)
     \<longrightarrow> efp d k (t ! i) \<inter> efp d k (t ! m) = {})"

lemma wf_dir_Suc:
  "wf_dir d (Suc k) lba \<longleftrightarrow> fresh_names (load_dir_at d lba) \<and> disjoint_entries d k (load_dir_at d lba)
     \<and> (\<forall>i < 8. e_used (load_dir_at d lba ! i) \<longrightarrow> wf_entry d k (load_dir_at d lba ! i))"
  by (simp only: wf_dir.simps Let_def wf_entry_def disjoint_entries_def)

lemma fp_Suc: "fp d (Suc k) lba = (\<Union>i \<in> {i. i < 8 \<and> e_used (load_dir_at d lba ! i)}. efp d k (load_dir_at d lba ! i))"
proof -
  have "{e \<in> set (load_dir_at d lba). e_used e}
      = (\<lambda>i. load_dir_at d lba ! i) ` {i. i < 8 \<and> e_used (load_dir_at d lba ! i)}"
    by (auto simp: set_conv_nth)
  then show ?thesis by (simp only: fp.simps efp_def image_image)
qed

lemmas dir_unfold = wf_dir_Suc fp_Suc

declare wf_dir.simps(2) [simp del] fp.simps(2) [simp del] tree.simps(2) [simp del]

lemma span_bound: "span e \<subseteq> {2..<66} \<Longrightarrow> e_sector_count e = 0 \<or> e_start_lba e + e_sector_count e \<le> 66"
  by (auto simp: span_def dest: atLeastLessThan_subset_iff)

lemma wf_dir_pos: "wf_dir d k lba \<Longrightarrow> \<exists>j. k = Suc j"
  by (cases k) auto

lemma start_in_efp: "wf_entry d k e \<Longrightarrow> e_is_dir e \<Longrightarrow> e_start_lba e \<in> efp d k e"
  by (auto simp: wf_entry_def efp_def span_def)

section \<open>Frames\<close>

definition agree :: "nat set \<Rightarrow> disk \<Rightarrow> disk \<Rightarrow> bool" where
  "agree S d d' \<longleftrightarrow> (\<forall>l \<in> S. read_sector d' l = read_sector d l)"

lemma agree_mono: "agree S d d' \<Longrightarrow> S' \<subseteq> S \<Longrightarrow> agree S' d d'"
  by (auto simp: agree_def)

lemma agree_refl [simp]: "agree S d d"
  by (simp add: agree_def)

lemma agree_trans: "agree S d d1 \<Longrightarrow> agree S d1 d2 \<Longrightarrow> agree S d d2"
  by (simp add: agree_def)

lemma agree_table: "agree S d d' \<Longrightarrow> lba \<in> S \<Longrightarrow> load_dir_at d' lba = load_dir_at d lba"
  by (rule load_dir_cong) (simp add: agree_def)

lemma file_data_frame: "agree (span e) d d' \<Longrightarrow> file_data d' e = file_data d e"
proof -
  assume a: "agree (span e) d d'"
  have "read_blocks fs_read d' (e_start_lba e) (e_sector_count e)
      = read_blocks fs_read d (e_start_lba e) (e_sector_count e)"
    by (rule fs_dev.read_blocks_cong) (use a in \<open>simp add: agree_def span_def fs_read_def\<close>)
  then show ?thesis by (simp add: file_data_def)
qed

lemma frame:
  "wf_dir d k lba \<Longrightarrow> agree (insert lba (fp d k lba)) d d' \<Longrightarrow>
     fp d' k lba = fp d k lba \<and> wf_dir d' k lba \<and> tree d' k lba = tree d k lba"
proof (induction k arbitrary: lba)
  case 0
  then show ?case by simp
next
  case (Suc k)
  let ?t = "load_dir_at d lba"
  have t: "load_dir_at d' lba = ?t"
    using Suc.prems(2) by (rule agree_table) simp
  have e: "efp d' k (?t ! i) = efp d k (?t ! i) \<and> wf_entry d' k (?t ! i) \<and> enode d' k (?t ! i) = enode d k (?t ! i)"
    if "i < 8" "e_used (?t ! i)" for i
  proof -
    let ?e = "?t ! i"
    have wfe: "wf_entry d k ?e" using Suc.prems(1) that by (simp add: wf_dir_Suc)
    have ag: "agree (efp d k ?e) d d'"
      by (rule agree_mono [OF Suc.prems(2)]) (use that in \<open>auto simp: fp_Suc\<close>)
    show ?thesis
    proof (cases "e_is_dir ?e")
      case True
      have sub: "insert (e_start_lba ?e) (fp d k (e_start_lba ?e)) \<subseteq> efp d k ?e"
        using start_in_efp [OF wfe True] True by (auto simp: efp_def)
      have "wf_dir d k (e_start_lba ?e)" using wfe True by (simp add: wf_entry_def)
      from Suc.IH [OF this agree_mono [OF ag sub]] wfe True show ?thesis
        by (auto simp: wf_entry_def efp_def enode_def)
    next
      case False
      then have "file_data d' ?e = file_data d ?e"
        by (intro file_data_frame agree_mono [OF ag]) (auto simp: efp_def)
      with wfe False show ?thesis by (auto simp: wf_entry_def efp_def enode_def)
    qed
  qed
  have "fp d' (Suc k) lba = fp d (Suc k) lba"
    using e by (simp add: fp_Suc t)
  moreover have "wf_dir d' (Suc k) lba"
    using Suc.prems(1) e by (simp add: wf_dir_Suc t disjoint_entries_def)
  moreover have "tree d' (Suc k) lba = tree d (Suc k) lba"
  proof
    fix n
    show "tree d' (Suc k) lba n = tree d (Suc k) lba n"
    proof (cases "find (used_named n) ?t")
      case (Some x)
      then obtain i where "i < 8" "x = ?t ! i" "e_used x"
        by (auto simp: find_Some_iff used_named_def)
      with e Some show ?thesis by (simp add: tree_Suc t)
    qed (simp add: tree_Suc t)
  qed
  ultimately show ?case by blast
qed

section \<open>Replacing one entry of one table\<close>

definition others :: "disk \<Rightarrow> nat \<Rightarrow> dir_entry list \<Rightarrow> nat \<Rightarrow> nat set" where
  "others d k t i = (\<Union>m \<in> {m. m < 8 \<and> m \<noteq> i \<and> e_used (t ! m)}. efp d k (t ! m))"

definition own :: "disk \<Rightarrow> nat \<Rightarrow> dir_entry \<Rightarrow> nat set" where
  "own d k e = (if e_used e then efp d k e else {})"

lemma fp_split: "i < 8 \<Longrightarrow> fp d (Suc k) lba = others d k (load_dir_at d lba) i \<union> own d k (load_dir_at d lba ! i)"
  by (auto simp: fp_Suc others_def own_def)

lemma own_others_disjoint:
  assumes "disjoint_entries d k t" "i < 8"
  shows "own d k (t ! i) \<inter> others d k t i = {}"
proof -
  have "efp d k (t ! i) \<inter> efp d k (t ! m) = {}" if "e_used (t ! i)" "m < 8" "m \<noteq> i" "e_used (t ! m)" for m
    using assms that unfolding disjoint_entries_def by metis
  then show ?thesis by (auto simp: own_def others_def)
qed

lemma find_used_named:
  assumes "fresh_names t" "i < length t" "e_used (t ! i)"
  shows "find (used_named (e_name (t ! i))) t = Some (t ! i)"
proof -
  have "position (used_named (e_name (t ! i))) t = Some i"
    by (rule position_unique) (use assms in \<open>auto simp: used_named_def fresh_names_def\<close>)
  then show ?thesis by (simp add: find_position)
qed

lemma find_used_named_other:
  assumes "i < length t" "\<not> used_named n e'" "\<not> used_named n (t ! i)"
  shows "find (used_named n) (t[i := e']) = find (used_named n) t"
proof -
  have p: "position (used_named n) (t[i := e']) = position (used_named n) t"
    by (rule position_cong) (use assms in \<open>auto simp: nth_list_update\<close>)
  show ?thesis
  proof (cases "position (used_named n) t")
    case (Some m)
    with assms(3) have "m \<noteq> i" by (auto dest!: position_SomeD(2))
    then show ?thesis by (simp add: find_position p Some)
  qed (simp add: find_position p)
qed

lemma find_used_named_removed:
  assumes "fresh_names t" "i < length t" "e_used (t ! i)" "n = e_name (t ! i)"
    and "e_used e' \<Longrightarrow> e_name e' \<noteq> n"
  shows "find (used_named n) (t[i := e']) = None"
  using assms by (auto simp: find_None_iff set_conv_nth nth_list_update used_named_def fresh_names_def)

definition entry_update :: "dir_entry \<Rightarrow> dir_entry \<Rightarrow> node \<Rightarrow> dirmap \<Rightarrow> dirmap" where
  "entry_update old e' v m =
     (let m1 = (if e_used old then m(e_name old := None) else m)
      in if e_used e' then m1(e_name e' \<mapsto> v) else m1)"

lemma others_kept:
  assumes wf: "wf_dir d (Suc k) lba" and ag: "agree (others d k (load_dir_at d lba) i) d d'"
    and m: "m < 8" "m \<noteq> i" "e_used (load_dir_at d lba ! m)"
  shows "efp d' k (load_dir_at d lba ! m) = efp d k (load_dir_at d lba ! m)"
    and "wf_entry d' k (load_dir_at d lba ! m)"
    and "enode d' k (load_dir_at d lba ! m) = enode d k (load_dir_at d lba ! m)"
proof -
  let ?e = "load_dir_at d lba ! m"
  have w: "wf_entry d k ?e" using wf m by (simp add: wf_dir_Suc)
  have a: "agree (efp d k ?e) d d'"
    by (rule agree_mono [OF ag]) (use m in \<open>auto simp: others_def\<close>)
  have "efp d' k ?e = efp d k ?e \<and> wf_entry d' k ?e \<and> enode d' k ?e = enode d k ?e"
  proof (cases "e_is_dir ?e")
    case True
    have "insert (e_start_lba ?e) (fp d k (e_start_lba ?e)) \<subseteq> efp d k ?e"
      using start_in_efp [OF w True] True by (auto simp: efp_def)
    from frame [OF _ agree_mono [OF a this]] w True show ?thesis
      by (auto simp: wf_entry_def efp_def enode_def)
  next
    case False
    then have "file_data d' ?e = file_data d ?e"
      by (intro file_data_frame agree_mono [OF a]) (auto simp: efp_def)
    with w False show ?thesis by (auto simp: wf_entry_def efp_def enode_def)
  qed
  then show "efp d' k ?e = efp d k ?e" "wf_entry d' k ?e" "enode d' k ?e = enode d k ?e" by auto
qed

text \<open>One slot of a table is overwritten; every other entry of it keeps its sectors.\<close>

lemma table_step:
  assumes wf: "wf_dir d (Suc k) lba" and i: "i < 8"
    and t': "load_dir_at d' lba = (load_dir_at d lba)[i := e']"
    and ag: "agree (others d k (load_dir_at d lba) i) d d'"
    and new: "e_used e' \<Longrightarrow> wf_entry d' k e'"
    and disj: "e_used e' \<Longrightarrow> efp d' k e' \<inter> others d k (load_dir_at d lba) i = {}"
    and fresh: "e_used e' \<Longrightarrow> \<forall>m < 8. m \<noteq> i \<longrightarrow> e_used (load_dir_at d lba ! m)
                  \<longrightarrow> e_name (load_dir_at d lba ! m) \<noteq> e_name e'"
  shows "wf_dir d' (Suc k) lba"
    and "fp d' (Suc k) lba = others d k (load_dir_at d lba) i \<union> own d' k e'"
proof -
  let ?t = "load_dir_at d lba"
  note keep = others_kept [OF wf ag]
  have oth: "others d' k (load_dir_at d' lba) i = others d k ?t i"
    using keep(1) by (auto simp: others_def t')
  show fp: "fp d' (Suc k) lba = others d k ?t i \<union> own d' k e'"
    using i by (simp add: fp_split [OF i] oth) (simp add: t')
  have "fresh_names (?t[i := e'])"
    using wf fresh i unfolding fresh_names_def wf_dir_Suc by (auto simp: nth_list_update)
  moreover have "efp d' k (?t[i := e'] ! a) \<inter> efp d' k (?t[i := e'] ! b) = {}"
    if "a < 8" "b < 8" "a \<noteq> b" "e_used (?t[i := e'] ! a)" "e_used (?t[i := e'] ! b)" for a b
  proof -
    have o: "efp d k (?t ! m) \<subseteq> others d k ?t i" if "m < 8" "m \<noteq> i" "e_used (?t ! m)" for m
      using that by (auto simp: others_def)
    consider "a = i" "b \<noteq> i" | "b = i" "a \<noteq> i" | "a \<noteq> i" "b \<noteq> i" using \<open>a \<noteq> b\<close> by auto
    then show ?thesis
    proof cases
      case 1
      then show ?thesis using that i disj keep(1) [of b] o [of b] by auto
    next
      case 2
      then show ?thesis using that i disj keep(1) [of a] o [of a] by auto
    next
      case 3
      then show ?thesis
        using that wf keep(1) [of a] keep(1) [of b] unfolding disjoint_entries_def wf_dir_Suc by simp
    qed
  qed
  ultimately show "wf_dir d' (Suc k) lba"
    using new keep(2) i by (auto simp: wf_dir_Suc t' nth_list_update disjoint_entries_def)
qed

lemma table_step_tree:
  assumes wf: "wf_dir d (Suc k) lba" "wf_dir d' (Suc k) lba" and i: "i < 8"
    and t': "load_dir_at d' lba = (load_dir_at d lba)[i := e']"
    and ag: "agree (others d k (load_dir_at d lba) i) d d'"
  shows "tree d' (Suc k) lba
           = entry_update (load_dir_at d lba ! i) e' (enode d' k e') (tree d (Suc k) lba)"
proof
  fix n
  let ?t = "load_dir_at d lba"
  let ?upd = "entry_update (?t ! i) e' (enode d' k e') (tree d (Suc k) lba)"
  have fn: "fresh_names ?t" "fresh_names (?t[i := e'])"
    using wf t' by (simp_all add: wf_dir_Suc)
  consider "used_named n e'" | "\<not> used_named n e'" "used_named n (?t ! i)"
    | "\<not> used_named n e'" "\<not> used_named n (?t ! i)" by blast
  then show "tree d' (Suc k) lba n = ?upd n"
  proof cases
    case 1
    then have "find (used_named n) (?t[i := e']) = Some e'"
      using find_used_named [OF fn(2), of i] i by (simp add: used_named_def)
    with 1 show ?thesis by (simp add: tree_Suc t' entry_update_def Let_def used_named_def)
  next
    case 2
    then have "find (used_named n) (?t[i := e']) = None"
      by (intro find_used_named_removed [OF fn(1)]) (use i in \<open>auto simp: used_named_def\<close>)
    with 2 show ?thesis by (auto simp: tree_Suc t' entry_update_def Let_def used_named_def)
  next
    case 3
    then have f: "find (used_named n) (?t[i := e']) = find (used_named n) ?t"
      by (intro find_used_named_other) (use i in auto)
    have "map_option (enode d' k) (find (used_named n) ?t) = map_option (enode d k) (find (used_named n) ?t)"
    proof (cases "find (used_named n) ?t")
      case (Some x)
      then obtain m where m: "m < 8" "x = ?t ! m" "used_named n x" by (auto simp: find_Some_iff)
      with 3 have "m \<noteq> i" "e_used (?t ! m)" by (auto simp: used_named_def)
      with others_kept(3) [OF wf(1) ag] m Some show ?thesis by simp
    qed simp
    with f 3 show ?thesis by (auto simp: tree_Suc t' entry_update_def Let_def used_named_def)
  qed
qed

section \<open>Walking and updating along a path\<close>

fun walk :: "disk \<Rightarrow> nat \<Rightarrow> bytes list \<Rightarrow> nat option" where
  "walk d lba [] = Some lba"
| "walk d lba (n # ns) =
     (case find (used_named n) (load_dir_at d lba) of
        Some e \<Rightarrow> if e_is_dir e then walk d (e_start_lba e) ns else None
      | None \<Rightarrow> None)"

lemma walk_ConsE:
  assumes "walk d lba (n # ns) = Some T"
  obtains i where "i < 8" "used_named n (load_dir_at d lba ! i)" "e_is_dir (load_dir_at d lba ! i)"
    "walk d (e_start_lba (load_dir_at d lba ! i)) ns = Some T"
    "find (used_named n) (load_dir_at d lba) = Some (load_dir_at d lba ! i)"
  using assms by (auto simp: find_Some_iff split: option.splits if_splits)

lemma walk_inside:
  "wf_dir d k lba \<Longrightarrow> walk d lba ns = Some T \<Longrightarrow>
     \<exists>j. k = length ns + Suc j \<and> wf_dir d (Suc j) T \<and> fp d (Suc j) T \<subseteq> fp d k lba
       \<and> (ns = [] \<and> T = lba \<or> T \<in> fp d k lba) \<and> (lba \<notin> fp d k lba \<longrightarrow> T \<notin> fp d (Suc j) T)
       \<and> dir_at (tree d k lba) ns = Some (tree d (Suc j) T)"
proof (induction ns arbitrary: k lba)
  case Nil
  then show ?case by (auto dest: wf_dir_pos)
next
  case (Cons n ns)
  obtain k' where k: "k = Suc k'" using Cons.prems(1) by (auto dest: wf_dir_pos)
  obtain i where i: "i < 8" "used_named n (load_dir_at d lba ! i)" "e_is_dir (load_dir_at d lba ! i)"
    and w: "walk d (e_start_lba (load_dir_at d lba ! i)) ns = Some T"
    and f: "find (used_named n) (load_dir_at d lba) = Some (load_dir_at d lba ! i)"
    using Cons.prems(2) by (rule walk_ConsE)
  let ?e = "load_dir_at d lba ! i"
  have we: "wf_entry d k' ?e"
    using Cons.prems(1) i by (simp add: k wf_dir_Suc used_named_def)
  then have wd: "wf_dir d k' (e_start_lba ?e)" and nin: "e_start_lba ?e \<notin> fp d k' (e_start_lba ?e)"
    using i(3) by (auto simp: wf_entry_def)
  have "efp d k' ?e \<subseteq> fp d k lba" using i by (auto simp: k fp_Suc used_named_def)
  then have sub: "insert (e_start_lba ?e) (fp d k' (e_start_lba ?e)) \<subseteq> fp d k lba"
    using start_in_efp [OF we i(3)] i(3) by (auto simp: efp_def)
  have t: "tree d k lba n = Some (Dir (tree d k' (e_start_lba ?e)))"
    using f i(3) by (simp add: k tree_Suc enode_def)
  from Cons.IH [OF wd w] sub nin t show ?case by (auto simp: k)
qed

lemma update_path:
  assumes "wf_dir d k lba" "lba \<notin> fp d k lba" "walk d lba ns = Some T" "k = length ns + j"
    and "agree (insert lba (fp d k lba) - insert T (fp d j T)) d d'"
    and "wf_dir d' j T" "fp d' j T \<inter> (insert lba (fp d k lba) - fp d j T) = {}"
  shows "wf_dir d' k lba \<and> tree d' k lba = upd_at (tree d k lba) ns (\<lambda>_. tree d' j T)
       \<and> fp d' k lba = (fp d k lba - fp d j T) \<union> fp d' j T"
  using assms
proof (induction ns arbitrary: k lba)
  case Nil
  then show ?case by auto
next
  case (Cons n ns)
  obtain k' where k: "k = Suc k'" using Cons.prems(1) by (auto dest: wf_dir_pos)
  let ?t = "load_dir_at d lba"
  obtain i where i: "i < 8" "used_named n (?t ! i)" "e_is_dir (?t ! i)"
    and w: "walk d (e_start_lba (?t ! i)) ns = Some T"
    and f: "find (used_named n) ?t = Some (?t ! i)"
    using Cons.prems(3) by (rule walk_ConsE)
  let ?e = "?t ! i" and ?s = "e_start_lba (?t ! i)"
  have u: "e_used ?e" and nm: "e_name ?e = n" using i by (auto simp: used_named_def)
  have we: "wf_entry d k' ?e" using Cons.prems(1) i u by (simp add: k wf_dir_Suc)
  then have wd: "wf_dir d k' ?s" and nin: "?s \<notin> fp d k' ?s" and one: "e_sector_count ?e = 1"
    and sp: "span ?e \<subseteq> {2..<66}" using i(3) by (auto simp: wf_entry_def)
  have e_eq: "efp d k' ?e = insert ?s (fp d k' ?s)" using i(3) one by (auto simp: efp_def span_def)
  have k': "k' = length ns + j" using Cons.prems(4) k by simp
  from walk_inside [OF wd w] k' nin
  have T: "fp d j T \<subseteq> fp d k' ?s" "T = ?s \<and> ns = [] \<or> T \<in> fp d k' ?s" "T \<notin> fp d j T"
    by auto
  have split: "fp d k lba = others d k' ?t i \<union> insert ?s (fp d k' ?s)"
    using fp_split [OF i(1), of d k' lba] u e_eq by (simp add: k own_def)
  have dis: "others d k' ?t i \<inter> insert ?s (fp d k' ?s) = {}"
    using own_others_disjoint [of d k' ?t i] Cons.prems(1) i u e_eq by (auto simp: k wf_dir_Suc own_def)
  have ih: "wf_dir d' k' ?s \<and> tree d' k' ?s = upd_at (tree d k' ?s) ns (\<lambda>_. tree d' j T)
      \<and> fp d' k' ?s = (fp d k' ?s - fp d j T) \<union> fp d' j T"
    by (rule Cons.IH [OF wd nin w k' _ Cons.prems(6)])
      (use Cons.prems(5,7) split in \<open>auto elim: agree_mono\<close>)
  have t': "load_dir_at d' lba = ?t[i := ?e]"
    using agree_table [OF Cons.prems(5), of lba] T Cons.prems(2) split by auto
  have ag: "agree (others d k' ?t i) d d'"
    by (rule agree_mono [OF Cons.prems(5)]) (use T dis split in auto)
  have nin': "?s \<notin> fp d' k' ?s"
    using ih Cons.prems(7) T split nin by auto
  have e': "efp d' k' ?e = insert ?s (fp d' k' ?s)" using i(3) one by (auto simp: efp_def span_def)
  have we': "wf_entry d' k' ?e" using ih sp one i(3) nin' by (simp add: wf_entry_def)
  have dis': "efp d' k' ?e \<inter> others d k' ?t i = {}"
    using ih e' dis Cons.prems(7) split T by auto
  have fr: "\<forall>m < 8. m \<noteq> i \<longrightarrow> e_used (?t ! m) \<longrightarrow> e_name (?t ! m) \<noteq> e_name ?e"
    using Cons.prems(1) i u by (auto simp: k wf_dir_Suc fresh_names_def)
  note wfd = Cons.prems(1) [unfolded k]
  have step: "wf_dir d' (Suc k') lba" "fp d' (Suc k') lba = others d k' ?t i \<union> own d' k' ?e"
    by (rule table_step [OF wfd i(1) t' ag]; use we' dis' fr in blast)+
  have "tree d' (Suc k') lba = entry_update ?e ?e (enode d' k' ?e) (tree d (Suc k') lba)"
    by (rule table_step_tree [OF wfd step(1) i(1) t' ag])
  then have "tree d' k lba = (tree d k lba)(n \<mapsto> Dir (tree d' k' ?s))"
    using u nm i(3) by (simp add: k entry_update_def enode_def)
  moreover have "tree d k lba n = Some (Dir (tree d k' ?s))"
    using f i(3) by (simp add: k tree_Suc enode_def)
  moreover have "fp d' k lba = (fp d k lba - fp d j T) \<union> fp d' j T"
    using step(2) u e' ih split dis T nin by (auto simp: k own_def)
  ultimately show ?case using step(1) ih by (simp add: k)
qed

end
