(* ===== verification/Fs_Ops.thy ===== *)
theory Fs_Ops
  imports Fs_Inv
begin

text \<open>
  The filesystem operations refine the abstract filesystem.  \<open>fs_ok\<close> is the invariant of a
  whole disk (a healthy pool and a well-formed root), \<open>fs_tree\<close> its abstract content.  Every
  operation preserves \<open>fs_ok\<close> whatever its outcome, an operation that succeeds acts on
  \<open>fs_tree\<close> as the corresponding map update, and one that fails before it writes leaves the
  disk as it was.
\<close>

definition fs_ok :: "disk \<Rightarrow> bool" where
  "fs_ok d \<longleftrightarrow> (\<forall>l < 66. disk_readable d l) \<and> wf_dir d 32 1"

definition fs_tree :: "disk \<Rightarrow> dirmap" where
  "fs_tree d = tree d 32 1"

definition dir_keys :: "bytes \<Rightarrow> bytes list" where
  "dir_keys path =
     (case rsplit_slash path of
        Some (dir, nm) \<Rightarrow> if dir = [] then [] else map name_bytes (split_slash dir)
      | None \<Rightarrow> [])"

definition leaf_key :: "bytes \<Rightarrow> bytes" where
  "leaf_key path = name_bytes (case rsplit_slash path of Some (dir, nm) \<Rightarrow> nm | None \<Rightarrow> path)"

lemma length_leaf_key [simp]: "length (leaf_key path) = 16"
  by (simp add: leaf_key_def)

section \<open>Path resolution\<close>

lemma resolve_from_walk:
  "resolve_from d cs depth lba = Inr T \<longleftrightarrow>
     walk d lba (map name_bytes cs) = Some T \<and> [] \<notin> set cs \<and> (cs = [] \<or> depth + length cs \<le> 32)"
proof (induction cs arbitrary: depth lba)
  case Nil
  show ?case by auto
next
  case (Cons c cs)
  show ?case
    by (cases "find (used_named (name_bytes c)) (load_dir_at d lba)") (auto simp: Cons)
qed

lemma resolve_dir_walk:
  assumes "resolve_dir_lba d path = Inr T"
  shows "walk d 1 (if path = [] then [] else map name_bytes (split_slash path)) = Some T"
  using assms by (auto simp: resolve_dir_lba_def resolve_from_walk split: if_splits)

lemma resolve_table_walk:
  assumes "resolve_table d path = Inr (T, nm)"
  shows "walk d 1 (dir_keys path) = Some T" "name_bytes nm = leaf_key path"
proof -
  show "walk d 1 (dir_keys path) = Some T"
  proof (cases "rsplit_slash path")
    case None
    with assms show ?thesis by (simp add: resolve_table_def dir_keys_def)
  next
    case (Some p)
    obtain dir n where p: "p = (dir, n)" by (cases p)
    with Some assms have "resolve_dir_lba d dir = Inr T"
      by (auto simp: resolve_table_def split: if_splits sum.splits)
    from resolve_dir_walk [OF this] Some p show ?thesis by (simp add: dir_keys_def)
  qed
  show "name_bytes nm = leaf_key path"
    using assms by (auto simp: resolve_table_def leaf_key_def split: option.splits if_splits sum.splits)
qed

section \<open>The root\<close>

lemma fp_pool: "wf_dir d k lba \<Longrightarrow> fp d k lba \<subseteq> {2..<66}"
proof (induction k arbitrary: lba)
  case 0
  then show ?case by simp
next
  case (Suc k)
  have "efp d k (load_dir_at d lba ! i) \<subseteq> {2..<66}" if "i < 8" "e_used (load_dir_at d lba ! i)" for i
  proof -
    have w: "wf_entry d k (load_dir_at d lba ! i)" using Suc.prems that by (simp add: wf_dir_Suc)
    then show ?thesis
      using Suc.IH [of "e_start_lba (load_dir_at d lba ! i)"]
      by (auto simp: wf_entry_def efp_def split: if_splits)
  qed
  then show ?case by (auto simp: fp_Suc)
qed

lemma root_outside: "fs_ok d \<Longrightarrow> 1 \<notin> fp d 32 1"
  using fp_pool [of d 32 1] by (auto simp: fs_ok_def)

text \<open>What a resolved table is to the root: \<open>j\<close> levels remain below it.\<close>

lemma resolved_table:
  assumes "fs_ok d" "resolve_table d path = Inr (T, nm)"
  obtains j where "32 = length (dir_keys path) + Suc j" "walk d 1 (dir_keys path) = Some T"
    "wf_dir d (Suc j) T" "fp d (Suc j) T \<subseteq> fp d 32 1" "T \<notin> fp d (Suc j) T" "T < 66"
    "T \<in> insert 1 (fp d 32 1)"
    "dir_at (fs_tree d) (dir_keys path) = Some (tree d (Suc j) T)"
proof -
  have w: "walk d 1 (dir_keys path) = Some T" using resolve_table_walk(1) [OF assms(2)] .
  have wf: "wf_dir d 32 1" using assms(1) by (simp add: fs_ok_def)
  obtain j where j: "32 = length (dir_keys path) + Suc j" "wf_dir d (Suc j) T"
    "fp d (Suc j) T \<subseteq> fp d 32 1" "T \<notin> fp d (Suc j) T" "T \<in> insert 1 (fp d 32 1)"
    "dir_at (tree d 32 1) (dir_keys path) = Some (tree d (Suc j) T)"
    using walk_inside [OF wf w] root_outside [OF assms(1)] by auto
  moreover have "T < 66" using j(5) fp_pool [OF wf] by auto
  ultimately show thesis using w that by (auto simp: fs_tree_def)
qed

section \<open>Committing a table\<close>

lemma save_dir_cases:
  assumes "save_dir_at d lba t = (r, d')" "lba < 66"
  shows "r = Inr () \<or> (r = Inl DiskError \<and> d' = d)"
  using assms by (auto simp: save_dir_at_def fs_write_def write_sector_def Let_def split: if_splits)

lemma save_dir_other:
  assumes "save_dir_at d lba t = (r, d')" "lba < 66"
  shows "agree ({..<66} - {lba}) d d'"
proof -
  have "snd (write_sector d lba (dir_image t)) = d'"
    using assms(1) by (auto simp: save_dir_at_def fs_write_def split: prod.splits sum.splits)
  moreover have "read_sector (snd (write_sector d lba (dir_image t))) l = read_sector d l"
    if "l < 66" "l \<noteq> lba" for l
    using ata_dev.rd_other [of lba l d "dir_image t"] that assms(2) by auto
  ultimately show ?thesis by (auto simp: agree_def)
qed

lemma save_dir_readable: "save_dir_at d lba t = (r, d') \<Longrightarrow> disk_readable d' l = disk_readable d l"
  using fs_dev.readable_wr [of d lba "dir_image t" l] by (simp add: save_dir_at_def)

lemma save_dir_load:
  assumes "save_dir_at d lba t = (Inr (), d')" "lba < 66" "table_ok t" "disk_readable d lba"
  shows "load_dir_at d' lba = t"
proof -
  have w: "fst (write_sector d lba (dir_image t)) = Inr ()" "snd (write_sector d lba (dir_image t)) = d'"
    using assms(1) by (auto simp: save_dir_at_def fs_write_def split: prod.splits sum.splits)
  then have "read_sector d' lba = Inr (dir_image t)"
    using ata_dev.rd_after_wr [OF w(1)] assms length_dir_image by auto
  then show ?thesis using assms(3) by (rule load_dir_image [rotated])
qed

text \<open>
  One slot of a resolved table holds a new entry whose sectors lie outside everything else that
  is in use: the disk stays sound and the abstract filesystem changes at that name only.
\<close>

lemma entry_changed:
  assumes ok: "fs_ok d" and res: "resolve_table d path = Inr (T, nm)" and i: "i < 8"
    and j: "32 = length (dir_keys path) + Suc j"
    and t': "load_dir_at d2 T = (load_dir_at d T)[i := e']"
    and rest: "agree (insert 1 (fp d 32 1) - own d j (load_dir_at d T ! i) - {T}) d d2"
    and rd2: "\<forall>l < 66. disk_readable d2 l"
    and new: "e_used e' \<Longrightarrow> wf_entry d2 j e'
                \<and> efp d2 j e' \<inter> (insert 1 (fp d 32 1) - own d j (load_dir_at d T ! i)) = {}"
    and fresh: "e_used e' \<Longrightarrow> \<forall>m < 8. m \<noteq> i \<longrightarrow> e_used (load_dir_at d T ! m)
                  \<longrightarrow> e_name (load_dir_at d T ! m) \<noteq> e_name e'"
  shows "fs_ok d2"
    and "fs_tree d2 = upd_at (fs_tree d) (dir_keys path)
           (entry_update (load_dir_at d T ! i) e' (enode d2 j e'))"
proof -
  let ?t = "load_dir_at d T"
  obtain j' where J: "32 = length (dir_keys path) + Suc j'" "walk d 1 (dir_keys path) = Some T"
    "wf_dir d (Suc j') T" "fp d (Suc j') T \<subseteq> fp d 32 1" "T \<notin> fp d (Suc j') T" "T < 66"
    "T \<in> insert 1 (fp d 32 1)" "dir_at (fs_tree d) (dir_keys path) = Some (tree d (Suc j') T)"
    using resolved_table [OF ok res] by metis
  have jj: "j' = j" using J(1) j by simp
  note J = J [unfolded jj]
  have wf: "wf_dir d 32 1" and root: "1 \<notin> fp d 32 1"
    using ok root_outside by (auto simp: fs_ok_def)
  have split: "fp d (Suc j) T = others d j ?t i \<union> own d j (?t ! i)" by (rule fp_split [OF i])
  have dis: "own d j (?t ! i) \<inter> others d j ?t i = {}"
    using J(3) i by (intro own_others_disjoint) (auto simp: wf_dir_Suc)
  have ag: "agree (others d j ?t i) d d2"
    by (rule agree_mono [OF rest]) (use J(4,5) split dis in auto)
  have dn: "efp d2 j e' \<inter> others d j ?t i = {}" if "e_used e'"
    using new [OF that] J(4) split dis by auto
  have step: "wf_dir d2 (Suc j) T" "fp d2 (Suc j) T = others d j ?t i \<union> own d2 j e'"
    by (rule table_step [OF J(3) i t' ag]; use new dn fresh in blast)+
  have tr: "tree d2 (Suc j) T = entry_update (?t ! i) e' (enode d2 j e') (tree d (Suc j) T)"
    by (rule table_step_tree [OF J(3) step(1) i t' ag])
  have own': "own d2 j e' \<inter> (insert 1 (fp d 32 1) - own d j (?t ! i)) = {}"
    using new by (auto simp: own_def)
  have up: "wf_dir d2 32 1 \<and> tree d2 32 1 = upd_at (tree d 32 1) (dir_keys path) (\<lambda>_. tree d2 (Suc j) T)
       \<and> fp d2 32 1 = (fp d 32 1 - fp d (Suc j) T) \<union> fp d2 (Suc j) T"
  proof (rule update_path [OF wf root J(2) J(1) _ step(1)])
    show "agree (insert 1 (fp d 32 1) - insert T (fp d (Suc j) T)) d d2"
      by (rule agree_mono [OF rest]) (use split in auto)
    show "fp d2 (Suc j) T \<inter> (insert 1 (fp d 32 1) - fp d (Suc j) T) = {}"
      using step(2) split own' by auto
  qed
  show "fs_ok d2" using up rd2 by (simp add: fs_ok_def)
  have "upd_at m ns (\<lambda>_. f x) = upd_at m ns f" if "dir_at m ns = Some x" for m ns f and x :: dirmap
    using that by (induction m ns f rule: upd_at.induct) (auto split: option.splits node.splits)
  from this [OF J(8)] tr up show "fs_tree d2 = upd_at (fs_tree d) (dir_keys path)
           (entry_update (?t ! i) e' (enode d2 j e'))"
    by (simp add: fs_tree_def)
qed

lemma commit_entry:
  assumes ok: "fs_ok d" and res: "resolve_table d path = Inr (T, nm)" and i: "i < 8"
    and j: "32 = length (dir_keys path) + Suc j"
    and d1: "agree (insert 1 (fp d 32 1) - own d j (load_dir_at d T ! i)) d d1"
    and rd1: "\<forall>l < 66. disk_readable d1 l"
    and save: "save_dir_at d1 T ((load_dir_at d T)[i := e']) = (Inr (), d2)"
    and eok: "entry_ok e'"
    and new: "e_used e' \<Longrightarrow> wf_entry d2 j e'
                \<and> efp d2 j e' \<inter> (insert 1 (fp d 32 1) - own d j (load_dir_at d T ! i)) = {}"
    and fresh: "e_used e' \<Longrightarrow> \<forall>m < 8. m \<noteq> i \<longrightarrow> e_used (load_dir_at d T ! m)
                  \<longrightarrow> e_name (load_dir_at d T ! m) \<noteq> e_name e'"
  shows "fs_ok d2"
    and "fs_tree d2 = upd_at (fs_tree d) (dir_keys path)
           (entry_update (load_dir_at d T ! i) e' (enode d2 j e'))"
proof -
  have T: "T < 66" using resolved_table [OF ok res] by metis
  have pool: "fp d 32 1 \<subseteq> {2..<66}" using ok fp_pool by (auto simp: fs_ok_def)
  have t': "load_dir_at d2 T = (load_dir_at d T)[i := e']"
    by (rule save_dir_load [OF save T]) (use rd1 T eok in \<open>auto intro: table_ok_update\<close>)
  have rest: "agree (insert 1 (fp d 32 1) - own d j (load_dir_at d T ! i) - {T}) d d2"
    by (rule agree_trans [OF agree_mono [OF d1] agree_mono [OF save_dir_other [OF save T]]])
      (use pool in auto)
  have rd2: "\<forall>l < 66. disk_readable d2 l" using rd1 save_dir_readable [OF save] by simp
  show "fs_ok d2"
    by (rule entry_changed(1) [OF ok res i j t' rest rd2]; use new fresh in blast)
  show "fs_tree d2 = upd_at (fs_tree d) (dir_keys path)
           (entry_update (load_dir_at d T ! i) e' (enode d2 j e'))"
    by (rule entry_changed(2) [OF ok res i j t' rest rd2]; use new fresh in blast)
qed

section \<open>Occupied sectors\<close>

lemma collect_ranges:
  "wf_dir d k lba \<Longrightarrow> depth + k = 32 \<Longrightarrow>
     (\<forall>(s, c) \<in> set (collect_occupied_at d lba depth). 0 < c \<and> s + c \<le> 66)
     \<and> (\<Union>(s, c) \<in> set (collect_occupied_at d lba depth). {s..<s + c}) = fp d k lba"
proof (induction k arbitrary: lba depth)
  case 0
  then show ?case by simp
next
  case (Suc k)
  define g where "g e = (if \<not> e_used e \<or> e_sector_count e = 0 then []
     else (e_start_lba e, e_sector_count e)
        # (if e_is_dir e then collect_occupied_at d (e_start_lba e) (depth + 1) else []))" for e :: dir_entry
  have col: "collect_occupied_at d lba depth = concat (map g (load_dir_at d lba))"
    using Suc.prems(2) unfolding g_def by (subst collect_occupied_at.simps) simp
  have one: "(\<forall>(s, c) \<in> set (g e). 0 < c \<and> s + c \<le> 66) \<and> (\<Union>(s, c) \<in> set (g e). {s..<s + c}) = own d k e"
    if "e \<in> set (load_dir_at d lba)" for e
  proof (cases "e_used e")
    case False
    then show ?thesis by (simp add: g_def own_def)
  next
    case True
    obtain i where "i < 8" "e = load_dir_at d lba ! i"
      using \<open>e \<in> set (load_dir_at d lba)\<close> by (auto simp: in_set_conv_nth)
    with True Suc.prems(1) have w: "wf_entry d k e" by (simp add: wf_dir_Suc)
    show ?thesis
    proof (cases "e_is_dir e")
      case dir: True
      with w Suc.IH [of "e_start_lba e" "depth + 1"] Suc.prems(2)
      show ?thesis using True by (auto simp: wf_entry_def g_def own_def efp_def span_def)
    next
      case False
      have "e_sector_count e = 0 \<or> e_start_lba e + e_sector_count e \<le> 66"
        using w by (intro span_bound) (simp add: wf_entry_def)
      then show ?thesis using True False by (auto simp: g_def own_def efp_def span_def)
    qed
  qed
  have "(\<Union>e \<in> set (load_dir_at d lba). own d k e) = fp d (Suc k) lba"
    by (auto simp: fp.simps(2) own_def efp_def split: if_splits)
  moreover have "(\<Union>(s, c) \<in> set (collect_occupied_at d lba depth). {s..<s + c})
      = (\<Union>e \<in> set (load_dir_at d lba). \<Union>(s, c) \<in> set (g e). {s..<s + c})"
    by (simp add: col)
  moreover have "\<forall>(s, c) \<in> set (collect_occupied_at d lba depth). 0 < c \<and> s + c \<le> 66"
    using one by (auto simp: col)
  ultimately show ?case using one by simp
qed

lemma occupied_ok:
  assumes "fs_ok d"
  shows "ranges_ok (collect_occupied d ex)"
    and "free_span (collect_occupied d ex) a n \<Longrightarrow>
           {a..<a + n} \<inter> (fp d 32 1 - (case ex of Some (s, c) \<Rightarrow> {s..<s + c} | None \<Rightarrow> {})) = {}"
proof -
  have wf: "wf_dir d 32 1" using assms by (simp add: fs_ok_def)
  note c = collect_ranges [OF wf, of 0, simplified]
  let ?all = "collect_occupied_at d 1 0"
  have sub: "set (collect_occupied d ex) \<subseteq> set ?all"
    by (auto simp: collect_occupied_def Let_def split: option.splits dest: set_remove1_subset [THEN subsetD])
  then show "ranges_ok (collect_occupied d ex)"
    using c unfolding ranges_ok_def by fastforce
  assume free: "free_span (collect_occupied d ex) a n"
  have "l \<notin> {a..<a + n}" if l: "l \<in> fp d 32 1" "l \<notin> (case ex of Some (s, c) \<Rightarrow> {s..<s + c} | None \<Rightarrow> {})" for l
  proof -
    have "l \<in> (\<Union>(s, m) \<in> set ?all. {s..<s + m})" using c l(1) by simp
    then obtain s m where r: "(s, m) \<in> set ?all" "l \<in> {s..<s + m}" by blast
    have "(s, m) \<in> set (collect_occupied d ex)"
      using r l(2) by (auto simp: collect_occupied_def Let_def in_set_remove1 split: option.splits)
    then show ?thesis using free r(2) unfolding free_span_def by fastforce
  qed
  then show "{a..<a + n} \<inter> (fp d 32 1 - (case ex of Some (s, c) \<Rightarrow> {s..<s + c} | None \<Rightarrow> {})) = {}"
    by blast
qed

section \<open>The abstract operations\<close>

fun abs_resolve :: "dirmap \<Rightarrow> bytes list \<Rightarrow> nat \<Rightarrow> fs_error + dirmap" where
  "abs_resolve m [] depth = Inr m"
| "abs_resolve m (c # cs) depth =
     (if c = [] then Inl EmptyComponent
      else if 32 \<le> depth then Inl TooDeep
      else case m (name_bytes c) of
             None \<Rightarrow> Inl NoSuchDirectory
           | Some (File b) \<Rightarrow> Inl NotADirectory
           | Some (Dir m') \<Rightarrow> abs_resolve m' cs (Suc depth))"

definition abs_table :: "dirmap \<Rightarrow> bytes \<Rightarrow> fs_error + dirmap" where
  "abs_table m path =
     (case rsplit_slash path of
        Some (dir, nm) \<Rightarrow>
          if nm = [] then Inl MissingName
          else if dir = [] then Inr m else abs_resolve m (split_slash dir) 0
      | None \<Rightarrow> Inr m)"

definition abs_read_file :: "dirmap \<Rightarrow> bytes \<Rightarrow> fs_error + bytes" where
  "abs_read_file m path =
     (case abs_table m path of
        Inl e \<Rightarrow> Inl e
      | Inr m' \<Rightarrow>
          (case m' (leaf_key path) of
             None \<Rightarrow> Inl NoSuchFile
           | Some (Dir t) \<Rightarrow> Inl IsADirectory
           | Some (File b) \<Rightarrow> Inr b))"

definition abs_set :: "dirmap \<Rightarrow> bytes \<Rightarrow> node option \<Rightarrow> dirmap" where
  "abs_set m path v = upd_at m (dir_keys path) (\<lambda>m'. m'(leaf_key path := v))"

definition abs_write_file :: "dirmap \<Rightarrow> bytes \<Rightarrow> bytes \<Rightarrow> (fs_error + unit) \<times> dirmap" where
  "abs_write_file m path data =
     (if 4096 < length data then (Inl FileTooLarge, m)
      else case abs_table m path of
        Inl e \<Rightarrow> (Inl e, m)
      | Inr m' \<Rightarrow>
          (case m' (leaf_key path) of
             Some (Dir t) \<Rightarrow> (Inl IsADirectory, m)
           | _ \<Rightarrow> (Inr (), abs_set m path (Some (File data)))))"

definition abs_delete_file :: "dirmap \<Rightarrow> bytes \<Rightarrow> (fs_error + unit) \<times> dirmap" where
  "abs_delete_file m path =
     (case abs_table m path of
        Inl e \<Rightarrow> (Inl e, m)
      | Inr m' \<Rightarrow>
          (case m' (leaf_key path) of
             None \<Rightarrow> (Inl NoSuchFile, m)
           | Some (Dir t) \<Rightarrow> (Inl IsADirectory, m)
           | Some (File b) \<Rightarrow> (Inr (), abs_set m path None)))"

definition abs_make_dir :: "dirmap \<Rightarrow> bytes \<Rightarrow> (fs_error + unit) \<times> dirmap" where
  "abs_make_dir m path =
     (case abs_table m path of
        Inl e \<Rightarrow> (Inl e, m)
      | Inr m' \<Rightarrow>
          (case m' (leaf_key path) of
             Some v \<Rightarrow> (Inl AlreadyExists, m)
           | None \<Rightarrow> (Inr (), abs_set m path (Some (Dir Map.empty)))))"

definition abs_remove_dir :: "dirmap \<Rightarrow> bytes \<Rightarrow> (fs_error + unit) \<times> dirmap" where
  "abs_remove_dir m path =
     (case abs_table m path of
        Inl e \<Rightarrow> (Inl e, m)
      | Inr m' \<Rightarrow>
          (case m' (leaf_key path) of
             None \<Rightarrow> (Inl NoSuchFile, m)
           | Some (File b) \<Rightarrow> (Inl IsAFile, m)
           | Some (Dir t) \<Rightarrow> if t \<noteq> Map.empty then (Inl NotEmpty, m) else (Inr (), abs_set m path None)))"

text \<open>Resolution on the disk and in the abstract filesystem agree, errors included.\<close>

lemma resolve_from_abs:
  "wf_dir d k lba \<Longrightarrow>
     (case resolve_from d cs depth lba of
        Inl e \<Rightarrow> abs_resolve (tree d k lba) cs depth = Inl e
      | Inr T \<Rightarrow> \<exists>j. k = length cs + Suc j \<and> abs_resolve (tree d k lba) cs depth = Inr (tree d (Suc j) T))"
proof (induction cs arbitrary: k lba depth)
  case Nil
  then show ?case by (auto dest: wf_dir_pos)
next
  case (Cons c cs)
  obtain k' where k: "k = Suc k'" using Cons.prems by (auto dest: wf_dir_pos)
  show ?case
  proof (cases "find (used_named (name_bytes c)) (load_dir_at d lba)")
    case None
    then show ?thesis by (simp add: k tree_Suc)
  next
    case (Some e)
    then obtain i where i: "i < 8" "e = load_dir_at d lba ! i" "e_used e"
      by (auto simp: find_Some_iff used_named_def)
    with Cons.prems have "wf_entry d k' e" by (simp add: k wf_dir_Suc)
    then have "e_is_dir e \<Longrightarrow> wf_dir d k' (e_start_lba e)" by (simp add: wf_entry_def)
    from Cons.IH [OF this, of "Suc depth"] Some show ?thesis
      by (auto simp: k tree_Suc enode_def split: sum.splits)
  qed
qed

lemma resolve_table_abs:
  assumes ok: "fs_ok d"
  shows "resolve_table d path = Inl e \<Longrightarrow> abs_table (fs_tree d) path = Inl e"
    and "resolve_table d path = Inr (T, nm) \<Longrightarrow> 32 = length (dir_keys path) + Suc j
           \<Longrightarrow> abs_table (fs_tree d) path = Inr (tree d (Suc j) T)"
proof -
  have wf: "wf_dir d 32 1" using ok by (simp add: fs_ok_def)
  note r = resolve_from_abs [OF wf, where depth = 0]
  show "abs_table (fs_tree d) path = Inl e" if "resolve_table d path = Inl e"
  proof -
    obtain dir n where p: "rsplit_slash path = Some (dir, n)"
      using \<open>resolve_table d path = Inl e\<close> by (auto simp: resolve_table_def split: option.splits)
    show ?thesis
    proof (cases "n = [] \<or> dir = []")
      case True
      with that p show ?thesis
        by (auto simp: resolve_table_def resolve_dir_lba_def abs_table_def split: if_splits)
    next
      case False
      with that p have "resolve_from d (split_slash dir) 0 1 = Inl e"
        by (simp add: resolve_table_def resolve_dir_lba_def split: sum.splits)
      with r [of "split_slash dir"] False p show ?thesis by (simp add: abs_table_def fs_tree_def)
    qed
  qed
  assume a: "resolve_table d path = Inr (T, nm)" "32 = length (dir_keys path) + Suc j"
  show "abs_table (fs_tree d) path = Inr (tree d (Suc j) T)"
  proof (cases "rsplit_slash path")
    case None
    with a show ?thesis by (simp add: resolve_table_def abs_table_def fs_tree_def dir_keys_def)
  next
    case (Some p)
    obtain dir n where p: "p = (dir, n)" by (cases p)
    show ?thesis
    proof (cases "dir = []")
      case True
      with a Some p show ?thesis
        by (auto simp: resolve_table_def resolve_dir_lba_def abs_table_def fs_tree_def dir_keys_def
            split: if_splits)
    next
      case False
      with a Some p have "resolve_from d (split_slash dir) 0 1 = Inr T" "n \<noteq> []"
        and "32 = length (split_slash dir) + Suc j"
        by (auto simp: resolve_table_def resolve_dir_lba_def dir_keys_def split: if_splits sum.splits)
      moreover obtain j' where "32 = length (split_slash dir) + Suc j'"
        "abs_resolve (tree d 32 1) (split_slash dir) 0 = Inr (tree d (Suc j') T)"
        using r [of "split_slash dir"] \<open>resolve_from d (split_slash dir) 0 1 = Inr T\<close> by auto
      moreover have "j' = j" using calculation by simp
      ultimately show ?thesis using False Some p by (simp add: abs_table_def fs_tree_def)
    qed
  qed
qed

lemma leaf_lookup:
  assumes "fs_ok d" "resolve_table d path = Inr (T, nm)" "32 = length (dir_keys path) + Suc j"
  shows "tree d (Suc j) T (leaf_key path)
           = map_option (enode d j) (find (used_named (name_bytes nm)) (load_dir_at d T))"
  using resolve_table_walk(2) [OF assms(2)] by (simp add: tree_Suc)

section \<open>Reading\<close>

lemma read_blocks_ok:
  "(\<forall>l \<in> {a..<a + n}. disk_readable d l) \<Longrightarrow> a + n \<le> 2 ^ 32 \<Longrightarrow> \<exists>b. read_blocks fs_read d a n = Inr b"
proof (induction n arbitrary: a)
  case 0
  show ?case by simp
next
  case (Suc n)
  obtain c where "fs_read d a = Inr c"
    using Suc.prems by (auto simp: fs_read_def read_sector_def disk_readable_def Let_def)
  moreover obtain b where "read_blocks fs_read d (Suc a) n = Inr b"
    using Suc.IH [of "Suc a"] Suc.prems by auto
  ultimately show ?case by simp
qed

lemma table_entry_wf:
  assumes "fs_ok d" "resolve_table d path = Inr (T, nm)" "i < 8" "e_used (load_dir_at d T ! i)"
    and "32 = length (dir_keys path) + Suc j"
  shows "wf_entry d j (load_dir_at d T ! i)" "span (load_dir_at d T ! i) \<subseteq> fp d 32 1"
proof -
  obtain j' where J: "32 = length (dir_keys path) + Suc j'" "wf_dir d (Suc j') T" "fp d (Suc j') T \<subseteq> fp d 32 1"
    using resolved_table [OF assms(1,2)] by metis
  then have jj: "j' = j" using assms(5) by simp
  show "wf_entry d j (load_dir_at d T ! i)" using J assms by (simp add: jj wf_dir_Suc)
  show "span (load_dir_at d T ! i) \<subseteq> fp d 32 1"
    using J(3) assms(3,4) by (auto simp: jj fp_Suc efp_def)
qed

lemma file_data_ok:
  assumes "fs_ok d" "wf_entry d j e" "\<not> e_is_dir e"
  shows "e_sector_count e \<noteq> 0 \<Longrightarrow> \<exists>b. read_blocks fs_read d (e_start_lba e) (e_sector_count e) = Inr b"
proof -
  assume c: "e_sector_count e \<noteq> 0"
  have s: "span e \<subseteq> {2..<66}" using assms by (simp add: wf_entry_def)
  with c have "e_start_lba e + e_sector_count e \<le> 66"
    using span_bound [OF s] by simp
  then show ?thesis using assms(1) by (intro read_blocks_ok) (auto simp: fs_ok_def)
qed

lemma read_file_abs:
  assumes ok: "fs_ok d"
  shows "read_file d path = abs_read_file (fs_tree d) path"
proof (cases "resolve_table d path")
  case (Inl e)
  with resolve_table_abs(1) [OF ok Inl] show ?thesis by (simp add: read_file_def abs_read_file_def)
next
  case (Inr r)
  obtain T nm where r: "r = (T, nm)" by (cases r)
  note res = Inr [unfolded r]
  obtain j where j: "32 = length (dir_keys path) + Suc j" using resolved_table [OF ok res] by metis
  note look = leaf_lookup [OF ok res j] and tab = resolve_table_abs(2) [OF ok res j]
  show ?thesis
  proof (cases "find (used_named (name_bytes nm)) (load_dir_at d T)")
    case None
    with look tab res show ?thesis by (simp add: read_file_def abs_read_file_def)
  next
    case (Some e)
    then obtain i where i: "i < 8" "e = load_dir_at d T ! i" "e_used e"
      by (auto simp: find_Some_iff used_named_def)
    have w: "wf_entry d j e" using table_entry_wf(1) [OF ok res i(1) _ j] i by simp
    show ?thesis
    proof (cases "e_is_dir e")
      case True
      with look tab res Some show ?thesis by (simp add: read_file_def abs_read_file_def enode_def)
    next
      case False
      have "e_sector_count e = 0 \<Longrightarrow> file_data d e = []" by (simp add: file_data_def)
      with file_data_ok [OF ok w False] False look tab res Some show ?thesis
        by (auto simp: read_file_def abs_read_file_def enode_def file_data_def)
    qed
  qed
qed

end
