(* ===== verification/Fs_Mut.thy ===== *)
theory Fs_Mut
  imports Fs_Ops
begin

text \<open>
  The operations that change the disk, \<open>delete_file\<close>, \<open>remove_dir\<close>, \<open>make_dir\<close> and
  \<open>write_file\<close>, against their abstract counterparts.
\<close>

section \<open>Deleting\<close>

lemma position_used_named:
  assumes "position (used_named n) t = Some i"
  shows "find (used_named n) t = Some (t ! i)" "i < length t" "e_used (t ! i)" "e_name (t ! i) = n"
  using position_SomeD(1,2) [OF assms] assms by (auto simp: find_position used_named_def)

lemma find_None_position: "find p t = None \<longleftrightarrow> position p t = None"
  by (simp add: find_position)

lemma remove_entry:
  assumes ok: "fs_ok d" and res: "resolve_table d path = Inr (T, nm)"
    and pos: "position (used_named (name_bytes nm)) (load_dir_at d T) = Some i"
    and save: "save_dir_at d T ((load_dir_at d T)[i := empty_entry]) = (r, d')"
  shows "fs_ok d'"
    and "r = Inl DiskError \<and> d' = d \<or> r = Inr () \<and> fs_tree d' = abs_set (fs_tree d) path None"
proof -
  obtain j where j: "32 = length (dir_keys path) + Suc j" and T: "T < 66"
    using resolved_table [OF ok res] by metis
  note e = position_used_named [OF pos]
  have i: "i < 8" using e(2) by simp
  have "fs_ok d' \<and> (r = Inl DiskError \<and> d' = d \<or> r = Inr () \<and> fs_tree d' = abs_set (fs_tree d) path None)"
  proof (cases "r = Inr ()")
    case True
    have rd: "\<forall>l < 66. disk_readable d l" using ok by (simp add: fs_ok_def)
    note c = commit_entry [OF ok res i j agree_refl rd save [unfolded True] entry_ok_empty]
    have "fs_ok d'" by (rule c(1)) simp_all
    moreover have "fs_tree d' = upd_at (fs_tree d) (dir_keys path)
        (entry_update (load_dir_at d T ! i) empty_entry (enode d' j empty_entry))"
      by (rule c(2)) simp_all
    moreover have "entry_update (load_dir_at d T ! i) empty_entry v = (\<lambda>m. m(leaf_key path := None))" for v
      using e resolve_table_walk(2) [OF res] by (auto simp: entry_update_def)
    ultimately show ?thesis using True by (simp add: abs_set_def)
  next
    case False
    with save_dir_cases [OF save T] ok show ?thesis by auto
  qed
  then show "fs_ok d'"
    "r = Inl DiskError \<and> d' = d \<or> r = Inr () \<and> fs_tree d' = abs_set (fs_tree d) path None" by auto
qed

lemma delete_file_abs:
  assumes ok: "fs_ok d" and run: "delete_file d path = (r, d')"
  shows "fs_ok d' \<and> (r = Inl DiskError \<and> d' = d \<or> (r, fs_tree d') = abs_delete_file (fs_tree d) path)"
proof (cases "resolve_table d path")
  case (Inl e)
  with run resolve_table_abs(1) [OF ok Inl] ok show ?thesis
    by (simp add: delete_file_def abs_delete_file_def)
next
  case (Inr x)
  obtain T nm where x: "x = (T, nm)" by (cases x)
  note res = Inr [unfolded x]
  obtain j where j: "32 = length (dir_keys path) + Suc j" using resolved_table [OF ok res] by metis
  note look = leaf_lookup [OF ok res j] and tab = resolve_table_abs(2) [OF ok res j]
  show ?thesis
  proof (cases "position (used_named (name_bytes nm)) (load_dir_at d T)")
    case None
    with look tab res run ok show ?thesis
      by (auto simp: delete_file_def abs_delete_file_def find_position Let_def)
  next
    case (Some i)
    note f = position_used_named(1) [OF Some]
    show ?thesis
    proof (cases "e_is_dir (load_dir_at d T ! i)")
      case True
      with look tab res run ok Some f show ?thesis
        by (auto simp: delete_file_def abs_delete_file_def Let_def enode_def)
    next
      case False
      then have "save_dir_at d T ((load_dir_at d T)[i := empty_entry]) = (r, d')"
        using run res Some by (simp add: delete_file_def Let_def)
      from remove_entry [OF ok res Some this] look tab f False show ?thesis
        by (auto simp: abs_delete_file_def enode_def)
    qed
  qed
qed

lemma tree_empty_iff:
  "wf_dir d (Suc k) lba \<Longrightarrow> tree d (Suc k) lba = Map.empty \<longleftrightarrow> \<not> list_ex e_used (load_dir_at d lba)"
proof
  assume "\<not> list_ex e_used (load_dir_at d lba)"
  then have "find (used_named n) (load_dir_at d lba) = None" for n
    by (auto simp: find_None_iff list_ex_iff used_named_def)
  then show "tree d (Suc k) lba = Map.empty" by (auto simp: tree_Suc)
next
  assume e: "tree d (Suc k) lba = Map.empty" and "wf_dir d (Suc k) lba"
  have "\<not> e_used x" if "x \<in> set (load_dir_at d lba)" for x
  proof
    assume "e_used x"
    with that have "find (used_named (e_name x)) (load_dir_at d lba) \<noteq> None"
      by (auto simp: find_None_iff used_named_def)
    with fun_cong [OF e, of "e_name x"] show False by (auto simp: tree_Suc)
  qed
  then show "\<not> list_ex e_used (load_dir_at d lba)" by (auto simp: list_ex_iff)
qed

lemma remove_dir_abs:
  assumes ok: "fs_ok d" and run: "remove_dir d path = (r, d')"
  shows "fs_ok d' \<and> (r = Inl DiskError \<and> d' = d \<or> (r, fs_tree d') = abs_remove_dir (fs_tree d) path)"
proof (cases "resolve_table d path")
  case (Inl e)
  with run resolve_table_abs(1) [OF ok Inl] ok show ?thesis
    by (simp add: remove_dir_def abs_remove_dir_def)
next
  case (Inr x)
  obtain T nm where x: "x = (T, nm)" by (cases x)
  note res = Inr [unfolded x]
  obtain j where j: "32 = length (dir_keys path) + Suc j" using resolved_table [OF ok res] by metis
  note look = leaf_lookup [OF ok res j] and tab = resolve_table_abs(2) [OF ok res j]
  show ?thesis
  proof (cases "position (used_named (name_bytes nm)) (load_dir_at d T)")
    case None
    with look tab res run ok show ?thesis
      by (auto simp: remove_dir_def abs_remove_dir_def find_position Let_def)
  next
    case (Some i)
    note f = position_used_named [OF Some]
    let ?e = "load_dir_at d T ! i"
    show ?thesis
    proof (cases "e_is_dir ?e")
      case False
      with look tab res run ok Some f(1) show ?thesis
        by (auto simp: remove_dir_def abs_remove_dir_def Let_def enode_def)
    next
      case True
      have "wf_entry d j ?e" using table_entry_wf(1) [OF ok res _ f(3) j] f(2) by simp
      with True have wd: "wf_dir d j (e_start_lba ?e)" by (simp add: wf_entry_def)
      then obtain j' where j': "j = Suc j'" by (auto dest: wf_dir_pos)
      note emp = tree_empty_iff [OF wd [unfolded j'], folded j']
      show ?thesis
      proof (cases "list_ex e_used (load_dir_at d (e_start_lba ?e))")
        case ne: True
        with look tab res run ok Some f(1) True emp show ?thesis
          by (auto simp: remove_dir_def abs_remove_dir_def Let_def enode_def)
      next
        case False
        then have "save_dir_at d T ((load_dir_at d T)[i := empty_entry]) = (r, d')"
          using run res Some True by (simp add: remove_dir_def Let_def)
        from remove_entry [OF ok res Some this] look tab f(1) False True emp show ?thesis
          by (auto simp: abs_remove_dir_def enode_def)
      qed
    qed
  qed
qed

section \<open>Creating a directory\<close>

lemma empty_table:
  assumes "load_dir_at d l = replicate 8 empty_entry"
  shows "wf_dir d (Suc k) l" "fp d k' l = {}" "tree d k' l = Map.empty"
proof -
  show "wf_dir d (Suc k) l"
    by (simp add: wf_dir_Suc assms fresh_names_def disjoint_entries_def)
  show "fp d k' l = {}" by (cases k') (simp_all add: fp_Suc assms)
  have "find (used_named n) (replicate 8 empty_entry) = None" for n
    by (simp add: find_None_iff used_named_def)
  then show "tree d k' l = Map.empty" by (cases k') (auto simp: tree_Suc assms)
qed

lemma fs_frame:
  assumes ok: "fs_ok d" and ag: "agree (insert 1 (fp d 32 1)) d d'" and rd: "\<forall>l < 66. disk_readable d' l"
  shows "fs_ok d'" "fs_tree d' = fs_tree d"
  using frame [OF _ ag] ok rd by (auto simp: fs_ok_def fs_tree_def)

lemma table_ok_empty [simp]: "table_ok (replicate 8 empty_entry)"
  by (simp add: table_ok_def)

lemma no_used_named:
  "\<not> list_ex (used_named n) t \<Longrightarrow> m < length t \<Longrightarrow> e_used (t ! m) \<Longrightarrow> e_name (t ! m) \<noteq> n"
  by (auto simp: list_ex_iff used_named_def)

lemma mkdir_commit:
  assumes ok: "fs_ok d" and res: "resolve_table d path = Inr (T, nm)"
    and fresh: "\<not> list_ex (used_named (name_bytes nm)) (load_dir_at d T)"
    and pos: "position (\<lambda>e. \<not> e_used e) (load_dir_at d T) = Some i"
    and deep: "length (dir_keys path) \<le> 30"
    and new: "l \<notin> insert 1 (fp d 32 1)" "2 \<le> l" "l < 66"
    and s1: "save_dir_at d l (replicate 8 empty_entry) = (Inr (), d1)"
    and e': "e' = \<lparr>e_used = True, e_is_dir = True, e_name = name_bytes nm, e_len = 0, e_start_lba = l,
                 e_sector_count = 1\<rparr>"
    and s2: "save_dir_at d1 T ((load_dir_at d T)[i := e']) = (r, d')"
  shows "fs_ok d' \<and> (r = Inl DiskError \<and> fs_tree d' = fs_tree d
           \<or> r = Inr () \<and> fs_tree d' = abs_set (fs_tree d) path (Some (Dir Map.empty)))"
proof -
  obtain j where j: "32 = length (dir_keys path) + Suc j" and T: "T < 66" "T \<in> insert 1 (fp d 32 1)"
    using resolved_table [OF ok res] by metis
  obtain j' where j': "j = Suc j'" using j deep by (cases j) auto
  have rd: "\<forall>l < 66. disk_readable d l" using ok by (simp add: fs_ok_def)
  have rd1: "\<forall>l < 66. disk_readable d1 l" using rd save_dir_readable [OF s1] by simp
  have i: "i < 8" "\<not> e_used (load_dir_at d T ! i)" using position_SomeD [OF pos] by auto
  have pool: "insert 1 (fp d 32 1) \<subseteq> {..<66}" using ok fp_pool [of d 32 1] by (auto simp: fs_ok_def)
  have ag1: "agree (insert 1 (fp d 32 1)) d d1"
    by (rule agree_mono [OF save_dir_other [OF s1 new(3)]]) (use new(1) pool in auto)
  show ?thesis
  proof (cases "r = Inr ()")
    case False
    with save_dir_cases [OF s2 T(1)] have "r = Inl DiskError" "d' = d1" by auto
    with fs_frame [OF ok ag1 rd1] show ?thesis by simp
  next
    case True
    have "T \<noteq> l" using T(2) new(1) by auto
    then have "load_dir_at d' l = load_dir_at d1 l"
      by (intro agree_table [OF save_dir_other [OF s2 T(1)]]) (use new(3) in auto)
    also have "\<dots> = replicate 8 empty_entry"
      by (rule save_dir_load [OF s1 new(3)]) (use rd new(3) in auto)
    finally have et: "load_dir_at d' l = replicate 8 empty_entry" .
    note em = empty_table [OF et]
    have own: "own d j (load_dir_at d T ! i) = {}" using i(2) by (simp add: own_def)
    have w: "wf_entry d' j e' \<and> efp d' j e' \<inter> (insert 1 (fp d 32 1) - own d j (load_dir_at d T ! i)) = {}"
      using em new by (auto simp: e' wf_entry_def span_def efp_def j')
    have fr: "\<forall>m < 8. m \<noteq> i \<longrightarrow> e_used (load_dir_at d T ! m) \<longrightarrow> e_name (load_dir_at d T ! m) \<noteq> e_name e'"
      using no_used_named [OF fresh] by (simp add: e')
    have eok: "entry_ok e'" using new by (simp add: entry_ok_def e')
    have ag: "agree (insert 1 (fp d 32 1) - own d j (load_dir_at d T ! i)) d d1"
      using ag1 by (simp add: own)
    note c = commit_entry [OF ok res i(1) j ag rd1 s2 [unfolded True] eok]
    have "fs_ok d'" by (rule c(1)) (use w fr in auto)
    moreover have "fs_tree d' = upd_at (fs_tree d) (dir_keys path)
        (entry_update (load_dir_at d T ! i) e' (enode d' j e'))"
      by (rule c(2)) (use w fr in auto)
    moreover have "entry_update (load_dir_at d T ! i) e' (enode d' j e')
        = (\<lambda>m. m(leaf_key path := Some (Dir Map.empty)))"
      using i(2) em(3) resolve_table_walk(2) [OF res] by (auto simp: entry_update_def enode_def e')
    ultimately show ?thesis using True by (simp add: abs_set_def)
  qed
qed

lemma make_dir_abs:
  assumes ok: "fs_ok d" and deep: "length (dir_keys path) \<le> 30" and run: "make_dir d path = (r, d')"
  shows "fs_ok d' \<and> (r \<in> {Inl DirectoryFull, Inl NoSpace, Inl DiskError} \<and> fs_tree d' = fs_tree d
           \<or> (r, fs_tree d') = abs_make_dir (fs_tree d) path)"
proof (cases "resolve_table d path")
  case (Inl e)
  with run resolve_table_abs(1) [OF ok Inl] ok show ?thesis
    by (simp add: make_dir_def abs_make_dir_def)
next
  case (Inr x)
  obtain T nm where x: "x = (T, nm)" by (cases x)
  note res = Inr [unfolded x]
  obtain j where j: "32 = length (dir_keys path) + Suc j" using resolved_table [OF ok res] by metis
  note look = leaf_lookup [OF ok res j] and tab = resolve_table_abs(2) [OF ok res j]
  let ?t = "load_dir_at d T" and ?n = "name_bytes nm"
  consider (exists) "list_ex (used_named ?n) ?t"
    | (full) "\<not> list_ex (used_named ?n) ?t" "position (\<lambda>e. \<not> e_used e) ?t = None"
    | (room) i where "\<not> list_ex (used_named ?n) ?t" "position (\<lambda>e. \<not> e_used e) ?t = Some i"
    by (cases "position (\<lambda>e. \<not> e_used e) ?t") auto
  then show ?thesis
  proof cases
    case exists
    then have "find (used_named ?n) ?t \<noteq> None" by (auto simp: find_None_iff list_ex_iff)
    with exists look tab res run ok show ?thesis
      by (auto simp: make_dir_def abs_make_dir_def Let_def)
  next
    case full
    with res run ok show ?thesis by (auto simp: make_dir_def Let_def)
  next
    case (room i)
    have rs: "ranges_ok (collect_occupied d None)" by (rule occupied_ok(1) [OF ok])
    show ?thesis
    proof (cases "find_free_span (collect_occupied d None) 1")
      case (Inl e)
      with rs show ?thesis by (simp add: find_free_span_ok)
    next
      case (Inr s)
      show ?thesis
      proof (cases s)
        case None
        with Inr room res run ok show ?thesis by (auto simp: make_dir_def Let_def)
      next
        case (Some st)
        note f = find_free_span_Some [OF rs _ _ Inr [unfolded Some]]
        let ?l = "2 + st"
        have new: "?l \<notin> insert 1 (fp d 32 1)" "2 \<le> ?l" "?l < 66"
          using f occupied_ok(2) [OF ok, of None ?l 1] by auto
        obtain r1 d1 where s1: "save_dir_at d ?l (replicate 8 empty_entry) = (r1, d1)" by fastforce
        show ?thesis
        proof (cases "r1 = Inr ()")
          case False
          with save_dir_cases [OF s1 new(3)] have "r1 = Inl DiskError" "d1 = d" by auto
          with s1 Inr Some room res run ok show ?thesis by (auto simp: make_dir_def Let_def)
        next
          case True
          have "find (used_named ?n) ?t = None" using room(1) by (auto simp: find_None_iff list_ex_iff)
          moreover have "save_dir_at d1 T (?t[i := \<lparr>e_used = True, e_is_dir = True, e_name = ?n, e_len = 0,
              e_start_lba = ?l, e_sector_count = 1\<rparr>]) = (r, d')"
            using run True s1 Inr Some room res by (simp add: make_dir_def Let_def)
          ultimately show ?thesis
            using mkdir_commit [OF ok res room deep new s1 [unfolded True] refl] look tab
            by (auto simp: abs_make_dir_def)
        qed
      qed
    qed
  qed
qed

section \<open>Writing a file\<close>

lemma file_sectors_concat:
  assumes "data = [] \<or> (n - 1) * 512 < length data" "length data \<le> n * 512"
  shows "take (length data) (concat (file_sectors data n)) = data"
proof -
  have "concat (file_sectors data m) = take (m * 512) data @ replicate (m * 512 - length data) 0"
    for m
  proof (induction m)
    case 0
    show ?case by (simp add: file_sectors_def)
  next
    case (Suc m)
    define s where "s = slice data (m * 512) (min (m * 512 + 512) (length data))"
    have "concat (file_sectors data (Suc m))
        = concat (file_sectors data m) @ s @ replicate (512 - length s) 0"
      by (simp add: file_sectors_def s_def Let_def)
    moreover have "s = take 512 (drop (m * 512) data)"
      by (auto simp: s_def slice_def min_def)
    moreover have "take (m * 512) data @ take 512 (drop (m * 512) data) = take (Suc m * 512) data"
      by (simp add: take_add [symmetric] add.commute)
    moreover have "replicate (m * 512 - length data) (0::u8) @ take 512 (drop (m * 512) data)
        = take 512 (drop (m * 512) data) @ replicate (m * 512 - length data) 0"
      by (cases "length data \<le> m * 512") auto
    moreover have "(m * 512 - length data) + (512 - length (take 512 (drop (m * 512) data)))
        = Suc m * 512 - length data"
      by (auto simp: min_def)
    ultimately show ?case using Suc
      by (metis (no_types, lifting) append.assoc replicate_add)
  qed
  then show ?thesis using assms(2) by simp
qed

lemma file_sectors_props:
  "length (file_sectors data n) = n" "c \<in> set (file_sectors data n) \<Longrightarrow> length c = 512"
  by (auto simp: file_sectors_def Let_def slice_def)

lemma fs_read_read_sector: "fs_read d' l = fs_read d l \<Longrightarrow> l < 2 ^ 32 \<Longrightarrow> read_sector d' l = read_sector d l"
  by (auto simp: fs_read_def split: sum.splits) (metis ata_error.exhaust)

lemma write_blocks_agree:
  assumes "write_blocks fs_write d a cs = (r, d1)" "a + length cs \<le> 66"
  shows "agree ({..<66} - {a..<a + length cs}) d d1"
    and "disk_readable d1 l = disk_readable d l"
    and "r = Inr () \<or> r = Inl DiskError"
proof -
  show "agree ({..<66} - {a..<a + length cs}) d d1"
    unfolding agree_def
  proof
    fix l assume l: "l \<in> {..<66} - {a..<a + length cs}"
    have "fs_read (snd (write_blocks fs_write d a cs)) l = fs_read d l"
      by (rule fs_dev.write_blocks_frame) (use l assms(2) in auto)
    then show "read_sector d1 l = read_sector d l"
      using assms(1) l by (intro fs_read_read_sector) auto
  qed
  show "disk_readable d1 l = disk_readable d l"
    using fs_dev.write_blocks_caps [of d a cs l] assms(1) by simp
  show "r = Inr () \<or> r = Inl DiskError"
    using assms(1)
    by (induction fs_write d a cs rule: write_blocks.induct)
      (auto simp: fs_write_def split: prod.splits sum.splits)
qed

lemma write_blocks_read:
  assumes w: "write_blocks fs_write d a cs = (Inr (), d1)" and "a + length cs \<le> 66"
    and c: "\<And>c. c \<in> set cs \<Longrightarrow> length c = 512" and "\<forall>l < 66. disk_readable d l"
  shows "read_blocks fs_read d1 a (length cs) = Inr (concat cs)"
  using fs_dev.read_written_blocks [of d a cs] assms by simp

text \<open>The slot a write goes to, and the entry it stores.\<close>

definition write_slot :: "dir_entry list \<Rightarrow> bytes \<Rightarrow> nat option" where
  "write_slot t n = (case position (used_named n) t of
                       Some i \<Rightarrow> Some i | None \<Rightarrow> position (\<lambda>e. \<not> e_used e) t)"

lemma write_slot_cases:
  assumes "write_slot t n = Some i" "length t = 8" "fresh_names t"
  shows "i < 8" "e_used (t ! i) \<Longrightarrow> e_name (t ! i) = n \<and> find (used_named n) t = Some (t ! i)"
    and "\<not> e_used (t ! i) \<Longrightarrow> find (used_named n) t = None"
    and "\<forall>m < 8. m \<noteq> i \<longrightarrow> e_used (t ! m) \<longrightarrow> e_name (t ! m) \<noteq> n"
proof -
  have "i < 8 \<and> (e_used (t ! i) \<longrightarrow> e_name (t ! i) = n \<and> find (used_named n) t = Some (t ! i))
     \<and> (\<not> e_used (t ! i) \<longrightarrow> find (used_named n) t = None)
     \<and> (\<forall>m < 8. m \<noteq> i \<longrightarrow> e_used (t ! m) \<longrightarrow> e_name (t ! m) \<noteq> n)"
  proof (cases "position (used_named n) t")
    case None
    then have "find (used_named n) t = None" by (simp add: find_position)
    moreover have "\<forall>m < 8. e_used (t ! m) \<longrightarrow> e_name (t ! m) \<noteq> n"
      using None assms(2) by (auto simp: position_None used_named_def)
    moreover have "position (\<lambda>e. \<not> e_used e) t = Some i" using assms(1) None by (simp add: write_slot_def)
    ultimately show ?thesis using assms(2) by (auto dest: position_SomeD)
  next
    case (Some a)
    then have "a = i" using assms(1) by (simp add: write_slot_def)
    note p = position_used_named [OF Some [unfolded this]]
    then show ?thesis using assms(2,3) by (auto simp: fresh_names_def)
  qed
  then show "i < 8" "e_used (t ! i) \<Longrightarrow> e_name (t ! i) = n \<and> find (used_named n) t = Some (t ! i)"
    "\<not> e_used (t ! i) \<Longrightarrow> find (used_named n) t = None"
    "\<forall>m < 8. m \<noteq> i \<longrightarrow> e_used (t ! m) \<longrightarrow> e_name (t ! m) \<noteq> n" by blast+
qed

lemma write_space:
  assumes ok: "fs_ok d" and res: "resolve_table d path = Inr (T, nm)" and i: "i < 8"
    and j: "32 = length (dir_keys path) + Suc j"
    and isfile: "e_used (load_dir_at d T ! i) \<Longrightarrow> \<not> e_is_dir (load_dir_at d T ! i)"
    and n: "n \<le> 64"
    and free: "(if n = 0 then Inr (Some 0)
                else find_free_span (collect_occupied d
                  (if e_used (load_dir_at d T ! i)
                   then Some (e_start_lba (load_dir_at d T ! i), e_sector_count (load_dir_at d T ! i)) else None)) n)
               = Inr (Some sp)"
  shows "sp + n \<le> 64"
    and "{2 + sp..<2 + sp + n} \<inter> (insert 1 (fp d 32 1) - own d j (load_dir_at d T ! i)) = {}"
proof -
  let ?e = "load_dir_at d T ! i"
  let ?old = "if e_used ?e then Some (e_start_lba ?e, e_sector_count ?e) else None"
  have o: "own d j ?e = (case ?old of Some (s, c) \<Rightarrow> {s..<s + c} | None \<Rightarrow> {})"
    using isfile by (simp add: own_def efp_def span_def)
  have "sp + n \<le> 64 \<and> {2 + sp..<2 + sp + n} \<inter> (insert 1 (fp d 32 1) - own d j ?e) = {}"
  proof (cases "n = 0")
    case True
    with free show ?thesis by simp
  next
    case False
    then have fr: "find_free_span (collect_occupied d ?old) n = Inr (Some sp)" using free by simp
    have f: "sp + n \<le> 64" "free_span (collect_occupied d ?old) (2 + sp) n"
      using find_free_span_Some [OF occupied_ok(1) [OF ok] _ n fr] False by auto
    have "{2 + sp..<2 + sp + n} \<inter> (fp d 32 1 - (case ?old of Some (s, c) \<Rightarrow> {s..<s + c} | None \<Rightarrow> {})) = {}"
      by (rule occupied_ok(2) [OF ok f(2)])
    then have "{2 + sp..<2 + sp + n} \<inter> (fp d 32 1 - own d j ?e) = {}" unfolding o .
    then show ?thesis using f(1) by auto
  qed
  then show "sp + n \<le> 64" "{2 + sp..<2 + sp + n} \<inter> (insert 1 (fp d 32 1) - own d j ?e) = {}" by auto
qed

text \<open>A write that fails half way has touched, at most, the contents of the file it replaces.\<close>

lemma write_torn:
  assumes ok: "fs_ok d" and res: "resolve_table d path = Inr (T, nm)" and i: "i < 8"
    and j: "32 = length (dir_keys path) + Suc j"
    and isfile: "e_used (load_dir_at d T ! i) \<Longrightarrow> \<not> e_is_dir (load_dir_at d T ! i)"
    and key: "e_used (load_dir_at d T ! i) \<Longrightarrow> e_name (load_dir_at d T ! i) = leaf_key path"
    and ag: "agree (insert 1 (fp d 32 1) - own d j (load_dir_at d T ! i)) d d1"
    and rd: "\<forall>l < 66. disk_readable d1 l"
  shows "fs_ok d1" "fs_tree d1 = fs_tree d \<or> (\<exists>b. e_used (load_dir_at d T ! i)
           \<and> fs_tree d1 = abs_set (fs_tree d) path (Some (File b)))"
proof -
  let ?e = "load_dir_at d T ! i"
  obtain j' where J: "32 = length (dir_keys path) + Suc j'" "wf_dir d (Suc j') T" "T \<notin> fp d (Suc j') T"
    "T \<in> insert 1 (fp d 32 1)"
    using resolved_table [OF ok res] by metis
  have jj: "j' = j" using J(1) j by simp
  note J = J [unfolded jj]
  have nT: "T \<notin> own d j ?e" using J(3) fp_split [OF i, of d j T] by auto
  have t': "load_dir_at d1 T = (load_dir_at d T)[i := ?e]"
    using agree_table [OF ag, of T] J(4) nT by simp
  have rest: "agree (insert 1 (fp d 32 1) - own d j ?e - {T}) d d1"
    by (rule agree_mono [OF ag]) auto
  have new: "e_used ?e \<Longrightarrow> wf_entry d1 j ?e \<and> efp d1 j ?e \<inter> (insert 1 (fp d 32 1) - own d j ?e) = {}"
    using table_entry_wf(1) [OF ok res i _ j] isfile by (auto simp: wf_entry_def efp_def own_def)
  have fresh: "e_used ?e \<Longrightarrow> \<forall>m < 8. m \<noteq> i \<longrightarrow> e_used (load_dir_at d T ! m)
      \<longrightarrow> e_name (load_dir_at d T ! m) \<noteq> e_name ?e"
    using J(2) i by (auto simp: wf_dir_Suc fresh_names_def)
  note c = entry_changed [OF ok res i j t' rest rd]
  show "fs_ok d1" by (rule c(1); use new fresh in blast)
  have t: "fs_tree d1 = upd_at (fs_tree d) (dir_keys path) (entry_update ?e ?e (enode d1 j ?e))"
    by (rule c(2); use new fresh in blast)
  show "fs_tree d1 = fs_tree d \<or> (\<exists>b. e_used ?e \<and> fs_tree d1 = abs_set (fs_tree d) path (Some (File b)))"
  proof (cases "e_used ?e")
    case True
    have "entry_update ?e ?e (enode d1 j ?e) = (\<lambda>m. m(leaf_key path := Some (File (file_data d1 ?e))))"
      using True isfile key by (auto simp: entry_update_def enode_def)
    with t True show ?thesis by (auto simp: abs_set_def)
  next
    case False
    then have "agree (insert 1 (fp d 32 1)) d d1" using ag by (simp add: own_def)
    with fs_frame(2) [OF ok _ rd] show ?thesis by simp
  qed
qed

definition sectors_needed :: "bytes \<Rightarrow> nat" where
  "sectors_needed data = (if data = [] then 0 else (length data + 511) div 512)"

lemma sectors_needed_props:
  assumes "length data \<le> 4096"
  shows "sectors_needed data \<le> 8" "length data \<le> sectors_needed data * 512"
    "sectors_needed data = (length data + 511) div 512"
    "data = [] \<or> (sectors_needed data - 1) * 512 < length data"
  using assms by (cases data; auto simp: sectors_needed_def; linarith)+

lemma write_commit:
  assumes ok: "fs_ok d" and res: "resolve_table d path = Inr (T, nm)"
    and slot: "write_slot (load_dir_at d T) (name_bytes nm) = Some i"
    and j: "32 = length (dir_keys path) + Suc j"
    and isfile: "e_used (load_dir_at d T ! i) \<Longrightarrow> \<not> e_is_dir (load_dir_at d T ! i)"
    and len: "length data \<le> 4096" and n: "n = sectors_needed data"
    and sp: "sp + n \<le> 64"
      "{2 + sp..<2 + sp + n} \<inter> (insert 1 (fp d 32 1) - own d j (load_dir_at d T ! i)) = {}"
    and wb: "write_blocks fs_write d (2 + sp) (file_sectors data n) = (Inr (), d1)"
    and e': "e' = \<lparr>e_used = True, e_is_dir = False, e_name = name_bytes nm, e_len = length data mod 2 ^ 16,
               e_start_lba = (if n = 0 then 0 else 2 + sp), e_sector_count = n mod 2 ^ 8\<rparr>"
    and save: "save_dir_at d1 T ((load_dir_at d T)[i := e']) = (Inr (), d')"
  shows "fs_ok d'" "fs_tree d' = abs_set (fs_tree d) path (Some (File data))"
proof -
  let ?e = "load_dir_at d T ! i"
  note n_props = sectors_needed_props [OF len, folded n]
  obtain j' where J: "32 = length (dir_keys path) + Suc j'" "wf_dir d (Suc j') T" "T < 66"
    "T \<notin> fp d (Suc j') T" "T \<in> insert 1 (fp d 32 1)"
    using resolved_table [OF ok res] by metis
  have jj: "j' = j" using J(1) j by simp
  note J = J [unfolded jj]
  note sl = write_slot_cases [OF slot _ , simplified]
  have fn: "fresh_names (load_dir_at d T)" using J(2) by (simp add: wf_dir_Suc)
  note sl = write_slot_cases [OF slot _ fn, simplified]
  have rd: "\<forall>l < 66. disk_readable d l" using ok by (simp add: fs_ok_def)
  have pool: "insert 1 (fp d 32 1) \<subseteq> {..<66}" using ok fp_pool [of d 32 1] by (auto simp: fs_ok_def)
  have wa: "agree ({..<66} - {2 + sp..<2 + sp + n}) d d1" "\<And>l. disk_readable d1 l = disk_readable d l"
    using write_blocks_agree [OF wb] sp(1) by (auto simp: file_sectors_props)
  have ag: "agree (insert 1 (fp d 32 1) - own d j ?e) d d1"
    by (rule agree_mono [OF wa(1)]) (use sp(2) pool in auto)
  have rd1: "\<forall>l < 66. disk_readable d1 l" using rd wa(2) by simp
  have T: "T \<notin> {2 + sp..<2 + sp + n}"
  proof -
    have "T \<notin> own d j ?e" using J(4) fp_split [OF sl(1), of d j T] by auto
    with J(5) sp(2) show ?thesis by blast
  qed
  have "read_blocks fs_read d1 (2 + sp) n = Inr (concat (file_sectors data n))"
    using write_blocks_read [OF wb] sp(1) rd file_sectors_props by auto
  moreover have "read_blocks fs_read d' (2 + sp) n = read_blocks fs_read d1 (2 + sp) n"
    by (rule fs_dev.read_blocks_cong)
      (use save_dir_other [OF save J(3)] T sp(1) in \<open>auto simp: agree_def fs_read_def\<close>)
  ultimately have dat: "file_data d' e' = data"
    using file_sectors_concat [OF n_props(4,2)] len n_props(1)
      n_props(2) by (cases "n = 0") (auto simp: file_data_def e')
  have sp': "span e' \<subseteq> {2 + sp..<2 + sp + n}" "span e' \<subseteq> {2..<66}"
    using n_props(1) sp(1) by (auto simp: span_def e')
  have w: "wf_entry d' j e' \<and> efp d' j e' \<inter> (insert 1 (fp d 32 1) - own d j ?e) = {}"
    using sp' sp(2) len n_props(1,3) by (auto simp: wf_entry_def efp_def e')
  have eok: "entry_ok e'" using sp(1) by (auto simp: entry_ok_def e')
  have fr: "\<forall>m < 8. m \<noteq> i \<longrightarrow> e_used (load_dir_at d T ! m) \<longrightarrow> e_name (load_dir_at d T ! m) \<noteq> e_name e'"
    using sl(4) by (simp add: e')
  note c = commit_entry [OF ok res sl(1) j ag rd1 save eok]
  show "fs_ok d'" by (rule c(1)) (use w fr in auto)
  have "fs_tree d' = upd_at (fs_tree d) (dir_keys path) (entry_update ?e e' (enode d' j e'))"
    by (rule c(2)) (use w fr in auto)
  moreover have "entry_update ?e e' (enode d' j e') = (\<lambda>m. m(leaf_key path := Some (File data)))"
    using sl(2) dat resolve_table_walk(2) [OF res]
    by (auto simp: entry_update_def enode_def e')
  ultimately show "fs_tree d' = abs_set (fs_tree d) path (Some (File data))"
    by (simp add: abs_set_def)
qed

lemma write_file_unfold:
  assumes "length data \<le> 4096" "resolve_table d path = Inr (T, nm)"
  shows "write_file d path data =
    (let t = load_dir_at d T; n = name_bytes nm
     in if (case position (used_named n) t of Some i \<Rightarrow> e_is_dir (t ! i) | None \<Rightarrow> False)
        then (Inl IsADirectory, d)
        else case write_slot t n of
          None \<Rightarrow> (Inl DirectoryFull, d)
        | Some i \<Rightarrow>
          (case (if sectors_needed data = 0 then Inr (Some 0)
                 else find_free_span (collect_occupied d
                   (if e_used (t ! i) then Some (e_start_lba (t ! i), e_sector_count (t ! i)) else None))
                   (sectors_needed data)) of
             Inl e \<Rightarrow> (Inl e, d)
           | Inr None \<Rightarrow> (Inl NoSpace, d)
           | Inr (Some sp) \<Rightarrow>
               (case write_blocks fs_write d (2 + sp) (file_sectors data (sectors_needed data)) of
                  (Inl e, d1) \<Rightarrow> (Inl e, d1)
                | (Inr _, d1) \<Rightarrow> save_dir_at d1 T (t[i := \<lparr>e_used = True, e_is_dir = False, e_name = n,
                     e_len = length data mod 2 ^ 16,
                     e_start_lba = (if sectors_needed data = 0 then 0 else 2 + sp),
                     e_sector_count = sectors_needed data mod 2 ^ 8\<rparr>]))))"
proof -
  have sn: "(if data = [] then 0 else (length data + SECTOR_SIZE - 1) div SECTOR_SIZE) = sectors_needed data"
    by (simp add: sectors_needed_def add.commute)
  show ?thesis
    unfolding write_file_def sn Let_def write_slot_def [symmetric] FILE_DATA_START_LBA_def
    using assms by simp
qed

definition same_except :: "dirmap \<Rightarrow> dirmap \<Rightarrow> bytes \<Rightarrow> bool" where
  "same_except m m' path \<longleftrightarrow> m' = m \<or>
     (\<exists>old new. abs_read_file m path = Inr old \<and> m' = abs_set m path (Some (File new)))"

lemma write_file_resolved:
  assumes ok: "fs_ok d" and len: "length data \<le> 4096" and res: "resolve_table d path = Inr (T, nm)"
    and run: "write_file d path data = (r, d')"
  shows "fs_ok d' \<and> (r \<in> {Inl DirectoryFull, Inl NoSpace} \<and> d' = d
           \<or> r = Inl DiskError \<and> same_except (fs_tree d) (fs_tree d') path
           \<or> (r, fs_tree d') = abs_write_file (fs_tree d) path data)"
proof -
  let ?t = "load_dir_at d T" and ?n = "name_bytes nm" and ?k = "sectors_needed data"
  obtain j where j: "32 = length (dir_keys path) + Suc j" and wft: "wf_dir d (Suc j) T" and T: "T < 66"
    using resolved_table [OF ok res] by metis
  note look = leaf_lookup [OF ok res j] and tab = resolve_table_abs(2) [OF ok res j]
  note unf = write_file_unfold [OF len res]
  consider (dir) i where "position (used_named ?n) ?t = Some i" "e_is_dir (?t ! i)"
    | (full) "write_slot ?t ?n = None"
    | (slot) i where "write_slot ?t ?n = Some i"
        "\<not> (case position (used_named ?n) ?t of Some i \<Rightarrow> e_is_dir (?t ! i) | None \<Rightarrow> False)"
    by (cases "position (used_named ?n) ?t"; cases "write_slot ?t ?n") auto
  then show ?thesis
  proof cases
    case (dir i)
    with look tab run ok position_used_named(1) [OF dir(1)] len show ?thesis
      by (auto simp: unf abs_write_file_def Let_def enode_def)
  next
    case full
    with run ok show ?thesis
      by (auto simp: unf write_slot_def Let_def split: option.splits)
  next
    case (slot i)
    let ?e = "?t ! i"
    define e' where "e' sp = \<lparr>e_used = True, e_is_dir = False, e_name = ?n, e_len = length data mod 2 ^ 16,
        e_start_lba = (if ?k = 0 then 0 else 2 + sp), e_sector_count = ?k mod 2 ^ 8\<rparr>" for sp
    have fn: "fresh_names ?t" using wft by (simp add: wf_dir_Suc)
    note sl = write_slot_cases [OF slot(1) length_load_dir_at fn]
    have isfile: "e_used ?e \<Longrightarrow> \<not> e_is_dir ?e"
      using slot by (auto simp: write_slot_def split: option.splits dest: position_SomeD(2))
    define sp_res where "sp_res = (if ?k = 0 then Inr (Some 0) else find_free_span (collect_occupied d
        (if e_used ?e then Some (e_start_lba ?e, e_sector_count ?e) else None)) ?k)"
    have run': "(case sp_res of Inl e \<Rightarrow> (Inl e, d) | Inr None \<Rightarrow> (Inl NoSpace, d)
       | Inr (Some sp) \<Rightarrow> (case write_blocks fs_write d (2 + sp) (file_sectors data ?k) of
             (Inl e, d1) \<Rightarrow> (Inl e, d1) | (Inr _, d1) \<Rightarrow> save_dir_at d1 T (?t[i := e' sp]))) = (r, d')"
      using run slot unfolding unf sp_res_def e'_def Let_def by simp
    have k8: "?k \<le> 8" by (rule sectors_needed_props(1) [OF len])
    consider (space) sp where "sp_res = Inr (Some sp)" | (nospace) "sp_res = Inr None"
      using k8 find_free_span_ok [OF occupied_ok(1) [OF ok]] unfolding sp_res_def by (cases "?k = 0") auto
    then show ?thesis
    proof cases
      case nospace
      with run' ok show ?thesis by auto
    next
      case (space sp)
      have sp: "sp + ?k \<le> 64" "{2 + sp..<2 + sp + ?k} \<inter> (insert 1 (fp d 32 1) - own d j ?e) = {}"
        by (rule write_space [OF ok res sl(1) j isfile _ space [unfolded sp_res_def]]; use k8 in simp)+
      obtain r1 d1 where wb: "write_blocks fs_write d (2 + sp) (file_sectors data ?k) = (r1, d1)" by fastforce
      have wa: "agree ({..<66} - {2 + sp..<2 + sp + ?k}) d d1" "\<And>l. disk_readable d1 l = disk_readable d l"
        "r1 = Inr () \<or> r1 = Inl DiskError"
        using write_blocks_agree [OF wb] sp(1) by (auto simp: file_sectors_props)
      have rd1: "\<forall>l < 66. disk_readable d1 l" using ok wa(2) by (simp add: fs_ok_def)
      have ag: "agree (insert 1 (fp d 32 1) - own d j ?e) d d1"
        by (rule agree_mono [OF wa(1)]) (use sp(2) ok fp_pool [of d 32 1] in \<open>auto simp: fs_ok_def\<close>)
      have torn: "fs_ok d1" "same_except (fs_tree d) (fs_tree d1) path"
      proof -
        note t = write_torn [OF ok res sl(1) j isfile _ ag rd1]
        show "fs_ok d1" by (rule t(1)) (use sl(2) resolve_table_walk(2) [OF res] in auto)
        have "e_used ?e \<Longrightarrow> \<exists>old. abs_read_file (fs_tree d) path = Inr old"
          using look tab sl(2) isfile by (simp add: abs_read_file_def enode_def)
        then show "same_except (fs_tree d) (fs_tree d1) path"
          using t(2) sl(2) resolve_table_walk(2) [OF res] unfolding same_except_def by metis
      qed
      show ?thesis
      proof (cases "r1 = Inr () \<and> r = Inr ()")
        case True
        then have save: "save_dir_at d1 T (?t[i := e' sp]) = (Inr (), d')"
          using run' wb space by simp
        have "fs_ok d'" "fs_tree d' = abs_set (fs_tree d) path (Some (File data))"
          by (rule write_commit [OF ok res slot(1) j isfile len refl sp wb [unfolded conjunct1 [OF True]]
                e'_def save]; assumption)+
        moreover have "tree d (Suc j) T (leaf_key path) = None
            \<or> (\<exists>b. tree d (Suc j) T (leaf_key path) = Some (File b))"
          using look sl(2,3) isfile by (cases "e_used ?e") (auto simp: enode_def)
        ultimately show ?thesis
          using True tab len by (auto simp: abs_write_file_def)
      next
        case False
        then have "r = Inl DiskError \<and> d' = d1"
          using run' wb space wa(3) save_dir_cases [OF _ T, of d1 "?t[i := e' sp]"] by auto
        with torn show ?thesis by simp
      qed
    qed
  qed
qed

lemma write_file_abs:
  assumes ok: "fs_ok d" and run: "write_file d path data = (r, d')"
  shows "fs_ok d' \<and> (r \<in> {Inl DirectoryFull, Inl NoSpace} \<and> d' = d
           \<or> r = Inl DiskError \<and> same_except (fs_tree d) (fs_tree d') path
           \<or> (r, fs_tree d') = abs_write_file (fs_tree d) path data)"
proof (cases "length data \<le> 4096")
  case False
  with run ok show ?thesis by (auto simp: write_file_def abs_write_file_def)
next
  case len: True
  show ?thesis
  proof (cases "resolve_table d path")
    case (Inl e)
    with run resolve_table_abs(1) [OF ok Inl] ok len show ?thesis
      by (auto simp: write_file_def abs_write_file_def)
  next
    case (Inr x)
    obtain T nm where "x = (T, nm)" by (cases x)
    with write_file_resolved [OF ok len _ run] Inr show ?thesis by simp
  qed
qed

end
