(* ===== verification/Fs_Props.thy ===== *)
theory Fs_Props
  imports Fs_Mut
begin

text \<open>
  The properties of the filesystem: refinement of the abstract filesystem by every operation,
  the guarantee a user sees (what was written is what is read, and nothing else changes), and
  the disk format and the allocator underneath.
\<close>

section \<open>Other files are untouched\<close>

lemma dir_at_upd_other:
  "dir_at m ds = Some t \<Longrightarrow> t n = Some (File b) \<Longrightarrow> dir_at m ks = Some u
    \<Longrightarrow> (\<forall>m'. u l = Some (Dir m') \<longrightarrow> m' = Map.empty) \<Longrightarrow> (ds, n) \<noteq> (ks, l)
    \<Longrightarrow> \<exists>t'. dir_at (upd_at m ks (\<lambda>u. u(l := v))) ds = Some t' \<and> t' n = Some (File b)"
proof (induction ds arbitrary: m ks)
  case Nil
  then show ?case by (cases ks) (auto split: option.splits node.splits)
next
  case (Cons c ds)
  obtain m1 where m1: "m c = Some (Dir m1)" "dir_at m1 ds = Some t"
    using Cons.prems(1) by (auto split: option.splits node.splits)
  show ?case
  proof (cases ks)
    case Nil
    have "c \<noteq> l"
    proof
      assume "c = l"
      then have "m1 = Map.empty" using Cons.prems(3,4) m1 Nil by auto
      then show False using m1(2) Cons.prems(2) by (cases ds) auto
    qed
    with Nil Cons.prems m1 show ?thesis by simp
  next
    case (Cons k ks')
    then obtain m2 where m2: "m k = Some (Dir m2)" "dir_at m2 ks' = Some u"
      using Cons.prems(3) by (auto split: option.splits node.splits)
    show ?thesis
    proof (cases "k = c")
      case True
      with m1 m2 have "m2 = m1" by simp
      moreover have "\<exists>t'. dir_at (upd_at m1 ks' (\<lambda>u. u(l := v))) ds = Some t' \<and> t' n = Some (File b)"
        by (rule Cons.IH [OF m1(2) Cons.prems(2) _ Cons.prems(4)])
          (use m2 \<open>m2 = m1\<close> Cons.prems(5) True \<open>ks = k # ks'\<close> in auto)
      ultimately show ?thesis using True m2 \<open>ks = k # ks'\<close> by (simp add: fun_upd_def)
    next
      case False
      with m1 m2 Cons.prems(2) \<open>ks = k # ks'\<close> show ?thesis by simp
    qed
  qed
qed

lemma dir_at_upd_same:
  "dir_at m ks = Some u \<Longrightarrow> dir_at (upd_at m ks f) ks = Some (f u)"
  by (induction m ks f rule: upd_at.induct) (auto split: option.splits node.splits)

text \<open>Whether a path is acceptable at all does not depend on the filesystem.\<close>

definition path_ok :: "bytes \<Rightarrow> bool" where
  "path_ok path = (case rsplit_slash path of
     Some (dir, nm) \<Rightarrow> nm \<noteq> [] \<and> (dir = [] \<or> [] \<notin> set (split_slash dir) \<and> length (split_slash dir) \<le> 32)
   | None \<Rightarrow> True)"

lemma abs_resolve_Inr:
  "abs_resolve m cs depth = Inr u \<longleftrightarrow>
     dir_at m (map name_bytes cs) = Some u \<and> [] \<notin> set cs \<and> (cs = [] \<or> depth + length cs \<le> 32)"
proof (induction cs arbitrary: m depth)
  case (Cons c cs)
  show ?case
    by (cases "m (name_bytes c)"; cases "the (m (name_bytes c))") (auto simp: Cons)
qed auto

lemma abs_table_Inr: "abs_table m path = Inr u \<longleftrightarrow> path_ok path \<and> dir_at m (dir_keys path) = Some u"
  by (auto simp: abs_table_def path_ok_def dir_keys_def abs_resolve_Inr split: option.splits)

lemma abs_read_file_Inr:
  "abs_read_file m path = Inr b \<longleftrightarrow>
     path_ok path \<and> (\<exists>u. dir_at m (dir_keys path) = Some u \<and> u (leaf_key path) = Some (File b))"
proof (cases "abs_table m path")
  case (Inl e)
  then have "\<not> (path_ok path \<and> dir_at m (dir_keys path) = Some u)" for u
    using abs_table_Inr [of m path u] by simp
  with Inl show ?thesis by (auto simp: abs_read_file_def)
next
  case (Inr u)
  then have "path_ok path \<and> dir_at m (dir_keys path) = Some u" by (simp only: abs_table_Inr)
  with Inr show ?thesis by (auto simp: abs_read_file_def split: option.splits node.splits)
qed

definition same_name :: "bytes \<Rightarrow> bytes \<Rightarrow> bool" where
  "same_name p q \<longleftrightarrow> dir_keys p = dir_keys q \<and> leaf_key p = leaf_key q"

lemma abs_set_read_other:
  assumes "dir_at m (dir_keys p) = Some u" "\<forall>m'. u (leaf_key p) = Some (Dir m') \<longrightarrow> m' = Map.empty"
    and "abs_read_file m q = Inr b" "\<not> same_name p q"
  shows "abs_read_file (abs_set m p v) q = Inr b"
  using assms dir_at_upd_other [of m "dir_keys q" _ "leaf_key q" b "dir_keys p" u "leaf_key p" v]
  by (auto simp: abs_read_file_Inr abs_set_def same_name_def)

lemma abs_set_read_same:
  "path_ok p \<Longrightarrow> dir_at m (dir_keys p) = Some u \<Longrightarrow> abs_read_file (abs_set m p (Some (File b))) p = Inr b"
  by (auto simp: abs_read_file_Inr abs_set_def dir_at_upd_same)

lemma abs_write_other:
  assumes "abs_write_file m p data = (Inr (), m')" "abs_read_file m q = Inr b" "\<not> same_name p q"
  shows "abs_read_file m' q = Inr b"
proof -
  obtain u where "abs_table m p = Inr u" "m' = abs_set m p (Some (File data))"
    "\<nexists>t. u (leaf_key p) = Some (Dir t)"
    using assms(1) by (auto simp: abs_write_file_def split: if_splits sum.splits option.splits node.splits)
  with assms(2,3) abs_set_read_other [of m p u] show ?thesis by (auto simp: abs_table_Inr)
qed

lemma abs_write_same:
  assumes "abs_write_file m p data = (Inr (), m')"
  shows "abs_read_file m' p = Inr data"
  using assms abs_set_read_same [of p m]
  by (auto simp: abs_write_file_def abs_table_Inr split: if_splits sum.splits option.splits node.splits)

lemma same_except_other:
  assumes "same_except m m' p" "abs_read_file m q = Inr b" "\<not> same_name p q"
  shows "abs_read_file m' q = Inr b"
  using assms abs_set_read_other [of m p _ q b]
  unfolding same_except_def abs_read_file_Inr [of m p] by fastforce

section \<open>A formatted disk\<close>

definition blank_disk :: disk where
  "blank_disk = \<lparr>sector_words = (\<lambda>_ _. 0), read_fails = (\<lambda>_. False), write_fails = (\<lambda>_. False)\<rparr>"

lemma pio_in_zero: "\<forall>w \<in> set ws. w = 0 \<Longrightarrow> pio_in ws = replicate (2 * length ws) 0"
  by (induction ws) auto

lemma blank_table: "load_dir_at blank_disk l = replicate 8 empty_entry"
proof -
  have "read_sector blank_disk l = Inr (replicate 512 0)"
    by (simp add: read_sector_def blank_disk_def Let_def pio_in_zero)
  moreover have "slice (replicate 512 (0::u8)) 0 4 = [0, 0, 0, 0]"
    by (simp add: slice_def numeral_eq_Suc)
  ultimately show ?thesis by (simp add: load_dir_at_def)
qed

lemma blank_ok: "fs_ok blank_disk"
proof -
  have "wf_dir blank_disk (Suc 31) 1" by (rule empty_table [OF blank_table])
  then show ?thesis by (simp add: fs_ok_def disk_readable_def blank_disk_def)
qed

lemma blank_tree: "fs_tree blank_disk = Map.empty"
  using empty_table(3) [OF blank_table] by (simp add: fs_tree_def)

lemma writes_succeed:
  assumes "\<forall>l. disk_writable d l"
  shows "fst (write_blocks fs_write d a cs) = Inr ()"
    and "disk_writable (snd (write_blocks fs_write d a cs)) l"
  using fs_dev.write_blocks_succeeds [of a cs d] fs_dev.write_blocks_caps [of d a cs l] assms by auto

lemma blank_unused: "position (used_named n) (replicate 8 empty_entry) = None"
  "position (\<lambda>e. \<not> e_used e) (replicate 8 empty_entry) = Some 0"
  by (simp add: position_None used_named_def) (simp add: numeral_eq_Suc)

lemma blank_occupied: "collect_occupied_at blank_disk l 0 = []"
  by (subst collect_occupied_at.simps) (simp add: blank_table)

lemma blank_write:
  assumes "length data \<le> 4096" "rsplit_slash path = None"
  shows "fst (write_file blank_disk path data) = Inr ()"
proof -
  have res: "resolve_table blank_disk path = Inr (1, path)" by (simp add: resolve_table_def assms(2))
  have free: "find_free_span [] n = Inr (Some 0)" if "n \<le> 64" for n
    using that by (simp add: find_free_span_def upt_rec)
  obtain r d1 where w: "write_blocks fs_write blank_disk 2 (file_sectors data (sectors_needed data)) = (r, d1)"
    by fastforce
  have f: "r = Inr ()" "\<And>l. disk_writable d1 l"
    using writes_succeed [of blank_disk 2 "file_sectors data (sectors_needed data)"] w
    by (simp_all add: blank_disk_def disk_writable_def)
  have "fst (save_dir_at d1 l t) = Inr ()" for l t
    unfolding save_dir_at_def by (rule fs_dev.wr_succeeds) (rule f(2))
  then show ?thesis
    using w f(1) sectors_needed_props(1) [OF assms(1)]
    by (cases "sectors_needed data = 0") (simp_all add: write_file_unfold [OF assms(1) res] blank_table blank_unused write_slot_def Let_def
        collect_occupied_def blank_occupied free)
qed

section \<open>Properties\<close>

lemma run_blank:
  assumes "length data \<le> 4096" "rsplit_slash path = None"
  shows "write_file blank_disk path data = (Inr (), snd (write_file blank_disk path data))"
  using blank_write [OF assms] by (metis prod.collapse)

abbreviation demo_path :: bytes where "demo_path \<equiv> [110]"

lemma demo_path_simps [simp]:
  "rsplit_slash demo_path = None" "rsplit_slash [109] = None" "dir_keys demo_path = []" "dir_keys [109] = []"
  "leaf_key demo_path = 110 # replicate 15 0" "leaf_key [109] = 109 # replicate 15 0"
  by (simp_all add: dir_keys_def leaf_key_def name_bytes_def Let_def)

lemma read_blank: "read_file blank_disk demo_path = Inl NoSuchFile"
  by (simp add: read_file_abs [OF blank_ok] abs_read_file_def abs_table_def blank_tree)

text \<open>
  C4. \<open>write_file\<close> refines the abstract write.  On a sound disk it ends with a sound disk, and
  either it refuses for lack of a directory slot or of space and leaves the disk alone, or the
  drive failed and nothing but the contents of the file being replaced may have changed, or
  its result and its effect are exactly those of the abstract filesystem (too large, bad path,
  is a directory, or stored).
\<close>

theorem write_file_refines:
  assumes "fs_ok d" "write_file d path data = (r, d')"
  shows "fs_ok d' \<and> (r \<in> {Inl DirectoryFull, Inl NoSpace} \<and> d' = d
           \<or> r = Inl DiskError \<and> same_except (fs_tree d) (fs_tree d') path
           \<or> (r, fs_tree d') = abs_write_file (fs_tree d) path data)"
  using assms by (rule write_file_abs)

theorem write_file_refines_witness:
  "fs_ok (snd (write_file blank_disk demo_path [1, 2, 3]))
   \<and> fs_tree (snd (write_file blank_disk demo_path [1, 2, 3]))
       = [110 # replicate 15 0 \<mapsto> File [1, 2, 3]]"
  using write_file_refines [OF blank_ok run_blank [of "[1, 2, 3]" demo_path]]
  by (simp add: blank_tree abs_write_file_def abs_table_def abs_set_def fun_upd_def)

text \<open>
  C2. Saved work stays saved.  After a successful \<open>write_file\<close> the file reads back as exactly the
  bytes written, and every other file, wherever it is in the tree, reads back as before.
\<close>

theorem write_then_read:
  assumes "fs_ok d" "write_file d p data = (Inr (), d')"
  shows "read_file d' p = Inr data
         \<and> (\<forall>q b. \<not> same_name p q \<longrightarrow> read_file d q = Inr b \<longrightarrow> read_file d' q = Inr b)"
proof -
  have ok': "fs_ok d'" and w: "(Inr (), fs_tree d') = abs_write_file (fs_tree d) p data"
    using write_file_abs [OF assms] by auto
  show ?thesis
    using abs_write_same [OF w [symmetric]] abs_write_other [OF w [symmetric]]
    by (simp add: read_file_abs [OF assms(1)] read_file_abs [OF ok'])
qed

theorem write_then_read_witness:
  "\<exists>d1 d2. write_file blank_disk demo_path [1, 2, 3] = (Inr (), d1)
     \<and> (write_file d1 [109] [9] = (Inr (), d2) \<longrightarrow>
          read_file d2 demo_path = Inr [1, 2, 3] \<and> read_file d2 [109] = Inr [9])
     \<and> read_file d1 demo_path = Inr [1, 2, 3]"
proof -
  let ?d1 = "snd (write_file blank_disk demo_path [1, 2, 3])"
  have w: "write_file blank_disk demo_path [1, 2, 3] = (Inr (), ?d1)" by (rule run_blank) simp_all
  note one = write_then_read [OF blank_ok w]
  have "fs_ok ?d1" using write_file_abs [OF blank_ok w] by blast
  note two = write_then_read [OF this]
  have "\<not> same_name [109] demo_path" by (simp add: same_name_def)
  with one two w show ?thesis by blast
qed

text \<open>
  \<open>read_file\<close> on a sound disk is a lookup in the abstract filesystem: for every path, valid
  or not, its result (the bytes, or which error) is the abstract one.
\<close>

theorem read_file_refines:
  assumes "fs_ok d"
  shows "read_file d path = abs_read_file (fs_tree d) path"
  using assms by (rule read_file_abs)

theorem read_file_refines_witness: "read_file blank_disk demo_path = Inl NoSuchFile"
  using read_file_refines [OF blank_ok, of demo_path]
  by (simp add: abs_read_file_def abs_table_def blank_tree)

text \<open>
  \<open>delete_file\<close> refines the abstract delete: the disk stays sound; unless the drive fails, in
  which case nothing changes, the outcome (bad path, no such file, is a directory, removed)
  and the resulting tree are the abstract ones.
\<close>

theorem delete_file_refines:
  assumes "fs_ok d" "delete_file d path = (r, d')"
  shows "fs_ok d' \<and> (r = Inl DiskError \<and> d' = d \<or> (r, fs_tree d') = abs_delete_file (fs_tree d) path)"
  using assms by (rule delete_file_abs)

theorem delete_file_refines_witness:
  "let d1 = snd (write_file blank_disk demo_path [1, 2, 3]); d2 = snd (delete_file d1 demo_path)
   in fs_ok d2 \<and> (fst (delete_file d1 demo_path) = Inl DiskError \<and> d2 = d1
        \<or> fst (delete_file d1 demo_path) = Inr () \<and> fs_tree d2 = Map.empty)"
proof -
  let ?d1 = "snd (write_file blank_disk demo_path [1, 2, 3])"
  have w: "write_file blank_disk demo_path [1, 2, 3] = (Inr (), ?d1)" by (rule run_blank) simp_all
  have "fs_ok ?d1" and "fs_tree ?d1 = [110 # replicate 15 0 \<mapsto> File [1, 2, 3]]"
    using write_file_abs [OF blank_ok w]
    by (simp_all add: blank_tree abs_write_file_def abs_table_def abs_set_def fun_upd_def)
  with delete_file_refines [of ?d1 demo_path "fst (delete_file ?d1 demo_path)" "snd (delete_file ?d1 demo_path)"]
  show ?thesis by (simp add: abs_delete_file_def abs_table_def abs_set_def Let_def)
qed

text \<open>
  \<open>remove_dir\<close> refines the abstract rmdir; in particular it removes a directory only when
  that directory is empty, and never changes anything else.
\<close>

theorem remove_dir_refines:
  assumes "fs_ok d" "remove_dir d path = (r, d')"
  shows "fs_ok d' \<and> (r = Inl DiskError \<and> d' = d \<or> (r, fs_tree d') = abs_remove_dir (fs_tree d) path)"
  using assms by (rule remove_dir_abs)

theorem remove_dir_refines_witness:
  "let d1 = snd (write_file blank_disk demo_path [1, 2, 3]); d2 = snd (remove_dir d1 demo_path)
   in fs_ok d2 \<and> (fst (remove_dir d1 demo_path) = Inl DiskError \<and> d2 = d1
        \<or> fst (remove_dir d1 demo_path) = Inl IsAFile \<and> fs_tree d2 = fs_tree d1)"
proof -
  let ?d1 = "snd (write_file blank_disk demo_path [1, 2, 3])"
  have w: "write_file blank_disk demo_path [1, 2, 3] = (Inr (), ?d1)" by (rule run_blank) simp_all
  have "fs_ok ?d1" and "fs_tree ?d1 = [110 # replicate 15 0 \<mapsto> File [1, 2, 3]]"
    using write_file_abs [OF blank_ok w]
    by (simp_all add: blank_tree abs_write_file_def abs_table_def abs_set_def fun_upd_def)
  with remove_dir_refines [of ?d1 demo_path "fst (remove_dir ?d1 demo_path)" "snd (remove_dir ?d1 demo_path)"]
  show ?thesis by (simp add: abs_remove_dir_def abs_table_def Let_def)
qed

text \<open>
  \<open>make_dir\<close> refines the abstract mkdir for every new directory with at most 30 directories
  above it below the root (the levels the occupancy scan can see), and preserves soundness
  there whatever its outcome.
\<close>

theorem make_dir_refines:
  assumes "fs_ok d" "length (dir_keys path) \<le> 30" "make_dir d path = (r, d')"
  shows "fs_ok d' \<and> (r \<in> {Inl DirectoryFull, Inl NoSpace, Inl DiskError} \<and> fs_tree d' = fs_tree d
           \<or> (r, fs_tree d') = abs_make_dir (fs_tree d) path)"
  using assms by (rule make_dir_abs)

theorem make_dir_refines_witness:
  "fs_ok (snd (make_dir blank_disk demo_path))
   \<and> (fs_tree (snd (make_dir blank_disk demo_path)) = Map.empty
      \<or> fs_tree (snd (make_dir blank_disk demo_path)) = [110 # replicate 15 0 \<mapsto> Dir Map.empty])"
  using make_dir_refines [OF blank_ok, of demo_path "fst (make_dir blank_disk demo_path)"
      "snd (make_dir blank_disk demo_path)"]
  by (auto simp: blank_tree abs_make_dir_def abs_table_def abs_set_def fun_upd_def)

text \<open>
  The scan for occupied sectors stops one level too early: of a table on level 31 it counts the entries,
  but not what a directory among them holds, although \<open>resolve_dir_lba\<close> still walks into that one.
\<close>

lemma level_32_unseen:
  "collect_occupied_at d lba 31 =
     concat (map (\<lambda>e. if \<not> e_used e \<or> e_sector_count e = 0 then [] else [(e_start_lba e, e_sector_count e)]) (load_dir_at d lba))"
proof -
  have "collect_occupied_at d l 32 = []" for l by (subst collect_occupied_at.simps) simp
  then show ?thesis by (subst collect_occupied_at.simps) (simp cong: if_cong)
qed

text \<open>
  C3. The filesystem is the tree it stores: on a sound disk, for every path, valid or not, \<open>read_file\<close>
  returns what a lookup in the abstract tree returns; \<open>delete_file\<close> and \<open>remove_dir\<close> keep the disk sound
  and have exactly the outcome and the effect of the abstract operations, unless the drive fails, when
  nothing changes; and so has \<open>make_dir\<close> with at most 30 directories above the new one below the root, or
  it finds no room (or the drive fails) and the tree stays.  The code accepts one level more, and the
  bound is needed there: see \<open>level_32_unseen\<close>.
\<close>

theorem file_tree_refines:
  assumes "fs_ok d"
  shows "read_file d path = abs_read_file (fs_tree d) path
    \<and> (case delete_file d path of (r, d') \<Rightarrow> fs_ok d' \<and>
         (r = Inl DiskError \<and> d' = d \<or> (r, fs_tree d') = abs_delete_file (fs_tree d) path))
    \<and> (case remove_dir d path of (r, d') \<Rightarrow> fs_ok d' \<and>
         (r = Inl DiskError \<and> d' = d \<or> (r, fs_tree d') = abs_remove_dir (fs_tree d) path))
    \<and> (length (dir_keys path) \<le> 30 \<longrightarrow> (case make_dir d path of (r, d') \<Rightarrow> fs_ok d' \<and>
         (r \<in> {Inl DirectoryFull, Inl NoSpace, Inl DiskError} \<and> fs_tree d' = fs_tree d
          \<or> (r, fs_tree d') = abs_make_dir (fs_tree d) path)))"
  using read_file_abs [OF assms, of path] delete_file_abs [OF assms, of path] remove_dir_abs [OF assms, of path]
    make_dir_abs [OF assms, of path] by fastforce

theorem file_tree_refines_witness:
  "read_file blank_disk demo_path = Inl NoSuchFile
   \<and> fs_ok (snd (make_dir blank_disk demo_path))
   \<and> (fs_tree (snd (make_dir blank_disk demo_path)) = Map.empty
      \<or> fs_tree (snd (make_dir blank_disk demo_path)) = [110 # replicate 15 0 \<mapsto> Dir Map.empty])"
  using file_tree_refines [OF blank_ok, of demo_path]
  by (auto simp: blank_tree abs_read_file_def abs_make_dir_def abs_table_def abs_set_def fun_upd_def split: prod.splits)

text \<open>
  The table format round trips: a table of eight entries within the field widths that was
  stored by \<open>save_dir_at\<close> is what \<open>load_dir_at\<close> returns, and every other sector of the disk
  below the pool's end loads as before.
\<close>

theorem save_load_dir:
  assumes "table_ok t" "lba < 66" "disk_readable d lba" "save_dir_at d lba t = (Inr (), d')"
  shows "load_dir_at d' lba = t \<and> (\<forall>l < 66. l \<noteq> lba \<longrightarrow> load_dir_at d' l = load_dir_at d l)"
  using save_dir_load [OF assms(4,2,1,3)] agree_table [OF save_dir_other [OF assms(4,2)]] by auto

theorem save_load_dir_witness:
  "load_dir_at (snd (save_dir_at blank_disk 1 (replicate 8 empty_entry))) 1 = replicate 8 empty_entry"
proof -
  have "fst (save_dir_at blank_disk 1 (replicate 8 empty_entry)) = Inr ()"
    unfolding save_dir_at_def
    by (rule fs_dev.wr_succeeds) (simp add: disk_writable_def blank_disk_def)
  then have "save_dir_at blank_disk 1 (replicate 8 empty_entry)
      = (Inr (), snd (save_dir_at blank_disk 1 (replicate 8 empty_entry)))" by (metis prod.collapse)
  from save_load_dir [OF table_ok_empty _ _ this] show ?thesis
    by (simp add: disk_readable_def blank_disk_def)
qed

text \<open>
  The allocator is sound, first-fit and complete: for occupied ranges that do not overflow,
  \<open>find_free_span\<close> never panics, the span it returns lies in the 64-sector pool and overlaps no
  occupied range, no lower start would do, and it returns nothing only when no span is free.
\<close>

theorem find_free_span_first_fit:
  assumes "ranges_ok occ" "0 < n" "n \<le> 64"
  shows "\<exists>res. find_free_span occ n = Inr res \<and>
     (case res of
        Some st \<Rightarrow> st + n \<le> 64 \<and> free_span occ (2 + st) n \<and> (\<forall>s < st. \<not> free_span occ (2 + s) n)
      | None \<Rightarrow> (\<forall>s. s + n \<le> 64 \<longrightarrow> \<not> free_span occ (2 + s) n))"
proof (cases "find (\<lambda>st. free_span occ (2 + st) n) [0..<65 - n]")
  case None
  then have "\<not> free_span occ (2 + s) n" if "s + n \<le> 64" for s
    using that assms(3) unfolding find_None_iff by auto
  then show ?thesis by (simp only: find_free_span_ok [OF assms] None) simp
next
  case (Some st)
  then have "st + n \<le> 64 \<and> free_span occ (2 + st) n \<and> (\<forall>s < st. \<not> free_span occ (2 + s) n)"
    unfolding find_Some_iff using assms(3) by auto
  then show ?thesis by (simp only: find_free_span_ok [OF assms] Some) simp
qed

theorem find_free_span_first_fit_witness:
  "find_free_span [(2, 3), (6, 1)] 2 = Inr (Some 5) \<and> free_span [(2, 3), (6, 1)] 7 2"
  using find_free_span_first_fit [of "[(2, 3), (6, 1)]" 2]
  by (simp add: find_free_span_def upt_rec ranges_ok_def)

end
