(* ===== verification/Store.thy ===== *)
theory Store
  imports Fs_Props
begin

text \<open>
  The interface the kernel uses the filesystem through: whole files are read by path and saved
  by path, and a save can fail.  The locale \<open>file_store\<close> states the contract; the filesystem
  of \<open>kernel/src/fs.rs\<close> is its interpretation.
\<close>

locale file_store =
  fixes rd :: "'d \<Rightarrow> 'p \<Rightarrow> bytes option" and wr :: "'d \<Rightarrow> 'p \<Rightarrow> bytes \<Rightarrow> bool \<times> 'd"
    and same :: "'p \<Rightarrow> 'p \<Rightarrow> bool" and ok :: "'d \<Rightarrow> bool"
  assumes wr_ok: "ok d \<Longrightarrow> wr d p x = (b, d') \<Longrightarrow> ok d'"
    and wr_same: "ok d \<Longrightarrow> wr d p x = (True, d') \<Longrightarrow> rd d' p = Some x"
    and wr_other: "ok d \<Longrightarrow> wr d p x = (b, d') \<Longrightarrow> \<not> same p q \<Longrightarrow> rd d q = Some y \<Longrightarrow> rd d' q = Some y"

text \<open>A sequence of saves, with the outcome of each.\<close>

fun save_all :: "('d \<Rightarrow> 'p \<Rightarrow> bytes \<Rightarrow> bool \<times> 'd) \<Rightarrow> ('p \<times> bytes) list \<Rightarrow> 'd \<Rightarrow> bool list \<times> 'd" where
  "save_all wr [] d = ([], d)"
| "save_all wr ((p, x) # ws) d =
     (case wr d p x of (b, d1) \<Rightarrow> case save_all wr ws d1 of (bs, d2) \<Rightarrow> (b # bs, d2))"

context file_store
begin

lemma save_all_cons:
  assumes "save_all wr ((p, x) # ws) d = (bs, d')"
  obtains b d1 bs' where "wr d p x = (b, d1)" "save_all wr ws d1 = (bs', d')" "bs = b # bs'"
  using assms by (auto split: prod.splits)

lemma save_all_ok: "ok d \<Longrightarrow> save_all wr ws d = (bs, d') \<Longrightarrow> ok d'"
proof (induction ws arbitrary: d bs)
  case (Cons w ws)
  obtain p x where w: "w = (p, x)" by fastforce
  from Cons.prems(2) [unfolded w] show ?case
    by (rule save_all_cons) (use Cons.IH wr_ok [OF Cons.prems(1)] in blast)
qed simp

lemma save_all_other:
  "ok d \<Longrightarrow> save_all wr ws d = (bs, d') \<Longrightarrow> \<forall>w \<in> set ws. \<not> same (fst w) q \<Longrightarrow> rd d q = Some y
    \<Longrightarrow> rd d' q = Some y"
proof (induction ws arbitrary: d bs)
  case (Cons w ws)
  obtain p x where w: "w = (p, x)" by fastforce
  from Cons.prems(2) [unfolded w] show ?case
  proof (rule save_all_cons)
    fix b d1 bs' assume s: "wr d p x = (b, d1)" "save_all wr ws d1 = (bs', d')"
    have "rd d1 q = Some y" using wr_other [OF Cons.prems(1) s(1)] Cons.prems(3,4) w by simp
    then show ?thesis using Cons.IH [OF wr_ok [OF Cons.prems(1) s(1)] s(2)] Cons.prems(3) by simp
  qed
qed simp

lemma save_all_last:
  "ok d \<Longrightarrow> save_all wr (ws1 @ (p, x) # ws2) d = (bs, d') \<Longrightarrow> bs ! length ws1
    \<Longrightarrow> \<forall>w \<in> set ws2. \<not> same (fst w) p \<Longrightarrow> rd d' p = Some x"
proof (induction ws1 arbitrary: d bs)
  case Nil
  from Nil.prems(2) [unfolded append_Nil] show ?case
  proof (rule save_all_cons)
    fix b d1 bs' assume s: "wr d p x = (b, d1)" "save_all wr ws2 d1 = (bs', d')" "bs = b # bs'"
    then have "rd d1 p = Some x" using wr_same [OF Nil.prems(1), of p x d1] Nil.prems(3) by simp
    then show ?thesis using save_all_other [OF wr_ok [OF Nil.prems(1) s(1)] s(2)] Nil.prems(4) by simp
  qed
next
  case (Cons w ws1)
  obtain q y where w: "w = (q, y)" by fastforce
  from Cons.prems(2) [unfolded w append_Cons] show ?case
    by (rule save_all_cons) (use Cons.IH [OF wr_ok [OF Cons.prems(1)]] Cons.prems(3,4) in \<open>fastforce\<close>)
qed

end

text \<open>\<open>fs::read_file\<close> and \<open>fs::write_file\<close> as their callers in \<open>process.rs\<close> match on them.\<close>

definition fs_load :: "disk \<Rightarrow> bytes \<Rightarrow> bytes option" where
  "fs_load d path = (case read_file d path of Inr data \<Rightarrow> Some data | Inl _ \<Rightarrow> None)"

definition fs_save :: "disk \<Rightarrow> bytes \<Rightarrow> bytes \<Rightarrow> bool \<times> disk" where
  "fs_save d path data = (case write_file d path data of (Inr _, d') \<Rightarrow> (True, d') | (Inl _, d') \<Rightarrow> (False, d'))"

lemma fs_load_Some: "fs_load d p = Some x \<longleftrightarrow> read_file d p = Inr x"
  by (simp add: fs_load_def split: sum.split)

lemma fs_save_run:
  assumes "fs_save d p x = (b, d')"
  obtains r where "write_file d p x = (r, d')" "b = (r = Inr ())"
  using assms by (auto simp: fs_save_def split: prod.splits sum.splits)

lemma write_keeps_others:
  assumes ok: "fs_ok d" and w: "write_file d p x = (r, d')" and q: "\<not> same_name p q" "read_file d q = Inr y"
  shows "read_file d' q = Inr y"
proof -
  have ok': "fs_ok d'" using write_file_abs [OF ok w] by blast
  have old: "abs_read_file (fs_tree d) q = Inr y" using q(2) by (simp add: read_file_abs [OF ok])
  consider "d' = d" | "same_except (fs_tree d) (fs_tree d') p"
    | "(r, fs_tree d') = abs_write_file (fs_tree d) p x"
    using write_file_abs [OF ok w] by blast
  then have "abs_read_file (fs_tree d') q = Inr y"
  proof cases
    case 3
    then have "fs_tree d' = fs_tree d \<or> r = Inr ()"
      by (auto simp: abs_write_file_def split: if_splits sum.splits option.splits node.splits)
    then show ?thesis using old q(1) 3 abs_write_other [of "fs_tree d" p x "fs_tree d'" q y] by auto
  qed (use old q(1) same_except_other in auto)
  then show ?thesis by (simp add: read_file_abs [OF ok'])
qed

interpretation fs_store: file_store fs_load fs_save same_name fs_ok
proof
  fix d p x b d' q y
  assume ok: "fs_ok d"
  show "fs_ok d'" if "fs_save d p x = (b, d')"
    using that by (rule fs_save_run) (use write_file_abs [OF ok] in blast)
  show "fs_load d' p = Some x" if "fs_save d p x = (True, d')"
    using that
  proof (rule fs_save_run)
    fix r assume w: "write_file d p x = (r, d')" "True = (r = Inr ())"
    then have "fs_ok d'" "(Inr (), fs_tree d') = abs_write_file (fs_tree d) p x"
      using write_file_abs [OF ok w(1)] by auto
    then show ?thesis using abs_write_same [of "fs_tree d" p x] by (simp add: fs_load_Some read_file_abs)
  qed
  show "fs_load d' q = Some y" if "fs_save d p x = (b, d')" "\<not> same_name p q" "fs_load d q = Some y"
    using that(1) by (rule fs_save_run) (use write_keeps_others [OF ok _ that(2)] that(3) fs_load_Some in blast)
qed

text \<open>
  The last save wins.  After any sequence of saves, successful or not, on a sound disk, the
  disk is sound; a file whose last save in the sequence succeeded reads back as exactly those
  bytes, and a file no save of the sequence names reads as before.
\<close>

theorem last_save_wins:
  assumes "fs_ok d" "save_all fs_save ws d = (bs, d')"
  shows "fs_ok d' \<and> (\<forall>ws1 p x ws2. ws = ws1 @ (p, x) # ws2 \<and> bs ! length ws1
             \<and> (\<forall>w \<in> set ws2. \<not> same_name (fst w) p) \<longrightarrow> fs_load d' p = Some x)
         \<and> (\<forall>q y. (\<forall>w \<in> set ws. \<not> same_name (fst w) q) \<and> fs_load d q = Some y \<longrightarrow> fs_load d' q = Some y)"
  using fs_store.save_all_ok [OF assms] fs_store.save_all_other [OF assms] assms
    fs_store.save_all_last [OF assms(1)] by blast

theorem last_save_wins_witness:
  "\<exists>bs d'. save_all fs_save [(demo_path, [1, 2, 3]), ([109], [9])] blank_disk = (bs, d') \<and> fs_load d' demo_path = Some [1, 2, 3]"
proof -
  obtain bs d' where run: "save_all fs_save [(demo_path, [1, 2, 3]), ([109], [9])] blank_disk = (bs, d')" by fastforce
  have "hd bs" using run run_blank [of "[1, 2, 3]" demo_path] by (auto simp: fs_save_def split: prod.splits)
  moreover have "bs \<noteq> []" using run by (auto split: prod.splits)
  ultimately have "bs ! length ([] :: (bytes \<times> bytes) list)" by (simp add: hd_conv_nth)
  moreover have "\<not> same_name [109] demo_path" by (simp add: same_name_def)
  ultimately have "fs_load d' demo_path = Some [1, 2, 3]"
    using last_save_wins [OF blank_ok run] by (metis append_Nil empty_iff empty_set fst_conv set_ConsD)
  with run show ?thesis by blast
qed

end
