(* ===== verification/Pipe.thy ===== *)
theory Pipe
  imports Prelude
begin

text \<open>
  The ring buffer behind a pipe (\<open>struct Pipe\<close>, and the bodies of \<open>pipe_read\<close> and
  \<open>pipe_write\<close> in \<open>kernel/src/process.rs\<close>), and the first-in-first-out channel it implements.
  The locale \<open>byte_channel\<close> is that contract: a write appends the prefix that fits, a read
  removes a prefix.  What any interleaving of writes and reads delivers is proved once from
  the contract and then holds of the ring buffer by interpretation.
\<close>

definition PIPE_CAPACITY :: nat where [simp]: "PIPE_CAPACITY = 512"
definition MAX_PIPES :: nat where [simp]: "MAX_PIPES = 4"

record pipe =
  buffer :: bytes
  read_pos :: nat
  write_pos :: nat
  plen :: nat
  read_open :: nat
  write_open :: nat

definition new_pipe :: pipe where
  "new_pipe = \<lparr>buffer = replicate PIPE_CAPACITY 0, read_pos = 0, write_pos = 0, plen = 0,
     read_open = 1, write_open = 1\<rparr>"

definition ring_read :: "pipe \<Rightarrow> nat \<Rightarrow> bytes \<times> pipe" where
  "ring_read p len =
     (let n = min len (plen p)
      in (map (\<lambda>i. buffer p ! ((read_pos p + i) mod PIPE_CAPACITY)) [0..<n],
          p\<lparr>read_pos := (read_pos p + n) mod PIPE_CAPACITY, plen := plen p - n\<rparr>))"

text \<open>The copy loop: byte \<open>i\<close> of the data goes to slot \<open>(write_pos + i) mod PIPE_CAPACITY\<close>.\<close>

fun ring_fill :: "bytes \<Rightarrow> nat \<Rightarrow> bytes \<Rightarrow> bytes" where
  "ring_fill buf pos [] = buf"
| "ring_fill buf pos (b # bs) = ring_fill (buf[pos mod PIPE_CAPACITY := b]) (pos + 1) bs"

definition ring_write :: "pipe \<Rightarrow> bytes \<Rightarrow> nat \<times> pipe" where
  "ring_write p data =
     (let room = PIPE_CAPACITY - plen p; n = min (length data) room
      in (n, p\<lparr>buffer := ring_fill (buffer p) (write_pos p) (take n data),
               write_pos := (write_pos p + n) mod PIPE_CAPACITY, plen := plen p + n\<rparr>))"

definition pipe_ok :: "pipe \<Rightarrow> bool" where
  "pipe_ok p \<longleftrightarrow> length (buffer p) = 512 \<and> read_pos p < 512 \<and> write_pos p < 512 \<and> plen p \<le> 512
     \<and> write_pos p = (read_pos p + plen p) mod 512"

definition ring_contents :: "pipe \<Rightarrow> bytes" where
  "ring_contents p = map (\<lambda>i. buffer p ! ((read_pos p + i) mod 512)) [0..<plen p]"

lemma length_ring_contents [simp]: "length (ring_contents p) = plen p"
  by (simp add: ring_contents_def)

lemma new_pipe_ok [simp]: "pipe_ok new_pipe" "ring_contents new_pipe = []"
  by (simp_all add: pipe_ok_def new_pipe_def ring_contents_def)

lemma length_ring_fill [simp]: "length (ring_fill buf pos bs) = length buf"
  by (induction buf pos bs rule: ring_fill.induct) auto

lemma mod_eq_offset_le:
  "(pos + i) mod (512::nat) = (pos + j) mod 512 \<Longrightarrow> i \<le> j \<Longrightarrow> j < 512 \<Longrightarrow> i = j"
  using mod_eq_dvd_iff_nat [of "pos + i" "pos + j" 512] by (auto dest: dvd_imp_le)

lemma mod_eq_offset: "(pos + i) mod (512::nat) = (pos + j) mod 512 \<Longrightarrow> i < 512 \<Longrightarrow> j < 512 \<Longrightarrow> i = j"
  using mod_eq_offset_le [of pos i j] mod_eq_offset_le [of pos j i] by linarith

lemma ring_fill_other:
  "\<forall>i < length bs. k \<noteq> (pos + i) mod 512 \<Longrightarrow> ring_fill buf pos bs ! k = buf ! k"
proof (induction buf pos bs rule: ring_fill.induct)
  case (2 buf pos b bs)
  have "k \<noteq> pos mod 512" using 2(2) by (auto dest: spec [of _ 0])
  moreover have "\<forall>i < length bs. k \<noteq> (pos + 1 + i) mod 512"
  proof safe
    fix i assume "i < length bs" "k = (pos + 1 + i) mod 512"
    then show False using 2(2) [rule_format, of "Suc i"] by simp
  qed
  ultimately show ?case using 2(1) by simp
qed simp

lemma ring_fill_nth:
  "length buf = 512 \<Longrightarrow> length bs \<le> 512 \<Longrightarrow> i < length bs \<Longrightarrow> ring_fill buf pos bs ! ((pos + i) mod 512) = bs ! i"
proof (induction buf pos bs arbitrary: i rule: ring_fill.induct)
  case (2 buf pos b bs)
  show ?case
  proof (cases i)
    case 0
    have "\<forall>j < length bs. pos mod 512 \<noteq> (pos + 1 + j) mod 512"
    proof safe
      fix j assume "j < length bs" "pos mod 512 = (pos + 1 + j) mod 512"
      then show False using mod_eq_offset [of pos 0 "Suc j"] 2(3) by simp
    qed
    then have "ring_fill (buf[pos mod 512 := b]) (pos + 1) bs ! (pos mod 512) = b"
      using 2(2) by (subst ring_fill_other) auto
    with 0 show ?thesis by simp
  next
    case (Suc j)
    then show ?thesis using 2(1) [of j] 2(2-4) by simp
  qed
qed simp

lemma ring_read_spec:
  assumes "pipe_ok p" "ring_read p n = (out, p')"
  shows "pipe_ok p'" "out = take n (ring_contents p)" "ring_contents p' = drop n (ring_contents p)"
proof -
  let ?n = "min n (plen p)"
  have p': "p' = p\<lparr>read_pos := (read_pos p + ?n) mod 512, plen := plen p - ?n\<rparr>"
    and out: "out = map (\<lambda>i. buffer p ! ((read_pos p + i) mod 512)) [0..<?n]"
    using assms(2) by (auto simp: ring_read_def Let_def)
  have "((r + m) mod 512 + k) mod 512 = (r + (m + k)) mod 512" for r m k :: nat
    by (simp add: mod_add_left_eq add.assoc)
  from this [of "read_pos p" ?n "plen p - ?n"]
  have "((read_pos p + ?n) mod 512 + plen p - ?n) mod 512 = (read_pos p + plen p) mod 512"
    by simp
  then show "pipe_ok p'" using assms(1) by (auto simp: pipe_ok_def p')
  show "out = take n (ring_contents p)"
    by (rule nth_equalityI) (auto simp: out ring_contents_def)
  show "ring_contents p' = drop n (ring_contents p)"
    by (rule nth_equalityI) (auto simp: p' ring_contents_def mod_add_left_eq add.assoc)
qed

lemma ring_write_spec:
  assumes "pipe_ok p" "ring_write p data = (n, p')"
  shows "pipe_ok p'" "n = min (length data) (512 - plen p)"
    "ring_contents p' = ring_contents p @ take n data"
proof -
  show n: "n = min (length data) (512 - plen p)"
    using assms(2) by (auto simp: ring_write_def Let_def)
  have p': "p' = p\<lparr>buffer := ring_fill (buffer p) (write_pos p) (take n data),
       write_pos := (write_pos p + n) mod 512, plen := plen p + n\<rparr>"
    using assms(2) n by (auto simp: ring_write_def Let_def)
  have inv: "length (buffer p) = 512" "plen p \<le> 512" "write_pos p = (read_pos p + plen p) mod 512"
    using assms(1) by (auto simp: pipe_ok_def)
  have le: "plen p + n \<le> 512" using n inv(2) by simp
  show "pipe_ok p'"
    using assms(1) le by (auto simp: pipe_ok_def p' mod_add_left_eq add.assoc)
  have old: "ring_fill (buffer p) (write_pos p) (take n data) ! ((read_pos p + i) mod 512)
      = buffer p ! ((read_pos p + i) mod 512)" if "i < plen p" for i
  proof (rule ring_fill_other, safe)
    fix j assume j: "j < length (take n data)" "(read_pos p + i) mod 512 = (write_pos p + j) mod 512"
    then have "(read_pos p + i) mod 512 = (read_pos p + (plen p + j)) mod 512"
      by (simp add: inv(3) mod_add_left_eq add.assoc)
    then show False using mod_eq_offset [of "read_pos p" i "plen p + j"] that j(1) le by simp
  qed
  have new: "ring_fill (buffer p) (write_pos p) (take n data) ! ((read_pos p + (plen p + j)) mod 512)
      = take n data ! j" if "j < n" for j
  proof -
    have "ring_fill (buffer p) (write_pos p) (take n data) ! ((write_pos p + j) mod 512) = take n data ! j"
      by (rule ring_fill_nth) (use that n inv in auto)
    then show ?thesis by (simp add: inv(3) mod_add_left_eq add.assoc)
  qed
  show "ring_contents p' = ring_contents p @ take n data"
  proof (rule nth_equalityI)
    show "length (ring_contents p') = length (ring_contents p @ take n data)"
      using n by (simp add: p')
    fix i assume "i < length (ring_contents p')"
    then have i: "i < plen p + n" by (simp add: p')
    show "ring_contents p' ! i = (ring_contents p @ take n data) ! i"
      using i old [of i] new [of "i - plen p"]
      by (cases "i < plen p") (auto simp: ring_contents_def p' nth_append)
  qed
qed

section \<open>The channel contract\<close>

datatype chan_op = Write bytes | Read nat

locale byte_channel =
  fixes wr :: "'q \<Rightarrow> bytes \<Rightarrow> nat \<times> 'q" and rd :: "'q \<Rightarrow> nat \<Rightarrow> bytes \<times> 'q"
    and pending :: "'q \<Rightarrow> bytes" and ok :: "'q \<Rightarrow> bool" and cap :: nat
  assumes wr_ok: "ok q \<Longrightarrow> ok (snd (wr q xs))"
    and wr_count: "ok q \<Longrightarrow> fst (wr q xs) = min (length xs) (cap - length (pending q))"
    and wr_pending: "ok q \<Longrightarrow> pending (snd (wr q xs)) = pending q @ take (fst (wr q xs)) xs"
    and rd_ok: "ok q \<Longrightarrow> ok (snd (rd q n))"
    and rd_out: "ok q \<Longrightarrow> fst (rd q n) = take n (pending q)"
    and rd_pending: "ok q \<Longrightarrow> pending (snd (rd q n)) = drop n (pending q)"
    and bounded: "ok q \<Longrightarrow> length (pending q) \<le> cap"

text \<open>A run of operations: the bytes accepted, the bytes delivered, and the final channel.\<close>

fun chan_run :: "('q \<Rightarrow> bytes \<Rightarrow> nat \<times> 'q) \<Rightarrow> ('q \<Rightarrow> nat \<Rightarrow> bytes \<times> 'q) \<Rightarrow> chan_op list \<Rightarrow> 'q
    \<Rightarrow> bytes \<times> bytes \<times> 'q" where
  "chan_run wr rd [] q = ([], [], q)"
| "chan_run wr rd (Write xs # ops) q =
     (case wr q xs of (n, q1) \<Rightarrow>
        case chan_run wr rd ops q1 of (acc, out, q2) \<Rightarrow> (take n xs @ acc, out, q2))"
| "chan_run wr rd (Read n # ops) q =
     (case rd q n of (ys, q1) \<Rightarrow>
        case chan_run wr rd ops q1 of (acc, out, q2) \<Rightarrow> (acc, ys @ out, q2))"

context byte_channel
begin

lemma fifo:
  "ok q \<Longrightarrow> chan_run wr rd ops q = (acc, out, q') \<Longrightarrow> ok q' \<and> pending q @ acc = out @ pending q'"
proof (induction ops arbitrary: q acc out)
  case Nil
  then show ?case by simp
next
  case (Cons opr ops)
  show ?case
  proof (cases opr)
    case (Write xs)
    obtain n q1 where w: "wr q xs = (n, q1)" by (cases "wr q xs")
    obtain acc' out' where r: "chan_run wr rd ops q1 = (acc', out', q')" "acc = take n xs @ acc'" "out = out'"
      using Cons.prems(2) Write w by (auto split: prod.splits)
    have "ok q1" "pending q1 = pending q @ take n xs"
      using wr_ok [OF Cons.prems(1), of xs] wr_pending [OF Cons.prems(1), of xs] w by simp_all
    with Cons.IH [OF _ r(1)] r show ?thesis by simp
  next
    case (Read n)
    obtain ys q1 where w: "rd q n = (ys, q1)" by (cases "rd q n")
    obtain acc' out' where r: "chan_run wr rd ops q1 = (acc', out', q')" "acc = acc'" "out = ys @ out'"
      using Cons.prems(2) Read w by (auto split: prod.splits)
    have "ok q1" "ys @ pending q1 = pending q"
      using rd_ok [OF Cons.prems(1), of n] rd_pending [OF Cons.prems(1), of n]
        rd_out [OF Cons.prems(1), of n] w by simp_all
    with Cons.IH [OF _ r(1)] r show ?thesis by (metis append.assoc)
  qed
qed

lemma lag_bounded:
  assumes "ok q" "pending q = []" "chan_run wr rd ops q = (acc, out, q')"
  shows "length acc \<le> length out + cap"
proof -
  have "acc = out @ pending q'" "length (pending q') \<le> cap"
    using fifo [OF assms(1,3)] assms(2) bounded by auto
  then show ?thesis by simp
qed

lemma round_trip:
  assumes "ok q" "pending q = []" "length xs \<le> cap"
  shows "fst (rd (snd (wr q xs)) (length xs)) = xs"
  using wr_pending [OF assms(1), of xs] wr_count [OF assms(1), of xs] rd_out [OF wr_ok [OF assms(1)]]
    assms(2,3) by simp

end

interpretation ring: byte_channel ring_write ring_read ring_contents pipe_ok 512
proof
  fix q :: pipe and xs :: bytes and n :: nat
  assume ok: "pipe_ok q"
  note w = ring_write_spec [OF ok, of xs "fst (ring_write q xs)" "snd (ring_write q xs)", simplified]
  note r = ring_read_spec [OF ok, of n "fst (ring_read q n)" "snd (ring_read q n)", simplified]
  show "pipe_ok (snd (ring_write q xs))" using w(1) .
  show "fst (ring_write q xs) = min (length xs) (512 - length (ring_contents q))" using w(2) by simp
  show "ring_contents (snd (ring_write q xs)) = ring_contents q @ take (fst (ring_write q xs)) xs"
    using w(3) .
  show "pipe_ok (snd (ring_read q n))" using r(1) .
  show "fst (ring_read q n) = take n (ring_contents q)" using r(2) .
  show "ring_contents (snd (ring_read q n)) = drop n (ring_contents q)" using r(3) .
  show "length (ring_contents q) \<le> 512" using ok by (simp add: pipe_ok_def)
qed

section \<open>Pipes are FIFO channels\<close>

text \<open>
  C24. A pipe is a bounded FIFO byte channel: over any interleaving of reads and writes of any
  sizes, what was pending followed by the bytes the writes reported as accepted is what the
  reads delivered followed by what is still pending, in order, nothing lost or repeated; and
  never more than 512 bytes are pending.
\<close>

theorem pipe_fifo:
  assumes "pipe_ok q" "chan_run ring_write ring_read ops q = (acc, out, q')"
  shows "pipe_ok q' \<and> ring_contents q @ acc = out @ ring_contents q' \<and> length (ring_contents q') \<le> 512"
  using ring.fifo [OF assms] ring.bounded by blast

theorem pipe_fifo_witness:
  "\<exists>q'. chan_run ring_write ring_read [Write [1, 2], Read 1, Write [3], Read 5] new_pipe = ([1, 2, 3], [1, 2, 3], q')
     \<and> ring_contents q' = []"
proof -
  obtain q' where run: "chan_run ring_write ring_read [Write [1, 2], Read 1, Write [3], Read 5] new_pipe
      = ([1, 2, 3], [1, 2, 3], q')"
    by (simp add: ring_write_def ring_read_def new_pipe_def Let_def upt_rec)
  have "ring_contents new_pipe = []" "pipe_ok new_pipe"
    by (simp_all add: ring_contents_def new_pipe_def pipe_ok_def)
  with pipe_fifo [OF _ run] run show ?thesis by auto
qed

end
