(* ===== verification/Machine.thy ===== *)
theory Machine
  imports Prelude
begin

text \<open>
  Physical memory as the kernel manages it (\<open>kernel/src/memory.rs\<close>): the bump allocator over the
  bootloader's memory map, the contents of 4096-byte frames reached through the physical-memory
  offset mapping, and the page tables.  Frames are named by their start address.  A PML4 is its
  512 raw entries; what a PML4's private slot translates (pages to frames) is the component
  \<open>maps\<close>, which only \<open>OffsetPageTable::map_to\<close> extends.

  \<open>map_to\<close> belongs to the \<open>x86_64\<close> crate and is a parameter of the definitions that call it;
  \<open>mapper_ok\<close> states its documented behaviour.
\<close>

definition PAGE_SIZE :: nat where [simp]: "PAGE_SIZE = 4096"

section \<open>The frame allocator\<close>

record mem_region =
  r_start :: nat
  r_end :: nat
  r_usable :: bool

record frame_alloc =
  regions :: "mem_region list"
  next_frame :: nat

definition usable_frames :: "frame_alloc \<Rightarrow> nat list" where
  "usable_frames fa =
     map (\<lambda>addr. addr - addr mod 4096)
       (concat (map (\<lambda>r. map (\<lambda>k. r_start r + 4096 * k) [0..<(r_end r - r_start r + 4095) div 4096])
          (filter r_usable (regions fa))))"

definition allocate_frame :: "frame_alloc \<Rightarrow> nat option \<times> frame_alloc" where
  "allocate_frame fa =
     (let fs = usable_frames fa
      in (if next_frame fa < length fs then Some (fs ! next_frame fa) else None,
          fa\<lparr>next_frame := next_frame fa + 1\<rparr>))"

text \<open>What the firmware's map promises: page-aligned, non-overlapping regions in order.\<close>

definition map_accurate :: "frame_alloc \<Rightarrow> bool" where
  "map_accurate fa \<longleftrightarrow> (\<forall>r \<in> set (regions fa). r_start r mod 4096 = 0 \<and> r_end r mod 4096 = 0)
     \<and> sorted_wrt (\<lambda>r s. r_end r \<le> r_start s) (filter r_usable (regions fa))"

lemma usable_frames_regions: "regions fa' = regions fa \<Longrightarrow> usable_frames fa' = usable_frames fa"
  by (simp add: usable_frames_def)

definition region_frames :: "mem_region \<Rightarrow> nat list" where
  "region_frames r = map (\<lambda>k. r_start r + 4096 * k) [0..<(r_end r - r_start r + 4095) div 4096]"

lemma region_frames_bounds:
  assumes "r_start r mod 4096 = 0" "r_end r mod 4096 = 0" "f \<in> set (region_frames r)"
  shows "r_start r \<le> f" "f < r_end r" "f mod 4096 = 0"
proof -
  obtain k where k: "f = r_start r + 4096 * k" "k < (r_end r - r_start r + 4095) div 4096"
    using assms(3) by (auto simp: region_frames_def)
  show "r_start r \<le> f" using k(1) by simp
  have "4096 * k < r_end r - r_start r"
    using k(2) by (simp add: less_mult_imp_div_less less_eq_div_iff_mult_less_eq Suc_le_eq [symmetric])
  then show "f < r_end r" using k(1) by simp
  show "f mod 4096 = 0" using k(1) assms(1) by (simp add: mod_add_left_eq)
qed

lemma usable_frames_concat:
  assumes "map_accurate fa"
  shows "usable_frames fa = concat (map region_frames (filter r_usable (regions fa)))"
proof -
  have "map (\<lambda>addr. addr - addr mod 4096) (concat (map region_frames rs)) = concat (map region_frames rs)"
    if "\<forall>r \<in> set rs. r_start r mod 4096 = 0 \<and> r_end r mod 4096 = 0" for rs
    using that region_frames_bounds(3) by (auto intro!: map_idI) (metis minus_nat.diff_0)
  from this [of "filter r_usable (regions fa)"] assms show ?thesis
    unfolding usable_frames_def region_frames_def [abs_def] map_accurate_def by simp
qed

lemma distinct_region_frames:
  "sorted_wrt (\<lambda>r s. r_end r \<le> r_start s) rs
    \<Longrightarrow> \<forall>r \<in> set rs. r_start r mod 4096 = 0 \<and> r_end r mod 4096 = 0
    \<Longrightarrow> distinct (concat (map region_frames rs))"
proof (induction rs)
  case (Cons r rs)
  have "distinct (region_frames r)" by (auto simp: region_frames_def distinct_map inj_on_def)
  moreover have "set (region_frames r) \<inter> set (concat (map region_frames rs)) = {}"
  proof -
    have "f < r_start s" if "f \<in> set (region_frames r)" "s \<in> set rs" for f s
      using Cons.prems region_frames_bounds(2) [of r f] that by fastforce
    moreover have "r_start s \<le> f" if "f \<in> set (region_frames s)" "s \<in> set rs" for f s
      using Cons.prems region_frames_bounds(1) [of s f] that by simp
    ultimately show ?thesis by fastforce
  qed
  ultimately show ?case using Cons by simp
qed simp

lemma usable_frames_distinct: "map_accurate fa \<Longrightarrow> distinct (usable_frames fa)"
  using distinct_region_frames [of "filter r_usable (regions fa)"]
  by (auto simp: usable_frames_concat map_accurate_def)

section \<open>Frames, page tables and the mapper\<close>

record machine =
  phys :: "nat \<Rightarrow> bytes"
  falloc :: frame_alloc
  pml4_entries :: "nat \<Rightarrow> u64 list"
  maps :: "nat \<Rightarrow> nat \<Rightarrow> nat option"
  cr3 :: nat

definition p4_index :: "nat \<Rightarrow> nat" where
  "p4_index va = va div 2 ^ 39 mod 512"

definition page_of :: "nat \<Rightarrow> nat" where
  "page_of va = va - va mod 4096"

text \<open>\<open>ptr::write_bytes(frame, 0, PAGE_SIZE)\<close> and \<open>copy_nonoverlapping(src, frame, src.len())\<close>.\<close>

definition zero_frame :: "nat \<Rightarrow> machine \<Rightarrow> machine" where
  "zero_frame f m = m\<lparr>phys := (phys m)(f := replicate PAGE_SIZE 0)\<rparr>"

definition copy_to_frame :: "nat \<Rightarrow> bytes \<Rightarrow> machine \<Rightarrow> machine" where
  "copy_to_frame f bs m = m\<lparr>phys := (phys m)(f := splice (phys m f) 0 bs)\<rparr>"

type_synonym map_to_fn = "machine \<Rightarrow> nat \<Rightarrow> nat \<Rightarrow> nat \<Rightarrow> bool \<times> machine"

text \<open>The frames taken from the allocator between two states.\<close>

definition taken :: "machine \<Rightarrow> machine \<Rightarrow> nat set" where
  "taken m m' = (\<lambda>i. usable_frames (falloc m) ! i) `
     ({next_frame (falloc m)..<next_frame (falloc m')} \<inter> {..<length (usable_frames (falloc m))})"

text \<open>
  \<open>map_to(page, frame, flags, frame_allocator)\<close> on the table with PML4 \<open>p\<close>: it may take frames
  from the allocator for intermediate tables and writes only to those; it succeeds only for a
  page that was not mapped, and then exactly that page of that table gained a translation; on
  failure no translation changed.
\<close>

definition mapper_ok :: "map_to_fn \<Rightarrow> bool" where
  "mapper_ok mt \<longleftrightarrow> (\<forall>m p page f r m'. mt m p page f = (r, m') \<longrightarrow>
     regions (falloc m') = regions (falloc m) \<and> next_frame (falloc m) \<le> next_frame (falloc m')
     \<and> cr3 m' = cr3 m
     \<and> (\<forall>g. g \<notin> taken m m' \<longrightarrow> phys m' g = phys m g)
     \<and> (\<forall>q. q \<noteq> p \<longrightarrow> maps m' q = maps m q \<and> pml4_entries m' q = pml4_entries m q)
     \<and> (\<forall>i. i \<noteq> p4_index page \<longrightarrow> pml4_entries m' p ! i = pml4_entries m p ! i)
     \<and> (r \<longrightarrow> maps m p page = None)
     \<and> maps m' p = (if r then (maps m p)(page \<mapsto> f) else maps m p))"

definition alloc_frame :: "'e \<Rightarrow> machine \<Rightarrow> ('e + nat) \<times> machine" where
  "alloc_frame e m =
     (case allocate_frame (falloc m) of
        (None, fa) \<Rightarrow> (Inl e, m\<lparr>falloc := fa\<rparr>)
      | (Some f, fa) \<Rightarrow> (Inr f, m\<lparr>falloc := fa\<rparr>))"

definition map_page :: "map_to_fn \<Rightarrow> 'e \<Rightarrow> nat \<Rightarrow> nat \<Rightarrow> nat \<Rightarrow> machine \<Rightarrow> ('e + unit) \<times> machine" where
  "map_page mt e p page f m =
     (case mt m p page f of (True, m') \<Rightarrow> (Inr (), m') | (False, m') \<Rightarrow> (Inl e, m'))"

text \<open>Sequencing of fallible steps on the machine (the \<open>?\<close> operator).\<close>

definition andThen :: "('e + 'a) \<times> 's \<Rightarrow> ('a \<Rightarrow> 's \<Rightarrow> ('e + 'b) \<times> 's) \<Rightarrow> ('e + 'b) \<times> 's" where
  "andThen r k = (case r of (Inl e, s) \<Rightarrow> (Inl e, s) | (Inr a, s) \<Rightarrow> k a s)"

lemma andThen_simps [simp]:
  "andThen (Inl e, s) k = (Inl e, s)" "andThen (Inr a, s) k = k a s"
  by (simp_all add: andThen_def)

lemma andThen_Inr:
  "andThen r k = (Inr b, s') \<longleftrightarrow> (\<exists>a s. r = (Inr a, s) \<and> k a s = (Inr b, s'))"
  by (cases r; cases "fst r") (auto simp: andThen_def)

section \<open>Progress of the machine\<close>

text \<open>
  \<open>grows P m m'\<close>: from \<open>m\<close> to \<open>m'\<close> frames were only taken from the allocator, memory outside the
  frames taken is unchanged, and no translation of a table other than those whose PML4 is in
  \<open>P\<close> changed.
\<close>

definition grows :: "nat set \<Rightarrow> machine \<Rightarrow> machine \<Rightarrow> bool" where
  "grows P m m' \<longleftrightarrow> regions (falloc m') = regions (falloc m)
     \<and> next_frame (falloc m) \<le> next_frame (falloc m') \<and> cr3 m' = cr3 m
     \<and> (\<forall>g. g \<notin> taken m m' \<longrightarrow> phys m' g = phys m g)
     \<and> (\<forall>q. q \<notin> P \<longrightarrow> maps m' q = maps m q \<and> pml4_entries m' q = pml4_entries m q)"

lemma grows_refl [simp]: "grows P m m"
  by (simp add: grows_def)

lemma taken_trans:
  "regions (falloc m1) = regions (falloc m) \<Longrightarrow> next_frame (falloc m) \<le> next_frame (falloc m1)
    \<Longrightarrow> next_frame (falloc m1) \<le> next_frame (falloc m2) \<Longrightarrow> taken m m2 = taken m m1 \<union> taken m1 m2"
proof -
  assume a: "regions (falloc m1) = regions (falloc m)" "next_frame (falloc m) \<le> next_frame (falloc m1)"
    "next_frame (falloc m1) \<le> next_frame (falloc m2)"
  then have "{next_frame (falloc m)..<next_frame (falloc m2)}
      = {next_frame (falloc m)..<next_frame (falloc m1)} \<union> {next_frame (falloc m1)..<next_frame (falloc m2)}"
    by auto
  then show ?thesis
    using usable_frames_regions [OF a(1)] by (simp add: taken_def Int_Un_distrib2 image_Un)
qed

lemma grows_trans:
  assumes "grows P m m1" "grows P m1 m2"
  shows "grows P m m2"
proof -
  have "taken m m2 = taken m m1 \<union> taken m1 m2"
    using assms by (intro taken_trans) (auto simp: grows_def)
  then show ?thesis using assms by (auto simp: grows_def)
qed

lemma alloc_frame_grows:
  assumes "alloc_frame e m = (r, m')"
  shows "grows P m m'" "r = Inr f \<Longrightarrow> f \<in> taken m m'" "maps m' = maps m" "phys m' = phys m"
    "pml4_entries m' = pml4_entries m"
  using assms by (auto simp: alloc_frame_def allocate_frame_def Let_def grows_def taken_def split: if_splits)

lemma map_page_grows:
  assumes "mapper_ok mt" "map_page mt e p page f m = (r, m')" "p \<in> P"
  shows "grows P m m'" "r = Inr () \<Longrightarrow> maps m' p = (maps m p)(page \<mapsto> f)"
    "i \<noteq> p4_index page \<Longrightarrow> pml4_entries m' p ! i = pml4_entries m p ! i"
    "r = Inr () \<Longrightarrow> map_le (maps m p) (maps m' p)"
proof -
  obtain b where b: "mt m p page f = (b, m')" "b \<longleftrightarrow> r = Inr ()"
    using assms(2) by (auto simp: map_page_def split: prod.splits bool.splits)
  have ok: "regions (falloc m') = regions (falloc m)" "next_frame (falloc m) \<le> next_frame (falloc m')"
    "cr3 m' = cr3 m" "\<forall>g. g \<notin> taken m m' \<longrightarrow> phys m' g = phys m g"
    "\<forall>q. q \<noteq> p \<longrightarrow> maps m' q = maps m q \<and> pml4_entries m' q = pml4_entries m q"
    "maps m' p = (if b then (maps m p)(page \<mapsto> f) else maps m p)"
    "\<forall>i. i \<noteq> p4_index page \<longrightarrow> pml4_entries m' p ! i = pml4_entries m p ! i"
    "b \<longrightarrow> maps m p page = None"
    using assms(1) b(1) unfolding mapper_ok_def by metis+
  show "grows P m m'" using ok(1-5) assms(3) unfolding grows_def by metis
  show "r = Inr () \<Longrightarrow> maps m' p = (maps m p)(page \<mapsto> f)" using ok(6) b(2) by simp
  show "i \<noteq> p4_index page \<Longrightarrow> pml4_entries m' p ! i = pml4_entries m p ! i" using ok(7) by blast
  show "r = Inr () \<Longrightarrow> map_le (maps m p) (maps m' p)" using ok(6,8) b(2) by (auto simp: map_le_def)
qed

text \<open>Writing to a frame that was taken since \<open>m\<close> is still growth from \<open>m\<close>.\<close>

lemma grows_write:
  assumes "grows P m m1" "f \<in> taken m m1" "m2 = m1\<lparr>phys := (phys m1)(f := bs)\<rparr>"
  shows "grows P m m2" "taken m m2 = taken m m1"
  using assms by (auto simp: grows_def taken_def)

lemma taken_mono: "grows P m m1 \<Longrightarrow> grows P m1 m2 \<Longrightarrow> taken m m1 \<subseteq> taken m m2"
  by (auto simp: grows_def taken_def usable_frames_regions [of "falloc m1" "falloc m"])

lemma taken_disjoint:
  assumes "map_accurate (falloc m)" "grows P m m1" "grows P m1 m2"
  shows "taken m m1 \<inter> taken m1 m2 = {}"
proof -
  have u: "usable_frames (falloc m1) = usable_frames (falloc m)"
    using assms(2) by (intro usable_frames_regions) (simp add: grows_def)
  show ?thesis
    using usable_frames_distinct [OF assms(1)]
    by (auto simp: taken_def u nth_eq_iff_index_eq)
qed

section \<open>A frame is handed out once\<close>

fun alloc_many :: "nat \<Rightarrow> frame_alloc \<Rightarrow> nat option list \<times> frame_alloc" where
  "alloc_many 0 fa = ([], fa)"
| "alloc_many (Suc n) fa =
     (case allocate_frame fa of (r, fa1) \<Rightarrow> case alloc_many n fa1 of (rs, fa2) \<Rightarrow> (r # rs, fa2))"

lemma alloc_many_nth:
  "alloc_many n fa = (rs, fa') \<Longrightarrow> length rs = n \<and> (\<forall>k < n. rs ! k =
     (if next_frame fa + k < length (usable_frames fa) then Some (usable_frames fa ! (next_frame fa + k)) else None))"
proof (induction n arbitrary: fa rs)
  case (Suc n)
  obtain r fa1 rs1 where s: "allocate_frame fa = (r, fa1)" "alloc_many n fa1 = (rs1, fa')" "rs = r # rs1"
    using Suc.prems by (auto split: prod.splits)
  have f: "usable_frames fa1 = usable_frames fa" "next_frame fa1 = next_frame fa + 1"
    "r = (if next_frame fa < length (usable_frames fa) then Some (usable_frames fa ! next_frame fa) else None)"
    using s(1) by (auto simp: allocate_frame_def Let_def intro: usable_frames_regions)
  note ih = Suc.IH [OF s(2)]
  have "rs ! k = (if next_frame fa + k < length (usable_frames fa)
      then Some (usable_frames fa ! (next_frame fa + k)) else None)" if "k < Suc n" for k
  proof (cases k)
    case (Suc j)
    then have "rs ! k = rs1 ! j" "j < n" using s(3) that by simp_all
    then show ?thesis using ih f(1,2) Suc by simp
  qed (simp add: s(3) f(3))
  then show ?case using ih s(3) by simp
qed simp

lemma usable_frames_in_region:
  assumes "map_accurate fa" "f \<in> set (usable_frames fa)"
  shows "f mod 4096 = 0 \<and> (\<exists>r \<in> set (regions fa). r_usable r \<and> r_start r \<le> f \<and> f + 4096 \<le> r_end r)"
proof -
  obtain r where r: "r \<in> set (regions fa)" "r_usable r" "f \<in> set (region_frames r)"
    using assms by (auto simp: usable_frames_concat)
  then have al: "r_start r mod 4096 = 0" "r_end r mod 4096 = 0" using assms(1) by (auto simp: map_accurate_def)
  note b = region_frames_bounds [OF al r(3)]
  obtain a e where "f = 4096 * a" "r_end r = 4096 * e"
    using b(3) al(2) by (auto simp: mod_eq_0_iff_dvd elim!: dvdE)
  moreover from this have "a < e" using b(2) by simp
  ultimately have "f + 4096 \<le> r_end r" by simp
  with r b show ?thesis by blast
qed

text \<open>
  C31. A physical frame is handed out at most once.  On an accurate memory map, any number of
  consecutive allocations return pairwise distinct, page-aligned frames that lie wholly inside
  usable regions; once the map is exhausted every later allocation fails.
\<close>

theorem frames_handed_out_once:
  assumes "map_accurate fa" "alloc_many n fa = (rs, fa')"
  shows "(\<forall>i j f. i < j \<and> j < n \<and> rs ! i = Some f \<longrightarrow> rs ! j \<noteq> Some f)
     \<and> (\<forall>f. Some f \<in> set rs \<longrightarrow> f mod 4096 = 0
          \<and> (\<exists>r \<in> set (regions fa). r_usable r \<and> r_start r \<le> f \<and> f + 4096 \<le> r_end r))
     \<and> (\<forall>i j. i < j \<and> j < n \<and> rs ! i = None \<longrightarrow> rs ! j = None)"
proof -
  note nth = alloc_many_nth [OF assms(2)]
  have "f \<in> set (usable_frames fa)" if m: "Some f \<in> set rs" for f
  proof -
    obtain i where "i < length rs" "rs ! i = Some f" using m by (metis in_set_conv_nth)
    then show ?thesis using nth by (auto split: if_splits)
  qed
  then have "f mod 4096 = 0 \<and> (\<exists>r \<in> set (regions fa). r_usable r \<and> r_start r \<le> f \<and> f + 4096 \<le> r_end r)"
    if "Some f \<in> set rs" for f
    using usable_frames_in_region [OF assms(1)] that by blast
  moreover have "rs ! j \<noteq> Some f" if "i < j" "j < n" "rs ! i = Some f" for i j f
    using that nth usable_frames_distinct [OF assms(1)] by (auto simp: nth_eq_iff_index_eq split: if_splits)
  moreover have "rs ! j = None" if "i < j" "j < n" "rs ! i = None" for i j
    using that nth by (auto split: if_splits)
  ultimately show ?thesis by blast
qed

theorem frames_handed_out_once_witness:
  "\<exists>fa'. alloc_many 3 \<lparr>regions = [\<lparr>r_start = 0x1000, r_end = 0x3000, r_usable = True\<rparr>], next_frame = 0\<rparr>
       = ([Some 0x1000, Some 0x2000, None], fa')
     \<and> (\<forall>f. Some f \<in> set [Some 0x1000, Some 0x2000, None] \<longrightarrow> f mod 4096 = (0::nat))"
proof -
  let ?fa = "\<lparr>regions = [\<lparr>r_start = 0x1000, r_end = 0x3000, r_usable = True\<rparr>], next_frame = 0\<rparr>"
  have acc: "map_accurate ?fa" by (simp add: map_accurate_def)
  have "usable_frames \<lparr>regions = [\<lparr>r_start = 0x1000, r_end = 0x3000, r_usable = True\<rparr>], next_frame = k\<rparr> = [0x1000, 0x2000]" for k
    by (subst usable_frames_concat) (simp_all add: map_accurate_def region_frames_def upt_rec)
  then obtain fa' where run: "alloc_many 3 ?fa = ([Some 0x1000, Some 0x2000, None], fa')"
    by (simp add: numeral_3_eq_3 allocate_frame_def Let_def)
  from frames_handed_out_once [OF acc run] run show ?thesis by blast
qed

end
