(* ===== verification/Elf.thy ===== *)
theory Elf
  imports Prelude
begin

text \<open>
  The ELF64 parser of \<open>kernel/src/elf.rs\<close>.  The file is untrusted, so every field read is
  modelled with its bounds check: \<open>read_u16\<close>, \<open>read_u32\<close> and \<open>read_u64\<close> are \<open>None\<close> where the
  slice index of the source would panic, and \<open>parse\<close> is \<open>None\<close> when a panic is reached.  The
  error strings are the constructors of \<open>elf_error\<close>; \<open>checked_add\<close> and \<open>checked_mul\<close> on
  \<open>usize\<close>/\<open>u64\<close> are the comparisons with \<open>2 ^ 64\<close>.
\<close>

datatype elf_error =
    TooSmall | BadMagic | NotClass64 | NotLittleEndian | NotExec | NotX86_64 | NoProgramHeaders
  | BadPhentsize | TableSizeOverflow | TableEndOverflow | TableOutside | MemszBelowFilesz
  | SegmentEndOverflow | SegmentOutside | TooManySegments | NoLoadSegments

definition EHDR_SIZE :: nat where [simp]: "EHDR_SIZE = 64"
definition PHDR_SIZE :: nat where [simp]: "PHDR_SIZE = 56"
definition MAX_LOAD_SEGMENTS :: nat where [simp]: "MAX_LOAD_SEGMENTS = 8"
definition ELF_MAGIC :: bytes where "ELF_MAGIC = [0x7F, 69, 76, 70]"

record program_segment =
  p_vaddr :: nat
  p_offset :: nat
  p_filesz :: nat
  p_memsz :: nat
  p_flags :: nat

record elf_image =
  entry :: nat
  segments :: "program_segment list"

definition read_le :: "nat \<Rightarrow> bytes \<Rightarrow> nat \<Rightarrow> nat option" where
  "read_le n bin off =
     (if off + n \<le> length bin then Some (le_val (slice bin off (off + n))) else None)"

definition read_u16 :: "bytes \<Rightarrow> nat \<Rightarrow> nat option" where "read_u16 = read_le 2"
definition read_u32 :: "bytes \<Rightarrow> nat \<Rightarrow> nat option" where "read_u32 = read_le 4"
definition read_u64 :: "bytes \<Rightarrow> nat \<Rightarrow> nat option" where "read_u64 = read_le 8"

text \<open>One program header that is a \<open>PT_LOAD\<close> entry; the parser's checks on it, in order.\<close>

definition parse_load :: "bytes \<Rightarrow> nat \<Rightarrow> program_segment list \<Rightarrow> (elf_error + program_segment list) option" where
  "parse_load bin off segs =
     Option.bind (read_u32 bin (off + 4)) (\<lambda>flags.
     Option.bind (read_u64 bin (off + 8)) (\<lambda>poff.
     Option.bind (read_u64 bin (off + 16)) (\<lambda>vaddr.
     Option.bind (read_u64 bin (off + 32)) (\<lambda>filesz.
     Option.bind (read_u64 bin (off + 40)) (\<lambda>memsz. Some (
       if memsz < filesz then Inl MemszBelowFilesz
       else if 2 ^ 64 \<le> poff + filesz then Inl SegmentEndOverflow
       else if length bin < poff + filesz then Inl SegmentOutside
       else if MAX_LOAD_SEGMENTS \<le> length segs then Inl TooManySegments
       else Inr (segs @ [\<lparr>p_vaddr = vaddr, p_offset = poff, p_filesz = filesz, p_memsz = memsz,
                          p_flags = flags\<rparr>])))))))"

fun parse_phdrs :: "bytes \<Rightarrow> nat \<Rightarrow> nat list \<Rightarrow> program_segment list
    \<Rightarrow> (elf_error + program_segment list) option" where
  "parse_phdrs bin phoff [] segs = Some (Inr segs)"
| "parse_phdrs bin phoff (i # is) segs =
     (let off = phoff + i * PHDR_SIZE
      in Option.bind (read_u32 bin off) (\<lambda>p_type.
           if p_type \<noteq> 1 then parse_phdrs bin phoff is segs
           else Option.bind (parse_load bin off segs) (\<lambda>r.
             case r of Inl e \<Rightarrow> Some (Inl e) | Inr segs' \<Rightarrow> parse_phdrs bin phoff is segs')))"

definition parse :: "bytes \<Rightarrow> (elf_error + elf_image) option" where
  "parse bin =
     (if length bin < EHDR_SIZE then Some (Inl TooSmall)
      else if slice bin 0 4 \<noteq> ELF_MAGIC then Some (Inl BadMagic)
      else if bin ! 4 \<noteq> 2 then Some (Inl NotClass64)
      else if bin ! 5 \<noteq> 1 then Some (Inl NotLittleEndian)
      else
     Option.bind (read_u16 bin 16) (\<lambda>e_type.
     Option.bind (read_u16 bin 18) (\<lambda>e_machine.
     Option.bind (read_u64 bin 24) (\<lambda>e_entry.
     Option.bind (read_u64 bin 32) (\<lambda>phoff.
     Option.bind (read_u16 bin 54) (\<lambda>e_phentsize.
     Option.bind (read_u16 bin 56) (\<lambda>phnum.
       if e_type \<noteq> 2 then Some (Inl NotExec)
       else if e_machine \<noteq> 0x3E then Some (Inl NotX86_64)
       else if phnum = 0 then Some (Inl NoProgramHeaders)
       else if e_phentsize \<noteq> PHDR_SIZE then Some (Inl BadPhentsize)
       else if 2 ^ 64 \<le> PHDR_SIZE * phnum then Some (Inl TableSizeOverflow)
       else if 2 ^ 64 \<le> phoff + PHDR_SIZE * phnum then Some (Inl TableEndOverflow)
       else if length bin < phoff + PHDR_SIZE * phnum then Some (Inl TableOutside)
       else Option.bind (parse_phdrs bin phoff [0..<phnum] []) (\<lambda>r. Some (
         case r of Inl e \<Rightarrow> Inl e
         | Inr segs \<Rightarrow> if segs = [] then Inl NoLoadSegments
                       else Inr \<lparr>entry = e_entry, segments = segs\<rparr>)))))))))"

section \<open>No panic, and what an accepted file guarantees\<close>

lemma read_le_Some: "off + n \<le> length bin \<Longrightarrow> \<exists>v. read_le n bin off = Some v"
  by (simp add: read_le_def)

lemma read_le_less: "read_le n bin off = Some v \<Longrightarrow> v < 256 ^ n"
  using le_val_less [of "slice bin off (off + n)"]
  by (auto simp: read_le_def split: if_splits)

lemmas reads = read_u16_def read_u32_def read_u64_def

text \<open>What the loader relies on for each segment.\<close>

definition segment_ok :: "bytes \<Rightarrow> program_segment \<Rightarrow> bool" where
  "segment_ok bin s \<longleftrightarrow> p_offset s + p_filesz s \<le> length bin \<and> p_filesz s \<le> p_memsz s
     \<and> p_vaddr s < 2 ^ 64 \<and> p_memsz s < 2 ^ 64"

lemma parse_load_total:
  "off + 56 \<le> length bin \<Longrightarrow> \<exists>r. parse_load bin off segs = Some r"
  by (simp add: parse_load_def reads read_le_def)

lemma parse_load_ok:
  assumes "parse_load bin off segs = Some (Inr segs')" "\<forall>s \<in> set segs. segment_ok bin s" "length segs \<le> 8"
  shows "(\<forall>s \<in> set segs'. segment_ok bin s) \<and> length segs' \<le> 8 \<and> segs' \<noteq> []"
proof -
  obtain fl po va fs ms where r: "read_u32 bin (off + 4) = Some fl" "read_u64 bin (off + 8) = Some po"
    "read_u64 bin (off + 16) = Some va" "read_u64 bin (off + 32) = Some fs"
    "read_u64 bin (off + 40) = Some ms"
    using assms(1) by (auto simp: parse_load_def bind_eq_Some_conv)
  have "va < 2 ^ 64" "ms < 2 ^ 64" using r(3,5) by (auto simp: reads dest!: read_le_less)
  with r assms show ?thesis by (auto simp: parse_load_def segment_ok_def split: if_splits)
qed

lemma parse_phdrs_total:
  "\<forall>i \<in> set is. phoff + i * 56 + 56 \<le> length bin \<Longrightarrow> \<exists>r. parse_phdrs bin phoff is segs = Some r"
proof (induction "is" arbitrary: segs)
  case (Cons i "is")
  obtain t where t: "read_u32 bin (phoff + i * 56) = Some t"
    using Cons.prems by (simp add: reads read_le_def)
  obtain l where l: "parse_load bin (phoff + i * 56) segs = Some l"
    using Cons.prems parse_load_total [of "phoff + i * 56" bin segs] by auto
  have "\<exists>r. parse_phdrs bin phoff is s = Some r" for s using Cons by simp
  with t l show ?case by (cases l) (simp_all add: Let_def)
qed simp

lemma parse_phdrs_ok:
  "parse_phdrs bin phoff is segs = Some (Inr segs') \<Longrightarrow> \<forall>s \<in> set segs. segment_ok bin s
    \<Longrightarrow> length segs \<le> 8 \<Longrightarrow> (\<forall>s \<in> set segs'. segment_ok bin s) \<and> length segs' \<le> 8"
proof (induction "is" arbitrary: segs)
  case (Cons i "is")
  obtain t where t: "read_u32 bin (phoff + i * 56) = Some t"
    using Cons.prems(1) by (auto simp: Let_def bind_eq_Some_conv)
  show ?case
  proof (cases "t = 1")
    case True
    with t Cons.prems(1) obtain r where r: "parse_load bin (phoff + i * 56) segs = Some r"
      "(case r of Inl e \<Rightarrow> Some (Inl e) | Inr s1 \<Rightarrow> parse_phdrs bin phoff is s1) = Some (Inr segs')"
      by (auto simp: Let_def bind_eq_Some_conv)
    then obtain s1 where s1: "r = Inr s1" by (cases r) auto
    from parse_load_ok [OF r(1) [unfolded s1] Cons.prems(2,3)] Cons.IH [of s1] r(2) s1 show ?thesis by simp
  next
    case False
    then have "parse_phdrs bin phoff is segs = Some (Inr segs')"
      using Cons.prems(1) t by (simp add: Let_def)
    from Cons.IH [OF this Cons.prems(2,3)] show ?thesis .
  qed
qed simp

text \<open>
  The ELF parser is total: no file, however malformed or truncated, makes it index out of
  bounds; it always returns an image or an error.
\<close>

theorem parse_never_panics: "\<exists>r. parse bin = Some r"
proof (cases "length bin < 64")
  case True
  then show ?thesis by (simp add: parse_def)
next
  case False
  have phdrs: "\<exists>r. parse_phdrs bin phoff [0..<phnum] [] = Some r"
    if "phoff + 56 * phnum \<le> length bin" for phoff phnum
  proof (rule parse_phdrs_total, safe)
    fix i assume "i \<in> set [0..<phnum]"
    then have "i * 56 + 56 \<le> 56 * phnum" by simp
    with that show "phoff + i * 56 + 56 \<le> length bin" by linarith
  qed
  have bind: "\<exists>r. Option.bind x (\<lambda>v. Some (f v)) = Some r" if "\<exists>r. x = Some r" for x :: "'a option" and f :: "'a \<Rightarrow> 'b"
    using that by auto
  show ?thesis
    using False phdrs by (auto simp: parse_def reads read_le_def intro!: bind)
qed

lemma parse_facts:
  assumes "parse bin = Some (Inr img)"
  shows "segments img \<noteq> [] \<and> length (segments img) \<le> 8 \<and> (\<forall>s \<in> set (segments img). segment_ok bin s)
    \<and> 64 \<le> length bin \<and> entry img < 2 ^ 64"
proof -
  obtain et em en po pe pn where r: "read_u16 bin 16 = Some et" "read_u16 bin 18 = Some em"
    "read_u64 bin 24 = Some en" "read_u64 bin 32 = Some po" "read_u16 bin 54 = Some pe"
    "read_u16 bin 56 = Some pn"
    using assms by (auto simp: parse_def bind_eq_Some_conv split: if_splits)
  then obtain x where x: "parse_phdrs bin po [0..<pn] [] = Some x"
    "(case x of Inl e \<Rightarrow> Inl e | Inr segs \<Rightarrow> if segs = [] then Inl NoLoadSegments
        else Inr \<lparr>entry = en, segments = segs\<rparr>) = Inr img"
    using assms by (auto simp: parse_def bind_eq_Some_conv split: if_splits)
  then obtain segs where s: "parse_phdrs bin po [0..<pn] [] = Some (Inr segs)" "segs \<noteq> []"
    "img = \<lparr>entry = en, segments = segs\<rparr>"
    by (cases x) (auto split: if_splits)
  have "en < 2 ^ 64" using r(3) by (auto simp: reads dest!: read_le_less)
  moreover have "64 \<le> length bin" using assms by (auto simp: parse_def split: if_splits)
  ultimately show ?thesis using parse_phdrs_ok [OF s(1)] s(2,3) by simp
qed

lemma parse_segments_ok:
  "parse bin = Some (Inr img) \<Longrightarrow> \<forall>s \<in> set (segments img). segment_ok bin s"
  using parse_facts by blast

text \<open>
  What an accepted file guarantees the loader: between one and eight segments, each with
  its file range inside the file and no longer than its memory range.
\<close>

theorem parse_accepts_ok:
  assumes "parse bin = Some (Inr img)"
  shows "segments img \<noteq> [] \<and> length (segments img) \<le> 8 \<and> (\<forall>s \<in> set (segments img). segment_ok bin s)
    \<and> 64 \<le> length bin \<and> entry img < 2 ^ 64"
  using assms by (rule parse_facts)

definition demo_elf :: bytes where
  "demo_elf =
    [127, 69, 76, 70, 2, 1, 1, 0, 0, 0, 0, 0, 0, 0, 0, 0, 2, 0, 62, 0,
     1, 0, 0, 0, 0, 0, 0, 80, 85, 85, 0, 0, 64, 0, 0, 0, 0, 0, 0, 0,
     0, 0, 0, 0, 0, 0, 0, 0, 0, 0, 0, 0, 0, 0, 56, 0, 1, 0, 0, 0,
     0, 0, 0, 0, 1, 0, 0, 0, 5, 0, 0, 0, 0, 0, 0, 0, 0, 0, 0, 0,
     0, 0, 0, 80, 85, 85, 0, 0, 0, 0, 0, 0, 0, 0, 0, 0, 120, 0, 0, 0,
     0, 0, 0, 0, 120, 0, 0, 0, 0, 0, 0, 0, 0, 16, 0, 0, 0, 0, 0, 0]"

lemma demo_elf_slices:
  "length demo_elf = 120" "slice demo_elf 0 4 = ELF_MAGIC" "demo_elf ! 4 = 2" "demo_elf ! 5 = 1"
  by (simp_all add: demo_elf_def slice_def ELF_MAGIC_def)

lemma demo_elf_fields:
  "read_le 2 demo_elf 16 = Some 2" "read_le 2 demo_elf 18 = Some 62"
  "read_le 8 demo_elf 24 = Some 0x555550000000" "read_le 8 demo_elf 32 = Some 64"
  "read_le 2 demo_elf 54 = Some 56" "read_le 2 demo_elf 56 = Some 1"
  "read_le 4 demo_elf 64 = Some 1" "read_le 4 demo_elf 68 = Some 5" "read_le 8 demo_elf 72 = Some 0"
  "read_le 8 demo_elf 80 = Some 0x555550000000" "read_le 8 demo_elf 96 = Some 120"
  "read_le 8 demo_elf 104 = Some 120"
  by (simp_all add: read_le_def demo_elf_def slice_def)

lemma demo_elf_parse:
  "parse demo_elf = Some (Inr \<lparr>entry = 0x555550000000, segments =
     [\<lparr>p_vaddr = 0x555550000000, p_offset = 0, p_filesz = 120, p_memsz = 120, p_flags = 5\<rparr>]\<rparr>)"
  by (simp add: parse_def parse_load_def reads demo_elf_slices demo_elf_fields)

theorem parse_accepts_ok_witness: "segment_ok demo_elf
    \<lparr>p_vaddr = 0x555550000000, p_offset = 0, p_filesz = 120, p_memsz = 120, p_flags = 5\<rparr>"
  using parse_accepts_ok [OF demo_elf_parse] by simp

end
