(* ===== verification/Process.thy ===== *)
theory Process
  imports Machine Elf
begin

text \<open>
  Processes and their construction (\<open>kernel/src/process.rs\<close>): the \<open>Process\<close> record with its
  descriptor table, \<open>create_process_from_image\<close>, which builds a private address space from a
  one-page program image, and \<open>create_process_from_elf\<close>, which does so from ELF segments.  The
  error strings are the constructors of \<open>proc_error\<close>; \<open>ProcPanic\<close> is \<open>VirtAddr::new\<close> on an
  address that is not canonical, which panics.
\<close>

definition USER_CODE_ADDR :: nat where "USER_CODE_ADDR = 0x555550000000"
definition USER_STACK_ADDR :: nat where "USER_STACK_ADDR = 0x555560000000"
definition HEAP_START :: nat where "HEAP_START = 0x555570000000"
definition HEAP_PAGE_COUNT :: nat where [simp]: "HEAP_PAGE_COUNT = 4"
definition HEAP_SIZE :: nat where [simp]: "HEAP_SIZE = 16384"
definition MAX_CODE_IMAGE_BYTES :: nat where [simp]: "MAX_CODE_IMAGE_BYTES = 4096"
definition MAX_OPEN_FILES :: nat where [simp]: "MAX_OPEN_FILES = 4"

datatype proc_error =
    ImageTooLarge | P4Mismatch | OutOfFrames | MapFailed | EntryMismatch | NoSegments
  | TooManyElfSegments | EntryOutsideSegments | Unaligned | ZeroMemsz | SegmentTooLarge
  | OutsidePrivateSlot | TotalOverflow | TotalTooLarge | NoCodeFrame | NoSuchProcess | AlreadyRun | ProcPanic

record file_state =
  f_path :: bytes
  f_buffer :: bytes
  f_pos :: nat
  f_dirty :: bool

datatype fd_entry = FdFile file_state | FdPipeRead nat | FdPipeWrite nat

record proc =
  p_label :: string
  pml4_frame :: nat
  code_frame :: nat
  stack_frame :: nat
  heap_frames :: "nat list"
  heap_used :: nat
  fds :: "fd_entry option list"
  extra_frames :: "nat list"
  parent_pid :: "nat option"
  pending_resume :: "(nat \<times> nat) option"

section \<open>A process from a one-page image\<close>

definition populate_pml4 :: "nat \<Rightarrow> nat \<Rightarrow> machine \<Rightarrow> machine" where
  "populate_pml4 new user m =
     m\<lparr>pml4_entries := (pml4_entries m)
         (new := map (\<lambda>i. if i \<noteq> user then pml4_entries m (cr3 m) ! i else 0) [0..<512]),
       maps := (maps m)(new := Map.empty)\<rparr>"

fun map_heap :: "map_to_fn \<Rightarrow> nat \<Rightarrow> nat list \<Rightarrow> machine \<Rightarrow> (proc_error + nat list) \<times> machine" where
  "map_heap mt pml4 [] m = (Inr [], m)"
| "map_heap mt pml4 (i # is) m =
     andThen (alloc_frame OutOfFrames m) (\<lambda>f m.
     andThen (map_page mt MapFailed pml4 (page_of (HEAP_START + i * PAGE_SIZE)) f m) (\<lambda>_ m.
     andThen (map_heap mt pml4 is (zero_frame f m)) (\<lambda>fs m. (Inr (f # fs), m))))"

definition create_process_from_image ::
  "map_to_fn \<Rightarrow> string \<Rightarrow> bytes \<Rightarrow> machine \<Rightarrow> (proc_error + proc) \<times> machine" where
  "create_process_from_image mt lbl img m =
     (if MAX_CODE_IMAGE_BYTES < length img then (Inl ImageTooLarge, m)
      else if p4_index USER_CODE_ADDR \<noteq> p4_index USER_STACK_ADDR then (Inl P4Mismatch, m)
      else
     andThen (alloc_frame OutOfFrames m) (\<lambda>pml4 m.
     andThen (alloc_frame OutOfFrames (populate_pml4 pml4 (p4_index USER_CODE_ADDR) m)) (\<lambda>code m.
     andThen (alloc_frame OutOfFrames m) (\<lambda>stack m.
     andThen (map_page mt MapFailed pml4 (page_of USER_CODE_ADDR) code m) (\<lambda>_ m.
     andThen (map_page mt MapFailed pml4 (page_of USER_STACK_ADDR) stack m) (\<lambda>_ m.
     andThen (map_heap mt pml4 [0..<HEAP_PAGE_COUNT] m) (\<lambda>heap m.
       (Inr \<lparr>p_label = lbl, pml4_frame = pml4, code_frame = code, stack_frame = stack,
             heap_frames = heap, heap_used = 0, fds = [None, None, None, None],
             extra_frames = [], parent_pid = None, pending_resume = None\<rparr>,
        copy_to_frame code img (zero_frame code m)))))))))"

lemma user_p4: "p4_index USER_CODE_ADDR = 170" "p4_index USER_STACK_ADDR = 170"
  "page_of USER_CODE_ADDR = USER_CODE_ADDR" "page_of USER_STACK_ADDR = USER_STACK_ADDR"
  by (simp_all add: p4_index_def page_of_def USER_CODE_ADDR_def USER_STACK_ADDR_def)

lemma heap_p4: "i < 4 \<Longrightarrow> p4_index (page_of (HEAP_START + i * 4096)) = 170"
  "page_of (HEAP_START + i * 4096) = HEAP_START + i * 4096"
  by (simp_all add: p4_index_def page_of_def HEAP_START_def)

definition heap_pages :: "nat list \<Rightarrow> nat list" where
  "heap_pages is = map (\<lambda>i. HEAP_START + i * 4096) is"

lemma map_heap_spec:
  assumes mt: "mapper_ok mt"
  shows "map_heap mt pml4 is m = (Inr hs, m') \<Longrightarrow> map_accurate (falloc m) \<Longrightarrow> \<forall>i \<in> set is. i < 4 \<Longrightarrow>
     grows {pml4} m m' \<and> set hs \<subseteq> taken m m' \<and> distinct hs \<and> length hs = length is
     \<and> (\<forall>h \<in> set hs. phys m' h = replicate 4096 0)
     \<and> maps m' pml4 = (maps m pml4)(heap_pages is [\<mapsto>] hs)
     \<and> map_le (maps m pml4) (maps m' pml4)
     \<and> (\<forall>i. i \<noteq> 170 \<longrightarrow> pml4_entries m' pml4 ! i = pml4_entries m pml4 ! i)"
proof (induction "is" arbitrary: m hs)
  case Nil
  then show ?case by (simp add: heap_pages_def)
next
  case (Cons i "is")
  let ?pg = "HEAP_START + i * 4096"
  obtain f m1 m2 hs' where a: "alloc_frame OutOfFrames m = (Inr f, m1)"
    and p: "map_page mt MapFailed pml4 ?pg f m1 = (Inr (), m2)"
    and h: "map_heap mt pml4 is (zero_frame f m2) = (Inr hs', m')" and hs: "hs = f # hs'"
    using Cons.prems(1) by (auto simp: andThen_Inr heap_p4(2))
  note ag = alloc_frame_grows [OF a]
  note pg = map_page_grows [OF mt p singletonI]
  have g2: "grows {pml4} m m2" by (rule grows_trans [OF ag(1) pg(1)])
  have f2: "f \<in> taken m m2" using ag(2) taken_mono [OF ag(1) pg(1)] by blast
  note g3 = grows_write [OF g2 f2 zero_frame_def]
  have acc: "map_accurate (falloc (zero_frame f m2))"
    using Cons.prems(2) g2 by (simp add: map_accurate_def grows_def zero_frame_def)
  note ih = Cons.IH [OF h acc]
  have ih': "grows {pml4} (zero_frame f m2) m'" "set hs' \<subseteq> taken (zero_frame f m2) m'" "distinct hs'"
    "length hs' = length is" "\<forall>h \<in> set hs'. phys m' h = replicate 4096 0"
    "maps m' pml4 = (maps (zero_frame f m2) pml4)(heap_pages is [\<mapsto>] hs')"
    "\<forall>i. i \<noteq> 170 \<longrightarrow> pml4_entries m' pml4 ! i = pml4_entries (zero_frame f m2) pml4 ! i"
    "map_le (maps (zero_frame f m2) pml4) (maps m' pml4)"
    using ih Cons.prems(3) by auto
  have dis: "taken m (zero_frame f m2) \<inter> taken (zero_frame f m2) m' = {}"
    by (rule taken_disjoint [OF Cons.prems(2) g3(1) ih'(1)])
  have fnot: "f \<notin> taken (zero_frame f m2) m'" using dis f2 g3(2) by auto
  have "phys m' f = replicate 4096 0"
    using ih'(1) fnot by (simp add: grows_def zero_frame_def)
  moreover have "set hs' \<subseteq> taken m m'" "f \<in> taken m m'"
    using ih'(2) taken_trans [of "zero_frame f m2" m m'] g3 ih'(1) f2 by (auto simp: grows_def)
  moreover have "maps (zero_frame f m2) pml4 = (maps m pml4)(?pg \<mapsto> f)"
    using pg(2) ag(3) by (simp add: zero_frame_def)
  moreover have "i' \<noteq> 170 \<longrightarrow> pml4_entries m' pml4 ! i' = pml4_entries m pml4 ! i'" for i'
    using ih'(7) pg(3) [of i'] ag(5) heap_p4 [of i] Cons.prems(3) by (auto simp: zero_frame_def)
  moreover have "map_le (maps m pml4) (maps m' pml4)"
    using pg(4) ih'(8) ag(3) by (auto simp: zero_frame_def intro: map_le_trans)
  ultimately show ?case
    using grows_trans [OF g3(1) ih'(1)] ih' fnot by (auto simp: hs heap_pages_def)
qed

text \<open>What a process owns, and what its private slot translates.\<close>

definition private_frames :: "proc \<Rightarrow> nat list" where
  "private_frames p = [pml4_frame p, code_frame p, stack_frame p] @ heap_frames p @ extra_frames p"

definition image_layout :: "proc \<Rightarrow> nat \<Rightarrow> nat option" where
  "image_layout p = [USER_CODE_ADDR \<mapsto> code_frame p, USER_STACK_ADDR \<mapsto> stack_frame p]
     (heap_pages [0..<4] [\<mapsto>] heap_frames p)"

definition fresh_process :: "machine \<Rightarrow> machine \<Rightarrow> proc \<Rightarrow> bool" where
  "fresh_process m m' p \<longleftrightarrow> grows {pml4_frame p} m m' \<and> distinct (private_frames p)
     \<and> set (private_frames p) \<subseteq> taken m m' \<and> length (heap_frames p) = 4
     \<and> heap_used p = 0 \<and> fds p = [None, None, None, None] \<and> parent_pid p = None \<and> pending_resume p = None
     \<and> (\<forall>h \<in> set (heap_frames p). phys m' h = replicate 4096 0)
     \<and> (\<forall>i < 512. i \<noteq> 170 \<longrightarrow> pml4_entries m' (pml4_frame p) ! i = pml4_entries m (cr3 m) ! i)"

lemma grows_populate:
  assumes "grows P m m1" "new \<in> P"
  shows "grows P m (populate_pml4 new u m1)" "taken m (populate_pml4 new u m1) = taken m m1"
  using assms by (auto simp: grows_def populate_pml4_def taken_def)

lemma grows_mono: "grows P m m' \<Longrightarrow> P \<subseteq> Q \<Longrightarrow> grows Q m m'"
  by (auto simp: grows_def)

lemma taken_fresh:
  assumes "map_accurate (falloc m)" "grows P m m1" "grows P m1 m2" "f \<in> taken m m1" "X \<subseteq> taken m1 m2"
  shows "f \<notin> X" "f \<in> taken m m2" "X \<subseteq> taken m m2"
proof -
  have "taken m m2 = taken m m1 \<union> taken m1 m2"
    using assms(2,3) by (intro taken_trans) (auto simp: grows_def)
  with assms(4,5) taken_disjoint [OF assms(1-3)] show "f \<notin> X" "f \<in> taken m m2" "X \<subseteq> taken m m2" by auto
qed

lemma taken_grows:
  assumes "grows P m m1" "grows P m1 m2" shows "taken m m1 \<subseteq> taken m m2" "taken m1 m2 \<subseteq> taken m m2"
proof -
  have "taken m m2 = taken m m1 \<union> taken m1 m2"
    using assms by (intro taken_trans) (auto simp: grows_def)
  then show "taken m m1 \<subseteq> taken m m2" "taken m1 m2 \<subseteq> taken m m2" by auto
qed

lemma create_process_from_image_spec:
  assumes mt: "mapper_ok mt" and acc: "map_accurate (falloc m)"
    and run: "create_process_from_image mt lbl img m = (Inr p, m')"
  shows "fresh_process m m' p" "extra_frames p = []" "maps m' (pml4_frame p) = image_layout p"
    "phys m' (code_frame p) = img @ replicate (4096 - length img) 0" "length img \<le> 4096"
proof -
  have len: "length img \<le> 4096" using run by (auto simp: create_process_from_image_def split: if_splits)
  obtain pml4 code stack heap m1 m2 m3 m4 m5 m6 where
    a1: "alloc_frame OutOfFrames m = (Inr pml4, m1)"
    and a2: "alloc_frame OutOfFrames (populate_pml4 pml4 170 m1) = (Inr code, m2)"
    and a3: "alloc_frame OutOfFrames m2 = (Inr stack, m3)"
    and a4: "map_page mt MapFailed pml4 USER_CODE_ADDR code m3 = (Inr (), m4)"
    and a5: "map_page mt MapFailed pml4 USER_STACK_ADDR stack m4 = (Inr (), m5)"
    and a6: "map_heap mt pml4 [0..<4] m5 = (Inr heap, m6)"
    and p: "p = \<lparr>p_label = lbl, pml4_frame = pml4, code_frame = code, stack_frame = stack,
         heap_frames = heap, heap_used = 0, fds = [None, None, None, None],
         extra_frames = [], parent_pid = None, pending_resume = None\<rparr>"
    and m': "m' = copy_to_frame code img (zero_frame code m6)"
    using run len by (auto simp: create_process_from_image_def user_p4 andThen_Inr)
  let ?P = "{pml4}" and ?m1 = "populate_pml4 pml4 170 m1"
  note g1 = alloc_frame_grows [OF a1]
  note gp = grows_populate [OF g1(1) singletonI, of pml4 170]
  note g2 = alloc_frame_grows [OF a2]
  note g3 = alloc_frame_grows [OF a3]
  note g4 = map_page_grows [OF mt a4 singletonI]
  note g5 = map_page_grows [OF mt a5 singletonI]
  have G5: "grows ?P m3 m5" by (rule grows_trans [OF g4(1) g5(1)])
  have G35: "grows ?P ?m1 m5" by (rule grows_trans [OF g2(1) grows_trans [OF g3(1) G5]])
  have acc': "map_accurate (falloc x)" if "grows ?P m x" for x
    using acc that by (simp add: map_accurate_def grows_def)
  have Gm5: "grows ?P m m5" by (rule grows_trans [OF gp(1) G35])
  note h = map_heap_spec [OF mt a6 acc' [OF Gm5], simplified]
  have G6: "grows ?P m2 m6" using g3(1) G5 h by (meson grows_trans)
  have G16: "grows ?P ?m1 m6" by (rule grows_trans [OF g2(1) G6])
  have Gm6: "grows ?P m m6" by (rule grows_trans [OF gp(1) G16])
  have s1: "pml4 \<in> taken m ?m1" using g1(2) gp(2) by simp
  have s2: "code \<in> taken ?m1 m2" using g2(2) by simp
  have s3: "stack \<in> taken m2 m3" using g3(2) by simp
  have G36: "grows ?P m3 m6" using G5 h by (meson grows_trans)
  have s4: "set heap \<subseteq> taken m3 m6" using h taken_grows(2) [OF G5] by blast
  note t3 = taken_fresh [OF acc' [OF grows_trans [OF gp(1) g2(1)]] g3(1) G36 g3(2) [OF refl] s4]
  have s5: "{stack} \<union> set heap \<subseteq> taken m2 m6" using t3 by auto
  note t2 = taken_fresh [OF acc' [OF gp(1)] g2(1) G6 s2 s5]
  have s6: "{code} \<union> ({stack} \<union> set heap) \<subseteq> taken ?m1 m6" using t2 by auto
  note t1 = taken_fresh [OF acc gp(1) G16 s1 s6]
  have dist: "distinct [pml4, code, stack]" "distinct heap" "{pml4, code, stack} \<inter> set heap = {}"
    using t1(1) t2(1) t3(1) h by auto
  have code_m: "code \<in> taken m m6" using t1(3) by auto
  note gz = grows_write [OF Gm6 code_m zero_frame_def]
  have code_z: "code \<in> taken m (zero_frame code m6)" using code_m gz(2) by simp
  note gc = grows_write [OF gz(1) code_z copy_to_frame_def, of img, folded m']
  have tk: "taken m m' = taken m m6" using gc(2) gz(2) by simp
  have other: "x \<noteq> code \<Longrightarrow> phys m' x = phys m6 x" for x
    by (simp add: m' copy_to_frame_def zero_frame_def)
  have ent: "\<forall>i < 512. i \<noteq> 170 \<longrightarrow> pml4_entries m' pml4 ! i = pml4_entries m (cr3 m) ! i"
    using h g5(3) g4(3) alloc_frame_grows(5) [OF a3] alloc_frame_grows(5) [OF a2] g1(1,5)
    by (auto simp: m' copy_to_frame_def zero_frame_def user_p4 populate_pml4_def grows_def)
  have hz: "\<forall>x \<in> set heap. phys m' x = replicate 4096 0"
  proof
    fix x assume "x \<in> set heap"
    then have "x \<noteq> code" "phys m6 x = replicate 4096 0" using dist(3) h by auto
    then show "phys m' x = replicate 4096 0" using other by simp
  qed
  show "fresh_process m m' p"
    unfolding fresh_process_def private_frames_def p
    using gc(1) dist tk t1 h hz ent by auto
  show "maps m' (pml4_frame p) = image_layout p"
    using h g5(2) g4(2) alloc_frame_grows(3) [OF a3] alloc_frame_grows(3) [OF a2]
    by (simp add: p m' copy_to_frame_def zero_frame_def image_layout_def populate_pml4_def)
  show "phys m' (code_frame p) = img @ replicate (4096 - length img) 0"
    by (simp add: p m' copy_to_frame_def zero_frame_def splice_def)
  show "extra_frames p = []" by (simp add: p)
  show "length img \<le> 4096" by (rule len)
qed

section \<open>A process from ELF segments\<close>

definition MAX_PAGES_PER_ELF_SEGMENT :: nat where [simp]: "MAX_PAGES_PER_ELF_SEGMENT = 4"
definition MAX_TOTAL_ELF_PAGES :: nat where [simp]: "MAX_TOTAL_ELF_PAGES = 16"

definition canonical :: "nat \<Rightarrow> bool" where
  "canonical va \<longleftrightarrow> va < 2 ^ 47 \<or> 2 ^ 64 - 2 ^ 47 \<le> va \<and> va < 2 ^ 64"

definition seg_pages :: "program_segment \<Rightarrow> nat" where
  "seg_pages s = (p_memsz s + (PAGE_SIZE - 1)) div PAGE_SIZE"

fun check_pages :: "nat \<Rightarrow> nat list \<Rightarrow> proc_error + unit" where
  "check_pages va [] = Inr ()"
| "check_pages va (i # is) =
     (if \<not> canonical (va + i * PAGE_SIZE) then Inl ProcPanic
      else if p4_index (va + i * PAGE_SIZE) \<noteq> p4_index USER_CODE_ADDR then Inl OutsidePrivateSlot
      else check_pages va is)"

fun check_segments :: "program_segment list \<Rightarrow> nat \<Rightarrow> proc_error + nat" where
  "check_segments [] tot = Inr tot"
| "check_segments (s # ss) tot =
     (if p_vaddr s mod PAGE_SIZE \<noteq> 0 then Inl Unaligned
      else if p_memsz s = 0 then Inl ZeroMemsz
      else if MAX_PAGES_PER_ELF_SEGMENT < seg_pages s then Inl SegmentTooLarge
      else case check_pages (p_vaddr s) [0..<seg_pages s] of
             Inl e \<Rightarrow> Inl e
           | Inr _ \<Rightarrow> if 2 ^ 64 \<le> tot + seg_pages s then Inl TotalOverflow
                      else check_segments ss (tot + seg_pages s))"

definition elf_validate :: "nat \<Rightarrow> program_segment list \<Rightarrow> proc_error + unit" where
  "elf_validate e segs =
     (if e \<noteq> USER_CODE_ADDR then Inl EntryMismatch
      else if segs = [] then Inl NoSegments
      else if MAX_LOAD_SEGMENTS < length segs then Inl TooManyElfSegments
      else if p4_index USER_CODE_ADDR \<noteq> p4_index USER_STACK_ADDR then Inl P4Mismatch
      else if \<not> list_ex (\<lambda>s. p_vaddr s \<le> e \<and> e < min (p_vaddr s + p_memsz s) (2 ^ 64 - 1)) segs
           then Inl EntryOutsideSegments
      else case check_segments segs 0 of
             Inl err \<Rightarrow> Inl err
           | Inr tot \<Rightarrow> if MAX_TOTAL_ELF_PAGES < tot then Inl TotalTooLarge else Inr ())"

definition elf_jobs :: "program_segment list \<Rightarrow> (program_segment \<times> nat) list" where
  "elf_jobs segs = concat (map (\<lambda>s. map (\<lambda>i. (s, i)) [0..<seg_pages s]) segs)"

text \<open>The file bytes of page \<open>i\<close> of a segment; \<open>None\<close> where the slice index would panic.\<close>

definition elf_page_src :: "bytes \<Rightarrow> program_segment \<Rightarrow> nat \<Rightarrow> bytes option" where
  "elf_page_src img s i =
     (let off = i * PAGE_SIZE
      in if off < p_filesz s
         then let len = min PAGE_SIZE (p_filesz s - off); src = p_offset s + off
              in if length img < src + len then None else Some (slice img src (src + len))
         else Some [])"

fun map_elf_pages :: "map_to_fn \<Rightarrow> nat \<Rightarrow> bytes \<Rightarrow> (program_segment \<times> nat) list \<Rightarrow> machine
    \<Rightarrow> (proc_error + (nat \<times> nat) list) \<times> machine" where
  "map_elf_pages mt pml4 img [] m = (Inr [], m)"
| "map_elf_pages mt pml4 img ((s, i) # js) m =
     (let va = p_vaddr s + i * PAGE_SIZE in
     andThen (alloc_frame OutOfFrames m) (\<lambda>f m.
     andThen (map_page mt MapFailed pml4 (page_of va) f m) (\<lambda>_ m.
       case elf_page_src img s i of
         None \<Rightarrow> (Inl ProcPanic, zero_frame f m)
       | Some src \<Rightarrow>
           andThen (map_elf_pages mt pml4 img js (copy_to_frame f src (zero_frame f m))) (\<lambda>fs m.
             (Inr ((va, f) # fs), m)))))"

definition create_process_from_elf ::
  "map_to_fn \<Rightarrow> string \<Rightarrow> nat \<Rightarrow> program_segment list \<Rightarrow> bytes \<Rightarrow> machine \<Rightarrow> (proc_error + proc) \<times> machine"
  where
  "create_process_from_elf mt lbl e segs img m =
     (case elf_validate e segs of
        Inl err \<Rightarrow> (Inl err, m)
      | Inr _ \<Rightarrow>
     andThen (alloc_frame OutOfFrames m) (\<lambda>pml4 m.
     andThen (map_elf_pages mt pml4 img (elf_jobs segs) (populate_pml4 pml4 (p4_index USER_CODE_ADDR) m))
       (\<lambda>pages m.
       case filter (\<lambda>x. fst x = USER_CODE_ADDR) pages of
         [] \<Rightarrow> (Inl NoCodeFrame, m)
       | c # cs \<Rightarrow>
     andThen (alloc_frame OutOfFrames m) (\<lambda>stack m.
     andThen (map_page mt MapFailed pml4 (page_of USER_STACK_ADDR) stack m) (\<lambda>_ m.
     andThen (map_heap mt pml4 [0..<HEAP_PAGE_COUNT] m) (\<lambda>heap m.
       (Inr \<lparr>p_label = lbl, pml4_frame = pml4, code_frame = snd (last (c # cs)), stack_frame = stack,
             heap_frames = heap, heap_used = 0, fds = [None, None, None, None],
             extra_frames = map snd (filter (\<lambda>x. fst x \<noteq> USER_CODE_ADDR) pages),
             parent_pid = None, pending_resume = None\<rparr>, m)))))))"

text \<open>The caps the loader promises, and that the file slices it takes are in range.\<close>

lemma check_segments_ok:
  "check_segments segs tot = Inr n \<Longrightarrow>
     n = tot + length (elf_jobs segs)
     \<and> (\<forall>s \<in> set segs. p_vaddr s mod 4096 = 0 \<and> seg_pages s \<le> 4 \<and> 0 < p_memsz s
          \<and> (\<forall>i < seg_pages s. canonical (p_vaddr s + i * 4096) \<and> p4_index (p_vaddr s + i * 4096) = 170))"
proof (induction segs arbitrary: tot)
  case Nil
  then show ?case by (simp add: elf_jobs_def)
next
  case (Cons s ss)
  have pages: "\<forall>i \<in> set is. canonical (va + i * 4096) \<and> p4_index (va + i * 4096) = 170"
    if "check_pages va is = Inr ()" for va "is"
    using that by (induction "is") (auto simp: user_p4 split: if_splits)
  show ?case
    using Cons.prems Cons.IH [of "tot + seg_pages s"] pages [of "p_vaddr s" "[0..<seg_pages s]"]
    by (auto simp: elf_jobs_def split: if_splits sum.splits)
qed

lemma elf_page_src_ok:
  "segment_ok img s \<Longrightarrow> \<exists>b. elf_page_src img s i = Some b \<and> length b \<le> 4096"
  by (auto simp: elf_page_src_def segment_ok_def Let_def slice_def)

definition elf_page_bytes :: "bytes \<Rightarrow> program_segment \<Rightarrow> nat \<Rightarrow> bytes" where
  "elf_page_bytes img s i =
     (let b = (case elf_page_src img s i of Some b \<Rightarrow> b | None \<Rightarrow> []) in b @ replicate (4096 - length b) 0)"

lemma map_elf_pages_spec:
  assumes mt: "mapper_ok mt"
  shows "map_elf_pages mt pml4 img js m = (Inr ps, m') \<Longrightarrow> map_accurate (falloc m)
    \<Longrightarrow> \<forall>(s, i) \<in> set js. segment_ok img s \<and> p_vaddr s mod 4096 = 0 \<and> p4_index (p_vaddr s + i * 4096) = 170 \<Longrightarrow>
     grows {pml4} m m' \<and> set (map snd ps) \<subseteq> taken m m' \<and> distinct (map snd ps)
     \<and> map fst ps = map (\<lambda>(s, i). p_vaddr s + i * 4096) js
     \<and> (\<forall>n < length js. phys m' (snd (ps ! n)) = elf_page_bytes img (fst (js ! n)) (snd (js ! n)))
     \<and> maps m' pml4 = (maps m pml4)(map fst ps [\<mapsto>] map snd ps)
     \<and> map_le (maps m pml4) (maps m' pml4)
     \<and> (\<forall>n < length js. maps m' pml4 (p_vaddr (fst (js ! n)) + snd (js ! n) * 4096) = Some (snd (ps ! n)))
     \<and> (\<forall>i. i \<noteq> 170 \<longrightarrow> pml4_entries m' pml4 ! i = pml4_entries m pml4 ! i)"
proof (induction js arbitrary: m ps)
  case Nil
  then show ?case by simp
next
  case (Cons j js)
  obtain s i where j: "j = (s, i)" by (cases j)
  have js: "segment_ok img s" "p_vaddr s mod 4096 = 0" "p4_index (p_vaddr s + i * 4096) = 170"
    using Cons.prems(3) by (auto simp: j)
  let ?va = "p_vaddr s + i * 4096"
  have pg: "page_of ?va = ?va" using js(2) by (simp add: page_of_def)
  obtain src where src: "elf_page_src img s i = Some src" "length src \<le> 4096"
    using elf_page_src_ok [OF js(1)] by blast
  obtain f m1 m2 ps' where a: "alloc_frame OutOfFrames m = (Inr f, m1)"
    and p: "map_page mt MapFailed pml4 ?va f m1 = (Inr (), m2)"
    and h: "map_elf_pages mt pml4 img js (copy_to_frame f src (zero_frame f m2)) = (Inr ps', m')"
    and ps: "ps = (?va, f) # ps'"
    using Cons.prems(1) by (auto simp: j andThen_Inr pg src Let_def)
  define m3 where "m3 = copy_to_frame f src (zero_frame f m2)"
  have m3: "m3 = m2\<lparr>phys := (phys m2)(f := elf_page_bytes img s i)\<rparr>"
    using src by (simp add: m3_def copy_to_frame_def zero_frame_def splice_def elf_page_bytes_def Let_def)
  note ag = alloc_frame_grows [OF a]
  note pgr = map_page_grows [OF mt p singletonI]
  have g2: "grows {pml4} m m2" by (rule grows_trans [OF ag(1) pgr(1)])
  have f2: "f \<in> taken m m2" using ag(2) taken_mono [OF ag(1) pgr(1)] by blast
  note g3 = grows_write [OF g2 f2 m3]
  have acc: "map_accurate (falloc m3)"
    using Cons.prems(2) g2 by (simp add: map_accurate_def grows_def m3)
  have ih: "grows {pml4} m3 m'" "set (map snd ps') \<subseteq> taken m3 m'" "distinct (map snd ps')"
    "map fst ps' = map (\<lambda>(s, i). p_vaddr s + i * 4096) js"
    "\<forall>n < length js. phys m' (snd (ps' ! n)) = elf_page_bytes img (fst (js ! n)) (snd (js ! n))"
    "maps m' pml4 = (maps m3 pml4)(map fst ps' [\<mapsto>] map snd ps')"
    "\<forall>i. i \<noteq> 170 \<longrightarrow> pml4_entries m' pml4 ! i = pml4_entries m3 pml4 ! i"
    "map_le (maps m3 pml4) (maps m' pml4)"
    "\<forall>n < length js. maps m' pml4 (p_vaddr (fst (js ! n)) + snd (js ! n) * 4096) = Some (snd (ps' ! n))"
    using Cons.IH [OF h [folded m3_def] acc] Cons.prems(3) by auto
  have f3: "f \<in> taken m m3" using f2 g3(2) by simp
  note fr = taken_fresh [OF Cons.prems(2) g3(1) ih(1) f3 ih(2)]
  have "f \<notin> taken m3 m'"
    using taken_disjoint [OF Cons.prems(2) g3(1) ih(1)] f3 by auto
  then have "phys m' f = elf_page_bytes img s i"
    using ih(1) by (simp add: grows_def m3)
  then have cont: "\<forall>n < length (j # js). phys m' (snd (ps ! n)) = elf_page_bytes img (fst ((j # js) ! n)) (snd ((j # js) ! n))"
    using ih(5) by (auto simp: ps j less_Suc_eq_0_disj)
  have mp: "maps m3 pml4 = (maps m pml4)(?va \<mapsto> f)" using pgr(2) ag(3) by (simp add: m3)
  have en: "i' \<noteq> 170 \<longrightarrow> pml4_entries m' pml4 ! i' = pml4_entries m pml4 ! i'" for i'
    using ih(7) pgr(3) [of i'] ag(5) js(3) by (auto simp: m3)
  have le: "map_le (maps m pml4) (maps m' pml4)"
    using pgr(4) ih(8) ag(3) by (auto simp: m3 intro: map_le_trans)
  have "maps m' pml4 ?va = Some f"
    using ih(8) mp by (auto simp: map_le_def dest!: bspec [of _ _ ?va])
  then have tr: "\<forall>n < length (j # js). maps m' pml4 (p_vaddr (fst ((j # js) ! n)) + snd ((j # js) ! n) * 4096)
      = Some (snd (ps ! n))"
    using ih(9) by (auto simp: ps j less_Suc_eq_0_disj)
  show ?case
    using grows_trans [OF g3(1) ih(1)] fr ih(2-4) ih(6) cont mp en le tr by (simp add: ps j)
qed

definition demo_mapper :: map_to_fn where
  "demo_mapper m p page f =
     (if maps m p page = None then (True, m\<lparr>maps := (maps m)(p := (maps m p)(page \<mapsto> f))\<rparr>) else (False, m))"

lemma demo_mapper_ok: "mapper_ok demo_mapper"
  by (auto simp: mapper_ok_def demo_mapper_def taken_def split: if_splits)

definition demo_machine :: machine where
  "demo_machine = \<lparr>phys = (\<lambda>_. replicate 4096 7),
     falloc = \<lparr>regions = [\<lparr>r_start = 0x100000, r_end = 0x120000, r_usable = True\<rparr>], next_frame = 0\<rparr>,
     pml4_entries = (\<lambda>_. replicate 512 3), maps = (\<lambda>_. Map.empty), cr3 = 0x1000\<rparr>"

lemma demo_machine_accurate: "map_accurate (falloc demo_machine)"
  by (simp add: map_accurate_def demo_machine_def)

text \<open>
  C6. Address-space isolation by construction.  Whatever the mapper does within its contract,
  a process built by \<open>create_process_from_image\<close> owns frames that are pairwise distinct and
  were never handed out before; no memory outside the frames taken by the call changes and no
  other process's translations change; its private slot maps exactly code, stack and heap; its
  code frame is the image padded with zeros; every other PML4 entry is the kernel's own.
\<close>

theorem create_process_isolated:
  assumes "mapper_ok mt" "map_accurate (falloc m)" "create_process_from_image mt lbl img m = (Inr p, m')"
  shows "fresh_process m m' p \<and> maps m' (pml4_frame p) = image_layout p
     \<and> phys m' (code_frame p) = img @ replicate (4096 - length img) 0 \<and> length img \<le> 4096"
  using create_process_from_image_spec [OF assms] by auto

lemma upt_4: "[0..<4] = [0, 1, 2, 3 :: nat]" "[0..<Suc (Suc (Suc (Suc 0)))] = [0, 1, 2, 3 :: nat]"
  by (simp_all add: upt_rec)

lemma demo_frames: "usable_frames \<lparr>regions = [\<lparr>r_start = 0x100000, r_end = 0x120000, r_usable = True\<rparr>], next_frame = n\<rparr>
    = map (\<lambda>k. 0x100000 + 4096 * k) [0..<32]"
  by (subst usable_frames_concat) (simp_all add: map_accurate_def region_frames_def)

theorem create_process_isolated_witness:
  "\<exists>p m'. create_process_from_image demo_mapper ''A'' [0xEB, 0xFE] demo_machine = (Inr p, m')
     \<and> fresh_process demo_machine m' p \<and> phys m' (code_frame p) = [0xEB, 0xFE] @ replicate 4094 0"
proof -
  let ?run = "create_process_from_image demo_mapper ''A'' [0xEB, 0xFE] demo_machine"
  have "\<exists>p. fst ?run = Inr p"
    by (simp add: create_process_from_image_def user_p4 alloc_frame_def allocate_frame_def demo_machine_def
        demo_frames map_page_def demo_mapper_def populate_pml4_def Let_def upt_4 heap_p4 zero_frame_def page_of_def p4_index_def
        USER_CODE_ADDR_def USER_STACK_ADDR_def HEAP_START_def)
  then obtain p where "?run = (Inr p, snd ?run)" by (metis prod.collapse)
  with create_process_isolated [OF demo_mapper_ok demo_machine_accurate this] show ?thesis by auto
qed

lemma elf_jobs_set: "(s, i) \<in> set (elf_jobs segs) \<longleftrightarrow> s \<in> set segs \<and> i < seg_pages s"
  by (auto simp: elf_jobs_def intro!: bexI [of _ s])

lemma elf_validate_ok:
  assumes "elf_validate e segs = Inr ()" "\<forall>s \<in> set segs. segment_ok img s"
  shows "\<forall>(s, i) \<in> set (elf_jobs segs). segment_ok img s \<and> p_vaddr s mod 4096 = 0
      \<and> p4_index (p_vaddr s + i * 4096) = 170"
    and "length (elf_jobs segs) \<le> 16"
proof -
  obtain n where n: "check_segments segs 0 = Inr n" "n \<le> 16"
    using assms(1) by (auto simp: elf_validate_def split: if_splits sum.splits)
  note c = check_segments_ok [OF n(1)]
  show "\<forall>(s, i) \<in> set (elf_jobs segs). segment_ok img s \<and> p_vaddr s mod 4096 = 0
      \<and> p4_index (p_vaddr s + i * 4096) = 170"
    using c assms(2) by (auto simp: elf_jobs_set)
  show "length (elf_jobs segs) \<le> 16" using c n(2) by simp
qed

lemma snd_filter_parts:
  assumes "distinct (map snd ps)" "filter (\<lambda>x. fst x = a) ps = c # cs"
  shows "distinct (snd (last (c # cs)) # map snd (filter (\<lambda>x. fst x \<noteq> a) ps))"
    and "snd (last (c # cs)) \<in> set (map snd ps)"
proof -
  have "last (c # cs) \<in> set (filter (\<lambda>x. fst x = a) ps)" using assms(2) by (metis last_in_set list.discI)
  then have l: "last (c # cs) \<in> set ps" "fst (last (c # cs)) = a" by auto
  then show "snd (last (c # cs)) \<in> set (map snd ps)" by auto
  have "snd (last (c # cs)) \<noteq> snd x" if "x \<in> set ps" "fst x \<noteq> a" for x
    using assms(1) l that by (metis distinct_map inj_on_def)
  then have "snd (last (c # cs)) \<notin> snd ` set (filter (\<lambda>x. fst x \<noteq> a) ps)"
    by fastforce
  then show "distinct (snd (last (c # cs)) # map snd (filter (\<lambda>x. fst x \<noteq> a) ps))"
    using assms(1) by (simp add: distinct_map_filter)
qed

lemma distinct_parts:
  "a \<notin> S \<union> ({st} \<union> set hp) \<Longrightarrow> st \<notin> set hp \<Longrightarrow> distinct hp \<Longrightarrow> S \<inter> ({st} \<union> set hp) = {}
    \<Longrightarrow> distinct (x # E) \<Longrightarrow> x \<in> S \<Longrightarrow> set E \<subseteq> S \<Longrightarrow> distinct ([a, x, st] @ hp @ E)"
  by auto

lemma create_process_from_elf_spec:
  assumes mt: "mapper_ok mt" and acc: "map_accurate (falloc m)" and segs: "\<forall>s \<in> set segs. segment_ok img s"
    and run: "create_process_from_elf mt lbl e segs img m = (Inr p, m')"
  shows "fresh_process m m' p" "length (elf_jobs segs) \<le> 16"
    "\<forall>(s, i) \<in> set (elf_jobs segs). \<exists>f. maps m' (pml4_frame p) (p_vaddr s + i * 4096) = Some f
       \<and> f \<in> set (code_frame p # extra_frames p) \<and> phys m' f = elf_page_bytes img s i"
    "distinct (map (\<lambda>(s, i). maps m' (pml4_frame p) (p_vaddr s + i * 4096)) (elf_jobs segs))"
proof -
  have val: "elf_validate e segs = Inr ()"
    using run by (cases "elf_validate e segs") (auto simp: create_process_from_elf_def)
  note v = elf_validate_ok [OF val segs]
  obtain pml4 m1 ps m2 where a1: "alloc_frame OutOfFrames m = (Inr pml4, m1)"
    and a2: "map_elf_pages mt pml4 img (elf_jobs segs) (populate_pml4 pml4 170 m1) = (Inr ps, m2)"
    and rest: "(case filter (\<lambda>x. fst x = USER_CODE_ADDR) ps of
         [] \<Rightarrow> (Inl NoCodeFrame, m2)
       | c # cs \<Rightarrow>
     andThen (alloc_frame OutOfFrames m2) (\<lambda>stack m.
     andThen (map_page mt MapFailed pml4 (page_of USER_STACK_ADDR) stack m) (\<lambda>_ m.
     andThen (map_heap mt pml4 [0..<HEAP_PAGE_COUNT] m) (\<lambda>heap m.
       (Inr \<lparr>p_label = lbl, pml4_frame = pml4, code_frame = snd (last (c # cs)), stack_frame = stack,
             heap_frames = heap, heap_used = 0, fds = [None, None, None, None],
             extra_frames = map snd (filter (\<lambda>x. fst x \<noteq> USER_CODE_ADDR) ps),
             parent_pid = None, pending_resume = None\<rparr>, m))))) = (Inr p, m')"
    using run by (auto simp: create_process_from_elf_def val andThen_Inr user_p4)
  then obtain c cs where fc: "filter (\<lambda>x. fst x = USER_CODE_ADDR) ps = c # cs"
    by (cases "filter (\<lambda>x. fst x = USER_CODE_ADDR) ps") auto
  obtain stack heap m3 m4 where a3: "alloc_frame OutOfFrames m2 = (Inr stack, m3)"
    and a4: "map_page mt MapFailed pml4 USER_STACK_ADDR stack m3 = (Inr (), m4)"
    and a5: "map_heap mt pml4 [0..<4] m4 = (Inr heap, m')"
    and p: "p = \<lparr>p_label = lbl, pml4_frame = pml4, code_frame = snd (last (c # cs)), stack_frame = stack,
             heap_frames = heap, heap_used = 0, fds = [None, None, None, None],
             extra_frames = map snd (filter (\<lambda>x. fst x \<noteq> USER_CODE_ADDR) ps),
             parent_pid = None, pending_resume = None\<rparr>"
    using rest by (auto simp: fc andThen_Inr user_p4)
  let ?P = "{pml4}" and ?m1 = "populate_pml4 pml4 170 m1" and ?js = "elf_jobs segs"
  note g1 = alloc_frame_grows [OF a1]
  note gp = grows_populate [OF g1(1) singletonI, of pml4 170]
  have acc': "map_accurate (falloc x)" if "grows ?P m x" for x
    using acc that by (simp add: map_accurate_def grows_def)
  note e = map_elf_pages_spec [OF mt a2 acc' [OF gp(1)] v(1)]
  have Gm2: "grows ?P m m2" using gp(1) e by (meson grows_trans)
  note g3 = alloc_frame_grows [OF a3]
  note g4 = map_page_grows [OF mt a4 singletonI]
  have G24: "grows ?P m2 m4" by (rule grows_trans [OF g3(1) g4(1)])
  note h = map_heap_spec [OF mt a5 acc' [OF grows_trans [OF Gm2 G24]], simplified]
  have G3': "grows ?P m3 m'" using g4(1) h by (meson grows_trans)
  have G2': "grows ?P m2 m'" by (rule grows_trans [OF g3(1) G3'])
  have G1': "grows ?P ?m1 m'" using e G2' by (meson grows_trans)
  have s1: "pml4 \<in> taken m ?m1" using g1(2) gp(2) by simp
  have s4: "set heap \<subseteq> taken m3 m'" using h taken_grows(2) [OF g4(1)] by blast
  note t3 = taken_fresh [OF acc' [OF Gm2] g3(1) G3' g3(2) [OF refl] s4]
  have s5: "{stack} \<union> set heap \<subseteq> taken m2 m'" using t3 by auto
  have ge: "grows ?P ?m1 m2" "set (map snd ps) \<subseteq> taken ?m1 m2" using e by auto
  have dis2: "taken ?m1 m2 \<inter> taken m2 m' = {}" by (rule taken_disjoint [OF acc' [OF gp(1)] ge(1) G2'])
  have s6: "set (map snd ps) \<union> ({stack} \<union> set heap) \<subseteq> taken ?m1 m'"
    using s5 ge(2) taken_grows [OF ge(1) G2'] by blast
  note t1 = taken_fresh [OF acc gp(1) G1' s1 s6]
  have Gm': "grows ?P m m'" by (rule grows_trans [OF gp(1) G1'])
  have dps: "distinct (map snd ps)" using e by blast
  note sp = snd_filter_parts [OF dps fc]
  have dist: "pml4 \<notin> set (map snd ps) \<union> ({stack} \<union> set heap)" "stack \<notin> set heap" "distinct heap"
    "set (map snd ps) \<inter> ({stack} \<union> set heap) = {}"
    using t1(1) t3(1) h dis2 ge(2) s5 by blast+
  have ent: "\<forall>i < 512. i \<noteq> 170 \<longrightarrow> pml4_entries m' pml4 ! i = pml4_entries m (cr3 m) ! i"
    using h g4(3) alloc_frame_grows(5) [OF a3] e g1(1,5)
    by (auto simp: user_p4 populate_pml4_def grows_def)
  have ex: "set (map snd (filter (\<lambda>x. fst x \<noteq> USER_CODE_ADDR) ps)) \<subseteq> set (map snd ps)" by auto
  have code: "snd (last (c # cs)) \<in> set (map snd ps)" by (rule sp(2))
  have d: "distinct ([pml4, snd (last (c # cs)), stack] @ heap @ map snd (filter (\<lambda>x. fst x \<noteq> USER_CODE_ADDR) ps))"
    by (rule distinct_parts [OF dist sp(1) code ex])
  have sub: "set ([pml4, snd (last (c # cs)), stack] @ heap @ map snd (filter (\<lambda>x. fst x \<noteq> USER_CODE_ADDR) ps))
      \<subseteq> taken m m'"
    using t1(2,3) ex code by auto
  show "fresh_process m m' p"
    unfolding fresh_process_def private_frames_def p using Gm' d sub h ent by simp
  show "length (elf_jobs segs) \<le> 16" by (rule v(2))
  have le: "map_le (maps m2 pml4) (maps m' pml4)"
    using g4(4) alloc_frame_grows(3) [OF a3] h by (auto intro: map_le_trans)
  have len: "length ps = length ?js" using e by (metis length_map)
  have keys: "fst (ps ! n) = p_vaddr (fst (?js ! n)) + snd (?js ! n) * 4096" if "n < length ?js" for n
    using e that len by (metis (no_types, lifting) case_prod_beta nth_map)
  have page: "maps m2 pml4 (p_vaddr (fst (?js ! n)) + snd (?js ! n) * 4096) = Some (snd (ps ! n))
      \<and> maps m' pml4 (p_vaddr (fst (?js ! n)) + snd (?js ! n) * 4096) = Some (snd (ps ! n))
      \<and> phys m' (snd (ps ! n)) = elf_page_bytes img (fst (?js ! n)) (snd (?js ! n))" if n: "n < length ?js" for n
  proof -
    let ?f = "snd (ps ! n)" and ?va = "p_vaddr (fst (?js ! n)) + snd (?js ! n) * 4096"
    have m2: "maps m2 pml4 ?va = Some ?f" "phys m2 ?f = elf_page_bytes img (fst (?js ! n)) (snd (?js ! n))" using e n by auto
    have "?f \<in> set (map snd ps)" using n len by simp
    then have "?f \<notin> taken m2 m'" using ge(2) dis2 by blast
    then show ?thesis using m2 le G2' by (auto simp: map_le_def grows_def dest!: bspec [of _ _ ?va])
  qed
  have owned: "snd (ps ! n) \<in> set (code_frame p # extra_frames p)" if n: "n < length ?js" for n
  proof (cases "fst (ps ! n) = USER_CODE_ADDR")
    case True
    have "last (c # cs) \<in> set (filter (\<lambda>x. fst x = USER_CODE_ADDR) ps)" unfolding fc by (rule last_in_set) simp
    then obtain k where k: "k < length ?js" "ps ! k = last (c # cs)" "fst (ps ! k) = USER_CODE_ADDR"
      using len by (auto simp: in_set_conv_nth)
    have "Some (snd (ps ! k)) = Some (snd (ps ! n))" using page [OF k(1)] page [OF n] keys [OF k(1)] keys [OF n] k(3) True by simp
    then show ?thesis using k(2) by (simp add: p)
  qed (use n len in \<open>auto simp: p\<close>)
  show "\<forall>(s, i) \<in> set ?js. \<exists>f. maps m' (pml4_frame p) (p_vaddr s + i * 4096) = Some f
      \<and> f \<in> set (code_frame p # extra_frames p) \<and> phys m' f = elf_page_bytes img s i"
  proof safe
    fix s i assume "(s, i) \<in> set ?js"
    then obtain n where n: "n < length ?js" "?js ! n = (s, i)" by (auto simp: in_set_conv_nth)
    then show "\<exists>f. maps m' (pml4_frame p) (p_vaddr s + i * 4096) = Some f
        \<and> f \<in> set (code_frame p # extra_frames p) \<and> phys m' f = elf_page_bytes img s i"
      using page [OF n(1)] owned [OF n(1)] by (intro exI [of _ "snd (ps ! n)"]) (simp add: p)
  qed
  have "map (\<lambda>(s, i). maps m' (pml4_frame p) (p_vaddr s + i * 4096)) ?js = map Some (map snd ps)"
    using page len by (intro nth_equalityI) (simp_all add: p case_prod_beta)
  then show "distinct (map (\<lambda>(s, i). maps m' (pml4_frame p) (p_vaddr s + i * 4096)) ?js)"
    using dps by (simp add: distinct_map inj_on_def)
qed

text \<open>The demonstration file loads.\<close>

lemma demo_elf_loads:
  "\<exists>p m'. create_process_from_elf demo_mapper lbl 0x555550000000
       [\<lparr>p_vaddr = 0x555550000000, p_offset = 0, p_filesz = 120, p_memsz = 120, p_flags = 5\<rparr>] demo_elf demo_machine
       = (Inr p, m')"
proof -
  let ?s = "\<lparr>p_vaddr = 0x555550000000, p_offset = 0, p_filesz = 120, p_memsz = 120, p_flags = 5\<rparr> :: program_segment"
  let ?run = "create_process_from_elf demo_mapper lbl 0x555550000000 [?s] demo_elf demo_machine"
  have "elf_validate 0x555550000000 [?s] = Inr ()" "elf_jobs [?s] = [(?s, 0)]"
    by (simp_all add: elf_validate_def USER_CODE_ADDR_def USER_STACK_ADDR_def p4_index_def seg_pages_def
        canonical_def elf_jobs_def)
  moreover have "\<exists>b. elf_page_src demo_elf ?s 0 = Some b"
    by (simp add: elf_page_src_def demo_elf_slices)
  ultimately have "\<exists>p. fst ?run = Inr p"
    by (auto simp: create_process_from_elf_def user_p4 alloc_frame_def allocate_frame_def demo_machine_def
        demo_frames map_page_def demo_mapper_def populate_pml4_def Let_def upt_4 heap_p4 zero_frame_def
        copy_to_frame_def page_of_def p4_index_def USER_CODE_ADDR_def USER_STACK_ADDR_def HEAP_START_def)
  then show ?thesis by (metis prod.collapse)
qed

text \<open>
  C12. Loading an ELF file the parser accepted: at most sixteen pages are mapped, and every page of every
  segment translates to a private frame of its own -- one of the process's code and extra frames, which
  are pairwise distinct, were never handed out before and are nobody else's -- holding exactly that
  page's bytes of the file followed by zeros.
\<close>

theorem elf_process_loaded:
  assumes "mapper_ok mt" "map_accurate (falloc m)" "parse img = Some (Inr ei)"
    and "create_process_from_elf mt lbl (entry ei) (segments ei) img m = (Inr p, m')"
  shows "fresh_process m m' p \<and> length (elf_jobs (segments ei)) \<le> 16
     \<and> (\<forall>(s, i) \<in> set (elf_jobs (segments ei)).
          \<exists>f. maps m' (pml4_frame p) (p_vaddr s + i * 4096) = Some f \<and> f \<in> set (code_frame p # extra_frames p)
            \<and> f \<in> taken m m' \<and> phys m' f = elf_page_bytes img s i)
     \<and> distinct (map (\<lambda>(s, i). maps m' (pml4_frame p) (p_vaddr s + i * 4096)) (elf_jobs (segments ei)))"
proof -
  have segs: "\<forall>s \<in> set (segments ei). segment_ok img s" using parse_segments_ok [OF assms(3)] .
  note spec = create_process_from_elf_spec [OF assms(1,2) segs assms(4)]
  have "set (code_frame p # extra_frames p) \<subseteq> taken m m'"
    using spec(1) by (auto simp: fresh_process_def private_frames_def)
  then show ?thesis using spec by blast
qed

theorem elf_process_loaded_witness:
  "\<exists>p m'. create_process_from_elf demo_mapper ''E'' 0x555550000000
       [\<lparr>p_vaddr = 0x555550000000, p_offset = 0, p_filesz = 120, p_memsz = 120, p_flags = 5\<rparr>] demo_elf demo_machine
       = (Inr p, m') \<and> fresh_process demo_machine m' p"
  using demo_elf_loads [of "''E''"] elf_process_loaded [OF demo_mapper_ok demo_machine_accurate demo_elf_parse, of "''E''"]
  by fastforce

text \<open>
  A file the parser accepts can panic the kernel in the loader: a second segment whose
  address is page-aligned but not canonical reaches \<open>VirtAddr::new\<close> before any check.
\<close>

theorem elf_noncanonical_panics:
  "fst (create_process_from_elf mt lbl 0x555550000000
     [\<lparr>p_vaddr = 0x555550000000, p_offset = 0, p_filesz = 0, p_memsz = 4096, p_flags = 5\<rparr>,
      \<lparr>p_vaddr = 0x800000000000, p_offset = 0, p_filesz = 0, p_memsz = 4096, p_flags = 6\<rparr>] img m)
   = Inl ProcPanic"
  by (simp add: create_process_from_elf_def elf_validate_def USER_CODE_ADDR_def USER_STACK_ADDR_def
      p4_index_def seg_pages_def canonical_def)

end
