(* ===== verification/Fds.thy ===== *)
theory Fds
  imports Process Pipe Fs_Props
begin

text \<open>
  The kernel's process state and the descriptor operations of \<open>kernel/src/process.rs\<close>:
  \<open>with_process_mut\<close>, \<open>sbrk\<close>, \<open>open_file\<close>, \<open>read_fd\<close>, \<open>write_fd\<close>, \<open>close_fd\<close>, \<open>dup_fd\<close>,
  \<open>dup2_fd\<close> and \<open>pipe_create\<close>.  \<open>kstate\<close> is the union of the statics those functions lock:
  the seven named process slots, \<open>PROCESS_TABLE\<close>, \<open>PIPE_TABLE\<close>, the disk, physical memory and
  the active process, the serial output and whether the frame allocator's lock is held.  A file descriptor is an index into the owner's four-entry table.
\<close>

record kstate =
  slots :: "nat \<Rightarrow> proc option"
  ptable :: "proc option list"
  pipes :: "pipe option list"
  kdisk :: disk
  mach :: machine
  active :: nat
  in_child :: bool
  kernel_pml4 :: nat
  serial_out :: bytes
  fa_locked :: bool

definition PID_TABLE_BASE :: nat where [simp]: "PID_TABLE_BASE = 10"
definition MAX_PROCESSES :: nat where [simp]: "MAX_PROCESSES = 4"

section \<open>Looking up and updating a process\<close>

definition get_proc :: "kstate \<Rightarrow> nat \<Rightarrow> proc option" where
  "get_proc s pid =
     (if 1 \<le> pid \<and> pid \<le> 7 then slots s pid
      else if PID_TABLE_BASE \<le> pid \<and> pid - PID_TABLE_BASE < MAX_PROCESSES then ptable s ! (pid - PID_TABLE_BASE)
      else None)"

definition set_proc :: "nat \<Rightarrow> proc \<Rightarrow> kstate \<Rightarrow> kstate" where
  "set_proc pid p s =
     (if 1 \<le> pid \<and> pid \<le> 7 then s\<lparr>slots := (slots s)(pid := Some p)\<rparr>
      else s\<lparr>ptable := (ptable s)[pid - PID_TABLE_BASE := Some p]\<rparr>)"

text \<open>\<open>with_process_mut(id, f)\<close> for an \<open>f\<close> that returns a result and the process it leaves.\<close>

definition with_process_mut :: "nat \<Rightarrow> (proc \<Rightarrow> 'a \<times> proc) \<Rightarrow> kstate \<Rightarrow> 'a option \<times> kstate" where
  "with_process_mut pid f s =
     (case get_proc s pid of
        None \<Rightarrow> (None, s)
      | Some p \<Rightarrow> (case f p of (a, p') \<Rightarrow> (Some a, set_proc pid p' s)))"

definition ids_ok :: "kstate \<Rightarrow> bool" where
  "ids_ok s \<longleftrightarrow> length (ptable s) = 4"

lemma get_set_proc:
  assumes "ids_ok s" "get_proc s pid = Some p"
  shows "get_proc (set_proc pid p' s) i = (if i = pid then Some p' else get_proc s i)"
proof (cases "1 \<le> pid \<and> pid \<le> 7")
  case True
  then show ?thesis by (simp add: get_proc_def set_proc_def)
next
  case False
  then have t: "10 \<le> pid" "pid - 10 < 4" using assms(2) by (auto simp: get_proc_def split: if_splits)
  have s: "set_proc pid p' s = s\<lparr>ptable := (ptable s)[pid - 10 := Some p']\<rparr>"
    using False unfolding set_proc_def by (simp only: if_False PID_TABLE_BASE_def)
  have l: "length (ptable s) = 4" using assms(1) by (simp add: ids_ok_def)
  show ?thesis
  proof (cases "10 \<le> i \<and> i - 10 < 4")
    case True
    have "i - 10 = pid - 10 \<longleftrightarrow> i = pid" using True t by linarith
    with True t l show ?thesis by (simp add: get_proc_def s nth_list_update eq_commute [of "pid - 10"])
  next
    case False
    with t show ?thesis by (auto simp: get_proc_def s)
  qed
qed

lemma set_proc_simps [simp]:
  "pipes (set_proc pid p s) = pipes s" "kdisk (set_proc pid p s) = kdisk s" "mach (set_proc pid p s) = mach s"
  "active (set_proc pid p s) = active s" "in_child (set_proc pid p s) = in_child s"
  "ids_ok (set_proc pid p s) = ids_ok s"
  by (auto simp: set_proc_def ids_ok_def)

lemma get_proc_other_fields [simp]:
  "get_proc (s\<lparr>pipes := x\<rparr>) pid = get_proc s pid" "get_proc (s\<lparr>kdisk := d\<rparr>) pid = get_proc s pid"
  "get_proc (s\<lparr>mach := m\<rparr>) pid = get_proc s pid" "get_proc (s\<lparr>active := a\<rparr>) pid = get_proc s pid"
  "get_proc (s\<lparr>in_child := b\<rparr>) pid = get_proc s pid" "get_proc (s\<lparr>serial_out := o'\<rparr>) pid = get_proc s pid"
  "get_proc (s\<lparr>fa_locked := b\<rparr>) pid = get_proc s pid"
  by (simp_all add: get_proc_def)

section \<open>The heap\<close>

definition proc_sbrk :: "u64 \<Rightarrow> proc \<Rightarrow> nat option \<times> proc" where
  "proc_sbrk req p =
     (if 2 ^ 64 \<le> heap_used p + unat req then (None, p)
      else let new_used = heap_used p + unat req
           in if HEAP_SIZE < new_used then (None, p)
              else (Some (HEAP_START + heap_used p), p\<lparr>heap_used := new_used\<rparr>))"

definition sbrk :: "nat \<Rightarrow> u64 \<Rightarrow> kstate \<Rightarrow> nat option \<times> kstate" where
  "sbrk pid req s =
     (case with_process_mut pid (proc_sbrk req) s of (r, s') \<Rightarrow> (Option.bind r (\<lambda>x. x), s'))"

section \<open>Pipes\<close>

definition free_slots :: "fd_entry option list \<Rightarrow> nat list" where
  "free_slots t = filter (\<lambda>i. t ! i = None) [0..<length t]"

definition pipe_create :: "nat \<Rightarrow> kstate \<Rightarrow> (nat \<times> nat) option \<times> kstate" where
  "pipe_create pid s =
     (case position (\<lambda>p. p = None) (pipes s) of
        None \<Rightarrow> (None, s)
      | Some i \<Rightarrow>
          let s1 = s\<lparr>pipes := (pipes s)[i := Some new_pipe]\<rparr>
          in (case with_process_mut pid (\<lambda>p.
                 case free_slots (fds p) of
                   r # w # _ \<Rightarrow> (Some (r, w), p\<lparr>fds := (fds p)[r := Some (FdPipeRead i), w := Some (FdPipeWrite i)]\<rparr>)
                 | _ \<Rightarrow> (None, p)) s1 of
                (None, s2) \<Rightarrow> (None, s2)
              | (Some (Some rw), s2) \<Rightarrow> (Some rw, s2)
              | (Some None, s2) \<Rightarrow> (None, s2\<lparr>pipes := (pipes s2)[i := None]\<rparr>)))"

definition fd_at :: "fd_entry option list \<Rightarrow> nat \<Rightarrow> fd_entry option" where
  "fd_at t fd = (if fd < length t then t ! fd else None)"

definition proc_fd :: "kstate \<Rightarrow> nat \<Rightarrow> nat \<Rightarrow> fd_entry option" where
  "proc_fd s pid fd = (case get_proc s pid of None \<Rightarrow> None | Some p \<Rightarrow> fd_at (fds p) fd)"

definition pipe_read :: "nat \<Rightarrow> nat \<Rightarrow> nat \<Rightarrow> kstate \<Rightarrow> bytes option \<times> kstate" where
  "pipe_read pid fd len s =
     (case proc_fd s pid fd of
        Some (FdPipeRead i) \<Rightarrow>
          (case pipes s ! i of
             None \<Rightarrow> (None, s)
           | Some p \<Rightarrow> (case ring_read p len of (out, p') \<Rightarrow> (Some out, s\<lparr>pipes := (pipes s)[i := Some p']\<rparr>)))
      | _ \<Rightarrow> (None, s))"

definition pipe_write :: "nat \<Rightarrow> nat \<Rightarrow> bytes \<Rightarrow> kstate \<Rightarrow> nat option \<times> kstate" where
  "pipe_write pid fd data s =
     (case proc_fd s pid fd of
        Some (FdPipeWrite i) \<Rightarrow>
          (case pipes s ! i of
             None \<Rightarrow> (None, s)
           | Some p \<Rightarrow> (case ring_write p data of (n, p') \<Rightarrow> (Some n, s\<lparr>pipes := (pipes s)[i := Some p']\<rparr>)))
      | _ \<Rightarrow> (None, s))"

section \<open>Files\<close>

definition open_file_at :: "bytes \<Rightarrow> bytes \<Rightarrow> proc \<Rightarrow> nat option \<times> proc" where
  "open_file_at path buf p =
     (case position (\<lambda>f. f = None) (fds p) of
        None \<Rightarrow> (None, p)
      | Some i \<Rightarrow> (Some i, p\<lparr>fds := (fds p)[i := Some (FdFile
           \<lparr>f_path = path, f_buffer = buf, f_pos = 0, f_dirty = False\<rparr>)]\<rparr>))"

definition open_file :: "nat \<Rightarrow> bytes \<Rightarrow> kstate \<Rightarrow> nat option \<times> kstate" where
  "open_file pid path s =
     (let buf = (case read_file (kdisk s) path of Inr data \<Rightarrow> data | Inl _ \<Rightarrow> [])
      in case with_process_mut pid (open_file_at path buf) s of (r, s') \<Rightarrow> (Option.bind r (\<lambda>x. x), s'))"

definition file_read :: "nat \<Rightarrow> file_state \<Rightarrow> bytes \<times> file_state" where
  "file_read len f =
     (let start = min (f_pos f) (length (f_buffer f)); end' = min (start + len) (length (f_buffer f))
      in (slice (f_buffer f) start end', f\<lparr>f_pos := end'\<rparr>))"

definition file_write :: "bytes \<Rightarrow> file_state \<Rightarrow> nat \<times> file_state" where
  "file_write data f =
     (let start = f_pos f; room = MAX_FILE_BYTES - start; n = min (length data) room;
          buf = f_buffer f @ replicate (start + n - length (f_buffer f)) 0
      in (n, f\<lparr>f_buffer := splice buf start (take n data), f_pos := start + n, f_dirty := True\<rparr>))"

text \<open>Applies an operation to the file behind a descriptor; \<open>None\<close> when it is not an open file.\<close>

definition on_file :: "nat \<Rightarrow> (file_state \<Rightarrow> 'a \<times> file_state) \<Rightarrow> proc \<Rightarrow> 'a option \<times> proc" where
  "on_file fd g p =
     (case fd_at (fds p) fd of
        Some (FdFile f) \<Rightarrow> (case g f of (a, f') \<Rightarrow> (Some a, p\<lparr>fds := (fds p)[fd := Some (FdFile f')]\<rparr>))
      | _ \<Rightarrow> (None, p))"

definition read_fd :: "nat \<Rightarrow> nat \<Rightarrow> nat \<Rightarrow> kstate \<Rightarrow> bytes option \<times> kstate" where
  "read_fd pid fd len s =
     (case get_proc s pid of
        None \<Rightarrow> (None, s)
      | Some p \<Rightarrow>
          (case fd_at (fds p) fd of
             Some (FdPipeRead _) \<Rightarrow> pipe_read pid fd len s
           | _ \<Rightarrow> (case with_process_mut pid (on_file fd (file_read len)) s of
                     (r, s') \<Rightarrow> (Option.bind r (\<lambda>x. x), s'))))"

definition write_fd :: "nat \<Rightarrow> nat \<Rightarrow> bytes \<Rightarrow> kstate \<Rightarrow> nat option \<times> kstate" where
  "write_fd pid fd data s =
     (case get_proc s pid of
        None \<Rightarrow> (None, s)
      | Some p \<Rightarrow>
          (case fd_at (fds p) fd of
             Some (FdPipeWrite _) \<Rightarrow> pipe_write pid fd data s
           | _ \<Rightarrow> (case with_process_mut pid (on_file fd (file_write data)) s of
                     (r, s') \<Rightarrow> (Option.bind r (\<lambda>x. x), s'))))"

section \<open>Closing and duplicating\<close>

definition drop_if_unused :: "pipe \<Rightarrow> pipe option" where
  "drop_if_unused p = (if read_open p = 0 \<and> write_open p = 0 then None else Some p)"

definition unref_pipe :: "fd_entry \<Rightarrow> kstate \<Rightarrow> kstate" where
  "unref_pipe e s =
     (case e of
        FdPipeRead i \<Rightarrow>
          (case pipes s ! i of
             None \<Rightarrow> s
           | Some p \<Rightarrow> s\<lparr>pipes := (pipes s)[i := drop_if_unused (p\<lparr>read_open := read_open p - 1\<rparr>)]\<rparr>)
      | FdPipeWrite i \<Rightarrow>
          (case pipes s ! i of
             None \<Rightarrow> s
           | Some p \<Rightarrow> s\<lparr>pipes := (pipes s)[i := drop_if_unused (p\<lparr>write_open := write_open p - 1\<rparr>)]\<rparr>)
      | FdFile _ \<Rightarrow> s)"

definition ref_pipe :: "fd_entry \<Rightarrow> kstate \<Rightarrow> kstate" where
  "ref_pipe e s =
     (case e of
        FdPipeRead i \<Rightarrow>
          (case pipes s ! i of
             None \<Rightarrow> s
           | Some p \<Rightarrow> s\<lparr>pipes := (pipes s)[i := Some (p\<lparr>read_open := min (read_open p + 1) (2 ^ 32 - 1)\<rparr>)]\<rparr>)
      | FdPipeWrite i \<Rightarrow>
          (case pipes s ! i of
             None \<Rightarrow> s
           | Some p \<Rightarrow> s\<lparr>pipes := (pipes s)[i := Some (p\<lparr>write_open := min (write_open p + 1) (2 ^ 32 - 1)\<rparr>)]\<rparr>)
      | FdFile _ \<Rightarrow> s)"

definition close_fd :: "nat \<Rightarrow> nat \<Rightarrow> kstate \<Rightarrow> bool option \<times> kstate" where
  "close_fd pid fd s =
     (case get_proc s pid of
        None \<Rightarrow> (None, s)
      | Some p \<Rightarrow>
          (case fd_at (fds p) fd of
             None \<Rightarrow> (None, s)
           | Some e \<Rightarrow>
               let s1 = set_proc pid (p\<lparr>fds := (fds p)[fd := None]\<rparr>) s
               in (case e of
                     FdFile f \<Rightarrow>
                       if \<not> f_dirty f then (Some True, s1)
                       else (case write_file (kdisk s1) (f_path f) (f_buffer f) of
                               (Inr _, d) \<Rightarrow> (Some True, s1\<lparr>kdisk := d\<rparr>)
                             | (Inl _, d) \<Rightarrow> (Some False, s1\<lparr>kdisk := d\<rparr>))
                   | _ \<Rightarrow> (Some True, unref_pipe e s1))))"

definition dup_fd :: "nat \<Rightarrow> nat \<Rightarrow> kstate \<Rightarrow> nat option \<times> kstate" where
  "dup_fd pid fd s =
     (case proc_fd s pid fd of
        None \<Rightarrow> (None, s)
      | Some e \<Rightarrow>
          (case with_process_mut pid (\<lambda>p.
              case position (\<lambda>f. f = None) (fds p) of
                None \<Rightarrow> (None, p)
              | Some i \<Rightarrow> (Some i, p\<lparr>fds := (fds p)[i := Some e]\<rparr>)) (ref_pipe e s) of
             (r, s') \<Rightarrow> (Option.bind r (\<lambda>x. x), s')))"

definition dup2_fd :: "nat \<Rightarrow> nat \<Rightarrow> nat \<Rightarrow> kstate \<Rightarrow> bool option \<times> kstate" where
  "dup2_fd pid fd newfd s =
     (if fd = newfd then (case proc_fd s pid fd of None \<Rightarrow> None | Some _ \<Rightarrow> Some True, s)
      else if MAX_OPEN_FILES \<le> newfd then (None, s)
      else case proc_fd s pid fd of
        None \<Rightarrow> (None, s)
      | Some e \<Rightarrow>
          (case (case proc_fd s pid newfd of
                   None \<Rightarrow> (Some True, s)
                 | Some _ \<Rightarrow> close_fd pid newfd s) of
             (None, s1) \<Rightarrow> (None, s1)
           | (Some _, s1) \<Rightarrow>
               with_process_mut pid (\<lambda>p. (True, p\<lparr>fds := (fds p)[newfd := Some e]\<rparr>)) (ref_pipe e s1)))"

end
