(* ===== verification/Fd_Inv.thy ===== *)
theory Fd_Inv
  imports Fds
begin

text \<open>
  The invariant of descriptors and pipes.  \<open>readers s i\<close> counts the read ends of pipe \<open>i\<close> in all
  descriptor tables of the system, \<open>writers s i\<close> the write ends.  \<open>fd_ok\<close> says that a pipe slot
  is occupied exactly when some descriptor refers to it, and that its two reference counts are
  those numbers; and that tables, heaps and file buffers are within their bounds.
\<close>

definition all_pids :: "nat list" where
  "all_pids = [1, 2, 3, 4, 5, 6, 7, 10, 11, 12, 13]"

lemma all_pids_props: "distinct all_pids" "get_proc s pid = Some p \<Longrightarrow> pid \<in> set all_pids"
proof -
  show "distinct all_pids" by (simp add: all_pids_def)
  assume "get_proc s pid = Some p"
  then have "pid \<in> {1..7} \<union> {10..13}" by (auto simp: get_proc_def split: if_splits)
  moreover have "{1..7} \<union> {10..13} \<subseteq> set all_pids" by (auto simp: all_pids_def)
  ultimately show "pid \<in> set all_pids" by blast
qed

definition ends_in :: "fd_entry \<Rightarrow> fd_entry option list \<Rightarrow> nat" where
  "ends_in e t = length (filter (\<lambda>x. x = Some e) t)"

definition ends_of :: "kstate \<Rightarrow> fd_entry \<Rightarrow> nat \<Rightarrow> nat" where
  "ends_of s e pid = (case get_proc s pid of None \<Rightarrow> 0 | Some p \<Rightarrow> ends_in e (fds p))"

definition total_ends :: "kstate \<Rightarrow> fd_entry \<Rightarrow> nat" where
  "total_ends s e = (\<Sum>pid \<in> set all_pids. ends_of s e pid)"

abbreviation readers :: "kstate \<Rightarrow> nat \<Rightarrow> nat" where "readers s i \<equiv> total_ends s (FdPipeRead i)"
abbreviation writers :: "kstate \<Rightarrow> nat \<Rightarrow> nat" where "writers s i \<equiv> total_ends s (FdPipeWrite i)"

definition pipe_fits :: "pipe option \<Rightarrow> nat \<Rightarrow> nat \<Rightarrow> bool" where
  "pipe_fits po r w = (case po of
     None \<Rightarrow> r = 0 \<and> w = 0
   | Some p \<Rightarrow> pipe_ok p \<and> read_open p = r \<and> write_open p = w \<and> 0 < r + w)"

definition entry_ok_fd :: "fd_entry option \<Rightarrow> bool" where
  "entry_ok_fd e = (case e of
     None \<Rightarrow> True
   | Some (FdFile f) \<Rightarrow> length (f_buffer f) \<le> 4096 \<and> f_pos f \<le> 4096
   | Some (FdPipeRead i) \<Rightarrow> i < 4
   | Some (FdPipeWrite i) \<Rightarrow> i < 4)"

definition proc_ok :: "proc \<Rightarrow> bool" where
  "proc_ok p \<longleftrightarrow> length (fds p) = 4 \<and> heap_used p \<le> 16384 \<and> (\<forall>e \<in> set (fds p). entry_ok_fd e)"

definition fd_ok :: "kstate \<Rightarrow> bool" where
  "fd_ok s \<longleftrightarrow> ids_ok s \<and> length (pipes s) = 4 \<and> (\<forall>pid p. get_proc s pid = Some p \<longrightarrow> proc_ok p)
     \<and> (\<forall>i < 4. pipe_fits (pipes s ! i) (readers s i) (writers s i))"

section \<open>Counting ends\<close>

lemma ends_in_update:
  "i < length t \<Longrightarrow> ends_in e (t[i := x]) + of_bool (t ! i = Some e) = ends_in e t + of_bool (x = Some e)"
proof (induction t arbitrary: i)
  case (Cons a t)
  then show ?case by (cases i) (auto simp: ends_in_def)
qed simp

lemma total_ends_set_proc:
  assumes "ids_ok s" "get_proc s pid = Some p"
  shows "total_ends (set_proc pid p' s) e + ends_in e (fds p) = total_ends s e + ends_in e (fds p')"
proof -
  let ?A = "set all_pids"
  have m: "pid \<in> ?A" using all_pids_props(2) [OF assms(2)] .
  have eq: "ends_of (set_proc pid p' s) e i = ends_of s e i" if "i \<noteq> pid" for i
    using get_set_proc [OF assms] that by (simp add: ends_of_def)
  have "total_ends (set_proc pid p' s) e
      = ends_of (set_proc pid p' s) e pid + (\<Sum>i \<in> ?A - {pid}. ends_of (set_proc pid p' s) e i)"
    unfolding total_ends_def by (rule sum.remove) (use m in auto)
  also have "(\<Sum>i \<in> ?A - {pid}. ends_of (set_proc pid p' s) e i) = (\<Sum>i \<in> ?A - {pid}. ends_of s e i)"
    by (rule sum.cong) (auto simp: eq)
  finally have "total_ends (set_proc pid p' s) e = ends_in e (fds p') + (\<Sum>i \<in> ?A - {pid}. ends_of s e i)"
    using get_set_proc [OF assms] by (simp add: ends_of_def)
  moreover have "total_ends s e = ends_of s e pid + (\<Sum>i \<in> ?A - {pid}. ends_of s e i)"
    unfolding total_ends_def by (rule sum.remove) (use m in auto)
  moreover have "ends_of s e pid = ends_in e (fds p)" using assms(2) by (simp add: ends_of_def)
  ultimately show ?thesis by simp
qed

lemma total_ends_fields [simp]:
  "total_ends (s\<lparr>pipes := x\<rparr>) e = total_ends s e" "total_ends (s\<lparr>kdisk := d\<rparr>) e = total_ends s e"
  "total_ends (s\<lparr>mach := m\<rparr>) e = total_ends s e" "total_ends (s\<lparr>active := a\<rparr>) e = total_ends s e"
  "total_ends (s\<lparr>in_child := b\<rparr>) e = total_ends s e" "total_ends (s\<lparr>serial_out := o'\<rparr>) e = total_ends s e"
  "total_ends (s\<lparr>fa_locked := b\<rparr>) e = total_ends s e"
  by (simp_all add: total_ends_def ends_of_def)

lemma total_ends_bound:
  assumes "fd_ok s" shows "total_ends s e \<le> 44"
proof -
  have "ends_of s e i \<le> 4" for i
  proof (cases "get_proc s i")
    case (Some p)
    then have "length (fds p) = 4" using assms by (simp add: fd_ok_def proc_ok_def)
    then show ?thesis using Some length_filter_le [of "\<lambda>x. x = Some e" "fds p"]
      by (simp add: ends_of_def ends_in_def)
  qed (simp add: ends_of_def)
  then have "total_ends s e \<le> (\<Sum>i \<in> set all_pids. 4)" unfolding total_ends_def by (intro sum_mono)
  then show ?thesis by (simp add: all_pids_def)
qed

text \<open>Replacing one descriptor of one process.\<close>

definition put_fd :: "nat \<Rightarrow> nat \<Rightarrow> fd_entry option \<Rightarrow> proc \<Rightarrow> kstate \<Rightarrow> kstate" where
  "put_fd pid fd x p s = set_proc pid (p\<lparr>fds := (fds p)[fd := x]\<rparr>) s"

lemma total_ends_put_fd:
  assumes "ids_ok s" "get_proc s pid = Some p" "fd < length (fds p)"
  shows "total_ends (put_fd pid fd x p s) e + of_bool (fds p ! fd = Some e)
           = total_ends s e + of_bool (x = Some e)"
  using total_ends_set_proc [OF assms(1,2), of "p\<lparr>fds := (fds p)[fd := x]\<rparr>" e]
    ends_in_update [OF assms(3), of e x] by (simp add: put_fd_def)

lemma ends_in_pos: "i < length t \<Longrightarrow> t ! i = Some e \<Longrightarrow> 0 < ends_in e t"
  using nth_mem [of i t] by (auto simp: ends_in_def filter_empty_conv)

lemma total_ends_pos:
  assumes "get_proc s pid = Some p" "fd < length (fds p)" "fds p ! fd = Some e"
  shows "0 < total_ends s e"
proof -
  have "0 < ends_of s e pid" using ends_in_pos [OF assms(2,3)] assms(1) by (simp add: ends_of_def)
  also have "\<dots> \<le> total_ends s e"
    unfolding total_ends_def by (rule member_le_sum) (use all_pids_props(2) [OF assms(1)] in auto)
  finally show ?thesis .
qed

lemma proc_ok_put: "proc_ok p \<Longrightarrow> entry_ok_fd x \<Longrightarrow> proc_ok (p\<lparr>fds := (fds p)[fd := x]\<rparr>)"
  using set_update_subset_insert [of "fds p" fd x] by (auto simp: proc_ok_def)

lemma fd_ok_procs:
  assumes "fd_ok s" "get_proc s pid = Some p" "proc_ok p'"
  shows "ids_ok (set_proc pid p' s) \<and> length (pipes (set_proc pid p' s)) = 4
     \<and> (\<forall>i q. get_proc (set_proc pid p' s) i = Some q \<longrightarrow> proc_ok q)"
  using assms get_set_proc [of s pid p p'] by (auto simp: fd_ok_def split: if_splits)

text \<open>A change that moves no pipe end.\<close>

lemma fd_ok_set_same:
  assumes ok: "fd_ok s" and p: "get_proc s pid = Some p" "proc_ok p'"
    and same: "\<And>e. (\<forall>f. e \<noteq> FdFile f) \<Longrightarrow> ends_in e (fds p') = ends_in e (fds p)"
  shows "fd_ok (set_proc pid p' s)"
proof -
  have "total_ends (set_proc pid p' s) e = total_ends s e" if "\<forall>f. e \<noteq> FdFile f" for e
    using total_ends_set_proc [of s pid p p' e] same [OF that] ok p(1) by (simp add: fd_ok_def)
  then show ?thesis using fd_ok_procs [OF ok p] ok by (simp add: fd_ok_def)
qed

lemma fd_ok_fields [simp]:
  "fd_ok (s\<lparr>kdisk := d\<rparr>) = fd_ok s" "fd_ok (s\<lparr>active := a\<rparr>) = fd_ok s" "fd_ok (s\<lparr>mach := m\<rparr>) = fd_ok s"
  "fd_ok (s\<lparr>in_child := b\<rparr>) = fd_ok s" "fd_ok (s\<lparr>serial_out := o'\<rparr>) = fd_ok s"
  "fd_ok (s\<lparr>fa_locked := b\<rparr>) = fd_ok s"
  by (simp_all add: fd_ok_def ids_ok_def)

lemma ends_in_put_file:
  assumes "fd < length t" "t ! fd = None \<or> (\<exists>g. t ! fd = Some (FdFile g))" "\<forall>f. e \<noteq> FdFile f"
  shows "ends_in e (t[fd := Some (FdFile f)]) = ends_in e t"
  using ends_in_update [OF assms(1), of e "Some (FdFile f)"] assms(2,3) by (cases e) auto

section \<open>The whole invariant, preserved by every operation\<close>

definition kernel_ok :: "kstate \<Rightarrow> bool" where
  "kernel_ok s \<longleftrightarrow> fd_ok s \<and> fs_ok (kdisk s)"

lemma kernel_ok_fields [simp]:
  "kernel_ok (s\<lparr>active := a\<rparr>) = kernel_ok s" "kernel_ok (s\<lparr>mach := m\<rparr>) = kernel_ok s"
  "kernel_ok (s\<lparr>in_child := b\<rparr>) = kernel_ok s" "kernel_ok (s\<lparr>serial_out := o'\<rparr>) = kernel_ok s"
  "kernel_ok (s\<lparr>fa_locked := b\<rparr>) = kernel_ok s"
  by (simp_all add: kernel_ok_def)

lemma read_file_bounded: "fs_ok d \<Longrightarrow> read_file d path = Inr b \<Longrightarrow> length b \<le> 4096"
proof -
  assume ok: "fs_ok d" and r: "read_file d path = Inr b"
  obtain T nm where res: "resolve_table d path = Inr (T, nm)"
    using r by (auto simp: read_file_def split: sum.splits)
  obtain e where e: "find (used_named (name_bytes nm)) (load_dir_at d T) = Some e" "\<not> e_is_dir e"
    using r res by (auto simp: read_file_def split: option.splits if_splits)
  obtain j where j: "32 = length (dir_keys path) + Suc j" using resolved_table [OF ok res] by metis
  obtain i where "i < 8" "e = load_dir_at d T ! i" "e_used e"
    using e(1) by (auto simp: find_Some_iff used_named_def)
  then have "wf_entry d j e" using table_entry_wf(1) [OF ok res _ _ j] by simp
  then have "e_len e \<le> 4096" using e(2) by (simp add: wf_entry_def)
  then show ?thesis using r res e by (auto simp: read_file_def split: if_splits sum.splits)
qed

lemma with_process_mut_cases:
  assumes "with_process_mut pid f s = (r, s')"
  obtains "get_proc s pid = None" "r = None" "s' = s"
    | p a p' where "get_proc s pid = Some p" "f p = (a, p')" "r = Some a" "s' = set_proc pid p' s"
  using assms by (auto simp: with_process_mut_def split: option.splits prod.splits)

lemma kernel_ok_set_same:
  assumes "kernel_ok s" "get_proc s pid = Some p" "proc_ok p'"
    "\<And>e. (\<forall>f. e \<noteq> FdFile f) \<Longrightarrow> ends_in e (fds p') = ends_in e (fds p)"
  shows "kernel_ok (set_proc pid p' s)"
  using fd_ok_set_same [of s pid p p'] assms by (simp add: kernel_ok_def)

lemma kernel_proc_ok: "kernel_ok s \<Longrightarrow> get_proc s pid = Some p \<Longrightarrow> proc_ok p"
  by (simp add: kernel_ok_def fd_ok_def)

lemma sbrk_ok: "kernel_ok s \<Longrightarrow> sbrk pid n s = (r, s') \<Longrightarrow> kernel_ok s'"
proof -
  assume ok: "kernel_ok s" and run: "sbrk pid n s = (r, s')"
  obtain r0 where w: "with_process_mut pid (proc_sbrk n) s = (r0, s')"
    using run by (auto simp: sbrk_def split: prod.splits)
  from w show ?thesis
  proof (cases rule: with_process_mut_cases)
    case (2 p a p')
    then have "fds p' = fds p" "heap_used p' \<le> 16384"
      using kernel_proc_ok [OF ok 2(1)] by (auto simp: proc_sbrk_def proc_ok_def Let_def split: if_splits)
    then show ?thesis
      using 2 ok kernel_proc_ok [OF ok 2(1)] by (auto simp: proc_ok_def intro!: kernel_ok_set_same)
  qed (use ok in simp)
qed

lemma open_file_ok: "kernel_ok s \<Longrightarrow> open_file pid path s = (r, s') \<Longrightarrow> kernel_ok s'"
proof -
  assume ok: "kernel_ok s" and run: "open_file pid path s = (r, s')"
  define buf where "buf = (case read_file (kdisk s) path of Inr data \<Rightarrow> data | Inl _ \<Rightarrow> [])"
  have len: "length buf \<le> 4096"
    using ok read_file_bounded [of "kdisk s" path] by (auto simp: buf_def kernel_ok_def split: sum.splits)
  obtain r0 where w: "with_process_mut pid (open_file_at path buf) s = (r0, s')"
    using run by (auto simp: open_file_def buf_def [symmetric] Let_def split: prod.splits)
  from w show ?thesis
  proof (cases rule: with_process_mut_cases)
    case (2 p a p')
    have pok: "proc_ok p" by (rule kernel_proc_ok [OF ok 2(1)])
    show ?thesis
    proof (cases "position (\<lambda>f. f = None) (fds p)")
      case None
      then have "p' = p" using 2(2) by (simp add: open_file_at_def)
      then show ?thesis using 2 ok pok by (auto intro: kernel_ok_set_same)
    next
      case (Some i)
      note i = position_SomeD [OF Some]
      let ?e = "Some (FdFile \<lparr>f_path = path, f_buffer = buf, f_pos = 0, f_dirty = False\<rparr>)"
      have p': "p' = p\<lparr>fds := (fds p)[i := ?e]\<rparr>" using 2(2) Some by (simp add: open_file_at_def)
      have "proc_ok p'" unfolding p' by (rule proc_ok_put [OF pok]) (simp add: entry_ok_fd_def len)
      moreover have "ends_in e (fds p') = ends_in e (fds p)" if "\<forall>f. e \<noteq> FdFile f" for e
        using ends_in_put_file [of i "fds p" e] i that by (simp add: p')
      ultimately show ?thesis using 2 ok by (auto intro: kernel_ok_set_same)
    qed
  qed (use ok in simp)
qed

lemma on_file_ok:
  assumes ok: "kernel_ok s" and w: "with_process_mut pid (on_file fd g) s = (r, s')"
    and g: "\<And>f a f'. g f = (a, f') \<Longrightarrow> length (f_buffer f) \<le> 4096 \<Longrightarrow> f_pos f \<le> 4096
              \<Longrightarrow> length (f_buffer f') \<le> 4096 \<and> f_pos f' \<le> 4096"
  shows "kernel_ok s'"
  using w
proof (cases rule: with_process_mut_cases)
  case (2 p a p')
  have pok: "proc_ok p" by (rule kernel_proc_ok [OF ok 2(1)])
  show ?thesis
  proof (cases "\<exists>f. fd_at (fds p) fd = Some (FdFile f)")
    case True
    then obtain f where f: "fd < length (fds p)" "fds p ! fd = Some (FdFile f)"
      "fd_at (fds p) fd = Some (FdFile f)" by (auto simp: fd_at_def split: if_splits)
    obtain b f' where gf: "g f = (b, f')" by fastforce
    have p': "p' = p\<lparr>fds := (fds p)[fd := Some (FdFile f')]\<rparr>"
      using 2(2) f(3) gf by (simp add: on_file_def)
    have "entry_ok_fd (fds p ! fd)" using pok f(1) by (simp add: proc_ok_def)
    then have "entry_ok_fd (Some (FdFile f'))" using g [OF gf] f(2) by (simp add: entry_ok_fd_def)
    then have "proc_ok p'" unfolding p' by (rule proc_ok_put [OF pok])
    moreover have "ends_in e (fds p') = ends_in e (fds p)" if "\<forall>f. e \<noteq> FdFile f" for e
      using ends_in_put_file [OF f(1) _ that] f(2) by (simp add: p')
    ultimately show ?thesis using 2 ok by (auto intro: kernel_ok_set_same)
  next
    case False
    then have "p' = p" using 2(2) by (auto simp: on_file_def split: option.splits fd_entry.splits)
    then show ?thesis using 2 ok pok by (auto intro: kernel_ok_set_same)
  qed
qed (use ok in simp)

lemma file_read_ok: "file_read n f = (a, f') \<Longrightarrow> length (f_buffer f) \<le> 4096 \<Longrightarrow> f_pos f \<le> 4096
    \<Longrightarrow> length (f_buffer f') \<le> 4096 \<and> f_pos f' \<le> 4096"
  by (auto simp: file_read_def Let_def)

lemma file_write_ok: "file_write d f = (a, f') \<Longrightarrow> length (f_buffer f) \<le> 4096 \<Longrightarrow> f_pos f \<le> 4096
    \<Longrightarrow> length (f_buffer f') \<le> 4096 \<and> f_pos f' \<le> 4096"
  by (auto simp: file_write_def Let_def splice_def)

lemma proc_fd_Some:
  assumes "proc_fd s pid fd = Some e"
  obtains p where "get_proc s pid = Some p" "fd < length (fds p)" "fds p ! fd = Some e"
  using assms by (auto simp: proc_fd_def fd_at_def split: option.splits if_splits)

lemma kernel_ok_pipes:
  assumes ok: "kernel_ok s" and "length pl = 4"
    and "\<And>i. i < 4 \<Longrightarrow> pipe_fits (pl ! i) (readers s i) (writers s i)"
  shows "kernel_ok (s\<lparr>pipes := pl\<rparr>)"
  using assms by (auto simp: kernel_ok_def fd_ok_def ids_ok_def)

lemma kernel_ok_one_pipe:
  assumes ok: "kernel_ok s" and i: "i < 4" "pipes s ! i = Some p" and p': "pipe_ok p'"
    "read_open p' = read_open p" "write_open p' = write_open p"
  shows "kernel_ok (s\<lparr>pipes := (pipes s)[i := Some p']\<rparr>)"
proof (rule kernel_ok_pipes [OF ok])
  show "length ((pipes s)[i := Some p']) = 4" using ok by (simp add: kernel_ok_def fd_ok_def)
  fix k :: nat assume k: "k < 4"
  have f: "pipe_fits (pipes s ! k) (readers s k) (writers s k)" "length (pipes s) = 4"
    using ok k by (auto simp: kernel_ok_def fd_ok_def)
  show "pipe_fits ((pipes s)[i := Some p'] ! k) (readers s k) (writers s k)"
    using f i p' by (cases "k = i") (auto simp: pipe_fits_def)
qed

lemma proc_fd_index:
  "kernel_ok s \<Longrightarrow> proc_fd s pid fd = Some (FdPipeRead i) \<Longrightarrow> i < 4"
  "kernel_ok s \<Longrightarrow> proc_fd s pid fd = Some (FdPipeWrite i) \<Longrightarrow> i < 4"
proof -
  have "entry_ok_fd (Some e)" if "kernel_ok s" "proc_fd s pid fd = Some e" for e
    using that(2)
  proof (rule proc_fd_Some)
    fix p assume p: "get_proc s pid = Some p" "fd < length (fds p)" "fds p ! fd = Some e"
    have "entry_ok_fd (fds p ! fd)" using kernel_proc_ok [OF that(1) p(1)] p(2) by (simp add: proc_ok_def)
    then show "entry_ok_fd (Some e)" using p(3) by simp
  qed
  then show "kernel_ok s \<Longrightarrow> proc_fd s pid fd = Some (FdPipeRead i) \<Longrightarrow> i < 4"
    "kernel_ok s \<Longrightarrow> proc_fd s pid fd = Some (FdPipeWrite i) \<Longrightarrow> i < 4"
    by (fastforce simp: entry_ok_fd_def)+
qed

lemma pipe_fits_ok: "kernel_ok s \<Longrightarrow> i < 4 \<Longrightarrow> pipes s ! i = Some p \<Longrightarrow> pipe_ok p"
  by (auto simp: kernel_ok_def fd_ok_def pipe_fits_def dest!: spec [of _ i])

lemma ring_opens: "ring_read p n = (a, p') \<Longrightarrow> read_open p' = read_open p \<and> write_open p' = write_open p"
  "ring_write p d = (b, p') \<Longrightarrow> read_open p' = read_open p \<and> write_open p' = write_open p"
  by (auto simp: ring_read_def ring_write_def Let_def)

lemma pipe_read_ok: "kernel_ok s \<Longrightarrow> pipe_read pid fd n s = (r, s') \<Longrightarrow> kernel_ok s'"
  using proc_fd_index(1) [of s pid fd] ring_read_spec(1) ring_opens(1) pipe_fits_ok [of s]
  by (fastforce simp: pipe_read_def intro!: kernel_ok_one_pipe split: option.splits fd_entry.splits prod.splits)

lemma pipe_write_ok: "kernel_ok s \<Longrightarrow> pipe_write pid fd d s = (r, s') \<Longrightarrow> kernel_ok s'"
  using proc_fd_index(2) [of s pid fd] ring_write_spec(1) ring_opens(2) pipe_fits_ok [of s]
  by (fastforce simp: pipe_write_def intro!: kernel_ok_one_pipe split: option.splits fd_entry.splits prod.splits)

lemma read_fd_ok: "kernel_ok s \<Longrightarrow> read_fd pid fd n s = (r, s') \<Longrightarrow> kernel_ok s'"
  using on_file_ok [of s pid fd "file_read n" _ s'] pipe_read_ok [of s pid fd n r s'] file_read_ok
  by (auto simp: read_fd_def split: option.splits fd_entry.splits prod.splits)

lemma write_fd_ok: "kernel_ok s \<Longrightarrow> write_fd pid fd d s = (r, s') \<Longrightarrow> kernel_ok s'"
  using on_file_ok [of s pid fd "file_write d" _ s'] pipe_write_ok [of s pid fd d r s'] file_write_ok
  by (auto simp: write_fd_def split: option.splits fd_entry.splits prod.splits)

section \<open>Moving pipe ends\<close>

text \<open>
  \<open>owed e s\<close>: the counts of \<open>s\<close> are right except that they already (or still) include one end
  \<open>e\<close> that no table holds.
\<close>

definition owed :: "fd_entry \<Rightarrow> kstate \<Rightarrow> bool" where
  "owed e s \<longleftrightarrow> ids_ok s \<and> length (pipes s) = 4 \<and> (\<forall>pid p. get_proc s pid = Some p \<longrightarrow> proc_ok p)
     \<and> (\<forall>i < 4. pipe_fits (pipes s ! i) (readers s i + of_bool (e = FdPipeRead i))
                                       (writers s i + of_bool (e = FdPipeWrite i)))"

lemma owed_file: "owed (FdFile f) s \<longleftrightarrow> fd_ok s"
  by (simp add: owed_def fd_ok_def)

lemma take_fd_owed:
  assumes ok: "fd_ok s" and p: "get_proc s pid = Some p" "fd < length (fds p)" "fds p ! fd = Some e"
  shows "owed e (put_fd pid fd None p s)"
proof -
  have ids: "ids_ok s" using ok by (simp add: fd_ok_def)
  have pok: "proc_ok p" using ok p(1) by (simp add: fd_ok_def)
  note t = total_ends_put_fd [OF ids p(1,2), where x = None, unfolded p(3)]
  have r: "readers (put_fd pid fd None p s) i + of_bool (e = FdPipeRead i) = readers s i" for i
    using t [of "FdPipeRead i"] by simp
  have w: "writers (put_fd pid fd None p s) i + of_bool (e = FdPipeWrite i) = writers s i" for i
    using t [of "FdPipeWrite i"] by simp
  have "proc_ok (p\<lparr>fds := (fds p)[fd := None]\<rparr>)"
    by (rule proc_ok_put [OF pok]) (simp add: entry_ok_fd_def)
  from fd_ok_procs [OF ok p(1) this] ok show ?thesis
    unfolding owed_def r w by (simp add: put_fd_def fd_ok_def)
qed

lemma give_fd_ok:
  assumes ow: "owed e s" and p: "get_proc s pid = Some p" "fd < length (fds p)" "fds p ! fd = None"
    and e: "entry_ok_fd (Some e)"
  shows "fd_ok (put_fd pid fd (Some e) p s)"
proof -
  have ids: "ids_ok s" using ow by (simp add: owed_def)
  have pok: "proc_ok p" using ow p(1) by (simp add: owed_def)
  note t = total_ends_put_fd [OF ids p(1,2), where x = "Some e", unfolded p(3)]
  have r: "readers (put_fd pid fd (Some e) p s) i = readers s i + of_bool (e = FdPipeRead i)" for i
    using t [of "FdPipeRead i"] by simp
  have w: "writers (put_fd pid fd (Some e) p s) i = writers s i + of_bool (e = FdPipeWrite i)" for i
    using t [of "FdPipeWrite i"] by simp
  have q: "proc_ok (p\<lparr>fds := (fds p)[fd := Some e]\<rparr>)" by (rule proc_ok_put [OF pok e])
  have procs: "proc_ok x" if "get_proc (put_fd pid fd (Some e) p s) i = Some x" for i x
    using that q ow get_set_proc [OF ids p(1)] by (auto simp: put_fd_def owed_def split: if_splits)
  show ?thesis
    using ow procs unfolding fd_ok_def r w by (auto simp: put_fd_def owed_def)
qed

lemma pipe_fits_unref:
  assumes "pipe_fits (Some q) (r + of_bool a) (w + of_bool b)"
  shows "a \<Longrightarrow> \<not> b \<Longrightarrow> pipe_fits (drop_if_unused (q\<lparr>read_open := read_open q - 1\<rparr>)) r w"
    and "b \<Longrightarrow> \<not> a \<Longrightarrow> pipe_fits (drop_if_unused (q\<lparr>write_open := write_open q - 1\<rparr>)) r w"
  using assms by (auto simp: pipe_fits_def drop_if_unused_def pipe_ok_def)

lemma owedD:
  assumes "owed e s" "i < 4"
  shows "pipe_fits (pipes s ! i) (readers s i + of_bool (e = FdPipeRead i)) (writers s i + of_bool (e = FdPipeWrite i))"
  using assms by (auto simp: owed_def)

lemma unref_ok:
  assumes ow: "owed e s" and idx: "entry_ok_fd (Some e)"
  shows "fd_ok (unref_pipe e s)"
proof (cases e)
  case (FdFile f)
  with ow show ?thesis by (simp add: owed_file unref_pipe_def)
next
  case (FdPipeRead i)
  have i: "i < 4" using idx FdPipeRead by (simp add: entry_ok_fd_def)
  obtain q where q: "pipes s ! i = Some q"
    using owedD [OF ow i] FdPipeRead by (cases "pipes s ! i") (auto simp: pipe_fits_def)
  have u: "unref_pipe e s = s\<lparr>pipes := (pipes s)[i := drop_if_unused (q\<lparr>read_open := read_open q - 1\<rparr>)]\<rparr>"
    by (simp add: unref_pipe_def FdPipeRead q)
  have "pipe_fits ((pipes s)[i := drop_if_unused (q\<lparr>read_open := read_open q - 1\<rparr>)] ! k) (readers s k) (writers s k)"
    if "k < 4" for k
    using owedD [OF ow that] pipe_fits_unref(1) [of q "readers s i" True "writers s i" False] FdPipeRead q i ow
    by (cases "k = i") (auto simp: owed_def)
  then show ?thesis using ow by (simp add: u fd_ok_def owed_def ids_ok_def)
next
  case (FdPipeWrite i)
  have i: "i < 4" using idx FdPipeWrite by (simp add: entry_ok_fd_def)
  obtain q where q: "pipes s ! i = Some q"
    using owedD [OF ow i] FdPipeWrite by (cases "pipes s ! i") (auto simp: pipe_fits_def)
  have u: "unref_pipe e s = s\<lparr>pipes := (pipes s)[i := drop_if_unused (q\<lparr>write_open := write_open q - 1\<rparr>)]\<rparr>"
    by (simp add: unref_pipe_def FdPipeWrite q)
  have "pipe_fits ((pipes s)[i := drop_if_unused (q\<lparr>write_open := write_open q - 1\<rparr>)] ! k) (readers s k) (writers s k)"
    if "k < 4" for k
    using owedD [OF ow that] pipe_fits_unref(2) [of q "readers s i" False "writers s i" True] FdPipeWrite q i ow
    by (cases "k = i") (auto simp: owed_def)
  then show ?thesis using ow by (simp add: u fd_ok_def owed_def ids_ok_def)
qed

lemma fd_okD: "fd_ok s \<Longrightarrow> i < 4 \<Longrightarrow> pipe_fits (pipes s ! i) (readers s i) (writers s i)"
  by (auto simp: fd_ok_def)

lemma ref_owed:
  assumes ok: "fd_ok s" and live: "0 < total_ends s e" and idx: "entry_ok_fd (Some e)"
  shows "owed e (ref_pipe e s)"
proof (cases e)
  case (FdFile f)
  with ok show ?thesis by (simp add: owed_file ref_pipe_def)
next
  case (FdPipeRead i)
  have i: "i < 4" using idx FdPipeRead by (simp add: entry_ok_fd_def)
  obtain q where q: "pipes s ! i = Some q" "read_open q = readers s i"
    using fd_okD [OF ok i] FdPipeRead live by (cases "pipes s ! i") (auto simp: pipe_fits_def)
  have "readers s i \<le> 44" by (rule total_ends_bound [OF ok])
  with q have u: "ref_pipe e s = s\<lparr>pipes := (pipes s)[i := Some (q\<lparr>read_open := readers s i + 1\<rparr>)]\<rparr>"
    by (simp add: ref_pipe_def FdPipeRead)
  have "pipe_fits ((pipes s)[i := Some (q\<lparr>read_open := readers s i + 1\<rparr>)] ! k) (readers s k + of_bool (i = k)) (writers s k)"
    if "k < 4" for k
    using fd_okD [OF ok that] q i ok by (cases "k = i") (auto simp: pipe_fits_def pipe_ok_def fd_ok_def)
  then show ?thesis unfolding u owed_def using ok by (simp add: fd_ok_def ids_ok_def FdPipeRead)
next
  case (FdPipeWrite i)
  have i: "i < 4" using idx FdPipeWrite by (simp add: entry_ok_fd_def)
  obtain q where q: "pipes s ! i = Some q" "write_open q = writers s i"
    using fd_okD [OF ok i] FdPipeWrite live by (cases "pipes s ! i") (auto simp: pipe_fits_def)
  have "writers s i \<le> 44" by (rule total_ends_bound [OF ok])
  with q have u: "ref_pipe e s = s\<lparr>pipes := (pipes s)[i := Some (q\<lparr>write_open := writers s i + 1\<rparr>)]\<rparr>"
    by (simp add: ref_pipe_def FdPipeWrite)
  have "pipe_fits ((pipes s)[i := Some (q\<lparr>write_open := writers s i + 1\<rparr>)] ! k) (readers s k) (writers s k + of_bool (i = k))"
    if "k < 4" for k
    using fd_okD [OF ok that] q i ok by (cases "k = i") (auto simp: pipe_fits_def pipe_ok_def fd_ok_def)
  then show ?thesis unfolding u owed_def using ok by (simp add: fd_ok_def ids_ok_def FdPipeWrite)
qed

lemma ref_pipe_simps [simp]:
  "get_proc (ref_pipe e s) pid = get_proc s pid" "kdisk (ref_pipe e s) = kdisk s"
  by (simp_all add: ref_pipe_def split: fd_entry.split option.split)

lemma unref_pipe_simps [simp]:
  "get_proc (unref_pipe e s) pid = get_proc s pid" "kdisk (unref_pipe e s) = kdisk s"
  by (simp_all add: unref_pipe_def split: fd_entry.split option.split)

lemma held_entry_ok: "fd_ok s \<Longrightarrow> get_proc s pid = Some p \<Longrightarrow> fd < length (fds p) \<Longrightarrow> fds p ! fd = Some e
    \<Longrightarrow> entry_ok_fd (Some e)"
  using nth_mem [of fd "fds p"] by (auto simp: fd_ok_def proc_ok_def)

lemma close_fd_ok: "kernel_ok s \<Longrightarrow> close_fd pid fd s = (r, s') \<Longrightarrow> kernel_ok s'"
proof -
  assume ok: "kernel_ok s" and run: "close_fd pid fd s = (r, s')"
  have fo: "fd_ok s" "fs_ok (kdisk s)" using ok by (auto simp: kernel_ok_def)
  show ?thesis
  proof (cases "proc_fd s pid fd")
    case None
    then have "s' = s" using run by (auto simp: close_fd_def proc_fd_def split: option.splits)
    with ok show ?thesis by simp
  next
    case (Some e)
    then obtain p where p: "get_proc s pid = Some p" "fd < length (fds p)" "fds p ! fd = Some e"
      by (rule proc_fd_Some)
    let ?s1 = "put_fd pid fd None p s"
    have ow: "owed e ?s1" by (rule take_fd_owed [OF fo(1) p])
    have eok: "entry_ok_fd (Some e)" by (rule held_entry_ok [OF fo(1) p])
    have d1: "kdisk ?s1 = kdisk s" by (simp add: put_fd_def)
    have run1: "(case e of
           FdFile f \<Rightarrow> if \<not> f_dirty f then (Some True, ?s1)
                      else (case write_file (kdisk ?s1) (f_path f) (f_buffer f) of
                              (Inr _, d) \<Rightarrow> (Some True, ?s1\<lparr>kdisk := d\<rparr>)
                            | (Inl _, d) \<Rightarrow> (Some False, ?s1\<lparr>kdisk := d\<rparr>))
         | _ \<Rightarrow> (Some True, unref_pipe e ?s1)) = (r, s')"
      unfolding put_fd_def using run p by (simp add: close_fd_def fd_at_def Let_def)
    show ?thesis
    proof (cases e)
      case (FdFile f)
      obtain x d where w: "write_file (kdisk s) (f_path f) (f_buffer f) = (x, d)" by fastforce
      have "fs_ok d" using write_file_abs [OF fo(2) w] by blast
      then show ?thesis
        using run1 ow FdFile fo(2) w d1
        by (cases x) (auto simp: kernel_ok_def owed_file split: if_splits)
    qed (use run1 unref_ok [OF ow eok] fo(2) d1 in \<open>auto simp: kernel_ok_def\<close>)
  qed
qed

lemma free_slot:
  "position (\<lambda>f. f = None) t = Some i \<Longrightarrow> i < length t \<and> t ! i = None"
  by (auto dest: position_SomeD)

text \<open>
  \<open>dup_fd\<close> takes the new reference before it looks for a free slot, so the invariant needs one
  to be there (or the descriptor not to be a pipe end).
\<close>

lemma dup_fd_ok:
  assumes ok: "kernel_ok s" and run: "dup_fd pid fd s = (r, s')"
    and room: "\<And>p. get_proc s pid = Some p \<Longrightarrow> None \<in> set (fds p)"
  shows "kernel_ok s'"
proof (cases "proc_fd s pid fd")
  case None
  with run ok show ?thesis by (simp add: dup_fd_def)
next
  case (Some e)
  have fo: "fd_ok s" "fs_ok (kdisk s)" using ok by (auto simp: kernel_ok_def)
  obtain p where p: "get_proc s pid = Some p" "fd < length (fds p)" "fds p ! fd = Some e"
    using Some by (rule proc_fd_Some)
  have eok: "entry_ok_fd (Some e)" by (rule held_entry_ok [OF fo(1) p])
  have ow: "owed e (ref_pipe e s)" by (rule ref_owed [OF fo(1) total_ends_pos [OF p] eok])
  obtain i where i: "position (\<lambda>f. f = None) (fds p) = Some i"
    using room [OF p(1)] by (cases "position (\<lambda>f. f = None) (fds p)") (auto simp: position_None)
  have "s' = put_fd pid i (Some e) p (ref_pipe e s)"
    using run Some p(1) i by (auto simp: dup_fd_def with_process_mut_def put_fd_def)
  then show ?thesis
    using give_fd_ok [OF ow _ _ _ eok, of pid p i] p(1) free_slot [OF i] fo(2)
    by (simp add: kernel_ok_def put_fd_def)
qed

lemma dup2_fd_ok:
  assumes ok: "kernel_ok s" and run: "dup2_fd pid fd newfd s = (r, s')"
  shows "kernel_ok s'"
proof (cases "fd = newfd \<or> 4 \<le> newfd \<or> proc_fd s pid fd = None")
  case True
  with run ok show ?thesis by (auto simp: dup2_fd_def split: if_splits)
next
  case False
  then obtain e where e: "proc_fd s pid fd = Some e" and ne: "fd \<noteq> newfd" "newfd < 4" by auto
  obtain p where p: "get_proc s pid = Some p" "fd < length (fds p)" "fds p ! fd = Some e"
    using e by (rule proc_fd_Some)
  have len: "length (fds p) = 4" using kernel_proc_ok [OF ok p(1)] by (simp add: proc_ok_def)
  obtain x s1 where c: "(case proc_fd s pid newfd of None \<Rightarrow> (Some True, s) | Some _ \<Rightarrow> close_fd pid newfd s) = (x, s1)"
    by fastforce
  have ok1: "kernel_ok s1"
    using c ok close_fd_ok [of s pid newfd x s1] by (auto split: option.splits)
  have p1: "\<exists>p1. get_proc s1 pid = Some p1 \<and> fds p1 ! fd = Some e \<and> fds p1 ! newfd = None \<and> length (fds p1) = 4"
  proof (cases "proc_fd s pid newfd")
    case None
    then show ?thesis using c p len ne by (auto simp: proc_fd_def fd_at_def)
  next
    case (Some e')
    then have at: "fd_at (fds p) newfd = Some e'" using p(1) by (simp add: proc_fd_def)
    have "get_proc s1 pid = Some (p\<lparr>fds := (fds p)[newfd := None]\<rparr>)"
      using c Some p(1) at ok get_set_proc [of s pid p "p\<lparr>fds := (fds p)[newfd := None]\<rparr>" pid]
      by (auto simp: close_fd_def Let_def kernel_ok_def fd_ok_def
          split: fd_entry.splits if_splits prod.splits sum.splits)
    then show ?thesis using p(3) ne len by simp
  qed
  then obtain p1 where p1: "get_proc s1 pid = Some p1" "fds p1 ! fd = Some e" "fds p1 ! newfd = None"
    "length (fds p1) = 4" by blast
  have fo: "fd_ok s1" "fs_ok (kdisk s1)" using ok1 by (auto simp: kernel_ok_def)
  have f4: "fd < length (fds p1)" "newfd < length (fds p1)" using p(2) len p1(4) ne by auto
  have eok: "entry_ok_fd (Some e)" by (rule held_entry_ok [OF fo(1) p1(1) f4(1) p1(2)])
  have ow: "owed e (ref_pipe e s1)"
    by (rule ref_owed [OF fo(1) total_ends_pos [OF p1(1) f4(1) p1(2)] eok])
  show ?thesis
  proof (cases x)
    case None
    then show ?thesis using run e ne c ok1 by (simp add: dup2_fd_def)
  next
    case (Some b)
    then have "s' = put_fd pid newfd (Some e) p1 (ref_pipe e s1)"
      using run e ne c p1(1) by (simp add: dup2_fd_def with_process_mut_def put_fd_def)
    then show ?thesis
      using give_fd_ok [OF ow _ f4(2) p1(3) eok, of pid] p1(1) fo(2) by (simp add: kernel_ok_def put_fd_def)
  qed
qed

lemma free_slots_two:
  assumes "free_slots t = r # w # rest"
  shows "r < length t" "w < length t" "t ! r = None" "t ! w = None" "r \<noteq> w"
proof -
  have "set (free_slots t) = {i. i < length t \<and> t ! i = None}" "distinct (free_slots t)"
    by (auto simp: free_slots_def)
  with assms show "r < length t" "w < length t" "t ! r = None" "t ! w = None" "r \<noteq> w" by auto
qed

text \<open>\<open>pipe_create\<close> frees the slot it took when the table has no room, but not when there is no process.\<close>

lemma pipe_create_ok:
  assumes ok: "kernel_ok s" and run: "pipe_create pid s = (r, s')" and live: "get_proc s pid \<noteq> None"
  shows "kernel_ok s'"
proof (cases "position (\<lambda>p. p = None) (pipes s)")
  case None
  with run ok show ?thesis by (simp add: pipe_create_def)
next
  case (Some i)
  note i = free_slot [OF Some]
  have fo: "fd_ok s" "fs_ok (kdisk s)" using ok by (auto simp: kernel_ok_def)
  have i4: "i < 4" using i fo(1) by (simp add: fd_ok_def)
  have zero: "readers s i = 0" "writers s i = 0"
    using fd_okD [OF fo(1) i4] i by (auto simp: pipe_fits_def)
  let ?s1 = "s\<lparr>pipes := (pipes s)[i := Some new_pipe]\<rparr>"
  obtain p where p: "get_proc s pid = Some p" using live by auto
  have pok: "proc_ok p" by (rule kernel_proc_ok [OF ok p])
  show ?thesis
  proof (cases "\<exists>a b rest. free_slots (fds p) = a # b # rest")
    case False
    then have "s' = set_proc pid p ?s1\<lparr>pipes := (pipes ?s1)[i := None]\<rparr>"
      using run Some p by (auto simp: pipe_create_def with_process_mut_def Let_def split: list.splits)
    moreover have "set_proc pid p ?s1\<lparr>pipes := (pipes ?s1)[i := None]\<rparr> = set_proc pid p s"
      using i by (auto simp: set_proc_def list_update_same_conv [symmetric])
    ultimately show ?thesis using ok p pok by (auto intro: kernel_ok_set_same)
  next
    case True
    then obtain a b rest where ab: "free_slots (fds p) = a # b # rest" by blast
    note f = free_slots_two [OF ab]
    let ?p' = "p\<lparr>fds := (fds p)[a := Some (FdPipeRead i), b := Some (FdPipeWrite i)]\<rparr>"
    have s': "s' = set_proc pid ?p' ?s1"
      using run Some p ab by (auto simp: pipe_create_def with_process_mut_def Let_def)
    have p'ok: "proc_ok ?p'"
      using proc_ok_put [OF proc_ok_put [OF pok, of "Some (FdPipeRead i)" a], of "Some (FdPipeWrite i)" b] i4
      by (simp add: entry_ok_fd_def)
    have ends: "ends_in e (fds ?p') = ends_in e (fds p) + of_bool (e = FdPipeRead i) + of_bool (e = FdPipeWrite i)"
      for e
      using ends_in_update [of a "fds p" e "Some (FdPipeRead i)"] f
        ends_in_update [of b "(fds p)[a := Some (FdPipeRead i)]" e "Some (FdPipeWrite i)"]
      by auto
    have ids: "ids_ok ?s1" using fo(1) by (simp add: fd_ok_def ids_ok_def)
    have tot: "total_ends s' e = total_ends s e + of_bool (e = FdPipeRead i) + of_bool (e = FdPipeWrite i)" for e
      using total_ends_set_proc [OF ids, of pid p ?p' e] p ends by (simp add: s')
    have "pipe_fits (pipes s' ! k) (readers s' k) (writers s' k)" if "k < 4" for k
      using fd_okD [OF fo(1) that] zero i unfolding tot
      by (cases "k = i") (auto simp: s' pipe_fits_def new_pipe_def pipe_ok_def)
    moreover have "proc_ok q" if "get_proc s' k = Some q" for k q
      using that get_set_proc [OF ids, of pid p ?p' k] p p'ok fo(1) by (auto simp: s' fd_ok_def split: if_splits)
    ultimately show ?thesis
      using fo ids by (auto simp: kernel_ok_def fd_ok_def s')
  qed
qed

end
