(* ===== verification/Fd_Props.thy ===== *)
theory Fd_Props
  imports Fd_Inv Store
begin

text \<open>
  The properties of descriptors: the reference counts of pipes over any history of operations,
  what a failing \<open>dup\<close> leaks, the open/write/close/read round trip through the disk, and the
  bump heap.
\<close>

section \<open>Any history of descriptor operations\<close>

text \<open>
  \<open>dup\<close> is taken on tables with a free slot and \<open>pipe\<close> for live processes, as system calls of
  the active process are.
\<close>

inductive fd_step :: "kstate \<Rightarrow> kstate \<Rightarrow> bool" where
  step_sbrk: "sbrk pid n s = (r1, s') \<Longrightarrow> fd_step s s'"
| step_open: "open_file pid path s = (r1, s') \<Longrightarrow> fd_step s s'"
| step_read: "read_fd pid fd n s = (r2, s') \<Longrightarrow> fd_step s s'"
| step_write: "write_fd pid fd bs s = (r1, s') \<Longrightarrow> fd_step s s'"
| step_close: "close_fd pid fd s = (r3, s') \<Longrightarrow> fd_step s s'"
| step_dup2: "dup2_fd pid fd fd' s = (r3, s') \<Longrightarrow> fd_step s s'"
| step_dup: "dup_fd pid fd s = (r1, s') \<Longrightarrow> get_proc s pid = Some p \<Longrightarrow> None \<in> set (fds p) \<Longrightarrow> fd_step s s'"
| step_pipe: "pipe_create pid s = (r4, s') \<Longrightarrow> get_proc s pid \<noteq> None \<Longrightarrow> fd_step s s'"

inductive_cases fd_stepE: "fd_step s s'"

lemma fd_step_ok: "fd_step s s' \<Longrightarrow> kernel_ok s \<Longrightarrow> kernel_ok s'"
proof (induction rule: fd_step.induct)
  case (step_dup pid fd s r1 s' p)
  then show ?case using dup_fd_ok [of s pid fd r1 s'] by simp
qed (blast intro: sbrk_ok open_file_ok read_fd_ok write_fd_ok close_fd_ok dup2_fd_ok pipe_create_ok)+

lemma fd_steps_ok: "fd_step\<^sup>*\<^sup>* s s' \<Longrightarrow> kernel_ok s \<Longrightarrow> kernel_ok s'"
  by (induction rule: rtranclp_induct) (auto intro: fd_step_ok)

lemma fd_ok_counts:
  assumes "fd_ok s" "i < 4"
  shows "(pipes s ! i = None \<longleftrightarrow> readers s i = 0 \<and> writers s i = 0)
    \<and> (\<forall>q. pipes s ! i = Some q \<longrightarrow> read_open q = readers s i \<and> write_open q = writers s i)"
  using fd_okD [OF assms] by (cases "pipes s ! i") (auto simp: pipe_fits_def)

section \<open>A running system\<close>

definition demo_proc :: proc where
  "demo_proc = \<lparr>p_label = ''A'', pml4_frame = 0, code_frame = 1, stack_frame = 2, heap_frames = [],
     heap_used = 0, fds = [None, None, None, None], extra_frames = [], parent_pid = None, pending_resume = None\<rparr>"

definition demo_kernel :: kstate where
  "demo_kernel = \<lparr>slots = [1 \<mapsto> demo_proc], ptable = [None, None, None, None], pipes = [None, None, None, None],
     kdisk = blank_disk, mach = demo_machine, active = 1, in_child = False, kernel_pml4 = 0, serial_out = [], fa_locked = False\<rparr>"

definition demo_at :: "nat \<Rightarrow> kstate" where
  "demo_at k = demo_kernel\<lparr>slots := [k \<mapsto> demo_proc]\<rparr>"

lemma get_demo_at: "1 \<le> k \<Longrightarrow> k \<le> 7 \<Longrightarrow> get_proc (demo_at k) pid = (if pid = k then Some demo_proc else None)"
proof -
  have "ptable (demo_at k) = replicate 4 None" by (simp add: demo_at_def demo_kernel_def numeral_eq_Suc)
  moreover assume "1 \<le> k" "k \<le> 7"
  ultimately show ?thesis by (auto simp: get_proc_def) (auto simp: demo_at_def)
qed

lemma demo_at_ok: "1 \<le> k \<Longrightarrow> k \<le> 7 \<Longrightarrow> kernel_ok (demo_at k)"
proof -
  assume k: "1 \<le> k" "k \<le> 7"
  have "total_ends (demo_at k) e = 0" for e
    by (simp add: total_ends_def ends_of_def get_demo_at [OF k] ends_in_def demo_proc_def)
  moreover have "pipes (demo_at k) = replicate 4 None" "length (ptable (demo_at k)) = 4" "kdisk (demo_at k) = blank_disk"
    by (simp_all add: demo_at_def demo_kernel_def numeral_eq_Suc)
  moreover have "proc_ok demo_proc" by (simp add: proc_ok_def demo_proc_def entry_ok_fd_def)
  ultimately show ?thesis
    by (simp add: kernel_ok_def fd_ok_def get_demo_at [OF k] pipe_fits_def blank_ok ids_ok_def)
qed

lemma demo_at_1: "demo_at 1 = demo_kernel"
  by (simp add: demo_at_def demo_kernel_def)

lemma get_demo: "get_proc demo_kernel pid = (if pid = 1 then Some demo_proc else None)"
  using get_demo_at [of 1 pid] unfolding demo_at_1 by simp

lemma demo_kernel_ok: "kernel_ok demo_kernel"
  using demo_at_ok [of 1] unfolding demo_at_1 by simp

text \<open>The same system after process 1 created a pipe.\<close>

definition demo_piped :: kstate where
  "demo_piped = set_proc 1 (demo_proc\<lparr>fds := [Some (FdPipeRead 0), Some (FdPipeWrite 0), None, None]\<rparr>)
     (demo_kernel\<lparr>pipes := [Some new_pipe, None, None, None]\<rparr>)"

lemma demo_piped_run: "pipe_create 1 demo_kernel = (Some (0, 1), demo_piped)"
proof -
  have "free_slots [None, None, None, None] = [0, 1, 2, 3]" by (simp add: free_slots_def upt_rec)
  moreover have "pipes demo_kernel = [None, None, None, None]" "fds demo_proc = [None, None, None, None]"
    by (simp_all add: demo_kernel_def demo_proc_def)
  ultimately show ?thesis
    by (simp add: pipe_create_def with_process_mut_def get_demo demo_piped_def Let_def)
qed

section \<open>Reference counts, and a failing dup that leaks one\<close>

lemma dup_full:
  assumes ok: "kernel_ok s" and p: "get_proc s pid = Some p" "fd < 4" "fds p ! fd = Some (FdPipeRead i)"
    and full: "None \<notin> set (fds p)"
  shows "\<exists>s' q. dup_fd pid fd s = (None, s') \<and> pipes s' ! i = Some q \<and> read_open q = readers s' i + 1"
proof -
  have fo: "fd_ok s" using ok by (simp add: kernel_ok_def)
  have len: "length (fds p) = 4" using kernel_proc_ok [OF ok p(1)] by (simp add: proc_ok_def)
  have pf: "proc_fd s pid fd = Some (FdPipeRead i)" using p len by (simp add: proc_fd_def fd_at_def)
  have i: "i < 4" by (rule proc_fd_index(1) [OF ok pf])
  have live: "0 < readers s i" using total_ends_pos [of s pid p fd] p len by simp
  obtain q where q: "pipes s ! i = Some q" "read_open q = readers s i"
    using fd_okD [OF fo i] live by (cases "pipes s ! i") (auto simp: pipe_fits_def)
  have none: "position (\<lambda>f. f = None) (fds p) = None" using full by (auto simp: position_None) (metis option.exhaust)
  have ids: "ids_ok (ref_pipe (FdPipeRead i) s)" "length (pipes s) = 4"
    using fo by (auto simp: fd_ok_def ids_ok_def ref_pipe_def split: option.split)
  have gp: "get_proc (ref_pipe (FdPipeRead i) s) pid = Some p" using p(1) by simp
  let ?s' = "set_proc pid p (ref_pipe (FdPipeRead i) s)"
  have "dup_fd pid fd s = (None, ?s')" using pf gp none by (simp add: dup_fd_def with_process_mut_def)
  moreover have "pipes ?s' ! i = Some (q\<lparr>read_open := readers s i + 1\<rparr>)"
    using q i ids(2) total_ends_bound [OF fo, of "FdPipeRead i"] by (simp add: ref_pipe_def)
  moreover have "readers ?s' i = readers s i"
    using total_ends_set_proc [OF ids(1) gp, of p "FdPipeRead i"] q(1) by (simp add: ref_pipe_def)
  ultimately show ?thesis by auto
qed
text \<open>Process 1 with two pipes, its table full.\<close>

definition demo_full :: kstate where
  "demo_full = set_proc 1 (demo_proc\<lparr>fds := [Some (FdPipeRead 0), Some (FdPipeWrite 0), Some (FdPipeRead 1), Some (FdPipeWrite 1)]\<rparr>)
     (demo_kernel\<lparr>pipes := [Some new_pipe, Some new_pipe, None, None]\<rparr>)"

lemma get_demo_set [simp]:
  "get_proc (set_proc (Suc 0) p (demo_kernel\<lparr>pipes := ps\<rparr>)) pid = (if pid = 1 then Some p else None)"
proof -
  have "ids_ok (demo_kernel\<lparr>pipes := ps\<rparr>)" by (simp add: ids_ok_def demo_kernel_def)
  moreover have "get_proc (demo_kernel\<lparr>pipes := ps\<rparr>) 1 = Some demo_proc" by (simp add: get_demo)
  ultimately have "get_proc (set_proc 1 p (demo_kernel\<lparr>pipes := ps\<rparr>)) pid
      = (if pid = 1 then Some p else get_proc (demo_kernel\<lparr>pipes := ps\<rparr>) pid)"
    by (rule get_set_proc)
  then show ?thesis by (simp add: get_demo)
qed



lemma demo_full_run: "pipe_create 1 demo_piped = (Some (2, 3), demo_full)"
proof -
  have "free_slots [Some (FdPipeRead 0), Some (FdPipeWrite 0), None, None] = [2, 3]"
    by (simp add: free_slots_def upt_rec)
  moreover have "pipes demo_piped = [Some new_pipe, None, None, None]" by (simp add: demo_piped_def)
  moreover have "set_proc 1 b (set_proc 1 a s) = set_proc 1 b s" for a b s by (simp add: set_proc_def)
  moreover have "(set_proc 1 a s)\<lparr>pipes := x\<rparr> = set_proc 1 a (s\<lparr>pipes := x\<rparr>)" for a s x
    by (simp add: set_proc_def)
  ultimately show ?thesis
    by (simp add: pipe_create_def with_process_mut_def demo_full_def demo_piped_def Let_def)
qed

text \<open>
  \<open>dup\<close> on a full table leaks.  When the descriptor is a pipe's read end and the table has no
  free slot, \<open>dup_fd\<close> reports failure but has already counted a new read end: the pipe's counter
  exceeds the number of read ends that exist, so the pipe is never freed.
\<close>

theorem dup_full_leaks:
  assumes "kernel_ok s" "get_proc s pid = Some p" "fd < 4" "fds p ! fd = Some (FdPipeRead i)"
    "None \<notin> set (fds p)"
  shows "\<exists>s' q. dup_fd pid fd s = (None, s') \<and> pipes s' ! i = Some q \<and> read_open q = readers s' i + 1"
  using dup_full [OF assms] .

theorem dup_full_leaks_witness:
  "\<exists>s' q. dup_fd 1 2 demo_full = (None, s') \<and> pipes s' ! 1 = Some q \<and> read_open q = readers s' 1 + 1"
proof -
  have "kernel_ok demo_piped" by (rule pipe_create_ok [OF demo_kernel_ok demo_piped_run]) (simp add: get_demo)
  then have "kernel_ok demo_full" by (rule pipe_create_ok [OF _ demo_full_run]) (simp add: demo_piped_def)
  from dup_full_leaks [OF this, of 1 _ 2 1] show ?thesis by (simp add: demo_full_def)
qed

section \<open>A file session\<close>

lemma get_set [simp]: "ids_ok s \<Longrightarrow> get_proc s pid = Some p \<Longrightarrow> get_proc (set_proc pid p' s) i = (if i = pid then Some p' else get_proc s i)"
  by (rule get_set_proc)

lemma set_set_proc: "ids_ok s \<Longrightarrow> set_proc pid a (set_proc pid b s) = set_proc pid a s"
  by (simp add: set_proc_def)

definition old_bytes :: "kstate \<Rightarrow> bytes \<Rightarrow> bytes" where
  "old_bytes s path = (case fs_load (kdisk s) path of None \<Rightarrow> [] | Some b \<Rightarrow> b)"

definition opened :: "bytes \<Rightarrow> bytes \<Rightarrow> fd_entry" where
  "opened path buf = FdFile \<lparr>f_path = path, f_buffer = buf, f_pos = 0, f_dirty = False\<rparr>"

lemma open_file_run:
  assumes "open_file pid path s = (Some fd, s1)"
  obtains p where "get_proc s pid = Some p" "fd < length (fds p)" "fds p ! fd = None"
    "s1 = set_proc pid (p\<lparr>fds := (fds p)[fd := Some (opened path (old_bytes s path))]\<rparr>) s"
proof -
  have b: "(case read_file (kdisk s) path of Inr data \<Rightarrow> data | Inl _ \<Rightarrow> []) = old_bytes s path"
    by (simp add: old_bytes_def fs_load_def split: sum.split)
  obtain p where p: "get_proc s pid = Some p"
    using assms by (cases "get_proc s pid") (simp_all add: open_file_def with_process_mut_def)
  obtain i where i: "position (\<lambda>f. f = None) (fds p) = Some i"
    using assms p by (cases "position (\<lambda>f. f = None) (fds p)")
      (simp_all add: open_file_def with_process_mut_def open_file_at_def)
  then have "fd = i" "s1 = set_proc pid (p\<lparr>fds := (fds p)[i := Some (opened path (old_bytes s path))]\<rparr>) s"
    using assms p by (auto simp: open_file_def with_process_mut_def open_file_at_def b opened_def)
  with that p free_slot [OF i] show ?thesis by blast
qed

lemma write_fd_file:
  assumes "get_proc s pid = Some p" "fd < length (fds p)" "fds p ! fd = Some (FdFile f)"
  shows "write_fd pid fd data s = (Some (fst (file_write data f)),
           set_proc pid (p\<lparr>fds := (fds p)[fd := Some (FdFile (snd (file_write data f)))]\<rparr>) s)"
  using assms by (simp add: write_fd_def fd_at_def with_process_mut_def on_file_def split: prod.split)

lemma close_fd_dirty:
  assumes "get_proc s pid = Some p" "fd < length (fds p)" "fds p ! fd = Some (FdFile f)" "f_dirty f"
  shows "close_fd pid fd s = (Some (fst (fs_save (kdisk s) (f_path f) (f_buffer f))),
           set_proc pid (p\<lparr>fds := (fds p)[fd := None]\<rparr>) s
             \<lparr>kdisk := snd (fs_save (kdisk s) (f_path f) (f_buffer f))\<rparr>)"
  using assms by (auto simp: close_fd_def fd_at_def Let_def fs_save_def split: prod.split sum.split)

lemma file_write_opened:
  assumes "length buf \<le> 4096"
  shows "file_write data \<lparr>f_path = path, f_buffer = buf, f_pos = 0, f_dirty = False\<rparr>
    = (min (length data) 4096, \<lparr>f_path = path,
        f_buffer = take 4096 data @ drop (min (length data) 4096) buf,
        f_pos = min (length data) 4096, f_dirty = True\<rparr>)"
  by (simp add: file_write_def Let_def splice_def min_def)

text \<open>
  C18. A file session round-trips through the disk.  A process that opens a path, writes, and
  closes with success finds the file on disk holding the bytes written over the start of what it
  held before; every other file reads as before, and all processes' descriptor tables and all
  pipes are as they were.
\<close>

theorem fd_round_trip:
  assumes ok: "kernel_ok s" and opn: "open_file pid path s = (Some fd, s1)"
    and wrt: "write_fd pid fd data s1 = (Some n, s2)" and cls: "close_fd pid fd s2 = (Some True, s3)"
  shows "n = min (length data) 4096 \<and> fs_load (kdisk s3) path = Some (take n data @ drop n (old_bytes s path))
    \<and> (\<forall>q b. \<not> same_name path q \<and> fs_load (kdisk s) q = Some b \<longrightarrow> fs_load (kdisk s3) q = Some b)
    \<and> (\<forall>i. get_proc s3 i = get_proc s i) \<and> pipes s3 = pipes s \<and> kernel_ok s3"
proof -
  let ?n = "min (length data) 4096" and ?old = "old_bytes s path"
  obtain p where p: "get_proc s pid = Some p" "fd < length (fds p)" "fds p ! fd = None"
    and s1: "s1 = set_proc pid (p\<lparr>fds := (fds p)[fd := Some (opened path ?old)]\<rparr>) s"
    using opn by (rule open_file_run)
  have ids: "ids_ok s" and fs: "fs_ok (kdisk s)" using ok by (auto simp: kernel_ok_def fd_ok_def)
  have "length ?old \<le> 4096"
    using read_file_bounded [OF fs] by (auto simp: old_bytes_def fs_load_Some split: option.split)
  note fw = file_write_opened [OF this, of data path]
  let ?buf = "take 4096 data @ drop ?n ?old"
  let ?f = "FdFile \<lparr>f_path = path, f_buffer = ?buf, f_pos = ?n, f_dirty = True\<rparr>"
  have s2: "n = ?n" "s2 = set_proc pid (p\<lparr>fds := (fds p)[fd := Some ?f]\<rparr>) s"
    using wrt write_fd_file [of s1 pid _ fd _ data] p ids s1 fw by (auto simp: opened_def set_set_proc)
  have s3: "fs_save (kdisk s) path ?buf = (True, kdisk s3)" "s3 = set_proc pid p s\<lparr>kdisk := kdisk s3\<rparr>"
  proof -
    have upd: "(fds p)[fd := None] = fds p" using p(2,3) by (simp add: list_update_same_conv)
    have "fst (fs_save (kdisk s) path ?buf)" "s3 = set_proc pid p s\<lparr>kdisk := snd (fs_save (kdisk s) path ?buf)\<rparr>"
      using cls close_fd_dirty [of s2 pid _ fd] p ids s2(2) by (simp_all add: set_set_proc upd)
    then show "fs_save (kdisk s) path ?buf = (True, kdisk s3)" "s3 = set_proc pid p s\<lparr>kdisk := kdisk s3\<rparr>"
      by (simp_all add: prod_eq_iff)
  qed
  have "kernel_ok s3" using fd_steps_ok [of s s3] ok step_open [OF opn] step_write [OF wrt] step_close [OF cls]
    by (meson converse_rtranclp_into_rtranclp rtranclp.rtrancl_refl)
  moreover have "get_proc s3 i = get_proc s i" for i
    using get_set [OF ids p(1), of p i] p(1) by (subst s3(2)) simp
  moreover have "pipes s3 = pipes s" by (subst s3(2)) simp
  moreover have "take ?n data = take 4096 data" by (simp add: min_def)
  ultimately show ?thesis
    using s2(1) fs_store.wr_same [OF fs s3(1)] fs_store.wr_other [OF fs s3(1)] by simp
qed

text \<open>On a formatted disk a session on a new file of one name runs through.\<close>

lemma demo_session:
  assumes "length data \<le> 4096"
  obtains s1 s2 s3 where "open_file 1 demo_path demo_kernel = (Some 0, s1)"
    "write_fd 1 0 data s1 = (Some (length data), s2)" "close_fd 1 0 s2 = (Some True, s3)"
proof -
  have kd: "kdisk demo_kernel = blank_disk" "ids_ok demo_kernel" by (simp_all add: demo_kernel_def ids_ok_def)
  have old: "read_file blank_disk demo_path = Inl NoSuchFile" by (rule read_blank)
  let ?s1 = "set_proc 1 (demo_proc\<lparr>fds := [Some (opened demo_path []), None, None, None]\<rparr>) demo_kernel"
  let ?f = "FdFile \<lparr>f_path = demo_path, f_buffer = data, f_pos = length data, f_dirty = True\<rparr>"
  let ?s2 = "set_proc 1 (demo_proc\<lparr>fds := [Some ?f, None, None, None]\<rparr>) demo_kernel"
  have p0: "get_proc demo_kernel 1 = Some demo_proc" by (simp add: get_demo)
  have "open_file 1 demo_path demo_kernel = (Some 0, ?s1)"
    using p0 by (simp add: open_file_def with_process_mut_def open_file_at_def kd old get_demo demo_proc_def opened_def)
  moreover have "get_proc ?s1 1 = Some (demo_proc\<lparr>fds := [Some (opened demo_path []), None, None, None]\<rparr>)"
    using get_set [OF kd(2) p0] by simp
  then have "write_fd 1 0 data ?s1 = (Some (length data), ?s2)"
    using write_fd_file [of ?s1 1 _ 0 _ data] file_write_opened [of "[]" data demo_path] assms
    by (simp add: opened_def set_set_proc [OF kd(2)] min_def)
  moreover have p2: "get_proc ?s2 1 = Some (demo_proc\<lparr>fds := [Some ?f, None, None, None]\<rparr>)"
    using get_set [OF kd(2) p0] by simp
  have "fst (fs_save blank_disk demo_path data)" unfolding fs_save_def by (subst run_blank [OF assms]) simp_all
  then have "fst (close_fd 1 0 ?s2) = Some True" using close_fd_dirty [OF p2, of 0] by (simp add: kd)
  then have "close_fd 1 0 ?s2 = (Some True, snd (close_fd 1 0 ?s2))" by (metis prod.collapse)
  ultimately show ?thesis using that by blast
qed

theorem fd_round_trip_witness:
  "\<exists>s1 s2 s3. open_file 1 demo_path demo_kernel = (Some 0, s1) \<and> write_fd 1 0 [1, 2, 3] s1 = (Some 3, s2)
     \<and> close_fd 1 0 s2 = (Some True, s3) \<and> fs_load (kdisk s3) demo_path = Some [1, 2, 3]"
proof (rule demo_session [of "[1, 2, 3]"])
  fix s1 s2 s3
  assume run: "open_file 1 demo_path demo_kernel = (Some 0, s1)"
    "write_fd 1 0 [1, 2, 3] s1 = (Some (length [1, 2, 3 :: u8]), s2)" "close_fd 1 0 s2 = (Some True, s3)"
  have "old_bytes demo_kernel demo_path = []"
    by (simp add: old_bytes_def fs_load_def demo_kernel_def read_blank)
  then have "fs_load (kdisk s3) demo_path = Some [1, 2, 3]"
    using fd_round_trip [OF demo_kernel_ok run] by simp
  with run show ?thesis by auto
qed simp

section \<open>The heap\<close>

lemma proc_sbrk_eq:
  "proc_sbrk req p = (if heap_used p + unat req \<le> 16384
     then (Some (HEAP_START + heap_used p), p\<lparr>heap_used := heap_used p + unat req\<rparr>) else (None, p))"
  by (auto simp: proc_sbrk_def)

text \<open>
  \<open>sbrk\<close> is a bump allocator over the process's own 16 KiB heap.  A request succeeds exactly
  when it fits in what is left; it then returns the address right after everything handed out
  before, inside the heap, and counts the request; otherwise it changes nothing.  The sum is
  checked at 64 bits, so a huge request is refused and never wraps.
\<close>

theorem sbrk_bump:
  assumes "kernel_ok s" "get_proc s pid = Some p" "sbrk pid req s = (r, s')"
  shows "if heap_used p + unat req \<le> HEAP_SIZE
     then r = Some (HEAP_START + heap_used p) \<and> get_proc s' pid = Some (p\<lparr>heap_used := heap_used p + unat req\<rparr>)
          \<and> HEAP_START + heap_used p + unat req \<le> HEAP_START + HEAP_SIZE
     else r = None \<and> get_proc s' pid = Some p"
proof -
  have ids: "ids_ok s" using assms(1) by (simp add: kernel_ok_def fd_ok_def)
  with assms(2,3) show ?thesis by (auto simp: sbrk_def with_process_mut_def proc_sbrk_eq)
qed

theorem sbrk_bump_witness:
  "fst (sbrk 1 4096 demo_kernel) = Some HEAP_START \<and> fst (sbrk 1 0xFFFFFFFFFFFFFFFF demo_kernel) = None"
proof -
  have p: "get_proc demo_kernel 1 = Some demo_proc" by (simp add: get_demo)
  from sbrk_bump [OF demo_kernel_ok p prod.collapse [symmetric]] show ?thesis
    using sbrk_bump [OF demo_kernel_ok p prod.collapse [symmetric], of 4096]
      sbrk_bump [OF demo_kernel_ok p prod.collapse [symmetric], of "0xFFFFFFFFFFFFFFFF"]
    by (simp add: demo_proc_def)
qed

end
