(* ===== verification/Fork.thy ===== *)
theory Fork
  imports Fd_Props
begin

text \<open>
  Forking, waiting, killing, \<open>exec\<close> and running a process (\<open>kernel/src/process.rs\<close>).  What a
  program does in ring 3 until its next return to the kernel is a parameter \<open>user\<close> of
  \<open>run_process\<close> and \<open>run_forked_child\<close>: the state in which control comes back, after the exit
  system call has restored the kernel's CR3.  The global frame allocator is installed, as it is
  before the shell and any process runs.
\<close>

section \<open>Fork\<close>

definition alloc_pid_slot :: "proc option list \<Rightarrow> nat option" where
  "alloc_pid_slot t = position (\<lambda>p. p = None) t"

text \<open>\<open>copy_nonoverlapping(parent, child, PAGE_SIZE)\<close> through the direct view of both frames.\<close>

definition copy_frame :: "nat \<Rightarrow> nat \<Rightarrow> machine \<Rightarrow> machine" where
  "copy_frame src dst m = m\<lparr>phys := (phys m)(dst := phys m src)\<rparr>"

definition copy_frames :: "(nat \<times> nat) list \<Rightarrow> machine \<Rightarrow> machine" where
  "copy_frames jobs m = fold (\<lambda>(src, dst). copy_frame src dst) jobs m"

definition fork_build_child ::
  "map_to_fn \<Rightarrow> nat \<Rightarrow> nat \<Rightarrow> nat list \<Rightarrow> machine \<Rightarrow> (proc_error + proc) \<times> machine" where
  "fork_build_child mt code stack heap m =
     andThen (create_process_from_image mt ''forked-child'' (phys m code) m) (\<lambda>child m.
       (Inr child, copy_frames ((stack, stack_frame child) # zip heap (heap_frames child)) m))"

definition ref_all :: "fd_entry option list \<Rightarrow> kstate \<Rightarrow> kstate" where
  "ref_all t s = fold (\<lambda>e s. case e of None \<Rightarrow> s | Some x \<Rightarrow> ref_pipe x s) t s"

text \<open>
  \<open>with_frame_allocator\<close> spins while the lock is held; nothing else runs that could release it, so
  then it never returns (\<open>None\<close>).
\<close>

definition with_frame_allocator :: "(kstate \<Rightarrow> ('a \<times> kstate) option) \<Rightarrow> kstate \<Rightarrow> ('a \<times> kstate) option" where
  "with_frame_allocator f s =
     (if fa_locked s then None
      else map_option (\<lambda>(a, s'). (a, s'\<lparr>fa_locked := False\<rparr>)) (f (s\<lparr>fa_locked := True\<rparr>)))"

definition on_machine :: "(machine \<Rightarrow> 'a \<times> machine) \<Rightarrow> kstate \<Rightarrow> ('a \<times> kstate) option" where
  "on_machine f s = (case f (mach s) of (a, m) \<Rightarrow> Some (a, s\<lparr>mach := m\<rparr>))"

lemma with_frame_allocator_machine:
  "with_frame_allocator (on_machine f) s =
     (if fa_locked s then None else case f (mach s) of (a, m) \<Rightarrow> Some (a, s\<lparr>mach := m\<rparr>))"
  by (cases s) (simp add: with_frame_allocator_def on_machine_def split: prod.split)

definition fork :: "map_to_fn \<Rightarrow> nat \<Rightarrow> nat \<Rightarrow> nat \<Rightarrow> kstate \<Rightarrow> (nat option \<times> kstate) option" where
  "fork mt parent rip rsp s =
     (if in_child s then Some (None, s)
      else case get_proc s parent of
        None \<Rightarrow> Some (None, s)
      | Some p \<Rightarrow>
          (case with_frame_allocator (on_machine (fork_build_child mt (code_frame p) (stack_frame p) (heap_frames p))) s of
             None \<Rightarrow> None
           | Some (Inl _, s) \<Rightarrow> Some (None, s)
           | Some (Inr c, s) \<Rightarrow>
               let s1 = ref_all (fds p) s;
                   child = c\<lparr>heap_used := heap_used p, fds := fds p, parent_pid := Some parent,
                             pending_resume := Some (rip, rsp)\<rparr>
               in (case alloc_pid_slot (ptable s1) of
                     None \<Rightarrow> Some (None, s1)
                   | Some i \<Rightarrow> Some (Some (PID_TABLE_BASE + i), s1\<lparr>ptable := (ptable s1)[i := Some child]\<rparr>))))"

section \<open>Running, waiting, killing, exec\<close>

text \<open>\<open>user rip rsp s\<close>: \<open>None\<close> when control never comes back to the code that entered ring 3.\<close>

type_synonym user_run = "nat \<Rightarrow> nat \<Rightarrow> kstate \<Rightarrow> kstate option"

definition write_cr3 :: "nat \<Rightarrow> kstate \<Rightarrow> kstate" where
  "write_cr3 pml4 s = s\<lparr>mach := (mach s)\<lparr>cr3 := pml4\<rparr>\<rparr>"

definition restore_kernel_cr3 :: "kstate \<Rightarrow> kstate" where
  "restore_kernel_cr3 s = write_cr3 (kernel_pml4 s) s"

text \<open>\<open>enter_ring3_as_forked_child\<close>: the nesting flag is set for the whole excursion.\<close>

definition enter_ring3_as_forked_child :: "user_run \<Rightarrow> nat \<Rightarrow> nat \<Rightarrow> kstate \<Rightarrow> kstate option" where
  "enter_ring3_as_forked_child user rip rsp s =
     map_option (\<lambda>s'. s'\<lparr>in_child := False\<rparr>) (user rip rsp (s\<lparr>in_child := True\<rparr>))"

definition run_forked_child :: "user_run \<Rightarrow> nat \<Rightarrow> kstate \<Rightarrow> ((proc_error + unit) \<times> kstate) option" where
  "run_forked_child user child s =
     (case with_process_mut child (\<lambda>p. ((pml4_frame p, pending_resume p), p\<lparr>pending_resume := None\<rparr>)) s of
        (None, s) \<Rightarrow> Some (Inl NoSuchProcess, s)
      | (Some (_, None), s) \<Rightarrow> Some (Inl AlreadyRun, s)
      | (Some (pml4, Some (rip, rsp)), s) \<Rightarrow>
          map_option (Pair (Inr ()))
            (enter_ring3_as_forked_child user rip rsp (write_cr3 pml4 (s\<lparr>active := child\<rparr>))))"

definition wait_for_child :: "user_run \<Rightarrow> nat \<Rightarrow> nat \<Rightarrow> kstate \<Rightarrow> (nat option \<times> kstate) option" where
  "wait_for_child user parent child s =
     (if in_child s then Some (None, s)
      else if child < PID_TABLE_BASE then Some (None, s)
      else if MAX_PROCESSES \<le> child - PID_TABLE_BASE then Some (None, s)
      else case ptable s ! (child - PID_TABLE_BASE) of
        None \<Rightarrow> Some (None, s)
      | Some c \<Rightarrow>
          if parent_pid c \<noteq> Some parent then Some (None, s)
          else case get_proc s parent of
            None \<Rightarrow> Some (None, s)
          | Some p \<Rightarrow>
              map_option (\<lambda>(r, s1).
                let s2 = (write_cr3 (pml4_frame p) s1)\<lparr>active := parent\<rparr>
                in (case r of
                      Inl _ \<Rightarrow> (None, s2)
                    | Inr _ \<Rightarrow> (Some child, s2\<lparr>ptable := (ptable s2)[child - PID_TABLE_BASE := None]\<rparr>)))
                (run_forked_child user child s))"

definition kill :: "nat \<Rightarrow> nat \<Rightarrow> kstate \<Rightarrow> bool \<times> kstate" where
  "kill caller target s =
     (if target < PID_TABLE_BASE then (False, s)
      else if MAX_PROCESSES \<le> target - PID_TABLE_BASE then (False, s)
      else case ptable s ! (target - PID_TABLE_BASE) of
        None \<Rightarrow> (False, s)
      | Some c \<Rightarrow>
          if parent_pid c \<noteq> Some caller then (False, s)
          else (True, s\<lparr>ptable := (ptable s)[target - PID_TABLE_BASE := None]\<rparr>))"

definition exec_process :: "nat \<Rightarrow> bytes \<Rightarrow> kstate \<Rightarrow> (proc_error + unit) \<times> kstate" where
  "exec_process pid img s =
     (if MAX_CODE_IMAGE_BYTES < length img then (Inl ImageTooLarge, s)
      else case with_process_mut pid (\<lambda>p. (code_frame p, p\<lparr>heap_used := 0\<rparr>)) s of
        (None, s) \<Rightarrow> (Inl NoSuchProcess, s)
      | (Some f, s) \<Rightarrow> (Inr (), s\<lparr>mach := copy_to_frame f img (zero_frame f (mach s))\<rparr>))"

text \<open>The \<open>runproc\<close> path for the six named slots, and for the loaded process (slot 3).\<close>

definition run_slot :: "user_run \<Rightarrow> nat \<Rightarrow> kstate \<Rightarrow> ((proc_error + unit) \<times> kstate) option" where
  "run_slot user pid s =
     (case slots s pid of
        None \<Rightarrow> Some (Inl NoSuchProcess, s)
      | Some p \<Rightarrow> map_option (Pair (Inr ())) (user USER_CODE_ADDR (USER_STACK_ADDR + 4096)
                            (write_cr3 (pml4_frame p) (s\<lparr>active := pid\<rparr>))))"

definition run_process :: "user_run \<Rightarrow> nat \<Rightarrow> kstate \<Rightarrow> ((proc_error + unit) \<times> kstate) option" where
  "run_process user pid s =
     (if pid \<in> {1, 2, 4, 5, 6, 7} then run_slot user pid s else Some (Inl NoSuchProcess, s))"

definition init_named_process :: "map_to_fn \<Rightarrow> nat \<Rightarrow> string \<Rightarrow> bytes \<Rightarrow> kstate \<Rightarrow> (proc_error + unit) \<times> kstate" where
  "init_named_process mt pid lbl img s =
     (case create_process_from_image mt lbl img (mach s) of
        (Inl e, m) \<Rightarrow> (Inl e, s\<lparr>mach := m\<rparr>)
      | (Inr p, m) \<Rightarrow> (Inr (), s\<lparr>mach := m, slots := (slots s)(pid := Some p)\<rparr>))"

definition create_loaded_process :: "map_to_fn \<Rightarrow> bytes \<Rightarrow> kstate \<Rightarrow> (proc_error + unit) \<times> kstate" where
  "create_loaded_process mt img s = init_named_process mt 3 ''loaded'' img s"

definition run_loaded_process :: "user_run \<Rightarrow> kstate \<Rightarrow> ((proc_error + unit) \<times> kstate) option" where
  "run_loaded_process user s = run_slot user 3 s"

definition load_and_run_elf ::
  "map_to_fn \<Rightarrow> user_run \<Rightarrow> bytes \<Rightarrow> elf_image \<Rightarrow> kstate \<Rightarrow> ((proc_error + unit) \<times> kstate) option" where
  "load_and_run_elf mt user img elf s =
     (case create_process_from_elf mt ''elf-loaded'' (entry elf) (segments elf) img (mach s) of
        (Inl e, m) \<Rightarrow> Some (Inl e, s\<lparr>mach := m\<rparr>)
      | (Inr p, m) \<Rightarrow> run_slot user 3 (s\<lparr>mach := m, slots := (slots s)(3 := Some p)\<rparr>))"

end
