(* ===== verification/Fork_Inv.thy ===== *)
theory Fork_Inv
  imports Fork
begin

text \<open>
  What \<open>fork\<close> builds and what it preserves: the child's frames hold copies of the parent's, the
  descriptor invariant \<open>kernel_ok\<close> and the memory invariant \<open>mem_ok\<close> (no two processes share a
  frame) survive.
\<close>

section \<open>Copying frames\<close>

lemma copy_frames_Cons [simp]:
  "copy_frames [] m = m"
  "copy_frames ((src, dst) # js) m = copy_frames js (copy_frame src dst m)"
  by (simp_all add: copy_frames_def)

lemma copy_frame_fields [simp]:
  "falloc (copy_frame a b m) = falloc m" "maps (copy_frame a b m) = maps m"
  "pml4_entries (copy_frame a b m) = pml4_entries m" "cr3 (copy_frame a b m) = cr3 m"
  by (simp_all add: copy_frame_def)

lemma copy_frames_fields [simp]:
  "falloc (copy_frames js m) = falloc m" "maps (copy_frames js m) = maps m"
  "pml4_entries (copy_frames js m) = pml4_entries m" "cr3 (copy_frames js m) = cr3 m"
  by (induction js arbitrary: m) (auto simp: copy_frame_def)

lemma copy_frames_other: "g \<notin> snd ` set js \<Longrightarrow> phys (copy_frames js m) g = phys m g"
  by (induction js arbitrary: m) (auto simp: copy_frame_def)

lemma copy_frames_dst:
  "distinct (map snd js) \<Longrightarrow> fst ` set js \<inter> snd ` set js = {} \<Longrightarrow> (src, dst) \<in> set js
    \<Longrightarrow> phys (copy_frames js m) dst = phys m src"
proof (induction js arbitrary: m)
  case (Cons j js)
  obtain a b where j: "j = (a, b)" by fastforce
  show ?case
  proof (cases "(src, dst) = (a, b)")
    case True
    then show ?thesis using Cons.prems j copy_frames_other [of b js "copy_frame a b m"]
      by (simp add: copy_frame_def)
  next
    case False
    then have "(src, dst) \<in> set js" "src \<noteq> b" using Cons.prems j by force+
    then show ?thesis using Cons j by (auto simp: copy_frame_def)
  qed
qed simp

section \<open>Frames handed out\<close>

definition handed_out :: "machine \<Rightarrow> nat set" where
  "handed_out m = (\<lambda>i. usable_frames (falloc m) ! i) `
     ({..<next_frame (falloc m)} \<inter> {..<length (usable_frames (falloc m))})"

definition advances :: "machine \<Rightarrow> machine \<Rightarrow> bool" where
  "advances m m' \<longleftrightarrow> regions (falloc m') = regions (falloc m) \<and> next_frame (falloc m) \<le> next_frame (falloc m')"

lemma handed_out_advances:
  assumes "advances m m'"
  shows "handed_out m' = handed_out m \<union> taken m m'"
proof -
  have u: "usable_frames (falloc m') = usable_frames (falloc m)"
    using assms by (intro usable_frames_regions) (simp add: advances_def)
  have "{..<next_frame (falloc m')} = {..<next_frame (falloc m)} \<union> {next_frame (falloc m)..<next_frame (falloc m')}"
    using assms by (auto simp: advances_def)
  then show ?thesis by (simp add: handed_out_def taken_def u Int_Un_distrib2 image_Un)
qed

lemma handed_out_fresh:
  "map_accurate (falloc m) \<Longrightarrow> handed_out m \<inter> taken m m' = {}"
  using usable_frames_distinct [of "falloc m"] by (auto simp: handed_out_def taken_def nth_eq_iff_index_eq)

lemma grows_advances: "grows P m m' \<Longrightarrow> advances m m'"
  by (simp add: grows_def advances_def)

section \<open>The child's address space\<close>

lemma fork_build_child_spec:
  assumes mt: "mapper_ok mt" and acc: "map_accurate (falloc m)"
    and run: "fork_build_child mt code stack heap m = (Inr c, m')"
    and old: "{code, stack} \<union> set heap \<subseteq> handed_out m" "length (phys m code) = 4096" "length heap = 4"
  shows "grows {pml4_frame c} m m'" "distinct (private_frames c)" "set (private_frames c) \<subseteq> taken m m'"
    "maps m' (pml4_frame c) = image_layout c" "phys m' (code_frame c) = phys m code"
    "phys m' (stack_frame c) = phys m stack" "length (heap_frames c) = 4"
    "\<forall>i < 4. phys m' (heap_frames c ! i) = phys m (heap ! i)" "extra_frames c = []"
proof -
  obtain m1 where m1: "create_process_from_image mt ''forked-child'' (phys m code) m = (Inr c, m1)"
    "m' = copy_frames ((stack, stack_frame c) # zip heap (heap_frames c)) m1"
    using run by (auto simp: fork_build_child_def andThen_Inr)
  let ?js = "(stack, stack_frame c) # zip heap (heap_frames c)"
  note cp = create_process_from_image_spec [OF mt acc m1(1)]
  have f: "grows {pml4_frame c} m m1" "distinct (private_frames c)" "set (private_frames c) \<subseteq> taken m m1"
    "length (heap_frames c) = 4" using cp(1) by (auto simp: fresh_process_def)
  have tk: "taken m m' = taken m m1" by (simp add: taken_def m1(2))
  have fresh: "x \<notin> taken m m1" if "x \<in> {code, stack} \<union> set heap" for x
    using handed_out_fresh [OF acc] old(1) that by blast
  have fsts: "fst ` set ?js \<subseteq> {stack} \<union> set heap" by (auto dest: set_zip_leftD)
  have snds: "snd ` set ?js \<subseteq> {stack_frame c} \<union> set (heap_frames c)" by (auto dest: set_zip_rightD)
  have dst_in: "{stack_frame c} \<union> set (heap_frames c) \<subseteq> taken m m1" using f(3) by (auto simp: private_frames_def)
  have dis: "distinct (map snd ?js)" using f(2,4) old(3) by (auto simp: private_frames_def)
  have disj: "fst ` set ?js \<inter> snd ` set ?js = {}" using fsts snds dst_in fresh by blast
  have src: "phys m1 x = phys m x" if "x \<in> {code, stack} \<union> set heap" for x
    using f(1) fresh [OF that] by (simp add: grows_def)
  have other: "phys m' g = phys m1 g" if "g \<notin> {stack_frame c} \<union> set (heap_frames c)" for g
    unfolding m1(2) using that snds by (intro copy_frames_other) blast
  have dst: "phys m' b = phys m a" if "(a, b) \<in> set ?js" for a b
  proof -
    have "a \<in> {stack} \<union> set heap" using that fsts by (metis fst_conv image_eqI subsetD)
    then show ?thesis using copy_frames_dst [OF dis disj that, of m1] src [of a] by (simp add: m1(2))
  qed
  have "phys m' g = phys m g" if "g \<notin> taken m m1" for g
  proof -
    have "phys m' g = phys m1 g" using that dst_in by (intro other) blast
    then show ?thesis using f(1) that by (simp add: grows_def)
  qed
  then show "grows {pml4_frame c} m m'" using f(1) unfolding grows_def tk by (simp add: m1(2))
  show "distinct (private_frames c)" by (rule f(2))
  show "set (private_frames c) \<subseteq> taken m m'" using f(3) tk by simp
  show "maps m' (pml4_frame c) = image_layout c" using cp(3) by (simp add: m1(2))
  have "code_frame c \<notin> {stack_frame c} \<union> set (heap_frames c)" using f(2) by (auto simp: private_frames_def)
  then show "phys m' (code_frame c) = phys m code" using other cp(4) src old(2) by simp
  show "phys m' (stack_frame c) = phys m stack" by (rule dst) simp
  show "length (heap_frames c) = 4" by (rule f(4))
  show "\<forall>i < 4. phys m' (heap_frames c ! i) = phys m (heap ! i)"
  proof safe
    fix i :: nat assume "i < 4"
    then have "(heap ! i, heap_frames c ! i) \<in> set ?js" using f(4) old(3) by (auto simp: set_zip)
    then show "phys m' (heap_frames c ! i) = phys m (heap ! i)" by (rule dst)
  qed
  show "extra_frames c = []" by (rule cp(2))
qed

section \<open>The allocator only advances\<close>

lemma advances_refl [simp]: "advances m m"
  by (simp add: advances_def)

lemma advances_trans [trans]: "advances m m1 \<Longrightarrow> advances m1 m2 \<Longrightarrow> advances m m2"
  by (simp add: advances_def)

lemma advances_writes [simp]:
  "advances m (zero_frame f m1) = advances m m1" "advances m (copy_to_frame f bs m1) = advances m m1"
  "advances m (populate_pml4 p u m1) = advances m m1" "advances m (copy_frames js m1) = advances m m1"
  "advances m (copy_frame a b m1) = advances m m1"
  by (simp_all add: advances_def zero_frame_def copy_to_frame_def populate_pml4_def)

lemma andThen_advances:
  assumes "advances m (snd r)" "\<And>a m1. advances m m1 \<Longrightarrow> advances m (snd (k a m1))"
  shows "advances m (snd (andThen r k))"
  using assms by (cases r; cases "fst r") auto

lemma alloc_frame_advances: "advances m m1 \<Longrightarrow> advances m (snd (alloc_frame e m1))"
  by (auto simp: alloc_frame_def allocate_frame_def Let_def advances_def)

lemma map_page_advances: "mapper_ok mt \<Longrightarrow> advances m m1 \<Longrightarrow> advances m (snd (map_page mt e p page f m1))"
  using map_page_grows(1) [of mt e p page f m1 _ _ UNIV] grows_advances advances_trans
  by (metis UNIV_I prod.collapse)

lemma map_heap_advances:
  assumes mt: "mapper_ok mt" shows "advances m m1 \<Longrightarrow> advances m (snd (map_heap mt p is m1))"
proof (induction "is" arbitrary: m1)
  case (Cons i "is")
  show ?case unfolding map_heap.simps
  proof (intro andThen_advances alloc_frame_advances map_page_advances [OF mt])
    show "advances m (snd (map_heap mt p is (zero_frame f m2)))" if "advances m m2" for f m2
      using that by (intro Cons.IH) simp
  qed (use Cons.prems in simp_all)
qed simp

lemma create_advances:
  assumes mt: "mapper_ok mt" and run: "create_process_from_image mt lbl img m = (x, m')"
  shows "advances m m'"
proof -
  have "advances m (snd (create_process_from_image mt lbl img m))"
    unfolding create_process_from_image_def
    by (auto intro!: andThen_advances alloc_frame_advances map_page_advances [OF mt] map_heap_advances [OF mt])
  then show ?thesis by (simp add: run)
qed

lemma fork_build_child_advances:
  assumes mt: "mapper_ok mt" and run: "fork_build_child mt code stack heap m = (x, m')"
  shows "advances m m'"
proof -
  obtain y m1 where c: "create_process_from_image mt ''forked-child'' (phys m code) m = (y, m1)" by fastforce
  then show ?thesis using run create_advances [OF mt c] by (cases y) (auto simp: fork_build_child_def)
qed

section \<open>The memory invariant\<close>

definition proc_mem :: "machine \<Rightarrow> proc \<Rightarrow> bool" where
  "proc_mem m p \<longleftrightarrow> distinct (private_frames p) \<and> set (private_frames p) \<subseteq> handed_out m
     \<and> length (heap_frames p) = 4 \<and> length (phys m (code_frame p)) = 4096"

definition mem_ok :: "kstate \<Rightarrow> bool" where
  "mem_ok s \<longleftrightarrow> map_accurate (falloc (mach s)) \<and> (\<forall>pid p. get_proc s pid = Some p \<longrightarrow> proc_mem (mach s) p)
     \<and> (\<forall>i j p q. i \<noteq> j \<and> get_proc s i = Some p \<and> get_proc s j = Some q
          \<longrightarrow> set (private_frames p) \<inter> set (private_frames q) = {})"

lemma proc_memD:
  assumes "proc_mem m p"
  shows "{code_frame p, stack_frame p} \<union> set (heap_frames p) \<subseteq> handed_out m"
    "length (phys m (code_frame p)) = 4096" "length (heap_frames p) = 4" "code_frame p \<in> set (private_frames p)"
  using assms by (auto simp: proc_mem_def private_frames_def)

lemma mem_okD: "mem_ok s \<Longrightarrow> get_proc s pid = Some p \<Longrightarrow> proc_mem (mach s) p"
  by (simp add: mem_ok_def)

text \<open>What exists is unaffected by what is taken later.\<close>

lemma proc_mem_grows:
  assumes "proc_mem m p" "map_accurate (falloc m)" "grows P m m'"
  shows "proc_mem m' p" "set (private_frames p) \<inter> taken m m' = {}"
proof -
  show d: "set (private_frames p) \<inter> taken m m' = {}"
    using assms(1) handed_out_fresh [OF assms(2)] unfolding proc_mem_def by blast
  have "code_frame p \<notin> taken m m'" using d proc_memD(4) [OF assms(1)] by blast
  then have "phys m' (code_frame p) = phys m (code_frame p)" using assms(3) by (simp add: grows_def)
  then show "proc_mem m' p"
    using assms(1) handed_out_advances [OF grows_advances [OF assms(3)]] by (auto simp: proc_mem_def)
qed

text \<open>A new process whose frames were all taken just now.\<close>

lemma mem_ok_add:
  assumes ok: "mem_ok s" and g: "grows P (mach s) (mach s')"
    and c: "distinct (private_frames c)" "set (private_frames c) \<subseteq> taken (mach s) (mach s')"
      "length (heap_frames c) = 4" "length (phys (mach s') (code_frame c)) = 4096"
    and pr: "\<And>i q. get_proc s' i = Some q \<Longrightarrow> i = pid \<and> q = c \<or> i \<noteq> pid \<and> get_proc s i = Some q"
  shows "mem_ok s'"
proof -
  have acc: "map_accurate (falloc (mach s))" using ok by (simp add: mem_ok_def)
  have new: "proc_mem (mach s') c"
    using c handed_out_advances [OF grows_advances [OF g]] by (auto simp: proc_mem_def)
  have old: "proc_mem (mach s') q" "set (private_frames q) \<inter> set (private_frames c) = {}"
    if "get_proc s i = Some q" for i q
    using proc_mem_grows [OF mem_okD [OF ok that] acc g] c(2) by blast+
  have "map_accurate (falloc (mach s'))" using acc g by (simp add: map_accurate_def grows_def)
  moreover have "set (private_frames a) \<inter> set (private_frames b) = {}"
    if ne: "i \<noteq> j" and ga: "get_proc s' i = Some a" and gb: "get_proc s' j = Some b" for i j a b
  proof -
    consider "get_proc s i = Some a" "get_proc s j = Some b" | "a = c" "get_proc s j = Some b"
      | "b = c" "get_proc s i = Some a"
      using pr [OF ga] pr [OF gb] ne by metis
    then show ?thesis
    proof cases
      case 1
      then show ?thesis using ok ne by (simp add: mem_ok_def)
    qed (use old(2) in blast)+
  qed
  moreover have "proc_mem (mach s') q" if "get_proc s' i = Some q" for i q
    using pr [OF that] old(1) new by blast
  ultimately show ?thesis unfolding mem_ok_def by metis
qed

section \<open>Counting the child's pipe ends\<close>

lemma total_ends_change:
  assumes "\<And>i. i \<noteq> pid \<Longrightarrow> get_proc s' i = get_proc s i" "pid \<in> set all_pids"
  shows "total_ends s' e + ends_of s e pid = total_ends s e + ends_of s' e pid"
proof -
  have split: "total_ends x e = ends_of x e pid + (\<Sum>i \<in> set all_pids - {pid}. ends_of x e i)" for x
    unfolding total_ends_def by (rule sum.remove) (use assms(2) in auto)
  have "(\<Sum>i \<in> set all_pids - {pid}. ends_of s' e i) = (\<Sum>i \<in> set all_pids - {pid}. ends_of s e i)"
    by (rule sum.cong) (use assms(1) in \<open>auto simp: ends_of_def\<close>)
  then show ?thesis using split [of s] split [of s'] by simp
qed

lemma ref_all_Cons [simp]:
  "ref_all [] s = s" "ref_all (None # t) s = ref_all t s" "ref_all (Some e # t) s = ref_all t (ref_pipe e s)"
  by (simp_all add: ref_all_def)

lemma ref_pipe_fields [simp]:
  "slots (ref_pipe e s) = slots s" "ptable (ref_pipe e s) = ptable s" "mach (ref_pipe e s) = mach s"
  "length (pipes (ref_pipe e s)) = length (pipes s)" "in_child (ref_pipe e s) = in_child s"
  "fa_locked (ref_pipe e s) = fa_locked s"
  by (simp_all add: ref_pipe_def split: fd_entry.split option.split)

lemma ref_all_fields [simp]:
  "get_proc (ref_all t s) pid = get_proc s pid" "kdisk (ref_all t s) = kdisk s"
  "ptable (ref_all t s) = ptable s" "mach (ref_all t s) = mach s" "length (pipes (ref_all t s)) = length (pipes s)"
  "slots (ref_all t s) = slots s" "total_ends (ref_all t s) e = total_ends s e"
proof -
  have *: "get_proc (ref_all t s) pid = get_proc s pid \<and> kdisk (ref_all t s) = kdisk s
      \<and> ptable (ref_all t s) = ptable s \<and> mach (ref_all t s) = mach s
      \<and> length (pipes (ref_all t s)) = length (pipes s) \<and> slots (ref_all t s) = slots s" for pid
  proof (induction t arbitrary: s)
    case (Cons e t)
    then show ?case by (cases e) simp_all
  qed simp
  then show "get_proc (ref_all t s) pid = get_proc s pid" "kdisk (ref_all t s) = kdisk s"
    "ptable (ref_all t s) = ptable s" "mach (ref_all t s) = mach s" "length (pipes (ref_all t s)) = length (pipes s)"
    "slots (ref_all t s) = slots s" by blast+
  show "total_ends (ref_all t s) e = total_ends s e" using * by (simp add: total_ends_def ends_of_def)
qed

lemma ref_all_in_child: "in_child (ref_all t s) = in_child s"
proof (induction t arbitrary: s)
  case (Cons e t)
  then show ?case by (cases e) simp_all
qed simp

lemma ref_pipe_at:
  assumes "i < length (pipes s)" "pipes s ! i = Some q" "read_open q + 1 < 2 ^ 32" "write_open q + 1 < 2 ^ 32"
  shows "pipes (ref_pipe e s) ! i = Some (q\<lparr>read_open := read_open q + of_bool (e = FdPipeRead i),
           write_open := write_open q + of_bool (e = FdPipeWrite i)\<rparr>)"
  using assms by (cases e) (auto simp: ref_pipe_def nth_list_update split: option.split)

lemma ref_pipe_none: "pipes s ! i = None \<Longrightarrow> pipes (ref_pipe e s) ! i = None"
proof -
  have "l ! i = None \<Longrightarrow> l ! j = Some x \<Longrightarrow> l[j := y] ! i = None" for l :: "pipe option list" and j x y
    by (cases "i = j") simp_all
  then show "pipes s ! i = None \<Longrightarrow> pipes (ref_pipe e s) ! i = None"
    by (cases e) (auto simp: ref_pipe_def split: option.split)
qed

lemma ends_in_Cons: "ends_in e (x # t) = of_bool (x = Some e) + ends_in e t"
  by (simp add: ends_in_def)

lemma ref_all_at:
  "i < length (pipes s) \<Longrightarrow> pipes s ! i = Some q \<Longrightarrow> read_open q + length t < 2 ^ 32 \<Longrightarrow> write_open q + length t < 2 ^ 32
    \<Longrightarrow> pipes (ref_all t s) ! i = Some (q\<lparr>read_open := read_open q + ends_in (FdPipeRead i) t,
           write_open := write_open q + ends_in (FdPipeWrite i) t\<rparr>)"
proof (induction t arbitrary: s q)
  case (Cons x t)
  show ?case
  proof (cases x)
    case (Some e)
    have r: "pipes (ref_pipe e s) ! i = Some (q\<lparr>read_open := read_open q + of_bool (e = FdPipeRead i),
           write_open := write_open q + of_bool (e = FdPipeWrite i)\<rparr>)"
      using Cons.prems by (intro ref_pipe_at) simp_all
    have "i < length (pipes (ref_pipe e s))" using Cons.prems(1) by simp
    from Cons.IH [OF this r] show ?thesis using Cons.prems(3,4) Some by (auto simp: ends_in_Cons)
  qed (use Cons in \<open>simp add: ends_in_Cons\<close>)
qed (simp add: ends_in_def)

lemma ref_all_none: "pipes s ! i = None \<Longrightarrow> pipes (ref_all t s) ! i = None"
proof (induction t arbitrary: s)
  case (Cons x t)
  then show ?case by (cases x) (simp_all add: ref_pipe_none)
qed simp

section \<open>Fork preserves both invariants\<close>

lemma get_proc_ptable:
  assumes "ids_ok s" "i < 4"
  shows "get_proc (s\<lparr>ptable := (ptable s)[i := x]\<rparr>) j = (if j = 10 + i then x else get_proc s j)"
proof -
  have "length (ptable s) = 4" using assms by (simp add: ids_ok_def)
  moreover have "j - 10 = i \<longleftrightarrow> j = 10 + i" if "10 \<le> j" using that by linarith
  ultimately show ?thesis using assms(2) by (auto simp: get_proc_def nth_list_update)
qed

definition forked_proc :: "proc \<Rightarrow> nat \<Rightarrow> nat \<Rightarrow> nat \<Rightarrow> proc \<Rightarrow> proc" where
  "forked_proc p parent rip rsp c =
     c\<lparr>heap_used := heap_used p, fds := fds p, parent_pid := Some parent, pending_resume := Some (rip, rsp)\<rparr>"

lemma forked_proc_simps [simp]:
  "private_frames (forked_proc p par rip rsp c) = private_frames c" "fds (forked_proc p par rip rsp c) = fds p"
  "heap_used (forked_proc p par rip rsp c) = heap_used p" "heap_frames (forked_proc p par rip rsp c) = heap_frames c"
  "code_frame (forked_proc p par rip rsp c) = code_frame c" "pml4_frame (forked_proc p par rip rsp c) = pml4_frame c"
  "stack_frame (forked_proc p par rip rsp c) = stack_frame c"
  "parent_pid (forked_proc p par rip rsp c) = Some par" "pending_resume (forked_proc p par rip rsp c) = Some (rip, rsp)"
  by (simp_all add: forked_proc_def private_frames_def)

lemma fork_cases:
  assumes "fork mt parent rip rsp s = Some (r, s')"
  obtains (refused) "r = None" "s' = s"
  | (failed) p e m where "get_proc s parent = Some p" "r = None" "s' = s\<lparr>mach := m\<rparr>"
      "fork_build_child mt (code_frame p) (stack_frame p) (heap_frames p) (mach s) = (Inl e, m)"
  | (full) p c m where "get_proc s parent = Some p" "r = None" "s' = ref_all (fds p) (s\<lparr>mach := m\<rparr>)"
      "fork_build_child mt (code_frame p) (stack_frame p) (heap_frames p) (mach s) = (Inr c, m)" "None \<notin> set (ptable s)"
  | (forked) p c m i where "get_proc s parent = Some p" "r = Some (10 + i)"
      "s' = (ref_all (fds p) (s\<lparr>mach := m\<rparr>))\<lparr>ptable := (ptable s)[i := Some (forked_proc p parent rip rsp c)]\<rparr>"
      "fork_build_child mt (code_frame p) (stack_frame p) (heap_frames p) (mach s) = (Inr c, m)"
      "i < length (ptable s)" "ptable s ! i = None" "\<not> in_child s" "\<not> fa_locked s"
proof (cases "in_child s \<or> get_proc s parent = None")
  case True
  then show ?thesis using assms refused by (auto simp: fork_def split: if_splits)
next
  case False
  then obtain p where p: "get_proc s parent = Some p" by auto
  obtain x m where b: "fork_build_child mt (code_frame p) (stack_frame p) (heap_frames p) (mach s) = (x, m)" by fastforce
  have l: "\<not> fa_locked s" using assms False p by (auto simp: fork_def with_frame_allocator_machine split: if_splits)
  show ?thesis
  proof (cases x)
    case (Inl e)
    then show ?thesis using assms False p b l by (intro failed) (auto simp: fork_def with_frame_allocator_machine)
  next
    case (Inr c)
    show ?thesis
    proof (cases "alloc_pid_slot (ptable s)")
      case None
      then have "None \<notin> set (ptable s)" by (auto simp: alloc_pid_slot_def position_None)
      then show ?thesis using assms False p b l Inr None
        by (intro full) (auto simp: fork_def with_frame_allocator_machine Let_def)
    next
      case (Some i)
      then have "i < length (ptable s)" "ptable s ! i = None" by (auto simp: alloc_pid_slot_def dest: free_slot)
      then show ?thesis using assms False p b l Inr Some
        by (intro forked) (auto simp: fork_def with_frame_allocator_machine Let_def forked_proc_def)
    qed
  qed
qed

lemma ends_in_total: "get_proc s pid = Some p \<Longrightarrow> ends_in e (fds p) \<le> total_ends s e"
proof -
  assume p: "get_proc s pid = Some p"
  then have "ends_in e (fds p) = ends_of s e pid" by (simp add: ends_of_def)
  also have "\<dots> \<le> total_ends s e"
    unfolding total_ends_def by (rule member_le_sum) (use all_pids_props(2) [OF p] in auto)
  finally show ?thesis .
qed

lemma ref_all_fits:
  assumes ok: "fd_ok s" and p: "get_proc s pid = Some p" and k: "k < 4"
  shows "pipe_fits (pipes (ref_all (fds p) s) ! k) (readers s k + ends_in (FdPipeRead k) (fds p))
           (writers s k + ends_in (FdPipeWrite k) (fds p))"
proof (cases "pipes s ! k")
  case None
  then have "readers s k = 0" "writers s k = 0" using fd_okD [OF ok k] by (auto simp: pipe_fits_def)
  then have "ends_in (FdPipeRead k) (fds p) = 0" "ends_in (FdPipeWrite k) (fds p) = 0"
    using ends_in_total [OF p, of "FdPipeRead k"] ends_in_total [OF p, of "FdPipeWrite k"] by simp_all
  then show ?thesis using ref_all_none [OF None] \<open>readers s k = 0\<close> \<open>writers s k = 0\<close> by (simp add: pipe_fits_def)
next
  case (Some q)
  have f: "pipe_ok q" "read_open q = readers s k" "write_open q = writers s k" "0 < readers s k + writers s k"
    using fd_okD [OF ok k] Some by (auto simp: pipe_fits_def)
  have "length (fds p) = 4" "length (pipes s) = 4" using ok p by (auto simp: fd_ok_def proc_ok_def)
  moreover have "readers s k \<le> 44" "writers s k \<le> 44" using total_ends_bound [OF ok] by auto
  ultimately show ?thesis using ref_all_at [of k s q "fds p"] Some f k by (auto simp: pipe_fits_def pipe_ok_def)
qed

lemma fork_kernel_ok:
  assumes ok: "kernel_ok s" and run: "fork mt parent rip rsp s = Some (r, s')" and room: "None \<in> set (ptable s)"
  shows "kernel_ok s'"
  using run
proof (cases rule: fork_cases)
  case (forked p c m i)
  have fo: "fd_ok s" "fs_ok (kdisk s)" "ids_ok s" using ok by (auto simp: kernel_ok_def fd_ok_def)
  have i4: "i < 4" using forked(5) fo(3) by (simp add: ids_ok_def)
  let ?s0 = "s\<lparr>mach := m\<rparr>"
  let ?s1 = "ref_all (fds p) ?s0" and ?c = "forked_proc p parent rip rsp c"
  have s': "s' = ?s1\<lparr>ptable := (ptable ?s1)[i := Some ?c]\<rparr>" using forked(3) by simp
  have ids: "ids_ok ?s1" using fo(3) by (simp add: ids_ok_def)
  have get: "get_proc s' j = (if j = 10 + i then Some ?c else get_proc s j)" for j
    unfolding s' get_proc_ptable [OF ids i4] by simp
  have free: "get_proc s (10 + i) = None" using forked(6) i4 by (simp add: get_proc_def)
  have mem: "10 + i \<in> set all_pids" using i4 by (auto simp: all_pids_def)
  have tot: "total_ends s' e = total_ends s e + ends_in e (fds p)" for e
    using total_ends_change [of "10 + i" s' s e] get free mem by (simp add: ends_of_def)
  have pok: "proc_ok p" by (rule kernel_proc_ok [OF ok forked(1)])
  then have "proc_ok ?c" by (simp add: proc_ok_def)
  then have "proc_ok q" if "get_proc s' j = Some q" for j q
    using that fo(1) by (auto simp: get fd_ok_def split: if_splits)
  moreover have "pipe_fits (pipes s' ! k) (readers s' k) (writers s' k)" if "k < 4" for k
    using ref_all_fits [of ?s0 parent p k] fo(1) forked(1) that unfolding tot by (simp add: s')
  moreover have "ids_ok s'" using fo(3) by (simp add: s' ids_ok_def)
  moreover have "length (pipes s') = 4" using fo(1) by (simp add: s' fd_ok_def)
  moreover have "kdisk s' = kdisk s" by (simp add: s')
  ultimately show ?thesis using fo(2) by (simp add: kernel_ok_def fd_ok_def)
qed (use ok room in auto)

lemma fork_mem_ok:
  assumes ok: "mem_ok s" "ids_ok s" and mt: "mapper_ok mt" and run: "fork mt parent rip rsp s = Some (Some child, s')"
  shows "mem_ok s'"
  using run
proof (cases rule: fork_cases)
  case (forked p c m i)
  have i4: "i < 4" using forked(5) ok(2) by (simp add: ids_ok_def)
  have acc: "map_accurate (falloc (mach s))" using ok(1) by (simp add: mem_ok_def)
  note pm = proc_memD [OF mem_okD [OF ok(1) forked(1)]]
  note sp = fork_build_child_spec [OF mt acc forked(4) pm(1-3)]
  let ?s1 = "ref_all (fds p) (s\<lparr>mach := m\<rparr>)"
  have s': "s' = ?s1\<lparr>ptable := (ptable ?s1)[i := Some (forked_proc p parent rip rsp c)]\<rparr>" using forked(3) by simp
  have ids: "ids_ok ?s1" using ok(2) by (simp add: ids_ok_def)
  have get: "get_proc s' j = (if j = 10 + i then Some (forked_proc p parent rip rsp c) else get_proc s j)" for j
    unfolding s' get_proc_ptable [OF ids i4] by simp
  have m': "mach s' = m" by (simp add: s')
  show ?thesis
    by (rule mem_ok_add [OF ok(1), where s' = s' and P = "{pml4_frame c}" and c = "forked_proc p parent rip rsp c" and pid = "10 + i"])
      (use sp pm(2) in \<open>auto simp: get m' split: if_splits\<close>)
qed auto

end
