(* ===== verification/Fork_Props.thy ===== *)
theory Fork_Props
  imports Fork_Inv
begin

text \<open>
  The properties of \<open>fork\<close>, \<open>wait\<close>, \<open>kill\<close> and \<open>exec\<close>, on a concrete booted system with one
  process.
\<close>

section \<open>A booted system\<close>

definition demo_regions :: "mem_region list" where
  "demo_regions = [\<lparr>r_start = 0x100000, r_end = 0x120000, r_usable = True\<rparr>]"

lemma demo_create:
  assumes "falloc m = \<lparr>regions = demo_regions, next_frame = n\<rparr>" "n + 7 \<le> 32" "length img \<le> 4096"
  shows "\<exists>p m'. create_process_from_image demo_mapper lbl img m = (Inr p, m')
           \<and> falloc m' = \<lparr>regions = demo_regions, next_frame = n + 7\<rparr>"
proof -
  have u: "usable_frames \<lparr>regions = demo_regions, next_frame = k\<rparr> = map (\<lambda>j. 0x100000 + 4096 * j) [0..<32]" for k
    using demo_frames [of k] by (simp add: demo_regions_def)
  have a: "alloc_frame OutOfFrames x = (Inr (0x100000 + 4096 * k), x\<lparr>falloc := \<lparr>regions = demo_regions, next_frame = Suc k\<rparr>\<rparr>)"
    if "falloc x = \<lparr>regions = demo_regions, next_frame = k\<rparr>" "k < 32" for x k
    using that by (simp add: alloc_frame_def allocate_frame_def u Let_def)
  show ?thesis
    using assms
    by (simp add: create_process_from_image_def user_p4 a map_page_def demo_mapper_def populate_pml4_def
        upt_4 heap_p4 zero_frame_def copy_to_frame_def page_of_def p4_index_def USER_CODE_ADDR_def USER_STACK_ADDR_def HEAP_START_def)
qed

text \<open>Process 1 was built from a two-byte image; nothing else runs.\<close>

definition empty_kernel :: kstate where
  "empty_kernel = demo_kernel\<lparr>slots := Map.empty\<rparr>"

definition booted :: kstate where
  "booted = snd (init_named_process demo_mapper 1 ''A'' [0xEB, 0xFE] empty_kernel)"

lemma get_empty: "get_proc empty_kernel pid = None"
  using get_demo [of pid] by (auto simp: get_proc_def empty_kernel_def demo_kernel_def split: if_splits)

lemma booted_facts:
  obtains p where "get_proc booted 1 = Some p" "mem_ok booted" "kernel_ok booted" "fds p = [None, None, None, None]"
    "falloc (mach booted) = \<lparr>regions = demo_regions, next_frame = 7\<rparr>" "ptable booted = [None, None, None, None]"
    "\<not> in_child booted" "\<not> fa_locked booted"
proof -
  have fa: "falloc (mach empty_kernel) = \<lparr>regions = demo_regions, next_frame = 0\<rparr>"
    by (simp add: empty_kernel_def demo_kernel_def demo_machine_def demo_regions_def)
  obtain p m where pm: "create_process_from_image demo_mapper ''A'' [0xEB, 0xFE] (mach empty_kernel) = (Inr p, m)"
    "falloc m = \<lparr>regions = demo_regions, next_frame = 7\<rparr>"
    using demo_create [OF fa, of "[0xEB, 0xFE]" "''A''"] by auto
  have b: "booted = empty_kernel\<lparr>mach := m, slots := [1 \<mapsto> p]\<rparr>"
    using pm(1) by (simp add: booted_def init_named_process_def) (simp add: empty_kernel_def)
  have get: "get_proc booted i = (if i = 1 then Some p else None)" for i
    using get_empty [of i] by (auto simp: b get_proc_def split: if_splits)
  have acc: "map_accurate (falloc (mach empty_kernel))"
    using demo_machine_accurate by (simp add: empty_kernel_def demo_kernel_def)
  note sp = create_process_from_image_spec [OF demo_mapper_ok acc pm(1)]
  have f: "grows {pml4_frame p} (mach empty_kernel) m" "distinct (private_frames p)"
    "set (private_frames p) \<subseteq> taken (mach empty_kernel) m" "length (heap_frames p) = 4"
    "heap_used p = 0" "fds p = [None, None, None, None]" using sp(1) by (auto simp: fresh_process_def)
  have mb: "mach booted = m" by (simp add: b)
  have "mem_ok empty_kernel" using acc by (simp add: mem_ok_def get_empty)
  then have "mem_ok booted"
    by (rule mem_ok_add [where P = "{pml4_frame p}" and c = p and pid = 1])
      (use f sp(4) in \<open>auto simp: mb get get_empty split: if_splits\<close>)
  have "total_ends booted e = 0" for e
    by (simp add: total_ends_def ends_of_def get ends_in_def f)
  moreover have "pipes booted = replicate 4 None" "length (ptable booted) = 4" "kdisk booted = blank_disk"
    by (simp_all add: b empty_kernel_def demo_kernel_def numeral_eq_Suc)
  moreover have "proc_ok p" by (simp add: proc_ok_def f entry_ok_fd_def)
  ultimately have "kernel_ok booted"
    by (simp add: kernel_ok_def fd_ok_def get pipe_fits_def ids_ok_def blank_ok)
  with \<open>mem_ok booted\<close> show ?thesis
    using that [of p] get f(6) pm(2) by (simp add: b empty_kernel_def demo_kernel_def)
qed

lemma booted_fork:
  obtains s' where "fork demo_mapper 1 rip rsp booted = Some (Some 10, s')"
proof (rule booted_facts)
  fix p assume b: "get_proc booted 1 = Some p" "mem_ok booted" "falloc (mach booted) = \<lparr>regions = demo_regions, next_frame = 7\<rparr>"
    "ptable booted = [None, None, None, None]" "\<not> in_child booted" "\<not> fa_locked booted"
  have "length (phys (mach booted) (code_frame p)) \<le> 4096" using proc_memD(2) [OF mem_okD [OF b(2,1)]] by simp
  then obtain c m where "create_process_from_image demo_mapper ''forked-child'' (phys (mach booted) (code_frame p)) (mach booted) = (Inr c, m)"
    using demo_create [OF b(3), of "phys (mach booted) (code_frame p)" "''forked-child''"] by auto
  then have "\<exists>s'. fork demo_mapper 1 rip rsp booted = Some (Some 10, s')"
    using b by (simp add: fork_def with_frame_allocator_machine fork_build_child_def alloc_pid_slot_def Let_def)
  then show ?thesis using that by blast
qed

section \<open>Fork\<close>

text \<open>
  C11. \<open>fork\<close> creates an isolated copy.  From a sound state, the new process has a pid that was
  free, its own frames holding the bytes of the parent's code, stack and heap pages, the parent's
  descriptors and heap mark and the resume point of the call; its private slot maps exactly those
  pages; every other process keeps its record, its memory and its translations; no two processes
  share a frame and the pipe counters count the new descriptors.
\<close>

theorem fork_isolated_copy:
  assumes ok: "kernel_ok s" "mem_ok s" and mt: "mapper_ok mt" and p: "get_proc s parent = Some p"
    and run: "fork mt parent rip rsp s = Some (Some child, s')"
  shows "get_proc s child = None \<and> (\<forall>i. i \<noteq> child \<longrightarrow> get_proc s' i = get_proc s i)
    \<and> (\<exists>c. get_proc s' child = Some c \<and> parent_pid c = Some parent \<and> pending_resume c = Some (rip, rsp)
         \<and> fds c = fds p \<and> heap_used c = heap_used p \<and> maps (mach s') (pml4_frame c) = image_layout c
         \<and> phys (mach s') (code_frame c) = phys (mach s) (code_frame p)
         \<and> phys (mach s') (stack_frame c) = phys (mach s) (stack_frame p)
         \<and> (\<forall>i < 4. phys (mach s') (heap_frames c ! i) = phys (mach s) (heap_frames p ! i)))
    \<and> (\<forall>i q. get_proc s i = Some q \<longrightarrow> maps (mach s') (pml4_frame q) = maps (mach s) (pml4_frame q)
         \<and> (\<forall>f \<in> set (private_frames q). phys (mach s') f = phys (mach s) f))
    \<and> kernel_ok s' \<and> mem_ok s'"
  using run
proof (cases rule: fork_cases)
  case (forked p' c m i)
  have ids: "ids_ok s" using ok(1) by (simp add: kernel_ok_def fd_ok_def)
  have i4: "i < 4" using forked(5) ids by (simp add: ids_ok_def)
  have acc: "map_accurate (falloc (mach s))" using ok(2) by (simp add: mem_ok_def)
  have p': "p' = p" using p forked(1) by simp
  note pm = proc_memD [OF mem_okD [OF ok(2) p]]
  note sp = fork_build_child_spec [OF mt acc forked(4) [unfolded p'] pm(1-3)]
  let ?c = "forked_proc p parent rip rsp c" and ?s1 = "ref_all (fds p) (s\<lparr>mach := m\<rparr>)"
  have s': "s' = ?s1\<lparr>ptable := (ptable ?s1)[i := Some ?c]\<rparr>" "child = 10 + i" "mach s' = m"
    using forked(2,3) p' by simp_all
  have ids1: "ids_ok ?s1" using ids by (simp add: ids_ok_def)
  have get: "get_proc s' j = (if j = 10 + i then Some ?c else get_proc s j)" for j
    unfolding s'(1) get_proc_ptable [OF ids1 i4] by simp
  have frame: "maps m (pml4_frame q) = maps (mach s) (pml4_frame q) \<and> (\<forall>f \<in> set (private_frames q). phys m f = phys (mach s) f)"
    if q: "get_proc s j = Some q" for j q
  proof -
    have d: "set (private_frames q) \<inter> taken (mach s) m = {}"
      by (rule proc_mem_grows(2) [OF mem_okD [OF ok(2) q] acc sp(1)])
    then have "pml4_frame q \<noteq> pml4_frame c" using sp(3) by (auto simp: private_frames_def)
    then show ?thesis using d sp(1) by (auto simp: grows_def)
  qed
  have "None \<in> set (ptable s)" using forked(5,6) nth_mem by metis
  then have "kernel_ok s'" by (rule fork_kernel_ok [OF ok(1) run])
  moreover have "mem_ok s'" by (rule fork_mem_ok [OF ok(2) ids mt run])
  moreover have "get_proc s child = None" using forked(6) i4 by (simp add: s'(2) get_proc_def)
  moreover have "maps m (pml4_frame ?c) = image_layout ?c" using sp(4) by (simp add: image_layout_def)
  ultimately show ?thesis using sp frame by (simp add: get s'(2,3))
qed auto

theorem fork_isolated_copy_witness:
  "\<exists>s'. fork demo_mapper 1 0x1000 0x2000 booted = Some (Some 10, s') \<and> kernel_ok s' \<and> mem_ok s'
     \<and> (\<exists>c. get_proc s' 10 = Some c \<and> parent_pid c = Some 1)"
proof (rule booted_facts)
  fix p assume b: "get_proc booted 1 = Some p" "mem_ok booted" "kernel_ok booted"
  obtain s' where run: "fork demo_mapper 1 0x1000 0x2000 booted = Some (Some 10, s')" by (rule booted_fork)
  from fork_isolated_copy [OF b(3,2) demo_mapper_ok b(1) run] run show ?thesis by blast
qed

section \<open>Wait\<close>

text \<open>
  C28. \<open>wait\<close> runs the caller's own child once and comes back to the caller.  Inside a child's run it
  is refused and changes nothing.  When it returns a pid, that is the pid asked for, it named a
  live child of the caller that had not run, the caller is active again under its own page
  table, the nesting flag is clear and the pid is free; whatever the child did in between.
\<close>

theorem wait_reaps_own_child:
  assumes ids: "ids_ok s" and user: "\<And>rip rsp t t'. user rip rsp t = Some t' \<Longrightarrow> ids_ok t \<Longrightarrow> ids_ok t'"
    and run: "wait_for_child user parent child s = Some (r, s')"
  shows "(in_child s \<longrightarrow> r = None \<and> s' = s)
    \<and> (r \<noteq> None \<longrightarrow> r = Some child \<and> active s' = parent \<and> \<not> in_child s' \<and> get_proc s' child = None
         \<and> (\<exists>c p. get_proc s child = Some c \<and> parent_pid c = Some parent \<and> pending_resume c \<noteq> None
               \<and> get_proc s parent = Some p \<and> cr3 (mach s') = pml4_frame p))"
proof (cases "r = None")
  case True
  then show ?thesis using run by (auto simp: wait_for_child_def)
next
  case False
  have nest: "\<not> in_child s" and c10: "10 \<le> child" "child - 10 < 4"
    using run False by (auto simp: wait_for_child_def split: if_splits)
  then obtain c where c: "ptable s ! (child - 10) = Some c" "parent_pid c = Some parent"
    using run False by (auto simp: wait_for_child_def split: option.splits if_splits)
  then obtain p where p: "get_proc s parent = Some p"
    using run False nest c10 by (auto simp: wait_for_child_def split: option.splits)
  have gc: "get_proc s child = Some c" using c(1) c10 by (simp add: get_proc_def)
  obtain x s1 where x: "run_forked_child user child s = Some (x, s1)"
    using run nest c10 c p False by (auto simp: wait_for_child_def)
  let ?s2 = "(write_cr3 (pml4_frame p) s1)\<lparr>active := parent\<rparr>"
  have fin: "x = Inr ()" "r = Some child" "s' = ?s2\<lparr>ptable := (ptable ?s2)[child - 10 := None]\<rparr>"
    using run nest c10 c p x False by (auto simp: wait_for_child_def Let_def split: sum.splits)
  let ?t = "set_proc child (c\<lparr>pending_resume := None\<rparr>) s"
  obtain rip rsp u where u: "pending_resume c = Some (rip, rsp)"
    "user rip rsp ((write_cr3 (pml4_frame c) (?t\<lparr>active := child\<rparr>))\<lparr>in_child := True\<rparr>) = Some u" "s1 = u\<lparr>in_child := False\<rparr>"
    using x fin(1) gc by (auto simp: run_forked_child_def with_process_mut_def enter_ring3_as_forked_child_def
        split: option.splits prod.splits)
  have "ids_ok ((write_cr3 (pml4_frame c) (?t\<lparr>active := child\<rparr>))\<lparr>in_child := True\<rparr>)"
    using ids by (simp add: write_cr3_def ids_ok_def set_proc_def)
  then have "ids_ok u" by (rule user [OF u(2)])
  then have i2: "ids_ok ?s2" by (simp add: u(3) ids_ok_def write_cr3_def)
  have "child - 10 < 4" "10 + (child - 10) = child" using c10 by simp_all
  then have "get_proc s' child = None" unfolding fin(3) get_proc_ptable [OF i2 \<open>child - 10 < 4\<close>] by simp
  then show ?thesis using nest c gc p u(1) fin(2) by (simp add: fin(3) u(3) write_cr3_def)
qed

text \<open>The child exits at once: the kernel's CR3 is restored and no process is active.\<close>

definition exits_at_once :: user_run where
  "exits_at_once rip rsp s = Some ((restore_kernel_cr3 s)\<lparr>active := 0\<rparr>)"

theorem wait_reaps_own_child_witness:
  "\<exists>s1 s2. fork demo_mapper 1 0x1000 0x2000 booted = Some (Some 10, s1)
     \<and> wait_for_child exits_at_once 1 10 s1 = Some (Some 10, s2) \<and> active s2 = 1 \<and> get_proc s2 10 = None"
proof (rule booted_facts)
  fix p assume b: "get_proc booted 1 = Some p" "mem_ok booted" "kernel_ok booted" "\<not> in_child booted"
    "ptable booted = [None, None, None, None]"
  obtain s1 where run: "fork demo_mapper 1 0x1000 0x2000 booted = Some (Some 10, s1)" by (rule booted_fork)
  from run obtain c m where s1: "s1 = (ref_all (fds p) (booted\<lparr>mach := m\<rparr>))\<lparr>ptable := [Some (forked_proc p 1 0x1000 0x2000 c), None, None, None]\<rparr>"
    by (rule fork_cases) (use b in auto)
  let ?c = "forked_proc p 1 0x1000 0x2000 c"
  have ic: "\<not> in_child s1" using b(4) by (simp add: s1 ref_all_in_child)
  have g: "get_proc s1 10 = Some ?c" "get_proc s1 1 = Some p" "ptable s1 ! 0 = Some ?c"
    using b(1) by (simp_all add: s1 get_proc_def)
  have ids: "ids_ok s1" by (simp add: s1 ids_ok_def)
  obtain s2 where w: "wait_for_child exits_at_once 1 10 s1 = Some (Some 10, s2)"
    using g ic by (simp add: wait_for_child_def run_forked_child_def with_process_mut_def enter_ring3_as_forked_child_def
        exits_at_once_def Let_def)
  have ex: "exits_at_once rip rsp t = Some t' \<Longrightarrow> ids_ok t \<Longrightarrow> ids_ok t'" for rip rsp t t'
    by (auto simp: exits_at_once_def restore_kernel_cr3_def write_cr3_def ids_ok_def)
  have "(in_child s1 \<longrightarrow> Some (10::nat) = None \<and> s2 = s1) \<and> (Some (10::nat) \<noteq> None \<longrightarrow> Some 10 = Some (10::nat) \<and> active s2 = 1 \<and> \<not> in_child s2
      \<and> get_proc s2 10 = None \<and> (\<exists>c p. get_proc s1 10 = Some c \<and> parent_pid c = Some 1 \<and> pending_resume c \<noteq> None
               \<and> get_proc s1 1 = Some p \<and> cr3 (mach s2) = pml4_frame p))"
    by (rule wait_reaps_own_child [OF ids ex w])
  then show ?thesis using run w by blast
qed

section \<open>Kill\<close>

text \<open>
  \<open>kill\<close> frees the pid of the caller's own child and touches no other process, but does not
  give back the child's pipe ends: afterwards each pipe's counter exceeds the number of ends that
  exist by exactly the ends the killed child held, so such a pipe is never freed.
\<close>

theorem kill_keeps_pipe_refs:
  assumes ok: "kernel_ok s" and c: "get_proc s target = Some c" "10 \<le> target" "parent_pid c = Some caller"
  shows "\<exists>s'. kill caller target s = (True, s') \<and> get_proc s' target = None
    \<and> (\<forall>i. i \<noteq> target \<longrightarrow> get_proc s' i = get_proc s i)
    \<and> (\<forall>i < 4. \<forall>q. pipes s' ! i = Some q \<longrightarrow>
          read_open q = readers s' i + ends_in (FdPipeRead i) (fds c)
        \<and> write_open q = writers s' i + ends_in (FdPipeWrite i) (fds c))"
proof -
  have ids: "ids_ok s" and fo: "fd_ok s" using ok by (auto simp: kernel_ok_def fd_ok_def)
  have t4: "target - 10 < 4" "ptable s ! (target - 10) = Some c"
    using c(1,2) by (auto simp: get_proc_def split: if_splits)
  let ?s' = "s\<lparr>ptable := (ptable s)[target - 10 := None]\<rparr>"
  have get: "get_proc ?s' i = (if i = target then None else get_proc s i)" for i
    using get_proc_ptable [OF ids t4(1), of None i] c(2) by simp
  have tot: "total_ends s e = total_ends ?s' e + ends_in e (fds c)" for e
    using total_ends_change [of target ?s' s e] get all_pids_props(2) [OF c(1)] c(1) by (simp add: ends_of_def)
  have "read_open q = readers ?s' i + ends_in (FdPipeRead i) (fds c)
      \<and> write_open q = writers ?s' i + ends_in (FdPipeWrite i) (fds c)" if "i < 4" "pipes s ! i = Some q" for i q
    using fd_okD [OF fo that(1)] that(2) tot by (simp add: pipe_fits_def)
  moreover have "kill caller target s = (True, ?s')" using c t4 by (simp add: kill_def)
  ultimately show ?thesis using get by (intro exI [of _ ?s']) simp
qed

text \<open>Process 1 with a pipe forks.\<close>

lemma piped_fork:
  obtains s' c where "fork demo_mapper 1 rip rsp demo_piped = Some (Some 10, s')" "kernel_ok s'"
    "get_proc s' 10 = Some c" "parent_pid c = Some 1" "fds c = [Some (FdPipeRead 0), Some (FdPipeWrite 0), None, None]"
    "pipes s' ! 0 \<noteq> None"
proof -
  let ?p = "demo_proc\<lparr>fds := [Some (FdPipeRead 0), Some (FdPipeWrite 0), None, None]\<rparr>"
  have ok: "kernel_ok demo_piped" by (rule pipe_create_ok [OF demo_kernel_ok demo_piped_run]) (simp add: get_demo)
  have d: "get_proc demo_piped 1 = Some ?p" "\<not> in_child demo_piped" "\<not> fa_locked demo_piped"
    "ptable demo_piped = [None, None, None, None]" "mach demo_piped = demo_machine"
    by (simp_all add: demo_piped_def) (simp_all add: set_proc_def demo_kernel_def)
  have fa: "falloc demo_machine = \<lparr>regions = demo_regions, next_frame = 0\<rparr>"
    by (simp add: demo_machine_def demo_regions_def)
  have "length (phys demo_machine (code_frame ?p)) \<le> 4096" by (simp add: demo_machine_def)
  then obtain c m where cm: "create_process_from_image demo_mapper ''forked-child'' (phys demo_machine (code_frame ?p)) demo_machine = (Inr c, m)"
    using demo_create [OF fa, of "phys demo_machine (code_frame ?p)" "''forked-child''"] by auto
  then obtain s' where run: "fork demo_mapper 1 rip rsp demo_piped = Some (Some 10, s')"
    using d by (simp add: fork_def with_frame_allocator_machine fork_build_child_def alloc_pid_slot_def Let_def)
  have ok': "kernel_ok s'" by (rule fork_kernel_ok [OF ok run]) (simp add: d)
  from run obtain c' where c': "get_proc s' 10 = Some c'" "parent_pid c' = Some 1" "fds c' = fds ?p"
  proof (cases rule: fork_cases)
    case (forked p' c' m' i)
    then have "p' = ?p" "i = 0" using d(1) by simp_all
    then show ?thesis using forked(3) d(4) by (intro that [of "forked_proc ?p 1 rip rsp c'"]) (simp_all add: get_proc_def)
  qed auto
  have "0 < readers s' 0" using total_ends_pos [OF c'(1), of 0] c'(3) by simp
  then have "pipes s' ! 0 \<noteq> None" using fd_okD [of s' 0] ok' by (cases "pipes s' ! 0") (auto simp: kernel_ok_def pipe_fits_def)
  then show ?thesis using that [OF run ok' c'(1,2)] c'(3) by simp
qed

theorem kill_keeps_pipe_refs_witness:
  "\<exists>s1 s2 q. fork demo_mapper 1 0x1000 0x2000 demo_piped = Some (Some 10, s1) \<and> kill 1 10 s1 = (True, s2)
     \<and> pipes s2 ! 0 = Some q \<and> read_open q = readers s2 0 + 1"
proof (rule piped_fork)
  fix s1 c assume f: "fork demo_mapper 1 0x1000 0x2000 demo_piped = Some (Some 10, s1)" "kernel_ok s1"
    "get_proc s1 10 = Some c" "parent_pid c = Some 1" "fds c = [Some (FdPipeRead 0), Some (FdPipeWrite 0), None, None]"
    "pipes s1 ! 0 \<noteq> None"
  obtain s2 where s2: "kill 1 10 s1 = (True, s2)" "\<forall>q. pipes s2 ! 0 = Some q \<longrightarrow> read_open q = readers s2 0 + ends_in (FdPipeRead 0) (fds c)"
    using kill_keeps_pipe_refs [OF f(2,3) _ f(4)] by auto
  have "pipes s2 = pipes s1" using s2(1) by (auto simp: kill_def split: if_splits option.splits)
  with f(1,5,6) s2 show ?thesis by (auto simp: ends_in_def)
qed

section \<open>Exec\<close>

text \<open>
  \<open>exec\<close> replaces exactly the code page.  A program of at most 4096 bytes becomes the process's
  code page, padded with zeros, and its heap mark is reset; its descriptors, frames and parent
  stay, as do all other memory, all translations, the pipes and every other process.  A larger
  program is refused and changes nothing.
\<close>

theorem exec_replaces_code:
  assumes "ids_ok s" "get_proc s pid = Some p" "exec_process pid img s = (r, s')"
  shows "if length img \<le> 4096
    then r = Inr () \<and> phys (mach s') (code_frame p) = img @ replicate (4096 - length img) 0
       \<and> (\<forall>f. f \<noteq> code_frame p \<longrightarrow> phys (mach s') f = phys (mach s) f) \<and> maps (mach s') = maps (mach s)
       \<and> get_proc s' pid = Some (p\<lparr>heap_used := 0\<rparr>) \<and> (\<forall>i. i \<noteq> pid \<longrightarrow> get_proc s' i = get_proc s i)
       \<and> pipes s' = pipes s \<and> kdisk s' = kdisk s
    else r = Inl ImageTooLarge \<and> s' = s"
  using assms by (auto simp: exec_process_def with_process_mut_def copy_to_frame_def zero_frame_def splice_def)

theorem exec_replaces_code_witness:
  "phys (mach (snd (exec_process 1 [0xC3] demo_kernel))) 1 = [0xC3] @ replicate 4095 0"
  using exec_replaces_code [of demo_kernel 1 demo_proc "[0xC3]" "fst (exec_process 1 [0xC3] demo_kernel)"
      "snd (exec_process 1 [0xC3] demo_kernel)"]
  by (simp add: get_demo) (simp add: ids_ok_def demo_kernel_def demo_proc_def)

end
