(* ===== verification/Programs.thy ===== *)
theory Programs
  imports Prelude
begin

text \<open>
  The machine-code programs built into the kernel (\<open>usertest.rs\<close>, \<open>process.rs\<close>, \<open>loader.rs\<close>), the
  images built from them, and the layout checks the kernel runs on them at boot.
\<close>

definition USER_PROGRAM :: bytes where
  "USER_PROGRAM = [
     0x48, 0xBF, 0x80, 0x00, 0x00, 0x50, 0x55, 0x55, 0x00, 0x00, 0xBE, 0x40, 0x00, 0x00, 0x00, 0xB8, 0x00, 0x00, 0x00, 0x00,
     0xCD, 0x80, 0xB8, 0x01, 0x00, 0x00, 0x00, 0xCD, 0x80, 0xEB, 0xFE]"

definition PROCESS_PROGRAM :: bytes where
  "PROCESS_PROGRAM = [
     0xB8, 0x02, 0x00, 0x00, 0x00, 0xBF, 0x10, 0x00, 0x00, 0x00, 0xCD, 0x80, 0xC6, 0x00, 0x00, 0x48, 0xBF, 0x80, 0x00, 0x00,
     0x50, 0x55, 0x55, 0x00, 0x00, 0xBE, 0x40, 0x00, 0x00, 0x00, 0xB8, 0x00, 0x00, 0x00, 0x00, 0xCD, 0x80, 0xB8, 0x01, 0x00,
     0x00, 0x00, 0xCD, 0x80, 0xEB, 0xFE]"

definition SIGSEGV_TEST_PROGRAM :: bytes where
  "SIGSEGV_TEST_PROGRAM = [
     0xB8, 0x00, 0x00, 0x00, 0x00, 0x48, 0xBF, 0x2C, 0x00, 0x00, 0x50, 0x55, 0x55, 0x00, 0x00, 0xBE, 0x0D, 0x00, 0x00, 0x00,
     0xCD, 0x80, 0x48, 0xBB, 0x00, 0x00, 0x78, 0x56, 0x34, 0x12, 0x00, 0x00, 0x48, 0x8B, 0x03, 0xB8, 0x01, 0x00, 0x00, 0x00,
     0xCD, 0x80, 0xEB, 0xFE, 0x53, 0x49, 0x47, 0x53, 0x45, 0x47, 0x56, 0x20, 0x74, 0x65, 0x73, 0x74, 0x0A]"

definition SIGKILL_TEST_PROGRAM :: bytes where
  "SIGKILL_TEST_PROGRAM = [
     0xB8, 0x07, 0x00, 0x00, 0x00, 0xCD, 0x80, 0x89, 0xC7, 0xB8, 0x0D, 0x00, 0x00, 0x00, 0xCD, 0x80, 0xB8, 0x07, 0x00, 0x00,
     0x00, 0xCD, 0x80, 0xB8, 0x01, 0x00, 0x00, 0x00, 0xCD, 0x80, 0xEB, 0xFE]"

definition FDTEST_PROGRAM :: bytes where
  "FDTEST_PROGRAM = [
     0x48, 0xBF, 0xB0, 0x00, 0x00, 0x50, 0x55, 0x55, 0x00, 0x00, 0xBE, 0x06, 0x00, 0x00, 0x00, 0xB8, 0x03, 0x00, 0x00, 0x00,
     0xCD, 0x80, 0x49, 0x89, 0xC2, 0x4C, 0x89, 0xD7, 0x48, 0xBE, 0x00, 0x02, 0x00, 0x60, 0x55, 0x55, 0x00, 0x00, 0xBA, 0x80,
     0x00, 0x00, 0x00, 0xB8, 0x04, 0x00, 0x00, 0x00, 0xCD, 0x80, 0x49, 0x89, 0xC3, 0x48, 0xBF, 0x00, 0x02, 0x00, 0x60, 0x55,
     0x55, 0x00, 0x00, 0x4C, 0x89, 0xDE, 0xB8, 0x00, 0x00, 0x00, 0x00, 0xCD, 0x80, 0x4C, 0x89, 0xD7, 0xB8, 0x06, 0x00, 0x00,
     0x00, 0xCD, 0x80, 0x48, 0xBF, 0xBA, 0x00, 0x00, 0x50, 0x55, 0x55, 0x00, 0x00, 0xBE, 0x05, 0x00, 0x00, 0x00, 0xB8, 0x03,
     0x00, 0x00, 0x00, 0xCD, 0x80, 0x49, 0x89, 0xC2, 0x4C, 0x89, 0xD7, 0x48, 0xBE, 0xC3, 0x00, 0x00, 0x50, 0x55, 0x55, 0x00,
     0x00, 0xBA, 0x45, 0x00, 0x00, 0x00, 0xB8, 0x05, 0x00, 0x00, 0x00, 0xCD, 0x80, 0x4C, 0x89, 0xD7, 0xB8, 0x06, 0x00, 0x00,
     0x00, 0xCD, 0x80, 0xB8, 0x01, 0x00, 0x00, 0x00, 0xCD, 0x80, 0xEB, 0xFE, 0x00, 0x00, 0x00, 0x00, 0x00, 0x00, 0x00, 0x00,
     0x00, 0x00, 0x00, 0x00, 0x00, 0x00, 0x00, 0x00, 0x00, 0x00, 0x00, 0x00, 0x00, 0x00, 0x00, 0x00, 0x66, 0x64, 0x74, 0x65,
     0x73, 0x74, 0x00, 0x00, 0x00, 0x00, 0x66, 0x64, 0x6F, 0x75, 0x74, 0x00, 0x00, 0x00, 0x00, 0x77, 0x72, 0x69, 0x74, 0x74,
     0x65, 0x6E, 0x20, 0x62, 0x79, 0x20, 0x72, 0x69, 0x6E, 0x67, 0x2D, 0x33, 0x20, 0x66, 0x64, 0x77, 0x72, 0x69, 0x74, 0x65,
     0x20, 0x73, 0x79, 0x73, 0x63, 0x61, 0x6C, 0x6C, 0x20, 0x2D, 0x2D, 0x20, 0x6D, 0x69, 0x6C, 0x65, 0x73, 0x74, 0x6F, 0x6E,
     0x65, 0x20, 0x33, 0x35, 0x20, 0x72, 0x65, 0x61, 0x6C, 0x20, 0x66, 0x64, 0x20, 0x70, 0x65, 0x72, 0x73, 0x69, 0x73, 0x74,
     0x65, 0x6E, 0x63, 0x65]"

definition FORK_TEST_PROGRAM :: bytes where
  "FORK_TEST_PROGRAM = [
     0xB8, 0x07, 0x00, 0x00, 0x00, 0xCD, 0x80, 0x48, 0x89, 0xC3, 0x48, 0x83, 0xFB, 0x00, 0x74, 0x38, 0x48, 0xBF, 0x00, 0x02,
     0x00, 0x50, 0x55, 0x55, 0x00, 0x00, 0xBE, 0x40, 0x00, 0x00, 0x00, 0xB8, 0x00, 0x00, 0x00, 0x00, 0xCD, 0x80, 0x48, 0x89,
     0xDF, 0xB8, 0x08, 0x00, 0x00, 0x00, 0xCD, 0x80, 0x48, 0xBF, 0x40, 0x02, 0x00, 0x50, 0x55, 0x55, 0x00, 0x00, 0xBE, 0x40,
     0x00, 0x00, 0x00, 0xB8, 0x00, 0x00, 0x00, 0x00, 0xCD, 0x80, 0xEB, 0x2C, 0x48, 0xBF, 0xC0, 0x02, 0x00, 0x50, 0x55, 0x55,
     0x00, 0x00, 0xBE, 0x08, 0x00, 0x00, 0x00, 0xB8, 0x09, 0x00, 0x00, 0x00, 0xCD, 0x80, 0x48, 0xBF, 0x80, 0x02, 0x00, 0x50,
     0x55, 0x55, 0x00, 0x00, 0xBE, 0x40, 0x00, 0x00, 0x00, 0xB8, 0x00, 0x00, 0x00, 0x00, 0xCD, 0x80, 0xB8, 0x01, 0x00, 0x00,
     0x00, 0xCD, 0x80, 0xEB, 0xFE, 0x00, 0x00, 0x00, 0x00, 0x00, 0x00, 0x00, 0x00, 0x00, 0x00, 0x00, 0x00, 0x00, 0x00, 0x00,
     0x00, 0x00, 0x00, 0x00, 0x00, 0x00, 0x00, 0x00, 0x00, 0x00, 0x00, 0x00, 0x00, 0x00, 0x00, 0x00, 0x00, 0x00, 0x00, 0x00,
     0x00, 0x00, 0x00, 0x00, 0x00, 0x00, 0x00, 0x00, 0x00, 0x00, 0x00, 0x00, 0x00, 0x00, 0x00, 0x00, 0x00, 0x00, 0x00, 0x00,
     0x00, 0x00, 0x00, 0x00, 0x00, 0x00, 0x00, 0x00, 0x00, 0x00, 0x00, 0x00, 0x00, 0x00, 0x00, 0x00, 0x00, 0x00, 0x00, 0x00,
     0x00, 0x00, 0x00, 0x00, 0x00, 0x00, 0x00, 0x00, 0x00, 0x00, 0x00, 0x00, 0x00, 0x00, 0x00, 0x00, 0x00, 0x00, 0x00, 0x00,
     0x00, 0x00, 0x00, 0x00, 0x00, 0x00, 0x00, 0x00, 0x00, 0x00, 0x00, 0x00, 0x00, 0x00, 0x00, 0x00, 0x00, 0x00, 0x00, 0x00,
     0x00, 0x00, 0x00, 0x00, 0x00, 0x00, 0x00, 0x00, 0x00, 0x00, 0x00, 0x00, 0x00, 0x00, 0x00, 0x00, 0x00, 0x00, 0x00, 0x00,
     0x00, 0x00, 0x00, 0x00, 0x00, 0x00, 0x00, 0x00, 0x00, 0x00, 0x00, 0x00, 0x00, 0x00, 0x00, 0x00, 0x00, 0x00, 0x00, 0x00,
     0x00, 0x00, 0x00, 0x00, 0x00, 0x00, 0x00, 0x00, 0x00, 0x00, 0x00, 0x00, 0x00, 0x00, 0x00, 0x00, 0x00, 0x00, 0x00, 0x00,
     0x00, 0x00, 0x00, 0x00, 0x00, 0x00, 0x00, 0x00, 0x00, 0x00, 0x00, 0x00, 0x00, 0x00, 0x00, 0x00, 0x00, 0x00, 0x00, 0x00,
     0x00, 0x00, 0x00, 0x00, 0x00, 0x00, 0x00, 0x00, 0x00, 0x00, 0x00, 0x00, 0x00, 0x00, 0x00, 0x00, 0x00, 0x00, 0x00, 0x00,
     0x00, 0x00, 0x00, 0x00, 0x00, 0x00, 0x00, 0x00, 0x00, 0x00, 0x00, 0x00, 0x00, 0x00, 0x00, 0x00, 0x00, 0x00, 0x00, 0x00,
     0x00, 0x00, 0x00, 0x00, 0x00, 0x00, 0x00, 0x00, 0x00, 0x00, 0x00, 0x00, 0x00, 0x00, 0x00, 0x00, 0x00, 0x00, 0x00, 0x00,
     0x00, 0x00, 0x00, 0x00, 0x00, 0x00, 0x00, 0x00, 0x00, 0x00, 0x00, 0x00, 0x00, 0x00, 0x00, 0x00, 0x00, 0x00, 0x00, 0x00,
     0x00, 0x00, 0x00, 0x00, 0x00, 0x00, 0x00, 0x00, 0x00, 0x00, 0x00, 0x00, 0x00, 0x00, 0x00, 0x00, 0x00, 0x00, 0x00, 0x00,
     0x00, 0x00, 0x00, 0x00, 0x00, 0x00, 0x00, 0x00, 0x00, 0x00, 0x00, 0x00, 0x00, 0x00, 0x00, 0x00, 0x00, 0x00, 0x00, 0x00,
     0x00, 0x00, 0x00, 0x00, 0x00, 0x00, 0x00, 0x00, 0x00, 0x00, 0x00, 0x00, 0x00, 0x00, 0x00, 0x00, 0x00, 0x00, 0x00, 0x00,
     0x00, 0x00, 0x00, 0x00, 0x00, 0x00, 0x00, 0x00, 0x00, 0x00, 0x00, 0x00, 0x00, 0x00, 0x00, 0x00, 0x00, 0x00, 0x00, 0x00,
     0x00, 0x00, 0x00, 0x00, 0x00, 0x00, 0x00, 0x00, 0x00, 0x00, 0x00, 0x00, 0x00, 0x00, 0x00, 0x00, 0x00, 0x00, 0x00, 0x00,
     0x00, 0x00, 0x00, 0x00, 0x00, 0x00, 0x00, 0x00, 0x00, 0x00, 0x00, 0x00, 0x6D, 0x69, 0x6C, 0x65, 0x73, 0x74, 0x6F, 0x6E,
     0x65, 0x20, 0x33, 0x37, 0x3A, 0x20, 0x68, 0x65, 0x6C, 0x6C, 0x6F, 0x20, 0x66, 0x72, 0x6F, 0x6D, 0x20, 0x74, 0x68, 0x65,
     0x20, 0x50, 0x41, 0x52, 0x45, 0x4E, 0x54, 0x20, 0x61, 0x66, 0x74, 0x65, 0x72, 0x20, 0x66, 0x6F, 0x72, 0x6B, 0x28, 0x29,
     0x20, 0x20, 0x20, 0x20, 0x20, 0x20, 0x20, 0x20, 0x20, 0x20, 0x20, 0x20, 0x20, 0x20, 0x20, 0x20, 0x6D, 0x69, 0x6C, 0x65,
     0x73, 0x74, 0x6F, 0x6E, 0x65, 0x20, 0x33, 0x37, 0x3A, 0x20, 0x50, 0x41, 0x52, 0x45, 0x4E, 0x54, 0x20, 0x6F, 0x62, 0x73,
     0x65, 0x72, 0x76, 0x65, 0x64, 0x20, 0x77, 0x61, 0x69, 0x74, 0x28, 0x29, 0x20, 0x72, 0x65, 0x61, 0x70, 0x20, 0x74, 0x68,
     0x65, 0x20, 0x63, 0x68, 0x69, 0x6C, 0x64, 0x20, 0x20, 0x20, 0x20, 0x20, 0x20, 0x20, 0x20, 0x20, 0x20, 0x20, 0x20, 0x20,
     0x6D, 0x69, 0x6C, 0x65, 0x73, 0x74, 0x6F, 0x6E, 0x65, 0x20, 0x33, 0x37, 0x3A, 0x20, 0x43, 0x48, 0x49, 0x4C, 0x44, 0x20,
     0x66, 0x61, 0x6C, 0x6C, 0x62, 0x61, 0x63, 0x6B, 0x20, 0x2D, 0x2D, 0x20, 0x65, 0x78, 0x65, 0x63, 0x28, 0x27, 0x74, 0x65,
     0x73, 0x74, 0x70, 0x72, 0x6F, 0x67, 0x27, 0x29, 0x20, 0x66, 0x61, 0x69, 0x6C, 0x65, 0x64, 0x20, 0x20, 0x20, 0x20, 0x20,
     0x20, 0x20, 0x20, 0x20, 0x74, 0x65, 0x73, 0x74, 0x70, 0x72, 0x6F, 0x67]"

definition MESSAGE_OFFSET :: nat where [simp]: "MESSAGE_OFFSET = 128"
definition MESSAGE_LEN :: nat where [simp]: "MESSAGE_LEN = 64"
definition HEAP_MARKER_PATCH_OFFSET :: nat where [simp]: "HEAP_MARKER_PATCH_OFFSET = 14"

definition TEST_PROGRAM_MESSAGE :: bytes where
  "TEST_PROGRAM_MESSAGE = bytes_of ''hello from a REAL FILE on disk -- milestone 34 loader confirmed''"
definition FDTEST_READ_PATH :: bytes where "FDTEST_READ_PATH = bytes_of ''fdtest''"
definition FDOUT_WRITE_CONTENT :: bytes where
  "FDOUT_WRITE_CONTENT = bytes_of ''written by ring-3 fdwrite syscall -- milestone 35 real fd persistence''"
definition FORK_MSG_PARENT :: bytes where
  "FORK_MSG_PARENT = bytes_of ''milestone 37: hello from the PARENT after fork()''"
definition FORK_MSG_WAITDONE :: bytes where
  "FORK_MSG_WAITDONE = bytes_of ''milestone 37: PARENT observed wait() reap the child''"
definition FORK_MSG_CHILD_FALLBACK :: bytes where
  "FORK_MSG_CHILD_FALLBACK = bytes_of (''milestone 37: CHILD fallback -- exec('' @ [CHR 0x27] @ ''testprog'' @ [CHR 0x27] @ '') failed'')"
definition FORK_EXEC_PATH :: bytes where "FORK_EXEC_PATH = bytes_of ''testprog''"
definition SIGSEGV_MSG :: bytes where "SIGSEGV_MSG = bytes_of (''SIGSEGV test'' @ [CHR 0x0A])"

section \<open>Images\<close>

text \<open>Spaces over the message region, then the message truncated to it.\<close>

definition put_message :: "bytes \<Rightarrow> bytes \<Rightarrow> bytes" where
  "put_message img msg =
     (let n = min (length msg) MESSAGE_LEN
      in splice (splice img MESSAGE_OFFSET (replicate MESSAGE_LEN 0x20)) MESSAGE_OFFSET (take n msg))"

definition process_image :: "bytes \<Rightarrow> u8 \<Rightarrow> bytes" where
  "process_image msg marker =
     (let len = max (MESSAGE_OFFSET + MESSAGE_LEN) (length PROCESS_PROGRAM);
          img = (splice (replicate len 0) 0 PROCESS_PROGRAM)[HEAP_MARKER_PATCH_OFFSET := marker]
      in put_message img msg)"

definition build_test_program_image :: bytes where
  "build_test_program_image =
     put_message (splice (replicate (MESSAGE_OFFSET + MESSAGE_LEN) 0) 0 USER_PROGRAM) TEST_PROGRAM_MESSAGE"

section \<open>Boot-time layout checks\<close>

definition region_is :: "bytes \<Rightarrow> nat \<Rightarrow> bytes \<Rightarrow> bool" where
  "region_is prog off msg \<longleftrightarrow> slice prog off (off + length msg) = msg"

definition self_test_fdtest_program :: bool where
  "self_test_fdtest_program \<longleftrightarrow> slice FDTEST_PROGRAM 176 182 = FDTEST_READ_PATH
     \<and> slice FDTEST_PROGRAM 186 191 = bytes_of ''fdout'' \<and> slice FDTEST_PROGRAM 195 264 = FDOUT_WRITE_CONTENT"

definition self_test_fork_test_program :: bool where
  "self_test_fork_test_program \<longleftrightarrow> region_is FORK_TEST_PROGRAM 512 FORK_MSG_PARENT
     \<and> region_is FORK_TEST_PROGRAM 576 FORK_MSG_WAITDONE
     \<and> region_is FORK_TEST_PROGRAM 640 FORK_MSG_CHILD_FALLBACK
     \<and> region_is FORK_TEST_PROGRAM 704 FORK_EXEC_PATH"

definition sigsegv_layout_ok :: bool where
  "sigsegv_layout_ok \<longleftrightarrow> region_is SIGSEGV_TEST_PROGRAM 44 SIGSEGV_MSG"

text \<open>
  The boot-time layout self-tests pass: every message and path is at the offset of its
  program where the machine code looks for it, and every program fits in one code page.
\<close>

theorem program_layouts_ok:
  "self_test_fdtest_program \<and> self_test_fork_test_program \<and> sigsegv_layout_ok
   \<and> list_all (\<lambda>p. length p \<le> 4096) [USER_PROGRAM, PROCESS_PROGRAM, SIGSEGV_TEST_PROGRAM,
         SIGKILL_TEST_PROGRAM, FDTEST_PROGRAM, FORK_TEST_PROGRAM, build_test_program_image]"
proof -
  have "self_test_fdtest_program" by code_simp
  moreover have "self_test_fork_test_program" by code_simp
  moreover have "sigsegv_layout_ok" by code_simp
  ultimately show ?thesis
    by (simp add: USER_PROGRAM_def PROCESS_PROGRAM_def SIGSEGV_TEST_PROGRAM_def SIGKILL_TEST_PROGRAM_def
        FDTEST_PROGRAM_def FORK_TEST_PROGRAM_def build_test_program_image_def put_message_def Let_def)
qed

text \<open>
  The image of a built-in process is what its machine code expects: 192 bytes, the program at
  offset 0 with its heap marker patched into the immediate byte of the \<open>mov byte [rax], imm8\<close>
  instruction (\<open>C6 00\<close> precedes it), and at offset 128 exactly 64 bytes of message, cut off or
  padded with spaces.
\<close>

theorem process_image_layout:
  "length (process_image msg marker) = 192
   \<and> slice (process_image msg marker) 0 46 = PROCESS_PROGRAM[14 := marker]
   \<and> slice (process_image msg marker) 12 15 = [0xC6, 0x00, marker]
   \<and> slice (process_image msg marker) 128 192 = take 64 (msg @ replicate 64 0x20)"
proof -
  have len: "length PROCESS_PROGRAM = 46" by (simp add: PROCESS_PROGRAM_def)
  let ?img = "(PROCESS_PROGRAM @ replicate 146 0)[14 := marker]"
  have img: "(splice (replicate 192 0) 0 PROCESS_PROGRAM)[14 := marker] = ?img"
    by (simp add: splice_def len)
  have p: "process_image msg marker = put_message ?img msg"
    unfolding process_image_def len by (simp add: img Let_def)
  have pm: "put_message ?img msg = take 128 ?img @ take 64 (msg @ replicate 64 0x20)"
    by (simp add: put_message_def splice_def Let_def len min_def)
  have t: "take 128 ?img = PROCESS_PROGRAM[14 := marker] @ replicate 82 0"
    by (simp add: list_update_append len take_update_swap)
  have "slice (process_image msg marker) 0 46 = PROCESS_PROGRAM[14 := marker]"
    by (simp add: p pm t slice_def len)
  moreover have "slice (process_image msg marker) 12 15 = slice (PROCESS_PROGRAM[14 := marker]) 12 15"
    by (simp add: p pm t slice_def len)
  moreover have "slice (PROCESS_PROGRAM[14 := marker]) 12 15 = [0xC6, 0x00, marker]"
    by (simp add: PROCESS_PROGRAM_def slice_def)
  moreover have "slice (process_image msg marker) 128 192 = take 64 (msg @ replicate 64 0x20)"
    by (simp add: p pm t slice_def len)
  ultimately show ?thesis by (simp add: p pm t len)
qed

end
