(* ===== verification/Loader.thy ===== *)
theory Loader
  imports Fork_Props Programs
begin

text \<open>
  The program loader (\<open>kernel/src/loader.rs\<close>): \<open>runfile\<close> and \<open>runelf\<close>, the seeding of the test
  programs, the boot-time creation of the built-in processes and the pipe self-test
  (\<open>kernel/src/process.rs\<close>).  A result \<open>None\<close> means that the command never returns.
\<close>

datatype loader_error = ReadFailed fs_error | ProgramTooLarge | ParseFailed elf_error | ProcFailed proc_error | Panicked

definition check_program_size :: "nat \<Rightarrow> loader_error + unit" where
  "check_program_size len = (if MAX_CODE_IMAGE_BYTES < len then Inl ProgramTooLarge else Inr ())"

definition proc_failed :: "(proc_error + 'a) \<Rightarrow> loader_error + 'a" where
  "proc_failed r = (case r of Inl e \<Rightarrow> Inl (ProcFailed e) | Inr a \<Rightarrow> Inr a)"

definition run_file :: "map_to_fn \<Rightarrow> user_run \<Rightarrow> bytes \<Rightarrow> kstate \<Rightarrow> ((loader_error + unit) \<times> kstate) option" where
  "run_file mt user path s =
     (case read_file (kdisk s) path of
        Inl e \<Rightarrow> Some (Inl (ReadFailed e), s)
      | Inr img \<Rightarrow>
          (case check_program_size (length img) of
             Inl e \<Rightarrow> Some (Inl e, s)
           | Inr _ \<Rightarrow>
               (case with_frame_allocator (\<lambda>s. Some (create_loaded_process mt img s)) s of
                  None \<Rightarrow> None
                | Some (Inl e, s) \<Rightarrow> Some (Inl (ProcFailed e), s)
                | Some (Inr _, s) \<Rightarrow> map_option (apfst proc_failed) (run_loaded_process user s))))"

definition run_elf :: "map_to_fn \<Rightarrow> user_run \<Rightarrow> bytes \<Rightarrow> kstate \<Rightarrow> ((loader_error + unit) \<times> kstate) option" where
  "run_elf mt user path s =
     (case read_file (kdisk s) path of
        Inl e \<Rightarrow> Some (Inl (ReadFailed e), s)
      | Inr img \<Rightarrow>
          (case parse img of
             None \<Rightarrow> Some (Inl Panicked, s)
           | Some (Inl e) \<Rightarrow> Some (Inl (ParseFailed e), s)
           | Some (Inr elf) \<Rightarrow>
               map_option (apfst proc_failed) (with_frame_allocator (load_and_run_elf mt user img elf) s)))"

text \<open>The \<open>seed*\<close> commands; the embedded ELF files are assets of the build.\<close>

definition seed :: "bytes \<Rightarrow> bytes \<Rightarrow> disk \<Rightarrow> (loader_error + nat) \<times> disk" where
  "seed path img d =
     (case write_file d path img of (Inl e, d') \<Rightarrow> (Inl (ReadFailed e), d') | (Inr _, d') \<Rightarrow> (Inr (length img), d'))"

definition seed_test_program :: "disk \<Rightarrow> (loader_error + nat) \<times> disk" where
  "seed_test_program d = seed (bytes_of ''testprog'') build_test_program_image d"

definition seed_fdtest_program :: "disk \<Rightarrow> (loader_error + nat) \<times> disk" where
  "seed_fdtest_program d = seed (bytes_of ''fdtestprog'') FDTEST_PROGRAM d"

definition seed_test_elf :: "bytes \<Rightarrow> disk \<Rightarrow> (loader_error + nat) \<times> disk" where
  "seed_test_elf asset d = seed (bytes_of ''testelf'') asset d"

definition seed_pipetest_elf :: "bytes \<Rightarrow> disk \<Rightarrow> (loader_error + nat) \<times> disk" where
  "seed_pipetest_elf asset d = seed (bytes_of ''pipetest'') asset d"

section \<open>Boot-time processes\<close>

definition init_test_processes :: "map_to_fn \<Rightarrow> kstate \<Rightarrow> (proc_error + unit) \<times> kstate" where
  "init_test_processes mt s =
     andThen (init_named_process mt 1 ''A''
                (process_image (bytes_of ''hello from process A -- via real write(ptr,len)!'') 0x41) s) (\<lambda>_ s.
       init_named_process mt 2 ''B''
         (process_image (bytes_of ''hello from process B -- via real write(ptr,len)!'') 0x42) s)"

definition init_fdtest_process :: "map_to_fn \<Rightarrow> kstate \<Rightarrow> (proc_error + unit) \<times> kstate" where
  "init_fdtest_process mt s = init_named_process mt 4 ''fdtest'' FDTEST_PROGRAM s"

definition init_fork_test_process :: "map_to_fn \<Rightarrow> kstate \<Rightarrow> (proc_error + unit) \<times> kstate" where
  "init_fork_test_process mt s = init_named_process mt 5 ''fork-test'' FORK_TEST_PROGRAM s"

definition init_sigsegv_test_process :: "map_to_fn \<Rightarrow> kstate \<Rightarrow> (proc_error + unit) \<times> kstate" where
  "init_sigsegv_test_process mt s = init_named_process mt 6 ''sigsegv-test'' SIGSEGV_TEST_PROGRAM s"

definition init_sigkill_test_process :: "map_to_fn \<Rightarrow> kstate \<Rightarrow> (proc_error + unit) \<times> kstate" where
  "init_sigkill_test_process mt s = init_named_process mt 7 ''sigkill-test'' SIGKILL_TEST_PROGRAM s"

text \<open>Boot logs a failure and goes on.\<close>

definition init_processes :: "map_to_fn \<Rightarrow> kstate \<Rightarrow> kstate" where
  "init_processes mt s =
     (let s = snd (init_test_processes mt s); s = snd (init_fdtest_process mt s);
          s = snd (init_fork_test_process mt s); s = snd (init_sigsegv_test_process mt s)
      in snd (init_sigkill_test_process mt s))"

section \<open>The pipe self-test\<close>

text \<open>Write through one descriptor, read through another, and compare both results.\<close>

definition pipe_check :: "nat \<Rightarrow> nat \<Rightarrow> nat \<Rightarrow> bytes \<Rightarrow> kstate \<Rightarrow> bool \<times> kstate" where
  "pipe_check pid wfd rfd msg s =
     (case write_fd pid wfd msg s of
        (w, s) \<Rightarrow> case read_fd pid rfd (length msg) s of
          (r, s) \<Rightarrow> (w = Some (length msg) \<and> r = Some msg, s))"

definition self_test_pipe_mechanics :: "kstate \<Rightarrow> bool \<times> kstate" where
  "self_test_pipe_mechanics s =
     (case pipe_create 5 s of
        (None, s) \<Rightarrow> (False, s)
      | (Some (rfd, wfd), s) \<Rightarrow>
          (case pipe_check 5 wfd rfd (bytes_of ''pipe self-test payload'') s of
             (ok1, s) \<Rightarrow>
               (case (case dup_fd 5 wfd s of
                        (Some dup_wfd, s) \<Rightarrow> pipe_check 5 dup_wfd rfd (bytes_of ''via-dup'') s
                      | (None, s) \<Rightarrow> (False, s)) of
                  (ok2, s) \<Rightarrow>
                    (case (case dup2_fd 5 rfd 3 s of
                             (Some True, s) \<Rightarrow> pipe_check 5 wfd 3 (bytes_of ''via-dup2'') s
                           | (_, s) \<Rightarrow> (False, s)) of
                       (ok3, s) \<Rightarrow> (ok1 \<and> ok2 \<and> ok3, s)))))"

section \<open>The self-test passes and fills the table\<close>

text \<open>Process \<open>pid\<close> holds the descriptors \<open>t\<close>; pipe \<open>i\<close> is sound and \<open>bs\<close> waits in it.\<close>

definition waiting :: "nat \<Rightarrow> kstate \<Rightarrow> fd_entry option list \<Rightarrow> nat \<Rightarrow> bytes \<Rightarrow> bool" where
  "waiting pid s t i bs \<longleftrightarrow> ids_ok s \<and> (\<exists>p. get_proc s pid = Some p \<and> fds p = t) \<and> i < length (pipes s)
     \<and> (\<exists>q. pipes s ! i = Some q \<and> pipe_ok q \<and> ring_contents q = bs)"

abbreviation testing :: "kstate \<Rightarrow> fd_entry option list \<Rightarrow> nat \<Rightarrow> bool" where
  "testing s t i \<equiv> waiting 5 s t i []"

lemma ring_opens_irrelevant [simp]:
  "pipe_ok (q\<lparr>read_open := a\<rparr>) = pipe_ok q" "pipe_ok (q\<lparr>write_open := a\<rparr>) = pipe_ok q"
  "ring_contents (q\<lparr>read_open := a\<rparr>) = ring_contents q" "ring_contents (q\<lparr>write_open := a\<rparr>) = ring_contents q"
  by (simp_all add: pipe_ok_def ring_contents_def)

lemma pipe_put:
  assumes st: "waiting pid s t i []" and w: "fd_at t wfd = Some (FdPipeWrite i)" and len: "length msg \<le> 512"
  shows "\<exists>s'. write_fd pid wfd msg s = (Some (length msg), s') \<and> waiting pid s' t i msg \<and> s' = s\<lparr>pipes := pipes s'\<rparr>"
proof -
  obtain p q where p: "get_proc s pid = Some p" "fds p = t" and q: "pipes s ! i = Some q" "pipe_ok q" "ring_contents q = []"
    and i: "i < length (pipes s)" and ids: "ids_ok s"
    using st by (auto simp: waiting_def)
  obtain n q1 where q1: "ring_write q msg = (n, q1)" by fastforce
  have n: "n = length msg" using ring.wr_count [OF q(2), of msg] q1 q(3) len by simp
  have c1: "pipe_ok q1" "ring_contents q1 = msg"
    using ring.wr_ok [OF q(2), of msg] ring.wr_pending [OF q(2), of msg] q1 q(3) n by simp_all
  let ?s1 = "s\<lparr>pipes := (pipes s)[i := Some q1]\<rparr>"
  have "write_fd pid wfd msg s = (Some (length msg), ?s1)"
    using p w q q1 n by (simp add: write_fd_def pipe_write_def proc_fd_def)
  moreover have "waiting pid ?s1 t i msg" using ids p i c1 by (simp add: waiting_def ids_ok_def)
  ultimately show ?thesis by (intro exI [of _ ?s1]) simp
qed

lemma pipe_take:
  assumes st: "waiting pid s t i msg" and r: "fd_at t rfd = Some (FdPipeRead i)"
  shows "\<exists>s'. read_fd pid rfd (length msg) s = (Some msg, s') \<and> waiting pid s' t i [] \<and> s' = s\<lparr>pipes := pipes s'\<rparr>"
proof -
  obtain p q where p: "get_proc s pid = Some p" "fds p = t" and q: "pipes s ! i = Some q" "pipe_ok q" "ring_contents q = msg"
    and i: "i < length (pipes s)" and ids: "ids_ok s"
    using st by (auto simp: waiting_def)
  obtain out q2 where q2: "ring_read q (length msg) = (out, q2)" by fastforce
  have c2: "out = msg" "pipe_ok q2" "ring_contents q2 = []"
    using ring.rd_out [OF q(2), of "length msg"] ring.rd_ok [OF q(2), of "length msg"]
      ring.rd_pending [OF q(2), of "length msg"] q2 q(3) by simp_all
  let ?s2 = "s\<lparr>pipes := (pipes s)[i := Some q2]\<rparr>"
  have "read_fd pid rfd (length msg) s = (Some msg, ?s2)"
    using p r q q2 c2(1) by (simp add: read_fd_def pipe_read_def proc_fd_def)
  moreover have "waiting pid ?s2 t i []" using ids p i c2 by (simp add: waiting_def ids_ok_def)
  ultimately show ?thesis by (intro exI [of _ ?s2]) simp
qed

lemma pipe_check_passes:
  assumes st: "testing s t i" and w: "fd_at t wfd = Some (FdPipeWrite i)" and r: "fd_at t rfd = Some (FdPipeRead i)"
    and len: "length msg \<le> 512"
  shows "\<exists>s'. pipe_check 5 wfd rfd msg s = (True, s') \<and> testing s' t i"
proof -
  obtain s1 where s1: "write_fd 5 wfd msg s = (Some (length msg), s1)" "waiting 5 s1 t i msg" using pipe_put [OF st w len] by blast
  obtain s2 where "read_fd 5 rfd (length msg) s1 = (Some msg, s2)" "testing s2 t i" using pipe_take [OF s1(2) r] by blast
  with s1(1) show ?thesis by (simp add: pipe_check_def)
qed

lemma pipe_check_steps: "pipe_check pid wfd rfd msg s = (b, s') \<Longrightarrow> fd_step\<^sup>*\<^sup>* s s'"
proof -
  assume run: "pipe_check pid wfd rfd msg s = (b, s')"
  obtain w s1 where w: "write_fd pid wfd msg s = (w, s1)" by fastforce
  obtain r s2 where r: "read_fd pid rfd (length msg) s1 = (r, s2)" by fastforce
  have "s' = s2" using run w r by (simp add: pipe_check_def)
  with step_write [OF w] step_read [OF r] show ?thesis by (meson converse_rtranclp_into_rtranclp r_into_rtranclp)
qed

lemma waiting_put:
  assumes st: "waiting pid s t i []" and k: "k < length t" and e: "e \<in> {FdPipeRead i, FdPipeWrite i}"
    and p: "get_proc s pid = Some p"
  shows "waiting pid (set_proc pid (p\<lparr>fds := t[k := Some e]\<rparr>) (ref_pipe e s)) (t[k := Some e]) i []"
proof -
  obtain q where q: "pipes s ! i = Some q" "pipe_ok q" "ring_contents q = []" "i < length (pipes s)" "ids_ok s"
    using st by (auto simp: waiting_def)
  have ids: "ids_ok (ref_pipe e s)" using q(5) by (simp add: ids_ok_def)
  have "\<exists>q'. pipes (ref_pipe e s) ! i = Some q' \<and> pipe_ok q' \<and> ring_contents q' = []"
    using q e by (auto simp: ref_pipe_def)
  then show ?thesis using q(4) get_set [OF ids, of pid p] p ids by (simp add: waiting_def)
qed

lemma pipe_made:
  assumes ids: "ids_ok s" and p: "get_proc s pid = Some p" "fds p = [None, None, None, None]" and free: "None \<in> set (pipes s)"
  obtains i s' where "pipe_create pid s = (Some (0, 1), s')"
    "waiting pid s' [Some (FdPipeRead i), Some (FdPipeWrite i), None, None] i []"
    "s' = s\<lparr>slots := slots s', ptable := ptable s', pipes := pipes s'\<rparr>"
proof -
  obtain i where i: "position (\<lambda>p. p = None) (pipes s) = Some i" "i < length (pipes s)"
    using free by (cases "position (\<lambda>p. p = None) (pipes s)") (auto simp: position_None dest: position_SomeD)
  let ?t = "[Some (FdPipeRead i), Some (FdPipeWrite i), None, None]" and ?s0 = "s\<lparr>pipes := (pipes s)[i := Some new_pipe]\<rparr>"
  let ?s1 = "set_proc pid (p\<lparr>fds := ?t\<rparr>) ?s0"
  have ids0: "ids_ok ?s0" "get_proc ?s0 pid = Some p" using ids p(1) by (simp_all add: ids_ok_def)
  have "free_slots [None, None, None, None] = [0, 1, 2, 3]" by (simp add: free_slots_def upt_rec)
  then have "pipe_create pid s = (Some (0, 1), ?s1)" using p i(1) by (simp add: pipe_create_def with_process_mut_def Let_def)
  moreover have "waiting pid ?s1 ?t i []" using get_set [OF ids0] ids0(1) i(2) by (simp add: waiting_def)
  moreover have "?s1 = s\<lparr>slots := slots ?s1, ptable := ptable ?s1, pipes := pipes ?s1\<rparr>" by (simp add: set_proc_def)
  ultimately show ?thesis by (rule that)
qed

text \<open>
  The boot-time pipe self-test passes and leaves its descriptors open.  If process 5 has an
  empty table and a pipe slot is free, every check of the test succeeds and the state stays
  sound; but the four descriptors it made are never closed: the process's table is full
  afterwards, so every later \<open>open\<close>, \<open>dup\<close> or \<open>pipe\<close> of that process fails.
\<close>

theorem pipe_self_test:
  assumes ok: "kernel_ok s" and p: "get_proc s 5 = Some p" "fds p = [None, None, None, None]" and free: "None \<in> set (pipes s)"
  shows "\<exists>s' p'. self_test_pipe_mechanics s = (True, s') \<and> kernel_ok s' \<and> get_proc s' 5 = Some p'
     \<and> None \<notin> set (fds p') \<and> (\<forall>path. fst (open_file 5 path s') = None)"
proof -
  have ids: "ids_ok s" using ok by (simp add: kernel_ok_def fd_ok_def)
  obtain i s1 where c: "pipe_create 5 s = (Some (0, 1), s1)"
    and t1: "testing s1 [Some (FdPipeRead i), Some (FdPipeWrite i), None, None] i"
    by (rule pipe_made [OF ids p free]) (rule that)
  let ?R = "Some (FdPipeRead i)" and ?W = "Some (FdPipeWrite i)"
  obtain s2 where s2: "pipe_check 5 1 0 (bytes_of ''pipe self-test payload'') s1 = (True, s2)" "testing s2 [?R, ?W, None, None] i"
    using pipe_check_passes [OF t1, of 1 0 "bytes_of ''pipe self-test payload''"] by (auto simp: fd_at_def)
  obtain p2 where p2: "get_proc s2 5 = Some p2" "fds p2 = [?R, ?W, None, None]" using s2(2) by (auto simp: waiting_def)
  let ?s3 = "set_proc 5 (p2\<lparr>fds := [?R, ?W, ?W, None]\<rparr>) (ref_pipe (FdPipeWrite i) s2)"
  have d: "dup_fd 5 1 s2 = (Some 2, ?s3)"
    using p2 by (simp add: dup_fd_def proc_fd_def fd_at_def with_process_mut_def)
  have t3: "testing ?s3 [?R, ?W, ?W, None] i" using waiting_put [OF s2(2), of 2 "FdPipeWrite i" p2] p2 by simp
  obtain s4 where s4: "pipe_check 5 2 0 (bytes_of ''via-dup'') ?s3 = (True, s4)" "testing s4 [?R, ?W, ?W, None] i"
    using pipe_check_passes [OF t3, of 2 0 "bytes_of ''via-dup''"] by (auto simp: fd_at_def)
  obtain p4 where p4: "get_proc s4 5 = Some p4" "fds p4 = [?R, ?W, ?W, None]" using s4(2) by (auto simp: waiting_def)
  let ?s5 = "set_proc 5 (p4\<lparr>fds := [?R, ?W, ?W, ?R]\<rparr>) (ref_pipe (FdPipeRead i) s4)"
  have d2: "dup2_fd 5 0 3 s4 = (Some True, ?s5)"
    using p4 by (simp add: dup2_fd_def proc_fd_def fd_at_def with_process_mut_def)
  have t5: "testing ?s5 [?R, ?W, ?W, ?R] i" using waiting_put [OF s4(2), of 3 "FdPipeRead i" p4] p4 by simp
  obtain s6 where s6: "pipe_check 5 1 3 (bytes_of ''via-dup2'') ?s5 = (True, s6)" "testing s6 [?R, ?W, ?W, ?R] i"
    using pipe_check_passes [OF t5, of 1 3 "bytes_of ''via-dup2''"] by (auto simp: fd_at_def)
  obtain p6 where p6: "get_proc s6 5 = Some p6" "fds p6 = [?R, ?W, ?W, ?R]" using s6(2) by (auto simp: waiting_def)
  have run: "self_test_pipe_mechanics s = (True, s6)"
    using c s2(1) d s4(1) d2 s6(1) by (simp add: self_test_pipe_mechanics_def)
  have "fd_step\<^sup>*\<^sup>* s s1" using step_pipe [OF c] p(1) by auto
  also have "fd_step\<^sup>*\<^sup>* s1 s2" by (rule pipe_check_steps [OF s2(1)])
  also have "fd_step\<^sup>*\<^sup>* s2 ?s3" using step_dup [OF d p2(1)] p2(2) by auto
  also have "fd_step\<^sup>*\<^sup>* ?s3 s4" by (rule pipe_check_steps [OF s4(1)])
  also have "fd_step\<^sup>*\<^sup>* s4 ?s5" using step_dup2 [OF d2] by auto
  also have "fd_step\<^sup>*\<^sup>* ?s5 s6" by (rule pipe_check_steps [OF s6(1)])
  finally have "kernel_ok s6" using fd_steps_ok ok by blast
  moreover have "fst (open_file 5 path s6) = None" for path
    using p6 by (simp add: open_file_def with_process_mut_def open_file_at_def Let_def split: prod.split)
  ultimately show ?thesis using run p6 by auto
qed

theorem pipe_self_test_witness: "\<exists>s'. self_test_pipe_mechanics (demo_at 5) = (True, s') \<and> kernel_ok s'"
proof -
  have "kernel_ok (demo_at 5)" "get_proc (demo_at 5) 5 = Some demo_proc" "fds demo_proc = [None, None, None, None]"
    "None \<in> set (pipes (demo_at 5))"
    by (simp_all add: demo_at_ok get_demo_at) (simp_all add: demo_at_def demo_kernel_def demo_proc_def)
  from pipe_self_test [OF this] show ?thesis by blast
qed

definition never :: "'e \<Rightarrow> ('e + 'a) \<times> 's \<Rightarrow> bool" where
  "never e r \<longleftrightarrow> fst r \<noteq> Inl e"

lemma never_andThen: "never e r \<Longrightarrow> (\<And>a s. never e (k a s)) \<Longrightarrow> never e (andThen r k)"
  by (cases r; cases "fst r") (auto simp: never_def)

lemma never_alloc_map: "never ImageTooLarge (alloc_frame OutOfFrames m)" "never ImageTooLarge (map_page mt MapFailed p page f m)"
  by (auto simp: never_def alloc_frame_def map_page_def split: prod.split option.split bool.split)

lemma never_Inr: "never e (Inr a, s)"
  by (simp add: never_def)

lemma never_map_heap: "never ImageTooLarge (map_heap mt p is m)"
  by (induction "is" arbitrary: m) (auto intro!: never_andThen never_alloc_map never_Inr)

lemma create_image_fits:
  "length img \<le> 4096 \<Longrightarrow> never ImageTooLarge (create_process_from_image mt lbl img m)"
  unfolding create_process_from_image_def
  by (auto intro!: never_andThen never_alloc_map never_map_heap never_Inr simp: user_p4)

section \<open>A program loaded by \<open>runelf\<close> cannot fork\<close>

text \<open>The run of a program that forks, does not wait, and exits.\<close>

definition forks_then_exits :: "map_to_fn \<Rightarrow> user_run" where
  "forks_then_exits mt rip rsp s =
     (case fork mt (active s) rip rsp s of
        None \<Rightarrow> None
      | Some (_, s') \<Rightarrow> Some ((restore_kernel_cr3 s')\<lparr>active := 0\<rparr>))"

lemma fork_locked: "fa_locked s \<Longrightarrow> \<not> in_child s \<Longrightarrow> get_proc s parent \<noteq> None \<Longrightarrow> fork mt parent rip rsp s = None"
  by (auto simp: fork_def with_frame_allocator_machine)

lemma fork_unlocked: "\<not> fa_locked s \<Longrightarrow> fork mt parent rip rsp s \<noteq> None"
  by (auto simp: fork_def with_frame_allocator_machine Let_def split: option.splits prod.splits sum.splits)

text \<open>
  C40. \<open>runelf\<close> keeps the frame allocator locked while the program runs, so a program loaded with it
  that calls \<open>fork\<close> hangs the kernel: the command never returns.  The same program as a flat image
  under \<open>runfile\<close>, which releases the lock first, does return.
\<close>

theorem runelf_fork_hangs:
  assumes "read_file (kdisk s) path = Inr img" "parse img = Some (Inr elf)" "\<not> in_child s" "\<not> fa_locked s"
    and "create_process_from_elf mt ''elf-loaded'' (entry elf) (segments elf) img (mach s) = (Inr p, m)"
  shows "run_elf mt (forks_then_exits mt) path s = None \<and> run_file mt (forks_then_exits mt) path s \<noteq> None"
proof -
  let ?s1 = "write_cr3 (pml4_frame p) (s\<lparr>fa_locked := True, mach := m, slots := (slots s)(3 := Some p), active := 3\<rparr>)"
  have "get_proc ?s1 3 = Some p" by (simp add: write_cr3_def get_proc_def)
  then have "fork mt 3 rip rsp ?s1 = None" for rip rsp
    using assms(3) by (intro fork_locked) (simp_all add: write_cr3_def)
  moreover have "active ?s1 = 3" by (simp add: write_cr3_def)
  ultimately have "forks_then_exits mt rip rsp ?s1 = None" for rip rsp by (simp add: forks_then_exits_def)
  then have "run_elf mt (forks_then_exits mt) path s = None"
    using assms by (simp add: run_elf_def with_frame_allocator_def load_and_run_elf_def run_slot_def)
  moreover have "forks_then_exits mt rip rsp t \<noteq> None" if "\<not> fa_locked t" for rip rsp t
    using fork_unlocked [OF that, of mt "active t" rip rsp] by (auto simp: forks_then_exits_def split: option.split)
  then have "run_file mt (forks_then_exits mt) path s \<noteq> None"
    using assms(1,4)
    by (auto simp: run_file_def with_frame_allocator_def create_loaded_process_def init_named_process_def
        run_loaded_process_def run_slot_def write_cr3_def split: sum.splits prod.splits)
  ultimately show ?thesis ..
qed

text \<open>The demonstration ELF file on a formatted disk.\<close>

definition demo_elf_kernel :: kstate where
  "demo_elf_kernel = demo_kernel\<lparr>kdisk := snd (write_file blank_disk demo_path demo_elf)\<rparr>"

lemma demo_elf_stored: "read_file (kdisk demo_elf_kernel) demo_path = Inr demo_elf"
proof -
  have "length demo_elf \<le> 4096" by (simp add: demo_elf_def)
  then have "fs_save blank_disk demo_path demo_elf = (True, kdisk demo_elf_kernel)"
    unfolding fs_save_def by (subst run_blank) (simp_all add: demo_elf_kernel_def)
  from fs_store.wr_same [OF blank_ok this] show ?thesis by (simp add: fs_load_Some)
qed

theorem runelf_fork_hangs_witness:
  "run_elf demo_mapper (forks_then_exits demo_mapper) demo_path demo_elf_kernel = None"
proof -
  obtain p m where "create_process_from_elf demo_mapper ''elf-loaded'' 0x555550000000
       [\<lparr>p_vaddr = 0x555550000000, p_offset = 0, p_filesz = 120, p_memsz = 120, p_flags = 5\<rparr>] demo_elf demo_machine = (Inr p, m)"
    using demo_elf_loads by blast
  moreover have "mach demo_elf_kernel = demo_machine" "\<not> in_child demo_elf_kernel" "\<not> fa_locked demo_elf_kernel"
    by (simp_all add: demo_elf_kernel_def demo_kernel_def)
  ultimately show ?thesis
    using runelf_fork_hangs [OF demo_elf_stored demo_elf_parse, of demo_mapper p m] by simp
qed

section \<open>The size check of \<open>runfile\<close>\<close>

text \<open>
  On a sound disk \<open>runfile\<close> never reports a program that is too large: every file that can be
  read fits the code page, so neither its own size check nor the one of the process builder fires.
\<close>

theorem runfile_never_too_large:
  assumes "fs_ok (kdisk s)" "run_file mt user path s = Some (r, s')"
  shows "r \<noteq> Inl ProgramTooLarge \<and> r \<noteq> Inl (ProcFailed ImageTooLarge)"
proof (cases "read_file (kdisk s) path")
  case (Inl e)
  with assms(2) show ?thesis by (auto simp: run_file_def)
next
  case (Inr img)
  then have len: "length img \<le> 4096" by (rule read_file_bounded [OF assms(1)])
  have "create_loaded_process mt img t \<noteq> (Inl ImageTooLarge, x)" for t x
    using create_image_fits [OF len, of mt "''loaded''" "mach t"]
    by (auto simp: create_loaded_process_def init_named_process_def never_def split: prod.splits sum.splits)
  then show ?thesis
    using assms(2) Inr len
    by (auto simp: run_file_def check_program_size_def with_frame_allocator_def run_loaded_process_def run_slot_def
        proc_failed_def split: if_splits option.splits prod.splits sum.splits)
qed

theorem runfile_never_too_large_witness:
  "\<exists>r s'. run_file demo_mapper exits_at_once demo_path demo_elf_kernel = Some (r, s') \<and> r \<noteq> Inl ProgramTooLarge"
proof -
  have "fs_ok (kdisk demo_elf_kernel)"
    using write_file_abs [OF blank_ok run_blank [of demo_elf demo_path]] by (simp add: demo_elf_kernel_def demo_elf_def)
  note t = runfile_never_too_large [OF this, of demo_mapper exits_at_once demo_path]
  have "\<not> fa_locked demo_elf_kernel" by (simp add: demo_elf_kernel_def demo_kernel_def)
  then have "run_file demo_mapper exits_at_once demo_path demo_elf_kernel \<noteq> None"
    by (auto simp: run_file_def with_frame_allocator_def run_loaded_process_def run_slot_def exits_at_once_def
        split: option.split prod.split sum.split)
  then obtain r s' where "run_file demo_mapper exits_at_once demo_path demo_elf_kernel = Some (r, s')" by auto
  with t show ?thesis by blast
qed

end
