(* ===== verification/Syscall.thy ===== *)
theory Syscall
  imports Loader
begin

text \<open>
  System calls (\<open>kernel/src/usertest.rs\<close>): access to the caller's memory through the loaded page
  table, one definition per arm of \<open>syscall_dispatch\<close>, and ring-3 excursions: user code runs
  until it traps, the trap is handled, and the excursion ends with the exit call or a page fault.
  User code is a parameter \<open>cpu\<close>.  \<open>None\<close> stands for a kernel that does not come back: a page
  fault of the kernel itself (it halts), a lock it already holds, or user code that never traps (\<open>Syscall_Props\<close>
  tells these apart).
  The log lines of the serial port are left out; \<open>serial_out\<close> holds the bytes programs send.
\<close>

definition MAX_WRITE_LEN :: nat where [simp]: "MAX_WRITE_LEN = 4096"
definition MAX_PATH_LEN :: nat where [simp]: "MAX_PATH_LEN = 64"
definition MAX_FD_IO_LEN :: nat where [simp]: "MAX_FD_IO_LEN = 4096"
definition USER_STACK_SIZE :: nat where [simp]: "USER_STACK_SIZE = 4096"

record regs =
  rax :: u64
  rdi :: u64
  rsi :: u64
  rdx :: u64
  rip :: u64
  rsp :: u64

abbreviation failure :: u64 where "failure \<equiv> - 1"

datatype outcome = Resume regs | ToKernel | Enter nat nat

section \<open>User memory\<close>

text \<open>
  The frame behind a virtual address: the loaded table's own private slot, or the kernel's
  translations, which all tables share.
\<close>

definition translate :: "kstate \<Rightarrow> nat \<Rightarrow> nat option" where
  "translate s va =
     (if \<not> canonical va then None
      else if p4_index va = p4_index USER_CODE_ADDR then maps (mach s) (cr3 (mach s)) (page_of va)
      else maps (mach s) (kernel_pml4 s) (page_of va))"

definition user_byte :: "kstate \<Rightarrow> nat \<Rightarrow> u8 option" where
  "user_byte s va = map_option (\<lambda>f. phys (mach s) f ! (va mod 4096)) (translate s va)"

definition read_user :: "kstate \<Rightarrow> u64 \<Rightarrow> nat \<Rightarrow> bytes option" where
  "read_user s ptr len = those (map (\<lambda>i. user_byte s (unat (ptr + of_nat i))) [0..<len])"

definition poke :: "nat \<Rightarrow> u8 \<Rightarrow> kstate \<Rightarrow> kstate option" where
  "poke va b s =
     (case translate s va of
        None \<Rightarrow> None
      | Some f \<Rightarrow> Some (s\<lparr>mach := (mach s)\<lparr>phys := (phys (mach s))(f := (phys (mach s) f)[va mod 4096 := b])\<rparr>\<rparr>))"

fun write_user :: "u64 \<Rightarrow> bytes \<Rightarrow> kstate \<Rightarrow> kstate option" where
  "write_user ptr [] s = Some s"
| "write_user ptr (b # bs) s =
     (case poke (unat ptr) b s of None \<Rightarrow> None | Some s \<Rightarrow> write_user (ptr + 1) bs s)"

section \<open>The calls\<close>

abbreviation resume :: "regs \<Rightarrow> u64 \<Rightarrow> kstate \<Rightarrow> (outcome \<times> kstate) option" where
  "resume r v s \<equiv> Some (Resume (r\<lparr>rax := v\<rparr>), s)"

definition sys_write :: "regs \<Rightarrow> kstate \<Rightarrow> (outcome \<times> kstate) option" where
  "sys_write r s =
     (let len = min (unat (rsi r)) MAX_WRITE_LEN
      in case read_user s (rdi r) len of
           None \<Rightarrow> None
         | Some bs \<Rightarrow>
             if active s \<noteq> 0 \<and> user_byte s HEAP_START = None then None
             else Some (Resume r, s\<lparr>serial_out := serial_out s @ bs\<rparr>))"

definition sys_exit :: "regs \<Rightarrow> kstate \<Rightarrow> (outcome \<times> kstate) option" where
  "sys_exit r s = Some (ToKernel, if active s \<noteq> 0 then (restore_kernel_cr3 s)\<lparr>active := 0\<rparr> else s)"

definition sys_sbrk :: "regs \<Rightarrow> kstate \<Rightarrow> (outcome \<times> kstate) option" where
  "sys_sbrk r s =
     (if active s \<noteq> 0
      then case sbrk (active s) (rdi r) s of
             (Some ptr, s) \<Rightarrow> resume r (of_nat ptr) s
           | (None, s) \<Rightarrow> resume r 0 s
      else resume r 0 s)"

definition sys_open :: "regs \<Rightarrow> kstate \<Rightarrow> (outcome \<times> kstate) option" where
  "sys_open r s =
     (let len = min (unat (rsi r)) MAX_PATH_LEN
      in case read_user s (rdi r) len of
           None \<Rightarrow> None
         | Some path \<Rightarrow>
             if active s = 0 then resume r failure s
             else if \<not> utf8_valid path then resume r failure s
             else case open_file (active s) path s of
                    (Some fd, s) \<Rightarrow> resume r (of_nat fd) s
                  | (None, s) \<Rightarrow> resume r failure s)"

definition sys_read :: "regs \<Rightarrow> kstate \<Rightarrow> (outcome \<times> kstate) option" where
  "sys_read r s =
     (let len = min (unat (rdx r)) MAX_FD_IO_LEN
      in if active s = 0 then resume r failure s
         else case read_fd (active s) (unat (rdi r)) len s of
                (Some data, s) \<Rightarrow>
                  (case write_user (rsi r) data s of
                     None \<Rightarrow> None
                   | Some s \<Rightarrow> resume r (of_nat (length data)) s)
              | (None, s) \<Rightarrow> resume r failure s)"

definition sys_fdwrite :: "regs \<Rightarrow> kstate \<Rightarrow> (outcome \<times> kstate) option" where
  "sys_fdwrite r s =
     (let len = min (unat (rdx r)) MAX_FD_IO_LEN
      in if active s = 0 then resume r failure s
         else case read_user s (rsi r) len of
                None \<Rightarrow> None
              | Some data \<Rightarrow>
                  (case write_fd (active s) (unat (rdi r)) data s of
                     (Some n, s) \<Rightarrow> resume r (of_nat n) s
                   | (None, s) \<Rightarrow> resume r failure s))"

definition sys_close :: "regs \<Rightarrow> kstate \<Rightarrow> (outcome \<times> kstate) option" where
  "sys_close r s =
     (if active s = 0 then resume r failure s
      else case close_fd (active s) (unat (rdi r)) s of
             (Some True, s) \<Rightarrow> resume r 0 s
           | (Some False, s) \<Rightarrow> resume r 2 s
           | (None, s) \<Rightarrow> resume r 1 s)"

definition sys_fork :: "map_to_fn \<Rightarrow> regs \<Rightarrow> kstate \<Rightarrow> (outcome \<times> kstate) option" where
  "sys_fork mt r s =
     (if active s = 0 then resume r failure s
      else case fork mt (active s) (unat (rip r)) (unat (rsp r)) s of
             None \<Rightarrow> None
           | Some (Some child, s) \<Rightarrow> resume r (of_nat child) s
           | Some (None, s) \<Rightarrow> resume r failure s)"

definition sys_wait :: "user_run \<Rightarrow> regs \<Rightarrow> kstate \<Rightarrow> (outcome \<times> kstate) option" where
  "sys_wait user r s =
     (if active s = 0 then resume r failure s
      else if 255 < unat (rdi r) then resume r failure s
      else case wait_for_child user (active s) (unat (rdi r)) s of
             None \<Rightarrow> None
           | Some (Some reaped, s) \<Rightarrow> resume r (of_nat reaped) s
           | Some (None, s) \<Rightarrow> resume r failure s)"

definition sys_exec :: "regs \<Rightarrow> kstate \<Rightarrow> (outcome \<times> kstate) option" where
  "sys_exec r s =
     (let len = min (unat (rsi r)) MAX_PATH_LEN
      in if active s = 0 then resume r failure s
         else case read_user s (rdi r) len of
                None \<Rightarrow> None
              | Some path \<Rightarrow>
                  if \<not> utf8_valid path then resume r failure s
                  else case read_file (kdisk s) path of
                         Inl _ \<Rightarrow> resume r failure s
                       | Inr img \<Rightarrow>
                           (case exec_process (active s) img s of
                              (Inr _, s) \<Rightarrow> Some (Enter USER_CODE_ADDR (USER_STACK_ADDR + USER_STACK_SIZE), s)
                            | (Inl _, s) \<Rightarrow> resume r failure s))"

text \<open>The two results are stored as 64-bit words; a pointer that is not 8-aligned is outside the language.\<close>

definition sys_pipe :: "regs \<Rightarrow> kstate \<Rightarrow> (outcome \<times> kstate) option" where
  "sys_pipe r s =
     (if active s = 0 then resume r failure s
      else case pipe_create (active s) s of
             (Some (rfd, wfd), s) \<Rightarrow>
               if unat (rdi r) mod 8 \<noteq> 0 then None
               else (case write_user (rdi r) (le_bytes 8 rfd @ le_bytes 8 wfd) s of
                       None \<Rightarrow> None
                     | Some s \<Rightarrow> resume r 0 s)
           | (None, s) \<Rightarrow> resume r failure s)"

definition sys_dup :: "regs \<Rightarrow> kstate \<Rightarrow> (outcome \<times> kstate) option" where
  "sys_dup r s =
     (if active s = 0 then resume r failure s
      else case dup_fd (active s) (unat (rdi r)) s of
             (Some fd, s) \<Rightarrow> resume r (of_nat fd) s
           | (None, s) \<Rightarrow> resume r failure s)"

definition sys_dup2 :: "regs \<Rightarrow> kstate \<Rightarrow> (outcome \<times> kstate) option" where
  "sys_dup2 r s =
     (if active s = 0 then resume r failure s
      else case dup2_fd (active s) (unat (rdi r)) (unat (rsi r)) s of
             (Some True, s) \<Rightarrow> resume r (rsi r) s
           | (_, s) \<Rightarrow> resume r failure s)"

definition sys_kill :: "regs \<Rightarrow> kstate \<Rightarrow> (outcome \<times> kstate) option" where
  "sys_kill r s =
     (if active s = 0 then resume r 0 s
      else if 255 < unat (rdi r) then resume r 0 s
      else case kill (active s) (unat (rdi r)) s of (ok, s) \<Rightarrow> resume r (if ok then 1 else 0) s)"

definition syscall_dispatch :: "map_to_fn \<Rightarrow> user_run \<Rightarrow> regs \<Rightarrow> kstate \<Rightarrow> (outcome \<times> kstate) option" where
  "syscall_dispatch mt user r s =
     (let n = unat (rax r) in
      if n = 0 then sys_write r s else if n = 1 then sys_exit r s else if n = 2 then sys_sbrk r s
      else if n = 3 then sys_open r s else if n = 4 then sys_read r s else if n = 5 then sys_fdwrite r s
      else if n = 6 then sys_close r s else if n = 7 then sys_fork mt r s else if n = 8 then sys_wait user r s
      else if n = 9 then sys_exec r s else if n = 10 then sys_pipe r s else if n = 11 then sys_dup r s
      else if n = 12 then sys_dup2 r s else if n = 13 then sys_kill r s else Some (Resume r, s))"

section \<open>Excursions to ring 3\<close>

text \<open>
  What the processor does in ring 3 from given registers: it traps with \<open>int 0x80\<close>, or faults
  on a page, leaving memory as it then is; \<open>None\<close> when it never traps, or by another exception, which ends as a
  double fault and halts the kernel.
\<close>

datatype trap = Int80 regs machine | PageFault machine

type_synonym cpu = "regs \<Rightarrow> machine \<Rightarrow> trap option"

text \<open>A user page fault with an active process ends the process like an exit; without one the kernel halts.\<close>

definition terminate_faulted_process_and_resume_kernel :: "kstate \<Rightarrow> kstate" where
  "terminate_faulted_process_and_resume_kernel s = (restore_kernel_cr3 s)\<lparr>active := 0\<rparr>"

definition page_fault_handler :: "kstate \<Rightarrow> kstate option" where
  "page_fault_handler s = (if active s \<noteq> 0 then Some (terminate_faulted_process_and_resume_kernel s) else None)"

fun excursion :: "map_to_fn \<Rightarrow> cpu \<Rightarrow> user_run \<Rightarrow> nat \<Rightarrow> regs \<Rightarrow> kstate \<Rightarrow> kstate option" where
  "excursion mt cpu user 0 r s = None"
| "excursion mt cpu user (Suc n) r s =
     (case cpu r (mach s) of
        None \<Rightarrow> None
      | Some (PageFault m) \<Rightarrow> page_fault_handler (s\<lparr>mach := m\<rparr>)
      | Some (Int80 r' m) \<Rightarrow>
          (case syscall_dispatch mt user r' (s\<lparr>mach := m\<rparr>) of
             None \<Rightarrow> None
           | Some (Resume r'', s') \<Rightarrow> excursion mt cpu user n r'' s'
           | Some (ToKernel, s') \<Rightarrow> Some s'
           | Some (Enter ip sp, s') \<Rightarrow> excursion mt cpu user n (r'\<lparr>rip := of_nat ip, rsp := of_nat sp\<rparr>) s'))"

text \<open>
  A child runs with \<open>rax = 0\<close> and is refused every \<open>wait\<close>, so its own \<open>user\<close> is never called;
  \<open>junk\<close> are the other registers, which the kernel does not set.
\<close>

definition child_run :: "map_to_fn \<Rightarrow> cpu \<Rightarrow> regs \<Rightarrow> nat \<Rightarrow> user_run" where
  "child_run mt cpu junk n ip sp s =
     excursion mt cpu (\<lambda>_ _ _. None) n (junk\<lparr>rax := 0, rip := of_nat ip, rsp := of_nat sp\<rparr>) s"

definition enter_ring3_now :: "map_to_fn \<Rightarrow> cpu \<Rightarrow> regs \<Rightarrow> nat \<Rightarrow> user_run" where
  "enter_ring3_now mt cpu junk n ip sp s =
     excursion mt cpu (child_run mt cpu junk n) n (junk\<lparr>rip := of_nat ip, rsp := of_nat sp\<rparr>) s"

end
