(* ===== verification/Syscall_Props.thy ===== *)
theory Syscall_Props
  imports Syscall
begin

text \<open>
  The properties of system calls: control comes back to the kernel in the kernel's own
  context unless the program goes astray in a way that is spelt out, calls without an active process change nothing, the reference counts survive every
  call but three named ones, and data reaches the caller's buffer.
\<close>

section \<open>What no operation touches\<close>

definition same_ctl :: "kstate \<Rightarrow> kstate \<Rightarrow> bool" where
  "same_ctl s s' \<longleftrightarrow> active s' = active s \<and> in_child s' = in_child s \<and> kernel_pml4 s' = kernel_pml4 s \<and>
     fa_locked s' = fa_locked s"

lemma same_ctl_refl [simp]: "same_ctl s s"
  by (simp add: same_ctl_def)

lemma same_ctl_trans: "same_ctl s s1 \<Longrightarrow> same_ctl s1 s2 \<Longrightarrow> same_ctl s s2"
  by (simp add: same_ctl_def)

lemma set_proc_ctl [simp]: "kernel_pml4 (set_proc pid p s) = kernel_pml4 s" "fa_locked (set_proc pid p s) = fa_locked s"
  by (simp_all add: set_proc_def)

lemma with_process_mut_ctl: "with_process_mut pid f s = (r, s') \<Longrightarrow> same_ctl s s'"
  by (auto simp: with_process_mut_def same_ctl_def split: option.splits prod.splits)

lemma ref_pipe_ctl [simp]: "active (ref_pipe e s) = active s" "kernel_pml4 (ref_pipe e s) = kernel_pml4 s"
  "fa_locked (ref_pipe e s) = fa_locked s"
  by (simp_all add: ref_pipe_def split: fd_entry.split option.split)

lemma ref_all_ctl: "same_ctl s (ref_all t s)"
proof (induction t arbitrary: s)
  case (Cons e t)
  show ?case
  proof (cases e)
    case (Some x)
    have "same_ctl s (ref_pipe x s)" by (simp add: same_ctl_def)
    then show ?thesis using Cons [of "ref_pipe x s"] Some same_ctl_trans by simp
  qed (use Cons in simp)
qed simp

lemma fd_ops_ctl:
  "sbrk pid req s = (r1, s') \<Longrightarrow> same_ctl s s'"
  "open_file pid path s = (r1, s') \<Longrightarrow> same_ctl s s'"
  "read_fd pid fd n s = (r2, s') \<Longrightarrow> same_ctl s s'"
  "write_fd pid fd bs s = (r1, s') \<Longrightarrow> same_ctl s s'"
  "close_fd pid fd s = (r3, s') \<Longrightarrow> same_ctl s s'"
  "pipe_create pid s = (r4, s') \<Longrightarrow> same_ctl s s'"
  "dup_fd pid fd s = (r1, s') \<Longrightarrow> same_ctl s s'"
proof -
  show "sbrk pid req s = (r1, s') \<Longrightarrow> same_ctl s s'" "open_file pid path s = (r1, s') \<Longrightarrow> same_ctl s s'"
    by (auto simp: sbrk_def open_file_def Let_def split: prod.splits dest: with_process_mut_ctl)
  show "read_fd pid fd n s = (r2, s') \<Longrightarrow> same_ctl s s'" "write_fd pid fd bs s = (r1, s') \<Longrightarrow> same_ctl s s'"
    by (auto simp: read_fd_def pipe_read_def write_fd_def pipe_write_def split: option.splits fd_entry.splits prod.splits
        dest: with_process_mut_ctl) (auto simp: same_ctl_def)
  show "close_fd pid fd s = (r3, s') \<Longrightarrow> same_ctl s s'"
    by (auto simp: close_fd_def unref_pipe_def Let_def same_ctl_def
        split: option.splits fd_entry.splits prod.splits sum.splits if_splits)
  show "pipe_create pid s = (r4, s') \<Longrightarrow> same_ctl s s'"
    by (auto simp: pipe_create_def Let_def split: option.splits prod.splits list.splits dest!: with_process_mut_ctl)
      (auto simp: same_ctl_def)
  show "dup_fd pid fd s = (r1, s') \<Longrightarrow> same_ctl s s'"
    by (auto simp: dup_fd_def split: option.splits prod.splits dest!: with_process_mut_ctl) (auto simp: same_ctl_def)
qed

lemma dup2_ctl: "dup2_fd pid fd fd' s = (r, s') \<Longrightarrow> same_ctl s s'"
  by (auto simp: dup2_fd_def split: if_splits option.splits prod.splits dest!: with_process_mut_ctl fd_ops_ctl(5))
    (auto simp: same_ctl_def)

lemma poke_ctl: "poke va b s = Some s' \<Longrightarrow> same_ctl s s' \<and> s' = s\<lparr>mach := mach s'\<rparr>"
  by (auto simp: poke_def same_ctl_def split: option.splits)

lemma write_user_ctl: "write_user ptr bs s = Some s' \<Longrightarrow> same_ctl s s' \<and> s' = s\<lparr>mach := mach s'\<rparr>"
proof (induction ptr bs s rule: write_user.induct)
  case (1 ptr s)
  then show ?case by (cases s) auto
next
  case (2 ptr b bs s)
  then obtain s1 where s1: "poke (unat ptr) b s = Some s1" "write_user (ptr + 1) bs s1 = Some s'"
    by (auto split: option.splits)
  have "same_ctl s s1" "s1 = s\<lparr>mach := mach s1\<rparr>" using poke_ctl [OF s1(1)] by auto
  moreover have "same_ctl s1 s'" "s' = s1\<lparr>mach := mach s'\<rparr>" using "2.IH" [OF s1] by auto
  ultimately show ?case by (metis kstate.surjective kstate.update_convs(5) same_ctl_trans)
qed

lemma fork_ctl:
  assumes "fork mt parent ip sp s = Some (r, s')"
  shows "same_ctl s s'"
  using assms
proof (cases rule: fork_cases)
  case (full p c m)
  then show ?thesis using ref_all_ctl [of "s\<lparr>mach := m\<rparr>" "fds p"] by (simp add: same_ctl_def)
next
  case (forked p c m i)
  then show ?thesis using ref_all_ctl [of "s\<lparr>mach := m\<rparr>" "fds p"] by (simp add: same_ctl_def)
qed (auto simp: same_ctl_def)

lemma exec_ctl: "exec_process pid img s = (r, s') \<Longrightarrow> same_ctl s s'"
  by (auto simp: exec_process_def split: if_splits prod.splits option.splits dest!: with_process_mut_ctl)
    (auto simp: same_ctl_def)

lemma kill_ctl: "kill c t s = (r, s') \<Longrightarrow> same_ctl s s'"
  by (auto simp: kill_def same_ctl_def split: if_splits option.splits)

text \<open>A run keeps the kernel's page table in place, and the lock of the frame allocator as it is.\<close>

definition keeps_kernel_pml4 :: "user_run \<Rightarrow> bool" where
  "keeps_kernel_pml4 user \<longleftrightarrow> (\<forall>ip sp t t'. user ip sp t = Some t' \<longrightarrow>
     kernel_pml4 t' = kernel_pml4 t \<and> fa_locked t' = fa_locked t)"

lemma wait_ctl:
  assumes "keeps_kernel_pml4 user" "wait_for_child user (active s) child s = Some (r, s')"
  shows "same_ctl s s'"
  using assms
  by (auto simp: wait_for_child_def run_forked_child_def with_process_mut_def enter_ring3_as_forked_child_def Let_def
      write_cr3_def same_ctl_def keeps_kernel_pml4_def split: if_splits option.splits prod.splits sum.splits)

section \<open>Control comes back to the kernel\<close>

text \<open>Every call that does not exit leaves the active process and the kernel's anchors alone.\<close>

definition back_in_kernel :: "kstate \<Rightarrow> kstate \<Rightarrow> bool" where
  "back_in_kernel s s' \<longleftrightarrow> active s' = 0 \<and> cr3 (mach s') = kernel_pml4 s \<and> kernel_pml4 s' = kernel_pml4 s \<and> in_child s' = in_child s"

definition outcome_ctl :: "outcome \<Rightarrow> kstate \<Rightarrow> kstate \<Rightarrow> bool" where
  "outcome_ctl x s s' =
     (if x = ToKernel then kernel_pml4 s' = kernel_pml4 s \<and> fa_locked s' = fa_locked s \<and> (active s \<noteq> 0 \<longrightarrow> back_in_kernel s s') else same_ctl s s')"

lemma outcome_ctl_resume [simp]: "outcome_ctl (Resume r) s s' = same_ctl s s'" "outcome_ctl (Enter i j) s s' = same_ctl s s'"
  by (simp_all add: outcome_ctl_def)

lemma sys_first_ctl:
  "sys_write r s = Some (x, s') \<Longrightarrow> outcome_ctl x s s'" "sys_exit r s = Some (x, s') \<Longrightarrow> outcome_ctl x s s'"
  "sys_sbrk r s = Some (x, s') \<Longrightarrow> outcome_ctl x s s'" "sys_open r s = Some (x, s') \<Longrightarrow> outcome_ctl x s s'"
proof -
  show "sys_write r s = Some (x, s') \<Longrightarrow> outcome_ctl x s s'"
    by (auto simp: sys_write_def same_ctl_def split: option.splits if_splits)
  show "sys_exit r s = Some (x, s') \<Longrightarrow> outcome_ctl x s s'"
    by (auto simp: sys_exit_def outcome_ctl_def back_in_kernel_def restore_kernel_cr3_def write_cr3_def split: if_splits)
  show "sys_sbrk r s = Some (x, s') \<Longrightarrow> outcome_ctl x s s'"
    by (auto simp: sys_sbrk_def split: if_splits option.splits prod.splits intro: fd_ops_ctl(1))
  show "sys_open r s = Some (x, s') \<Longrightarrow> outcome_ctl x s s'"
    by (auto simp: sys_open_def Let_def split: if_splits option.splits prod.splits intro: fd_ops_ctl(2))
qed

lemma sys_fd_ctl:
  "sys_read r s = Some (x, s') \<Longrightarrow> outcome_ctl x s s'" "sys_fdwrite r s = Some (x, s') \<Longrightarrow> outcome_ctl x s s'"
  "sys_close r s = Some (x, s') \<Longrightarrow> outcome_ctl x s s'" "sys_pipe r s = Some (x, s') \<Longrightarrow> outcome_ctl x s s'"
  "sys_dup r s = Some (x, s') \<Longrightarrow> outcome_ctl x s s'" "sys_dup2 r s = Some (x, s') \<Longrightarrow> outcome_ctl x s s'"
proof -
  show "sys_read r s = Some (x, s') \<Longrightarrow> outcome_ctl x s s'"
    by (auto simp: sys_read_def Let_def split: if_splits option.splits prod.splits
        intro: fd_ops_ctl(3) dest!: fd_ops_ctl(3) write_user_ctl) (auto simp: same_ctl_def)
  show "sys_fdwrite r s = Some (x, s') \<Longrightarrow> outcome_ctl x s s'"
    by (auto simp: sys_fdwrite_def Let_def split: if_splits option.splits prod.splits intro: fd_ops_ctl(4))
  show "sys_close r s = Some (x, s') \<Longrightarrow> outcome_ctl x s s'"
    by (auto simp: sys_close_def split: if_splits option.splits prod.splits bool.splits intro: fd_ops_ctl(5))
  show "sys_pipe r s = Some (x, s') \<Longrightarrow> outcome_ctl x s s'"
    by (auto simp: sys_pipe_def split: if_splits option.splits prod.splits dest!: fd_ops_ctl(6) write_user_ctl)
      (auto simp: same_ctl_def)
  show "sys_dup r s = Some (x, s') \<Longrightarrow> outcome_ctl x s s'"
    by (auto simp: sys_dup_def split: if_splits option.splits prod.splits intro: fd_ops_ctl(7))
  show "sys_dup2 r s = Some (x, s') \<Longrightarrow> outcome_ctl x s s'"
    by (auto simp: sys_dup2_def split: if_splits option.splits prod.splits bool.splits intro: dup2_ctl)
qed

lemma sys_proc_ctl:
  "sys_fork mt r s = Some (x, s') \<Longrightarrow> outcome_ctl x s s'" "sys_exec r s = Some (x, s') \<Longrightarrow> outcome_ctl x s s'"
  "sys_kill r s = Some (x, s') \<Longrightarrow> outcome_ctl x s s'"
  "keeps_kernel_pml4 user \<Longrightarrow> sys_wait user r s = Some (x, s') \<Longrightarrow> outcome_ctl x s s'"
proof -
  show "sys_fork mt r s = Some (x, s') \<Longrightarrow> outcome_ctl x s s'"
    by (auto simp: sys_fork_def split: if_splits option.splits prod.splits intro: fork_ctl)
  show "sys_exec r s = Some (x, s') \<Longrightarrow> outcome_ctl x s s'"
    by (auto simp: sys_exec_def Let_def split: if_splits option.splits prod.splits sum.splits intro: exec_ctl)
  show "sys_kill r s = Some (x, s') \<Longrightarrow> outcome_ctl x s s'"
    by (auto simp: sys_kill_def split: if_splits prod.splits intro: kill_ctl)
  show "keeps_kernel_pml4 user \<Longrightarrow> sys_wait user r s = Some (x, s') \<Longrightarrow> outcome_ctl x s s'"
    by (auto simp: sys_wait_def split: if_splits option.splits prod.splits intro: wait_ctl)
qed

lemmas sys_ctl = sys_first_ctl sys_fd_ctl sys_proc_ctl

lemma dispatch_ctl:
  assumes "keeps_kernel_pml4 user" "syscall_dispatch mt user r s = Some (x, s')"
  shows "outcome_ctl x s s'"
  using assms unfolding syscall_dispatch_def Let_def by (auto split: if_splits intro: sys_ctl)

lemma excursion_SucE:
  assumes "excursion mt cpu user (Suc n) r s = Some s'"
  obtains (fault) m where "page_fault_handler (s\<lparr>mach := m\<rparr>) = Some s'"
    | (exit) r' m where "syscall_dispatch mt user r' (s\<lparr>mach := m\<rparr>) = Some (ToKernel, s')"
    | (call) r' m x s1 r'' where "syscall_dispatch mt user r' (s\<lparr>mach := m\<rparr>) = Some (x, s1)" "x \<noteq> ToKernel"
        "excursion mt cpu user n r'' s1 = Some s'"
proof (cases "cpu r (mach s)")
  case (Some tr)
  show ?thesis
  proof (cases tr)
    case (Int80 r' m)
    then show ?thesis using assms Some exit call
      by (fastforce split: option.splits prod.splits outcome.splits)
  qed (use assms Some fault in auto)
qed (use assms in simp)

lemma page_fault_ctl: "page_fault_handler s = Some s' \<Longrightarrow> active s \<noteq> 0 \<and> back_in_kernel s s' \<and> fa_locked s' = fa_locked s"
  by (auto simp: page_fault_handler_def terminate_faulted_process_and_resume_kernel_def back_in_kernel_def restore_kernel_cr3_def write_cr3_def split: if_splits)

lemma back_in_kernel_mach [simp]: "back_in_kernel (s\<lparr>mach := m\<rparr>) s' = back_in_kernel s s'"
  by (simp add: back_in_kernel_def)

lemma excursion_ctl:
  assumes "keeps_kernel_pml4 user"
  shows "excursion mt cpu user n r s = Some s' \<Longrightarrow>
    kernel_pml4 s' = kernel_pml4 s \<and> fa_locked s' = fa_locked s \<and> (active s \<noteq> 0 \<longrightarrow> back_in_kernel s s')"
proof (induction n arbitrary: r s)
  case (Suc n)
  from Suc.prems show ?case
  proof (cases rule: excursion_SucE)
    case (fault m)
    then show ?thesis using page_fault_ctl by (fastforce simp: back_in_kernel_def)
  next
    case (exit r' m)
    then show ?thesis using dispatch_ctl [OF assms exit] by (simp add: outcome_ctl_def)
  next
    case (call r' m x s1 r'')
    have same: "same_ctl s s1" using dispatch_ctl [OF assms call(1)] call(2) by (simp add: outcome_ctl_def same_ctl_def)
    with Suc.IH [OF call(3)] show ?thesis by (simp add: back_in_kernel_def same_ctl_def)
  qed
qed simp

lemma child_run_keeps: "keeps_kernel_pml4 (child_run mt cpu junk n)"
  using excursion_ctl [of "\<lambda>_ _ _. None"] by (auto simp: keeps_kernel_pml4_def child_run_def)

section \<open>Programs that come back\<close>

text \<open>
  The kernel follows the pointers of a call without looking at them.  A call goes astray when it names a
  buffer that is not mapped (the kernel would fault and halt), or asks for data to be stored outside the
  caller's private slot of the address space (which may be the kernel's own memory, kept apart from physical
  memory in the model) or as words at an unaligned address; a \<open>wait\<close> when it runs a child that does (\<open>astray\<close>).
\<close>

definition readable :: "kstate \<Rightarrow> u64 \<Rightarrow> nat \<Rightarrow> bool" where
  "readable s ptr n \<longleftrightarrow> list_all (\<lambda>i. user_byte s (unat (ptr + of_nat i)) \<noteq> None) [0..<n]"

definition own_buffer :: "kstate \<Rightarrow> u64 \<Rightarrow> nat \<Rightarrow> bool" where
  "own_buffer s ptr n \<longleftrightarrow> readable s ptr n \<and>
     list_all (\<lambda>i. p4_index (unat (ptr + of_nat i)) = p4_index USER_CODE_ADDR) [0..<n]"

definition bad_call :: "(nat \<Rightarrow> nat \<Rightarrow> kstate \<Rightarrow> bool) \<Rightarrow> regs \<Rightarrow> kstate \<Rightarrow> bool" where
  "bad_call astray r s =
     (let n = unat (rax r) in
        n = 0 \<and> \<not> (readable s (rdi r) (min (unat (rsi r)) 4096) \<and> user_byte s HEAP_START \<noteq> None)
      \<or> (n = 3 \<or> n = 9) \<and> \<not> readable s (rdi r) (min (unat (rsi r)) 64)
      \<or> n = 4 \<and> \<not> own_buffer s (rsi r) (min (unat (rdx r)) 4096)
      \<or> n = 5 \<and> \<not> readable s (rsi r) (min (unat (rdx r)) 4096)
      \<or> n = 8 \<and> sys_wait (\<lambda>ip sp s. if astray ip sp s then None else Some s) r s = None
      \<or> n = 10 \<and> \<not> (own_buffer s (rdi r) 16 \<and> unat (rdi r) mod 8 = 0))"

text \<open>An excursion goes astray when it makes more than \<open>n\<close> calls, never traps again, or makes a bad call.\<close>

fun excursion_astray :: "map_to_fn \<Rightarrow> cpu \<Rightarrow> user_run \<Rightarrow> (nat \<Rightarrow> nat \<Rightarrow> kstate \<Rightarrow> bool) \<Rightarrow> nat \<Rightarrow> regs \<Rightarrow> kstate \<Rightarrow> bool" where
  "excursion_astray mt cpu user astray 0 r s = True"
| "excursion_astray mt cpu user astray (Suc n) r s =
     (case cpu r (mach s) of
        None \<Rightarrow> True
      | Some (PageFault m) \<Rightarrow> False
      | Some (Int80 r' m) \<Rightarrow> bad_call astray r' (s\<lparr>mach := m\<rparr>) \<or>
          (case syscall_dispatch mt user r' (s\<lparr>mach := m\<rparr>) of
             Some (Resume r'', s') \<Rightarrow> excursion_astray mt cpu user astray n r'' s'
           | Some (Enter ip sp, s') \<Rightarrow> excursion_astray mt cpu user astray n (r'\<lparr>rip := of_nat ip, rsp := of_nat sp\<rparr>) s'
           | _ \<Rightarrow> False))"

definition child_astray :: "map_to_fn \<Rightarrow> cpu \<Rightarrow> regs \<Rightarrow> nat \<Rightarrow> nat \<Rightarrow> nat \<Rightarrow> kstate \<Rightarrow> bool" where
  "child_astray mt cpu junk n ip sp s =
     excursion_astray mt cpu (\<lambda>_ _ _. None) (\<lambda>_ _ _. False) n (junk\<lparr>rax := 0, rip := of_nat ip, rsp := of_nat sp\<rparr>) s"

definition program_astray :: "map_to_fn \<Rightarrow> cpu \<Rightarrow> regs \<Rightarrow> nat \<Rightarrow> nat \<Rightarrow> nat \<Rightarrow> kstate \<Rightarrow> bool" where
  "program_astray mt cpu junk n ip sp s =
     excursion_astray mt cpu (child_run mt cpu junk n) (child_astray mt cpu junk n) n (junk\<lparr>rip := of_nat ip, rsp := of_nat sp\<rparr>) s"

definition run_astray :: "map_to_fn \<Rightarrow> cpu \<Rightarrow> regs \<Rightarrow> nat \<Rightarrow> nat \<Rightarrow> kstate \<Rightarrow> bool" where
  "run_astray mt cpu junk n pid s =
     (run_process (\<lambda>ip sp s. if program_astray mt cpu junk n ip sp s then None else Some s) pid s = None)"

text \<open>A call that is not bad comes back.\<close>

lemma those_total: "list_all (\<lambda>x. f x \<noteq> None) xs \<Longrightarrow> \<exists>ys. those (map f xs) = Some ys"
  by (induction xs) auto

lemma readable_read: "readable s ptr n \<Longrightarrow> \<exists>bs. read_user s ptr n = Some bs"
  by (simp add: readable_def read_user_def those_total)

lemma translate_mach: "maps (mach s') = maps (mach s) \<Longrightarrow> cr3 (mach s') = cr3 (mach s) \<Longrightarrow> kernel_pml4 s' = kernel_pml4 s \<Longrightarrow>
    translate s' = translate s"
  by (simp add: translate_def fun_eq_iff)

lemma own_write:
  "length bs \<le> n \<Longrightarrow> list_all (\<lambda>i. translate s (unat (ptr + of_nat i)) \<noteq> None) [0..<n] \<Longrightarrow> \<exists>s'. write_user ptr bs s = Some s'"
proof (induction bs arbitrary: ptr s n)
  case (Cons b bs)
  then obtain k where n: "n = Suc k" by (cases n) auto
  have tr: "translate s (unat (ptr + of_nat i)) \<noteq> None" if "i < n" for i
    using Cons.prems(2) that by (simp add: list_all_iff)
  obtain s1 where s1: "poke (unat ptr) b s = Some s1" using tr [of 0] n by (auto simp: poke_def)
  then have "translate s1 = translate s" by (intro translate_mach) (auto simp: poke_def split: option.splits)
  moreover have "translate s (unat (ptr + 1 + of_nat i)) \<noteq> None" if "i < k" for i
    using tr [of "Suc i"] that n by (simp add: add.assoc)
  ultimately have "list_all (\<lambda>i. translate s1 (unat (ptr + 1 + of_nat i)) \<noteq> None) [0..<k]" by (simp add: list_all_iff)
  then show ?case using Cons.IH [of k s1 "ptr + 1"] Cons.prems(1) n s1 by simp
qed simp

lemma own_buffer_write:
  assumes "own_buffer s ptr n" "length bs \<le> n" "mach s' = mach s" "kernel_pml4 s' = kernel_pml4 s"
  shows "\<exists>s''. write_user ptr bs s' = Some s''"
proof -
  have "translate s' = translate s" using assms(3,4) by (intro translate_mach) simp_all
  then show ?thesis using assms(1) own_write [OF assms(2), of s' ptr]
    by (simp add: own_buffer_def readable_def user_byte_def)
qed

lemma read_fd_mach: "read_fd pid fd n s = (r, s') \<Longrightarrow> mach s' = mach s"
  by (auto simp: read_fd_def pipe_read_def with_process_mut_def split: option.splits fd_entry.splits prod.splits)

lemma read_fd_length:
  assumes "read_fd pid fd n s = (Some bs, s')" shows "length bs \<le> n"
  using assms
  by (auto simp: read_fd_def pipe_read_def with_process_mut_def on_file_def file_read_def ring_read_def slice_def Let_def
      split: option.splits fd_entry.splits prod.splits)

lemma sys_wait_total:
  assumes "sys_wait (\<lambda>ip sp s. if astray ip sp s then None else Some s) r s \<noteq> None" "\<not> fa_locked s"
    and "\<And>ip sp t. \<not> fa_locked t \<Longrightarrow> in_child t \<Longrightarrow> active t \<noteq> 0 \<Longrightarrow> \<not> astray ip sp t \<Longrightarrow> user ip sp t \<noteq> None"
  shows "sys_wait user r s \<noteq> None"
proof (cases "active s = 0 \<or> 255 < unat (rdi r) \<or> in_child s \<or> unat (rdi r) < 10")
  case True
  then show ?thesis by (auto simp: sys_wait_def wait_for_child_def)
next
  case False
  let ?c = "unat (rdi r)"
  obtain v s1 where v: "with_process_mut ?c (\<lambda>p. ((pml4_frame p, pending_resume p), p\<lparr>pending_resume := None\<rparr>)) s = (v, s1)"
    by fastforce
  have l: "\<not> fa_locked s1" using with_process_mut_ctl [OF v] assms(2) by (simp add: same_ctl_def)
  have "run_forked_child user ?c s \<noteq> None"
    if probe: "run_forked_child (\<lambda>ip sp s. if astray ip sp s then None else Some s) ?c s \<noteq> None"
  proof (cases v)
    case (Some w)
    obtain pml4 q where w: "w = (pml4, q)" by fastforce
    show ?thesis
    proof (cases q)
      case q: (Some x)
      obtain ip sp where x: "x = (ip, sp)" by fastforce
      let ?t = "(write_cr3 pml4 (s1\<lparr>active := ?c\<rparr>))\<lparr>in_child := True\<rparr>"
      have "\<not> astray ip sp ?t" using probe by (simp add: run_forked_child_def v Some w q x enter_ring3_as_forked_child_def split: if_splits)
      then have "user ip sp ?t \<noteq> None" using l False by (intro assms(3)) (auto simp: write_cr3_def)
      then show ?thesis by (auto simp: run_forked_child_def v Some w q x enter_ring3_as_forked_child_def)
    qed (simp add: run_forked_child_def v Some w)
  qed (simp add: run_forked_child_def v)
  then show ?thesis using assms(1) False
    by (auto simp: sys_wait_def wait_for_child_def split: if_splits option.splits)
qed

lemma sys_calls_total:
  "readable s (rdi r) (min (unat (rsi r)) 4096) \<Longrightarrow> user_byte s HEAP_START \<noteq> None \<Longrightarrow> sys_write r s \<noteq> None"
  "sys_exit r s \<noteq> None" "sys_sbrk r s \<noteq> None" "sys_close r s \<noteq> None" "sys_dup r s \<noteq> None" "sys_dup2 r s \<noteq> None" "sys_kill r s \<noteq> None"
  "readable s (rdi r) (min (unat (rsi r)) 64) \<Longrightarrow> sys_open r s \<noteq> None"
  "readable s (rdi r) (min (unat (rsi r)) 64) \<Longrightarrow> sys_exec r s \<noteq> None"
  "own_buffer s (rsi r) (min (unat (rdx r)) 4096) \<Longrightarrow> sys_read r s \<noteq> None"
  "readable s (rsi r) (min (unat (rdx r)) 4096) \<Longrightarrow> sys_fdwrite r s \<noteq> None"
  "own_buffer s (rdi r) 16 \<Longrightarrow> unat (rdi r) mod 8 = 0 \<Longrightarrow> sys_pipe r s \<noteq> None"
  "\<not> fa_locked s \<Longrightarrow> sys_fork mt r s \<noteq> None"
proof -
  show "readable s (rdi r) (min (unat (rsi r)) 4096) \<Longrightarrow> user_byte s HEAP_START \<noteq> None \<Longrightarrow> sys_write r s \<noteq> None"
    by (auto simp: sys_write_def dest: readable_read)
  show "sys_exit r s \<noteq> None" "sys_sbrk r s \<noteq> None" "sys_close r s \<noteq> None"
    by (auto simp: sys_exit_def sys_sbrk_def sys_close_def split: prod.split option.split bool.split)
  show "sys_dup r s \<noteq> None" "sys_dup2 r s \<noteq> None" "sys_kill r s \<noteq> None"
    by (auto simp: sys_dup_def sys_dup2_def sys_kill_def split: prod.split option.split bool.split)
  show "readable s (rdi r) (min (unat (rsi r)) 64) \<Longrightarrow> sys_open r s \<noteq> None"
    "readable s (rdi r) (min (unat (rsi r)) 64) \<Longrightarrow> sys_exec r s \<noteq> None"
    "readable s (rsi r) (min (unat (rdx r)) 4096) \<Longrightarrow> sys_fdwrite r s \<noteq> None"
    by (auto simp: sys_open_def sys_exec_def sys_fdwrite_def Let_def dest!: readable_read split: prod.split option.split sum.split)
  show "\<not> fa_locked s \<Longrightarrow> sys_fork mt r s \<noteq> None"
    using fork_unlocked [of s mt "active s" "unat (rip r)" "unat (rsp r)"] by (auto simp: sys_fork_def split: prod.split option.split)
  show "sys_read r s \<noteq> None" if own: "own_buffer s (rsi r) (min (unat (rdx r)) 4096)"
  proof -
    obtain d s1 where rd: "read_fd (active s) (unat (rdi r)) (min (unat (rdx r)) 4096) s = (d, s1)" by fastforce
    have "write_user (rsi r) bs s1 \<noteq> None" if "d = Some bs" for bs
      using own_buffer_write [OF own, of bs s1] read_fd_length [OF rd [unfolded that]] read_fd_mach [OF rd] fd_ops_ctl(3) [OF rd]
      by (auto simp: same_ctl_def)
    then show ?thesis using rd by (auto simp: sys_read_def split: option.split)
  qed
  show "sys_pipe r s \<noteq> None" if own: "own_buffer s (rdi r) 16" and al: "unat (rdi r) mod 8 = 0"
  proof -
    obtain d s1 where c: "pipe_create (active s) s = (d, s1)" by fastforce
    have "mach s1 = mach s"
      using c by (auto simp: pipe_create_def with_process_mut_def Let_def split: option.splits prod.splits list.splits)
    then have w: "\<exists>s2. write_user (rdi r) (le_bytes 8 a @ le_bytes 8 b) s1 = Some s2" for a b
      using own_buffer_write [OF own, of "le_bytes 8 a @ le_bytes 8 b" s1] fd_ops_ctl(6) [OF c] by (auto simp: same_ctl_def)
    show ?thesis
    proof (cases d)
      case (Some ab)
      with w [of "fst ab" "snd ab"] c al show ?thesis by (auto simp: sys_pipe_def split: prod.split)
    qed (use c in \<open>simp add: sys_pipe_def\<close>)
  qed
qed

lemma dispatch_total:
  assumes "\<not> bad_call astray r s" "\<not> fa_locked s"
    and "\<And>ip sp t. \<not> fa_locked t \<Longrightarrow> in_child t \<Longrightarrow> active t \<noteq> 0 \<Longrightarrow> \<not> astray ip sp t \<Longrightarrow> user ip sp t \<noteq> None"
  shows "syscall_dispatch mt user r s \<noteq> None"
proof -
  have "unat (rax r) = 8 \<Longrightarrow> sys_wait user r s \<noteq> None"
    using sys_wait_total [of astray r s user] assms by (simp add: bad_call_def)
  then show ?thesis using assms(1,2) sys_calls_total [where s = s and r = r]
    unfolding syscall_dispatch_def Let_def bad_call_def by (simp split del: if_split split: if_split_asm) auto
qed

lemma wait_in_child: "in_child s \<Longrightarrow> syscall_dispatch mt user r s = syscall_dispatch mt user' r s"
  by (simp add: syscall_dispatch_def sys_wait_def wait_for_child_def Let_def)

lemma excursion_total:
  assumes keeps: "keeps_kernel_pml4 user"
    and calls: "\<And>r t. \<not> fa_locked t \<Longrightarrow> in_child t = b \<Longrightarrow> \<not> bad_call astray r t \<Longrightarrow> syscall_dispatch mt user r t \<noteq> None"
  shows "\<not> fa_locked s \<Longrightarrow> active s \<noteq> 0 \<Longrightarrow> in_child s = b \<Longrightarrow> \<not> excursion_astray mt cpu user astray n r s \<Longrightarrow>
    excursion mt cpu user n r s \<noteq> None"
proof (induction n arbitrary: r s)
  case (Suc n)
  obtain tr where tr: "cpu r (mach s) = Some tr" using Suc.prems(4) by (auto split: option.splits)
  show ?case
  proof (cases tr)
    case (Int80 r' m)
    have "\<not> bad_call astray r' (s\<lparr>mach := m\<rparr>)" using Suc.prems(4) tr Int80 by simp
    then obtain x s1 where d: "syscall_dispatch mt user r' (s\<lparr>mach := m\<rparr>) = Some (x, s1)"
      using calls [of "s\<lparr>mach := m\<rparr>" r'] Suc.prems(1,3) by auto
    show ?thesis
    proof (cases "x = ToKernel")
      case False
      then have "same_ctl s s1" using dispatch_ctl [OF keeps d] by (simp add: outcome_ctl_def same_ctl_def)
      then show ?thesis using Suc tr Int80 d by (cases x) (auto simp: same_ctl_def)
    qed (use tr Int80 d in simp)
  qed (use tr Suc.prems(2) in \<open>simp add: page_fault_handler_def\<close>)
qed simp

lemma child_total:
  assumes "\<not> fa_locked s" "in_child s" "active s \<noteq> 0" "\<not> child_astray mt cpu junk n ip sp s"
  shows "child_run mt cpu junk n ip sp s \<noteq> None"
  unfolding child_run_def
proof (rule excursion_total [where b = True])
  show "keeps_kernel_pml4 (\<lambda>_ _ _. None)" by (simp add: keeps_kernel_pml4_def)
  show "syscall_dispatch mt (\<lambda>_ _ _. None) r t \<noteq> None"
    if "\<not> fa_locked t" "in_child t = True" "\<not> bad_call (\<lambda>_ _ _. False) r t" for r t
    using dispatch_total [OF that(3,1), of "\<lambda>_ _ t. Some t" mt] wait_in_child [of t mt "\<lambda>_ _ _. None" r "\<lambda>_ _ t. Some t"] that(2)
    by simp
qed (use assms in \<open>simp_all add: child_astray_def\<close>)

lemma program_total:
  assumes "\<not> fa_locked s" "active s \<noteq> 0" "\<not> program_astray mt cpu junk n ip sp s"
  shows "enter_ring3_now mt cpu junk n ip sp s \<noteq> None"
  unfolding enter_ring3_now_def
proof (rule excursion_total [where b = "in_child s", OF child_run_keeps])
  show "syscall_dispatch mt (child_run mt cpu junk n) r t \<noteq> None"
    if "\<not> fa_locked t" "\<not> bad_call (child_astray mt cpu junk n) r t" for r t
    by (rule dispatch_total [OF that(2,1)]) (rule child_total)
qed (use assms in \<open>simp_all add: program_astray_def\<close>)

lemma run_total:
  assumes "\<not> fa_locked s" "\<not> run_astray mt cpu junk n pid s"
  shows "\<exists>r s'. run_process (enter_ring3_now mt cpu junk n) pid s = Some (r, s')"
proof (cases "pid \<in> {1, 2, 4, 5, 6, 7}")
  case True
  have "enter_ring3_now mt cpu junk n USER_CODE_ADDR (USER_STACK_ADDR + 4096) (write_cr3 (pml4_frame p) (s\<lparr>active := pid\<rparr>)) \<noteq> None"
    if "slots s pid = Some p" for p
    using assms True that by (intro program_total) (auto simp: run_astray_def run_process_def run_slot_def write_cr3_def split: if_splits)
  then show ?thesis using True by (auto simp: run_process_def run_slot_def split: option.split)
qed (simp add: run_process_def)

lemma run_back_in_kernel:
  assumes "run_process (enter_ring3_now mt cpu junk n) pid s = Some (r, s')"
  shows "(r = Inl NoSuchProcess \<and> s' = s \<and> (pid = 3 \<or> get_proc s pid = None \<or> 10 \<le> pid))
    \<or> (r = Inr () \<and> active s' = 0 \<and> cr3 (mach s') = kernel_pml4 s \<and> kernel_pml4 s' = kernel_pml4 s \<and> in_child s' = in_child s)"
proof (cases "pid \<in> {1, 2, 4, 5, 6, 7} \<and> slots s pid \<noteq> None")
  case True
  then obtain p where p: "slots s pid = Some p" by auto
  let ?s = "write_cr3 (pml4_frame p) (s\<lparr>active := pid\<rparr>)"
  have r: "r = Inr ()" "enter_ring3_now mt cpu junk n USER_CODE_ADDR (USER_STACK_ADDR + 4096) ?s = Some s'"
    using assms True p by (auto simp: run_process_def run_slot_def)
  have "active ?s \<noteq> 0" using True by (auto simp: write_cr3_def)
  then have "back_in_kernel ?s s'"
    using excursion_ctl [OF child_run_keeps r(2) [unfolded enter_ring3_now_def]] by simp
  then show ?thesis using r(1) by (simp add: back_in_kernel_def write_cr3_def)
next
  case False
  have "get_proc s pid = None \<or> pid = 3 \<or> 10 \<le> pid"
    using False by (auto simp: get_proc_def)
  with False assms show ?thesis by (auto simp: run_process_def run_slot_def split: if_splits option.splits)
qed

text \<open>
  C7. The kernel gets control back, in its own context, from every program that does not go astray.  A
  process run from the shell -- its whole history of system calls, forked children run by \<open>wait\<close>,
  \<open>exec\<close>ed programs, ended by the exit call or by a page fault -- comes back: with no
  process active, the kernel's page table loaded and the nesting flag as before (or the process did
  not exist, and nothing changed).  What the program, and each child it waits for, has to do is to trap again
  whenever it runs (by \<open>int 0x80\<close> or a page fault; any other exception halts the kernel), to end within \<open>n\<close> calls (any \<open>n\<close>), to pass only buffers that are mapped, and to have data
  stored only in its own part of the address space; the frame allocator must be free.
\<close>

theorem run_returns_to_kernel:
  assumes "\<not> fa_locked s" "\<not> run_astray mt cpu junk n pid s"
  shows "\<exists>r s'. run_process (enter_ring3_now mt cpu junk n) pid s = Some (r, s') \<and>
    ((r = Inl NoSuchProcess \<and> s' = s \<and> (pid = 3 \<or> get_proc s pid = None \<or> 10 \<le> pid))
     \<or> (r = Inr () \<and> active s' = 0 \<and> cr3 (mach s') = kernel_pml4 s \<and> kernel_pml4 s' = kernel_pml4 s \<and> in_child s' = in_child s))"
proof -
  obtain r s' where "run_process (enter_ring3_now mt cpu junk n) pid s = Some (r, s')" using run_total [OF assms] by blast
  with run_back_in_kernel [OF this] show ?thesis by blast
qed

definition zero_regs :: regs where
  "zero_regs = \<lparr>rax = 0, rdi = 0, rsi = 0, rdx = 0, rip = 0, rsp = 0\<rparr>"

text \<open>A program that makes a pipe, its two descriptors stored in its code page, and exits; frame 9 backs every page.\<close>

definition pipe_cpu :: cpu where
  "pipe_cpu r m = Some (Int80 (if rdx r = 0 then r\<lparr>rax := 10, rdi := 0x555550000000, rdx := 1\<rparr> else r\<lparr>rax := 1\<rparr>) m)"

definition demo_mapped :: kstate where
  "demo_mapped = demo_kernel\<lparr>mach := demo_machine\<lparr>maps := \<lambda>_ _. Some 9\<rparr>\<rparr>"

lemma demo_mapped_own: "kernel_pml4 s = 0 \<Longrightarrow> maps (mach s) = (\<lambda>_ _. Some 9) \<Longrightarrow> own_buffer s 0x555550000000 16"
  by (simp add: own_buffer_def readable_def user_byte_def translate_def canonical_def p4_index_def USER_CODE_ADDR_def upt_rec)

lemma demo_run_astray: "\<not> run_astray demo_mapper pipe_cpu zero_regs (Suc (Suc 0)) 1 demo_mapped"
proof -
  let ?s = "write_cr3 (pml4_frame demo_proc) (demo_mapped\<lparr>active := 1\<rparr>)"
  let ?r = "zero_regs\<lparr>rip := of_nat USER_CODE_ADDR, rsp := of_nat (USER_STACK_ADDR + 4096), rax := 10, rdi := 0x555550000000, rdx := 1\<rparr>"
  have own: "own_buffer ?s 0x555550000000 16"
    by (rule demo_mapped_own) (simp_all add: demo_mapped_def demo_kernel_def write_cr3_def)
  have last: "\<not> excursion_astray mt pipe_cpu user astray (Suc 0) (?r\<lparr>rax := v\<rparr>) t" for mt user astray v t
    by (simp add: pipe_cpu_def bad_call_def syscall_dispatch_def sys_exit_def)
  have bad: "\<not> bad_call astray ?r ?s" for astray using own by (simp add: bad_call_def)
  have "sys_pipe ?r ?s \<noteq> None" using own by (intro sys_calls_total(12)) simp_all
  then obtain x s1 where p: "sys_pipe ?r ?s = Some (x, s1)" by auto
  then obtain v where x: "x = Resume (?r\<lparr>rax := v\<rparr>)" by (auto simp: sys_pipe_def split: if_splits option.splits prod.splits)
  have d: "syscall_dispatch mt user ?r ?s = Some (Resume (?r\<lparr>rax := v\<rparr>), s1)" for mt user
    using p x by (simp add: syscall_dispatch_def)
  have c: "pipe_cpu (zero_regs\<lparr>rip := of_nat USER_CODE_ADDR, rsp := of_nat (USER_STACK_ADDR + 4096)\<rparr>) (mach ?s) = Some (Int80 ?r (mach ?s))"
    by (simp add: pipe_cpu_def zero_regs_def)
  have "?s\<lparr>mach := mach ?s\<rparr> = ?s" by simp
  then have "\<not> program_astray demo_mapper pipe_cpu zero_regs (Suc (Suc 0)) USER_CODE_ADDR (USER_STACK_ADDR + 4096) ?s"
    unfolding program_astray_def using bad last d
    by (subst excursion_astray.simps(2)) (simp only: c option.case trap.case d prod.case outcome.case simp_thms)
  moreover have "slots demo_mapped 1 = Some demo_proc"
    using get_demo [of 1] by (simp add: get_proc_def demo_mapped_def)
  ultimately show ?thesis by (simp add: run_astray_def run_process_def run_slot_def)
qed

theorem run_returns_to_kernel_witness:
  "\<exists>r s'. run_process (enter_ring3_now demo_mapper pipe_cpu zero_regs (Suc (Suc 0))) 1 demo_mapped = Some (r, s') \<and>
    ((r = Inl NoSuchProcess \<and> s' = demo_mapped \<and> (1 = (3 :: nat) \<or> get_proc demo_mapped 1 = None \<or> 10 \<le> (1 :: nat)))
     \<or> (r = Inr () \<and> active s' = 0 \<and> cr3 (mach s') = kernel_pml4 demo_mapped \<and> kernel_pml4 s' = kernel_pml4 demo_mapped
        \<and> in_child s' = in_child demo_mapped))"
  by (rule run_returns_to_kernel [OF _ demo_run_astray]) (simp add: demo_mapped_def demo_kernel_def)

section \<open>Calls outside a process\<close>

lemma nat_2_12: "2 \<le> (n::nat) \<Longrightarrow> n \<le> 12 \<Longrightarrow> n \<in> {2, 3, 4, 5, 6, 7, 8, 9, 10, 11, 12}"
  by (simp only: insert_iff empty_iff) presburger

text \<open>
  With no active process a call never touches a process, a file or a pipe: every call from
  \<open>sbrk\<close> on leaves the state as it is and returns 0 (\<open>sbrk\<close>, \<open>kill\<close>) or the all-ones word, once
  the path of \<open>open\<close> could be read; unknown numbers return as they came.
\<close>

theorem calls_without_process:
  assumes "active s = 0" "2 \<le> unat (rax r)" "unat (rax r) = 3 \<longrightarrow> read_user s (rdi r) (min (unat (rsi r)) 64) \<noteq> None"
  shows "syscall_dispatch mt user r s = Some (Resume (r\<lparr>rax :=
    if unat (rax r) = 2 \<or> unat (rax r) = 13 then 0 else if unat (rax r) \<le> 12 then failure else rax r\<rparr>), s)"
  using assms nat_2_12 [of "unat (rax r)"]
  by (auto simp: syscall_dispatch_def Let_def sys_sbrk_def sys_open_def sys_read_def sys_fdwrite_def sys_close_def
      sys_fork_def sys_wait_def sys_exec_def sys_pipe_def sys_dup_def sys_dup2_def sys_kill_def)

theorem calls_without_process_witness:
  "syscall_dispatch demo_mapper exits_at_once (zero_regs\<lparr>rax := 6\<rparr>) (demo_kernel\<lparr>active := 0\<rparr>)
     = Some (Resume (zero_regs\<lparr>rax := - 1\<rparr>), demo_kernel\<lparr>active := 0\<rparr>)"
  using calls_without_process [of "demo_kernel\<lparr>active := 0\<rparr>" "zero_regs\<lparr>rax := 6\<rparr>" demo_mapper exits_at_once]
  by (simp add: zero_regs_def)

section \<open>Reference counts under system calls\<close>

text \<open>
  The three calls that may leave a count of pipe ends that nobody holds: \<open>dup\<close> of a pipe end into
  a full table, \<open>fork\<close> with a full process table, and \<open>kill\<close> of a child that holds a pipe end;
  \<open>wait\<close> (which runs a whole program) is left to the steps of that program.
\<close>

definition leaky_call :: "regs \<Rightarrow> kstate \<Rightarrow> bool" where
  "leaky_call r s =
     (let n = unat (rax r) in
        n = 7 \<and> None \<notin> set (ptable s)
      \<or> n = 8
      \<or> n = 11 \<and> (\<exists>p. get_proc s (active s) = Some p \<and> None \<notin> set (fds p))
      \<or> n = 13 \<and> (\<exists>c i. get_proc s (unat (rdi r)) = Some c
                         \<and> (Some (FdPipeRead i) \<in> set (fds c) \<or> Some (FdPipeWrite i) \<in> set (fds c))))"

lemma ends_in_zero: "Some e \<notin> set t \<Longrightarrow> ends_in e t = 0"
  by (auto simp: ends_in_def filter_empty_conv)

lemma kill_ok:
  assumes ok: "kernel_ok s" and run: "kill caller target s = (r, s')"
    and none: "\<And>c i. get_proc s target = Some c \<Longrightarrow> Some (FdPipeRead i) \<notin> set (fds c) \<and> Some (FdPipeWrite i) \<notin> set (fds c)"
  shows "kernel_ok s'"
proof (cases r)
  case False
  with ok run show ?thesis by (auto simp: kill_def split: if_splits option.splits)
next
  case True
  then obtain c where c: "10 \<le> target" "target - 10 < 4" "ptable s ! (target - 10) = Some c"
    and s': "s' = s\<lparr>ptable := (ptable s)[target - 10 := None]\<rparr>"
    using run by (auto simp: kill_def split: if_splits option.splits)
  have gc: "get_proc s target = Some c" using c by (simp add: get_proc_def)
  have fo: "fd_ok s" "ids_ok s" using ok by (auto simp: kernel_ok_def fd_ok_def)
  have get: "get_proc s' i = (if i = target then None else get_proc s i)" for i
    using get_proc_ptable [OF fo(2) c(2), of None i] c(1) by (simp add: s')
  have tot: "total_ends s e = total_ends s' e + ends_in e (fds c)" for e
    using total_ends_change [of target s' s e] get all_pids_props(2) [OF gc] gc by (simp add: ends_of_def)
  have "total_ends s' (FdPipeRead i) = readers s i" "total_ends s' (FdPipeWrite i) = writers s i" for i
    using tot [of "FdPipeRead i"] tot [of "FdPipeWrite i"] none [OF gc, of i] by (simp_all add: ends_in_zero)
  moreover have "ids_ok s'" "pipes s' = pipes s" "kdisk s' = kdisk s" using fo(2) by (simp_all add: s' ids_ok_def)
  ultimately show ?thesis using ok get by (auto simp: kernel_ok_def fd_ok_def split: if_splits)
qed

lemma exec_ok:
  assumes ok: "kernel_ok s" and run: "exec_process pid img s = (r, s')"
  shows "kernel_ok s'"
proof (cases "get_proc s pid")
  case None
  with ok run show ?thesis by (auto simp: exec_process_def with_process_mut_def split: if_splits)
next
  case (Some p)
  have "proc_ok (p\<lparr>heap_used := 0\<rparr>)" using kernel_proc_ok [OF ok Some] by (simp add: proc_ok_def)
  then have "kernel_ok (set_proc pid (p\<lparr>heap_used := 0\<rparr>) s)" by (rule kernel_ok_set_same [OF ok Some]) simp
  with run ok Some show ?thesis by (auto simp: exec_process_def with_process_mut_def split: if_splits)
qed

lemma write_user_ok: "write_user ptr bs s = Some s' \<Longrightarrow> kernel_ok s \<Longrightarrow> kernel_ok s'"
  using write_user_ctl by (metis kernel_ok_fields(2))

lemma sys_first_ok:
  "sys_write r s = Some (x, s') \<Longrightarrow> kernel_ok s \<Longrightarrow> kernel_ok s'" "sys_exit r s = Some (x, s') \<Longrightarrow> kernel_ok s \<Longrightarrow> kernel_ok s'"
  "sys_sbrk r s = Some (x, s') \<Longrightarrow> kernel_ok s \<Longrightarrow> kernel_ok s'" "sys_open r s = Some (x, s') \<Longrightarrow> kernel_ok s \<Longrightarrow> kernel_ok s'"
  "sys_read r s = Some (x, s') \<Longrightarrow> kernel_ok s \<Longrightarrow> kernel_ok s'" "sys_fdwrite r s = Some (x, s') \<Longrightarrow> kernel_ok s \<Longrightarrow> kernel_ok s'"
  "sys_close r s = Some (x, s') \<Longrightarrow> kernel_ok s \<Longrightarrow> kernel_ok s'" "sys_dup2 r s = Some (x, s') \<Longrightarrow> kernel_ok s \<Longrightarrow> kernel_ok s'"
  "sys_exec r s = Some (x, s') \<Longrightarrow> kernel_ok s \<Longrightarrow> kernel_ok s'"
proof -
  show "sys_write r s = Some (x, s') \<Longrightarrow> kernel_ok s \<Longrightarrow> kernel_ok s'"
    by (auto simp: sys_write_def split: option.splits if_splits)
  show "sys_exit r s = Some (x, s') \<Longrightarrow> kernel_ok s \<Longrightarrow> kernel_ok s'"
    by (auto simp: sys_exit_def restore_kernel_cr3_def write_cr3_def)
  show "sys_sbrk r s = Some (x, s') \<Longrightarrow> kernel_ok s \<Longrightarrow> kernel_ok s'"
    by (auto simp: sys_sbrk_def split: if_splits option.splits prod.splits intro: sbrk_ok)
  show "sys_open r s = Some (x, s') \<Longrightarrow> kernel_ok s \<Longrightarrow> kernel_ok s'"
    by (auto simp: sys_open_def Let_def split: if_splits option.splits prod.splits intro: open_file_ok)
  show "sys_read r s = Some (x, s') \<Longrightarrow> kernel_ok s \<Longrightarrow> kernel_ok s'"
    by (auto simp: sys_read_def Let_def split: if_splits option.splits prod.splits intro: read_fd_ok write_user_ok)
  show "sys_fdwrite r s = Some (x, s') \<Longrightarrow> kernel_ok s \<Longrightarrow> kernel_ok s'"
    by (auto simp: sys_fdwrite_def Let_def split: if_splits option.splits prod.splits intro: write_fd_ok)
  show "sys_close r s = Some (x, s') \<Longrightarrow> kernel_ok s \<Longrightarrow> kernel_ok s'"
    by (auto simp: sys_close_def split: if_splits option.splits prod.splits bool.splits intro: close_fd_ok)
  show "sys_dup2 r s = Some (x, s') \<Longrightarrow> kernel_ok s \<Longrightarrow> kernel_ok s'"
    by (auto simp: sys_dup2_def split: if_splits option.splits prod.splits bool.splits intro: dup2_fd_ok)
  show "sys_exec r s = Some (x, s') \<Longrightarrow> kernel_ok s \<Longrightarrow> kernel_ok s'"
    by (auto simp: sys_exec_def Let_def split: if_splits option.splits prod.splits sum.splits intro: exec_ok)
qed

lemma sys_pipe_ok:
  assumes "kernel_ok s" "active s \<noteq> 0 \<Longrightarrow> get_proc s (active s) \<noteq> None" "sys_pipe r s = Some (x, s')"
  shows "kernel_ok s'"
  using assms(3,1,2)
  by (auto simp: sys_pipe_def split: if_splits option.splits prod.splits intro: pipe_create_ok write_user_ok)

lemma sys_leaky_ok:
  "sys_fork mt r s = Some (x, s') \<Longrightarrow> kernel_ok s \<Longrightarrow> unat (rax r) = 7 \<Longrightarrow> \<not> leaky_call r s \<Longrightarrow> kernel_ok s'"
  "sys_dup r s = Some (x, s') \<Longrightarrow> kernel_ok s \<Longrightarrow> unat (rax r) = 11 \<Longrightarrow> \<not> leaky_call r s \<Longrightarrow> kernel_ok s'"
  "sys_kill r s = Some (x, s') \<Longrightarrow> kernel_ok s \<Longrightarrow> unat (rax r) = 13 \<Longrightarrow> \<not> leaky_call r s \<Longrightarrow> kernel_ok s'"
proof -
  show "sys_fork mt r s = Some (x, s') \<Longrightarrow> kernel_ok s \<Longrightarrow> unat (rax r) = 7 \<Longrightarrow> \<not> leaky_call r s \<Longrightarrow> kernel_ok s'"
    by (auto simp: sys_fork_def leaky_call_def split: if_splits option.splits prod.splits intro: fork_kernel_ok)
  show "sys_dup r s = Some (x, s') \<Longrightarrow> kernel_ok s \<Longrightarrow> unat (rax r) = 11 \<Longrightarrow> \<not> leaky_call r s \<Longrightarrow> kernel_ok s'"
    by (auto simp: sys_dup_def leaky_call_def split: if_splits option.splits prod.splits intro: dup_fd_ok)
  show "sys_kill r s = Some (x, s') \<Longrightarrow> kernel_ok s \<Longrightarrow> unat (rax r) = 13 \<Longrightarrow> \<not> leaky_call r s \<Longrightarrow> kernel_ok s'"
    by (auto simp: sys_kill_def leaky_call_def split: if_splits prod.splits intro: kill_ok)
qed



section \<open>Data reaches the caller's buffer\<close>

text \<open>Where the byte at a virtual address lives: a frame and an offset.\<close>

definition user_loc :: "kstate \<Rightarrow> nat \<Rightarrow> (nat \<times> nat) option" where
  "user_loc s va = map_option (\<lambda>f. (f, va mod 4096)) (translate s va)"

definition mem_at :: "kstate \<Rightarrow> nat \<times> nat \<Rightarrow> u8" where
  "mem_at s l = phys (mach s) (fst l) ! snd l"

definition buffer_locs :: "kstate \<Rightarrow> u64 \<Rightarrow> nat \<Rightarrow> (nat \<times> nat) option list" where
  "buffer_locs s ptr n = map (\<lambda>i. user_loc s (unat (ptr + of_nat i))) [0..<n]"

definition whole_frames :: "kstate \<Rightarrow> bool" where
  "whole_frames s \<longleftrightarrow> (\<forall>f. length (phys (mach s) f) = 4096)"

lemma user_byte_loc: "user_byte s va = map_option (mem_at s) (user_loc s va)"
  by (simp add: user_byte_def user_loc_def mem_at_def option.map_comp comp_def)

lemma poke_loc:
  assumes "poke va b s = Some s'" "whole_frames s"
  shows "\<exists>l. user_loc s va = Some l \<and> (\<forall>l'. snd l' < 4096 \<longrightarrow> mem_at s' l' = (if l' = l then b else mem_at s l'))
    \<and> whole_frames s' \<and> user_loc s' = user_loc s"
proof -
  obtain f where f: "translate s va = Some f" using assms(1) by (auto simp: poke_def split: option.splits)
  have s': "s' = s\<lparr>mach := (mach s)\<lparr>phys := (phys (mach s))(f := (phys (mach s) f)[va mod 4096 := b])\<rparr>\<rparr>"
    using assms(1) f by (simp add: poke_def)
  have "user_loc s' = user_loc s" by (simp add: s' fun_eq_iff user_loc_def translate_def)
  then show ?thesis using assms(2) f by (auto simp: s' user_loc_def mem_at_def whole_frames_def nth_list_update prod_eq_iff)
qed

lemma user_loc_offset: "user_loc s va = Some l \<Longrightarrow> snd l < 4096"
  by (auto simp: user_loc_def)

lemma buffer_locs_Suc: "buffer_locs s ptr (Suc n) = user_loc s (unat ptr) # buffer_locs s (ptr + 1) n"
  by (simp add: buffer_locs_def upt_conv_Cons map_Suc_upt [symmetric] comp_def add.commute add.left_commute del: upt_Suc)

lemma write_user_locs:
  assumes "whole_frames s" "write_user ptr bs s = Some s'"
  shows "user_loc s' = user_loc s \<and> whole_frames s' \<and> None \<notin> set (buffer_locs s ptr (length bs))
    \<and> (\<forall>l. snd l < 4096 \<longrightarrow> Some l \<notin> set (buffer_locs s ptr (length bs)) \<longrightarrow> mem_at s' l = mem_at s l)
    \<and> (distinct (buffer_locs s ptr (length bs)) \<longrightarrow>
         map (map_option (mem_at s')) (buffer_locs s ptr (length bs)) = map Some bs)"
  using assms
proof (induction ptr bs s rule: write_user.induct)
  case (2 ptr b bs s)
  then obtain s1 where s1: "poke (unat ptr) b s = Some s1" "write_user (ptr + 1) bs s1 = Some s'"
    by (auto split: option.splits)
  obtain l where l: "user_loc s (unat ptr) = Some l" "user_loc s1 = user_loc s" "whole_frames s1"
    "\<And>l'. snd l' < 4096 \<Longrightarrow> mem_at s1 l' = (if l' = l then b else mem_at s l')"
    using poke_loc [OF s1(1) "2.prems"(1)] by blast
  have bl: "buffer_locs s1 = buffer_locs s" using l(2) by (simp add: fun_eq_iff buffer_locs_def)
  have "snd l < 4096" by (rule user_loc_offset [OF l(1)])
  with "2.IH" [OF s1(1) l(3) s1(2)] l show ?case by (cases l) (simp add: bl buffer_locs_Suc)
qed (simp add: buffer_locs_def)

lemma write_user_mapped: "None \<notin> set (buffer_locs s ptr (length bs)) \<Longrightarrow> \<exists>s'. write_user ptr bs s = Some s'"
proof (induction bs arbitrary: ptr s)
  case (Cons b bs)
  then obtain s1 where s1: "poke (unat ptr) b s = Some s1"
    by (auto simp: buffer_locs_Suc poke_def user_loc_def split: option.splits)
  then have "user_loc s1 = user_loc s" by (auto simp: poke_def fun_eq_iff user_loc_def translate_def split: option.splits)
  then have "buffer_locs s1 = buffer_locs s" by (simp add: fun_eq_iff buffer_locs_def)
  then show ?case using Cons.IH [of s1 "ptr + 1"] Cons.prems s1 by (auto simp: buffer_locs_Suc)
qed simp

lemma read_user_locs: "read_user s ptr n = those (map (map_option (mem_at s)) (buffer_locs s ptr n))"
  by (simp add: read_user_def buffer_locs_def user_byte_loc comp_def)

lemma those_map_Some: "those (map Some xs) = Some xs"
  by (induction xs) simp_all

text \<open>
  C29. The \<open>read\<close> call delivers.  When the descriptor yields data and the buffer's bytes are
  mapped to different places, the call returns the number of bytes, the caller finds exactly
  those bytes in its buffer, no other byte of memory changes, and nothing else happens that
  reading the descriptor does not do.
\<close>

theorem read_call_delivers:
  assumes act: "active s \<noteq> 0" and rd: "read_fd (active s) (unat (rdi r)) (min (unat (rdx r)) 4096) s = (Some data, s1)"
    and mem: "whole_frames s" "distinct (buffer_locs s (rsi r) (length data))" "None \<notin> set (buffer_locs s (rsi r) (length data))"
    and call: "unat (rax r) = 4"
  shows "\<exists>s'. syscall_dispatch mt user r s = Some (Resume (r\<lparr>rax := of_nat (length data)\<rparr>), s')
    \<and> read_user s' (rsi r) (length data) = Some data \<and> s' = s1\<lparr>mach := mach s'\<rparr>
    \<and> (\<forall>l. snd l < 4096 \<longrightarrow> Some l \<notin> set (buffer_locs s (rsi r) (length data)) \<longrightarrow> mem_at s' l = mem_at s l)"
proof -
  have m: "mach s1 = mach s" "kernel_pml4 s1 = kernel_pml4 s"
    using read_fd_mach [OF rd] fd_ops_ctl(3) [OF rd] by (simp_all add: same_ctl_def)
  have loc: "user_loc s1 = user_loc s" by (simp add: fun_eq_iff user_loc_def translate_def m)
  have wf: "whole_frames s1" and ma: "mem_at s1 = mem_at s" using mem(1) by (simp_all add: whole_frames_def m mem_at_def fun_eq_iff)
  have bl: "buffer_locs s1 = buffer_locs s" by (simp add: fun_eq_iff buffer_locs_def loc)
  obtain s' where w: "write_user (rsi r) data s1 = Some s'" using write_user_mapped [of s1 "rsi r" data] mem(3) bl by auto
  note wl = write_user_locs [OF wf w, unfolded bl]
  have "buffer_locs s' = buffer_locs s" using wl by (simp add: fun_eq_iff buffer_locs_def loc)
  then have "read_user s' (rsi r) (length data) = Some data" using wl mem(2) by (simp add: read_user_locs those_map_Some)
  moreover have "s' = s1\<lparr>mach := mach s'\<rparr>" using write_user_ctl [OF w] by simp
  moreover have "syscall_dispatch mt user r s = Some (Resume (r\<lparr>rax := of_nat (length data)\<rparr>), s')"
    using act rd w call by (simp add: syscall_dispatch_def sys_read_def)
  ultimately show ?thesis using wl ma by auto
qed

text \<open>Process 1 reads two bytes that wait in its pipe into the first page, which frame 9 backs.\<close>

definition demo_reader :: kstate where
  "demo_reader = demo_kernel\<lparr>slots := [1 \<mapsto> demo_proc\<lparr>fds := [Some (FdPipeRead 0), Some (FdPipeWrite 0), None, None]\<rparr>],
     pipes := [Some (snd (ring_write new_pipe [7, 8])), None, None, None],
     mach := demo_machine\<lparr>maps := \<lambda>_ _. Some 9\<rparr>\<rparr>"

theorem read_call_delivers_witness:
  "\<exists>s'. syscall_dispatch demo_mapper exits_at_once (zero_regs\<lparr>rax := 4, rdx := 100\<rparr>) demo_reader
        = Some (Resume (zero_regs\<lparr>rax := 2, rdx := 100\<rparr>), s')
     \<and> read_user s' 0 2 = Some [7, 8]"
proof -
  let ?r = "zero_regs\<lparr>rax := 4, rdx := 100\<rparr>"
  have ring: "fst (ring_read (snd (ring_write new_pipe [7, 8])) 100) = [7, 8]"
    by code_simp
  obtain q where q: "ring_read (snd (ring_write new_pipe [7, 8])) 100 = ([7, 8], q)" using ring by (metis prod.collapse)
  obtain s1 where rd: "read_fd (active demo_reader) (unat (rdi ?r)) (min (unat (rdx ?r)) 4096) demo_reader = (Some [7, 8], s1)"
    using q by (auto simp: demo_reader_def demo_kernel_def read_fd_def pipe_read_def proc_fd_def get_proc_def zero_regs_def
        fd_at_def)
  have "[0..<2] = [0, 1 :: nat]" by (simp add: upt_rec)
  then have bl: "buffer_locs demo_reader (rsi ?r) (length [7, 8 :: u8]) = [Some (9, 0), Some (9, 1)]"
    by (simp add: buffer_locs_def demo_reader_def user_loc_def translate_def canonical_def zero_regs_def)
  have "active demo_reader \<noteq> 0" "whole_frames demo_reader" "unat (rax ?r) = 4"
    by (simp_all add: demo_reader_def demo_kernel_def whole_frames_def demo_machine_def)
  from read_call_delivers [OF this(1) rd this(2) _ _ this(3), of demo_mapper exits_at_once, unfolded bl]
  obtain s' where "syscall_dispatch demo_mapper exits_at_once ?r demo_reader = Some (Resume (?r\<lparr>rax := of_nat (length [7, 8 :: u8])\<rparr>), s')"
    "read_user s' (rsi ?r) (length [7, 8 :: u8]) = Some [7, 8]" by auto
  then show ?thesis by (simp add: zero_regs_def numeral_2_eq_2)
qed

end
