(* ===== verification/F32.thy ===== *)
theory F32
  imports Prelude
begin

text \<open>
  Rust's \<open>f32\<close> as the kernel uses it: IEEE binary32 with rounding to nearest, ties to even.  Every
  finite value is a whole multiple of \<open>2 ^ -149\<close>, so \<open>Fin k\<close> stands for \<open>k * 2 ^ -149\<close>.  The sign
  of a zero is not represented: no operation the kernel applies can tell the two zeros apart, as
  it only divides by non-zero constants and prints no zero that an operation made negative.
\<close>

datatype f32 = Fin int | Inf bool | NaN

section \<open>Rounding\<close>

fun bitlen :: "nat \<Rightarrow> nat" where
  "bitlen n = (if n = 0 then 0 else Suc (bitlen (n div 2)))"

declare bitlen.simps [simp del]

text \<open>The whole number nearest to \<open>n / d\<close>, the even one of two.\<close>

definition rne :: "nat \<Rightarrow> nat \<Rightarrow> nat" where
  "rne n d = (let q = n div d; r = n mod d in if 2 * r < d \<or> 2 * r = d \<and> even q then q else Suc q)"

text \<open>The spacing of the 24-bit floats at magnitude \<open>n / d\<close>, and \<open>n / d\<close> rounded to it.\<close>

definition ulp :: "nat \<Rightarrow> nat" where
  "ulp q = 2 ^ (bitlen q - 24)"

definition round_mag :: "nat \<Rightarrow> nat \<Rightarrow> nat" where
  "round_mag n d = (let u = ulp (n div d) in rne n (d * u) * u)"

definition f_round :: "int \<Rightarrow> nat \<Rightarrow> f32" where
  "f_round n d =
     (let m = round_mag (nat \<bar>n\<bar>) d in if 2 ^ 277 \<le> m then Inf (n < 0) else Fin (sgn n * int m))"

section \<open>Operations\<close>

definition f_of_nat :: "nat \<Rightarrow> f32" where
  "f_of_nat n = f_round (int n * 2 ^ 149) 1"

definition f_of_ratio :: "int \<Rightarrow> nat \<Rightarrow> f32" where
  "f_of_ratio n d = f_round (n * 2 ^ 149) d"

definition f_neg :: "f32 \<Rightarrow> f32" where
  "f_neg x = (case x of Fin a \<Rightarrow> Fin (- a) | Inf s \<Rightarrow> Inf (\<not> s) | NaN \<Rightarrow> NaN)"

definition f_abs :: "f32 \<Rightarrow> f32" where
  "f_abs x = (case x of Fin a \<Rightarrow> Fin \<bar>a\<bar> | Inf s \<Rightarrow> Inf False | NaN \<Rightarrow> NaN)"

definition f_add :: "f32 \<Rightarrow> f32 \<Rightarrow> f32" where
  "f_add x y =
     (case (x, y) of
        (Fin a, Fin b) \<Rightarrow> f_round (a + b) 1
      | (Inf s, Fin _) \<Rightarrow> Inf s
      | (Fin _, Inf s) \<Rightarrow> Inf s
      | (Inf s, Inf t) \<Rightarrow> if s = t then Inf s else NaN
      | _ \<Rightarrow> NaN)"

definition f_sub :: "f32 \<Rightarrow> f32 \<Rightarrow> f32" where
  "f_sub x y = f_add x (f_neg y)"

definition f_mul :: "f32 \<Rightarrow> f32 \<Rightarrow> f32" where
  "f_mul x y =
     (case (x, y) of
        (Fin a, Fin b) \<Rightarrow> f_round (a * b) (2 ^ 149)
      | (Inf s, Fin b) \<Rightarrow> if b = 0 then NaN else Inf (s \<noteq> (b < 0))
      | (Fin a, Inf t) \<Rightarrow> if a = 0 then NaN else Inf (t \<noteq> (a < 0))
      | (Inf s, Inf t) \<Rightarrow> Inf (s \<noteq> t)
      | _ \<Rightarrow> NaN)"

text \<open>Division by a zero is taken as division by the positive zero.\<close>

definition f_div :: "f32 \<Rightarrow> f32 \<Rightarrow> f32" where
  "f_div x y =
     (case (x, y) of
        (Fin a, Fin b) \<Rightarrow>
          if b = 0 then (if a = 0 then NaN else Inf (a < 0)) else f_round (sgn b * a * 2 ^ 149) (nat \<bar>b\<bar>)
      | (Inf s, Fin b) \<Rightarrow> Inf (s \<noteq> (b < 0))
      | (Fin _, Inf _) \<Rightarrow> Fin 0
      | _ \<Rightarrow> NaN)"

fun f_lt :: "f32 \<Rightarrow> f32 \<Rightarrow> bool" where
  "f_lt (Fin a) (Fin b) = (a < b)"
| "f_lt (Fin _) (Inf s) = (\<not> s)"
| "f_lt (Inf s) (Fin _) = s"
| "f_lt (Inf s) (Inf t) = (s \<and> \<not> t)"
| "f_lt _ _ = False"

definition f_eq :: "f32 \<Rightarrow> f32 \<Rightarrow> bool" where
  "f_eq x y \<longleftrightarrow> x = y \<and> x \<noteq> NaN"

definition f_le :: "f32 \<Rightarrow> f32 \<Rightarrow> bool" where
  "f_le x y \<longleftrightarrow> f_lt x y \<or> f_eq x y"

text \<open>\<open>f32::max\<close> and \<open>f32::min\<close> return the other argument when one is not a number.\<close>

definition f_max :: "f32 \<Rightarrow> f32 \<Rightarrow> f32" where
  "f_max x y = (if x = NaN then y else if y = NaN then x else if f_lt x y then y else x)"

definition f_min :: "f32 \<Rightarrow> f32 \<Rightarrow> f32" where
  "f_min x y = (if x = NaN then y else if y = NaN then x else if f_lt y x then y else x)"

definition f_clamp :: "f32 \<Rightarrow> f32 \<Rightarrow> f32 \<Rightarrow> f32" where
  "f_clamp x lo hi = (if f_lt x lo then lo else if f_lt hi x then hi else x)"

text \<open>\<open>as u32\<close>: towards zero, saturating, zero for what is not a number.\<close>

definition f_to_u32 :: "f32 \<Rightarrow> nat" where
  "f_to_u32 x = (case x of Fin a \<Rightarrow> min (nat a div 2 ^ 149) (2 ^ 32 - 1) | Inf s \<Rightarrow> if s then 0 else 2 ^ 32 - 1 | NaN \<Rightarrow> 0)"

abbreviation f_zero :: f32 where "f_zero \<equiv> Fin 0"
abbreviation f_one :: f32 where "f_one \<equiv> Fin (2 ^ 149)"

section \<open>Facts\<close>

lemma bitlen_0 [simp]: "bitlen 0 = 0"
  by (simp add: bitlen.simps)

lemma bitlen_pos: "0 < n \<Longrightarrow> bitlen n = Suc (bitlen (n div 2))"
  by (simp add: bitlen.simps)

lemma bitlen_numeral [simp]:
  "bitlen (Suc 0) = 1"
  "bitlen (numeral (num.Bit0 n)) = Suc (bitlen (numeral n))"
  "bitlen (numeral (num.Bit1 n)) = Suc (bitlen (numeral n))"
  by (simp_all add: bitlen.simps)

text \<open>Evaluation on numerals.\<close>

lemmas f32_eval = f_round_def round_mag_def ulp_def rne_def Let_def f_of_nat_def f_of_ratio_def
  f_add_def f_sub_def f_mul_def f_div_def f_neg_def f_abs_def

lemma bitlen_bounds: "0 < n \<Longrightarrow> 2 ^ (bitlen n - 1) \<le> n \<and> n < 2 ^ bitlen n"
proof (induction n rule: bitlen.induct)
  case (1 n)
  show ?case
  proof (cases "n div 2 = 0")
    case True
    then have "n = 1" using 1 by (simp add: div_eq_0_iff)
    then show ?thesis by (simp add: bitlen.simps)
  next
    case False
    let ?k = "bitlen (n div 2)"
    have ih: "2 ^ (?k - 1) \<le> n div 2" "n div 2 < 2 ^ ?k" using 1 False by auto
    obtain j where j: "?k = Suc j" using False ih(2) by (cases ?k) auto
    have "2 * (n div 2) \<le> n" "n \<le> 2 * (n div 2) + 1" by simp_all
    then have "2 ^ ?k \<le> n" "n < 2 * 2 ^ ?k" using ih unfolding j by simp_all
    then show ?thesis using 1 by (simp add: bitlen_pos)
  qed
qed

lemma bitlen_le: "n < 2 ^ k \<Longrightarrow> bitlen n \<le> k"
proof (rule ccontr)
  assume n: "n < 2 ^ k" and "\<not> bitlen n \<le> k"
  then have "0 < n" by (cases n) auto
  then have "2 ^ (bitlen n - 1) \<le> n" by (rule bitlen_bounds [THEN conjunct1])
  moreover have "(2::nat) ^ k \<le> 2 ^ (bitlen n - 1)" using \<open>\<not> bitlen n \<le> k\<close> by (intro power_increasing) auto
  ultimately show False using n by linarith
qed

lemma bitlen_mono: "m \<le> n \<Longrightarrow> bitlen m \<le> bitlen n"
  using bitlen_bounds [of n] by (cases "n = 0") (auto intro!: bitlen_le)

lemma ulp_pos [simp]: "0 < ulp q" "ulp q \<noteq> 0"
  by (simp_all add: ulp_def)

lemma ulp_mono: "p \<le> q \<Longrightarrow> ulp p \<le> ulp q"
  by (simp add: ulp_def bitlen_mono diff_le_mono)

lemma ulp_bound: "q < 2 ^ k \<Longrightarrow> 24 \<le> k \<Longrightarrow> ulp q \<le> 2 ^ (k - 24)"
  using bitlen_le [of q k] by (simp add: ulp_def)

lemma rne_bounds:
  assumes "0 < d"
  shows "2 * n \<le> 2 * (d * rne n d) + d" "2 * (d * rne n d) \<le> 2 * n + d"
proof -
  define q r where "q = n div d" and "r = n mod d"
  have n: "n = d * q + r" "r < d" using assms by (simp_all add: q_def r_def)
  have "rne n d = (if 2 * r < d \<or> 2 * r = d \<and> even q then q else Suc q)" by (simp add: rne_def Let_def q_def r_def)
  then show "2 * n \<le> 2 * (d * rne n d) + d" "2 * (d * rne n d) \<le> 2 * n + d"
    using n(2) unfolding n(1) by (auto simp: algebra_simps)
qed

lemma round_mag_0 [simp]: "round_mag 0 d = 0"
  by (cases "d = 0") (simp_all add: round_mag_def rne_def Let_def)

lemma rne_exact [simp]: "0 < d \<Longrightarrow> rne (d * k) d = k"
  by (simp add: rne_def)

lemma rne_mono:
  assumes "m \<le> n" "0 < d"
  shows "rne m d \<le> rne n d"
proof (cases "m div d = n div d")
  case True
  have "m = d * (m div d) + m mod d" "n = d * (n div d) + n mod d" by simp_all
  then have "m mod d \<le> n mod d" using assms(1) unfolding True by linarith
  then show ?thesis using True by (auto simp: rne_def Let_def)
next
  case False
  then have "m div d < n div d" using assms by (simp add: div_le_mono le_neq_implies_less)
  moreover have "rne m d \<le> Suc (m div d)" "n div d \<le> rne n d" by (simp_all add: rne_def Let_def)
  ultimately show ?thesis by linarith
qed

lemma ulp_eq: "2 ^ k = ulp q * 2 ^ (k - (bitlen q - 24))" if "bitlen q - 24 \<le> k"
  using that by (simp add: ulp_def power_add [symmetric])

lemma round_mag_err:
  assumes "0 < d"
  shows "2 * n \<le> 2 * (d * round_mag n d) + d * ulp (n div d)" "2 * (d * round_mag n d) \<le> 2 * n + d * ulp (n div d)"
  using rne_bounds [of "d * ulp (n div d)" n] assms by (simp_all add: round_mag_def Let_def ac_simps)

lemma round_mag_exact:
  assumes "0 < d" "ulp k dvd k"
  shows "round_mag (d * k) d = k"
proof -
  obtain j where j: "k = ulp k * j" using assms(2) by blast
  have "rne (d * k) (d * ulp k) = j"
    using rne_exact [of "d * ulp k" j] assms(1) j by (metis mult.assoc mult_pos_pos ulp_pos(1))
  then show ?thesis using assms(1) j by (simp add: round_mag_def Let_def ac_simps)
qed

lemma round_mag_upper:
  assumes "0 < d" "n \<le> d * 2 ^ k" "bitlen (n div d) \<le> k + 24"
  shows "round_mag n d \<le> 2 ^ k"
proof -
  let ?u = "ulp (n div d)" and ?j = "2 ^ (k - (bitlen (n div d) - 24)) :: nat"
  have k: "2 ^ k = ?u * ?j" using assms(3) by (intro ulp_eq) simp
  have "n \<le> (d * ?u) * ?j" using assms(2) unfolding k by (simp add: ac_simps)
  then have "rne n (d * ?u) \<le> rne ((d * ?u) * ?j) (d * ?u)" using assms(1) by (intro rne_mono) simp_all
  then have "rne n (d * ?u) \<le> ?j" using assms(1) by simp
  then show ?thesis unfolding k by (simp add: round_mag_def Let_def ac_simps)
qed

lemma round_mag_lower:
  assumes "0 < d" "d * 2 ^ k \<le> n" "bitlen (n div d) \<le> k + 24"
  shows "2 ^ k \<le> round_mag n d"
proof -
  let ?u = "ulp (n div d)" and ?j = "2 ^ (k - (bitlen (n div d) - 24)) :: nat"
  have k: "2 ^ k = ?u * ?j" using assms(3) by (intro ulp_eq) simp
  have "(d * ?u) * ?j \<le> n" using assms(2) unfolding k by (simp add: ac_simps)
  then have "rne ((d * ?u) * ?j) (d * ?u) \<le> rne n (d * ?u)" using assms(1) by (intro rne_mono) simp_all
  then have "?j \<le> rne n (d * ?u)" using assms(1) by simp
  then show ?thesis unfolding k by (simp add: round_mag_def Let_def ac_simps)
qed

lemma round_mag_mono:
  assumes d: "0 < d" and le: "m \<le> n"
  shows "round_mag m d \<le> round_mag n d"
proof (cases "ulp (m div d) = ulp (n div d)")
  case True
  then show ?thesis using rne_mono [OF le, of "d * ulp (n div d)"] d by (simp add: round_mag_def Let_def)
next
  case False
  let ?e = "bitlen (m div d)" and ?f = "bitlen (n div d)"
  have ef: "?e < ?f" "24 < ?f" using False bitlen_mono [OF div_le_mono [OF le, of d]]
    by (auto simp: ulp_def le_less)
  have "m div d < 2 ^ ?e" using bitlen_bounds [of "m div d"] by (cases "m div d = 0") auto
  then have "m < d * 2 ^ ?e" using d by (simp add: div_less_iff_less_mult ac_simps)
  then have "round_mag m d \<le> 2 ^ ?e" using d by (intro round_mag_upper) auto
  also have "(2::nat) ^ ?e \<le> 2 ^ (?f - 1)" using ef by (intro power_increasing) auto
  also have "2 ^ (?f - 1) \<le> round_mag n d"
  proof (rule round_mag_lower [OF d])
    have "n div d \<noteq> 0" using ef by (intro notI) simp
    then have "2 ^ (?f - 1) \<le> n div d" using bitlen_bounds [of "n div d"] by simp
    then have "d * 2 ^ (?f - 1) \<le> d * (n div d)" by simp
    then show "d * 2 ^ (?f - 1) \<le> n" using times_div_less_eq_dividend [of d n] by linarith
  qed auto
  finally show ?thesis .
qed

text \<open>Numbers of magnitude at most one round to such numbers; overflow is far away.\<close>

lemma bitlen_pow [simp]: "bitlen (2 ^ k) = Suc k"
  by (induction k) (simp_all add: bitlen.simps)

lemma round_mag_pow [simp]: "0 < d \<Longrightarrow> round_mag (d * 2 ^ k) d = 2 ^ k"
  by (rule round_mag_exact) (simp_all add: ulp_def le_imp_power_dvd)

lemma round_mag_le_pow: "0 < d \<Longrightarrow> n \<le> d * 2 ^ k \<Longrightarrow> round_mag n d \<le> 2 ^ k"
  using round_mag_mono [of d n "d * 2 ^ k"] by simp

lemma round_mag_ge_pow: "0 < d \<Longrightarrow> d * 2 ^ k \<le> n \<Longrightarrow> 2 ^ k \<le> round_mag n d"
  using round_mag_mono [of d "d * 2 ^ k" n] by simp

lemma f_round_small:
  assumes "0 < d" "nat \<bar>n\<bar> \<le> d * 2 ^ k" "k < 277"
  shows "f_round n d = Fin (sgn n * int (round_mag (nat \<bar>n\<bar>) d))"
proof -
  have "round_mag (nat \<bar>n\<bar>) d \<le> 2 ^ k" by (rule round_mag_le_pow [OF assms(1,2)])
  also have "(2::nat) ^ k < 2 ^ 277" using assms(3) by (rule power_strict_increasing) simp
  finally show ?thesis by (simp add: f_round_def)
qed

text \<open>The error of a finite rounding, with the spacing \<open>2 ^ (k - 24)\<close> below \<open>2 ^ k\<close>.\<close>

lemma round_mag_near:
  assumes "0 < d" "n < d * 2 ^ k" "24 \<le> k"
  shows "2 * n \<le> 2 * (d * round_mag n d) + d * 2 ^ (k - 24)" "2 * (d * round_mag n d) \<le> 2 * n + d * 2 ^ (k - 24)"
proof -
  have "n div d < 2 ^ k" using assms(1,2) by (simp add: div_less_iff_less_mult ac_simps)
  then have "d * ulp (n div d) \<le> d * 2 ^ (k - 24)" using ulp_bound assms(3) by simp
  then show "2 * n \<le> 2 * (d * round_mag n d) + d * 2 ^ (k - 24)" "2 * (d * round_mag n d) \<le> 2 * n + d * 2 ^ (k - 24)"
    using round_mag_err [OF assms(1), of n] by linarith+
qed

text \<open>Whole numbers below \<open>2 ^ 24\<close> are exact.\<close>

lemma bitlen_shift: "0 < n \<Longrightarrow> bitlen (n * 2 ^ k) = bitlen n + k"
proof (induction k)
  case (Suc k)
  have "n * 2 ^ Suc k div 2 = n * 2 ^ k" by simp
  then show ?case using bitlen_pos [of "n * 2 ^ Suc k"] Suc by simp
qed simp

lemma f_of_nat_exact:
  assumes "n < 2 ^ 24"
  shows "f_of_nat n = Fin (int n * 2 ^ 149)"
proof (cases "n = 0")
  case True
  then show ?thesis by (simp add: f_of_nat_def f_round_def round_mag_def rne_def Let_def)
next
  case False
  have "bitlen n \<le> 24" using assms by (rule bitlen_le)
  then have "bitlen n + 149 - 24 \<le> 149" by simp
  then have "2 ^ (bitlen n + 149 - 24) dvd n * 2 ^ 149" by (intro dvd_mult le_imp_power_dvd)
  then have "ulp (n * 2 ^ 149) dvd n * 2 ^ 149" using False bitlen_shift [of n 149] unfolding ulp_def by simp
  then have "round_mag (1 * (n * 2 ^ 149)) 1 = n * 2 ^ 149" by (intro round_mag_exact) simp_all
  moreover have "n * 2 ^ 149 < 2 ^ 24 * 2 ^ 149" using assms by (intro mult_strict_right_mono) simp_all
  then have "n * 2 ^ 149 < 2 ^ 277" by (rule less_trans) (simp only: power_add [symmetric], rule power_strict_increasing, simp_all)
  moreover have "nat \<bar>int n * 2 ^ 149\<bar> = n * 2 ^ 149" by (simp add: nat_mult_distrib nat_power_eq abs_mult)
  ultimately show ?thesis using False by (simp add: f_of_nat_def f_round_def)
qed

end
