(* ===== verification/Ternary.thy ===== *)
theory Ternary
  imports F32
begin

text \<open>
  Ternary weight compression (\<open>kernel/src/ternary.rs\<close>): packing of base-3 digits into bytes and the
  fixed-point encoding of a weight.  The functions of the external crate \<open>libm\<close> are the record
  \<open>libm\<close>, a parameter; what the kernel relies on is \<open>roundf_ok\<close> (rounding to the nearest whole
  number, halves away from zero) and \<open>expf_ok\<close> (an exponential of a number that is not positive
  lies between 0 and 1).
\<close>

record libm =
  roundf :: "f32 \<Rightarrow> f32"
  expf :: "f32 \<Rightarrow> f32"

definition round_half_away :: "int \<Rightarrow> int" where
  "round_half_away k = sgn k * ((\<bar>k\<bar> + 2 ^ 148) div 2 ^ 149) * 2 ^ 149"

definition roundf_ok :: "libm \<Rightarrow> bool" where
  "roundf_ok lm \<longleftrightarrow> (\<forall>k. roundf lm (Fin k) = Fin (round_half_away k))"

definition expf_ok :: "libm \<Rightarrow> bool" where
  "expf_ok lm \<longleftrightarrow> (\<forall>k \<le> 0. \<exists>j. expf lm (Fin k) = Fin j \<and> 0 \<le> j \<and> j \<le> 2 ^ 149)"

section \<open>Digits and bytes\<close>

definition TRITS_PER_WEIGHT :: nat where [simp]: "TRITS_PER_WEIGHT = 10"
definition PACKED_BYTES_PER_WEIGHT :: nat where [simp]: "PACKED_BYTES_PER_WEIGHT = (TRITS_PER_WEIGHT + 4) div 5"
definition WEIGHT_MAX_DIGIT :: nat where [simp]: "WEIGHT_MAX_DIGIT = 59048"

definition pad5 :: "int list \<Rightarrow> int list" where
  "pad5 ds = ds @ replicate ((5 - length ds mod 5) mod 5) 1"

fun pack_digits :: "int list \<Rightarrow> bytes" where
  "pack_digits (a # b # c # d # e # ds) = of_int (a * 1 + b * 3 + c * 9 + d * 27 + e * 81) # pack_digits ds"
| "pack_digits _ = []"

definition pack_ternary :: "int list \<Rightarrow> bytes" where
  "pack_ternary trits = pack_digits (pad5 (map (\<lambda>t. t + 1) trits))"

definition byte_trits :: "u8 \<Rightarrow> int list" where
  "byte_trits b = map (\<lambda>i. (uint b div 3 ^ i) mod 3 - 1) [0..<5]"

definition unpack_ternary :: "bytes \<Rightarrow> nat \<Rightarrow> int list" where
  "unpack_ternary packed n = take n (concat (map byte_trits packed))"

section \<open>Weights\<close>

fun weight_trits :: "nat \<Rightarrow> nat \<Rightarrow> int list" where
  "weight_trits 0 v = []"
| "weight_trits (Suc n) v = (int (v mod 3) - 1) # weight_trits n (v div 3)"

definition encode_weight :: "libm \<Rightarrow> f32 \<Rightarrow> bytes" where
  "encode_weight lm w =
     (let clamped = f_clamp w f_zero f_one;
          scaled = f_to_u32 (roundf lm (f_mul clamped (f_of_nat WEIGHT_MAX_DIGIT)))
      in pack_ternary (weight_trits TRITS_PER_WEIGHT scaled))"

fun trits_value :: "int list \<Rightarrow> nat" where
  "trits_value [] = 0"
| "trits_value (t # ts) = nat (t + 1) + 3 * trits_value ts"

definition decode_weight :: "bytes \<Rightarrow> f32" where
  "decode_weight bs = f_div (f_of_nat (trits_value (unpack_ternary bs TRITS_PER_WEIGHT))) (f_of_nat WEIGHT_MAX_DIGIT)"

section \<open>Packing round trip\<close>

definition trit_list :: "int list \<Rightarrow> bool" where
  "trit_list ts \<longleftrightarrow> set ts \<subseteq> {- 1, 0, 1}"

lemma trit_list_simps [simp]: "trit_list []" "trit_list (t # ts) \<longleftrightarrow> t \<in> {- 1, 0, 1} \<and> trit_list ts"
  by (auto simp: trit_list_def)

lemma uint_small: "0 \<le> v \<Longrightarrow> v < 256 \<Longrightarrow> uint (of_int v :: u8) = v"
  by (simp add: uint_word_of_int_eq take_bit_int_eq_self)

lemma digit5:
  fixes a b c d e :: int
  assumes "a \<in> {0, 1, 2}" "b \<in> {0, 1, 2}" "c \<in> {0, 1, 2}" "d \<in> {0, 1, 2}" "e \<in> {0, 1, 2}"
  shows "byte_trits (of_int (a * 1 + b * 3 + c * 9 + d * 27 + e * 81)) = [a - 1, b - 1, c - 1, d - 1, e - 1]"
proof -
  let ?v = "a + 3 * (b + 3 * (c + 3 * (d + 3 * e)))"
  have r: "0 \<le> ?v" "?v < 256" using assms by auto
  have dm: "(x + 3 * y) mod 3 = x" "(x + 3 * y) div 3 = y" if "x \<in> {0, 1, 2}" for x y :: int using that by auto
  have v: "a * 1 + b * 3 + c * 9 + d * 27 + e * 81 = ?v" by simp
  have u: "uint (of_int (a * 1 + b * 3 + c * 9 + d * 27 + e * 81) :: u8) = ?v"
    unfolding v by (rule uint_small [OF r])
  have upt: "[0..<5] = [0, 1, 2, 3, 4 :: nat]" by (simp add: upt_rec)
  have p: "x div 3 ^ 0 = x" "x div 3 ^ 1 = x div 3" "x div 3 ^ 2 = x div 3 div 3" "x div 3 ^ 3 = x div 3 div 3 div 3"
    "x div 3 ^ 4 = x div 3 div 3 div 3 div 3" for x :: int
    by (simp_all flip: zdiv_zmult2_eq)
  have e3: "e mod 3 = e" using assms(5) by auto
  show ?thesis
    unfolding byte_trits_def u upt
    by (simp only: list.map p dm [OF assms(1)] dm [OF assms(2)] dm [OF assms(3)] dm [OF assms(4)] e3)
qed

lemma pack_digits_roundtrip:
  "length ts mod 5 = 0 \<Longrightarrow> trit_list ts \<Longrightarrow> concat (map byte_trits (pack_digits (map (\<lambda>t. t + 1) ts))) = ts"
proof (induction "map (\<lambda>t. t + 1) ts" arbitrary: ts rule: pack_digits.induct)
  case (1 a b c d e ds)
  obtain a' b' c' d' e' ts' where ts: "ts = a' # b' # c' # d' # e' # ts'"
    "a = a' + 1" "b = b' + 1" "c = c' + 1" "d = d' + 1" "e = e' + 1" "ds = map (\<lambda>t. t + 1) ts'"
    using 1(2) by (auto simp: Cons_eq_map_conv)
  have "length ts' mod 5 = 0" using 1(3) by (simp add: ts(1))
  then have "concat (map byte_trits (pack_digits ds)) = ts'" using 1(1) [OF ts(7)] 1(4) ts(1,7) by simp
  moreover have "byte_trits (of_int (a * 1 + b * 3 + c * 9 + d * 27 + e * 81)) = [a - 1, b - 1, c - 1, d - 1, e - 1]"
    using 1(4) by (intro digit5) (auto simp: ts)
  ultimately show ?case using ts by (simp del: of_int_add of_int_mult)
next
  case "2_1"
  then show ?case by simp
qed (auto simp: Cons_eq_map_conv simp del: trit_list_simps dest: dvd_imp_le)

lemma pad5_shift: "pad5 (map (\<lambda>t. t + 1) ts) = map (\<lambda>t. t + 1) (ts @ replicate ((5 - length ts mod 5) mod 5) 0)"
  by (simp add: pad5_def)

lemma trit_list_append: "trit_list (xs @ ys) \<longleftrightarrow> trit_list xs \<and> trit_list ys"
  by (auto simp: trit_list_def)

lemma pad_mod: "(n + (5 - n mod 5) mod 5) mod 5 = (0 :: nat)"
proof -
  have "m < 5 \<Longrightarrow> (m + (5 - m) mod 5) mod 5 = 0" for m :: nat by (cases "m = 0") auto
  then have "(n mod 5 + (5 - n mod 5) mod 5) mod 5 = 0" by simp
  then show ?thesis by (subst mod_add_left_eq [symmetric])
qed

lemma unpack_pack: "trit_list ts \<Longrightarrow> unpack_ternary (pack_ternary ts) (length ts) = ts"
proof -
  assume ts: "trit_list ts"
  let ?p = "replicate ((5 - length ts mod 5) mod 5) 0 :: int list"
  have "(length ts + (5 - length ts mod 5) mod 5) mod 5 = 0" by (rule pad_mod)
  moreover have "trit_list (ts @ ?p)" using ts by (auto simp: trit_list_append) (auto simp: trit_list_def)
  ultimately have "concat (map byte_trits (pack_ternary ts)) = ts @ ?p"
    unfolding pack_ternary_def pad5_shift by (intro pack_digits_roundtrip) simp_all
  then show ?thesis by (simp add: unpack_ternary_def)
qed

lemma weight_trits: "trit_list (weight_trits n v)" "length (weight_trits n v) = n"
  by (induction n arbitrary: v) auto

lemma trits_value_weight_trits: "trits_value (weight_trits n v) = v mod 3 ^ n"
proof (induction n arbitrary: v)
  case (Suc n)
  have "v mod (3 * 3 ^ n) = 3 * (v div 3 mod 3 ^ n) + v mod 3" by (rule mod_mult2_eq)
  with Suc show ?case by simp
qed simp

lemma trits_value_less: "trit_list ts \<Longrightarrow> trits_value ts < 3 ^ length ts"
  by (induction ts) auto

lemma unpack_trits: "trit_list (unpack_ternary bs n)" "length (unpack_ternary bs n) \<le> n"
proof -
  have "x mod 3 - 1 \<in> {- 1, 0, 1}" for x :: int by auto
  then have "set (concat (map byte_trits bs)) \<subseteq> {- 1, 0, 1}" by (auto simp: byte_trits_def)
  then show "trit_list (unpack_ternary bs n)" using set_take_subset unfolding unpack_ternary_def trit_list_def by fast
qed (simp add: unpack_ternary_def)

lemma unpack_weight: "trits_value (unpack_ternary (pack_ternary (weight_trits 10 v)) 10) = v mod 59049"
  using unpack_pack [OF weight_trits(1), of 10 v] by (simp add: weight_trits trits_value_weight_trits)

lemma length_pack_digits: "length (pack_digits ds) = length ds div 5"
  by (induction ds rule: pack_digits.induct) simp_all

lemma length_encode_weight [simp]: "length (encode_weight lm w) = 2"
  by (simp add: encode_weight_def Let_def pack_ternary_def length_pack_digits pad5_def weight_trits)

section \<open>The precision of a stored weight\<close>

lemma pows: "(2 :: int) ^ 149 = 16777216 * 2 ^ 125" "(2 :: int) ^ 148 = 8388608 * 2 ^ 125"
  "(2 :: int) ^ 141 = 65536 * 2 ^ 125" "(2 :: int) ^ 140 = 32768 * 2 ^ 125" "(0 :: int) < 2 ^ 125"
  by simp_all

text \<open>A rounding of a non-negative quotient below \<open>2 ^ k\<close>, over the integers.\<close>

lemma f_round_near:
  assumes "0 \<le> n" "0 < d" "n < int d * 2 ^ k" "24 \<le> k" "k < 277"
  shows "\<exists>r. f_round n d = Fin r \<and> 0 \<le> r \<and> r \<le> 2 ^ k
    \<and> 2 * n \<le> 2 * (int d * r) + int d * 2 ^ (k - 24) \<and> 2 * (int d * r) \<le> 2 * n + int d * 2 ^ (k - 24)"
proof -
  obtain m where m: "n = int m" using assms(1) nonneg_int_cases by blast
  have lt: "m < d * 2 ^ k" using assms(3) unfolding m by (metis of_nat_less_iff of_nat_mult of_nat_numeral of_nat_power)
  let ?r = "round_mag m d"
  have "f_round n d = Fin (int ?r)"
    using f_round_small [of d n k] assms(2,5) lt by (cases "m = 0") (auto simp: m)
  moreover have "?r \<le> 2 ^ k" using lt assms(2) by (intro round_mag_le_pow) auto
  then have "int ?r \<le> 2 ^ k" by (metis of_nat_le_iff of_nat_numeral of_nat_power)
  moreover have "2 * n \<le> 2 * (int d * int ?r) + int d * 2 ^ (k - 24)" "2 * (int d * int ?r) \<le> 2 * n + int d * 2 ^ (k - 24)"
    using round_mag_near [OF assms(2) lt assms(4), THEN of_nat_mono [where ?'a = int]] by (simp_all add: m)
  ultimately show ?thesis by (intro exI [of _ "int ?r"]) simp
qed

definition scaled_weight :: "libm \<Rightarrow> f32 \<Rightarrow> nat" where
  "scaled_weight lm w = f_to_u32 (roundf lm (f_mul (f_clamp w f_zero f_one) (f_of_nat WEIGHT_MAX_DIGIT)))"

lemma encode_scaled: "encode_weight lm w = pack_ternary (weight_trits 10 (scaled_weight lm w))"
  by (simp add: encode_weight_def scaled_weight_def Let_def)

lemma max_digit: "f_of_nat WEIGHT_MAX_DIGIT = Fin (59048 * 2 ^ 149)"
  using f_of_nat_exact [of 59048] by simp

lemma scaled_weight_near:
  assumes lm: "roundf_ok lm" and c: "0 \<le> c" "c \<le> 2 ^ 149"
  shows "scaled_weight lm (Fin c) \<le> 59048"
    "\<bar>int (scaled_weight lm (Fin c)) * 2 ^ 149 - 59048 * c\<bar> \<le> 2 ^ 148 + 2 ^ 140"
proof -
  let ?X = "2 ^ 149 :: int"
  have clamp: "f_clamp (Fin c) f_zero f_one = Fin c" using c by (simp add: f_clamp_def)
  have "c * (59048 * ?X) < int (2 ^ 149) * 2 ^ 165" using c by simp
  then obtain q where q: "f_round (c * (59048 * ?X)) (2 ^ 149) = Fin q" "0 \<le> q"
    "2 * (c * (59048 * ?X)) \<le> 2 * (int (2 ^ 149) * q) + int (2 ^ 149) * 2 ^ (165 - 24)"
    "2 * (int (2 ^ 149) * q) \<le> 2 * (c * (59048 * ?X)) + int (2 ^ 149) * 2 ^ (165 - 24)"
    using f_round_near [of "c * (59048 * ?X)" "2 ^ 149" 165] c by auto
  have near: "2 * (59048 * c) \<le> 2 * q + 2 ^ 141" "2 * q \<le> 2 * (59048 * c) + 2 ^ 141" using q(3,4) by simp_all
  let ?s = "(q + 2 ^ 148) div ?X"
  have "0 \<le> (q + 2 ^ 148) mod ?X" "(q + 2 ^ 148) mod ?X < ?X" by simp_all
  then have s: "?s * ?X \<le> q + 2 ^ 148" "q + 2 ^ 148 < ?s * ?X + ?X"
    using div_mult_mod_eq [of "q + 2 ^ 148" ?X] by linarith+
  have s0: "0 \<le> ?s" using q(2) by (simp add: pos_imp_zdiv_nonneg_iff)
  have "?s * ?X < 59049 * ?X" using s(1) near(2) c(2) pows by linarith
  then have "?s < 59049" by (simp only: mult_less_cancel_right) simp
  then have le: "?s \<le> 59048" by simp
  have "round_half_away q = ?s * ?X" using q(2) s0 by (cases "q = 0") (simp_all add: round_half_away_def)
  then have "f_to_u32 (roundf lm (Fin q)) = nat ?s"
    using lm s0 le by (simp add: roundf_ok_def f_to_u32_def nat_mult_distrib)
  then have sc: "scaled_weight lm (Fin c) = nat ?s" by (simp only: scaled_weight_def clamp max_digit f_mul_def prod.case f32.case q(1))
  show "scaled_weight lm (Fin c) \<le> 59048" using le by (simp add: sc)
  have "\<bar>?s * ?X - 59048 * c\<bar> \<le> 2 ^ 148 + 2 ^ 140" using s(1,2) near pows by linarith
  then show "\<bar>int (scaled_weight lm (Fin c)) * 2 ^ 149 - 59048 * c\<bar> \<le> 2 ^ 148 + 2 ^ 140"
    using s0 by (simp add: sc)
qed

lemma decode_near:
  assumes "s \<le> 59048"
  shows "\<exists>d. decode_weight (pack_ternary (weight_trits 10 s)) = Fin d \<and> 0 \<le> d \<and> d \<le> 2 ^ 149
    \<and> \<bar>59048 * d - int s * 2 ^ 149\<bar> \<le> 59048 * 2 ^ 125"
proof -
  let ?X = "2 ^ 149 :: int" and ?D = "59048 * 2 ^ 149 :: nat"
  have n: "int s * ?X * ?X < int ?D * 2 ^ 150" using assms by simp
  obtain d where d: "f_round (int s * ?X * ?X) ?D = Fin d" "0 \<le> d"
    "2 * (int s * ?X * ?X) \<le> 2 * (int ?D * d) + int ?D * 2 ^ (150 - 24)"
    "2 * (int ?D * d) \<le> 2 * (int s * ?X * ?X) + int ?D * 2 ^ (150 - 24)"
    using f_round_near [OF _ _ n] by auto
  have "round_mag (nat (int s * ?X * ?X)) ?D \<le> 2 ^ 149"
    by (rule round_mag_le_pow) (use assms in \<open>simp_all add: nat_mult_distrib\<close>)
  moreover have "nat d = round_mag (nat (int s * ?X * ?X)) ?D"
    using d(1,2) by (auto simp: f_round_def Let_def abs_mult split: if_splits) (auto simp: sgn_if split: if_splits)
  ultimately have le: "d \<le> 2 ^ 149" using d(2) by (simp add: nat_le_iff)
  have "trits_value (unpack_ternary (pack_ternary (weight_trits 10 s)) TRITS_PER_WEIGHT) = s"
    using assms by (simp add: unpack_weight)
  moreover have "f_of_nat s = Fin (int s * ?X)" using assms by (intro f_of_nat_exact) simp
  ultimately have "decode_weight (pack_ternary (weight_trits 10 s)) = f_round (int s * ?X * ?X) ?D"
    by (simp add: decode_weight_def max_digit [simplified] f_div_def)
  then show ?thesis using d le by simp
qed

lemma near_multiple: "0 < X \<Longrightarrow> \<bar>a * X - b * X\<bar> < X \<Longrightarrow> a = b" for X a b :: int
proof -
  assume X: "0 < X" and "\<bar>a * X - b * X\<bar> < X"
  then have "\<bar>a - b\<bar> * X < 1 * X" by (simp add: abs_mult flip: left_diff_distrib)
  then have "\<bar>a - b\<bar> < 1" using X by (simp only: mult_less_cancel_right)
  then show "a = b" by simp
qed

lemma clamp_range: "x \<noteq> NaN \<Longrightarrow> \<exists>c. f_clamp x f_zero f_one = Fin c \<and> 0 \<le> c \<and> c \<le> 2 ^ 149"
  by (cases x) (auto simp: f_clamp_def)

lemma scaled_weight_clamp: "f_clamp x f_zero f_one = Fin c \<Longrightarrow> 0 \<le> c \<Longrightarrow> c \<le> 2 ^ 149 \<Longrightarrow> scaled_weight lm x = scaled_weight lm (Fin c)"
  by (simp add: scaled_weight_def f_clamp_def)

text \<open>Rounding by the definition, and an exponential that has underflowed.\<close>

definition demo_libm :: libm where
  "demo_libm = \<lparr>roundf = \<lambda>x. case x of Fin k \<Rightarrow> Fin (round_half_away k) | y \<Rightarrow> y, expf = \<lambda>_. f_zero\<rparr>"

lemma demo_libm_ok: "roundf_ok demo_libm" "expf_ok demo_libm"
  by (auto simp: roundf_ok_def expf_ok_def demo_libm_def)

text \<open>
  Trits survive packing: unpacking as many trits as were packed returns them, whatever their
  number, and a weight takes two bytes.
\<close>

theorem ternary_pack_roundtrip:
  assumes "set ts \<subseteq> {- 1, 0, 1}"
  shows "unpack_ternary (pack_ternary ts) (length ts) = ts \<and> length (encode_weight lm w) = PACKED_BYTES_PER_WEIGHT"
  using unpack_pack [of ts] assms by (simp add: trit_list_def)

theorem ternary_pack_roundtrip_witness: "unpack_ternary (pack_ternary [1, - 1, 0, 0, 1, 1]) 6 = [1, - 1, 0, 0, 1, 1]"
proof -
  let ?ts = "[1, - 1, 0, 0, 1, 1] :: int list"
  have "set ?ts \<subseteq> {- 1, 0, 1}" "length ?ts = 6" by auto
  then show ?thesis using ternary_pack_roundtrip [of ?ts demo_libm] by metis
qed

text \<open>
  A stored weight is precise: a weight between 0 and 1 comes back, again between 0 and 1,
  within 0.51 of the spacing 1/59048 of the stored levels.
\<close>

theorem weight_precision:
  assumes "roundf_ok lm" "0 \<le> c" "c \<le> 2 ^ 149"
  shows "\<exists>d. decode_weight (encode_weight lm (Fin c)) = Fin d \<and> 0 \<le> d \<and> d \<le> 2 ^ 149
    \<and> 100 * (59048 * \<bar>d - c\<bar>) \<le> 51 * 2 ^ 149"
proof -
  note s = scaled_weight_near [OF assms]
  obtain d where d: "decode_weight (encode_weight lm (Fin c)) = Fin d" "0 \<le> d" "d \<le> 2 ^ 149"
    "\<bar>59048 * d - int (scaled_weight lm (Fin c)) * 2 ^ 149\<bar> \<le> 59048 * 2 ^ 125"
    using decode_near [OF s(1)] by (auto simp: encode_scaled)
  have "\<bar>59048 * d - 59048 * c\<bar> \<le> 59048 * 2 ^ 125 + 2 ^ 148 + 2 ^ 140" using s(2) d(4) pows by linarith
  moreover have "\<bar>59048 * d - 59048 * c\<bar> = 59048 * \<bar>d - c\<bar>" using abs_mult [of 59048 "d - c"] by simp
  ultimately show ?thesis using d using pows by (intro exI [of _ d]) linarith
qed

theorem weight_precision_witness:
  "\<exists>d. decode_weight (encode_weight demo_libm (Fin (2 ^ 148))) = Fin d \<and> 100 * (59048 * \<bar>d - 2 ^ 148\<bar>) \<le> 51 * 2 ^ 149"
  using weight_precision [OF demo_libm_ok(1), of "2 ^ 148"] by auto

text \<open>
  Saving does not drift: a weight that has been stored and loaded is stored again as the very
  same bytes, however it was clamped and rounded the first time.
\<close>

theorem weight_stable:
  assumes lm: "roundf_ok lm" and x: "x \<noteq> NaN"
  shows "encode_weight lm (decode_weight (encode_weight lm x)) = encode_weight lm x"
proof -
  obtain c where c: "f_clamp x f_zero f_one = Fin c" "0 \<le> c" "c \<le> 2 ^ 149" using clamp_range [OF x] by blast
  let ?s = "scaled_weight lm (Fin c)"
  have e: "encode_weight lm x = pack_ternary (weight_trits 10 ?s)" by (simp add: encode_scaled scaled_weight_clamp [OF c])
  obtain d where d: "decode_weight (encode_weight lm x) = Fin d" "0 \<le> d" "d \<le> 2 ^ 149"
    "\<bar>59048 * d - int ?s * 2 ^ 149\<bar> \<le> 59048 * 2 ^ 125"
    using decode_near [OF scaled_weight_near(1) [OF lm c(2,3)]] by (auto simp: e)
  have "\<bar>int (scaled_weight lm (Fin d)) * 2 ^ 149 - int ?s * 2 ^ 149\<bar> < 2 ^ 149"
    using scaled_weight_near(2) [OF lm d(2,3)] d(4) pows by linarith
  then have "int (scaled_weight lm (Fin d)) = int ?s" using near_multiple zero_less_power zero_less_numeral by metis
  then have "encode_weight lm (Fin d) = pack_ternary (weight_trits 10 ?s)" by (simp add: encode_scaled)
  then show ?thesis by (simp only: d(1)) (simp only: e)
qed

theorem weight_stable_witness:
  "encode_weight demo_libm (decode_weight (encode_weight demo_libm (Inf False))) = encode_weight demo_libm (Inf False)"
  by (rule weight_stable [OF demo_libm_ok(1)]) simp

end
