(* ===== verification/Weights.thy ===== *)
theory Weights
  imports Ternary Fs_Props
begin

text \<open>
  Weight persistence (\<open>kernel/src/ata.rs\<close>, second half): the name-keyed, ternary-packed list of
  synapse weights in sector 0 of the persistence drive.
\<close>

definition WEIGHT_MAGIC :: nat where [simp]: "WEIGHT_MAGIC = 0x53504B32"
definition PERSIST_LBA :: nat where [simp]: "PERSIST_LBA = 0"
definition FORMAT_VERSION :: u8 where [simp]: "FORMAT_VERSION = 1"
definition WEIGHT_NAME_LEN :: nat where [simp]: "WEIGHT_NAME_LEN = 16"
definition WEIGHT_ENTRY_LEN :: nat where [simp]: "WEIGHT_ENTRY_LEN = WEIGHT_NAME_LEN * 2 + PACKED_BYTES_PER_WEIGHT"
definition HEADER_LEN :: nat where [simp]: "HEADER_LEN = 8"
definition MAX_SYNAPSES :: nat where [simp]: "MAX_SYNAPSES = (512 - HEADER_LEN) div WEIGHT_ENTRY_LEN"

datatype weights_error = NoSynapses | DriveFailed ata_error

type_synonym weight_entry = "bytes \<times> bytes \<times> f32"

definition write_name :: "bytes \<Rightarrow> nat \<Rightarrow> bytes \<Rightarrow> bytes" where
  "write_name buf off nm = splice buf off (take (min (length nm) WEIGHT_NAME_LEN) nm)"

definition read_name :: "bytes \<Rightarrow> nat \<Rightarrow> bytes" where
  "read_name buf off =
     (let sl = slice buf off (off + WEIGHT_NAME_LEN);
          e = (case position (\<lambda>b. b = 0) sl of None \<Rightarrow> WEIGHT_NAME_LEN | Some i \<Rightarrow> i);
          s = take e sl
      in if utf8_valid s then s else [])"

fun put_entries :: "libm \<Rightarrow> weight_entry list \<Rightarrow> nat \<Rightarrow> bytes \<Rightarrow> bytes" where
  "put_entries lm [] off buf = buf"
| "put_entries lm ((f, t, w) # es) off buf =
     (let buf = write_name buf off f;
          buf = write_name buf (off + WEIGHT_NAME_LEN) t;
          buf = splice buf (off + WEIGHT_NAME_LEN * 2) (encode_weight lm w)
      in put_entries lm es (off + WEIGHT_ENTRY_LEN) buf)"

definition weights_header :: "nat \<Rightarrow> bytes" where
  "weights_header count =
     (splice (replicate 512 0) 0 (le_bytes 4 WEIGHT_MAGIC))
       [4 := FORMAT_VERSION, 5 := of_nat count, 6 := of_nat TRITS_PER_WEIGHT]"

definition save_weights :: "libm \<Rightarrow> disk \<Rightarrow> weight_entry list \<Rightarrow> (weights_error + unit) \<times> disk" where
  "save_weights lm d es =
     (if es = [] then (Inl NoSynapses, d)
      else let count = min (length es) MAX_SYNAPSES;
               buf = put_entries lm (take count es) HEADER_LEN (weights_header count)
           in (case write_sector d PERSIST_LBA buf of
                 (Inl e, d) \<Rightarrow> (Inl (DriveFailed e), d)
               | (Inr _, d) \<Rightarrow> (Inr (), d)))"

fun get_entries :: "nat \<Rightarrow> nat \<Rightarrow> bytes \<Rightarrow> weight_entry list" where
  "get_entries 0 off buf = []"
| "get_entries (Suc n) off buf =
     (read_name buf off, read_name buf (off + WEIGHT_NAME_LEN),
      decode_weight (slice buf (off + WEIGHT_NAME_LEN * 2) (off + WEIGHT_NAME_LEN * 2 + PACKED_BYTES_PER_WEIGHT)))
     # get_entries n (off + WEIGHT_ENTRY_LEN) buf"

definition load_weights :: "disk \<Rightarrow> weight_entry list option" where
  "load_weights d =
     (case read_sector d PERSIST_LBA of
        Inl _ \<Rightarrow> None
      | Inr buf \<Rightarrow>
          if le_val (slice buf 0 4) \<noteq> WEIGHT_MAGIC then None
          else Some (get_entries (min (unat (buf ! 5)) MAX_SYNAPSES) HEADER_LEN buf))"

section \<open>The sector image\<close>

definition pad_name :: "bytes \<Rightarrow> bytes" where
  "pad_name nm = take 16 nm @ replicate (16 - length nm) 0"

definition stored_name :: "bytes \<Rightarrow> bytes" where
  "stored_name nm = (let s = takeWhile (\<lambda>b. b \<noteq> 0) (take 16 nm) in if utf8_valid s then s else [])"

definition enc_weight :: "libm \<Rightarrow> weight_entry \<Rightarrow> bytes" where
  "enc_weight lm e = (case e of (f, t, w) \<Rightarrow> pad_name f @ pad_name t @ encode_weight lm w)"

lemma stored_name_same: "length nm \<le> 16 \<Longrightarrow> 0 \<notin> set nm \<Longrightarrow> utf8_valid nm \<Longrightarrow> stored_name nm = nm"
proof -
  assume nm: "length nm \<le> 16" "0 \<notin> set nm" "utf8_valid nm"
  have tw: "takeWhile (\<lambda>b. b \<noteq> 0) nm = nm" by (rule takeWhile_eq_all_conv [THEN iffD2]) (use nm(2) in auto)
  show ?thesis unfolding stored_name_def take_all [OF nm(1)] tw Let_def using nm(3) by simp
qed

lemma length_pad_name [simp]: "length (pad_name nm) = 16"
  by (simp add: pad_name_def)

lemma length_enc_weight [simp]: "length (enc_weight lm e) = 34"
  by (cases e) (simp add: enc_weight_def)

lemma write_name_blank:
  "16 \<le> k \<Longrightarrow> write_name (pre @ replicate k 0) (length pre) nm = (pre @ pad_name nm) @ replicate (k - 16) 0"
  by (auto simp: write_name_def splice_def pad_name_def min_def replicate_add [symmetric] simp del: replicate_add)

lemma put_entries_blank:
  "34 * length es \<le> k \<Longrightarrow> put_entries lm es (length pre) (pre @ replicate k 0)
     = pre @ concat (map (enc_weight lm) es) @ replicate (k - 34 * length es) 0"
proof (induction es arbitrary: pre k)
  case (Cons e es)
  obtain f t w where e: "e = (f, t, w)" by (cases e)
  have k: "34 \<le> k" "34 * length es \<le> k - 34" using Cons.prems by simp_all
  let ?pre = "pre @ enc_weight lm e"
  have 1: "write_name (pre @ replicate k 0) (length pre) f = (pre @ pad_name f) @ replicate (k - 16) 0"
    using k by (intro write_name_blank) simp
  have 2: "write_name ((pre @ pad_name f) @ replicate (k - 16) 0) (length pre + 16) t
      = ((pre @ pad_name f) @ pad_name t) @ replicate (k - 16 - 16) 0"
    using write_name_blank [of "k - 16" "pre @ pad_name f" t] k by simp
  have 3: "splice (((pre @ pad_name f) @ pad_name t) @ replicate (k - 16 - 16) 0) (length pre + 32) (encode_weight lm w)
      = ?pre @ replicate (k - 34) 0"
    using k by (simp add: splice_def e enc_weight_def)
  have "put_entries lm (e # es) (length pre) (pre @ replicate k 0)
      = put_entries lm es (length ?pre) (?pre @ replicate (k - 34) 0)"
    unfolding e using 1 2 3 by (simp add: Let_def e)
  also have "\<dots> = ?pre @ concat (map (enc_weight lm) es) @ replicate (k - 34 - 34 * length es) 0"
    by (rule Cons.IH [OF k(2)])
  finally show ?case by simp
qed simp

lemma takeWhile_position:
  "takeWhile (\<lambda>x. \<not> p x) xs = take (case position p xs of None \<Rightarrow> length xs | Some i \<Rightarrow> i) xs"
  by (induction xs) (auto split: option.splits)

lemma read_name_padded: "read_name (pre @ pad_name nm @ rest) (length pre) = stored_name nm"
proof -
  have "take (case position (\<lambda>b. b = 0) (pad_name nm) of None \<Rightarrow> WEIGHT_NAME_LEN | Some i \<Rightarrow> i) (pad_name nm)
      = takeWhile (\<lambda>b. b \<noteq> 0) (pad_name nm)"
    using takeWhile_position [of "\<lambda>b. b = 0" "pad_name nm"] by (subst WEIGHT_NAME_LEN_def) (subst (asm) length_pad_name, rule sym)
  also have "\<dots> = takeWhile (\<lambda>b. b \<noteq> 0) (take 16 nm)"
    by (cases "16 - length nm") (auto simp: pad_name_def takeWhile_append takeWhile_eq_all_conv [THEN iffD2])
  finally show ?thesis by (simp add: read_name_def stored_name_def slice_def Let_def)
qed

lemma get_entries_image:
  "get_entries (length es) (length pre) (pre @ concat (map (enc_weight lm) es) @ rest)
     = map (\<lambda>(f, t, w). (stored_name f, stored_name t, decode_weight (encode_weight lm w))) es"
proof (induction es arbitrary: pre)
  case (Cons e es)
  obtain f t w where e: "e = (f, t, w)" by (cases e)
  let ?buf = "pre @ concat (map (enc_weight lm) (e # es)) @ rest"
  have 1: "read_name ?buf (length pre) = stored_name f"
    using read_name_padded [of pre f] by (simp add: e enc_weight_def)
  have 2: "read_name ?buf (length pre + 16) = stored_name t"
    using read_name_padded [of "pre @ pad_name f" t] by (simp add: e enc_weight_def)
  have 3: "slice ?buf (length pre + 32) (length pre + 34) = encode_weight lm w"
    by (simp add: slice_def e enc_weight_def)
  have "get_entries (length es) (length pre + 34) ?buf
      = map (\<lambda>(f, t, w). (stored_name f, stored_name t, decode_weight (encode_weight lm w))) es"
    using Cons.IH [of "pre @ enc_weight lm e"] by simp
  then show ?case using 1 2 3 by (simp add: e add.commute [of 34])
qed simp

lemma header_image: "weights_header n = (le_bytes 4 WEIGHT_MAGIC @ [1, of_nat n, 10, 0]) @ replicate 504 0"
proof -
  have "replicate 508 (0 :: u8) = 0 # 0 # 0 # 0 # replicate 504 0" by (simp add: numeral_eq_Suc)
  then show ?thesis by (simp add: weights_header_def splice_def list_update_append)
qed

lemma weights_reload:
  assumes save: "save_weights lm d es = (Inr (), d')" and rd: "\<not> read_fails d 0"
  shows "load_weights d' = Some (map (\<lambda>(f, t, w). (stored_name f, stored_name t, decode_weight (encode_weight lm w))) (take 14 es))"
proof -
  let ?es = "take 14 es" and ?h = "le_bytes 4 WEIGHT_MAGIC @ [1, of_nat (length (take 14 es)), 10, 0]"
  let ?img = "?h @ concat (map (enc_weight lm) ?es) @ replicate (504 - 34 * length ?es) 0"
  define buf where "buf = put_entries lm ?es 8 (weights_header (length ?es))"
  have "put_entries lm ?es (length ?h) (?h @ replicate 504 0) = ?img" by (rule put_entries_blank) simp
  then have img: "buf = ?img" by (simp add: header_image buf_def)
  have "min (length es) 14 = length ?es" "take (length ?es) es = ?es" by (simp_all add: min_def)
  then have wr: "write_sector d 0 buf = (Inr (), d')"
    using save unfolding save_weights_def buf_def Let_def by (simp split: if_splits prod.splits sum.splits)
  have len: "length buf = 512" by (simp add: img length_concat comp_def sum_list_triv)
  have "read_sector d' 0 = Inr buf" by (rule read_write_same [OF wr len]) (use rd in simp)
  moreover have "slice buf 0 4 = le_bytes 4 WEIGHT_MAGIC" by (simp add: img slice_def)
  moreover have "unat (buf ! 5) = length ?es" by (simp add: img nth_append unat_of_nat)
  moreover have "get_entries (length ?es) 8 buf
      = map (\<lambda>(f, t, w). (stored_name f, stored_name t, decode_weight (encode_weight lm w))) ?es"
    using get_entries_image [of ?es ?h lm] by (simp add: img)
  ultimately show ?thesis by (simp add: load_weights_def)
qed

text \<open>
  Saved weights come back: after a successful save the drive holds, for the first fourteen
  synapses, the two names as the 16-byte fields keep them and the weight at its stored precision;
  a name of at most 16 bytes without a zero byte is kept as it is.
\<close>

theorem weights_saved_and_loaded:
  assumes save: "save_weights lm d es = (Inr (), d')" and rd: "\<not> read_fails d 0"
  shows "load_weights d' = Some (map (\<lambda>(f, t, w). (stored_name f, stored_name t, decode_weight (encode_weight lm w))) (take 14 es))
    \<and> (length nm \<le> 16 \<longrightarrow> 0 \<notin> set nm \<longrightarrow> utf8_valid nm \<longrightarrow> stored_name nm = nm)"
  using weights_reload [OF save rd] stored_name_same by blast

theorem weights_saved_and_loaded_witness:
  "load_weights (snd (save_weights demo_libm blank_disk [([76], [77], f_one)]))
     = Some [([76], [77], decode_weight (encode_weight demo_libm f_one))]"
proof -
  obtain d' where s: "save_weights demo_libm blank_disk [([76], [77], f_one)] = (Inr (), d')"
    by (simp add: save_weights_def write_sector_def Let_def blank_disk_def)
  have "stored_name [76] = [76]" "stored_name [77] = [77]"
    by (simp_all add: stored_name_def utf8_valid_ascii)
  with weights_saved_and_loaded [OF s, of "[]"] s show ?thesis by (simp add: blank_disk_def)
qed

text \<open>Weights live in sector 0, outside the filesystem's sectors.\<close>

lemma weights_keep_tree:
  assumes ok: "fs_ok d" and save: "save_weights lm d es = (r, d')"
  shows "fs_ok d'" "fs_tree d' = fs_tree d"
proof -
  have "d' = d \<or> (\<exists>buf x. write_sector d 0 buf = (x, d'))"
    using save by (auto simp: save_weights_def Let_def split: if_splits sum.splits prod.splits)
  then have ag: "read_sector d' l = read_sector d l" if "0 < l" "l < 66" for l
    using that read_write_other [of d 0 _ _ d' l] by auto
  have rdb: "read_fails d' = read_fails d"
    using \<open>d' = d \<or> _\<close> write_sector_faults [of d 0 _ _ d'] by blast
  have "agree (insert 1 (fp d 32 1)) d d'"
    using ag fp_pool [of d 32 1] ok by (auto simp: agree_def fs_ok_def subset_iff)
  then show t: "fs_tree d' = fs_tree d" and "fs_ok d'"
    using frame [of d 32 1 d'] ok rdb by (simp_all add: fs_ok_def fs_tree_def disk_readable_def)
qed

text \<open>
  Saving weights never touches the filesystem: whether the save succeeds or not, the disk stays
  sound and every file reads as before.
\<close>

theorem weights_keep_files:
  assumes ok: "fs_ok d" and save: "save_weights lm d es = (r, d')"
  shows "fs_ok d' \<and> read_file d' path = read_file d path"
  using weights_keep_tree [OF ok save] read_file_abs ok by simp

theorem weights_keep_files_witness:
  "fs_ok (snd (save_weights demo_libm blank_disk [([76], [77], f_one)]))"
  using weights_keep_files [OF blank_ok, of demo_libm "[([76], [77], f_one)]" "fst (save_weights demo_libm blank_disk [([76], [77], f_one)])"
      "snd (save_weights demo_libm blank_disk [([76], [77], f_one)])" "[]"] by simp

end
