(* ===== verification/Network.thy ===== *)
theory Network
  imports Weights
begin

text \<open>
  The spiking network (\<open>kernel/src/network.rs\<close>): leaky integrate-and-fire neurons,
  synapses with spike-timing dependent plasticity, the slow connectivity gates, one timer tick,
  and the fixed network seeded at boot.  The kernel is built with overflow checks, so a counter
  that overflows (the tick count, a fire count) is a panic: \<open>None\<close>.  A pending tick is never in
  the future and the stimulus list is as long as the neuron list (\<open>net_ok\<close> of \<open>Network_Props\<close>),
  so neither a subtraction of ticks nor an index can panic.  \<open>speaker\<close> is the tone the speaker plays.
\<close>

record neuron =
  n_name :: bytes
  n_v :: f32
  n_threshold :: f32
  n_leak :: f32
  n_fires :: nat
  last_fire_tick :: "nat option"
  refractory_ticks :: nat
  refractory_remaining :: nat

record synapse =
  s_from :: nat
  s_to :: nat
  s_weight :: f32
  s_gate :: bool
  s_evidence :: f32
  pending_pre_fire_tick :: "nat option"

record network =
  neurons :: "neuron list"
  synapses :: "synapse list"
  pending_stimulus :: "f32 list"
  beep_ticks_remaining :: nat
  tick_count :: nat
  speaker :: "nat option"

datatype net_error = NeuronExists bytes | NoSuchNeuron bytes | NoSuchSynapse bytes bytes | Usage

section \<open>Constants\<close>

definition SPIKE_GAIN :: f32 where "SPIKE_GAIN = f_of_nat 50"
definition STDP_RATE :: f32 where "STDP_RATE = f_of_ratio 1 10"
definition STDP_TAU_MS :: f32 where "STDP_TAU_MS = f_of_nat 20"
definition TICK_PERIOD_MS :: f32 where "TICK_PERIOD_MS = f_div (f_of_nat 1000) (f_of_ratio 182 10)"
definition INITIAL_EVIDENCE :: f32 where "INITIAL_EVIDENCE = f_one"
definition CORRELATION_WINDOW_TICKS :: nat where [simp]: "CORRELATION_WINDOW_TICKS = 15"
definition EVIDENCE_BETA :: f32 where "EVIDENCE_BETA = f_of_ratio 8 10"
definition GATE_ON_THRESHOLD :: f32 where "GATE_ON_THRESHOLD = f_of_ratio 1 2"
definition GATE_OFF_THRESHOLD :: f32 where "GATE_OFF_THRESHOLD = f_of_ratio 2 10"
definition FAST_TAU_TICKS :: nat where [simp]: "FAST_TAU_TICKS = 7"
definition BEEP_FREQ_HZ :: nat where [simp]: "BEEP_FREQ_HZ = 600"
definition BEEP_DURATION_TICKS :: nat where [simp]: "BEEP_DURATION_TICKS = 40"

section \<open>Plasticity and gates\<close>

definition u32_max :: nat where [simp]: "u32_max = 2 ^ 32 - 1"
definition u64_max :: nat where [simp]: "u64_max = 2 ^ 64 - 1"

definition as_i64 :: "nat \<Rightarrow> int" where
  "as_i64 n = (if n < 2 ^ 63 then int n else int n - 2 ^ 64)"

text \<open>The weight after the two spike times, or a panic when their difference does not fit an \<open>i64\<close>.\<close>

definition apply_stdp :: "libm \<Rightarrow> f32 \<Rightarrow> nat option \<Rightarrow> nat option \<Rightarrow> f32 option" where
  "apply_stdp lm w pre post =
     (case (pre, post) of
        (Some pre_t, Some post_t) \<Rightarrow>
          let dt = as_i64 post_t - as_i64 pre_t in
          if dt < - (2 ^ 63) \<or> 2 ^ 63 \<le> dt then None
          else let dt_ms = f_mul (f_round (dt * 2 ^ 149) 1) TICK_PERIOD_MS in
               if f_eq dt_ms f_zero then Some w
               else let delta = f_mul STDP_RATE (expf lm (f_div (f_neg (f_abs dt_ms)) STDP_TAU_MS)) in
                    Some (if f_lt f_zero dt_ms then f_min (f_add w delta) f_one else f_max (f_sub w delta) f_zero)
      | _ \<Rightarrow> Some w)"

fun gcd_u64 :: "nat \<Rightarrow> nat \<Rightarrow> nat" where
  "gcd_u64 a b = (if b = 0 then a else gcd_u64 b (a mod b))"

declare gcd_u64.simps [simp del]

text \<open>The search of \<open>golden_period\<close> for the next number coprime to \<open>t\<close>; it ends at a multiple of \<open>t\<close> plus one.\<close>

function next_coprime :: "nat \<Rightarrow> nat \<Rightarrow> nat" where
  "next_coprime t p = (if t = 0 \<or> p = 0 \<or> gcd_u64 p t = 1 then p else next_coprime t (Suc p))"
  by pat_completeness auto

lemma gcd_u64: "gcd_u64 a b = gcd a b"
proof (induction a b rule: gcd_u64.induct)
  case (1 a b)
  then show ?case by (subst gcd_u64.simps) (auto simp: gcd_red_nat [of a b])
qed

lemma gcd_one_above: "0 < p \<Longrightarrow> (p - 1) mod t = 0 \<Longrightarrow> gcd p t = (1 :: nat)"
proof -
  assume p: "0 < p" "(p - 1) mod t = 0"
  then obtain q where "p - 1 = t * q" by blast
  then have "p = t * q + 1" using p(1) by simp
  then show ?thesis by (metis coprime_Suc_left_nat coprime_commute coprime_iff_gcd_eq_1 coprime_mult_left_iff Suc_eq_plus1 mult_eq_0_iff coprime_1_left mult_0)
qed

termination next_coprime
proof (relation "measure (\<lambda>(t, p). (t - (p - 1) mod t) mod t)")
  fix t p :: nat
  assume a: "\<not> (t = 0 \<or> p = 0 \<or> gcd_u64 p t = 1)"
  define r where "r = (p - 1) mod t"
  have r: "0 < r" "r < t" using a gcd_one_above [of p t] by (auto simp: r_def gcd_u64)
  have "p mod t = (if Suc r = t then 0 else Suc r)" using a mod_Suc [of "p - 1" t] by (simp add: r_def)
  then have "(t - p mod t) mod t < (t - r) mod t" using r by auto
  then show "((t, Suc p), (t, p)) \<in> measure (\<lambda>(t, p). (t - (p - 1) mod t) mod t)" by (simp add: r_def)
qed simp

declare next_coprime.simps [simp del]

definition PHI :: f32 where "PHI = f_of_ratio 1618034 1000000"

definition f_to_u64 :: "f32 \<Rightarrow> nat" where
  "f_to_u64 x = (case x of Fin a \<Rightarrow> min (nat a div 2 ^ 149) u64_max | Inf s \<Rightarrow> if s then 0 else u64_max | NaN \<Rightarrow> 0)"

definition update_evidence :: "f32 \<Rightarrow> bool \<Rightarrow> f32" where
  "update_evidence ev hit =
     (let sample = if hit then f_one else f_zero
      in f_add (f_mul ev EVIDENCE_BETA) (f_mul sample (f_sub f_one EVIDENCE_BETA)))"

definition evaluate_gate :: "synapse \<Rightarrow> synapse" where
  "evaluate_gate s =
     (if s_gate s \<and> f_lt (s_evidence s) GATE_OFF_THRESHOLD then s\<lparr>s_gate := False\<rparr>
      else if \<not> s_gate s \<and> f_lt GATE_ON_THRESHOLD (s_evidence s) then s\<lparr>s_gate := True\<rparr>
      else s)"

section \<open>Building and training the network\<close>

definition find_neuron :: "network \<Rightarrow> bytes \<Rightarrow> nat option" where
  "find_neuron net nm = position (\<lambda>n. n_name n = nm) (neurons net)"

definition add_neuron :: "bytes \<Rightarrow> f32 \<Rightarrow> f32 \<Rightarrow> nat \<Rightarrow> network \<Rightarrow> (net_error + unit) \<times> network" where
  "add_neuron nm threshold leak refr net =
     (if find_neuron net nm \<noteq> None then (Inl (NeuronExists nm), net)
      else (Inr (), net\<lparr>neurons := neurons net @ [\<lparr>n_name = nm, n_v = f_zero, n_threshold = threshold, n_leak = leak,
                n_fires = 0, last_fire_tick = None, refractory_ticks = refr, refractory_remaining = 0\<rparr>],
              pending_stimulus := pending_stimulus net @ [f_zero]\<rparr>))"

definition add_synapse :: "bytes \<Rightarrow> bytes \<Rightarrow> f32 \<Rightarrow> network \<Rightarrow> (net_error + unit) \<times> network" where
  "add_synapse from to w net =
     (case find_neuron net from of
        None \<Rightarrow> (Inl (NoSuchNeuron from), net)
      | Some i \<Rightarrow>
          (case find_neuron net to of
             None \<Rightarrow> (Inl (NoSuchNeuron to), net)
           | Some j \<Rightarrow> (Inr (), net\<lparr>synapses := synapses net @ [\<lparr>s_from = i, s_to = j, s_weight = w, s_gate = True,
                          s_evidence = INITIAL_EVIDENCE, pending_pre_fire_tick = None\<rparr>]\<rparr>)))"

definition stimulate :: "bytes \<Rightarrow> f32 \<Rightarrow> network \<Rightarrow> (net_error + unit) \<times> network" where
  "stimulate nm amount net =
     (case find_neuron net nm of
        None \<Rightarrow> (Inl (NoSuchNeuron nm), net)
      | Some i \<Rightarrow> (Inr (), net\<lparr>pending_stimulus := (pending_stimulus net)[i := f_add (pending_stimulus net ! i) amount]\<rparr>))"

definition fire_at :: "nat \<Rightarrow> neuron \<Rightarrow> neuron" where
  "fire_at t n = n\<lparr>last_fire_tick := Some t, n_fires := Suc (n_fires n)\<rparr>"

definition find_synapse :: "network \<Rightarrow> nat \<Rightarrow> nat \<Rightarrow> nat option" where
  "find_synapse net i j = position (\<lambda>s. s_from s = i \<and> s_to s = j) (synapses net)"

definition train_synapse ::
  "libm \<Rightarrow> bytes \<Rightarrow> bytes \<Rightarrow> nat \<Rightarrow> bool \<Rightarrow> network \<Rightarrow> ((net_error + f32 \<times> f32) \<times> network) option" where
  "train_synapse lm from to gap pre_first net =
     (case find_neuron net from of
        None \<Rightarrow> Some (Inl (NoSuchNeuron from), net)
      | Some i \<Rightarrow>
          (case find_neuron net to of
             None \<Rightarrow> Some (Inl (NoSuchNeuron to), net)
           | Some j \<Rightarrow>
               (case find_synapse net i j of
                  None \<Rightarrow> Some (Inl (NoSuchSynapse from to), net)
                | Some k \<Rightarrow>
                    let before = s_weight (synapses net ! k);
                        t_a = tick_count net;
                        t_b = t_a + gap
                    in if u64_max < t_b + 1 then None
                       else let ns = neurons net;
                                ns = (if pre_first then ns[i := fire_at t_a (ns ! i)] else ns[j := fire_at t_a (ns ! j)]);
                                ns = (if pre_first then ns[j := fire_at t_b (ns ! j)] else ns[i := fire_at t_b (ns ! i)])
                            in if list_ex (\<lambda>n. u32_max < n_fires n) ns then None
                               else (case apply_stdp lm before (last_fire_tick (ns ! i)) (last_fire_tick (ns ! j)) of
                                  None \<Rightarrow> None
                                | Some w \<Rightarrow> Some (Inr (before, w),
                                    net\<lparr>neurons := ns, tick_count := t_b + 1,
                                        synapses := (synapses net)[k := (synapses net ! k)\<lparr>s_weight := w\<rparr>]\<rparr>)))))"

section \<open>One tick\<close>

definition neuron_step :: "nat \<Rightarrow> f32 \<Rightarrow> neuron \<Rightarrow> bool \<times> neuron" where
  "neuron_step t stim n =
     (if 0 < refractory_remaining n then (False, n\<lparr>refractory_remaining := refractory_remaining n - 1\<rparr>)
      else let v = f_add (f_max (f_sub (n_v n) (n_leak n)) f_zero) stim
           in if f_le (n_threshold n) v
              then (True, n\<lparr>n_v := f_zero, n_fires := Suc (n_fires n), last_fire_tick := Some t,
                           refractory_remaining := refractory_ticks n\<rparr>)
              else (False, n\<lparr>n_v := v\<rparr>))"

definition evidence_step :: "nat \<Rightarrow> nat list \<Rightarrow> synapse \<Rightarrow> synapse" where
  "evidence_step t fired s =
     (let s = (if s_to s \<in> set fired
               then (case pending_pre_fire_tick s of
                       Some pre \<Rightarrow>
                         if t - pre \<le> CORRELATION_WINDOW_TICKS
                         then s\<lparr>s_evidence := update_evidence (s_evidence s) True, pending_pre_fire_tick := None\<rparr> else s
                     | None \<Rightarrow> s)
               else s);
          s = (case pending_pre_fire_tick s of
                 Some pre \<Rightarrow>
                   if CORRELATION_WINDOW_TICKS < t - pre
                   then s\<lparr>s_evidence := update_evidence (s_evidence s) False, pending_pre_fire_tick := None\<rparr> else s
               | None \<Rightarrow> s)
      in if s_from s \<in> set fired then s\<lparr>pending_pre_fire_tick := Some t\<rparr> else s)"

definition deliver :: "synapse \<Rightarrow> f32 list \<Rightarrow> f32 list" where
  "deliver s stim = stim[s_to s := f_add (stim ! s_to s) (f_mul (s_weight s) SPIKE_GAIN)]"

definition propagate :: "synapse list \<Rightarrow> nat list \<Rightarrow> f32 list \<Rightarrow> f32 list" where
  "propagate ss fired stim = fold (\<lambda>src. fold deliver (filter (\<lambda>s. s_from s = src \<and> s_gate s) ss)) fired stim"

definition stdp_step :: "libm \<Rightarrow> neuron list \<Rightarrow> nat list \<Rightarrow> synapse \<Rightarrow> synapse option" where
  "stdp_step lm ns fired s =
     (if s_gate s \<and> (s_from s \<in> set fired \<or> s_to s \<in> set fired)
      then map_option (\<lambda>w. s\<lparr>s_weight := w\<rparr>)
             (apply_stdp lm (s_weight s) (last_fire_tick (ns ! s_from s)) (last_fire_tick (ns ! s_to s)))
      else Some s)"

definition beep_step :: "bool \<Rightarrow> network \<Rightarrow> network" where
  "beep_step any_fired net =
     (if any_fired then net\<lparr>speaker := Some BEEP_FREQ_HZ, beep_ticks_remaining := BEEP_DURATION_TICKS\<rparr>
      else if 0 < beep_ticks_remaining net
      then let r = beep_ticks_remaining net - 1
           in net\<lparr>beep_ticks_remaining := r, speaker := if r = 0 then None else speaker net\<rparr>
      else net)"

definition golden_period :: "libm \<Rightarrow> nat \<Rightarrow> nat" where
  "golden_period lm fast_tau =
     next_coprime (max fast_tau 1) (max (f_to_u64 (roundf lm (f_mul (f_mul PHI PHI) (f_of_nat fast_tau)))) 2)"

definition net_tick :: "libm \<Rightarrow> network \<Rightarrow> network option" where
  "net_tick lm net =
     (let t = tick_count net in
      if t = u64_max then None
      else let steps = map2 (neuron_step t) (pending_stimulus net) (neurons net);
               fired = filter (\<lambda>i. fst (steps ! i)) [0..<length steps];
               ns = map snd steps;
               ss = map (evidence_step t fired) (synapses net);
               stim = propagate ss fired (replicate (length (pending_stimulus net)) f_zero)
           in if list_ex (\<lambda>n. u32_max < n_fires n) ns then None
              else (case those (map (stdp_step lm ns fired) ss) of
                 None \<Rightarrow> None
               | Some ss \<Rightarrow>
                   let ss = (if t mod golden_period lm FAST_TAU_TICKS = 0 then map evaluate_gate ss else ss)
                   in Some (beep_step (fired \<noteq> []) (net\<lparr>neurons := ns, synapses := ss, pending_stimulus := stim, tick_count := t + 1\<rparr>))))"

end
