(* ===== verification/Neurons.thy ===== *)
theory Neurons
  imports Network
begin

text \<open>
  The named interface of the network (\<open>network.rs\<close>, lower half) and the fixed network of
  \<open>neurons.rs\<close>: seeding at boot, restoring and saving of weights, key stimuli, training trials,
  and the command language of \<open>run_dsl_line\<close>.  A command line is its bytes; its words are
  separated by ASCII white space, the only one the keyboard produces.  Formatting of reports is
  left out: a command's answer is a value of \<open>dsl_answer\<close>.
\<close>

section \<open>Named access\<close>

definition seed_fixed_network ::
  "bytes \<Rightarrow> bytes \<Rightarrow> bytes \<Rightarrow> f32 \<Rightarrow> f32 \<Rightarrow> f32 \<Rightarrow> f32 \<Rightarrow> nat \<Rightarrow> f32 \<Rightarrow> f32 \<Rightarrow> network \<Rightarrow> network" where
  "seed_fixed_network l r m kt kl mt ml refr lw rw net =
     (if find_neuron net l \<noteq> None then net
      else let net = snd (add_neuron l kt kl refr net);
               net = snd (add_neuron r kt kl refr net);
               net = snd (add_neuron m mt ml refr net);
               net = snd (add_synapse l m lw net)
           in snd (add_synapse r m rw net))"

definition neuron_state :: "network \<Rightarrow> bytes \<Rightarrow> (f32 \<times> nat) option" where
  "neuron_state net nm = map_option (\<lambda>n. (n_v n, n_fires n)) (find (\<lambda>n. n_name n = nm) (neurons net))"

definition named_synapse :: "network \<Rightarrow> bytes \<Rightarrow> bytes \<Rightarrow> nat option" where
  "named_synapse net from to =
     (case (find_neuron net from, find_neuron net to) of
        (Some i, Some j) \<Rightarrow> find_synapse net i j
      | _ \<Rightarrow> None)"

definition synapse_weight :: "network \<Rightarrow> bytes \<Rightarrow> bytes \<Rightarrow> f32 option" where
  "synapse_weight net from to = map_option (\<lambda>k. s_weight (synapses net ! k)) (named_synapse net from to)"

definition synapse_gate_state :: "network \<Rightarrow> bytes \<Rightarrow> bytes \<Rightarrow> (bool \<times> f32) option" where
  "synapse_gate_state net from to =
     map_option (\<lambda>k. (s_gate (synapses net ! k), s_evidence (synapses net ! k))) (named_synapse net from to)"

definition all_synapse_weights :: "network \<Rightarrow> weight_entry list" where
  "all_synapse_weights net =
     map (\<lambda>s. (n_name (neurons net ! s_from s), n_name (neurons net ! s_to s), s_weight s)) (synapses net)"

definition apply_synapse_weight :: "bytes \<Rightarrow> bytes \<Rightarrow> f32 \<Rightarrow> network \<Rightarrow> bool \<times> network" where
  "apply_synapse_weight from to w net =
     (case named_synapse net from to of
        None \<Rightarrow> (False, net)
      | Some k \<Rightarrow> (True, net\<lparr>synapses := (synapses net)[k := (synapses net ! k)\<lparr>s_weight := w\<rparr>]\<rparr>))"

section \<open>The fixed network\<close>

definition LEFT_KEY :: bytes where "LEFT_KEY = bytes_of ''LeftKey''"
definition RIGHT_KEY :: bytes where "RIGHT_KEY = bytes_of ''RightKey''"
definition MOTOR :: bytes where "MOTOR = bytes_of ''Motor''"
definition KEY_THRESHOLD :: f32 where "KEY_THRESHOLD = f_of_nat 100"
definition KEY_LEAK :: f32 where "KEY_LEAK = f_of_nat 5"
definition MOTOR_THRESHOLD :: f32 where "MOTOR_THRESHOLD = f_of_nat 80"
definition MOTOR_LEAK :: f32 where "MOTOR_LEAK = f_of_nat 3"
definition REFRACTORY_TICKS :: nat where [simp]: "REFRACTORY_TICKS = 7"
definition INITIAL_WEIGHT :: f32 where "INITIAL_WEIGHT = f_of_ratio 1 2"
definition KEY_STIM_AMOUNT :: f32 where "KEY_STIM_AMOUNT = f_of_nat 120"

definition empty_network :: network where
  "empty_network = \<lparr>neurons = [], synapses = [], pending_stimulus = [], beep_ticks_remaining = 0, tick_count = 0, speaker = None\<rparr>"

fun apply_entries :: "weight_entry list \<Rightarrow> network \<Rightarrow> nat \<times> network" where
  "apply_entries [] net = (0, net)"
| "apply_entries ((f, t, w) # es) net =
     (case apply_synapse_weight f t w net of
        (ok, net) \<Rightarrow> (case apply_entries es net of (n, net) \<Rightarrow> (if ok then Suc n else n, net)))"

text \<open>\<open>Some (matched, total_in_file)\<close>, or \<open>None\<close> when the drive holds no weight list.\<close>

definition neurons_init :: "disk \<Rightarrow> network \<Rightarrow> (nat \<times> nat) option \<times> network" where
  "neurons_init d net =
     (let net = seed_fixed_network LEFT_KEY RIGHT_KEY MOTOR KEY_THRESHOLD KEY_LEAK MOTOR_THRESHOLD MOTOR_LEAK
                  REFRACTORY_TICKS INITIAL_WEIGHT INITIAL_WEIGHT net
      in case load_weights d of
           None \<Rightarrow> (None, net)
         | Some es \<Rightarrow> (case apply_entries es net of (n, net) \<Rightarrow> (Some (n, length es), net)))"

definition on_key_stimulus :: "nat \<Rightarrow> network \<Rightarrow> network" where
  "on_key_stimulus c net =
     (if c = 97 then snd (stimulate LEFT_KEY KEY_STIM_AMOUNT net)
      else if c = 100 then snd (stimulate RIGHT_KEY KEY_STIM_AMOUNT net)
      else net)"

definition save_weights_to_disk :: "libm \<Rightarrow> network \<Rightarrow> disk \<Rightarrow> (weights_error + unit) \<times> disk" where
  "save_weights_to_disk lm net d =
     (if all_synapse_weights net = [] then (Inl NoSynapses, d) else save_weights lm d (all_synapse_weights net))"

definition left_to_motor_weight :: "network \<Rightarrow> f32" where
  "left_to_motor_weight net = (case synapse_weight net LEFT_KEY MOTOR of Some w \<Rightarrow> w | None \<Rightarrow> f_zero)"

definition run_training_trial :: "libm \<Rightarrow> bool \<Rightarrow> nat \<Rightarrow> network \<Rightarrow> network option" where
  "run_training_trial lm ltp gap net = map_option snd (train_synapse lm LEFT_KEY MOTOR gap ltp net)"

section \<open>Numbers as text\<close>

definition is_digit :: "u8 \<Rightarrow> bool" where "is_digit b \<longleftrightarrow> 48 \<le> b \<and> b \<le> 57"

definition digits_value :: "bytes \<Rightarrow> nat" where
  "digits_value ds = foldl (\<lambda>a b. 10 * a + (unat b - 48)) 0 ds"

text \<open>\<open>str::parse\<close> of an unsigned integer of the given width: an optional plus sign and digits.\<close>

definition parse_uint :: "nat \<Rightarrow> bytes \<Rightarrow> nat option" where
  "parse_uint width s =
     (let ds = (case s of b # r \<Rightarrow> if b = 43 then r else s | [] \<Rightarrow> [])
      in if ds = [] \<or> \<not> list_all is_digit ds then None
         else if digits_value ds < 2 ^ width then Some (digits_value ds) else None)"

definition lower :: "bytes \<Rightarrow> bytes" where
  "lower s = map (\<lambda>b. if 65 \<le> b \<and> b \<le> 90 then b + 32 else b) s"

definition take_sign :: "bytes \<Rightarrow> bool \<times> bytes" where
  "take_sign s = (case s of b # r \<Rightarrow> if b = 45 then (True, r) else if b = 43 then (False, r) else (False, s) | [] \<Rightarrow> (False, []))"

text \<open>The exponent part: nothing, or \<open>e\<close>, an optional sign and at least one digit.\<close>

definition parse_exponent :: "bytes \<Rightarrow> int option" where
  "parse_exponent s =
     (case s of
        [] \<Rightarrow> Some 0
      | b # r \<Rightarrow>
          if b \<noteq> 101 \<and> b \<noteq> 69 then None
          else (case take_sign r of (neg, ds) \<Rightarrow>
                  if ds = [] \<or> \<not> list_all is_digit ds then None
                  else Some (if neg then - int (digits_value ds) else int (digits_value ds))))"

text \<open>\<open>str::parse::<f32>\<close>: the decimal number, rounded once, or a special value.\<close>

definition parse_f32 :: "bytes \<Rightarrow> f32 option" where
  "parse_f32 s =
     (case take_sign s of (neg, r) \<Rightarrow>
        if lower r = bytes_of ''inf'' \<or> lower r = bytes_of ''infinity'' then Some (Inf neg)
        else if lower r = bytes_of ''nan'' then Some NaN
        else let whole = takeWhile is_digit r;
                 r1 = dropWhile is_digit r;
                 frac = (case r1 of b # t \<Rightarrow> if b = 46 then takeWhile is_digit t else [] | [] \<Rightarrow> []);
                 r2 = (case r1 of b # t \<Rightarrow> if b = 46 then dropWhile is_digit t else r1 | [] \<Rightarrow> [])
             in if whole @ frac = [] then None
                else case parse_exponent r2 of
                       None \<Rightarrow> None
                     | Some e \<Rightarrow>
                         let m = (if neg then - 1 else 1) * int (digits_value (whole @ frac));
                             x = e - int (length frac)
                         in Some (f_of_ratio (m * 10 ^ nat x) (10 ^ nat (- x))))"

section \<open>The command language\<close>

definition is_space :: "u8 \<Rightarrow> bool" where "is_space b \<longleftrightarrow> b = 32 \<or> 9 \<le> b \<and> b \<le> 13"

fun split_words :: "bytes \<Rightarrow> bytes \<Rightarrow> bytes list" where
  "split_words acc [] = (if acc = [] then [] else [acc])"
| "split_words acc (b # bs) =
     (if is_space b then (if acc = [] then split_words [] bs else acc # split_words [] bs)
      else split_words (acc @ [b]) bs)"

definition split_whitespace :: "bytes \<Rightarrow> bytes list" where
  "split_whitespace line = split_words [] line"

definition strip_prefix :: "bytes \<Rightarrow> bytes \<Rightarrow> bytes option" where
  "strip_prefix p s = (if take (length p) s = p then Some (drop (length p) s) else None)"

definition or_else :: "'a option \<Rightarrow> 'a \<Rightarrow> 'a" where
  "or_else x d = (case x of Some v \<Rightarrow> v | None \<Rightarrow> d)"

definition neuron_option :: "bytes \<Rightarrow> f32 \<times> f32 \<times> nat \<Rightarrow> f32 \<times> f32 \<times> nat" where
  "neuron_option kv = (\<lambda>(threshold, leak, refr).
     case strip_prefix (bytes_of ''threshold='') kv of
       Some v \<Rightarrow> (or_else (parse_f32 v) threshold, leak, refr)
     | None \<Rightarrow>
         (case strip_prefix (bytes_of ''leak='') kv of
            Some v \<Rightarrow> (threshold, or_else (parse_f32 v) leak, refr)
          | None \<Rightarrow>
              (case strip_prefix (bytes_of ''refractory='') kv of
                 Some v \<Rightarrow> (threshold, leak, or_else (parse_uint 32 v) refr)
               | None \<Rightarrow> (threshold, leak, refr))))"

definition synapse_option :: "bytes \<Rightarrow> f32 \<Rightarrow> f32" where
  "synapse_option kv w = (case strip_prefix (bytes_of ''weight='') kv of Some v \<Rightarrow> or_else (parse_f32 v) w | None \<Rightarrow> w)"

datatype dsl_answer = Done | Trained f32 f32 nat | DslError net_error

definition dsl_result :: "(net_error + unit) \<times> network \<Rightarrow> (dsl_answer \<times> network) option" where
  "dsl_result r = Some (case fst r of Inl e \<Rightarrow> DslError e | Inr _ \<Rightarrow> Done, snd r)"

definition run_dsl_line :: "libm \<Rightarrow> bytes \<Rightarrow> network \<Rightarrow> (dsl_answer \<times> network) option" where
  "run_dsl_line lm line net =
     (let parts = split_whitespace line; usage = Some (DslError Usage, net) in
      case parts of
        [] \<Rightarrow> usage
      | cmd # args \<Rightarrow>
          if cmd = bytes_of ''addneuron'' then
            (case args of
               nm # rest \<Rightarrow>
                 (case fold neuron_option rest (f_of_nat 100, f_of_nat 5, 0) of
                    (threshold, leak, refr) \<Rightarrow> dsl_result (add_neuron nm threshold leak refr net))
             | [] \<Rightarrow> usage)
          else if cmd = bytes_of ''addsynapse'' then
            (case args of
               from # to # rest \<Rightarrow> dsl_result (add_synapse from to (fold synapse_option rest (f_of_ratio 1 2)) net)
             | _ \<Rightarrow> usage)
          else if cmd = bytes_of ''stim'' then
            (case args of
               [nm, amount] \<Rightarrow> dsl_result (stimulate nm (or_else (parse_f32 amount) f_zero) net)
             | _ \<Rightarrow> usage)
          else if cmd = bytes_of ''train'' then
            (case args of
               [from, to, g] \<Rightarrow>
                 let gap = or_else (parse_uint 64 g) 2
                 in (case train_synapse lm from to gap True net of
                       None \<Rightarrow> None
                     | Some (Inr (before, after), net) \<Rightarrow> Some (Trained before after gap, net)
                     | Some (Inl e, net) \<Rightarrow> Some (DslError e, net))
             | _ \<Rightarrow> usage)
          else usage)"

end
