(* ===== verification/Network_Props.thy ===== *)
theory Network_Props
  imports Neurons
begin

text \<open>
  What the spiking network guarantees: its well-formedness over any history of commands and ticks,
  the ranges of weights and evidence, the behaviour of one tick (delivery of spikes, refractory
  neurons, dormant synapses), the slow clock, and the persistence of weights over a reboot.
\<close>

section \<open>Numbers between zero and one\<close>

definition unit_range :: "f32 \<Rightarrow> bool" where
  "unit_range x = (case x of Fin k \<Rightarrow> 0 \<le> k \<and> k \<le> 2 ^ 149 | _ \<Rightarrow> False)"

lemma unit_rangeE: "unit_range x \<Longrightarrow> (\<And>k. x = Fin k \<Longrightarrow> 0 \<le> k \<Longrightarrow> k \<le> 2 ^ 149 \<Longrightarrow> P) \<Longrightarrow> P"
  by (cases x) (auto simp: unit_range_def)

lemma unit_range_Fin [simp]: "unit_range (Fin k) \<longleftrightarrow> 0 \<le> k \<and> k \<le> 2 ^ 149"
  by (simp add: unit_range_def)

lemma f_round_nonneg:
  assumes "0 \<le> n" "0 < d" "nat n \<le> d * 2 ^ k" "k < 277"
  shows "\<exists>j. f_round n d = Fin j \<and> 0 \<le> j \<and> j \<le> 2 ^ k"
proof -
  have n: "nat \<bar>n\<bar> = nat n" using assms(1) by simp
  have "round_mag (nat n) d \<le> 2 ^ k" by (rule round_mag_le_pow [OF assms(2,3)])
  then have "int (round_mag (nat n) d) \<le> 2 ^ k" by (metis of_nat_le_iff of_nat_numeral of_nat_power)
  moreover have "f_round n d = Fin (sgn n * int (round_mag (nat n) d))"
    using f_round_small [OF assms(2), of n k] assms(3,4) unfolding n by blast
  ultimately show ?thesis using assms(1) by (cases "n = 0") auto
qed

lemma f_round_neg: "f_round (- n) d = f_neg (f_round n d)"
proof (cases "n = 0")
  case True
  then show ?thesis by (simp add: f_round_def f_neg_def)
next
  case False
  define m where "m = round_mag (nat \<bar>n\<bar>) d"
  show ?thesis using False unfolding f_round_def abs_minus_cancel m_def [symmetric] Let_def by (auto simp: f_neg_def)
qed

lemma f_round_abs:
  assumes "0 < d" "nat \<bar>n\<bar> \<le> d * 2 ^ k" "k < 277"
  shows "\<exists>j. f_round n d = Fin j \<and> \<bar>j\<bar> \<le> 2 ^ k \<and> (0 \<le> n \<longrightarrow> 0 \<le> j) \<and> (n \<le> 0 \<longrightarrow> j \<le> 0)"
proof (cases "0 \<le> n")
  case True
  then obtain j where "f_round n d = Fin j" "0 \<le> j" "j \<le> 2 ^ k" using f_round_nonneg [of n d k] assms by auto
  moreover have "n = 0 \<Longrightarrow> j = 0" using calculation by (simp add: f_round_def Let_def)
  ultimately show ?thesis using True by auto
next
  case False
  then obtain j where "f_round (- n) d = Fin j" "0 \<le> j" "j \<le> 2 ^ k" using f_round_nonneg [of "- n" d k] assms by auto
  then show ?thesis using False f_round_neg [of "- n" d] by (auto simp: f_neg_def)
qed

lemma unit_mul: "unit_range x \<Longrightarrow> unit_range y \<Longrightarrow> unit_range (f_mul x y)"
proof (elim unit_rangeE)
  fix a b assume ab: "x = Fin a" "0 \<le> a" "a \<le> 2 ^ 149" "y = Fin b" "0 \<le> b" "b \<le> 2 ^ 149"
  have "a * b \<le> 2 ^ 149 * 2 ^ 149" using ab by (intro mult_mono) auto
  then have "nat (a * b) \<le> 2 ^ 149 * 2 ^ 149" by (simp add: nat_le_iff)
  then show ?thesis using f_round_nonneg [of "a * b" "2 ^ 149" 149] ab by (auto simp: f_mul_def)
qed

lemma unit_add_min: "unit_range x \<Longrightarrow> unit_range y \<Longrightarrow> unit_range (f_min (f_add x y) f_one)"
proof (elim unit_rangeE)
  fix a b assume ab: "x = Fin a" "0 \<le> a" "a \<le> 2 ^ 149" "y = Fin b" "0 \<le> b" "b \<le> 2 ^ 149"
  then have "nat (a + b) \<le> 1 * 2 ^ 150" by (simp add: nat_le_iff)
  then show ?thesis using f_round_nonneg [of "a + b" 1 150] ab by (auto simp: f_add_def f_min_def)
qed

lemma unit_sub_max: "unit_range x \<Longrightarrow> unit_range y \<Longrightarrow> unit_range (f_max (f_sub x y) f_zero)"
proof (elim unit_rangeE)
  fix a b assume ab: "x = Fin a" "0 \<le> a" "a \<le> 2 ^ 149" "y = Fin b" "0 \<le> b" "b \<le> 2 ^ 149"
  then have "nat \<bar>a - b\<bar> \<le> 1 * 2 ^ 149" by (simp add: nat_le_iff abs_if)
  then show ?thesis using f_round_abs [of 1 "a - b" 149] ab by (auto simp: f_sub_def f_add_def f_neg_def f_max_def)
qed

lemma net_consts:
  "EVIDENCE_BETA = Fin (13421773 * 2 ^ 125)" "STDP_TAU_MS = Fin (20 * 2 ^ 149)" "STDP_RATE = Fin (13421773 * 2 ^ 122)"
  "TICK_PERIOD_MS = Fin (3600879 * 2 ^ 133)"
  by (simp_all add: f32_eval EVIDENCE_BETA_def STDP_TAU_MS_def STDP_RATE_def TICK_PERIOD_MS_def)

lemma one_minus_beta: "f_sub f_one EVIDENCE_BETA = Fin (3355443 * 2 ^ 125)"
  by (simp add: f32_eval net_consts)

lemma unit_evidence: "unit_range ev \<Longrightarrow> unit_range (update_evidence ev hit)"
proof (elim unit_rangeE)
  fix a assume a: "ev = Fin a" "0 \<le> a" "a \<le> 2 ^ 149"
  let ?B = "13421773 * 2 ^ 125 :: nat"
  have "a * int ?B \<le> 2 ^ 149 * int ?B" using a by (intro mult_right_mono) auto
  then have le: "nat (a * int ?B) \<le> 2 ^ 149 * ?B" by (simp add: nat_le_iff)
  then have "round_mag (nat (a * int ?B)) (2 ^ 149) \<le> round_mag (2 ^ 149 * ?B) (2 ^ 149)" by (intro round_mag_mono) auto
  also have "\<dots> = ?B" by (intro round_mag_exact) (simp_all add: ulp_def)
  finally have B: "round_mag (nat (a * int ?B)) (2 ^ 149) \<le> ?B" .
  have "nat (a * int ?B) \<le> 2 ^ 149 * 2 ^ 149" using le by simp
  then obtain j where j: "f_round (a * int ?B) (2 ^ 149) = Fin j" "0 \<le> j"
    using f_round_nonneg [of "a * int ?B" "2 ^ 149" 149] a by auto
  have "0 \<le> a * int ?B" using a by simp
  then have "j \<le> int ?B" using j B
    by (simp add: f_round_def Let_def sgn_if split: if_splits)
  moreover have "f_mul ev EVIDENCE_BETA = Fin j" using j a by (simp add: f_mul_def net_consts)
  moreover have "f_mul (if hit then f_one else f_zero) (f_sub f_one EVIDENCE_BETA) = Fin (if hit then 3355443 * 2 ^ 125 else 0)"
    unfolding one_minus_beta by (cases hit) (simp_all add: f_mul_def f_round_def Let_def round_mag_def ulp_def rne_def)
  moreover obtain i where "f_round (j + (if hit then 3355443 * 2 ^ 125 else 0)) 1 = Fin i" "0 \<le> i" "i \<le> 2 ^ 149"
    using f_round_nonneg [of "j + (if hit then 3355443 * 2 ^ 125 else 0)" 1 149] j(2) calculation(1)
    by (cases hit) (auto simp: nat_le_iff)
  ultimately show ?thesis by (simp add: update_evidence_def Let_def f_add_def)
qed

lemma stdp_delta:
  assumes lm: "expf_ok lm" and dt: "\<bar>dt\<bar> \<le> 2 ^ 63"
  obtains k where "f_mul (f_round (dt * 2 ^ 149) 1) TICK_PERIOD_MS = Fin k"
    "unit_range (f_mul STDP_RATE (expf lm (f_div (f_neg (f_abs (Fin k))) STDP_TAU_MS)))"
proof -
  have "\<bar>dt * 2 ^ 149\<bar> \<le> 2 ^ 63 * 2 ^ 149" using dt by (simp add: abs_mult)
  then have "nat \<bar>dt * 2 ^ 149\<bar> \<le> 1 * 2 ^ 212" by (simp add: nat_le_iff)
  then obtain a where a: "f_round (dt * 2 ^ 149) 1 = Fin a" "\<bar>a\<bar> \<le> 2 ^ 212"
    using f_round_abs [of 1 "dt * 2 ^ 149" 212] by auto
  have "\<bar>a * (3600879 * 2 ^ 133)\<bar> \<le> 2 ^ 212 * 2 ^ 155"
    unfolding abs_mult using a(2) by (intro mult_mono) auto
  then have "nat \<bar>a * (3600879 * 2 ^ 133)\<bar> \<le> 2 ^ 149 * 2 ^ 218" by (simp add: nat_le_iff)
  then obtain k where k: "f_round (a * (3600879 * 2 ^ 133)) (2 ^ 149) = Fin k" "\<bar>k\<bar> \<le> 2 ^ 218"
    using f_round_abs [of "2 ^ 149" "a * (3600879 * 2 ^ 133)" 218] by auto
  let ?n = "- \<bar>k\<bar> * 2 ^ 149"
  have "nat \<bar>?n\<bar> \<le> 20 * 2 ^ 149 * 2 ^ 218" using k(2) by (simp add: nat_le_iff abs_mult)
  then obtain j where j: "f_round ?n (20 * 2 ^ 149) = Fin j" "j \<le> 0"
    using f_round_abs [of "20 * 2 ^ 149" ?n 218] by auto
  have "f_div (f_neg (f_abs (Fin k))) STDP_TAU_MS = f_round ?n (20 * 2 ^ 149)"
    by (simp add: f_div_def f_neg_def f_abs_def net_consts nat_mult_distrib nat_power_eq)
  then obtain e where e: "expf lm (f_div (f_neg (f_abs (Fin k))) STDP_TAU_MS) = Fin e" "0 \<le> e" "e \<le> 2 ^ 149"
    using lm j unfolding expf_ok_def by auto
  have "unit_range (f_mul STDP_RATE (Fin e))" by (rule unit_mul) (use e in \<open>simp_all add: net_consts\<close>)
  then show ?thesis using that [of k] a(1) k(1) e(1) by (simp add: f_mul_def net_consts)
qed

lemma apply_stdp_range:
  assumes lm: "expf_ok lm" and w: "unit_range w" and r: "apply_stdp lm w pre post = Some w'"
  shows "unit_range w'"
proof (cases "\<exists>x y. pre = Some x \<and> post = Some y")
  case False
  then show ?thesis using r w by (auto simp: apply_stdp_def split: option.splits)
next
  case True
  then obtain x y where xy: "pre = Some x" "post = Some y" by blast
  let ?dt = "as_i64 y - as_i64 x"
  have dt: "- (2 ^ 63) \<le> ?dt" "?dt < 2 ^ 63" using r xy by (auto simp: apply_stdp_def Let_def split: if_splits)
  then have "\<bar>?dt\<bar> \<le> 2 ^ 63" by linarith
  then obtain k where k: "f_mul (f_round (?dt * 2 ^ 149) 1) TICK_PERIOD_MS = Fin k"
    "unit_range (f_mul STDP_RATE (expf lm (f_div (f_neg (f_abs (Fin k))) STDP_TAU_MS)))"
    by (rule stdp_delta [OF lm])
  let ?D = "f_mul STDP_RATE (expf lm (f_div (f_neg (f_abs (Fin k))) STDP_TAU_MS))"
  have "w' = w \<or> w' = f_min (f_add w ?D) f_one \<or> w' = f_max (f_sub w ?D) f_zero"
    using r xy unfolding apply_stdp_def by (simp only: prod.case option.case Let_def k(1)) (simp split: if_splits)
  then show ?thesis using w unit_add_min [OF w k(2)] unit_sub_max [OF w k(2)] by metis
qed

section \<open>The parts of a tick\<close>

definition tick_steps :: "network \<Rightarrow> (bool \<times> neuron) list" where
  "tick_steps net = map2 (neuron_step (tick_count net)) (pending_stimulus net) (neurons net)"

definition tick_fired :: "network \<Rightarrow> nat list" where
  "tick_fired net = filter (\<lambda>i. fst (tick_steps net ! i)) [0..<length (tick_steps net)]"

definition tick_neurons :: "network \<Rightarrow> neuron list" where
  "tick_neurons net = map snd (tick_steps net)"

definition tick_evidence :: "network \<Rightarrow> synapse list" where
  "tick_evidence net = map (evidence_step (tick_count net) (tick_fired net)) (synapses net)"

definition tick_stimulus :: "network \<Rightarrow> f32 list" where
  "tick_stimulus net = propagate (tick_evidence net) (tick_fired net) (replicate (length (pending_stimulus net)) f_zero)"

definition tick_gate :: "libm \<Rightarrow> network \<Rightarrow> synapse \<Rightarrow> synapse" where
  "tick_gate lm net s = (if tick_count net mod golden_period lm FAST_TAU_TICKS = 0 then evaluate_gate s else s)"

lemma net_tick_alt:
  "net_tick lm net =
     (if tick_count net = u64_max \<or> list_ex (\<lambda>n. u32_max < n_fires n) (tick_neurons net) then None
      else map_option (\<lambda>ss. beep_step (tick_fired net \<noteq> [])
             (net\<lparr>neurons := tick_neurons net, synapses := map (tick_gate lm net) ss,
                  pending_stimulus := tick_stimulus net, tick_count := tick_count net + 1\<rparr>))
             (those (map (stdp_step lm (tick_neurons net) (tick_fired net)) (tick_evidence net))))"
proof -
  have g: "(if b then map evaluate_gate ss else ss) = map (\<lambda>s. if b then evaluate_gate s else s) ss" for b ss
    by (cases b) simp_all
  show ?thesis
    by (simp add: net_tick_def Let_def tick_steps_def tick_fired_def tick_neurons_def tick_evidence_def tick_stimulus_def
        tick_gate_def [abs_def] g split: option.split)
qed

lemma those_map: "those (map f xs) = Some ys \<longleftrightarrow> list_all2 (\<lambda>x y. f x = Some y) xs ys"
proof (induction xs arbitrary: ys)
  case (Cons x xs)
  then show ?case by (cases ys) (auto split: option.splits)
qed auto

lemma those_map_None: "those (map f xs) \<noteq> None \<longleftrightarrow> (\<forall>x \<in> set xs. f x \<noteq> None)"
  by (induction xs) (auto split: option.splits)

lemma beep_step_simps [simp]:
  "neurons (beep_step b net) = neurons net" "synapses (beep_step b net) = synapses net"
  "pending_stimulus (beep_step b net) = pending_stimulus net" "tick_count (beep_step b net) = tick_count net"
  by (simp_all add: beep_step_def Let_def)

lemma net_tick_parts:
  assumes "net_tick lm net = Some net'"
  shows "neurons net' = tick_neurons net" "pending_stimulus net' = tick_stimulus net" "tick_count net' = tick_count net + 1"
    "tick_count net < u64_max \<or> u64_max < tick_count net" "\<forall>n \<in> set (neurons net'). n_fires n \<le> u32_max"
    "list_all2 (\<lambda>s s'. \<exists>w. stdp_step lm (tick_neurons net) (tick_fired net) (evidence_step (tick_count net) (tick_fired net) s) = Some w
       \<and> s' = tick_gate lm net w) (synapses net) (synapses net')"
proof -
  from assms obtain ss where ss: "those (map (stdp_step lm (tick_neurons net) (tick_fired net)) (tick_evidence net)) = Some ss"
    and net': "net' = beep_step (tick_fired net \<noteq> []) (net\<lparr>neurons := tick_neurons net, synapses := map (tick_gate lm net) ss,
                  pending_stimulus := tick_stimulus net, tick_count := tick_count net + 1\<rparr>)"
    and ne: "tick_count net \<noteq> u64_max" "\<not> list_ex (\<lambda>n. u32_max < n_fires n) (tick_neurons net)"
    by (auto simp: net_tick_alt split: if_splits)
  show "neurons net' = tick_neurons net" "pending_stimulus net' = tick_stimulus net" "tick_count net' = tick_count net + 1"
    by (simp_all add: net')
  show "tick_count net < u64_max \<or> u64_max < tick_count net" using ne(1) by linarith
  show "\<forall>n \<in> set (neurons net'). n_fires n \<le> u32_max" using ne(2) by (auto simp: net' list_ex_iff not_less)
  show "list_all2 (\<lambda>s s'. \<exists>w. stdp_step lm (tick_neurons net) (tick_fired net) (evidence_step (tick_count net) (tick_fired net) s) = Some w
       \<and> s' = tick_gate lm net w) (synapses net) (synapses net')"
    using ss by (auto simp: net' those_map tick_evidence_def list_all2_conv_all_nth)
qed

lemma evidence_step_simps [simp]:
  "s_from (evidence_step t fired s) = s_from s" "s_to (evidence_step t fired s) = s_to s"
  "s_weight (evidence_step t fired s) = s_weight s" "s_gate (evidence_step t fired s) = s_gate s"
  by (auto simp: evidence_step_def Let_def split: option.split)

lemma evaluate_gate_simps [simp]:
  "s_from (evaluate_gate s) = s_from s" "s_to (evaluate_gate s) = s_to s" "s_weight (evaluate_gate s) = s_weight s"
  "s_evidence (evaluate_gate s) = s_evidence s" "pending_pre_fire_tick (evaluate_gate s) = pending_pre_fire_tick s"
  by (simp_all add: evaluate_gate_def)

lemma tick_gate_simps [simp]:
  "s_from (tick_gate lm net s) = s_from s" "s_to (tick_gate lm net s) = s_to s" "s_weight (tick_gate lm net s) = s_weight s"
  "s_evidence (tick_gate lm net s) = s_evidence s" "pending_pre_fire_tick (tick_gate lm net s) = pending_pre_fire_tick s"
  by (simp_all add: tick_gate_def)

lemma stdp_stepE:
  assumes "stdp_step lm ns fired s = Some s'"
  obtains w where "s' = s\<lparr>s_weight := w\<rparr>" "expf_ok lm \<Longrightarrow> unit_range (s_weight s) \<Longrightarrow> unit_range w"
    "\<not> s_gate s \<Longrightarrow> w = s_weight s"
proof (cases "s_gate s \<and> (s_from s \<in> set fired \<or> s_to s \<in> set fired)")
  case True
  then show ?thesis using assms that by (auto simp: stdp_step_def intro: apply_stdp_range)
next
  case False
  then show ?thesis using assms that [of "s_weight s"] by (auto simp: stdp_step_def)
qed

section \<open>Well-formed networks\<close>

definition neuron_ok :: "nat \<Rightarrow> neuron \<Rightarrow> bool" where
  "neuron_ok t n \<longleftrightarrow> n_fires n \<le> 2 * t \<and> (\<forall>f. last_fire_tick n = Some f \<longrightarrow> f < t)
     \<and> refractory_remaining n \<le> refractory_ticks n"

definition synapse_ok :: "nat \<Rightarrow> nat \<Rightarrow> synapse \<Rightarrow> bool" where
  "synapse_ok t k s \<longleftrightarrow> s_from s < k \<and> s_to s < k \<and> (\<forall>p. pending_pre_fire_tick s = Some p \<longrightarrow> p < t)
     \<and> unit_range (s_evidence s)"

definition net_ok :: "network \<Rightarrow> bool" where
  "net_ok net \<longleftrightarrow> length (pending_stimulus net) = length (neurons net) \<and> distinct (map n_name (neurons net))
     \<and> list_all (neuron_ok (tick_count net)) (neurons net)
     \<and> list_all (synapse_ok (tick_count net) (length (neurons net))) (synapses net)
     \<and> beep_ticks_remaining net \<le> BEEP_DURATION_TICKS
     \<and> speaker net = (if beep_ticks_remaining net = 0 then None else Some BEEP_FREQ_HZ)"

lemma neuron_ok_mono: "neuron_ok t n \<Longrightarrow> t \<le> u \<Longrightarrow> neuron_ok u n"
  unfolding neuron_ok_def by (meson le_trans less_le_trans mult_le_mono2)

lemma synapse_ok_mono: "synapse_ok t k s \<Longrightarrow> t \<le> u \<Longrightarrow> k \<le> m \<Longrightarrow> synapse_ok u m s"
  unfolding synapse_ok_def by (meson less_le_trans)

lemma neuron_step_name [simp]: "n_name (snd (neuron_step t x n)) = n_name n"
  by (simp add: neuron_step_def Let_def)

lemma neuron_step_ok: "neuron_ok t n \<Longrightarrow> neuron_ok (Suc t) (snd (neuron_step t x n)) \<and> n_fires (snd (neuron_step t x n)) \<le> Suc (2 * t)"
  by (auto simp: neuron_step_def neuron_ok_def Let_def less_Suc_eq)

lemma evidence_step_ok: "synapse_ok t k s \<Longrightarrow> synapse_ok (Suc t) k (evidence_step t fired s)"
  by (auto simp: evidence_step_def synapse_ok_def Let_def unit_evidence less_Suc_eq split: option.splits)

lemma length_deliver [simp]: "length (deliver s stim) = length stim"
  by (simp add: deliver_def)

lemma length_fold_deliver [simp]: "length (fold deliver ss stim) = length stim"
  by (induction ss arbitrary: stim) simp_all

lemma length_propagate [simp]: "length (propagate ss fired stim) = length stim"
  unfolding propagate_def by (induction fired arbitrary: stim) simp_all

lemma tick_neurons_nth:
  "length (pending_stimulus net) = length (neurons net) \<Longrightarrow> i < length (neurons net) \<Longrightarrow>
   tick_neurons net ! i = snd (neuron_step (tick_count net) (pending_stimulus net ! i) (neurons net ! i))"
  by (simp add: tick_neurons_def tick_steps_def)

lemma length_tick_neurons: "length (pending_stimulus net) = length (neurons net) \<Longrightarrow> length (tick_neurons net) = length (neurons net)"
  by (simp add: tick_neurons_def tick_steps_def)

lemma tick_names: "length (pending_stimulus net) = length (neurons net) \<Longrightarrow> map n_name (tick_neurons net) = map n_name (neurons net)"
  by (rule nth_equalityI) (simp_all add: length_tick_neurons tick_neurons_nth)

lemma tick_neurons_ok:
  assumes "net_ok net"
  shows "list_all (\<lambda>n. neuron_ok (Suc (tick_count net)) n \<and> n_fires n \<le> 2 * tick_count net + 1) (tick_neurons net)"
proof -
  have l: "length (pending_stimulus net) = length (neurons net)" using assms by (simp add: net_ok_def)
  show ?thesis using assms
    by (auto simp: list_all_length length_tick_neurons [OF l] tick_neurons_nth [OF l] net_ok_def neuron_step_ok)
qed

lemma beep_step_ok:
  "beep_ticks_remaining net \<le> BEEP_DURATION_TICKS \<Longrightarrow> speaker net = (if beep_ticks_remaining net = 0 then None else Some BEEP_FREQ_HZ)
   \<Longrightarrow> beep_ticks_remaining (beep_step b net) \<le> BEEP_DURATION_TICKS
     \<and> speaker (beep_step b net) = (if beep_ticks_remaining (beep_step b net) = 0 then None else Some BEEP_FREQ_HZ)"
  by (auto simp: beep_step_def Let_def)

lemma net_tick_ok:
  assumes ok: "net_ok net" and r: "net_tick lm net = Some net'"
  shows "net_ok net'"
proof -
  note p = net_tick_parts [OF r]
  have l: "length (pending_stimulus net) = length (neurons net)" using ok by (simp add: net_ok_def)
  have "list_all (synapse_ok (tick_count net') (length (neurons net'))) (synapses net')"
  proof (unfold list_all_length, intro allI impI)
    fix i assume i: "i < length (synapses net')"
    let ?s = "synapses net ! i"
    have i': "i < length (synapses net)" using p(6) i by (simp add: list_all2_lengthD)
    obtain w where w: "stdp_step lm (tick_neurons net) (tick_fired net) (evidence_step (tick_count net) (tick_fired net) ?s) = Some w"
      "synapses net' ! i = tick_gate lm net w" using list_all2_nthD [OF p(6) i'] by blast
    have "synapse_ok (tick_count net) (length (neurons net)) ?s" using ok i' by (simp add: net_ok_def list_all_length)
    then have "synapse_ok (Suc (tick_count net)) (length (neurons net)) (evidence_step (tick_count net) (tick_fired net) ?s)"
      by (rule evidence_step_ok)
    then have "synapse_ok (Suc (tick_count net)) (length (neurons net)) w"
      using w(1) by (auto simp: synapse_ok_def elim!: stdp_stepE)
    then show "synapse_ok (tick_count net') (length (neurons net')) (synapses net' ! i)"
      unfolding w(2) by (simp add: synapse_ok_def p(1,3) length_tick_neurons [OF l])
  qed
  moreover have "beep_ticks_remaining net' \<le> BEEP_DURATION_TICKS
     \<and> speaker net' = (if beep_ticks_remaining net' = 0 then None else Some BEEP_FREQ_HZ)"
  proof -
    obtain b m where "net' = beep_step b m" "beep_ticks_remaining m = beep_ticks_remaining net" "speaker m = speaker net"
      using r by (auto simp: net_tick_alt split: if_splits)
    then show ?thesis using beep_step_ok [of m b] ok by (simp add: net_ok_def)
  qed
  moreover have "list_all (neuron_ok (tick_count net')) (neurons net')"
    using tick_neurons_ok [OF ok] by (simp add: p(1,3) list_all_iff)
  ultimately show ?thesis using ok l
    by (simp add: net_ok_def p(1,2,3) tick_names length_tick_neurons tick_stimulus_def)
qed

lemma apply_stdp_total:
  assumes "\<And>x. pre = Some x \<Longrightarrow> x < 2 ^ 63" "\<And>x. post = Some x \<Longrightarrow> x < 2 ^ 63"
  shows "apply_stdp lm w pre post \<noteq> None"
proof (cases "pre = None \<or> post = None")
  case True
  then show ?thesis by (cases pre) (auto simp: apply_stdp_def)
next
  case False
  then obtain x y where xy: "pre = Some x" "post = Some y" by auto
  then have "x < 2 ^ 63" "y < 2 ^ 63" using assms by auto
  then have "as_i64 x = int x" "as_i64 y = int y" "int x < 2 ^ 63" "int y < 2 ^ 63" by (simp_all add: as_i64_def)
  then show ?thesis by (simp add: apply_stdp_def xy Let_def)
qed

lemma net_tick_total:
  assumes ok: "net_ok net" and t: "tick_count net < 2 ^ 31"
  shows "net_tick lm net \<noteq> None"
proof -
  note n = tick_neurons_ok [OF ok]
  have l: "length (pending_stimulus net) = length (neurons net)" using ok by (simp add: net_ok_def)
  have "\<not> list_ex (\<lambda>n. u32_max < n_fires n) (tick_neurons net)"
    using n t by (fastforce simp: list_ex_iff list_all_iff)
  moreover have "tick_count net \<noteq> u64_max" using t by simp
  moreover have "stdp_step lm (tick_neurons net) (tick_fired net) s \<noteq> None" if "s \<in> set (tick_evidence net)" for s
  proof -
    from that obtain s0 where s0: "s0 \<in> set (synapses net)" "s = evidence_step (tick_count net) (tick_fired net) s0"
      by (auto simp: tick_evidence_def)
    then have "s_from s < length (neurons net)" "s_to s < length (neurons net)"
      using ok by (auto simp: net_ok_def list_all_iff synapse_ok_def)
    then have f: "neuron_ok (Suc (tick_count net)) (tick_neurons net ! s_from s)" "neuron_ok (Suc (tick_count net)) (tick_neurons net ! s_to s)"
      using n by (auto simp: list_all_length length_tick_neurons [OF l])
    have "apply_stdp lm (s_weight s) (last_fire_tick (tick_neurons net ! s_from s)) (last_fire_tick (tick_neurons net ! s_to s)) \<noteq> None"
      by (rule apply_stdp_total) (use f t in \<open>auto simp: neuron_ok_def\<close>)
    then show ?thesis by (simp add: stdp_step_def)
  qed
  then have "those (map (stdp_step lm (tick_neurons net) (tick_fired net)) (tick_evidence net)) \<noteq> None"
    unfolding those_map_None by blast
  ultimately show ?thesis by (simp add: net_tick_alt)
qed

section \<open>Commands\<close>

lemma find_neuron_None: "find_neuron net nm = None \<longleftrightarrow> nm \<notin> set (map n_name (neurons net))"
  by (auto simp: find_neuron_def position_None)

lemma find_neuron_less: "find_neuron net nm = Some i \<Longrightarrow> i < length (neurons net)"
  by (simp add: find_neuron_def position_Some)

lemma find_synapse_less: "find_synapse net i j = Some k \<Longrightarrow> k < length (synapses net)"
  by (simp add: find_synapse_def position_Some)

lemma add_neuron_ok: "net_ok net \<Longrightarrow> net_ok (snd (add_neuron nm th lk refr net))"
  by (auto simp: add_neuron_def net_ok_def find_neuron_None neuron_ok_def list_all_iff synapse_ok_def less_Suc_eq)

lemma add_synapse_ok: "net_ok net \<Longrightarrow> net_ok (snd (add_synapse from to w net))"
  by (auto simp: add_synapse_def net_ok_def synapse_ok_def INITIAL_EVIDENCE_def dest!: find_neuron_less split: option.split)

lemma stimulate_ok: "net_ok net \<Longrightarrow> net_ok (snd (stimulate nm x net))"
  by (auto simp: stimulate_def net_ok_def split: option.split)

lemma set_weight_ok:
  assumes "net_ok net"
  shows "net_ok (net\<lparr>synapses := (synapses net)[k := (synapses net ! k)\<lparr>s_weight := w\<rparr>]\<rparr>)"
  using assms by (cases "k < length (synapses net)") (auto simp: net_ok_def list_all_length nth_list_update synapse_ok_def)

lemma apply_synapse_weight_ok: "net_ok net \<Longrightarrow> net_ok (snd (apply_synapse_weight from to w net))"
  by (auto simp: apply_synapse_weight_def set_weight_ok split: option.split)

lemma snd_apply_entries:
  "snd (apply_entries ((f, t, w) # es) net) = snd (apply_entries es (snd (apply_synapse_weight f t w net)))"
  by (simp split: prod.split)

lemma apply_entries_ok: "net_ok net \<Longrightarrow> net_ok (snd (apply_entries es net))"
proof (induction es arbitrary: net)
  case (Cons e es)
  obtain f t w where e: "e = (f, t, w)" by (cases e)
  then show ?case using Cons.IH [OF apply_synapse_weight_ok [OF Cons.prems, of f t w]]
    by (simp only: snd_apply_entries)
qed simp

lemma neurons_init_ok: "net_ok net \<Longrightarrow> net_ok (snd (neurons_init d net))"
proof -
  assume n: "net_ok net"
  have "net_ok (seed_fixed_network LEFT_KEY RIGHT_KEY MOTOR KEY_THRESHOLD KEY_LEAK MOTOR_THRESHOLD MOTOR_LEAK
                  REFRACTORY_TICKS INITIAL_WEIGHT INITIAL_WEIGHT net)"
    using n by (simp add: seed_fixed_network_def Let_def add_neuron_ok add_synapse_ok)
  then show ?thesis by (auto simp: neurons_init_def Let_def split: option.split prod.split dest: apply_entries_ok) (metis apply_entries_ok snd_conv)
qed

lemma net_ok_later:
  assumes ok: "net_ok net" and t: "tick_count net \<le> t"
    and l: "length ns = length (neurons net)" "map n_name ns = map n_name (neurons net)" and n: "list_all (neuron_ok t) ns"
  shows "net_ok (net\<lparr>neurons := ns, tick_count := t\<rparr>)"
proof -
  have "list_all (synapse_ok t (length ns)) (synapses net)"
    using ok t l(1) by (auto simp: net_ok_def list_all_iff intro: synapse_ok_mono)
  then show ?thesis using assms by (simp add: net_ok_def)
qed

lemma fire_at_simps [simp]: "n_name (fire_at t n) = n_name n" "last_fire_tick (fire_at t n) = Some t" "n_fires (fire_at t n) = Suc (n_fires n)"
  "refractory_remaining (fire_at t n) = refractory_remaining n" "refractory_ticks (fire_at t n) = refractory_ticks n"
  by (simp_all add: fire_at_def)

definition train_neurons :: "nat \<Rightarrow> nat \<Rightarrow> nat \<Rightarrow> nat \<Rightarrow> neuron list \<Rightarrow> neuron list" where
  "train_neurons a ta b tb ns = (let ns = ns[a := fire_at ta (ns ! a)] in ns[b := fire_at tb (ns ! b)])"

lemma train_synapse_alt:
  "train_synapse lm from to gap pre_first net =
     (case find_neuron net from of
        None \<Rightarrow> Some (Inl (NoSuchNeuron from), net)
      | Some i \<Rightarrow>
          (case find_neuron net to of
             None \<Rightarrow> Some (Inl (NoSuchNeuron to), net)
           | Some j \<Rightarrow>
               (case find_synapse net i j of
                  None \<Rightarrow> Some (Inl (NoSuchSynapse from to), net)
                | Some k \<Rightarrow>
                    let t = tick_count net; before = s_weight (synapses net ! k);
                        ns = (if pre_first then train_neurons i t j (t + gap) (neurons net) else train_neurons j t i (t + gap) (neurons net))
                    in if u64_max < t + gap + 1 \<or> list_ex (\<lambda>n. u32_max < n_fires n) ns then None
                       else map_option (\<lambda>w. (Inr (before, w), (net\<lparr>neurons := ns, tick_count := t + gap + 1\<rparr>)
                              \<lparr>synapses := (synapses net)[k := (synapses net ! k)\<lparr>s_weight := w\<rparr>]\<rparr>))
                            (apply_stdp lm before (last_fire_tick (ns ! i)) (last_fire_tick (ns ! j))))))"
  by (auto simp: train_synapse_def train_neurons_def Let_def split: option.split)

lemma train_neurons_names [simp]: "length (train_neurons a ta b tb ns) = length ns"
  by (simp add: train_neurons_def Let_def)

lemma train_neurons_map: "a < length ns \<Longrightarrow> b < length ns \<Longrightarrow> map n_name (train_neurons a ta b tb ns) = map n_name ns"
  by (rule nth_equalityI) (auto simp: train_neurons_def Let_def nth_list_update)

lemma train_neurons_ok:
  assumes "list_all (neuron_ok t) ns" "a < length ns" "b < length ns" "t \<le> u"
  shows "list_all (\<lambda>n. neuron_ok (Suc u) n \<and> n_fires n \<le> 2 * t + 2) (train_neurons a t b u ns)"
proof (unfold list_all_length train_neurons_names, intro allI impI)
  fix i assume i: "i < length ns"
  have ok: "neuron_ok t (ns ! i)" using assms(1) i by (simp add: list_all_length)
  then have "neuron_ok (Suc u) (ns ! i)" using assms(4) by (intro neuron_ok_mono [OF ok]) simp
  then show "neuron_ok (Suc u) (train_neurons a t b u ns ! i) \<and> n_fires (train_neurons a t b u ns ! i) \<le> 2 * t + 2"
    using ok i assms(2,3,4) by (auto simp: train_neurons_def Let_def nth_list_update neuron_ok_def)
qed

lemma train_synapseE:
  assumes "train_synapse lm from to gap pre_first net = Some (x, net')"
  obtains "net' = net" | i j k a b u v w where "find_neuron net from = Some i" "find_neuron net to = Some j" "{a, b} = {i, j}"
    "find_synapse net i j = Some k" "apply_stdp lm (s_weight (synapses net ! k)) u v = Some w"
    "net' = (net\<lparr>neurons := train_neurons a (tick_count net) b (tick_count net + gap) (neurons net), tick_count := tick_count net + gap + 1\<rparr>)
              \<lparr>synapses := (synapses net)[k := (synapses net ! k)\<lparr>s_weight := w\<rparr>]\<rparr>"
proof (cases "net' = net")
  case False
  then obtain i j k where k: "find_neuron net from = Some i" "find_neuron net to = Some j" "find_synapse net i j = Some k"
    using assms by (auto simp: train_synapse_alt simp del: map_option_eq_Some split: option.splits)
  show thesis
  proof (cases pre_first)
    case True
    let ?ns = "train_neurons i (tick_count net) j (tick_count net + gap) (neurons net)"
    obtain w where "apply_stdp lm (s_weight (synapses net ! k)) (last_fire_tick (?ns ! i)) (last_fire_tick (?ns ! j)) = Some w"
      "net' = (net\<lparr>neurons := ?ns, tick_count := tick_count net + gap + 1\<rparr>)
              \<lparr>synapses := (synapses net)[k := (synapses net ! k)\<lparr>s_weight := w\<rparr>]\<rparr>"
      using assms True k by (auto simp: train_synapse_alt Let_def split: if_splits)
    then show thesis using that(2) [OF k(1,2) refl k(3)] by blast
  next
    case False
    let ?ns = "train_neurons j (tick_count net) i (tick_count net + gap) (neurons net)"
    obtain w where "apply_stdp lm (s_weight (synapses net ! k)) (last_fire_tick (?ns ! i)) (last_fire_tick (?ns ! j)) = Some w"
      "net' = (net\<lparr>neurons := ?ns, tick_count := tick_count net + gap + 1\<rparr>)
              \<lparr>synapses := (synapses net)[k := (synapses net ! k)\<lparr>s_weight := w\<rparr>]\<rparr>"
      using assms False k by (auto simp: train_synapse_alt Let_def split: if_splits)
    then show thesis using that(2) [OF k(1,2) insert_commute k(3)] by blast
  qed
qed (use that in blast)

lemma train_synapse_ok:
  assumes ok: "net_ok net" and r: "train_synapse lm from to gap pre_first net = Some (x, net')"
  shows "net_ok net' \<and> tick_count net \<le> tick_count net'"
  using r
proof (cases rule: train_synapseE)
  case (2 i j k a b u v w)
  then have ab: "a < length (neurons net)" "b < length (neurons net)" by (auto simp: doubleton_eq_iff dest: find_neuron_less)
  have n: "list_all (neuron_ok (tick_count net)) (neurons net)" using ok by (simp add: net_ok_def)
  have "net_ok (net\<lparr>neurons := train_neurons a (tick_count net) b (tick_count net + gap) (neurons net), tick_count := tick_count net + gap + 1\<rparr>)"
    using train_neurons_ok [OF n ab, of "tick_count net + gap"] ab
    by (intro net_ok_later [OF ok]) (auto simp: train_neurons_map list_all_iff)
  from set_weight_ok [OF this, of k w] show ?thesis by (simp add: 2)
qed (use ok in simp)

lemma train_synapse_total:
  assumes ok: "net_ok net" and t: "tick_count net + gap < 2 ^ 31 - 1"
  shows "train_synapse lm from to gap pre_first net \<noteq> None"
proof -
  have n: "list_all (neuron_ok (tick_count net)) (neurons net)" using ok by (simp add: net_ok_def)
  have "\<not> list_ex (\<lambda>n. u32_max < n_fires n) (train_neurons a (tick_count net) b (tick_count net + gap) (neurons net))
      \<and> (\<forall>i < length (neurons net). \<forall>x. last_fire_tick (train_neurons a (tick_count net) b (tick_count net + gap) (neurons net) ! i) = Some x \<longrightarrow> x < 2 ^ 63)"
    if "a < length (neurons net)" "b < length (neurons net)" for a b
    using train_neurons_ok [OF n that, of "tick_count net + gap"] t
    by (fastforce simp: list_ex_length list_all_length neuron_ok_def not_less)
  then show ?thesis using t
    by (auto simp: train_synapse_alt Let_def apply_stdp_total [unfolded not_None_eq] dest!: find_neuron_less split: option.split)
qed

section \<open>Histories\<close>

text \<open>What drives the network: the timer, the keyboard, the shell's \<open>net\<close> commands and its \<open>train\<close>.\<close>

datatype net_op = Tick | KeyPress nat | Line bytes | Trial bool nat

definition net_do :: "libm \<Rightarrow> net_op \<Rightarrow> network \<Rightarrow> network option" where
  "net_do lm x net =
     (case x of
        Tick \<Rightarrow> net_tick lm net
      | KeyPress c \<Rightarrow> Some (on_key_stimulus c net)
      | Line l \<Rightarrow> map_option snd (run_dsl_line lm l net)
      | Trial ltp gap \<Rightarrow> run_training_trial lm ltp gap net)"

fun net_run :: "libm \<Rightarrow> net_op list \<Rightarrow> network \<Rightarrow> network option" where
  "net_run lm [] net = Some net"
| "net_run lm (x # xs) net = (case net_do lm x net of None \<Rightarrow> None | Some net \<Rightarrow> net_run lm xs net)"

definition booted_net :: "disk \<Rightarrow> network" where
  "booted_net d = snd (neurons_init d empty_network)"

text \<open>The ticks an operation takes, and those of a history.\<close>

definition op_ticks :: "net_op \<Rightarrow> nat" where
  "op_ticks x =
     (case x of
        Tick \<Rightarrow> 1
      | Trial _ gap \<Rightarrow> gap + 1
      | Line l \<Rightarrow> (case split_whitespace l of [c, _, _, g] \<Rightarrow> if c = bytes_of ''train'' then or_else (parse_uint 64 g) 2 + 1 else 0 | _ \<Rightarrow> 0)
      | KeyPress _ \<Rightarrow> 0)"

definition run_ticks :: "net_op list \<Rightarrow> nat" where
  "run_ticks xs = sum_list (map op_ticks xs)"

lemma train_synapse_ticks:
  "train_synapse lm from to gap pre_first net = Some (x, net') \<Longrightarrow> tick_count net' \<le> tick_count net + gap + 1"
  by (auto simp: train_synapse_alt Let_def split: option.splits if_splits)

definition good_step :: "nat \<Rightarrow> network \<Rightarrow> network option \<Rightarrow> bool" where
  "good_step k net r \<longleftrightarrow> (\<exists>net'. r = Some net' \<and> net_ok net' \<and> tick_count net' \<le> tick_count net + k)"

lemma good_train:
  "net_ok net \<Longrightarrow> tick_count net + gap < 2 ^ 31 - 1 \<Longrightarrow> good_step (gap + 1) net (map_option snd (train_synapse lm from to gap pre_first net))"
  using train_synapse_total [of net gap lm "from" to pre_first] train_synapse_ok [of net lm "from" to gap pre_first]
    train_synapse_ticks [of lm "from" to gap pre_first net]
  by (fastforce simp: good_step_def)

lemma tick_count_simps [simp]:
  "tick_count (snd (add_neuron nm th lk refr net)) = tick_count net" "tick_count (snd (add_synapse from to w net)) = tick_count net"
  "tick_count (snd (stimulate nm x net)) = tick_count net"
  by (auto simp: add_neuron_def add_synapse_def stimulate_def split: option.split)

lemma snd_dsl_result: "map_option snd (dsl_result r) = Some (snd r)"
  by (simp add: dsl_result_def)

lemma snd_trained: "map_option snd (case r of None \<Rightarrow> None | Some (Inr (b, a), net) \<Rightarrow> Some (Trained b a gap, net) | Some (Inl e, net) \<Rightarrow> Some (DslError e, net))
   = map_option snd r"
  by (auto split: option.split sum.split prod.split)

lemma good_pure: "net_ok net' \<Longrightarrow> tick_count net' = tick_count net \<Longrightarrow> good_step 0 net (Some net')"
  by (simp add: good_step_def)

lemma good_dsl_line:
  assumes ok: "net_ok net" and t: "tick_count net + op_ticks (Line l) < 2 ^ 31"
  shows "good_step (op_ticks (Line l)) net (map_option snd (run_dsl_line lm l net))"
proof (cases "split_whitespace l")
  case Nil
  then show ?thesis using ok by (simp add: run_dsl_line_def Let_def good_step_def)
next
  case (Cons c args)
  show ?thesis
  proof (cases "c = bytes_of ''train''")
    case True
    then have c: "c \<noteq> bytes_of ''addneuron''" "c \<noteq> bytes_of ''addsynapse''" "c \<noteq> bytes_of ''stim''" by (simp_all add: bytes_of_def)
    show ?thesis
    proof (cases "\<exists>x y g. args = [x, y, g]")
      case True
      then obtain x y g where a: "args = [x, y, g]" by blast
      have "op_ticks (Line l) = or_else (parse_uint 64 g) 2 + 1" using Cons a \<open>c = _\<close> by (simp add: op_ticks_def)
      then show ?thesis using good_train [OF ok, of "or_else (parse_uint 64 g) 2" lm x y True] t Cons a c \<open>c = _\<close>
        by (simp add: run_dsl_line_def Let_def snd_trained)
    next
      case False
      then show ?thesis using Cons c ok \<open>c = _\<close> by (auto simp: run_dsl_line_def Let_def good_step_def split: list.split)
    qed
  next
    case False
    have k: "good_step (op_ticks (Line l)) net (Some net')" if "net_ok net'" "tick_count net' = tick_count net" for net'
      using that by (simp add: good_step_def)
    show ?thesis using Cons False ok
      by (auto simp: run_dsl_line_def Let_def snd_dsl_result intro!: k split: list.split prod.split intro: add_neuron_ok add_synapse_ok stimulate_ok)
  qed
qed

lemma good_op:
  assumes ok: "net_ok net" and t: "tick_count net + op_ticks x < 2 ^ 31"
  shows "good_step (op_ticks x) net (net_do lm x net)"
proof (cases x)
  case Tick
  then obtain net' where r: "net_tick lm net = Some net'" using net_tick_total [OF ok, of lm] t by (auto simp: op_ticks_def)
  then show ?thesis using net_tick_ok [OF ok r] net_tick_parts(3) [OF r] Tick by (simp add: good_step_def net_do_def op_ticks_def)
next
  case (KeyPress c)
  then show ?thesis using ok by (simp add: net_do_def op_ticks_def on_key_stimulus_def good_step_def stimulate_ok)
next
  case (Line l)
  then show ?thesis using good_dsl_line [OF ok] t by (simp add: net_do_def)
next
  case (Trial ltp gap)
  then show ?thesis using good_train [OF ok, of gap] t by (simp add: net_do_def op_ticks_def run_training_trial_def)
qed

lemma good_run:
  "net_ok net \<Longrightarrow> tick_count net + run_ticks xs < 2 ^ 31 \<Longrightarrow> good_step (run_ticks xs) net (net_run lm xs net)"
proof (induction xs arbitrary: net)
  case (Cons x xs)
  then obtain net1 where 1: "net_do lm x net = Some net1" "net_ok net1" "tick_count net1 \<le> tick_count net + op_ticks x"
    using good_op [of net x lm] by (auto simp: run_ticks_def good_step_def)
  then have "good_step (run_ticks xs) net1 (net_run lm xs net1)" using Cons by (simp add: run_ticks_def)
  then show ?case using 1 by (auto simp: good_step_def run_ticks_def)
qed (simp add: good_step_def run_ticks_def)

lemma empty_network_ok: "net_ok empty_network"
  by (simp add: net_ok_def empty_network_def)

lemma apply_entries_tick: "tick_count (snd (apply_entries es net)) = tick_count net"
proof (induction es arbitrary: net)
  case (Cons e es)
  obtain f t w where e: "e = (f, t, w)" by (cases e)
  have "tick_count (snd (apply_synapse_weight f t w net)) = tick_count net"
    by (auto simp: apply_synapse_weight_def split: option.split)
  then show ?case using Cons [of "snd (apply_synapse_weight f t w net)"] by (simp only: e snd_apply_entries)
qed simp

lemma booted_ok: "net_ok (booted_net d)" "tick_count (booted_net d) = 0"
proof -
  show "net_ok (booted_net d)" by (simp add: booted_net_def neurons_init_ok empty_network_ok)
  have "tick_count (seed_fixed_network LEFT_KEY RIGHT_KEY MOTOR KEY_THRESHOLD KEY_LEAK MOTOR_THRESHOLD MOTOR_LEAK
      REFRACTORY_TICKS INITIAL_WEIGHT INITIAL_WEIGHT empty_network) = 0"
    by (simp add: seed_fixed_network_def Let_def empty_network_def)
  then show "tick_count (booted_net d) = 0"
    by (auto simp: booted_net_def neurons_init_def Let_def split: option.split prod.split) (metis apply_entries_tick snd_conv)
qed

text \<open>
  C19. The network never panics: any history of timer ticks, key presses, command lines and
  training trials that takes fewer than \<open>2 ^ 31\<close> ticks (over three years of timer ticks) runs to
  its end from the booted network, whatever the drive holds and whatever the lines say, and leaves
  a well-formed network: every synapse between existing neurons, names unique, no spike in the
  future, every evidence between 0 and 1, and the speaker on exactly while its countdown runs.
\<close>

theorem network_never_panics:
  assumes "run_ticks xs < 2 ^ 31"
  shows "\<exists>net. net_run lm xs (booted_net d) = Some net \<and> net_ok net \<and> tick_count net \<le> run_ticks xs"
  using good_run [OF booted_ok(1) [of d], of xs lm] assms by (simp add: booted_ok good_step_def)

theorem network_never_panics_witness:
  "\<exists>net. net_run demo_libm [Tick, KeyPress 97, Tick, Line (bytes_of ''train LeftKey Motor 2'')] (booted_net blank_disk) = Some net \<and> net_ok net"
proof -
  have "op_ticks (Line (bytes_of ''train LeftKey Motor 2'')) = 3"
    by (simp add: op_ticks_def split_whitespace_def is_space_def bytes_of_def parse_uint_def digits_value_def is_digit_def or_else_def)
  then have "run_ticks [Tick, KeyPress 97, Tick, Line (bytes_of ''train LeftKey Motor 2'')] < 2 ^ 31"
    by (simp add: run_ticks_def op_ticks_def)
  then show ?thesis using network_never_panics [of _ demo_libm blank_disk] by metis
qed

section \<open>What a history keeps\<close>

definition keeps :: "libm \<Rightarrow> network \<Rightarrow> network \<Rightarrow> bool" where
  "keeps lm net net' \<longleftrightarrow> take (length (neurons net)) (map n_name (neurons net')) = map n_name (neurons net)
     \<and> length (synapses net) \<le> length (synapses net')
     \<and> (\<forall>k < length (synapses net). s_from (synapses net' ! k) = s_from (synapses net ! k) \<and> s_to (synapses net' ! k) = s_to (synapses net ! k)
          \<and> (expf_ok lm \<longrightarrow> unit_range (s_weight (synapses net ! k)) \<longrightarrow> unit_range (s_weight (synapses net' ! k))))"

lemma keeps_refl: "keeps lm net net"
  by (simp add: keeps_def)

lemma keeps_trans: "keeps lm a b \<Longrightarrow> keeps lm b c \<Longrightarrow> keeps lm a c"
proof -
  assume ab: "keeps lm a b" and bc: "keeps lm b c"
  have len: "length (neurons a) \<le> length (neurons b)" using ab unfolding keeps_def
    by (metis length_map length_take min.cobounded1)
  have "take (length (neurons a)) (map n_name (neurons c)) = take (length (neurons a)) (take (length (neurons b)) (map n_name (neurons c)))"
    using len by (simp add: min_def)
  also have "\<dots> = map n_name (neurons a)" using ab bc by (simp add: keeps_def)
  finally show ?thesis using ab bc by (simp add: keeps_def)
qed

lemma keeps_tick:
  assumes ok: "net_ok net" and r: "net_tick lm net = Some net'"
  shows "keeps lm net net'"
proof -
  note p = net_tick_parts [OF r]
  have l: "length (pending_stimulus net) = length (neurons net)" using ok by (simp add: net_ok_def)
  have "s_from (synapses net' ! k) = s_from (synapses net ! k) \<and> s_to (synapses net' ! k) = s_to (synapses net ! k)
      \<and> (expf_ok lm \<longrightarrow> unit_range (s_weight (synapses net ! k)) \<longrightarrow> unit_range (s_weight (synapses net' ! k)))"
    if "k < length (synapses net)" for k
    using list_all2_nthD [OF p(6) that] by (auto elim!: stdp_stepE)
  moreover have "length (synapses net') = length (synapses net)" using p(6) by (simp add: list_all2_lengthD)
  ultimately show ?thesis by (simp add: keeps_def p(1) tick_names [OF l])
qed

lemma keeps_train:
  assumes r: "train_synapse lm from to gap pre_first net = Some (x, net')"
  shows "keeps lm net net'"
  using r
proof (cases rule: train_synapseE)
  case (2 i j k a b u v w)
  then have ab: "a < length (neurons net)" "b < length (neurons net)" "k < length (synapses net)"
    by (auto simp: doubleton_eq_iff dest: find_neuron_less find_synapse_less)
  have "unit_range w" if "expf_ok lm" "unit_range (s_weight (synapses net ! k))" by (rule apply_stdp_range [OF that 2(5)])
  then show ?thesis using ab by (auto simp: keeps_def 2(6) train_neurons_map nth_list_update)
qed (simp add: keeps_refl)

lemma keeps_simple:
  "keeps lm net (snd (add_neuron nm th lk refr net))" "keeps lm net (snd (add_synapse from to w net))"
  "keeps lm net (snd (stimulate nm x net))"
  by (auto simp: keeps_def add_neuron_def add_synapse_def stimulate_def nth_append split: option.split)

lemma keeps_op:
  assumes ok: "net_ok net" and r: "net_do lm x net = Some net'"
  shows "net_ok net' \<and> keeps lm net net'"
proof (cases x)
  case Tick
  then show ?thesis using r net_tick_ok [OF ok] keeps_tick [OF ok] by (simp add: net_do_def)
next
  case (KeyPress c)
  then show ?thesis using r ok by (auto simp: net_do_def on_key_stimulus_def stimulate_ok keeps_simple keeps_refl)
next
  case (Line l)
  consider "net' = net" | nm th lk refr where "net' = snd (add_neuron nm th lk refr net)"
    | f t w where "net' = snd (add_synapse f t w net)" | nm y where "net' = snd (stimulate nm y net)"
    | f t gap y where "train_synapse lm f t gap True net = Some (y, net')"
    using r Line
    by (auto simp: net_do_def run_dsl_line_def Let_def dsl_result_def split: list.splits option.splits sum.splits prod.splits if_splits)
  then show ?thesis
    by cases (auto simp: ok keeps_simple keeps_refl add_neuron_ok add_synapse_ok stimulate_ok keeps_train dest: train_synapse_ok [OF ok])
next
  case (Trial ltp gap)
  then show ?thesis using r by (auto simp: net_do_def run_training_trial_def keeps_train dest: train_synapse_ok [OF ok])
qed

lemma keeps_run: "net_ok net \<Longrightarrow> net_run lm xs net = Some net' \<Longrightarrow> net_ok net' \<and> keeps lm net net'"
proof (induction xs arbitrary: net)
  case (Cons x xs)
  then obtain net1 where "net_do lm x net = Some net1" "net_run lm xs net1 = Some net'" by (auto split: option.splits)
  then show ?case using keeps_op [OF Cons.prems(1)] Cons.IH [of net1] by (blast intro: keeps_trans)
qed (simp add: keeps_refl)

section \<open>The booted network\<close>

lemma decode_range: "unit_range (decode_weight bs)"
proof -
  let ?s = "trits_value (unpack_ternary bs TRITS_PER_WEIGHT)" and ?D = "59048 * 2 ^ 149 :: nat"
  have "?s < 3 ^ length (unpack_ternary bs TRITS_PER_WEIGHT)" by (rule trits_value_less [OF unpack_trits(1)])
  also have "(3 :: nat) ^ length (unpack_ternary bs TRITS_PER_WEIGHT) \<le> 3 ^ 10"
    using unpack_trits(2) [of bs TRITS_PER_WEIGHT] by (intro power_increasing) simp_all
  finally have s: "?s \<le> 59048" by simp
  have d: "decode_weight bs = f_round (int ?s * 2 ^ 149 * 2 ^ 149) ?D"
    using s f_of_nat_exact [of ?s] by (simp add: decode_weight_def max_digit [simplified] f_div_def)
  have "int ?s * 2 ^ 149 * 2 ^ 149 \<le> 59048 * 2 ^ 149 * 2 ^ 149" using s by simp
  then have "nat (int ?s * 2 ^ 149 * 2 ^ 149) \<le> ?D * 2 ^ 149" by (simp add: nat_le_iff)
  then show ?thesis using f_round_nonneg [of "int ?s * 2 ^ 149 * 2 ^ 149" ?D 149] by (auto simp: d)
qed

lemma get_entries_range: "(f, t, w) \<in> set (get_entries n off buf) \<Longrightarrow> unit_range w"
  by (induction n arbitrary: off) (auto simp: decode_range)

lemma load_weights_range: "load_weights d = Some es \<Longrightarrow> (f, t, w) \<in> set es \<Longrightarrow> unit_range w"
  by (auto simp: load_weights_def Let_def get_entries_range split: sum.splits if_splits)

lemma name_neq [simp]: "LEFT_KEY \<noteq> RIGHT_KEY" "LEFT_KEY \<noteq> MOTOR" "RIGHT_KEY \<noteq> MOTOR"
  "RIGHT_KEY \<noteq> LEFT_KEY" "MOTOR \<noteq> LEFT_KEY" "MOTOR \<noteq> RIGHT_KEY"
  by (simp_all add: LEFT_KEY_def RIGHT_KEY_def MOTOR_def bytes_of_def)

definition ends :: "synapse \<Rightarrow> nat \<times> nat" where
  "ends s = (s_from s, s_to s)"

definition fixed_shape :: "network \<Rightarrow> bool" where
  "fixed_shape net \<longleftrightarrow> map n_name (neurons net) = [LEFT_KEY, RIGHT_KEY, MOTOR] \<and> map ends (synapses net) = [(0, 2), (1, 2)]
     \<and> list_all (\<lambda>s. unit_range (s_weight s)) (synapses net)"

lemma initial_weight: "unit_range INITIAL_WEIGHT"
  by (simp add: INITIAL_WEIGHT_def f32_eval)

lemma seeded_shape:
  "fixed_shape (seed_fixed_network LEFT_KEY RIGHT_KEY MOTOR KEY_THRESHOLD KEY_LEAK MOTOR_THRESHOLD MOTOR_LEAK
     REFRACTORY_TICKS INITIAL_WEIGHT INITIAL_WEIGHT empty_network)"
  by (simp add: seed_fixed_network_def Let_def empty_network_def find_neuron_def add_neuron_def add_synapse_def fixed_shape_def ends_def
      initial_weight)

lemma apply_weight_shape:
  assumes "fixed_shape net" "unit_range w"
  shows "fixed_shape (snd (apply_synapse_weight f t w net))"
proof -
  have "map ends ((synapses net)[k := (synapses net ! k)\<lparr>s_weight := w\<rparr>]) = map ends (synapses net)" for k
    by (cases "k < length (synapses net)") (auto simp: map_update ends_def list_update_same_conv list_update_beyond)
  moreover have "list_all (\<lambda>s. unit_range (s_weight s)) ((synapses net)[k := (synapses net ! k)\<lparr>s_weight := w\<rparr>])" for k
    using assms by (cases "k < length (synapses net)") (auto simp: fixed_shape_def list_all_length nth_list_update)
  ultimately show ?thesis using assms(1) by (auto simp: apply_synapse_weight_def fixed_shape_def split: option.split)
qed

lemma apply_entries_shape:
  "fixed_shape net \<Longrightarrow> (\<And>f t w. (f, t, w) \<in> set es \<Longrightarrow> unit_range w) \<Longrightarrow> fixed_shape (snd (apply_entries es net))"
proof (induction es arbitrary: net)
  case (Cons e es)
  obtain f t w where e: "e = (f, t, w)" by (cases e)
  have "unit_range w" using Cons.prems(2) [of f t w] by (simp add: e)
  from Cons.IH [OF apply_weight_shape [OF Cons.prems(1) this]] Cons.prems(2) show ?case
    by (simp only: e snd_apply_entries) (meson list.set_intros(2))
qed simp

lemma snd_neurons_init:
  "snd (neurons_init d net) =
     (let net = seed_fixed_network LEFT_KEY RIGHT_KEY MOTOR KEY_THRESHOLD KEY_LEAK MOTOR_THRESHOLD MOTOR_LEAK
                  REFRACTORY_TICKS INITIAL_WEIGHT INITIAL_WEIGHT net
      in case load_weights d of None \<Rightarrow> net | Some es \<Rightarrow> snd (apply_entries es net))"
  by (simp add: neurons_init_def Let_def split: option.split prod.split)

lemma booted_shape: "fixed_shape (booted_net d)"
  unfolding booted_net_def snd_neurons_init Let_def
  by (cases "load_weights d") (use seeded_shape apply_entries_shape load_weights_range in auto)

text \<open>The three neurons and the two synapses keep their places for ever.\<close>

lemma fixed_places:
  assumes r: "net_run lm xs (booted_net d) = Some net"
  shows "find_neuron net LEFT_KEY = Some 0" "find_neuron net RIGHT_KEY = Some 1" "find_neuron net MOTOR = Some 2"
    "named_synapse net LEFT_KEY MOTOR = Some 0" "named_synapse net RIGHT_KEY MOTOR = Some 1"
    "expf_ok lm \<Longrightarrow> unit_range (s_weight (synapses net ! 0)) \<and> unit_range (s_weight (synapses net ! 1))"
    "net_ok net" "1 < length (synapses net)"
proof -
  note k = keeps_run [OF booted_ok(1) r]
  note b = booted_shape [of d, unfolded fixed_shape_def]
  have len: "length (neurons (booted_net d)) = 3" "length (synapses (booted_net d)) = 2"
    using b [THEN conjunct1, THEN arg_cong, of length] b [THEN conjunct2, THEN conjunct1, THEN arg_cong, of length] by simp_all
  have t: "take 3 (map n_name (neurons net)) = [LEFT_KEY, RIGHT_KEY, MOTOR]" using k b by (simp add: keeps_def len)
  have "length (take 3 (map n_name (neurons net))) = 3" unfolding t by simp
  then have l: "2 < length (neurons net)" by (simp add: min_def split: if_splits)
  then have l0: "neurons net \<noteq> []" by auto
  have n: "n_name (neurons net ! 0) = LEFT_KEY" "n_name (neurons net ! 1) = RIGHT_KEY" "n_name (neurons net ! 2) = MOTOR"
    using l l0 nth_take [of 0 3 "map n_name (neurons net)"] nth_take [of 1 3 "map n_name (neurons net)"]
      nth_take [of 2 3 "map n_name (neurons net)"] nth_map [of 0 "neurons net" n_name] unfolding t by simp_all
  then show f: "find_neuron net LEFT_KEY = Some 0" "find_neuron net RIGHT_KEY = Some 1" "find_neuron net MOTOR = Some 2"
    using l by (auto simp: find_neuron_def position_Some less_2_cases_iff)
  show s: "1 < length (synapses net)" using k by (simp add: keeps_def len)
  have e: "ends (synapses (booted_net d) ! 0) = (0, 2)" "ends (synapses (booted_net d) ! 1) = (1, 2)"
    using b [THEN conjunct2, THEN conjunct1] nth_map [of 0 "synapses (booted_net d)" ends] nth_map [of 1 "synapses (booted_net d)" ends]
    by (simp_all add: len)
  then have "s_from (synapses net ! 0) = 0 \<and> s_to (synapses net ! 0) = 2" "s_from (synapses net ! 1) = 1 \<and> s_to (synapses net ! 1) = 2"
    using k by (auto simp: keeps_def len ends_def)
  then show "named_synapse net LEFT_KEY MOTOR = Some 0" "named_synapse net RIGHT_KEY MOTOR = Some 1"
    using s by (auto simp: named_synapse_def f find_synapse_def position_Some)
  show "expf_ok lm \<Longrightarrow> unit_range (s_weight (synapses net ! 0)) \<and> unit_range (s_weight (synapses net ! 1))"
    using k b by (auto simp: keeps_def len list_all_length)
  show "net_ok net" using k by blast
qed

text \<open>
  C36. The weights of the two fixed synapses exist for ever and stay between 0 and 1: from boot,
  whatever the drive holds, over any history of ticks, key presses, command lines and training
  trials, if the exponential of a non-positive number lies between 0 and 1.
\<close>

theorem weights_stay_in_range:
  assumes "expf_ok lm" "net_run lm xs (booted_net d) = Some net"
  shows "\<exists>l r. synapse_weight net LEFT_KEY MOTOR = Some l \<and> unit_range l \<and> left_to_motor_weight net = l
    \<and> synapse_weight net RIGHT_KEY MOTOR = Some r \<and> unit_range r"
  using fixed_places(4-6) [OF assms(2)] assms(1) by (simp add: synapse_weight_def left_to_motor_weight_def)

theorem weights_stay_in_range_witness:
  "\<exists>l. synapse_weight (on_key_stimulus 97 (booted_net blank_disk)) LEFT_KEY MOTOR = Some l \<and> unit_range l"
  using weights_stay_in_range [OF demo_libm_ok(2), of "[KeyPress 97]" blank_disk] by (auto simp: net_do_def)

text \<open>
  A training gap that does not fit brings the kernel down: at any time after boot the command
  line \<open>train LeftKey Motor 18446744073709551615\<close> overflows the tick counter and panics.
\<close>

theorem train_gap_panics:
  assumes "net_run lm xs (booted_net d) = Some net"
  shows "run_dsl_line lm (bytes_of ''train LeftKey Motor 18446744073709551615'') net = None"
proof -
  have w: "split_whitespace (bytes_of ''train LeftKey Motor 18446744073709551615'')
      = [bytes_of ''train'', LEFT_KEY, MOTOR, bytes_of ''18446744073709551615'']"
    by (simp add: split_whitespace_def is_space_def bytes_of_def LEFT_KEY_def MOTOR_def)
  have g: "parse_uint 64 (bytes_of ''18446744073709551615'') = Some u64_max"
    by (simp add: parse_uint_def bytes_of_def is_digit_def digits_value_def)
  have "train_synapse lm LEFT_KEY MOTOR u64_max True net = None"
    using fixed_places(1,3,4) [OF assms] by (simp add: train_synapse_alt named_synapse_def Let_def)
  moreover have "bytes_of ''train'' \<noteq> bytes_of x" if "x \<in> {''addneuron'', ''addsynapse'', ''stim''}" for x
    using that by (auto simp: bytes_of_def)
  ultimately show ?thesis by (simp add: run_dsl_line_def Let_def w g or_else_def)
qed

theorem train_gap_panics_witness:
  "run_dsl_line demo_libm (bytes_of ''train LeftKey Motor 18446744073709551615'') (booted_net blank_disk) = None"
  by (rule train_gap_panics [of demo_libm "[]" blank_disk]) simp

section \<open>Dormant synapses\<close>

lemma tick_gate_change:
  "s_gate (tick_gate lm net s) = s_gate s
    \<or> tick_count net mod golden_period lm FAST_TAU_TICKS = 0
      \<and> (if s_gate s then f_lt (s_evidence s) GATE_OFF_THRESHOLD else f_lt GATE_ON_THRESHOLD (s_evidence s))"
  by (simp add: tick_gate_def evaluate_gate_def)

text \<open>
  A dormant synapse is frozen and the gate has hysteresis: in a tick the weight of a synapse
  whose gate is off does not change; a gate changes only on a tick that is a multiple of the golden
  period, from on to off only with evidence below 0.2 and from off to on only above 0.5.
\<close>

theorem dormant_frozen:
  assumes "net_tick lm net = Some net'" "k < length (synapses net)"
  shows "let s = synapses net ! k; s' = synapses net' ! k in
    (s_gate s \<or> s_weight s' = s_weight s)
    \<and> (s_gate s' = s_gate s
        \<or> tick_count net mod golden_period lm FAST_TAU_TICKS = 0
          \<and> (if s_gate s then f_lt (s_evidence s') GATE_OFF_THRESHOLD else f_lt GATE_ON_THRESHOLD (s_evidence s')))"
proof -
  obtain w where w: "synapses net' ! k = tick_gate lm net w"
    "stdp_step lm (tick_neurons net) (tick_fired net) (evidence_step (tick_count net) (tick_fired net) (synapses net ! k)) = Some w"
    using list_all2_nthD [OF net_tick_parts(6) [OF assms(1)] assms(2)] by blast
  have "s_gate w = s_gate (synapses net ! k)" "s_gate (synapses net ! k) \<or> s_weight w = s_weight (synapses net ! k)"
    using w(2) by (auto elim!: stdp_stepE)
  then show ?thesis using tick_gate_change [of lm net w] unfolding w(1) Let_def by (auto split: if_splits)
qed

theorem dormant_frozen_witness:
  "\<exists>net'. net_tick demo_libm (booted_net blank_disk) = Some net'
    \<and> (s_gate (synapses net' ! 0) = s_gate (synapses (booted_net blank_disk) ! 0) \<or> f_lt (s_evidence (synapses net' ! 0)) GATE_OFF_THRESHOLD
        \<or> f_lt GATE_ON_THRESHOLD (s_evidence (synapses net' ! 0)))"
proof -
  obtain net' where n: "net_tick demo_libm (booted_net blank_disk) = Some net'"
    using net_tick_total [OF booted_ok(1)] booted_ok(2) by (metis not_None_eq zero_less_power zero_less_numeral)
  have "0 < length (synapses (booted_net blank_disk))" using fixed_places(8) [of demo_libm "[]" blank_disk] by fastforce
  from dormant_frozen [OF n this] n show ?thesis by (auto simp: Let_def split: if_splits)
qed

section \<open>Delivery of spikes\<close>

lemma deliver_nth:
  "j < length stim \<Longrightarrow> fold deliver ss stim ! j
     = foldl f_add (stim ! j) (map (\<lambda>s. f_mul (s_weight s) SPIKE_GAIN) (filter (\<lambda>s. s_to s = j) ss))"
proof (induction ss arbitrary: stim)
  case (Cons s ss)
  have "deliver s stim ! j = (if s_to s = j then f_add (stim ! j) (f_mul (s_weight s) SPIKE_GAIN) else stim ! j)"
    using Cons.prems by (simp add: deliver_def)
  then show ?case using Cons by simp
qed simp

lemma propagate_nth:
  "j < length stim \<Longrightarrow> propagate ss fired stim ! j
     = foldl f_add (stim ! j) (concat (map (\<lambda>i. map (\<lambda>s. f_mul (s_weight s) SPIKE_GAIN)
         (filter (\<lambda>s. s_from s = i \<and> s_gate s \<and> s_to s = j) ss)) fired))"
  unfolding propagate_def
proof (induction fired arbitrary: stim)
  case (Cons i fired)
  have "filter (\<lambda>s. s_to s = j) (filter (\<lambda>s. s_from s = i \<and> s_gate s) ss) = filter (\<lambda>s. s_from s = i \<and> s_gate s \<and> s_to s = j) ss"
    by (simp add: conj_ac)
  then show ?case using Cons by (simp add: deliver_nth)
qed simp

lemma fired_nth:
  assumes ok: "net_ok net" and i: "i < length (neurons net)"
  shows "fst (tick_steps net ! i) \<longleftrightarrow> last_fire_tick (tick_neurons net ! i) = Some (tick_count net)"
proof -
  have l: "length (pending_stimulus net) = length (neurons net)" using ok by (simp add: net_ok_def)
  have "neuron_ok (tick_count net) (neurons net ! i)" using ok i by (simp add: net_ok_def list_all_length)
  then show ?thesis using i l
    by (auto simp: tick_neurons_nth [OF l] tick_steps_def neuron_step_def neuron_ok_def Let_def)
qed

lemma filter_evidence:
  "map (\<lambda>s. f_mul (s_weight s) g) (filter (\<lambda>s. s_from s = i \<and> s_gate s \<and> s_to s = j) (map (evidence_step t fired) ss))
   = map (\<lambda>s. f_mul (s_weight s) g) (filter (\<lambda>s. s_from s = i \<and> s_gate s \<and> s_to s = j) ss)"
  by (induction ss) simp_all

text \<open>
  C20. Spikes arrive one tick later, summed: the stimulus waiting for a neuron after a tick is, added
  up in the order of the firing neurons and then of the synapses, the weight times the gain of every
  open synapse that ends in it and starts in a neuron that fired in this tick; dormant synapses,
  silent neurons and the stimulus of the tick before contribute nothing.
\<close>

theorem spikes_delivered:
  assumes ok: "net_ok net" and r: "net_tick lm net = Some net'" and j: "j < length (neurons net)"
  shows "pending_stimulus net' ! j =
    foldl f_add f_zero (concat (map (\<lambda>i. map (\<lambda>s. f_mul (s_weight s) SPIKE_GAIN)
        (filter (\<lambda>s. s_from s = i \<and> s_gate s \<and> s_to s = j) (synapses net)))
      (filter (\<lambda>i. last_fire_tick (neurons net' ! i) = Some (tick_count net)) [0..<length (neurons net)])))"
proof -
  have l: "length (pending_stimulus net) = length (neurons net)" using ok by (simp add: net_ok_def)
  have ls: "length (tick_steps net) = length (neurons net)" by (simp add: tick_steps_def l)
  have f: "tick_fired net = filter (\<lambda>i. last_fire_tick (neurons net' ! i) = Some (tick_count net)) [0..<length (neurons net)]"
    unfolding tick_fired_def ls net_tick_parts(1) [OF r] by (rule filter_cong) (simp_all add: fired_nth [OF ok])
  show ?thesis unfolding net_tick_parts(2) [OF r] tick_stimulus_def f [symmetric] tick_evidence_def
    using j l by (simp add: propagate_nth filter_evidence)
qed

theorem spikes_delivered_witness:
  "\<exists>net'. net_tick demo_libm (on_key_stimulus 97 (booted_net blank_disk)) = Some net'
    \<and> pending_stimulus net' ! 0 = foldl f_add f_zero (concat (map (\<lambda>i. map (\<lambda>s. f_mul (s_weight s) SPIKE_GAIN)
        (filter (\<lambda>s. s_from s = i \<and> s_gate s \<and> s_to s = 0) (synapses (on_key_stimulus 97 (booted_net blank_disk)))))
      (filter (\<lambda>i. last_fire_tick (neurons net' ! i) = Some (tick_count (on_key_stimulus 97 (booted_net blank_disk))))
         [0..<length (neurons (on_key_stimulus 97 (booted_net blank_disk)))])))"
proof -
  let ?net = "on_key_stimulus 97 (booted_net blank_disk)"
  have ok: "net_ok ?net" by (simp add: on_key_stimulus_def stimulate_ok booted_ok)
  have "tick_count ?net = 0" by (simp add: on_key_stimulus_def booted_ok)
  then obtain net' where n: "net_tick demo_libm ?net = Some net'"
    using net_tick_total [OF ok] by (metis not_None_eq zero_less_power zero_less_numeral)
  have "net_run demo_libm [KeyPress 97] (booted_net blank_disk) = Some ?net" by (simp add: net_do_def)
  from find_neuron_less [OF fixed_places(1) [OF this]] have "0 < length (neurons ?net)" by simp
  from spikes_delivered [OF ok n this] n show ?thesis by blast
qed

section \<open>Refractory neurons\<close>

lemma stimulate_neurons: "neurons (snd (stimulate nm x net)) = neurons net"
  by (auto simp: stimulate_def split: option.split)

definition is_timer_or_key :: "net_op \<Rightarrow> bool" where
  "is_timer_or_key x = (case x of Tick \<Rightarrow> True | KeyPress _ \<Rightarrow> True | _ \<Rightarrow> False)"

lemma refractory_run:
  "net_ok net \<Longrightarrow> list_all is_timer_or_key xs \<Longrightarrow> i < length (neurons net) \<Longrightarrow> net_run lm xs net = Some net' \<Longrightarrow>
   length (filter (\<lambda>x. x = Tick) xs) \<le> refractory_remaining (neurons net ! i) \<Longrightarrow>
   neurons net' ! i = (neurons net ! i)\<lparr>refractory_remaining := refractory_remaining (neurons net ! i) - length (filter (\<lambda>x. x = Tick) xs)\<rparr>"
proof (induction xs arbitrary: net)
  case (Cons x xs)
  then obtain net1 where 1: "net_do lm x net = Some net1" "net_run lm xs net1 = Some net'" by (auto split: option.splits)
  have ok1: "net_ok net1" using keeps_op [OF Cons.prems(1) 1(1)] by blast
  show ?case
  proof (cases x)
    case Tick
    have l: "length (pending_stimulus net) = length (neurons net)" using Cons.prems(1) by (simp add: net_ok_def)
    have n: "neurons net1 = tick_neurons net" using net_tick_parts(1) [of lm net net1] 1(1) by (simp add: Tick net_do_def)
    have r: "0 < refractory_remaining (neurons net ! i)" using Cons.prems(5) by (simp add: Tick)
    then have i: "neurons net1 ! i = (neurons net ! i)\<lparr>refractory_remaining := refractory_remaining (neurons net ! i) - 1\<rparr>"
      using Cons.prems(3) by (simp add: n tick_neurons_nth [OF l] neuron_step_def)
    have len: "i < length (neurons net1)" using Cons.prems(3) by (simp add: n length_tick_neurons [OF l])
    show ?thesis using Cons.IH [OF ok1 _ len 1(2)] Cons.prems(2,5) by (simp add: Tick i)
  next
    case (KeyPress c)
    then have n: "neurons net1 = neurons net" using 1(1) by (auto simp: net_do_def on_key_stimulus_def stimulate_neurons)
    show ?thesis using Cons.IH [OF ok1 _ _ 1(2)] Cons.prems by (simp add: n KeyPress)
  qed (use Cons.prems(2) in \<open>simp_all add: is_timer_or_key_def\<close>)
qed simp

text \<open>
  A neuron rests after it fired: if a neuron fires in a tick, then for as many further ticks as
  its refractory period has, with any key presses in between, it does not fire again and its
  potential stays zero, however much stimulus arrives.
\<close>

theorem refractory_silence:
  assumes ok: "net_ok net" and r: "net_tick lm net = Some net1" and i: "i < length (neurons net)"
    and fired: "last_fire_tick (neurons net1 ! i) = Some (tick_count net)"
    and xs: "list_all is_timer_or_key xs" "length (filter (\<lambda>x. x = Tick) xs) \<le> refractory_ticks (neurons net ! i)"
    and run: "net_run lm xs net1 = Some net2"
  shows "n_fires (neurons net2 ! i) = n_fires (neurons net1 ! i) \<and> n_v (neurons net2 ! i) = f_zero
    \<and> last_fire_tick (neurons net2 ! i) = Some (tick_count net)"
proof -
  have l: "length (pending_stimulus net) = length (neurons net)" using ok by (simp add: net_ok_def)
  have n: "neurons net1 ! i = snd (neuron_step (tick_count net) (pending_stimulus net ! i) (neurons net ! i))"
    by (simp add: net_tick_parts(1) [OF r] tick_neurons_nth [OF l i])
  have "neuron_ok (tick_count net) (neurons net ! i)" using ok i by (simp add: net_ok_def list_all_length)
  then have f: "n_v (neurons net1 ! i) = f_zero" "refractory_remaining (neurons net1 ! i) = refractory_ticks (neurons net ! i)"
    using fired unfolding n by (auto simp: neuron_step_def neuron_ok_def Let_def split: if_splits)
  have "i < length (neurons net1)" using i by (simp add: net_tick_parts(1) [OF r] length_tick_neurons [OF l])
  from refractory_run [OF net_tick_ok [OF ok r] xs(1) this run] xs(2) f fired show ?thesis by simp
qed

lemma booted_blank:
  "booted_net blank_disk = seed_fixed_network LEFT_KEY RIGHT_KEY MOTOR KEY_THRESHOLD KEY_LEAK MOTOR_THRESHOLD MOTOR_LEAK
     REFRACTORY_TICKS INITIAL_WEIGHT INITIAL_WEIGHT empty_network"
proof -
  have "read_sector blank_disk 0 = Inr (replicate 512 0)"
    by (simp add: read_sector_def blank_disk_def Let_def pio_in_zero)
  moreover have "slice (replicate 512 (0::u8)) 0 4 = [0, 0, 0, 0]"
    by (simp add: slice_def numeral_eq_Suc)
  ultimately have "load_weights blank_disk = None" by (simp add: load_weights_def)
  then show ?thesis by (simp add: booted_net_def snd_neurons_init Let_def)
qed

lemma blank_key:
  "let net = on_key_stimulus 97 (booted_net blank_disk)
   in pending_stimulus net ! 0 = Fin (120 * 2 ^ 149) \<and> length (neurons net) = 3 \<and> tick_count net = 0
      \<and> neurons net ! 0 = \<lparr>n_name = LEFT_KEY, n_v = f_zero, n_threshold = Fin (100 * 2 ^ 149), n_leak = Fin (5 * 2 ^ 149),
                n_fires = 0, last_fire_tick = None, refractory_ticks = 7, refractory_remaining = 0\<rparr>"
  by (simp add: booted_blank on_key_stimulus_def stimulate_def seed_fixed_network_def Let_def empty_network_def find_neuron_def
      add_neuron_def add_synapse_def KEY_THRESHOLD_def KEY_LEAK_def KEY_STIM_AMOUNT_def f32_eval)

theorem refractory_silence_witness:
  "\<exists>net1 net2. net_run demo_libm [KeyPress 97, Tick] (booted_net blank_disk) = Some net1
    \<and> net_run demo_libm [Tick, KeyPress 97, Tick] net1 = Some net2
    \<and> n_fires (neurons net2 ! 0) = n_fires (neurons net1 ! 0) \<and> last_fire_tick (neurons net2 ! 0) = Some 0"
proof -
  let ?net = "on_key_stimulus 97 (booted_net blank_disk)"
  note b = blank_key [unfolded Let_def]
  have ok: "net_ok ?net" by (simp add: on_key_stimulus_def stimulate_ok booted_ok)
  then have l: "length (pending_stimulus ?net) = length (neurons ?net)" by (simp add: net_ok_def)
  obtain net1 where n1: "net_tick demo_libm ?net = Some net1"
    using net_tick_total [OF ok] b by (metis not_None_eq zero_less_power zero_less_numeral)
  note ok1 = net_tick_ok [OF ok n1]
  have "run_ticks [Tick, KeyPress 97, Tick] = 2" "tick_count net1 = 1"
    using net_tick_parts(3) [OF n1] b by (simp_all add: run_ticks_def op_ticks_def)
  then obtain net2 where n2: "net_run demo_libm [Tick, KeyPress 97, Tick] net1 = Some net2"
    using good_run [OF ok1, of "[Tick, KeyPress 97, Tick]" demo_libm] by (auto simp: good_step_def)
  have "last_fire_tick (neurons net1 ! 0) = Some 0"
    using b l by (simp add: net_tick_parts(1) [OF n1] tick_neurons_nth [OF l] neuron_step_def f_le_def f_max_def f32_eval)
  moreover have "net_run demo_libm [KeyPress 97, Tick] (booted_net blank_disk) = Some net1" using n1 by (simp add: net_do_def)
  ultimately show ?thesis using refractory_silence [OF ok n1 _ _ _ _ n2, of 0] n2 b by (simp add: is_timer_or_key_def)
qed

section \<open>The slow clock\<close>

lemma next_coprime: "0 < t \<Longrightarrow> 0 < p \<Longrightarrow> coprime (next_coprime t p) t \<and> p \<le> next_coprime t p"
proof (induction t p rule: next_coprime.induct)
  case (1 t p)
  show ?case
  proof (cases "gcd_u64 p t = 1")
    case True
    then show ?thesis by (subst (1 2) next_coprime.simps) (simp add: gcd_u64 coprime_iff_gcd_eq_1)
  next
    case False
    then have "next_coprime t p = next_coprime t (Suc p)" using 1(2,3) by (subst next_coprime.simps) simp
    then show ?thesis using 1 False by simp
  qed
qed

text \<open>
  The slow clock never locks step with the fast one: the search for the gate period ends, whatever
  rounding does, with a period of at least 2 that has no factor in common with the fast period; with
  rounding to the nearest it is 18 for the period of 7 the kernel uses.
\<close>

theorem golden_period_coprime:
  "coprime (golden_period lm t) (max t 1) \<and> 2 \<le> golden_period lm t \<and> (roundf_ok lm \<longrightarrow> golden_period lm FAST_TAU_TICKS = 18)"
proof (intro conjI impI)
  let ?p = "max (f_to_u64 (roundf lm (f_mul (f_mul PHI PHI) (f_of_nat t)))) 2"
  have n: "coprime (next_coprime (max t 1) ?p) (max t 1) \<and> ?p \<le> next_coprime (max t 1) ?p" by (rule next_coprime) simp_all
  then show "coprime (golden_period lm t) (max t 1)" "2 \<le> golden_period lm t" by (simp_all add: golden_period_def)
  assume "roundf_ok lm"
  have "f_mul (f_mul PHI PHI) (f_of_nat 7) = Fin (9608227 * 2 ^ 130)" by (simp add: PHI_def f32_eval)
  then have "f_to_u64 (roundf lm (f_mul (f_mul PHI PHI) (f_of_nat 7))) = 18"
    using \<open>roundf_ok lm\<close> by (simp add: roundf_ok_def round_half_away_def f_to_u64_def)
  moreover have "next_coprime 7 18 = 18" by (subst next_coprime.simps) (simp add: gcd_u64 gcd_red_nat [of 18 7] gcd_non_0_nat)
  ultimately show "golden_period lm FAST_TAU_TICKS = 18" by (simp add: golden_period_def)
qed

theorem golden_period_coprime_witness: "golden_period demo_libm 7 = 18"
  using golden_period_coprime [of demo_libm 7] demo_libm_ok(1) by simp

section \<open>Persistence over a reboot\<close>

lemma fixed_named:
  assumes "fixed_shape net"
  shows "named_synapse net f t = (if t = MOTOR then if f = LEFT_KEY then Some 0 else if f = RIGHT_KEY then Some 1 else None else None)"
proof -
  obtain a b c where n: "neurons net = [a, b, c]" "n_name a = LEFT_KEY" "n_name b = RIGHT_KEY" "n_name c = MOTOR"
    using assms by (auto simp: fixed_shape_def map_eq_Cons_conv)
  obtain u v where s: "synapses net = [u, v]" "s_from u = 0" "s_to u = 2" "s_from v = 1" "s_to v = 2"
    using assms by (auto simp: fixed_shape_def map_eq_Cons_conv ends_def)
  show ?thesis by (auto simp: named_synapse_def find_neuron_def find_synapse_def n s)
qed

fun last_named :: "bytes \<Rightarrow> weight_entry list \<Rightarrow> f32 \<Rightarrow> f32" where
  "last_named nm [] w = w"
| "last_named nm ((f, t, v) # es) w = last_named nm es (if f = nm \<and> t = MOTOR then v else w)"

lemma last_named_append: "last_named nm (xs @ ys) w = last_named nm ys (last_named nm xs w)"
  by (induction nm xs w rule: last_named.induct) simp_all

lemma last_named_other: "\<forall>(f, t, v) \<in> set es. f = nm \<longrightarrow> t \<noteq> MOTOR \<Longrightarrow> last_named nm es w = w"
  by (induction nm es w rule: last_named.induct) auto

lemma apply_entries_weights:
  "fixed_shape net \<Longrightarrow> \<forall>(f, t, w) \<in> set es. unit_range w \<Longrightarrow>
   s_weight (synapses (snd (apply_entries es net)) ! 0) = last_named LEFT_KEY es (s_weight (synapses net ! 0))
   \<and> s_weight (synapses (snd (apply_entries es net)) ! 1) = last_named RIGHT_KEY es (s_weight (synapses net ! 1))"
proof (induction es arbitrary: net)
  case (Cons e es)
  obtain f t w where e: "e = (f, t, w)" by (cases e)
  have w: "unit_range w" "\<forall>(f, t, w) \<in> set es. unit_range w" using Cons.prems(2) by (auto simp: e)
  have l: "length (synapses net) = 2"
    using Cons.prems(1) [unfolded fixed_shape_def, THEN conjunct2, THEN conjunct1, THEN arg_cong, of length] by simp
  let ?net = "snd (apply_synapse_weight f t w net)"
  have "s_weight (synapses ?net ! 0) = (if f = LEFT_KEY \<and> t = MOTOR then w else s_weight (synapses net ! 0))"
    "s_weight (synapses ?net ! 1) = (if f = RIGHT_KEY \<and> t = MOTOR then w else s_weight (synapses net ! 1))"
    using l by (auto simp: apply_synapse_weight_def fixed_named [OF Cons.prems(1)])
  then show ?case using Cons.IH [OF apply_weight_shape [OF Cons.prems(1) w(1)] w(2), of f t]
    unfolding e snd_apply_entries last_named.simps by argo
qed simp

lemma stored_name_fixed:
  assumes "0 \<notin> set nm" "k \<in> {LEFT_KEY, RIGHT_KEY, MOTOR}" "stored_name nm = k"
  shows "nm = k"
proof -
  have k: "length k < 16" "k \<noteq> []" using assms(2) by (auto simp: LEFT_KEY_def RIGHT_KEY_def MOTOR_def bytes_of_def)
  have "takeWhile (\<lambda>b. b \<noteq> 0) (take 16 nm) = take 16 nm"
    by (rule takeWhile_eq_all_conv [THEN iffD2]) (use assms(1) set_take_subset in fastforce)
  then have "k = take 16 nm" using assms(3) k by (auto simp: stored_name_def Let_def split: if_splits)
  then show ?thesis using k(1) by simp
qed

lemma stored_name_keys [simp]: "stored_name LEFT_KEY = LEFT_KEY" "stored_name RIGHT_KEY = RIGHT_KEY" "stored_name MOTOR = MOTOR"
  by (rule stored_name_same; simp add: LEFT_KEY_def RIGHT_KEY_def MOTOR_def bytes_of_def utf8_valid_ascii)+

lemma save_entries:
  "save_weights_to_disk lm net d = (Inr (), d') \<Longrightarrow> save_weights lm d (all_synapse_weights net) = (Inr (), d')"
  by (auto simp: save_weights_to_disk_def split: if_splits)

definition reloaded :: "libm \<Rightarrow> weight_entry \<Rightarrow> weight_entry" where
  "reloaded lm e = (case e of (f, t, w) \<Rightarrow> (stored_name f, stored_name t, decode_weight (encode_weight lm w)))"

text \<open>No other stored entry is mistaken for a fixed synapse.\<close>

lemma entry_of_fixed:
  assumes ok: "net_ok net" and nz: "\<forall>n \<in> set (neurons net). 0 \<notin> set (n_name n)" and di: "distinct (map ends (synapses net))"
    and m: "m < length (synapses net)" "reloaded lm (all_synapse_weights net ! m) = (nm, MOTOR, w)" "nm \<in> {LEFT_KEY, RIGHT_KEY}"
    and k: "named_synapse net nm MOTOR = Some k"
  shows "m = k"
proof -
  let ?s = "synapses net ! m"
  have s: "s_from ?s < length (neurons net)" "s_to ?s < length (neurons net)"
    using ok m(1) by (auto simp: net_ok_def list_all_length synapse_ok_def)
  have st: "stored_name (n_name (neurons net ! s_from ?s)) = nm" "stored_name (n_name (neurons net ! s_to ?s)) = MOTOR"
    using m(1,2) by (simp_all add: reloaded_def all_synapse_weights_def)
  have n: "n_name (neurons net ! s_from ?s) = nm" "n_name (neurons net ! s_to ?s) = MOTOR"
    using stored_name_fixed [OF _ _ st(1)] stored_name_fixed [OF _ _ st(2)] nz s m(3) by auto
  obtain i j where ij: "find_neuron net nm = Some i" "find_neuron net MOTOR = Some j" "find_synapse net i j = Some k"
    using k by (auto simp: named_synapse_def split: option.splits)
  have "distinct (map n_name (neurons net))" using ok by (simp add: net_ok_def)
  then have "s_from ?s = i" "s_to ?s = j" using ij(1,2) n s
    by (auto simp: find_neuron_def position_Some distinct_conv_nth) metis+
  then have "map ends (synapses net) ! m = map ends (synapses net) ! k" "k < length (synapses net)"
    using ij(3) m(1) by (auto simp: find_synapse_def position_Some ends_def)
  then show "m = k" using nth_eq_iff_index_eq [OF di, of m k] m(1) by (metis length_map)
qed

lemma last_named_at:
  assumes "k < length es" "es ! k = (nm, MOTOR, w)" "\<And>m v. m < length es \<Longrightarrow> es ! m = (nm, MOTOR, v) \<Longrightarrow> m = k"
  shows "last_named nm es w0 = w"
proof -
  have es: "es = take k es @ es ! k # drop (Suc k) es" using assms(1) by (simp add: id_take_nth_drop)
  have "\<forall>(f, t, v) \<in> set (drop (Suc k) es). f = nm \<longrightarrow> t \<noteq> MOTOR"
  proof clarify
    fix v assume "(nm, MOTOR, v) \<in> set (drop (Suc k) es)"
    then obtain n where "n < length es - Suc k" "es ! (Suc k + n) = (nm, MOTOR, v)" by (auto simp: in_set_conv_nth)
    then show False using assms(3) [of "Suc k + n" v] by fastforce
  qed
  then have "last_named nm (drop (Suc k) es) w = w" by (rule last_named_other)
  moreover have "last_named nm es w0 = last_named nm (take k es @ es ! k # drop (Suc k) es) w0" using es by (rule arg_cong)
  ultimately show ?thesis by (simp add: last_named_append assms(2))
qed

lemma reboot_weight:
  assumes r: "net_run lm xs (booted_net d0) = Some net" and save: "save_weights_to_disk lm net d = (Inr (), d')"
    and rd: "\<not> read_fails d 0" and nz: "\<forall>n \<in> set (neurons net). 0 \<notin> set (n_name n)" and di: "distinct (map ends (synapses net))"
    and nm: "nm \<in> {LEFT_KEY, RIGHT_KEY}"
  shows "synapse_weight (booted_net d') nm MOTOR = map_option (\<lambda>w. decode_weight (encode_weight lm w)) (synapse_weight net nm MOTOR)"
proof -
  note p = fixed_places [OF r]
  let ?all = "all_synapse_weights net" and ?seed = "seed_fixed_network LEFT_KEY RIGHT_KEY MOTOR KEY_THRESHOLD KEY_LEAK
    MOTOR_THRESHOLD MOTOR_LEAK REFRACTORY_TICKS INITIAL_WEIGHT INITIAL_WEIGHT empty_network"
  let ?es = "map (reloaded lm) (take 14 ?all)"
  define k where "k = (if nm = LEFT_KEY then 0 else 1 :: nat)"
  have k: "named_synapse net nm MOTOR = Some k" using p(4,5) nm by (auto simp: k_def)
  have len: "k < length ?all" "k < 14" using p(8) by (auto simp: k_def all_synapse_weights_def)
  have load: "load_weights d' = Some ?es"
    using weights_reload [OF save_entries [OF save] rd] by (simp add: reloaded_def [abs_def])
  have b: "booted_net d' = snd (apply_entries ?es ?seed)" by (simp only: booted_net_def snd_neurons_init Let_def load option.case)
  obtain i j where "find_neuron net nm = Some i" "find_neuron net MOTOR = Some j" "find_synapse net i j = Some k"
    using k by (auto simp: named_synapse_def split: option.splits)
  then have "n_name (neurons net ! s_from (synapses net ! k)) = nm" "n_name (neurons net ! s_to (synapses net ! k)) = MOTOR"
    by (auto simp: find_neuron_def find_synapse_def position_Some)
  then have at: "?es ! k = (nm, MOTOR, decode_weight (encode_weight lm (s_weight (synapses net ! k))))"
    using len nm by (auto simp: reloaded_def all_synapse_weights_def)
  have u: "m = k" if "m < length ?es" "?es ! m = (nm, MOTOR, v)" for m v
    using entry_of_fixed [OF p(7) nz di _ _ nm k, of m lm v] that by (simp add: all_synapse_weights_def)
  have "last_named nm ?es w0 = decode_weight (encode_weight lm (s_weight (synapses net ! k)))" for w0
    by (rule last_named_at [OF _ at]) (use len u in auto)
  moreover have "s_weight (synapses (booted_net d') ! k) = last_named nm ?es (s_weight (synapses ?seed ! k))"
    using apply_entries_weights [OF seeded_shape, of ?es] load_weights_range [OF load] nm unfolding b k_def by fastforce
  moreover have "named_synapse (booted_net d') nm MOTOR = Some k" using fixed_named [OF booted_shape] nm by (auto simp: k_def)
  ultimately show ?thesis by (simp add: synapse_weight_def k)
qed

text \<open>Of the entries saved under the names of a fixed synapse the last one is restored, whichever synapse it came from.\<close>

lemma duplicate_entry_wins:
  assumes save: "save_weights_to_disk lm net d = (Inr (), d')" and rd: "\<not> read_fails d 0" and nm: "nm \<in> {LEFT_KEY, RIGHT_KEY}"
    and es: "map (reloaded lm) (take 14 (all_synapse_weights net)) = xs @ (nm, MOTOR, w) # ys"
    and last: "\<forall>(f, t, v) \<in> set ys. f = nm \<longrightarrow> t \<noteq> MOTOR"
  shows "synapse_weight (booted_net d') nm MOTOR = Some w"
proof -
  let ?seed = "seed_fixed_network LEFT_KEY RIGHT_KEY MOTOR KEY_THRESHOLD KEY_LEAK
    MOTOR_THRESHOLD MOTOR_LEAK REFRACTORY_TICKS INITIAL_WEIGHT INITIAL_WEIGHT empty_network"
  define k where "k = (if nm = LEFT_KEY then 0 else 1 :: nat)"
  have load: "load_weights d' = Some (xs @ (nm, MOTOR, w) # ys)"
    using weights_reload [OF save_entries [OF save] rd] es by (simp add: reloaded_def [abs_def])
  have b: "booted_net d' = snd (apply_entries (xs @ (nm, MOTOR, w) # ys) ?seed)"
    by (simp only: booted_net_def snd_neurons_init Let_def load option.case)
  have "last_named nm (xs @ (nm, MOTOR, w) # ys) w0 = w" for w0
    by (simp add: last_named_append last_named_other [OF last])
  moreover have "s_weight (synapses (booted_net d') ! k) = last_named nm (xs @ (nm, MOTOR, w) # ys) (s_weight (synapses ?seed ! k))"
    using apply_entries_weights [OF seeded_shape, of "xs @ (nm, MOTOR, w) # ys"] load_weights_range [OF load] nm unfolding b k_def by fastforce
  moreover have "named_synapse (booted_net d') nm MOTOR = Some k" using fixed_named [OF booted_shape] nm by (auto simp: k_def)
  ultimately show ?thesis by (simp add: synapse_weight_def)
qed

text \<open>
  C21. What was learnt survives a reboot: when the weights of a network whose synapses join different
  pairs of neurons, with names free of the byte 0, are saved without an error to a drive that can be
  read, a kernel booted from that drive has the weights of both fixed synapses, at the precision of
  the stored format.  A second synapse between the same neurons would be saved under the same
  names, and its weight would be the one restored: see \<open>duplicate_entry_wins\<close>.
\<close>

theorem weights_survive_reboot:
  assumes "net_run lm xs (booted_net d0) = Some net" "save_weights_to_disk lm net d = (Inr (), d')" "\<not> read_fails d 0"
    and "\<forall>n \<in> set (neurons net). 0 \<notin> set (n_name n)" "distinct (map ends (synapses net))"
  shows "synapse_weight (booted_net d') LEFT_KEY MOTOR = map_option (\<lambda>w. decode_weight (encode_weight lm w)) (synapse_weight net LEFT_KEY MOTOR)
    \<and> synapse_weight (booted_net d') RIGHT_KEY MOTOR = map_option (\<lambda>w. decode_weight (encode_weight lm w)) (synapse_weight net RIGHT_KEY MOTOR)"
  using reboot_weight [OF assms] by simp

theorem weights_survive_reboot_witness:
  "\<exists>d'. save_weights_to_disk demo_libm (booted_net blank_disk) blank_disk = (Inr (), d')
    \<and> synapse_weight (booted_net d') LEFT_KEY MOTOR
      = map_option (\<lambda>w. decode_weight (encode_weight demo_libm w)) (synapse_weight (booted_net blank_disk) LEFT_KEY MOTOR)"
proof -
  let ?net = "booted_net blank_disk"
  note s = booted_shape [of blank_disk, unfolded fixed_shape_def]
  have r: "net_run demo_libm [] ?net = Some ?net" by simp
  have "synapses ?net \<noteq> []" using fixed_places(8) [OF r] by auto
  then obtain d' where sv: "save_weights_to_disk demo_libm ?net blank_disk = (Inr (), d')"
    by (simp add: save_weights_to_disk_def all_synapse_weights_def save_weights_def write_sector_def Let_def blank_disk_def)
  have "n_name n \<in> {LEFT_KEY, RIGHT_KEY, MOTOR}" if "n \<in> set (neurons ?net)" for n
    using that s [THEN conjunct1, THEN arg_cong, of set] by fastforce
  moreover have "0 \<notin> set nm" if "nm \<in> {LEFT_KEY, RIGHT_KEY, MOTOR}" for nm
    using that by (auto simp: LEFT_KEY_def RIGHT_KEY_def MOTOR_def bytes_of_def)
  ultimately have nz: "\<forall>n \<in> set (neurons ?net). 0 \<notin> set (n_name n)" by blast
  have di: "distinct (map ends (synapses ?net))" using s by simp
  have rd: "\<not> read_fails blank_disk 0" by (simp add: blank_disk_def)
  show ?thesis using weights_survive_reboot [OF r sv rd nz di] sv by blast
qed

end
