(* ===== verification/Scheduler.thy ===== *)
theory Scheduler
  imports Network_Props
begin

text \<open>
  The topological scheduler (\<open>kernel/src/scheduler.rs\<close>): a bank of coupled accumulators, one per
  task slot; each step charges every living slot, and the fullest one above the threshold fires.
  Firing adds to a 32-bit counter, whose overflow is a panic: \<open>None\<close>.
\<close>

record task_slot =
  alive :: bool
  potential :: f32
  slot_fires :: nat

record scheduler =
  slots :: "task_slot list"
  bonds :: "f32 list"
  bias :: f32
  threshold :: f32
  coupling_g :: f32

definition THRESHOLD :: f32 where "THRESHOLD = f_of_nat 1"
definition BIAS :: f32 where "BIAS = f_of_ratio 15 100"

definition ssh_bonds :: "nat \<Rightarrow> f32 \<Rightarrow> f32 list" where
  "ssh_bonds n g =
     (let v = f_sub f_one g; w = f_add f_one g in map (\<lambda>i. if i mod 2 = 0 then v else w) [0..<n - 1])"

definition new_slot :: task_slot where
  "new_slot = \<lparr>alive = True, potential = f_zero, slot_fires = 0\<rparr>"

definition sched_new :: "nat \<Rightarrow> f32 \<Rightarrow> scheduler" where
  "sched_new n g =
     \<lparr>slots = replicate n new_slot, bonds = ssh_bonds n g, bias = BIAS, threshold = THRESHOLD, coupling_g = g\<rparr>"

definition sched_kill :: "nat \<Rightarrow> scheduler \<Rightarrow> scheduler" where
  "sched_kill i sc =
     (if i < length (slots sc) then sc\<lparr>slots := (slots sc)[i := (slots sc ! i)\<lparr>alive := False, potential := f_zero\<rparr>]\<rparr> else sc)"

definition add_slot :: "scheduler \<Rightarrow> nat \<times> scheduler" where
  "add_slot sc =
     (let ss = slots sc @ [new_slot]
      in (length ss - 1, sc\<lparr>slots := ss, bonds := ssh_bonds (length ss) (coupling_g sc)\<rparr>))"

definition sched_revive :: "nat \<Rightarrow> scheduler \<Rightarrow> scheduler" where
  "sched_revive i sc = (if i < length (slots sc) then sc\<lparr>slots := (slots sc)[i := new_slot]\<rparr> else sc)"

text \<open>The lateral input of slot \<open>i\<close>, from the potentials before the step.\<close>

definition coupling :: "scheduler \<Rightarrow> nat \<Rightarrow> f32" where
  "coupling sc i =
     (let ss = slots sc;
          c = f_zero;
          c = (if 0 < i \<and> alive (ss ! (i - 1)) then f_add c (f_mul (bonds sc ! (i - 1)) (potential (ss ! (i - 1)))) else c)
      in if i + 1 < length ss \<and> alive (ss ! (i + 1)) then f_add c (f_mul (bonds sc ! i) (potential (ss ! (i + 1)))) else c)"

definition charge :: "scheduler \<Rightarrow> nat \<Rightarrow> task_slot" where
  "charge sc i =
     (let s = slots sc ! i
      in if alive s then s\<lparr>potential := f_add (potential s) (f_add (bias sc) (f_mul (f_of_ratio 5 100) (coupling sc i)))\<rparr> else s)"

definition ready :: "f32 \<Rightarrow> task_slot \<Rightarrow> bool" where
  "ready th s \<longleftrightarrow> alive s \<and> f_le th (potential s)"

text \<open>\<open>max_by\<close> keeps the last of the greatest; the candidates passed a comparison, so none is NaN.\<close>

definition pick_max :: "task_slot list \<Rightarrow> nat \<Rightarrow> nat option \<Rightarrow> nat option" where
  "pick_max ss i best =
     (case best of
        None \<Rightarrow> Some i
      | Some j \<Rightarrow> if f_lt (potential (ss ! i)) (potential (ss ! j)) then Some j else Some i)"

definition winner :: "f32 \<Rightarrow> task_slot list \<Rightarrow> nat option" where
  "winner th ss = fold (pick_max ss) (filter (\<lambda>i. ready th (ss ! i)) [0..<length ss]) None"

definition sched_step :: "scheduler \<Rightarrow> (nat option \<times> scheduler) option" where
  "sched_step sc =
     (let ss = map (charge sc) [0..<length (slots sc)]
      in case winner (threshold sc) ss of
           None \<Rightarrow> Some (None, sc\<lparr>slots := ss\<rparr>)
         | Some i \<Rightarrow>
             if slot_fires (ss ! i) = u32_max then None
             else Some (Some i, sc\<lparr>slots := ss[i := (ss ! i)\<lparr>potential := f_zero, slot_fires := slot_fires (ss ! i) + 1\<rparr>]\<rparr>))"

text \<open>The defect trial of the boot sequence (\<open>main.rs\<close>): the fewest and most firings of the survivors, and their number.\<close>

definition N_SLOTS :: nat where [simp]: "N_SLOTS = 8"
definition DEFECT_SLOT :: nat where [simp]: "DEFECT_SLOT = 3"
definition WARMUP_TICKS :: nat where [simp]: "WARMUP_TICKS = 400"
definition POST_DEFECT_TICKS :: nat where [simp]: "POST_DEFECT_TICKS = 2000"

fun sched_steps :: "nat \<Rightarrow> scheduler \<Rightarrow> scheduler option" where
  "sched_steps 0 sc = Some sc"
| "sched_steps (Suc n) sc = (case sched_step sc of None \<Rightarrow> None | Some (_, sc) \<Rightarrow> sched_steps n sc)"

definition run_trial :: "f32 \<Rightarrow> (nat \<times> nat \<times> nat) option" where
  "run_trial g =
     (case sched_steps WARMUP_TICKS (sched_new N_SLOTS g) of
        None \<Rightarrow> None
      | Some sc \<Rightarrow>
          (case sched_steps POST_DEFECT_TICKS (sched_kill DEFECT_SLOT sc) of
             None \<Rightarrow> None
           | Some sc \<Rightarrow>
               let counts = map slot_fires (filter alive (slots sc))
               in if counts = [] then None else Some (Min (set counts), Max (set counts), length counts)))"

section \<open>Numbers that are not negative\<close>

definition nonneg :: "f32 \<Rightarrow> bool" where
  "nonneg x = (case x of Fin k \<Rightarrow> 0 \<le> k | Inf s \<Rightarrow> \<not> s | NaN \<Rightarrow> False)"

definition positive :: "f32 \<Rightarrow> bool" where
  "positive x = (case x of Fin k \<Rightarrow> 0 < k | Inf s \<Rightarrow> \<not> s | NaN \<Rightarrow> False)"

lemma nonneg_simps [simp]: "nonneg (Fin k) \<longleftrightarrow> 0 \<le> k" "nonneg (Inf s) \<longleftrightarrow> \<not> s" "\<not> nonneg NaN"
  "positive (Fin k) \<longleftrightarrow> 0 < k" "positive (Inf s) \<longleftrightarrow> \<not> s" "\<not> positive NaN"
  by (simp_all add: nonneg_def positive_def)

lemma f_le_simps [simp]: "f_le (Fin a) (Fin b) \<longleftrightarrow> a \<le> b" "f_le (Fin a) (Inf False)" "f_le (Inf s) (Inf s)" "\<not> f_le NaN x" "\<not> f_le x NaN"
  "\<not> f_le (Inf False) (Fin a)"
  by (cases x; auto simp: f_le_def f_eq_def)+

lemma f_round_nonneg_mono:
  assumes "0 \<le> m" "m \<le> n" "0 < d"
  shows "nonneg (f_round m d)" "f_le (f_round m d) (f_round n d)"
proof -
  have r: "round_mag (nat m) d \<le> round_mag (nat n) d" using assms by (intro round_mag_mono) auto
  have e: "f_round k d = (if 2 ^ 277 \<le> round_mag (nat k) d then Inf False else Fin (int (round_mag (nat k) d)))" if "0 \<le> k" for k
    using that by (cases "k = 0") (simp_all add: f_round_def Let_def)
  show "nonneg (f_round m d)" unfolding e [OF assms(1)] by simp
  have "0 \<le> n" using assms by simp
  show "f_le (f_round m d) (f_round n d)" unfolding e [OF assms(1)] e [OF \<open>0 \<le> n\<close>] using r by auto
qed

lemma nonneg_add: "nonneg a \<Longrightarrow> nonneg b \<Longrightarrow> nonneg (f_add a b)"
  by (cases a; cases b) (auto simp: f_add_def intro: f_round_nonneg_mono(1) [of _ "_ + _"])

lemma add_mono: "nonneg a \<Longrightarrow> nonneg b \<Longrightarrow> f_le a a' \<Longrightarrow> f_le b b' \<Longrightarrow> f_le (f_add a b) (f_add a' b')"
proof -
  assume n: "nonneg a" "nonneg b" and le: "f_le a a'" "f_le b b'"
  have n': "nonneg a'" "nonneg b'" using n le by (cases a; cases a'; cases b; cases b'; auto simp: f_le_def f_eq_def)+
  show ?thesis
  proof (cases "\<exists>x y. a' = Fin x \<and> b' = Fin y")
    case True
    then obtain x y where xy: "a' = Fin x" "b' = Fin y" by blast
    obtain u v where uv: "a = Fin u" "b = Fin v" using le n xy by (cases a; cases b) (auto simp: f_le_def f_eq_def)
    show ?thesis using n le unfolding xy uv f_add_def by (auto intro!: f_round_nonneg_mono(2))
  next
    case False
    then have "f_add a' b' = Inf False" using n' by (cases a'; cases b') (auto simp: f_add_def)
    moreover have "nonneg (f_add a b)" using n by (rule nonneg_add)
    ultimately show ?thesis by (cases "f_add a b") auto
  qed
qed

lemma nonneg_mul: "positive a \<Longrightarrow> nonneg b \<Longrightarrow> nonneg (f_mul a b) \<or> a = Inf False \<and> b = f_zero"
  by (cases a; cases b) (auto simp: f_mul_def intro: f_round_nonneg_mono(1) [of _ "_ * _"])

lemma f_le_trans: "f_le a b \<Longrightarrow> f_le b c \<Longrightarrow> f_le a c"
  by (cases a; cases b; cases c) (auto simp: f_le_def f_eq_def)

lemma f_le_refl: "a \<noteq> NaN \<Longrightarrow> f_le a a"
  by (cases a) (auto simp: f_le_def f_eq_def)

lemma not_f_lt: "a \<noteq> NaN \<Longrightarrow> b \<noteq> NaN \<Longrightarrow> \<not> f_lt a b \<longleftrightarrow> f_le b a"
  by (cases a; cases b) (auto simp: f_le_def f_eq_def)

lemma f_le_not_NaN: "f_le a b \<Longrightarrow> a \<noteq> NaN \<and> b \<noteq> NaN"
  by (auto simp: f_le_def f_eq_def)

section \<open>The winner\<close>

lemma pick_max_fold:
  assumes "\<forall>i \<in> set xs. potential (ss ! i) \<noteq> NaN"
  shows "case fold (pick_max ss) xs None of
      None \<Rightarrow> xs = []
    | Some w \<Rightarrow> w \<in> set xs \<and> (\<forall>i \<in> set xs. f_le (potential (ss ! i)) (potential (ss ! w)))"
  using assms
proof (induction xs rule: rev_induct)
  case (snoc x xs)
  have x: "potential (ss ! x) \<noteq> NaN" using snoc.prems by simp
  show ?case
  proof (cases "fold (pick_max ss) xs None")
    case None
    then have "fold (pick_max ss) (xs @ [x]) None = Some x" by (simp add: pick_max_def)
    moreover have "xs = []" using snoc None by simp
    ultimately show ?thesis using x by (simp add: f_le_refl)
  next
    case (Some a)
    then have a: "a \<in> set xs" "\<forall>i \<in> set xs. f_le (potential (ss ! i)) (potential (ss ! a))" using snoc by simp_all
    have an: "potential (ss ! a) \<noteq> NaN" using a(1) snoc.prems by simp
    have step: "fold (pick_max ss) (xs @ [x]) None = (if f_lt (potential (ss ! x)) (potential (ss ! a)) then Some a else Some x)"
      by (simp add: Some pick_max_def)
    show ?thesis
    proof (cases "f_lt (potential (ss ! x)) (potential (ss ! a))")
      case True
      then have "f_le (potential (ss ! x)) (potential (ss ! a))" by (simp add: f_le_def)
      then show ?thesis using a True unfolding step by simp
    next
      case False
      then have "f_le (potential (ss ! a)) (potential (ss ! x))" using not_f_lt [OF x an] by simp
      then show ?thesis using a False x unfolding step by (auto simp: f_le_refl intro: f_le_trans)
    qed
  qed
qed simp

lemma ready_not_NaN: "ready th s \<Longrightarrow> potential s \<noteq> NaN"
  using f_le_not_NaN by (auto simp: ready_def)

lemma winner_Some:
  assumes "winner th ss = Some w"
  shows "w < length ss" "ready th (ss ! w)" "i < length ss \<Longrightarrow> ready th (ss ! i) \<Longrightarrow> f_le (potential (ss ! i)) (potential (ss ! w))"
proof -
  have "\<forall>i \<in> set (filter (\<lambda>i. ready th (ss ! i)) [0..<length ss]). potential (ss ! i) \<noteq> NaN" by (auto dest: ready_not_NaN)
  from pick_max_fold [OF this] assms
  show "w < length ss" "ready th (ss ! w)" "i < length ss \<Longrightarrow> ready th (ss ! i) \<Longrightarrow> f_le (potential (ss ! i)) (potential (ss ! w))"
    by (auto simp: winner_def)
qed

lemma winner_None: "winner th ss = None \<longleftrightarrow> (\<forall>i < length ss. \<not> ready th (ss ! i))"
proof -
  have "\<forall>i \<in> set (filter (\<lambda>i. ready th (ss ! i)) [0..<length ss]). potential (ss ! i) \<noteq> NaN" by (auto dest: ready_not_NaN)
  from pick_max_fold [OF this] show ?thesis
    by (cases "winner th ss") (auto simp: winner_def filter_empty_conv)
qed

section \<open>Well-formed banks\<close>

definition gap_ok :: "f32 \<Rightarrow> bool" where
  "gap_ok g \<longleftrightarrow> (\<exists>v w. f_sub f_one g = Fin v \<and> 0 < v \<and> f_add f_one g = Fin w \<and> 0 < w)"

definition sched_ok :: "nat \<Rightarrow> scheduler \<Rightarrow> bool" where
  "sched_ok t sc \<longleftrightarrow> gap_ok (coupling_g sc) \<and> bonds sc = ssh_bonds (length (slots sc)) (coupling_g sc)
     \<and> bias sc = BIAS \<and> threshold sc = THRESHOLD
     \<and> list_all (\<lambda>s. nonneg (potential s) \<and> slot_fires s \<le> t) (slots sc)"

lemma bond_ok: "gap_ok g \<Longrightarrow> Suc i < n \<Longrightarrow> \<exists>b. ssh_bonds n g ! i = Fin b \<and> 0 < b"
  by (auto simp: gap_ok_def ssh_bonds_def Let_def)

lemma coupling_nonneg:
  assumes ok: "sched_ok t sc" and i: "i < length (slots sc)"
  shows "nonneg (coupling sc i)"
proof -
  have p: "nonneg (f_mul (bonds sc ! j) (potential (slots sc ! k)))" if j: "Suc j < length (slots sc)" and k: "k < length (slots sc)" for j k
  proof -
    obtain b where "bonds sc ! j = Fin b" "0 < b" using ok bond_ok [OF _ j, of "coupling_g sc"] by (auto simp: sched_ok_def)
    moreover have "nonneg (potential (slots sc ! k))" using ok k by (simp add: sched_ok_def list_all_length)
    ultimately show ?thesis using nonneg_mul [of "Fin b" "potential (slots sc ! k)"] by auto
  qed
  have z: "nonneg f_zero" by simp
  show ?thesis using p [of "i - 1" "i - 1"] p [of i "i + 1"] i nonneg_add [OF z] nonneg_add
    by (auto simp: coupling_def Let_def)
qed

lemma sched_consts: "BIAS = Fin (10066330 * 2 ^ 123)" "THRESHOLD = f_one" "f_of_ratio 5 100 = Fin (13421773 * 2 ^ 121)"
  by (simp_all add: BIAS_def THRESHOLD_def f32_eval)

text \<open>A living slot gains at least the bias.\<close>

lemma charge_gain:
  assumes ok: "sched_ok t sc" and i: "i < length (slots sc)" and l: "alive (slots sc ! i)"
  shows "f_le (f_add (potential (slots sc ! i)) BIAS) (potential (charge sc i))" "nonneg (potential (charge sc i))"
proof -
  let ?p = "potential (slots sc ! i)" and ?c = "f_mul (f_of_ratio 5 100) (coupling sc i)"
  have p: "nonneg ?p" using ok i by (simp add: sched_ok_def list_all_length)
  have c: "nonneg ?c" using nonneg_mul [of "Fin (13421773 * 2 ^ 121)" "coupling sc i"] coupling_nonneg [OF ok i] by (auto simp: sched_consts)
  have b: "nonneg BIAS" "nonneg f_zero" by (simp_all add: sched_consts)
  have "f_le f_zero ?c" using c by (cases ?c) auto
  then have "f_le (f_add BIAS f_zero) (f_add BIAS ?c)" using b f_le_refl [of BIAS] by (intro add_mono) (auto simp: sched_consts)
  moreover have "f_add BIAS f_zero = BIAS" by (simp add: sched_consts f32_eval)
  ultimately have "f_le BIAS (f_add BIAS ?c)" by simp
  moreover have "f_le ?p ?p" using p by (intro f_le_refl) auto
  ultimately have "f_le (f_add ?p BIAS) (f_add ?p (f_add BIAS ?c))" using p b by (intro add_mono)
  then show "f_le (f_add ?p BIAS) (potential (charge sc i))" using ok l by (simp add: charge_def Let_def sched_ok_def)
  show "nonneg (potential (charge sc i))" using p b c ok l nonneg_add by (simp add: charge_def Let_def sched_ok_def)
qed

definition charged :: "scheduler \<Rightarrow> task_slot list" where
  "charged sc = map (charge sc) [0..<length (slots sc)]"

lemma charge_simps [simp]: "alive (charge sc i) = alive (slots sc ! i)" "slot_fires (charge sc i) = slot_fires (slots sc ! i)"
  by (simp_all add: charge_def Let_def)

lemma charged_simps [simp]: "length (charged sc) = length (slots sc)" "i < length (slots sc) \<Longrightarrow> charged sc ! i = charge sc i"
  by (simp_all add: charged_def)

lemma sched_step_alt:
  "sched_step sc =
     (case winner (threshold sc) (charged sc) of
        None \<Rightarrow> Some (None, sc\<lparr>slots := charged sc\<rparr>)
      | Some i \<Rightarrow>
          if slot_fires (charged sc ! i) = u32_max then None
          else Some (Some i, sc\<lparr>slots := (charged sc)[i := (charged sc ! i)\<lparr>potential := f_zero, slot_fires := slot_fires (charged sc ! i) + 1\<rparr>]\<rparr>))"
  by (simp only: sched_step_def charged_def Let_def)

lemma charge_ok: "sched_ok t sc \<Longrightarrow> i < length (slots sc) \<Longrightarrow> nonneg (potential (charge sc i)) \<and> slot_fires (charge sc i) \<le> t"
  using charge_gain(2) [of t sc i] by (cases "alive (slots sc ! i)") (auto simp: sched_ok_def list_all_length charge_def Let_def)

lemma sched_step_total:
  assumes ok: "sched_ok t sc" and t: "t < u32_max"
  shows "\<exists>r sc'. sched_step sc = Some (r, sc') \<and> sched_ok (Suc t) sc' \<and> map alive (slots sc') = map alive (slots sc)"
proof (cases "winner (threshold sc) (charged sc)")
  case None
  have "map alive (charged sc) = map alive (slots sc)" by (rule nth_equalityI) simp_all
  moreover have "sched_step sc = Some (None, sc\<lparr>slots := charged sc\<rparr>)" by (simp add: sched_step_alt None)
  ultimately show ?thesis using ok charge_ok [OF ok] by (auto simp: sched_ok_def list_all_length le_SucI)
next
  case (Some i)
  then have i: "i < length (slots sc)" using winner_Some(1) by fastforce
  have nf: "slot_fires (slots sc ! i) \<noteq> u32_max" using charge_ok [OF ok i] t by simp
  have "map alive ((charged sc)[i := (charge sc i)\<lparr>potential := f_zero, slot_fires := Suc (slot_fires (slots sc ! i))\<rparr>]) = map alive (slots sc)"
    by (rule nth_equalityI) (use i in \<open>auto simp: nth_list_update\<close>)
  moreover from nf i have "sched_step sc
      = Some (Some i, sc\<lparr>slots := (charged sc)[i := (charge sc i)\<lparr>potential := f_zero, slot_fires := Suc (slot_fires (slots sc ! i))\<rparr>]\<rparr>)"
    by (simp add: sched_step_alt Some)
  ultimately show ?thesis using ok charge_ok [OF ok] i by (auto simp: sched_ok_def list_all_length nth_list_update le_SucI)
qed

lemma sched_steps_total:
  "sched_ok t sc \<Longrightarrow> t + n \<le> u32_max \<Longrightarrow> \<exists>sc'. sched_steps n sc = Some sc' \<and> sched_ok (t + n) sc' \<and> map alive (slots sc') = map alive (slots sc)"
proof (induction n arbitrary: sc t)
  case (Suc n)
  have "t < u32_max" using Suc.prems(2) by simp
  from sched_step_total [OF Suc.prems(1) this] obtain r sc1 where
    1: "sched_step sc = Some (r, sc1)" "sched_ok (Suc t) sc1" "map alive (slots sc1) = map alive (slots sc)" by blast
  show ?case using Suc.IH [OF 1(2)] Suc.prems(2) 1 by auto
qed simp

lemma sched_new_ok: "gap_ok g \<Longrightarrow> sched_ok 0 (sched_new n g)"
  by (simp add: sched_ok_def sched_new_def new_slot_def list_all_length)

lemma sched_kill_ok: "sched_ok t sc \<Longrightarrow> sched_ok t (sched_kill i sc)"
  by (auto simp: sched_ok_def sched_kill_def list_all_length nth_list_update)

lemma add_slot_ok: "sched_ok t sc \<Longrightarrow> sched_ok t (snd (add_slot sc))"
  by (auto simp: sched_ok_def add_slot_def Let_def new_slot_def)

lemma sched_revive_ok: "sched_ok t sc \<Longrightarrow> sched_ok t (sched_revive i sc)"
  by (auto simp: sched_ok_def sched_revive_def new_slot_def list_all_length nth_list_update)

lemma gaps_ok: "gap_ok (f_of_ratio 6 10)" "gap_ok (f_of_ratio (- 6) 10)"
  by (simp_all add: gap_ok_def f32_eval)

lemma fired_alive: "sched_step sc = Some (Some w, sc') \<Longrightarrow> w < length (slots sc) \<and> alive (slots sc ! w)"
  using winner_Some(1,2) [of "threshold sc" "charged sc" w]
  by (auto simp: sched_step_alt ready_def split: option.splits if_splits)

section \<open>Someone fires\<close>

fun level :: "nat \<Rightarrow> f32" where
  "level 0 = f_zero"
| "level (Suc n) = f_add (level n) BIAS"

lemma level_7: "f_le THRESHOLD (level 7)"
  by (simp add: numeral_eq_Suc sched_consts) (simp add: f32_eval)

lemma level_nonneg: "nonneg (level n)"
  by (induction n) (simp_all add: nonneg_add sched_consts)

text \<open>Steps until a slot fires, at most \<open>n\<close>.\<close>

fun first_winner :: "nat \<Rightarrow> scheduler \<Rightarrow> (nat option \<times> scheduler) option" where
  "first_winner 0 sc = Some (None, sc)"
| "first_winner (Suc n) sc =
     (case sched_step sc of
        None \<Rightarrow> None
      | Some (Some w, sc) \<Rightarrow> Some (Some w, sc)
      | Some (None, sc) \<Rightarrow> first_winner n sc)"

text \<open>A step in which nobody fires fills every living slot by one more level, and there are six such levels.\<close>

lemma idle_step:
  assumes ok: "sched_ok t sc" and s: "sched_step sc = Some (None, sc')"
    and a: "a < length (slots sc)" "alive (slots sc ! a)" "f_le (level k) (potential (slots sc ! a))"
  shows "f_le (level (Suc k)) (potential (slots sc' ! a)) \<and> Suc k \<noteq> 7"
proof -
  have b: "nonneg BIAS" by (simp add: sched_consts)
  have "f_le (level (Suc k)) (f_add (potential (slots sc ! a)) BIAS)"
    using add_mono [OF level_nonneg b a(3)] f_le_refl [of BIAS] by (simp add: sched_consts)
  then have lv: "f_le (level (Suc k)) (potential (charge sc a))" using charge_gain(1) [OF ok a(1,2)] f_le_trans by blast
  have w: "winner (threshold sc) (charged sc) = None" "sc' = sc\<lparr>slots := charged sc\<rparr>"
    using s by (auto simp: sched_step_alt split: option.splits if_splits)
  have th: "threshold sc = THRESHOLD" using ok by (simp add: sched_ok_def)
  have "\<not> f_le THRESHOLD (potential (charge sc a))"
    using w(1) [unfolded winner_None] a(1,2) by (auto simp: ready_def th)
  then show ?thesis using lv level_7 f_le_trans a(1) w(2) by (metis charged_simps(2) scheduler.select_convs(1) scheduler.surjective scheduler.update_convs(1))
qed

lemma someone_fires:
  assumes "sched_ok t sc" "t + n \<le> u32_max" "k + n = 7" "0 < n"
    and "a < length (slots sc)" "alive (slots sc ! a)" "f_le (level k) (potential (slots sc ! a))"
  shows "\<exists>w sc'. first_winner n sc = Some (Some w, sc') \<and> w < length (slots sc) \<and> alive (slots sc ! w)"
  using assms
proof (induction n arbitrary: sc t k)
  case (Suc n)
  have "t < u32_max" using Suc.prems(2) by simp
  from sched_step_total [OF Suc.prems(1) this] obtain r sc1 where
    1: "sched_step sc = Some (r, sc1)" "sched_ok (Suc t) sc1" "map alive (slots sc1) = map alive (slots sc)" by blast
  have len: "length (slots sc1) = length (slots sc)" using 1(3) by (metis length_map)
  have al: "i < length (slots sc) \<Longrightarrow> alive (slots sc1 ! i) = alive (slots sc ! i)" for i using 1(3) len by (metis nth_map)
  show ?case
  proof (cases r)
    case None
    from idle_step [OF Suc.prems(1) _ Suc.prems(5-7)] 1(1) None
    have i: "f_le (level (Suc k)) (potential (slots sc1 ! a))" "Suc k \<noteq> 7" by auto
    then have n: "0 < n" "Suc k + n = 7" using Suc.prems(3) by simp_all
    from Suc.IH [OF 1(2) _ n(2,1) _ _ i(1)] Suc.prems(2,5,6) len al obtain v sc2 where
      "first_winner n sc1 = Some (Some v, sc2)" "v < length (slots sc)" "alive (slots sc ! v)" by auto
    then show ?thesis using 1(1) None by auto
  next
    case (Some v)
    then show ?thesis using fired_alive [of sc v sc1] 1(1) by auto
  qed
qed simp

text \<open>
  C33. Someone always runs: in a well-formed bank with a living slot, whatever the potentials and
  whoever died, a slot fires within seven steps, and it is a living one.
\<close>

theorem some_slot_fires:
  assumes "sched_ok t sc" "t + 7 \<le> u32_max" "a < length (slots sc)" "alive (slots sc ! a)"
  shows "\<exists>w sc'. first_winner 7 sc = Some (Some w, sc') \<and> w < length (slots sc) \<and> alive (slots sc ! w)"
proof -
  have "nonneg (potential (slots sc ! a))" using assms by (simp add: sched_ok_def list_all_length)
  then have "f_le (level 0) (potential (slots sc ! a))" by (cases "potential (slots sc ! a)") auto
  from someone_fires [OF assms(1,2) _ _ assms(3,4) this] show ?thesis by auto
qed

theorem some_slot_fires_witness:
  "\<exists>w sc'. first_winner 7 (sched_kill 0 (sched_new 3 (f_of_ratio 6 10))) = Some (Some w, sc') \<and> w < 3"
proof -
  let ?sc = "sched_kill 0 (sched_new 3 (f_of_ratio 6 10))"
  have "sched_ok 0 ?sc" by (intro sched_kill_ok sched_new_ok gaps_ok)
  moreover have "length (slots ?sc) = 3" "alive (slots ?sc ! 1)" by (simp_all add: sched_kill_def sched_new_def new_slot_def)
  ultimately show ?thesis using some_slot_fires [of 0 ?sc 1] by auto
qed

text \<open>
  The fullest slot fires: when a step selects slot \<open>w\<close>, its charged potential reaches the threshold
  and no living slot at the threshold has more; it alone is reset and counted, every other slot keeps
  its charge, and dead slots keep theirs; when a step selects none, no living slot reached the
  threshold.
\<close>

theorem fullest_fires:
  assumes "sched_step sc = Some (r, sc')"
  shows "(\<forall>i < length (slots sc). r \<noteq> Some i \<longrightarrow> slots sc' ! i = charge sc i)
    \<and> (case r of
         None \<Rightarrow> \<forall>i < length (slots sc). alive (slots sc ! i) \<longrightarrow> \<not> f_le (threshold sc) (potential (charge sc i))
       | Some w \<Rightarrow> w < length (slots sc) \<and> alive (slots sc ! w) \<and> f_le (threshold sc) (potential (charge sc w))
           \<and> slots sc' ! w = (charge sc w)\<lparr>potential := f_zero, slot_fires := slot_fires (slots sc ! w) + 1\<rparr>
           \<and> (\<forall>i < length (slots sc). alive (slots sc ! i) \<longrightarrow> f_le (threshold sc) (potential (charge sc i))
                \<longrightarrow> f_le (potential (charge sc i)) (potential (charge sc w))))"
proof (cases "winner (threshold sc) (charged sc)")
  case None
  then show ?thesis using assms winner_None [of "threshold sc" "charged sc"] by (auto simp: sched_step_alt ready_def)
next
  case (Some w)
  have w: "w < length (slots sc)" using winner_Some(1) [OF Some] by simp
  have "alive (slots sc ! w)" "f_le (threshold sc) (potential (charge sc w))"
    using winner_Some(2) [OF Some] w by (simp_all add: ready_def)
  moreover have "f_le (potential (charge sc i)) (potential (charge sc w))"
    if "i < length (slots sc)" "alive (slots sc ! i)" "f_le (threshold sc) (potential (charge sc i))" for i
    using winner_Some(3) [OF Some, of i] that w by (simp add: ready_def)
  moreover have "r = Some w" "sc' = sc\<lparr>slots := (charged sc)[w := (charge sc w)\<lparr>potential := f_zero, slot_fires := slot_fires (slots sc ! w) + 1\<rparr>]\<rparr>"
    using assms w by (auto simp: sched_step_alt Some split: if_splits)
  ultimately show ?thesis using w by (auto simp: nth_list_update)
qed

theorem fullest_fires_witness:
  "\<exists>r sc'. sched_step (sched_new 2 (f_of_ratio 6 10)) = Some (r, sc') \<and> (r \<noteq> Some 1 \<longrightarrow> slots sc' ! 1 = charge (sched_new 2 (f_of_ratio 6 10)) 1)"
proof -
  let ?sc = "sched_new 2 (f_of_ratio 6 10)"
  obtain r sc' where s: "sched_step ?sc = Some (r, sc')"
    using sched_step_total [OF sched_new_ok [OF gaps_ok(1)], of 2] by auto
  then show ?thesis using fullest_fires [OF s] by (simp add: sched_new_def)
qed

lemma trial_ok:
  assumes g: "gap_ok g"
  shows "\<exists>lo hi. run_trial g = Some (lo, hi, 7) \<and> lo \<le> hi \<and> hi \<le> 2400"
proof -
  obtain sc where 1: "sched_steps 400 (sched_new 8 g) = Some sc" "sched_ok (0 + 400) sc" "map alive (slots sc) = replicate 8 True"
    using sched_steps_total [OF sched_new_ok [OF g], of 400 8] by (auto simp: sched_new_def new_slot_def)
  have l: "length (slots sc) = 8" using 1(3) [THEN arg_cong, of length] by simp
  have "sched_ok 400 (sched_kill 3 sc)" using sched_kill_ok [OF 1(2)] by simp
  from sched_steps_total [OF this, of 2000] obtain sd where
    2: "sched_steps 2000 (sched_kill 3 sc) = Some sd" "sched_ok (400 + 2000) sd" "map alive (slots sd) = map alive (slots (sched_kill 3 sc))" by auto
  have "map alive (slots sd) = (replicate 8 True)[3 := False]"
    using l by (simp add: 2(3) sched_kill_def map_update 1(3))
  then have a: "map alive (slots sd) = [True, True, True, False, True, True, True, True]" by (simp add: numeral_eq_Suc)
  define c where "c = map slot_fires (filter alive (slots sd))"
  have "length c = length (filter id (map alive (slots sd)))" by (simp add: c_def filter_map comp_def)
  then have l: "length c = 7" by (simp add: a)
  then have c: "finite (set c)" "set c \<noteq> {}" by auto
  have "\<forall>n \<in> set c. n \<le> 2400" using 2(2) by (auto simp: c_def sched_ok_def list_all_iff)
  then have "Max (set c) \<le> 2400" using Max_in [OF c] by blast
  moreover have "Min (set c) \<le> Max (set c)" using Max_ge [OF c(1) Min_in [OF c]] .
  moreover have "run_trial g = Some (Min (set c), Max (set c), length c)"
    using 1(1) 2(1) c(2) by (simp add: run_trial_def Let_def c_def [symmetric])
  ultimately show ?thesis using l by auto
qed

text \<open>
  The bank survives the injected defect: with the topological and with the trivial gap the boot-time
  trial runs to its end without a panic, and all seven other slots are still there to be counted.
\<close>

theorem trial_survives:
  "(\<exists>lo hi. run_trial (f_of_ratio 6 10) = Some (lo, hi, 7) \<and> lo \<le> hi \<and> hi \<le> 2400)
   \<and> (\<exists>lo hi. run_trial (f_of_ratio (- 6) 10) = Some (lo, hi, 7) \<and> lo \<le> hi \<and> hi \<le> 2400)"
  using trial_ok gaps_ok by blast

end
