(* ===== verification/Tasks.thy ===== *)
theory Tasks
  imports Scheduler "HOL-Library.Monad_Syntax"
begin

text \<open>
  Preemptive tasks (\<open>kernel/src/tasks.rs\<close>): the context switch, the task table, and what the timer
  does with it.  The processor state holds the registers a switch saves and the words of the stacks
  (a stack pointer moves by eight, so a stack is a sequence of words).  \<open>current = None\<close> stands for
  \<open>usize::MAX\<close>: the kernel's own context runs.  A Rust panic is \<open>None\<close>.  The address of a new
  stack is an argument, the heap allocator's answer (\<open>None\<close> when the 100 KiB heap has no 16 KiB left, which
  panics), and so are those of the entry functions (the linker's).
\<close>

section \<open>The context switch\<close>

record core =
  c_rbx :: u64
  c_rbp :: u64
  c_r12 :: u64
  c_r13 :: u64
  c_r14 :: u64
  c_r15 :: u64
  c_rsp :: u64
  c_rip :: u64
  c_if :: bool
  c_mem :: "u64 \<Rightarrow> u64"

definition push :: "u64 \<Rightarrow> core \<Rightarrow> core" where
  "push v c = c\<lparr>c_rsp := c_rsp c - 8, c_mem := (c_mem c)(c_rsp c - 8 := v)\<rparr>"

definition save_context :: "core \<Rightarrow> core" where
  "save_context c =
     push (c_r15 c) (push (c_r14 c) (push (c_r13 c) (push (c_r12 c) (push (c_rbp c) (push (c_rbx c) c)))))"

text \<open>Six pops, \<open>sti\<close> and \<open>ret\<close> from the frame at \<open>sp\<close>.\<close>

definition load_context :: "u64 \<Rightarrow> core \<Rightarrow> core" where
  "load_context sp c =
     c\<lparr>c_r15 := c_mem c sp, c_r14 := c_mem c (sp + 8), c_r13 := c_mem c (sp + 16), c_r12 := c_mem c (sp + 24),
       c_rbp := c_mem c (sp + 32), c_rbx := c_mem c (sp + 40), c_if := True, c_rip := c_mem c (sp + 48), c_rsp := sp + 56\<rparr>"

text \<open>
  A call of \<open>switch_to\<close> that returns to \<open>ret\<close>: the value stored through the old pointer and the
  processor on the new stack.
\<close>

definition switch_to :: "u64 \<Rightarrow> u64 \<Rightarrow> core \<Rightarrow> u64 \<times> core" where
  "switch_to ret new_rsp c = (let c = save_context (push ret c) in (c_rsp c, load_context new_rsp c))"

section \<open>The task table\<close>

definition STACK_SIZE :: nat where [simp]: "STACK_SIZE = 4096 * 4"
definition N_TASKS :: nat where [simp]: "N_TASKS = 3"
definition MAX_TASKS :: nat where [simp]: "MAX_TASKS = 8"
definition MAX_TICKS :: nat where [simp]: "MAX_TICKS = 60"

record task =
  ctx_rsp :: u64
  stack_base :: u64

record tasking =
  tasks :: "task option list"
  zombies :: "nat list"
  kernel_rsp :: u64
  current :: "nat option"
  sched :: "scheduler option"
  total_switches :: nat
  demo_active :: bool
  background :: bool
  counters :: "nat list"
  core :: core

definition boot_tasking :: "core \<Rightarrow> tasking" where
  "boot_tasking c =
     \<lparr>tasks = [], zombies = [], kernel_rsp = 0, current = None, sched = None, total_switches = 0,
      demo_active = False, background = False, counters = replicate MAX_TASKS 0, core = c\<rparr>"

text \<open>A zeroed stack with the frame \<open>switch_to\<close> expects at its top.\<close>

definition task_new :: "u64 option \<Rightarrow> u64 \<Rightarrow> core \<Rightarrow> (task \<times> core) option" where
  "task_new stack entry c =
     (case stack of None \<Rightarrow> None | Some base \<Rightarrow>
      let m = (\<lambda>a. if unat (a - base) < STACK_SIZE then 0 else c_mem c a);
          sp = base + of_nat STACK_SIZE - 8;
          m = m(sp := entry);
          (sp, m) = ((\<lambda>(sp, m). (sp - 8, m(sp - 8 := 0))) ^^ 6) (sp, m)
      in Some (\<lparr>ctx_rsp = sp, stack_base = base\<rparr>, c\<lparr>c_mem := m\<rparr>))"

text \<open>Storing through \<open>current_rsp_ptr\<close>; a missing task is a panic.\<close>

definition store_rsp :: "nat option \<Rightarrow> u64 \<Rightarrow> tasking \<Rightarrow> tasking option" where
  "store_rsp who v st =
     (case who of
        None \<Rightarrow> Some (st\<lparr>kernel_rsp := v\<rparr>)
      | Some i \<Rightarrow>
          if i < length (tasks st)
          then (case tasks st ! i of
                  None \<Rightarrow> None
                | Some t \<Rightarrow> Some (st\<lparr>tasks := (tasks st)[i := Some (t\<lparr>ctx_rsp := v\<rparr>)]\<rparr>))
          else None)"

definition switch_context :: "nat option \<Rightarrow> u64 \<Rightarrow> u64 \<Rightarrow> tasking \<Rightarrow> tasking option" where
  "switch_context who ret new_rsp st =
     (case switch_to ret new_rsp (core st) of (old, c) \<Rightarrow> store_rsp who old (st\<lparr>core := c\<rparr>))"

definition run_preemption_demo :: "(nat \<Rightarrow> u64 option) \<Rightarrow> (nat \<Rightarrow> u64) \<Rightarrow> u64 \<Rightarrow> tasking \<Rightarrow> tasking option" where
  "run_preemption_demo stacks entries ret st = do {
     (t0, c) \<leftarrow> task_new (stacks 0) (entries 0) (core st);
     (t1, c) \<leftarrow> task_new (stacks 1) (entries 1) c;
     (t2, c) \<leftarrow> task_new (stacks 2) (entries 2) c;
     let st = st\<lparr>tasks := tasks st @ [Some t0, Some t1, Some t2], core := c, sched := Some (sched_new N_TASKS (f_of_ratio 6 10)),
                 total_switches := 0, current := Some 0, demo_active := True\<rparr>;
     (case tasks st ! 0 of
        None \<Rightarrow> None
      | Some t \<Rightarrow> switch_context None ret (ctx_rsp t) st) }"

definition enable_background_scheduling :: "tasking \<Rightarrow> tasking" where
  "enable_background_scheduling st = st\<lparr>background := True\<rparr>"

definition spawn :: "u64 option \<Rightarrow> (nat \<Rightarrow> u64) \<Rightarrow> tasking \<Rightarrow> (nat option \<times> tasking) option" where
  "spawn stack entries st =
     (case sched st of
        None \<Rightarrow> Some (None, st)
      | Some sc \<Rightarrow>
          let place = (\<lambda>i st. case task_new stack (entries i) (core st) of
                  None \<Rightarrow> None
                | Some (t, c) \<Rightarrow> Some (Some i, st\<lparr>counters := (counters st)[i := 0], tasks := (tasks st)[i := Some t], core := c\<rparr>))
          in (case position (\<lambda>t. t = None) (tasks st) of
                Some i \<Rightarrow> place i (st\<lparr>sched := Some (sched_revive i sc)\<rparr>)
              | None \<Rightarrow>
                  if MAX_TASKS \<le> length (tasks st) then Some (None, st)
                  else let i = length (tasks st);
                           (added, sc) = add_slot sc
                       in if added \<noteq> i then None
                          else place i (st\<lparr>tasks := tasks st @ [None], sched := Some sc\<rparr>)))"

definition kill_task :: "nat \<Rightarrow> tasking \<Rightarrow> bool \<times> tasking" where
  "kill_task i st =
     (case sched st of
        None \<Rightarrow> (False, st)
      | Some sc \<Rightarrow>
          if length (slots sc) \<le> i \<or> \<not> alive (slots sc ! i) then (False, st)
          else let st = st\<lparr>sched := Some (sched_kill i sc)\<rparr>
               in (True, if current st = Some i then st\<lparr>zombies := zombies st @ [i]\<rparr>
                         else st\<lparr>tasks := (tasks st)[i := None]\<rparr>))"

definition reap_zombies :: "tasking \<Rightarrow> tasking" where
  "reap_zombies st =
     st\<lparr>zombies := filter (\<lambda>i. Some i = current st) (zombies st),
        tasks := fold (\<lambda>i ts. if Some i = current st then ts else ts[i := None]) (zombies st) (tasks st)\<rparr>"

definition live_tasks :: "tasking \<Rightarrow> (nat \<times> nat) list" where
  "live_tasks st =
     (case sched st of
        None \<Rightarrow> []
      | Some sc \<Rightarrow> map (\<lambda>i. (i, counters st ! i)) (filter (\<lambda>i. tasks st ! i \<noteq> None \<and> alive (slots sc ! i)) [0..<length (tasks st)]))"

section \<open>The timer\<close>

definition dispatch_next :: "u64 \<Rightarrow> tasking \<Rightarrow> tasking option" where
  "dispatch_next ret st =
     (case sched st of
        None \<Rightarrow> Some st
      | Some sc \<Rightarrow>
          (case sched_step sc of
             None \<Rightarrow> None
           | Some (next, sc) \<Rightarrow>
               let st = st\<lparr>sched := Some sc\<rparr>
               in (case next of
                     None \<Rightarrow> Some st
                   | Some i \<Rightarrow>
                       if current st = Some i then Some st
                       else if length (tasks st) \<le> i then None
                       else (case tasks st ! i of
                               None \<Rightarrow> None
                             | Some t \<Rightarrow> switch_context (current st) ret (ctx_rsp t) (st\<lparr>current := Some i\<rparr>)))))"

definition timer_tick_switch :: "u64 \<Rightarrow> tasking \<Rightarrow> tasking option" where
  "timer_tick_switch ret st =
     (let st = reap_zombies st in
      if demo_active st then
        let ticks = total_switches st;
            st = st\<lparr>total_switches := (ticks + 1) mod 2 ^ 64\<rparr>
        in if u64_max < ticks + 1 then None
           else if MAX_TICKS \<le> ticks + 1
           then switch_context (current st) ret (kernel_rsp st) (st\<lparr>demo_active := False, current := None\<rparr>)
           else dispatch_next ret st
      else if background st then dispatch_next ret st
      else Some st)"

text \<open>One round of a worker's loop.\<close>

definition worker_count :: "nat \<Rightarrow> tasking \<Rightarrow> tasking" where
  "worker_count i st = st\<lparr>counters := (counters st)[i := (counters st ! i + 1) mod 2 ^ 64]\<rparr>"

end
