(* ===== verification/Tasks_Props.thy ===== *)
theory Tasks_Props
  imports Tasks
begin

text \<open>
  What task switching guarantees: a switch away and back restores the context, no history makes the
  task table panic as long as the heap grants the stacks (and what happens when it does not), the bounded demo gives the processor back to the kernel, and a killed task is
  left and reclaimed.
\<close>

section \<open>Contexts\<close>

definition frame_addrs :: "u64 \<Rightarrow> u64 list" where
  "frame_addrs sp = map (\<lambda>k. sp + 8 * of_nat k) [0..<7]"

lemma frame_addrs_eq: "frame_addrs sp = [sp, sp + 8, sp + 16, sp + 24, sp + 32, sp + 40, sp + 48]"
  by (simp add: frame_addrs_def upt_rec)

lemma save_frame:
  "let s = save_context (push ret c) in
     c_rsp s = c_rsp c - 56 \<and> map (c_mem s) (frame_addrs (c_rsp s)) = [c_r15 c, c_r14 c, c_r13 c, c_r12 c, c_rbp c, c_rbx c, ret]
     \<and> (\<forall>a. a \<notin> set (frame_addrs (c_rsp s)) \<longrightarrow> c_mem s a = c_mem c a)"
  by (simp add: save_context_def push_def frame_addrs_eq Let_def)

lemma load_frame:
  assumes "map (c_mem c) (frame_addrs sp) = [r15, r14, r13, r12, bp, bx, ret]"
  shows "load_context sp c = c\<lparr>c_r15 := r15, c_r14 := r14, c_r13 := r13, c_r12 := r12, c_rbp := bp, c_rbx := bx,
    c_if := True, c_rip := ret, c_rsp := sp + 56\<rparr>"
  using assms by (simp add: load_context_def frame_addrs_eq)

text \<open>The context a processor resumes after a call of \<open>switch_to\<close> has returned to \<open>ret\<close>.\<close>

definition same_context :: "core \<Rightarrow> u64 \<Rightarrow> core \<Rightarrow> bool" where
  "same_context c ret c' \<longleftrightarrow> c_rbx c' = c_rbx c \<and> c_rbp c' = c_rbp c \<and> c_r12 c' = c_r12 c \<and> c_r13 c' = c_r13 c
     \<and> c_r14 c' = c_r14 c \<and> c_r15 c' = c_r15 c \<and> c_rsp c' = c_rsp c \<and> c_rip c' = ret \<and> c_if c'"

lemma switch_back:
  assumes s: "switch_to ret sp c = (old, c1)"
    and m: "\<forall>a \<in> set (frame_addrs old). c_mem c2 a = c_mem c1 a"
    and d: "set (frame_addrs (c_rsp c2 - 56)) \<inter> set (frame_addrs old) = {}"
  shows "same_context c ret (snd (switch_to ret2 old c2))"
proof -
  let ?s = "save_context (push ret c)" and ?s2 = "save_context (push ret2 c2)"
  have old: "old = c_rsp ?s" "c1 = load_context sp ?s" using s by (auto simp: switch_to_def Let_def)
  note f = save_frame [of ret c, unfolded Let_def] and f2 = save_frame [of ret2 c2, unfolded Let_def]
  have "c_mem c1 = c_mem ?s" by (simp add: old(2) load_context_def)
  then have "map (c_mem ?s2) (frame_addrs old) = map (c_mem ?s) (frame_addrs old)"
    using m d f2 by (intro map_cong refl) (metis IntI empty_iff)
  also have "\<dots> = [c_r15 c, c_r14 c, c_r13 c, c_r12 c, c_rbp c, c_rbx c, ret]" using f unfolding old(1) by blast
  finally have fr: "map (c_mem ?s2) (frame_addrs old) = [c_r15 c, c_r14 c, c_r13 c, c_r12 c, c_rbp c, c_rbx c, ret]" .
  have "snd (switch_to ret2 old c2) = load_context old ?s2" by (simp add: switch_to_def Let_def)
  then show ?thesis unfolding load_frame [OF fr] using f by (simp add: same_context_def old(1))
qed

lemma new_task_frame:
  assumes "task_new (Some base) entry c = Some (tk, c')"
  shows "map (c_mem c') (frame_addrs (ctx_rsp tk)) = [0, 0, 0, 0, 0, 0, entry]" "ctx_rsp tk + 56 = base + of_nat STACK_SIZE"
proof -
  define top where "top = base + of_nat STACK_SIZE"
  define m where "m = (\<lambda>a. if unat (a - base) < STACK_SIZE then 0 else c_mem c a)"
  have six: "(6 :: nat) = Suc (Suc (Suc (Suc (Suc (Suc 0)))))" by simp
  have "task_new (Some base) entry c = Some (\<lparr>ctx_rsp = top - 56, stack_base = base\<rparr>,
      c\<lparr>c_mem := m(top - 8 := entry, top - 16 := 0, top - 24 := 0, top - 32 := 0, top - 40 := 0, top - 48 := 0, top - 56 := 0)\<rparr>)"
    unfolding task_new_def option.case top_def [symmetric] m_def [symmetric] Let_def six funpow.simps by simp
  then have t: "tk = \<lparr>ctx_rsp = top - 56, stack_base = base\<rparr>"
    "c' = c\<lparr>c_mem := m(top - 8 := entry, top - 16 := 0, top - 24 := 0, top - 32 := 0, top - 40 := 0, top - 48 := 0, top - 56 := 0)\<rparr>"
    using assms by simp_all
  show "map (c_mem c') (frame_addrs (ctx_rsp tk)) = [0, 0, 0, 0, 0, 0, entry]"
    unfolding t by (simp add: frame_addrs_eq)
  show "ctx_rsp tk + 56 = base + of_nat STACK_SIZE" unfolding t top_def by simp
qed

lemma new_task: "stack \<noteq> None \<Longrightarrow> \<exists>tk c'. task_new stack entry c = Some (tk, c')"
  by (auto simp: task_new_def Let_def case_prod_beta)

text \<open>A task cannot be made when the heap has no room for its stack: the kernel panics, also where \<open>MAX_TASKS\<close> allows one more.\<close>

lemma no_stack_panics:
  assumes "sched st = Some sc" "None \<in> set (tasks st) \<or> length (tasks st) < MAX_TASKS"
  shows "spawn None entries st = None"
  using assms by (auto simp: spawn_def task_new_def Let_def position_None split: option.split prod.split)

section \<open>Well-formed task tables\<close>

definition bank_ok :: "nat \<Rightarrow> scheduler \<Rightarrow> tasking \<Rightarrow> bool" where
  "bank_ok t sc st \<longleftrightarrow> sched_ok t sc \<and> length (tasks st) = length (slots sc) \<and> length (tasks st) \<le> MAX_TASKS
     \<and> (\<forall>i < length (tasks st). alive (slots sc ! i) \<longrightarrow> tasks st ! i \<noteq> None)
     \<and> (\<forall>i < length (tasks st). tasks st ! i \<noteq> None \<longrightarrow> alive (slots sc ! i) \<or> i \<in> set (zombies st))
     \<and> (\<forall>z \<in> set (zombies st). z < length (tasks st) \<and> \<not> alive (slots sc ! z) \<and> tasks st ! z \<noteq> None)
     \<and> (\<forall>i. current st = Some i \<longrightarrow> i < length (tasks st) \<and> tasks st ! i \<noteq> None)
     \<and> (demo_active st \<longrightarrow> total_switches st < MAX_TICKS)"

lemma bank_ok_same:
  "tasks st' = tasks st \<Longrightarrow> zombies st' = zombies st \<Longrightarrow> current st' = current st \<Longrightarrow> demo_active st' = demo_active st \<Longrightarrow>
   total_switches st' = total_switches st \<Longrightarrow> bank_ok t sc st \<Longrightarrow> bank_ok t sc st'"
  by (auto simp: bank_ok_def)

definition tasks_ok :: "nat \<Rightarrow> tasking \<Rightarrow> bool" where
  "tasks_ok t st \<longleftrightarrow> (\<exists>sc. sched st = Some sc \<and> bank_ok t sc st)"

lemma tasks_okE:
  assumes "tasks_ok t st"
  obtains sc where "sched st = Some sc" "bank_ok t sc st"
  using assms by (auto simp: tasks_ok_def)

lemma store_rsp_ok:
  assumes ok: "bank_ok t sc st" and who: "\<And>i. who = Some i \<Longrightarrow> i < length (tasks st) \<and> tasks st ! i \<noteq> None"
  shows "\<exists>st'. store_rsp who v st = Some st' \<and> bank_ok t sc st' \<and> sched st' = sched st \<and> current st' = current st \<and> core st' = core st
    \<and> zombies st' = zombies st \<and> demo_active st' = demo_active st \<and> background st' = background st
    \<and> (who \<noteq> None \<longrightarrow> kernel_rsp st' = kernel_rsp st) \<and> (who = None \<longrightarrow> kernel_rsp st' = v)"
proof (cases who)
  case None
  have "bank_ok t sc (st\<lparr>kernel_rsp := v\<rparr>)" by (rule bank_ok_same [OF _ _ _ _ _ ok]) simp_all
  then show ?thesis using None by (simp add: store_rsp_def)
next
  case (Some i)
  then obtain tk where i: "i < length (tasks st)" "tasks st ! i = Some tk" using who by auto
  have "bank_ok t sc (st\<lparr>tasks := (tasks st)[i := Some (tk\<lparr>ctx_rsp := v\<rparr>)]\<rparr>)"
    using ok i by (auto simp: bank_ok_def nth_list_update)
  then show ?thesis by (simp add: store_rsp_def Some i)
qed

lemma switch_context_ok:
  assumes ok: "bank_ok t sc st" and who: "\<And>i. who = Some i \<Longrightarrow> i < length (tasks st) \<and> tasks st ! i \<noteq> None"
  shows "\<exists>st'. switch_context who ret sp st = Some st' \<and> bank_ok t sc st' \<and> sched st' = sched st \<and> current st' = current st
    \<and> zombies st' = zombies st \<and> demo_active st' = demo_active st \<and> background st' = background st
    \<and> core st' = snd (switch_to ret sp (core st))
    \<and> (who \<noteq> None \<longrightarrow> kernel_rsp st' = kernel_rsp st) \<and> (who = None \<longrightarrow> kernel_rsp st' = fst (switch_to ret sp (core st)))"
proof -
  obtain old c where s: "switch_to ret sp (core st) = (old, c)" by (metis prod.collapse)
  have "bank_ok t sc (st\<lparr>core := c\<rparr>)" by (rule bank_ok_same [OF _ _ _ _ _ ok]) simp_all
  from store_rsp_ok [OF this, of who old] who show ?thesis by (auto simp: switch_context_def s)
qed

lemma reap_fold:
  "length (fold (\<lambda>i ts. if Some i = cur then ts else ts[i := None]) zs ts) = length ts"
  "i < length ts \<Longrightarrow> fold (\<lambda>i ts. if Some i = cur then ts else ts[i := None]) zs ts ! i
     = (if i \<in> set zs \<and> cur \<noteq> Some i then None else ts ! i)"
  by (induction zs arbitrary: ts) (auto simp: nth_list_update)

lemma reap_ok:
  assumes "bank_ok t sc st"
  shows "bank_ok t sc (reap_zombies st)"
proof -
  define ts where "ts = fold (\<lambda>i ts. if Some i = current st then ts else ts[i := None]) (zombies st) (tasks st)"
  have ts: "length ts = length (tasks st)"
    "i < length (tasks st) \<Longrightarrow> ts ! i = (if i \<in> set (zombies st) \<and> current st \<noteq> Some i then None else tasks st ! i)" for i
    by (simp_all add: ts_def reap_fold)
  show ?thesis using assms unfolding bank_ok_def reap_zombies_def ts_def [symmetric] by (auto simp: ts)
qed

lemma reap_simps [simp]:
  "sched (reap_zombies st) = sched st" "current (reap_zombies st) = current st" "demo_active (reap_zombies st) = demo_active st"
  "background (reap_zombies st) = background st" "total_switches (reap_zombies st) = total_switches st"
  "kernel_rsp (reap_zombies st) = kernel_rsp st" "core (reap_zombies st) = core st"
  by (simp_all add: reap_zombies_def)

lemma bank_ok_step:
  assumes ok: "bank_ok t sc st" and s: "sched_ok u sc'" "map alive (slots sc') = map alive (slots sc)"
  shows "bank_ok u sc' (st\<lparr>sched := Some sc'\<rparr>)"
proof -
  have l: "length (slots sc') = length (slots sc)" using s(2) by (metis length_map)
  have "i < length (slots sc) \<Longrightarrow> alive (slots sc' ! i) = alive (slots sc ! i)" for i using s(2) l by (metis nth_map)
  then show ?thesis using ok s(1) l by (auto simp: bank_ok_def)
qed

lemma dispatch_ok:
  assumes ok: "bank_ok t sc st" and sc: "sched st = Some sc" and t: "t < u32_max"
  shows "\<exists>st' r sc'. dispatch_next ret st = Some st' \<and> sched_step sc = Some (r, sc') \<and> sched st' = Some sc' \<and> bank_ok (Suc t) sc' st'
    \<and> map alive (slots sc') = map alive (slots sc) \<and> current st' = (case r of None \<Rightarrow> current st | Some w \<Rightarrow> Some w)
    \<and> zombies st' = zombies st \<and> demo_active st' = demo_active st \<and> background st' = background st
    \<and> (current st \<noteq> None \<longrightarrow> kernel_rsp st' = kernel_rsp st)"
proof -
  have "sched_ok t sc" using ok by (simp add: bank_ok_def)
  from sched_step_total [OF this t] obtain r sc' where
    s: "sched_step sc = Some (r, sc')" "sched_ok (Suc t) sc'" "map alive (slots sc') = map alive (slots sc)" by blast
  note b = bank_ok_step [OF ok s(2,3)]
  show ?thesis
  proof (cases "r = None \<or> r = current st")
    case True
    then have "dispatch_next ret st = Some (st\<lparr>sched := Some sc'\<rparr>)"
      by (auto simp: dispatch_next_def Let_def sc s(1) split: option.split)
    then show ?thesis using True s b by (auto split: option.split)
  next
    case False
    then obtain w where w: "r = Some w" "current st \<noteq> Some w" by auto
    have "w < length (slots sc)" "alive (slots sc ! w)" using fired_alive [OF s(1) [unfolded w(1)]] by simp_all
    then obtain tk where tk: "w < length (tasks st)" "tasks st ! w = Some tk" using ok by (auto simp: bank_ok_def)
    have b': "bank_ok (Suc t) sc' (st\<lparr>sched := Some sc', current := Some w\<rparr>)" using b tk by (auto simp: bank_ok_def)
    have who: "current st = Some i \<Longrightarrow> i < length (tasks st) \<and> tasks st ! i \<noteq> None" for i using ok by (simp add: bank_ok_def)
    have "dispatch_next ret st = switch_context (current st) ret (ctx_rsp tk) (st\<lparr>sched := Some sc', current := Some w\<rparr>)"
      using w tk by (simp add: dispatch_next_def sc s(1))
    then show ?thesis using switch_context_ok [OF b', of "current st" ret "ctx_rsp tk"] who s w by auto
  qed
qed

lemma dispatch_total_switches: "dispatch_next ret st = Some st' \<Longrightarrow> total_switches st' = total_switches st"
  by (auto simp: dispatch_next_def switch_context_def store_rsp_def Let_def split: option.splits prod.splits if_splits)

lemma tick_ok:
  assumes ok: "bank_ok t sc st" and sc: "sched st = Some sc" and t: "t < u32_max"
  shows "\<exists>st' sc'. timer_tick_switch ret st = Some st' \<and> sched st' = Some sc' \<and> bank_ok (Suc t) sc' st'"
proof -
  let ?st = "reap_zombies st"
  have ok': "bank_ok t sc ?st" by (rule reap_ok [OF ok])
  have mono: "bank_ok t sc s \<Longrightarrow> bank_ok (Suc t) sc s" for s by (auto simp: bank_ok_def sched_ok_def list_all_iff le_SucI)
  show ?thesis
  proof (cases "demo_active st")
    case True
    then have ts: "total_switches st < 60" using ok by (simp add: bank_ok_def)
    then have m: "Suc (total_switches st) mod 2 ^ 64 = Suc (total_switches st)" by simp
    show ?thesis
    proof (cases "60 \<le> total_switches st + 1")
      case end_demo: True
      have b: "bank_ok t sc (?st\<lparr>total_switches := total_switches st + 1, demo_active := False, current := None\<rparr>)"
        using ok' by (auto simp: bank_ok_def)
      have "timer_tick_switch ret st = switch_context (current st) ret (kernel_rsp st)
          (?st\<lparr>total_switches := total_switches st + 1, demo_active := False, current := None\<rparr>)"
        using True end_demo ts m by (simp add: timer_tick_switch_def Let_def)
      moreover have "current st = Some i \<Longrightarrow> i < length (tasks ?st) \<and> tasks ?st ! i \<noteq> None" for i using ok' by (simp add: bank_ok_def)
      ultimately show ?thesis using switch_context_ok [OF b, of "current st" ret "kernel_rsp st"] sc mono by auto
    next
      case False
      have b: "bank_ok t sc (?st\<lparr>total_switches := total_switches st + 1\<rparr>)" using ok' False by (auto simp: bank_ok_def)
      have "timer_tick_switch ret st = dispatch_next ret (?st\<lparr>total_switches := total_switches st + 1\<rparr>)"
        using True False ts m by (simp add: timer_tick_switch_def Let_def)
      then show ?thesis using dispatch_ok [OF b _ t, of ret] sc by auto
    qed
  next
    case False
    then have "timer_tick_switch ret st = (if background st then dispatch_next ret ?st else Some ?st)"
      by (simp add: timer_tick_switch_def Let_def)
    then show ?thesis using dispatch_ok [OF ok' _ t, of ret] sc ok' mono by auto
  qed
qed

lemma spawn_ok:
  assumes ok: "bank_ok t sc st" and sc: "sched st = Some sc"
  shows "\<exists>r st' sc'. spawn (Some base) entries st = Some (r, st') \<and> sched st' = Some sc' \<and> bank_ok t sc' st'"
proof (cases "position (\<lambda>t. t = None) (tasks st)")
  case (Some i)
  then have i: "i < length (tasks st)" "tasks st ! i = None" by (auto simp: position_Some)
  obtain tk c where tk: "task_new (Some base) (entries i) (core st) = Some (tk, c)" using new_task by (metis option.distinct(1))
  have "bank_ok t (sched_revive i sc)
      (st\<lparr>sched := Some (sched_revive i sc), counters := (counters st)[i := 0], tasks := (tasks st)[i := Some tk], core := c\<rparr>)"
    using ok i sched_revive_ok [of t sc i] by (auto simp: bank_ok_def sched_revive_def nth_list_update new_slot_def)
  then show ?thesis by (simp add: spawn_def sc Some tk)
next
  case None
  show ?thesis
  proof (cases "MAX_TASKS \<le> length (tasks st)")
    case True
    then show ?thesis using ok by (simp add: spawn_def sc None)
  next
    case False
    let ?i = "length (tasks st)"
    obtain tk c where tk: "task_new (Some base) (entries ?i) (core st) = Some (tk, c)" using new_task by (metis option.distinct(1))
    have l: "length (slots sc) = ?i" using ok by (simp add: bank_ok_def)
    obtain sc' where a: "add_slot sc = (?i, sc')" by (simp add: add_slot_def Let_def l)
    have s: "slots sc' = slots sc @ [new_slot]" "sched_ok t sc'"
      using a add_slot_ok [of t sc] ok by (auto simp: add_slot_def Let_def bank_ok_def)
    have "bank_ok t sc' (st\<lparr>sched := Some sc', counters := (counters st)[?i := 0], tasks := tasks st @ [Some tk], core := c\<rparr>)"
      using ok False s l by (auto simp: bank_ok_def nth_append new_slot_def less_Suc_eq)
    then show ?thesis using False by (simp add: spawn_def sc None a tk)
  qed
qed

lemma kill_task_ok:
  assumes ok: "bank_ok t sc st" and sc: "sched st = Some sc"
  shows "\<exists>sc'. sched (snd (kill_task i st)) = Some sc' \<and> bank_ok t sc' (snd (kill_task i st))"
proof (cases "length (slots sc) \<le> i \<or> \<not> alive (slots sc ! i)")
  case True
  then show ?thesis using ok sc by (simp add: kill_task_def)
next
  case False
  then have i: "i < length (slots sc)" "alive (slots sc ! i)" by auto
  let ?st = "st\<lparr>sched := Some (sched_kill i sc)\<rparr>"
  have k: "kill_task i st = (True, if current st = Some i then ?st\<lparr>zombies := zombies st @ [i]\<rparr> else ?st\<lparr>tasks := (tasks st)[i := None]\<rparr>)"
    using i by (simp add: kill_task_def sc Let_def)
  have "sched_ok t (sched_kill i sc)" using ok by (intro sched_kill_ok) (simp add: bank_ok_def)
  moreover have "length (slots (sched_kill i sc)) = length (slots sc)"
    "\<And>j. j < length (slots sc) \<Longrightarrow> alive (slots (sched_kill i sc) ! j) = (alive (slots sc ! j) \<and> j \<noteq> i)"
    using i by (auto simp: sched_kill_def nth_list_update)
  ultimately have s: "sched_ok t (sched_kill i sc)" "length (slots (sched_kill i sc)) = length (slots sc)"
    "\<And>j. j < length (slots sc) \<Longrightarrow> alive (slots (sched_kill i sc) ! j) = (alive (slots sc ! j) \<and> j \<noteq> i)" by blast+
  have "bank_ok t (sched_kill i sc) (snd (kill_task i st))"
  proof (cases "current st = Some i")
    case True
    then show ?thesis using ok i s by (auto simp: k bank_ok_def)
  next
    case False
    have z: "i \<notin> set (zombies st)" using ok i by (auto simp: bank_ok_def)
    show ?thesis using ok i s z False by (auto simp: k bank_ok_def nth_list_update)
  qed
  then show ?thesis using i by (auto simp: k)
qed

section \<open>Histories\<close>

text \<open>
  What happens after the demo has started: timer interrupts (with the address their switch returns
  to), the shell's commands, and code that runs and changes the registers and stacks at will.
\<close>

datatype task_op = TimerTick u64 | EnableBackground | SpawnTask "u64 option" | KillTask nat | RunCode core | CountUp nat

definition task_do :: "(nat \<Rightarrow> u64) \<Rightarrow> task_op \<Rightarrow> tasking \<Rightarrow> tasking option" where
  "task_do entries x st =
     (case x of
        TimerTick ret \<Rightarrow> timer_tick_switch ret st
      | EnableBackground \<Rightarrow> Some (enable_background_scheduling st)
      | SpawnTask stack \<Rightarrow> map_option snd (spawn stack entries st)
      | KillTask i \<Rightarrow> Some (snd (kill_task i st))
      | RunCode c \<Rightarrow> Some (st\<lparr>core := c\<rparr>)
      | CountUp i \<Rightarrow> Some (worker_count i st))"

fun task_run :: "(nat \<Rightarrow> u64) \<Rightarrow> task_op list \<Rightarrow> tasking \<Rightarrow> tasking option" where
  "task_run entries [] st = Some st"
| "task_run entries (x # xs) st = (case task_do entries x st of None \<Rightarrow> None | Some st \<Rightarrow> task_run entries xs st)"

text \<open>The heap has room for the stack.\<close>

definition granted :: "task_op \<Rightarrow> bool" where
  "granted x = (case x of SpawnTask stack \<Rightarrow> stack \<noteq> None | _ \<Rightarrow> True)"

definition is_tick :: "task_op \<Rightarrow> bool" where
  "is_tick x = (case x of TimerTick _ \<Rightarrow> True | _ \<Rightarrow> False)"

definition timer_ticks :: "task_op list \<Rightarrow> nat" where
  "timer_ticks xs = length (filter is_tick xs)"

lemma timer_ticks_simps [simp]: "timer_ticks [] = 0" "timer_ticks (x # xs) = (if is_tick x then Suc (timer_ticks xs) else timer_ticks xs)"
  by (simp_all add: timer_ticks_def)

lemma task_do_ok:
  assumes ok: "tasks_ok t st" and t: "t < u32_max" and g: "granted x"
  shows "\<exists>st'. task_do entries x st = Some st' \<and> tasks_ok (if is_tick x then Suc t else t) st'"
proof -
  obtain sc where sc: "sched st = Some sc" "bank_ok t sc st" using ok by (rule tasks_okE)
  have s: "bank_ok t sc st'" if "tasks st' = tasks st" "zombies st' = zombies st" "current st' = current st"
    "demo_active st' = demo_active st" "total_switches st' = total_switches st" for st'
    using bank_ok_same [OF that sc(2)] .
  show ?thesis
  proof (cases x)
    case (TimerTick ret)
    then show ?thesis using tick_ok [OF sc(2,1) t, of ret] by (auto simp: task_do_def is_tick_def tasks_ok_def)
  next
    case (SpawnTask stack)
    then obtain base where "stack = Some base" using g by (auto simp: granted_def)
    then show ?thesis using SpawnTask spawn_ok [OF sc(2,1), of base entries] by (auto simp: task_do_def is_tick_def tasks_ok_def)
  next
    case (KillTask i)
    then show ?thesis using kill_task_ok [OF sc(2,1), of i] by (auto simp: task_do_def is_tick_def tasks_ok_def)
  qed (use sc(1) s in \<open>auto simp: task_do_def is_tick_def tasks_ok_def enable_background_scheduling_def worker_count_def\<close>)
qed

lemma task_run_ok:
  "tasks_ok t st \<Longrightarrow> t + timer_ticks xs < u32_max \<Longrightarrow> list_all granted xs \<Longrightarrow>
    \<exists>st'. task_run entries xs st = Some st' \<and> tasks_ok (t + timer_ticks xs) st'"
proof (induction xs arbitrary: t st)
  case (Cons x xs)
  have "t < u32_max" using Cons.prems(2) by simp
  from task_do_ok [OF Cons.prems(1) this, of x entries] Cons.prems(3) obtain st1 where
    1: "task_do entries x st = Some st1" "tasks_ok (if is_tick x then Suc t else t) st1" by auto
  show ?case using Cons.IH [OF 1(2)] Cons.prems(2,3) 1(1) by (auto split: if_splits)
qed simp

lemma task_do_kept:
  assumes "tasks_ok t st" "t < u32_max" "task_do entries x st = Some st'"
  shows "tasks_ok (if is_tick x then Suc t else t) st'"
proof (cases "granted x")
  case True
  with task_do_ok [OF assms(1,2) this, of entries] assms(3) show ?thesis by auto
next
  case False
  then have x: "x = SpawnTask None" by (cases x) (auto simp: granted_def)
  have "spawn None entries st = Some (r, st1) \<Longrightarrow> st1 = st" for r st1
    by (auto simp: spawn_def task_new_def Let_def split: option.splits prod.splits if_splits)
  then show ?thesis using assms by (auto simp: x task_do_def is_tick_def)
qed

text \<open>The demo starts in task 0 and leaves the kernel's frame at \<open>kernel_rsp\<close>.\<close>

definition demo_core :: "(nat \<Rightarrow> u64 option) \<Rightarrow> (nat \<Rightarrow> u64) \<Rightarrow> core \<Rightarrow> core" where
  "demo_core stacks entries c = fold (\<lambda>i c. snd (the (task_new (stacks i) (entries i) c))) [0, 1, 2] c"

lemma demo_starts:
  assumes "stacks 0 \<noteq> None" "stacks 1 \<noteq> None" "stacks 2 \<noteq> None"
  shows "\<exists>st sp. run_preemption_demo stacks entries ret (boot_tasking c) = Some st \<and> tasks_ok 0 st \<and> demo_active st \<and> current st = Some 0
    \<and> total_switches st = 0 \<and> (kernel_rsp st, core st) = switch_to ret sp (demo_core stacks entries c)"
proof -
  obtain t0 c0 where t0: "task_new (stacks 0) (entries 0) c = Some (t0, c0)" using new_task [OF assms(1)] by blast
  obtain t1 c1 where t1: "task_new (stacks 1) (entries 1) c0 = Some (t1, c1)" using new_task [OF assms(2)] by blast
  obtain t2 c2 where t2: "task_new (stacks 2) (entries 2) c1 = Some (t2, c2)" using new_task [OF assms(3)] by blast
  let ?sc = "sched_new N_TASKS (f_of_ratio 6 10)"
  let ?st = "(boot_tasking c)\<lparr>tasks := [Some t0, Some t1, Some t2], core := c2, sched := Some ?sc,
                   total_switches := 0, current := Some 0, demo_active := True\<rparr>"
  have "sched_ok 0 ?sc" by (rule sched_new_ok [OF gaps_ok(1)])
  then have b: "bank_ok 0 ?sc ?st" by (auto simp: bank_ok_def boot_tasking_def sched_new_def new_slot_def nth_Cons split: nat.split)
  have r: "run_preemption_demo stacks entries ret (boot_tasking c) = switch_context None ret (ctx_rsp t0) ?st"
    by (simp add: run_preemption_demo_def t0 t1 t2 boot_tasking_def del: One_nat_def)
  have "demo_core stacks entries c = c2" by (simp add: demo_core_def t0 t1 t2 del: One_nat_def)
  then show ?thesis using switch_context_ok [OF b, of None ret "ctx_rsp t0"] unfolding r
    by (auto simp: tasks_ok_def switch_context_def store_rsp_def split: prod.splits) metis
qed

lemma demo_stacks: "run_preemption_demo stacks entries ret st = Some st' \<Longrightarrow> stacks 0 \<noteq> None \<and> stacks 1 \<noteq> None \<and> stacks 2 \<noteq> None"
  by (auto simp: run_preemption_demo_def task_new_def split: bind_splits option.splits)

definition idle_core :: core where
  "idle_core = \<lparr>c_rbx = 0, c_rbp = 0, c_r12 = 0, c_r13 = 0, c_r14 = 0, c_r15 = 0, c_rsp = 0x800000, c_rip = 0, c_if = False,
     c_mem = (\<lambda>_. 0)\<rparr>"

text \<open>
  C16. Task switching never panics as long as the heap grants the stacks: if it has room for those of the
  demo's three tasks and for each task spawned, then after the demo has started any history of timer interrupts
  (fewer than \<open>2 ^ 32 - 1\<close>), of spawned and killed tasks and of running code runs to its
  end, in a state where every living slot has a task, the running task has not been freed, and a
  dead task that still has its stack awaits reaping.  (The 100 KiB heap holds at most six stacks, fewer than
  \<open>MAX_TASKS\<close>; \<open>no_stack_panics\<close> says what happens then.)
\<close>

theorem tasks_never_panic:
  assumes "timer_ticks xs < u32_max" "\<forall>i < N_TASKS. stacks i \<noteq> None" "list_all granted xs"
  shows "\<exists>st st'. run_preemption_demo stacks entries ret (boot_tasking c) = Some st \<and> task_run entries xs st = Some st'
    \<and> tasks_ok (timer_ticks xs) st' \<and> (case current st' of None \<Rightarrow> True | Some i \<Rightarrow> i < length (tasks st') \<and> tasks st' ! i \<noteq> None)"
proof -
  obtain st where st: "run_preemption_demo stacks entries ret (boot_tasking c) = Some st" "tasks_ok 0 st"
    using demo_starts [of stacks entries ret c] assms(2) by auto
  obtain st' where st': "task_run entries xs st = Some st'" "tasks_ok (0 + timer_ticks xs) st'"
    using task_run_ok [OF st(2) _ assms(3), of entries] assms(1) by auto
  have "case current st' of None \<Rightarrow> True | Some i \<Rightarrow> i < length (tasks st') \<and> tasks st' ! i \<noteq> None"
    using st'(2) by (auto simp: tasks_ok_def bank_ok_def split: option.split)
  then show ?thesis using st st' by auto
qed

theorem tasks_never_panic_witness:
  "\<exists>st st'. run_preemption_demo (\<lambda>i. Some (0x100000 * of_nat i)) (\<lambda>i. 16 * of_nat i) 99 (boot_tasking idle_core) = Some st
     \<and> task_run (\<lambda>i. 16 * of_nat i) [TimerTick 7, KillTask 0, EnableBackground, TimerTick 7, SpawnTask (Some 0x900000)] st = Some st'"
  using tasks_never_panic [of "[TimerTick 7, KillTask 0, EnableBackground, TimerTick 7, SpawnTask (Some 0x900000)]"
      "\<lambda>i. Some (0x100000 * of_nat i)"]
  by (fastforce simp: is_tick_def granted_def)

section \<open>The end of the demo\<close>

definition demo_running :: "nat \<Rightarrow> u64 \<Rightarrow> tasking \<Rightarrow> bool" where
  "demo_running n k st \<longleftrightarrow> demo_active st \<and> current st \<noteq> None \<and> total_switches st = n \<and> kernel_rsp st = k"

lemma spawn_keeps:
  assumes "spawn base entries st = Some (r, st')"
  shows "demo_active st' = demo_active st \<and> current st' = current st \<and> total_switches st' = total_switches st
    \<and> kernel_rsp st' = kernel_rsp st \<and> background st' = background st"
proof -
  show ?thesis using assms
    by (cases "sched st"; cases "position (\<lambda>t. t = None) (tasks st)")
      (auto simp: spawn_def case_prod_beta Let_def split: if_splits option.splits)
qed

lemma demo_op:
  assumes ok: "tasks_ok t st" and t: "t < u32_max" and d: "demo_running n k st" and n: "is_tick x \<Longrightarrow> n < 59"
    and r: "task_do entries x st = Some st'"
  shows "demo_running (if is_tick x then Suc n else n) k st'"
proof -
  obtain sc where sc: "sched st = Some sc" "bank_ok t sc st" using ok by (rule tasks_okE)
  show ?thesis
  proof (cases x)
    case (TimerTick ret)
    let ?st = "(reap_zombies st)\<lparr>total_switches := n + 1\<rparr>"
    have n': "n < 59" using n TimerTick by (simp add: is_tick_def)
    have b: "bank_ok t sc ?st" using reap_ok [OF sc(2)] n' by (auto simp: bank_ok_def)
    have "timer_tick_switch ret st = dispatch_next ret ?st"
      using d n' by (simp add: timer_tick_switch_def Let_def demo_running_def)
    then have "dispatch_next ret ?st = Some st'" using r by (simp add: task_do_def TimerTick)
    then show ?thesis using dispatch_ok [OF b _ t, of ret] sc(1) d dispatch_total_switches [of ret ?st st']
      by (auto simp: demo_running_def TimerTick is_tick_def split: option.splits)
  next
    case (SpawnTask base)
    then show ?thesis using r d spawn_keeps [of base entries st] by (auto simp: demo_running_def task_do_def is_tick_def)
  qed (use r d in \<open>auto simp: demo_running_def task_do_def is_tick_def enable_background_scheduling_def worker_count_def kill_task_def Let_def
        split: option.splits if_splits\<close>)
qed

lemma demo_run:
  "tasks_ok t st \<Longrightarrow> t + timer_ticks xs < u32_max \<Longrightarrow> demo_running n k st \<Longrightarrow> n + timer_ticks xs \<le> 59 \<Longrightarrow> task_run entries xs st = Some st' \<Longrightarrow>
   demo_running (n + timer_ticks xs) k st' \<and> tasks_ok (t + timer_ticks xs) st'"
proof (induction xs arbitrary: t n st)
  case (Cons x xs)
  have t: "t < u32_max" using Cons.prems(2) by simp
  obtain st1 where st1: "task_do entries x st = Some st1" using Cons.prems(5) by (auto split: option.splits)
  have 1: "task_do entries x st = Some st1" "tasks_ok (if is_tick x then Suc t else t) st1"
    using st1 task_do_kept [OF Cons.prems(1) t st1] by simp_all
  have "demo_running (if is_tick x then Suc n else n) k st1"
    using demo_op [OF Cons.prems(1) t Cons.prems(3) _ 1(1)] Cons.prems(4) by (auto split: if_splits)
  from Cons.IH [OF 1(2) _ this] Cons.prems(2,4,5) 1(1) show ?case by (auto split: if_splits)
qed simp

text \<open>
  C17. The demo gives the processor back: the sixtieth timer interrupt after its start, whatever was spawned,
  killed and run in between, ends it with the kernel's own context current, and if that context's
  saved frame has not been overwritten, all registers a call preserves, the stack pointer and the
  return address are those of the call that started the demo, and interrupts are enabled.
\<close>

theorem demo_returns_to_kernel:
  assumes st: "run_preemption_demo bases entries ret (boot_tasking c) = Some st0" "task_run entries xs st0 = Some st"
    and n: "timer_ticks xs = 59"
  shows "\<exists>st'. timer_tick_switch ret2 st = Some st' \<and> current st' = None \<and> \<not> demo_active st'
    \<and> ((\<forall>a \<in> set (frame_addrs (kernel_rsp st0)). c_mem (core st) a = c_mem (core st0) a)
       \<longrightarrow> set (frame_addrs (c_rsp (core st) - 56)) \<inter> set (frame_addrs (kernel_rsp st0)) = {}
       \<longrightarrow> same_context (demo_core bases entries c) ret (core st'))"
proof -
  obtain sp where d: "tasks_ok 0 st0" "demo_running 0 (kernel_rsp st0) st0"
    "switch_to ret sp (demo_core bases entries c) = (kernel_rsp st0, core st0)"
    using demo_starts [of bases entries ret c] demo_stacks [OF st(1)] st(1) by (auto simp: demo_running_def)
  have r: "demo_running 59 (kernel_rsp st0) st" "tasks_ok 59 st"
    using demo_run [OF d(1) _ d(2) _ st(2)] n by simp_all
  obtain sc where sc: "sched st = Some sc" "bank_ok 59 sc st" using r(2) by (rule tasks_okE)
  let ?st = "(reap_zombies st)\<lparr>total_switches := 60, demo_active := False, current := None\<rparr>"
  have b: "bank_ok 59 sc ?st" using reap_ok [OF sc(2)] by (auto simp: bank_ok_def)
  have "current st = Some i \<Longrightarrow> i < length (tasks ?st) \<and> tasks ?st ! i \<noteq> None" for i
    using reap_ok [OF sc(2)] by (simp add: bank_ok_def)
  from switch_context_ok [OF b this, of "current st" ret2 "kernel_rsp st"] obtain st' where
    st': "switch_context (current st) ret2 (kernel_rsp st) ?st = Some st'" "current st' = None" "\<not> demo_active st'"
      "core st' = snd (switch_to ret2 (kernel_rsp st) (core st))" by auto
  have "timer_tick_switch ret2 st = switch_context (current st) ret2 (kernel_rsp st) ?st"
    using r(1) by (simp add: timer_tick_switch_def Let_def demo_running_def)
  then have tick: "timer_tick_switch ret2 st = Some st'" using st'(1) by (rule trans)
  have k: "kernel_rsp st = kernel_rsp st0" using r(1) by (simp add: demo_running_def)
  have "same_context (demo_core bases entries c) ret (core st')"
    if "\<forall>a \<in> set (frame_addrs (kernel_rsp st0)). c_mem (core st) a = c_mem (core st0) a"
      "set (frame_addrs (c_rsp (core st) - 56)) \<inter> set (frame_addrs (kernel_rsp st0)) = {}"
    unfolding st'(4) k by (rule switch_back [OF d(3) that])
  then show ?thesis using tick st'(2,3) by blast
qed

theorem demo_returns_to_kernel_witness:
  "\<exists>st0 st st'. run_preemption_demo (\<lambda>i. Some (0x100000 * of_nat i)) (\<lambda>i. 16 * of_nat i) 99 (boot_tasking idle_core) = Some st0
     \<and> task_run (\<lambda>i. 16 * of_nat i) (replicate 59 (TimerTick 7)) st0 = Some st \<and> timer_tick_switch 7 st = Some st' \<and> current st' = None"
proof -
  let ?b = "\<lambda>i. Some (0x100000 * of_nat i :: u64)" and ?e = "\<lambda>i. 16 * of_nat i :: u64" and ?xs = "replicate 59 (TimerTick 7)"
  have n: "timer_ticks ?xs = 59" by (simp add: timer_ticks_def is_tick_def)
  have g: "list_all granted ?xs" by (simp add: list_all_iff granted_def)
  obtain st0 where st0: "run_preemption_demo ?b ?e 99 (boot_tasking idle_core) = Some st0" "tasks_ok 0 st0"
    using demo_starts [of ?b ?e 99 idle_core] by auto
  obtain st where st: "task_run ?e ?xs st0 = Some st" using task_run_ok [OF st0(2) _ g, of ?e] n by auto
  from demo_returns_to_kernel [OF st0(1) st n, of 7] st0(1) st show ?thesis by blast
qed

section \<open>Killed tasks\<close>

definition is_quiet :: "task_op \<Rightarrow> bool" where
  "is_quiet x = (case x of TimerTick _ \<Rightarrow> True | RunCode _ \<Rightarrow> True | CountUp _ \<Rightarrow> True | _ \<Rightarrow> False)"

text \<open>Background mode with slot \<open>i\<close> dead and slot \<open>a\<close> living.\<close>

definition dying :: "nat \<Rightarrow> nat \<Rightarrow> nat \<Rightarrow> scheduler \<Rightarrow> tasking \<Rightarrow> bool" where
  "dying t i a sc st \<longleftrightarrow> sched st = Some sc \<and> bank_ok t sc st \<and> background st \<and> \<not> demo_active st
     \<and> i < length (slots sc) \<and> \<not> alive (slots sc ! i) \<and> a < length (slots sc) \<and> alive (slots sc ! a)"

lemma dying_tick:
  assumes d: "dying t i a sc st" and t: "t < u32_max"
  shows "\<exists>st' r sc'. timer_tick_switch ret st = Some st' \<and> sched_step sc = Some (r, sc') \<and> dying (Suc t) i a sc' st'
    \<and> current st' = (case r of None \<Rightarrow> current st | Some w \<Rightarrow> Some w) \<and> (current st \<noteq> Some i \<longrightarrow> tasks st' ! i = None)"
proof -
  have sc: "sched st = Some sc" "bank_ok t sc st" using d by (simp_all add: dying_def)
  have "timer_tick_switch ret st = dispatch_next ret (reap_zombies st)"
    using d by (simp add: timer_tick_switch_def Let_def dying_def)
  moreover have "sched (reap_zombies st) = Some sc" using sc(1) by simp
  note dispatch_ok [OF reap_ok [OF sc(2)] this t, of ret, unfolded reap_simps]
  ultimately obtain st' r sc' where
    s: "timer_tick_switch ret st = Some st'" "sched_step sc = Some (r, sc')" "sched st' = Some sc'" "bank_ok (Suc t) sc' st'"
      "map alive (slots sc') = map alive (slots sc)" "current st' = (case r of None \<Rightarrow> current st | Some w \<Rightarrow> Some w)"
      "zombies st' = zombies (reap_zombies st)" "demo_active st' = demo_active st" "background st' = background st" by metis
  have l: "length (slots sc') = length (slots sc)" using s(5) by (metis length_map)
  have al: "j < length (slots sc) \<Longrightarrow> alive (slots sc' ! j) = alive (slots sc ! j)" for j using s(5) l by (metis nth_map)
  have "dying (Suc t) i a sc' st'" using d s l al by (simp add: dying_def)
  moreover have "tasks st' ! i = None" if "current st \<noteq> Some i"
  proof -
    have "i \<notin> set (zombies st')" using that s(7) by (auto simp: reap_zombies_def)
    moreover have "i < length (tasks st')" "\<not> alive (slots sc' ! i)" using s(4) d l al by (auto simp: dying_def bank_ok_def)
    ultimately show ?thesis using s(4) unfolding bank_ok_def by blast
  qed
  ultimately show ?thesis using s by blast
qed

lemma quiet_other:
  assumes "is_quiet x" "\<not> is_tick x" "task_do entries x st = Some st'"
  shows "sched st' = sched st \<and> tasks st' = tasks st \<and> current st' = current st \<and> (dying t i a sc st \<longrightarrow> dying t i a sc st')"
  using assms bank_ok_same [of st' st t sc]
  by (cases x) (auto simp: is_quiet_def is_tick_def task_do_def worker_count_def dying_def)

lemma gone_run:
  "dying t i a sc st \<Longrightarrow> t + timer_ticks xs < u32_max \<Longrightarrow> list_all is_quiet xs \<Longrightarrow> current st \<noteq> Some i \<Longrightarrow>
   0 < timer_ticks xs \<or> tasks st ! i = None \<Longrightarrow> task_run entries xs st = Some st' \<Longrightarrow> tasks st' ! i = None \<and> current st' \<noteq> Some i"
proof (induction xs arbitrary: t sc st)
  case (Cons x xs)
  obtain st1 where 1: "task_do entries x st = Some st1" "task_run entries xs st1 = Some st'"
    using Cons.prems(6) by (auto split: option.splits)
  show ?case
  proof (cases "is_tick x")
    case True
    then obtain ret where x: "x = TimerTick ret" by (cases x) (auto simp: is_tick_def)
    have t: "t < u32_max" using Cons.prems(2) by simp
    from dying_tick [OF Cons.prems(1) t, of ret] 1(1) obtain r sc1 where
      s: "sched_step sc = Some (r, sc1)" "dying (Suc t) i a sc1 st1" "current st1 = (case r of None \<Rightarrow> current st | Some w \<Rightarrow> Some w)"
        "tasks st1 ! i = None" using Cons.prems(4) by (auto simp: x task_do_def)
    have "current st1 \<noteq> Some i" using s(3) fired_alive [of sc i sc1] s(1) Cons.prems(1,4) by (auto simp: dying_def split: option.splits)
    from Cons.IH [OF s(2) _ _ this _ 1(2)] show ?thesis using Cons.prems(2,3) True s(4) by simp
  next
    case False
    have "is_quiet x" using Cons.prems(3) by simp
    from quiet_other [OF this False 1(1), of t i a sc] Cons.prems
    have q: "dying t i a sc st1" "current st1 \<noteq> Some i" "0 < timer_ticks xs \<or> tasks st1 ! i = None" using False by auto
    show ?thesis using Cons.IH [OF q(1) _ _ q(2,3) 1(2)] Cons.prems(2,3) False by simp
  qed
qed auto

lemma dying_run:
  "dying t i a sc st \<Longrightarrow> t + timer_ticks xs < u32_max \<Longrightarrow> list_all is_quiet xs \<Longrightarrow> f_le (level k) (potential (slots sc ! a)) \<Longrightarrow>
   k + n = 7 \<Longrightarrow> 0 < n \<Longrightarrow> n < timer_ticks xs \<Longrightarrow> task_run entries xs st = Some st' \<Longrightarrow> tasks st' ! i = None \<and> current st' \<noteq> Some i"
proof (induction xs arbitrary: t sc st k n)
  case (Cons x xs)
  obtain st1 where 1: "task_do entries x st = Some st1" "task_run entries xs st1 = Some st'"
    using Cons.prems(8) by (auto split: option.splits)
  show ?case
  proof (cases "is_tick x")
    case True
    then obtain ret where x: "x = TimerTick ret" by (cases x) (auto simp: is_tick_def)
    have t: "t < u32_max" using Cons.prems(2) by simp
    from dying_tick [OF Cons.prems(1) t, of ret] 1(1) obtain r sc1 where
      s: "sched_step sc = Some (r, sc1)" "dying (Suc t) i a sc1 st1" "current st1 = (case r of None \<Rightarrow> current st | Some w \<Rightarrow> Some w)"
      by (auto simp: x task_do_def)
    show ?thesis
    proof (cases r)
      case None
      have "sched_ok t sc" "a < length (slots sc)" "alive (slots sc ! a)" using Cons.prems(1) by (auto simp: dying_def bank_ok_def)
      from idle_step [OF this(1) s(1) [unfolded None] this(2,3) Cons.prems(4)]
      have lv: "f_le (level (Suc k)) (potential (slots sc1 ! a))" "Suc k \<noteq> 7" by auto
      have "Suc k + (n - 1) = 7" "0 < n - 1" "n - 1 < timer_ticks xs" using Cons.prems(5,6,7) lv(2) True by auto
      from Cons.IH [OF s(2) _ _ lv(1) this 1(2)] show ?thesis using Cons.prems(2,3) True by simp
    next
      case (Some w)
      then have "current st1 \<noteq> Some i" using s(3) fired_alive [of sc w sc1] s(1) Cons.prems(1) by (auto simp: dying_def)
      moreover have "0 < timer_ticks xs" using Cons.prems(6,7) True by simp
      ultimately show ?thesis using gone_run [OF s(2) _ _ _ _ 1(2)] Cons.prems(2,3) True by simp
    qed
  next
    case False
    have "is_quiet x" using Cons.prems(3) by simp
    from quiet_other [OF this False 1(1), of t i a sc] Cons.prems(1) have q: "dying t i a sc st1" by auto
    show ?thesis using Cons.IH [OF q _ _ Cons.prems(4,5,6) _ 1(2)] Cons.prems(2,3,7) False by simp
  qed
qed simp

text \<open>
  C32. A killed task is left and reclaimed, even by its own kill: with background scheduling on and some
  other slot living, after a kill and eight timer interrupts, whatever code runs in between, the
  killed task is not running and its stack has been given back.
\<close>

theorem killed_task_reclaimed:
  assumes ok: "tasks_ok t st" and bg: "background st" "\<not> demo_active st" and sc: "sched st = Some sc"
    and i: "i < length (slots sc)" "alive (slots sc ! i)" and a: "a < length (slots sc)" "alive (slots sc ! a)" "a \<noteq> i"
    and xs: "list_all is_quiet xs" "8 \<le> timer_ticks xs" "t + timer_ticks xs < u32_max"
  shows "fst (kill_task i st) \<and> (\<exists>st'. task_run entries xs (snd (kill_task i st)) = Some st' \<and> tasks st' ! i = None \<and> current st' \<noteq> Some i)"
proof -
  have b: "bank_ok t sc st" using ok sc by (auto simp: tasks_ok_def)
  let ?st = "snd (kill_task i st)" and ?sc = "sched_kill i sc"
  have k: "fst (kill_task i st)" "sched ?st = Some ?sc" "background ?st" "\<not> demo_active ?st"
    using i bg by (simp_all add: kill_task_def sc Let_def)
  have "bank_ok t ?sc ?st" using kill_task_ok [OF b sc, of i] k(2) by simp
  moreover have s: "length (slots ?sc) = length (slots sc)" "\<not> alive (slots ?sc ! i)" "slots ?sc ! a = slots sc ! a"
    using i a by (simp_all add: sched_kill_def)
  ultimately have d: "dying t i a ?sc ?st" using k i(1) a by (simp add: dying_def)
  have "nonneg (potential (slots sc ! a))" using b a(1) by (simp add: bank_ok_def sched_ok_def list_all_length)
  then have lv: "f_le (level 0) (potential (slots ?sc ! a))" unfolding s(3) by (cases "potential (slots sc ! a)") auto
  have "tasks_ok t ?st" using d by (auto simp: tasks_ok_def dying_def)
  moreover have "list_all granted xs" using xs(1) by (auto simp: list_all_iff is_quiet_def granted_def split: task_op.splits)
  ultimately obtain st' where st': "task_run entries xs ?st = Some st'" using task_run_ok [OF _ xs(3)] by blast
  have "tasks st' ! i = None \<and> current st' \<noteq> Some i"
    by (rule dying_run [OF d xs(3,1) lv _ _ _ st', of 7]) (use xs(2) in simp_all)
  then show ?thesis using k(1) st' by blast
qed

definition demo_tasking :: tasking where
  "demo_tasking = (boot_tasking idle_core)\<lparr>tasks := replicate 2 (Some \<lparr>ctx_rsp = 0, stack_base = 0\<rparr>),
     sched := Some (sched_new 2 (f_of_ratio 6 10)), current := Some 0, background := True\<rparr>"

theorem killed_task_reclaimed_witness:
  "\<exists>st'. task_run (\<lambda>i. 0) (replicate 8 (TimerTick 7)) (snd (kill_task 0 demo_tasking)) = Some st' \<and> tasks st' ! 0 = None"
proof -
  have "sched_ok 0 (sched_new 2 (f_of_ratio 6 10))" by (rule sched_new_ok [OF gaps_ok(1)])
  then have ok: "tasks_ok 0 demo_tasking"
    by (auto simp: tasks_ok_def bank_ok_def demo_tasking_def boot_tasking_def sched_new_def new_slot_def)
  have "timer_ticks (replicate 8 (TimerTick 7)) = 8" "list_all is_quiet (replicate 8 (TimerTick 7))"
    by (simp_all add: timer_ticks_def is_tick_def is_quiet_def list_all_length)
  with killed_task_reclaimed [OF ok, of "sched_new 2 (f_of_ratio 6 10)" 0 1 "replicate 8 (TimerTick 7)" "\<lambda>i. 0"] show ?thesis
    by (auto simp: demo_tasking_def boot_tasking_def sched_new_def new_slot_def)
qed

end
