(* ===== verification/Console.thy ===== *)
theory Console
  imports Prelude "HOL-Library.Monad_Syntax"
begin

text \<open>
  The text console and the drawing primitives of \<open>kernel/src/console.rs\<close> on a framebuffer of
  bytes.  A \<open>usize\<close> is a \<open>nat\<close> and an \<open>isize\<close> an \<open>int\<close>; every addition and multiplication is
  checked against 64 bits, as the build has overflow checks on, and so is every index into the
  framebuffer: \<open>None\<close> is a panic.  The font crate and the framebuffer's description come from
  outside and are parameters: a font gives a glyph (its width and its rows of intensities) for
  some code points, and the width of a cell.
\<close>

section \<open>Checked arithmetic on machine integers\<close>

definition usz :: "nat \<Rightarrow> nat option" where
  "usz n = (if n < 2 ^ 64 then Some n else None)"

definition isz :: "int \<Rightarrow> int option" where
  "isz i = (if - (2 ^ 63) \<le> i \<and> i < 2 ^ 63 then Some i else None)"

definition as_isize :: "nat \<Rightarrow> int" where
  "as_isize n = (if n < 2 ^ 63 then int n else int n - 2 ^ 64)"

definition as_usize :: "int \<Rightarrow> nat" where
  "as_usize i = nat (i mod 2 ^ 64)"

lemma usz_Some [simp]: "n < 2 ^ 64 \<Longrightarrow> usz n = Some n"
  by (simp add: usz_def)

lemma isz_Some [simp]: "\<bar>i\<bar> < 2 ^ 63 \<Longrightarrow> isz i = Some i"
  by (auto simp: isz_def)

lemma as_isize_small [simp]: "n < 2 ^ 63 \<Longrightarrow> as_isize n = int n"
  by (simp add: as_isize_def)

lemma as_usize_small [simp]: "n < 2 ^ 64 \<Longrightarrow> as_usize (int n) = n"
  by (simp add: as_usize_def)

section \<open>The console\<close>

datatype pixel_format = Rgb | Bgr | U8 | Other_format

record fb_info =
  fb_width :: nat
  fb_height :: nat
  stride :: nat
  bytes_per_pixel :: nat
  pixel_format :: pixel_format

record glyph =
  g_width :: nat
  g_raster :: "bytes list"

record font =
  get_raster :: "nat \<Rightarrow> glyph option"
  raster_width :: nat

record console =
  framebuffer :: bytes
  info :: fb_info
  x_pos :: nat
  y_pos :: nat

definition CHAR_RASTER_HEIGHT :: nat where [simp]: "CHAR_RASTER_HEIGHT = 16"
definition BACKUP_CHAR :: nat where [simp]: "BACKUP_CHAR = 63"
definition LINE_SPACING :: nat where [simp]: "LINE_SPACING = 2"
definition LETTER_SPACING :: nat where [simp]: "LETTER_SPACING = 0"
definition BORDER_PADDING :: nat where [simp]: "BORDER_PADDING = 4"

definition get_char_raster :: "font \<Rightarrow> nat \<Rightarrow> glyph option" where
  "get_char_raster f c = (case get_raster f c of Some g \<Rightarrow> Some g | None \<Rightarrow> get_raster f BACKUP_CHAR)"

definition clear :: "console \<Rightarrow> console" where
  "clear c = c\<lparr>x_pos := BORDER_PADDING, y_pos := BORDER_PADDING,
               framebuffer := replicate (length (framebuffer c)) 0\<rparr>"

definition console_new :: "bytes \<Rightarrow> fb_info \<Rightarrow> console" where
  "console_new fb i = clear \<lparr>framebuffer = fb, info = i, x_pos = 0, y_pos = 0\<rparr>"

definition carriage_return :: "console \<Rightarrow> console" where
  "carriage_return c = c\<lparr>x_pos := BORDER_PADDING\<rparr>"

definition newline :: "console \<Rightarrow> console option" where
  "newline c = do {
     y \<leftarrow> usz (y_pos c + (CHAR_RASTER_HEIGHT + LINE_SPACING));
     Some (carriage_return (c\<lparr>y_pos := y\<rparr>)) }"

section \<open>Pixels and glyphs\<close>

definition set_byte :: "console \<Rightarrow> nat \<Rightarrow> u8 \<Rightarrow> console option" where
  "set_byte c i v =
     (if i < length (framebuffer c) then Some (c\<lparr>framebuffer := (framebuffer c)[i := v]\<rparr>) else None)"

definition write_pixel :: "console \<Rightarrow> nat \<Rightarrow> nat \<Rightarrow> u8 \<Rightarrow> console option" where
  "write_pixel c x y intensity = do {
     r \<leftarrow> usz (y * stride (info c));
     p \<leftarrow> usz (r + x);
     off \<leftarrow> usz (p * bytes_per_pixel (info c));
     e \<leftarrow> usz (off + bytes_per_pixel (info c));
     if e > length (framebuffer c) then Some c
     else case pixel_format (info c) of
            U8 \<Rightarrow> set_byte c off intensity
          | Other_format \<Rightarrow> Some c
          | _ \<Rightarrow> do { c \<leftarrow> set_byte c off intensity;
                     c \<leftarrow> set_byte c (off + 1) intensity;
                     set_byte c (off + 2) intensity } }"

fun draw_row :: "console \<Rightarrow> nat \<Rightarrow> nat \<Rightarrow> bytes \<Rightarrow> console option" where
  "draw_row c x y [] = Some c"
| "draw_row c x y (b # bs) = do {
     px \<leftarrow> usz (x_pos c + x);
     py \<leftarrow> usz (y_pos c + y);
     c \<leftarrow> write_pixel c px py b;
     draw_row c (x + 1) y bs }"

fun draw_rows :: "console \<Rightarrow> nat \<Rightarrow> bytes list \<Rightarrow> console option" where
  "draw_rows c y [] = Some c"
| "draw_rows c y (row # rows) = do { c \<leftarrow> draw_row c 0 y row; draw_rows c (y + 1) rows }"

definition draw_rendered_char :: "console \<Rightarrow> glyph \<Rightarrow> console option" where
  "draw_rendered_char c g = draw_rows c 0 (g_raster g)"

definition write_rendered_char :: "console \<Rightarrow> glyph \<Rightarrow> console option" where
  "write_rendered_char c g = do {
     c \<leftarrow> draw_rendered_char c g;
     x \<leftarrow> usz (x_pos c + (g_width g + LETTER_SPACING));
     Some (c\<lparr>x_pos := x\<rparr>) }"

definition write_char :: "font \<Rightarrow> console \<Rightarrow> nat \<Rightarrow> console option" where
  "write_char f c ch =
     (if ch = 10 then newline c
      else if ch = 13 then Some (carriage_return c)
      else do {
        new_xpos \<leftarrow> usz (x_pos c + raster_width f);
        c \<leftarrow> (if new_xpos \<ge> fb_width (info c) then newline c else Some c);
        new_ypos \<leftarrow> usz (y_pos c + CHAR_RASTER_HEIGHT + BORDER_PADDING);
        let c = (if new_ypos \<ge> fb_height (info c) then clear c else c);
        g \<leftarrow> get_char_raster f ch;
        write_rendered_char c g })"

fun write_str :: "font \<Rightarrow> console \<Rightarrow> nat list \<Rightarrow> console option" where
  "write_str f c [] = Some c"
| "write_str f c (ch # s) = do { c \<leftarrow> write_char f c ch; write_str f c s }"

definition backspace :: "font \<Rightarrow> console \<Rightarrow> console option" where
  "backspace f c = do {
     limit \<leftarrow> usz (BORDER_PADDING + raster_width f);
     if x_pos c \<ge> limit then do {
       g \<leftarrow> get_char_raster f 32;
       draw_rendered_char (c\<lparr>x_pos := x_pos c - raster_width f\<rparr>) g }
     else Some c }"

section \<open>Lines and rectangles\<close>

definition draw_pixel :: "console \<Rightarrow> nat \<Rightarrow> nat \<Rightarrow> bool \<Rightarrow> console option" where
  "draw_pixel c x y on = write_pixel c x y (if on then 255 else 0)"

text \<open>One step of the loop of \<open>draw_line\<close>: the next point and error term.\<close>

definition line_step :: "int \<Rightarrow> int \<Rightarrow> int \<Rightarrow> int \<Rightarrow> int \<times> int \<times> int \<Rightarrow> (int \<times> int \<times> int) option" where
  "line_step dx dy sx sy = (\<lambda>(x, y, err). do {
     e2 \<leftarrow> isz (2 * err);
     (err, x) \<leftarrow> (if e2 \<ge> dy then do { err \<leftarrow> isz (err + dy); x \<leftarrow> isz (x + sx); Some (err, x) }
                 else Some (err, x));
     (err, y) \<leftarrow> (if e2 \<le> dx then do { err \<leftarrow> isz (err + dx); y \<leftarrow> isz (y + sy); Some (err, y) }
                 else Some (err, y));
     Some (x, y, err) })"

text \<open>The loop, with fuel; running out of it is \<open>None\<close> as well.\<close>

fun line_loop :: "nat \<Rightarrow> console \<Rightarrow> int \<Rightarrow> int \<Rightarrow> int \<Rightarrow> int \<Rightarrow> int \<Rightarrow> int \<Rightarrow> int \<times> int \<times> int \<Rightarrow> console option"
  where
  "line_loop 0 c x1 y1 dx dy sx sy p = None"
| "line_loop (Suc n) c x1 y1 dx dy sx sy (x, y, err) = do {
     c \<leftarrow> draw_pixel c (as_usize x) (as_usize y) True;
     if x = x1 \<and> y = y1 then Some c
     else do { p \<leftarrow> line_step dx dy sx sy (x, y, err); line_loop n c x1 y1 dx dy sx sy p } }"

definition draw_line :: "console \<Rightarrow> nat \<Rightarrow> nat \<Rightarrow> nat \<Rightarrow> nat \<Rightarrow> console option" where
  "draw_line c ux0 uy0 ux1 uy1 =
     (let x0 = as_isize ux0; y0 = as_isize uy0; x1 = as_isize ux1; y1 = as_isize uy1 in do {
        xd \<leftarrow> isz (x1 - x0); dx \<leftarrow> isz \<bar>xd\<bar>;
        yd \<leftarrow> isz (y1 - y0); ady \<leftarrow> isz \<bar>yd\<bar>;
        let dy = - ady;
        let sx = (if x0 < x1 then 1 else - 1);
        let sy = (if y0 < y1 then 1 else - 1);
        err \<leftarrow> isz (dx + dy);
        line_loop (Suc (nat (max dx ady))) c x1 y1 dx dy sx sy (x0, y0, err) })"

fun draw_lines :: "console \<Rightarrow> nat \<Rightarrow> nat \<Rightarrow> nat list \<Rightarrow> console option" where
  "draw_lines c x x1 [] = Some c"
| "draw_lines c x x1 (row # rows) = do { c \<leftarrow> draw_line c x row x1 row; draw_lines c x x1 rows }"

definition draw_rect :: "console \<Rightarrow> nat \<Rightarrow> nat \<Rightarrow> nat \<Rightarrow> nat \<Rightarrow> bool \<Rightarrow> console option" where
  "draw_rect c x y w h filled =
     (if w = 0 \<or> h = 0 then Some c
      else do {
        xe \<leftarrow> usz (x + w); let x1 = xe - 1;
        ye \<leftarrow> usz (y + h); let y1 = ye - 1;
        if filled then draw_lines c x x1 [y..<Suc y1]
        else do {
          c \<leftarrow> draw_line c x y x1 y;
          c \<leftarrow> draw_line c x y1 x1 y1;
          c \<leftarrow> draw_line c x y x y1;
          draw_line c x1 y x1 y1 } })"

end
