(* ===== verification/Console_Props.thy ===== *)
theory Console_Props
  imports Console
begin

text \<open>
  The framebuffer as a grid of pixels: every drawing operation of the console is a list of
  painted pixels, and painting changes exactly the pixels of the list.  On top of it, what a
  character looks like, where text can go, and that a line is Bresenham's: its loop ends, at
  the far end, never half a pixel away from the ideal line.
\<close>

section \<open>The framebuffer as a grid\<close>

definition fb_ok :: "console \<Rightarrow> bool" where
  "fb_ok c \<longleftrightarrow> bytes_per_pixel (info c) \<le> 8 \<and> 0 < bytes_per_pixel (info c) \<and> stride (info c) < 2 ^ 20 \<and>
     pixel_format (info c) \<noteq> Other_format \<and>
     (pixel_format (info c) \<noteq> U8 \<longrightarrow> 3 \<le> bytes_per_pixel (info c))"

definition pix :: "console \<Rightarrow> nat \<Rightarrow> nat \<Rightarrow> nat" where
  "pix c x y = (y * stride (info c) + x) * bytes_per_pixel (info c)"

definition on_screen :: "console \<Rightarrow> nat \<Rightarrow> nat \<Rightarrow> bool" where
  "on_screen c x y \<longleftrightarrow> x < stride (info c) \<and> pix c x y + bytes_per_pixel (info c) \<le> length (framebuffer c)"

definition pixel_at :: "console \<Rightarrow> nat \<Rightarrow> nat \<Rightarrow> u8" where
  "pixel_at c x y = framebuffer c ! pix c x y"

definition same_screen :: "console \<Rightarrow> console \<Rightarrow> bool" where
  "same_screen c c' \<longleftrightarrow> info c' = info c \<and> x_pos c' = x_pos c \<and> y_pos c' = y_pos c \<and>
     length (framebuffer c') = length (framebuffer c)"

lemma same_screen_refl [simp]: "same_screen c c"
  by (simp add: same_screen_def)

lemma same_screen_trans: "same_screen a b \<Longrightarrow> same_screen b c \<Longrightarrow> same_screen a c"
  by (simp add: same_screen_def)

lemma same_screen_cong:
  assumes "same_screen c c'"
  shows "on_screen c' x y = on_screen c x y" "pix c' x y = pix c x y" "fb_ok c' = fb_ok c"
  using assms by (simp_all add: same_screen_def on_screen_def pix_def fb_ok_def)

lemma grid_inj:
  assumes "x < (s :: nat)" "x' < s" "y * s + x = y' * s + x'"
  shows "x = x' \<and> y = y'"
proof -
  have "(y * s + x) mod s = x" "(y' * s + x') mod s = x'" using assms(1,2) by simp_all
  moreover have "(y * s + x) div s = y" "(y' * s + x') div s = y'" using assms(1,2) by simp_all
  ultimately show ?thesis using assms(3) by metis
qed

lemma apart:
  assumes "p \<noteq> (q :: nat)" "k < b"
  shows "p * b + k \<noteq> q * b"
proof
  assume eq: "p * b + k = q * b"
  have "(p * b + k) div b = p" "(q * b) div b = q" using assms(2) by simp_all
  with eq assms(1) show False by simp
qed

lemma write_pixel_small:
  assumes "fb_ok c" "x < 2 ^ 32" "y < 2 ^ 32"
  shows "write_pixel c x y v =
    (if pix c x y + bytes_per_pixel (info c) > length (framebuffer c) then Some c
     else Some (c\<lparr>framebuffer := (if pixel_format (info c) = U8 then (framebuffer c)[pix c x y := v]
            else (framebuffer c)[pix c x y := v, pix c x y + 1 := v, pix c x y + 2 := v])\<rparr>))"
proof -
  let ?s = "stride (info c)" and ?b = "bytes_per_pixel (info c)"
  have s: "?s < 2 ^ 20" and b: "?b \<le> 8" "0 < ?b" using assms(1) by (auto simp: fb_ok_def)
  have "y * ?s \<le> 2 ^ 32 * 2 ^ 20" using assms(3) s by (intro mult_mono) auto
  then have r: "y * ?s \<le> 2 ^ 52" by simp
  have p: "y * ?s + x < 2 ^ 53" using r assms(2) by simp
  have "(y * ?s + x) * ?b \<le> 2 ^ 53 * 8" using p b by (intro mult_mono) auto
  then have o: "pix c x y \<le> 2 ^ 56" by (simp add: pix_def)
  have 1: "usz (y * ?s) = Some (y * ?s)" using r by simp
  have 2: "usz (y * ?s + x) = Some (y * ?s + x)" using p by simp
  have 3: "usz ((y * ?s + x) * ?b) = Some (pix c x y)" using o by (simp add: pix_def)
  have 4: "usz (pix c x y + ?b) = Some (pix c x y + ?b)" using o b by simp
  have "pixel_format (info c) \<noteq> Other_format" "pixel_format (info c) \<noteq> U8 \<longrightarrow> 3 \<le> ?b"
    using assms(1) by (simp_all add: fb_ok_def)
  then show ?thesis using b
    by (cases "pixel_format (info c)") (auto simp: write_pixel_def 1 2 3 4 set_byte_def)
qed

lemma write_pixel_paints:
  assumes "fb_ok c" "x < 2 ^ 32" "y < 2 ^ 32" "x < stride (info c)"
  obtains c' where "write_pixel c x y v = Some c'" "same_screen c c'"
    "\<And>x' y'. on_screen c x' y' \<Longrightarrow> pixel_at c' x' y' = (if x' = x \<and> y' = y then v else pixel_at c x' y')"
proof -
  let ?s = "stride (info c)" and ?b = "bytes_per_pixel (info c)"
  have b: "0 < ?b" "pixel_format (info c) \<noteq> U8 \<longrightarrow> 3 \<le> ?b" using assms(1) by (auto simp: fb_ok_def)
  note wp = write_pixel_small [OF assms(1,2,3), of v]
  show thesis
  proof (cases "pix c x y + ?b > length (framebuffer c)")
    case True
    then have "\<not> on_screen c x y" by (simp add: on_screen_def)
    then show ?thesis using True by (intro that [of c]) (auto simp: wp)
  next
    case False
    define c' where "c' = c\<lparr>framebuffer := (if pixel_format (info c) = U8 then (framebuffer c)[pix c x y := v]
            else (framebuffer c)[pix c x y := v, pix c x y + 1 := v, pix c x y + 2 := v])\<rparr>"
    have same: "same_screen c c'" by (simp add: same_screen_def c'_def)
    have "pixel_at c' x' y' = (if x' = x \<and> y' = y then v else pixel_at c x' y')"
      if on: "on_screen c x' y'" for x' y'
    proof (cases "x' = x \<and> y' = y")
      case True
      then show ?thesis using False b
        by (auto simp: pixel_at_def c'_def pix_def nth_list_update)
    next
      case ne: False
      have "y * ?s + x \<noteq> y' * ?s + x'"
        using grid_inj [of x ?s x' y y'] assms(4) on ne by (auto simp: on_screen_def)
      then have "pix c x y + k \<noteq> pix c x' y'" if "k < ?b" for k
        using apart [of "y * ?s + x" "y' * ?s + x'" k ?b] that by (simp add: pix_def)
      from this [of 0] this [of 1] this [of 2] b have "pix c x y \<noteq> pix c x' y'"
        "pixel_format (info c) \<noteq> U8 \<longrightarrow> pix c x y + 1 \<noteq> pix c x' y' \<and> pix c x y + 2 \<noteq> pix c x' y'"
        by auto
      moreover have "pix c' x' y' = pix c x' y'" by (simp add: c'_def pix_def)
      ultimately show ?thesis using ne by (auto simp: pixel_at_def c'_def)
    qed
    then show ?thesis using False same by (intro that [of c']) (auto simp: wp c'_def)
  qed
qed

section \<open>Painting lists of pixels\<close>

fun paint :: "console \<Rightarrow> (nat \<times> nat \<times> u8) list \<Rightarrow> console option" where
  "paint c [] = Some c"
| "paint c ((x, y, v) # ps) = do { c \<leftarrow> write_pixel c x y v; paint c ps }"

fun painted :: "(nat \<times> nat \<times> u8) list \<Rightarrow> nat \<Rightarrow> nat \<Rightarrow> u8 \<Rightarrow> u8" where
  "painted [] x y d = d"
| "painted ((x', y', v) # ps) x y d = painted ps x y (if x = x' \<and> y = y' then v else d)"

lemma paint_append: "paint c (ps @ qs) = do { c \<leftarrow> paint c ps; paint c qs }"
  by (induction c ps rule: paint.induct) (auto split: bind_splits)

lemma painted_append: "painted (ps @ qs) x y d = painted qs x y (painted ps x y d)"
  by (induction ps x y d rule: painted.induct) auto

lemma painted_other: "(\<forall>(x', y', v) \<in> set ps. \<not> (x' = x \<and> y' = y)) \<Longrightarrow> painted ps x y d = d"
  by (induction ps x y d rule: painted.induct) auto

lemma painted_const:
  "(\<forall>(x', y', v) \<in> set ps. v = w) \<Longrightarrow> painted ps x y d = (if (x, y, w) \<in> set ps then w else d)"
  by (induction ps x y d rule: painted.induct) auto

lemma paint_paints:
  assumes "fb_ok c" "\<forall>(x, y, v) \<in> set ps. x < stride (info c) \<and> y < 2 ^ 32"
  obtains c' where "paint c ps = Some c'" "same_screen c c'"
    "\<And>x y. on_screen c x y \<Longrightarrow> pixel_at c' x y = painted ps x y (pixel_at c x y)"
  using assms
proof (induction ps arbitrary: c thesis)
  case Nil
  show ?case by (rule Nil(1) [of c]) simp_all
next
  case (Cons p ps)
  obtain x y v where p: "p = (x, y, v)" by (cases p)
  have s: "x < stride (info c)" "y < 2 ^ 32" "stride (info c) < 2 ^ 20"
    using Cons.prems(2,3) by (auto simp: p fb_ok_def)
  then have x: "x < 2 ^ 32" by simp
  obtain d where d: "write_pixel c x y v = Some d" "same_screen c d"
    "\<And>x' y'. on_screen c x' y' \<Longrightarrow> pixel_at d x' y' = (if x' = x \<and> y' = y then v else pixel_at c x' y')"
    using write_pixel_paints [OF Cons.prems(2) x s(2,1), of v] by blast
  have i: "info d = info c" using d(2) by (simp add: same_screen_def)
  have "\<forall>(x, y, v) \<in> set ps. x < stride (info d) \<and> y < 2 ^ 32" using Cons.prems(3) i by auto
  then obtain c' where c': "paint d ps = Some c'" "same_screen d c'"
    "\<And>x y. on_screen d x y \<Longrightarrow> pixel_at c' x y = painted ps x y (pixel_at d x y)"
    using Cons.IH [of d] Cons.prems(2) same_screen_cong(3) [OF d(2)] by blast
  show ?case
    by (rule Cons.prems(1) [of c'])
      (use c' d same_screen_trans [OF d(2) c'(2)] in \<open>auto simp: p same_screen_cong(1) [OF d(2)]\<close>)
qed

section \<open>Text\<close>

definition font_ok :: "font \<Rightarrow> bool" where
  "font_ok f \<longleftrightarrow> 0 < raster_width f \<and> get_raster f BACKUP_CHAR \<noteq> None \<and>
     (\<forall>ch g. get_raster f ch = Some g \<longrightarrow> g_width g = raster_width f \<and> length (g_raster g) = CHAR_RASTER_HEIGHT \<and>
        (\<forall>row \<in> set (g_raster g). length row = raster_width f))"

definition text_ok :: "font \<Rightarrow> console \<Rightarrow> bool" where
  "text_ok f c \<longleftrightarrow> fb_ok c \<and> font_ok f \<and> fb_width (info c) \<le> stride (info c) \<and> fb_height (info c) < 2 ^ 31 \<and>
     BORDER_PADDING + raster_width f < fb_width (info c) \<and>
     BORDER_PADDING + CHAR_RASTER_HEIGHT + BORDER_PADDING < fb_height (info c) \<and>
     x_pos c \<le> fb_width (info c) \<and>
     (x_pos c = BORDER_PADDING \<or> y_pos c + CHAR_RASTER_HEIGHT + BORDER_PADDING < fb_height (info c))"

fun row_px :: "nat \<Rightarrow> nat \<Rightarrow> bytes \<Rightarrow> (nat \<times> nat \<times> u8) list" where
  "row_px x y [] = []"
| "row_px x y (b # bs) = (x, y, b) # row_px (x + 1) y bs"

fun glyph_px :: "nat \<Rightarrow> nat \<Rightarrow> bytes list \<Rightarrow> (nat \<times> nat \<times> u8) list" where
  "glyph_px x y [] = []"
| "glyph_px x y (row # rows) = row_px x y row @ glyph_px x (y + 1) rows"

lemma set_byte_same: "set_byte c i v = Some c' \<Longrightarrow> same_screen c c'"
  by (auto simp: set_byte_def same_screen_def split: if_splits)

lemma write_pixel_same: "write_pixel c x y v = Some c' \<Longrightarrow> same_screen c c'"
  by (auto simp: write_pixel_def split: bind_splits if_splits pixel_format.splits
      dest!: set_byte_same intro: same_screen_trans)

lemma paint_same: "paint c ps = Some c' \<Longrightarrow> same_screen c c'"
  by (induction c ps rule: paint.induct)
    (auto split: bind_splits dest!: write_pixel_same intro: same_screen_trans)

lemma draw_row_paint:
  "x_pos c + x + length bs < 2 ^ 64 \<Longrightarrow> y_pos c + y < 2 ^ 64 \<Longrightarrow>
    draw_row c x y bs = paint c (row_px (x_pos c + x) (y_pos c + y) bs)"
proof (induction bs arbitrary: c x)
  case (Cons b bs)
  have "draw_row d (x + 1) y bs = paint d (row_px (x_pos c + x + 1) (y_pos c + y) bs)"
    if "write_pixel c (x_pos c + x) (y_pos c + y) b = Some d" for d
    using Cons.IH [of d "x + 1"] Cons.prems write_pixel_same [OF that] by (simp add: same_screen_def)
  then show ?case using Cons.prems by (auto split: bind_splits)
qed simp

lemma draw_rows_paint:
  "\<forall>row \<in> set rows. x_pos c + length row < 2 ^ 64 \<Longrightarrow> y_pos c + y + length rows < 2 ^ 64 \<Longrightarrow>
    draw_rows c y rows = paint c (glyph_px (x_pos c) (y_pos c + y) rows)"
proof (induction rows arbitrary: c y)
  case (Cons row rows)
  let ?ps = "row_px (x_pos c) (y_pos c + y) row"
  have r: "draw_row c 0 y row = paint c ?ps"
    using draw_row_paint [of c 0 row y] Cons.prems by simp
  have "draw_rows d (y + 1) rows = paint d (glyph_px (x_pos c) (y_pos c + y + 1) rows)"
    if "paint c ?ps = Some d" for d
    using Cons.IH [of d "y + 1"] Cons.prems paint_same [OF that] by (simp add: same_screen_def)
  then show ?case by (auto simp: r paint_append split: bind_splits)
qed simp

lemma row_px_set: "(x', y', v) \<in> set (row_px x y bs) \<Longrightarrow> y' = y \<and> x \<le> x' \<and> x' < x + length bs"
  by (induction x y bs rule: row_px.induct) auto

lemma glyph_px_set:
  "(x', y', v) \<in> set (glyph_px x y rows) \<Longrightarrow> (\<forall>row \<in> set rows. length row = w) \<Longrightarrow>
    y \<le> y' \<and> y' < y + length rows \<and> x \<le> x' \<and> x' < x + w"
  by (induction x y rows rule: glyph_px.induct) (auto dest: row_px_set)

lemma painted_row:
  "painted (row_px x y bs) x' y' d = (if y' = y \<and> x \<le> x' \<and> x' < x + length bs then bs ! (x' - x) else d)"
proof (induction x y bs arbitrary: d rule: row_px.induct)
  case (2 x y b bs)
  show ?case
  proof (cases "x < x'")
    case True
    then have "x' - x = Suc (x' - Suc x)" by simp
    then show ?thesis using 2 [of d] True by simp
  qed (use 2 in auto)
qed auto

lemma painted_glyph:
  "\<forall>row \<in> set rows. length row = w \<Longrightarrow> painted (glyph_px x y rows) x' y' d =
    (if y \<le> y' \<and> y' < y + length rows \<and> x \<le> x' \<and> x' < x + w then rows ! (y' - y) ! (x' - x) else d)"
proof (induction x y rows arbitrary: d rule: glyph_px.induct)
  case (2 x y row rows)
  have IH: "painted (glyph_px x (y + 1) rows) x' y' d =
    (if y + 1 \<le> y' \<and> y' < y + 1 + length rows \<and> x \<le> x' \<and> x' < x + w
     then rows ! (y' - (y + 1)) ! (x' - x) else d)" for d
    using 2 by simp
  show ?case
  proof (cases "y < y'")
    case True
    then have "y' - y = Suc (y' - (y + 1))" by simp
    then show ?thesis using True IH [simplified] by (simp add: painted_append painted_row)
  next
    case False
    then show ?thesis using 2(2) by (auto simp: painted_append painted_row IH [simplified])
  qed
qed auto

text \<open>Where the next printable character goes, and whether the screen is cleared for it.\<close>

definition cell_of :: "font \<Rightarrow> console \<Rightarrow> bool \<times> nat \<times> nat" where
  "cell_of f c =
     (let wraps = (x_pos c + raster_width f \<ge> fb_width (info c));
          y = (if wraps then y_pos c + (CHAR_RASTER_HEIGHT + LINE_SPACING) else y_pos c);
          clears = (y + CHAR_RASTER_HEIGHT + BORDER_PADDING \<ge> fb_height (info c))
      in if clears then (True, BORDER_PADDING, BORDER_PADDING)
         else (False, if wraps then BORDER_PADDING else x_pos c, y))"

lemma glyph_found: "font_ok f \<Longrightarrow> \<exists>g. get_char_raster f ch = Some g"
  by (auto simp: font_ok_def get_char_raster_def split: option.splits)

lemma glyph_shape:
  "font_ok f \<Longrightarrow> get_char_raster f ch = Some g \<Longrightarrow> g_width g = raster_width f \<and>
     length (g_raster g) = CHAR_RASTER_HEIGHT \<and> (\<forall>row \<in> set (g_raster g). length row = raster_width f)"
  by (auto simp: font_ok_def get_char_raster_def split: option.splits)

lemma glyph_drawn:
  assumes "fb_ok c" "font_ok f" "get_char_raster f ch = Some g"
    "x_pos c + raster_width f \<le> stride (info c)" "y_pos c + CHAR_RASTER_HEIGHT < 2 ^ 32"
  obtains c' where "draw_rendered_char c g = Some c'" "same_screen c c'"
    "\<And>x y. on_screen c x y \<Longrightarrow> pixel_at c' x y =
      (if y_pos c \<le> y \<and> y < y_pos c + CHAR_RASTER_HEIGHT \<and> x_pos c \<le> x \<and> x < x_pos c + raster_width f
       then g_raster g ! (y - y_pos c) ! (x - x_pos c) else pixel_at c x y)"
proof -
  have sh: "length (g_raster g) = 16" "\<forall>row \<in> set (g_raster g). length row = raster_width f"
    using glyph_shape [OF assms(2,3)] by auto
  have s: "stride (info c) < 2 ^ 20" using assms(1) by (simp add: fb_ok_def)
  let ?ps = "glyph_px (x_pos c) (y_pos c) (g_raster g)"
  have "x_pos c + raster_width f < 2 ^ 64" "y_pos c + 16 < 2 ^ 64" using assms(4,5) s by auto
  then have "draw_rendered_char c g = paint c ?ps"
    using draw_rows_paint [of "g_raster g" c 0] sh by (simp add: draw_rendered_char_def)
  moreover have "\<forall>(x, y, v) \<in> set ?ps. x < stride (info c) \<and> y < 2 ^ 32"
    using glyph_px_set [OF _ sh(2)] sh(1) assms(4,5) by fastforce
  from paint_paints [OF assms(1) this] obtain c' where "paint c ?ps = Some c'" "same_screen c c'"
    "\<And>x y. on_screen c x y \<Longrightarrow> pixel_at c' x y = painted ?ps x y (pixel_at c x y)" by blast
  ultimately show thesis using that [of c'] sh by (simp add: painted_glyph [OF sh(2)])
qed

lemma clear_grid [simp]:
  "info (clear c) = info c" "x_pos (clear c) = 4" "y_pos (clear c) = 4"
  "length (framebuffer (clear c)) = length (framebuffer c)" "on_screen (clear c) x y = on_screen c x y"
  "fb_ok (clear c) = fb_ok c"
  by (simp_all add: clear_def on_screen_def pix_def fb_ok_def)

lemma clear_pixel: "on_screen c x y \<Longrightarrow> fb_ok c \<Longrightarrow> pixel_at (clear c) x y = 0"
  by (auto simp: clear_def on_screen_def pixel_at_def pix_def fb_ok_def)

text \<open>The console as \<open>write_char\<close> leaves it for the glyph.\<close>

definition at_cell :: "font \<Rightarrow> console \<Rightarrow> console" where
  "at_cell f c = (case cell_of f c of (clears, x, y) \<Rightarrow> (if clears then clear c else c\<lparr>y_pos := y, x_pos := x\<rparr>))"

lemma write_char_cell:
  assumes "text_ok f c" "y_pos c < 2 ^ 62" "ch \<noteq> 10" "ch \<noteq> 13" "get_char_raster f ch = Some g"
  shows "write_char f c ch = write_rendered_char (at_cell f c) g"
proof -
  have "raster_width f < 2 ^ 20" "x_pos c < 2 ^ 20"
    using assms(1) by (auto simp: text_ok_def fb_ok_def)
  then have u: "usz (x_pos c + raster_width f) = Some (x_pos c + raster_width f)"
    "usz (y_pos c + 18) = Some (y_pos c + 18)" "usz (y_pos c + 16 + 4) = Some (y_pos c + 16 + 4)"
    "usz (y_pos c + 18 + 16 + 4) = Some (y_pos c + 18 + 16 + 4)"
    using assms(2) by (simp_all add: usz_def)
  show ?thesis
    using assms(3,4,5) u
    by (auto simp: write_char_def newline_def carriage_return_def at_cell_def cell_of_def clear_def Let_def)
qed

lemma at_cell_ok:
  assumes "text_ok f c" "cell_of f c = (clears, x, y)"
  shows "x_pos (at_cell f c) = x" "y_pos (at_cell f c) = y" "info (at_cell f c) = info c"
    "length (framebuffer (at_cell f c)) = length (framebuffer c)" "fb_ok (at_cell f c)"
    "x + raster_width f < fb_width (info c)" "y + 20 < fb_height (info c)"
    "y \<le> y_pos c + 22"
    "\<And>i j. on_screen c i j \<Longrightarrow> on_screen (at_cell f c) i j \<and>
        pixel_at (at_cell f c) i j = (if clears then 0 else pixel_at c i j)"
proof -
  note d = at_cell_def text_ok_def cell_of_def Let_def
  show "x_pos (at_cell f c) = x" "y_pos (at_cell f c) = y" "info (at_cell f c) = info c"
    "length (framebuffer (at_cell f c)) = length (framebuffer c)"
    using assms by (auto simp: d split: if_splits)
  show "fb_ok (at_cell f c)" using assms by (auto simp: d fb_ok_def split: if_splits)
  show "x + raster_width f < fb_width (info c)" "y + 20 < fb_height (info c)" "y \<le> y_pos c + 22"
    using assms by (auto simp: d split: if_splits)
  show "on_screen (at_cell f c) i j \<and> pixel_at (at_cell f c) i j = (if clears then 0 else pixel_at c i j)"
    if "on_screen c i j" for i j
    using assms that clear_pixel [OF that] clear_grid(5)
    by (auto simp: d on_screen_def pixel_at_def pix_def split: if_splits)
qed

lemma char_written:
  assumes ok: "text_ok f c" and y: "y_pos c < 2 ^ 62" and ch: "ch \<noteq> 10" "ch \<noteq> 13"
    and g: "get_char_raster f ch = Some g" and cell: "cell_of f c = (clears, x, y)"
  obtains c' where "write_char f c ch = Some c'" "text_ok f c'" "x_pos c' = x + raster_width f" "y_pos c' = y"
    "info c' = info c" "length (framebuffer c') = length (framebuffer c)"
    "\<forall>i j. on_screen c i j \<longrightarrow> pixel_at c' i j =
      (if y \<le> j \<and> j < y + CHAR_RASTER_HEIGHT \<and> x \<le> i \<and> i < x + raster_width f
       then g_raster g ! (j - y) ! (i - x) else if clears then 0 else pixel_at c i j)"
proof -
  note a = at_cell_ok [OF ok cell]
  have fo: "font_ok f" and st: "fb_width (info c) \<le> stride (info c)" "fb_height (info c) < 2 ^ 31"
    "stride (info c) < 2 ^ 20"
    using ok by (auto simp: text_ok_def fb_ok_def)
  have w: "g_width g = raster_width f" using glyph_shape [OF fo g] by simp
  have "x_pos (at_cell f c) + raster_width f \<le> stride (info (at_cell f c))"
    "y_pos (at_cell f c) + CHAR_RASTER_HEIGHT < 2 ^ 32"
    using a(1-3,6,7) st by auto
  from glyph_drawn [OF a(5) fo g this] obtain d where d: "draw_rendered_char (at_cell f c) g = Some d"
    "same_screen (at_cell f c) d"
    "\<And>i j. on_screen (at_cell f c) i j \<Longrightarrow> pixel_at d i j =
      (if y \<le> j \<and> j < y + CHAR_RASTER_HEIGHT \<and> x \<le> i \<and> i < x + raster_width f
       then g_raster g ! (j - y) ! (i - x) else pixel_at (at_cell f c) i j)"
    unfolding a(1,2) by blast
  have i: "info d = info c" "x_pos d = x" "y_pos d = y" "length (framebuffer d) = length (framebuffer c)"
    using d(2) a(1-4) by (auto simp: same_screen_def)
  have "usz (x + raster_width f) = Some (x + raster_width f)" using a(6) st by simp
  then have "write_char f c ch = Some (d\<lparr>x_pos := x + raster_width f\<rparr>)"
    using write_char_cell [OF ok y ch g] d(1) i w by (simp add: write_rendered_char_def)
  moreover have "text_ok f (d\<lparr>x_pos := x + raster_width f\<rparr>)"
    using ok a(6,7) i by (auto simp: text_ok_def fb_ok_def)
  moreover have "pixel_at (d\<lparr>x_pos := x + raster_width f\<rparr>) i j = pixel_at d i j" for i j
    by (simp add: pixel_at_def pix_def)
  ultimately show thesis
    using i d(3) a(9) by (intro that [of "d\<lparr>x_pos := x + raster_width f\<rparr>"]) auto
qed


section \<open>Typing and backspacing\<close>

datatype text_op = Put nat | Back | Wipe

fun do_text :: "font \<Rightarrow> console \<Rightarrow> text_op \<Rightarrow> console option" where
  "do_text f c (Put ch) = write_char f c ch"
| "do_text f c Back = backspace f c"
| "do_text f c Wipe = Some (clear c)"

fun text_ops :: "font \<Rightarrow> console \<Rightarrow> text_op list \<Rightarrow> console option" where
  "text_ops f c [] = Some c"
| "text_ops f c (p # ps) = do { c \<leftarrow> do_text f c p; text_ops f c ps }"

lemma write_str_ops: "write_str f c s = text_ops f c (map Put s)"
  by (induction f c s rule: write_str.induct) (auto split: bind_splits)

lemma backspace_ok:
  assumes "text_ok f c"
  obtains c' where "backspace f c = Some c'" "text_ok f c'" "y_pos c' = y_pos c" "info c' = info c"
    "length (framebuffer c') = length (framebuffer c)"
proof -
  have fo: "font_ok f" and st: "fb_width (info c) \<le> stride (info c)" "fb_height (info c) < 2 ^ 31"
    "stride (info c) < 2 ^ 20" "4 + raster_width f < fb_width (info c)" "x_pos c \<le> fb_width (info c)" "fb_ok c"
    using assms by (auto simp: text_ok_def fb_ok_def)
  have u: "usz (BORDER_PADDING + raster_width f) = Some (BORDER_PADDING + raster_width f)" using st by simp
  show thesis
  proof (cases "x_pos c \<ge> BORDER_PADDING + raster_width f")
    case False
    then show ?thesis using u assms by (intro that [of c]) (auto simp: backspace_def)
  next
    case True
    define b where "b = c\<lparr>x_pos := x_pos c - raster_width f\<rparr>"
    have rw: "0 < raster_width f" using fo by (simp add: font_ok_def)
    have y: "y_pos c + 20 < fb_height (info c)" using assms True rw by (auto simp: text_ok_def)
    obtain g where g: "get_char_raster f 32 = Some g" using glyph_found [OF fo] by blast
    have "fb_ok b" "x_pos b + raster_width f \<le> stride (info b)" "y_pos b + CHAR_RASTER_HEIGHT < 2 ^ 32"
      using st True y by (auto simp: b_def fb_ok_def)
    from glyph_drawn [OF this(1) fo g this(2,3)] obtain d where
      d: "draw_rendered_char b g = Some d" "same_screen b d" by blast
    then have "backspace f c = Some d" using True u g by (simp add: backspace_def b_def)
    moreover have "text_ok f d" using assms d(2) y st
      by (auto simp: text_ok_def same_screen_def b_def fb_ok_def)
    ultimately show ?thesis using d(2) by (intro that [of d]) (auto simp: same_screen_def b_def)
  qed
qed

lemma text_op_ok:
  assumes "text_ok f c" "y_pos c < 2 ^ 62"
  obtains c' where "do_text f c p = Some c'" "text_ok f c'" "y_pos c' \<le> y_pos c + 22" "info c' = info c"
    "length (framebuffer c') = length (framebuffer c)"
proof (cases p)
  case (Put ch)
  obtain cl x y where cell: "cell_of f c = (cl, x, y)" by (metis prod_cases3)
  have y: "y \<le> y_pos c + 22" by (rule at_cell_ok(8) [OF assms(1) cell])
  have fo: "font_ok f" using assms(1) by (simp add: text_ok_def)
  consider "ch = 10" | "ch = 13" | "ch \<noteq> 10" "ch \<noteq> 13" by blast
  then show ?thesis
  proof cases
    case 1
    have "usz (y_pos c + 18) = Some (y_pos c + 18)" using assms(2) by simp
    then show ?thesis using 1 Put assms(1)
      by (intro that [of "c\<lparr>x_pos := 4, y_pos := y_pos c + 18\<rparr>"])
        (auto simp: write_char_def newline_def carriage_return_def text_ok_def fb_ok_def)
  next
    case 2
    then show ?thesis using Put assms(1)
      by (intro that [of "carriage_return c"])
        (auto simp: write_char_def carriage_return_def text_ok_def fb_ok_def)
  next
    case 3
    obtain g where g: "get_char_raster f ch = Some g" using glyph_found [OF fo] by blast
    from char_written [OF assms 3 g cell] obtain c' where "write_char f c ch = Some c'" "text_ok f c'"
      "y_pos c' = y" "info c' = info c" "length (framebuffer c') = length (framebuffer c)" by blast
    then show ?thesis using y Put by (intro that [of c']) auto
  qed
next
  case Back
  then show ?thesis using backspace_ok [OF assms(1)] that by (metis le_add1 do_text.simps(2))
next
  case Wipe
  then show ?thesis using assms(1) by (intro that [of "clear c"]) (auto simp: text_ok_def)
qed

lemma text_ops_ok:
  "text_ok f c \<Longrightarrow> y_pos c + 22 * length ps < 2 ^ 62 \<Longrightarrow>
    \<exists>c'. text_ops f c ps = Some c' \<and> text_ok f c' \<and> info c' = info c \<and>
      length (framebuffer c') = length (framebuffer c) \<and> y_pos c' \<le> y_pos c + 22 * length ps"
proof (induction ps arbitrary: c)
  case (Cons p ps)
  have "y_pos c < 2 ^ 62" using Cons.prems(2) by simp
  from text_op_ok [OF Cons.prems(1) this, of p] obtain d where d: "do_text f c p = Some d" "text_ok f d"
    "y_pos d \<le> y_pos c + 22" "info d = info c" "length (framebuffer d) = length (framebuffer c)" by blast
  have "y_pos d + 22 * length ps < 2 ^ 62" using d(3) Cons.prems(2) by simp
  from Cons.IH [OF d(2) this] obtain c' where "text_ops f d ps = Some c'" "text_ok f c'" "info c' = info d"
    "length (framebuffer c') = length (framebuffer d)" "y_pos c' \<le> y_pos d + 22 * length ps" by blast
  then show ?case using d by (intro exI [of _ c']) simp
qed simp

section \<open>Lines\<close>

text \<open>
  After \<open>i\<close> steps in one direction and \<open>j\<close> in the other, the error term is \<open>dx - ady\<close> plus the
  distance \<open>dx * j - ady * i\<close> from the ideal line, which stays within half a pixel.
\<close>

definition near :: "int \<Rightarrow> int \<Rightarrow> int \<Rightarrow> int \<Rightarrow> bool" where
  "near dx ady i j \<longleftrightarrow> 0 \<le> i \<and> i \<le> dx \<and> 0 \<le> j \<and> j \<le> ady \<and> 2 * \<bar>dx * j - ady * i\<bar> \<le> max dx ady"

definition progress :: "int \<Rightarrow> int \<Rightarrow> int \<Rightarrow> int \<Rightarrow> int" where
  "progress dx ady i j = (if ady \<le> dx then i else j)"

lemma near_end:
  assumes "near dx ady i j" "progress dx ady i j = max dx ady"
  shows "i = dx \<and> j = ady"
proof -
  have aux: "n = m" if "2 * \<bar>a * n - m * a\<bar> \<le> a" "0 \<le> n" "n \<le> m" "m \<le> a" for a m n :: int
  proof (rule ccontr)
    assume "n \<noteq> m"
    then have "1 \<le> m - n" using that(3) by simp
    moreover have "0 < a" using \<open>n \<noteq> m\<close> that by linarith
    ultimately have "a * 1 \<le> a * (m - n)" by (intro mult_left_mono) auto
    moreover have "a * n - m * a = - (a * (m - n))" by (simp add: algebra_simps)
    then have "2 * \<bar>a * (m - n)\<bar> \<le> a" using that(1) by simp
    ultimately show False using \<open>0 < a\<close> by simp
  qed
  show ?thesis
  proof (cases "ady \<le> dx")
    case True
    then have "i = dx" using assms(2) by (simp add: progress_def)
    then show ?thesis using aux [of dx j ady] assms(1) True by (auto simp: near_def)
  next
    case False
    then have "j = ady" using assms(2) by (simp add: progress_def)
    then show ?thesis using aux [of ady i dx] assms(1) False
      by (auto simp: near_def abs_minus_commute mult.commute)
  qed
qed

lemma near_bound:
  assumes "2 * \<bar>a * n - m * k\<bar> \<le> (a :: int)" "0 \<le> m" "k \<le> a" "0 < a"
  shows "n \<le> m"
proof (rule ccontr)
  assume "\<not> n \<le> m"
  then have "a * (m + 1) \<le> a * n" using assms(4) by (intro mult_left_mono) auto
  moreover have "m * k \<le> m * a" using assms(2,3) by (intro mult_left_mono) auto
  ultimately have "a \<le> a * n - m * k" by (simp add: algebra_simps)
  moreover have "a * n - m * k \<le> \<bar>a * n - m * k\<bar>" by (rule abs_ge_self)
  moreover have "0 \<le> \<bar>a * n - m * k\<bar>" by (rule abs_ge_zero)
  ultimately show False using assms(1,4) by presburger
qed

definition err_at :: "int \<Rightarrow> int \<Rightarrow> int \<Rightarrow> int \<Rightarrow> int" where
  "err_at dx ady i j = dx - ady + (dx * j - ady * i)"

lemma line_step_near:
  assumes near: "near dx ady i j" and less: "progress dx ady i j < max dx ady"
    and b: "dx < 2 ^ 60" "ady < 2 ^ 60" "\<bar>x\<bar> < 2 ^ 60" "\<bar>y\<bar> < 2 ^ 60" "\<bar>sx\<bar> = 1" "\<bar>sy\<bar> = 1"
  obtains i' j' where "line_step dx (- ady) sx sy (x, y, err_at dx ady i j) =
      Some (x + sx * (i' - i), y + sy * (j' - j), err_at dx ady i' j')"
    "near dx ady i' j'" "progress dx ady i' j' = progress dx ady i j + 1"
    "i' = i \<or> i' = i + 1" "j' = j \<or> j' = j + 1"
proof -
  define D where "D = dx * j - ady * i"
  define e where "e = err_at dx ady i j"
  have e: "e = dx - ady + D" by (simp add: e_def err_at_def D_def)
  have nn: "0 \<le> i" "i \<le> dx" "0 \<le> j" "j \<le> ady" "2 * \<bar>D\<bar> \<le> max dx ady" "0 \<le> dx" "0 \<le> ady"
    using near by (auto simp: near_def D_def)
  define i' where "i' = (if 2 * e \<ge> - ady then i + 1 else i)"
  define j' where "j' = (if 2 * e \<le> dx then j + 1 else j)"
  define D' where "D' = dx * j' - ady * i'"
  have D': "D' = D + (if 2 * e \<le> dx then dx else 0) - (if 2 * e \<ge> - ady then ady else 0)"
    by (simp add: D'_def D_def i'_def j'_def algebra_simps)
  have e': "err_at dx ady i' j' = dx - ady + D'" by (simp add: err_at_def D'_def)
  have "isz (2 * e) = Some (2 * e)" "isz (e + - ady) = Some (e + - ady)"
    "isz (e + dx) = Some (e + dx)" "isz (e + - ady + dx) = Some (e + - ady + dx)"
    "isz (x + sx) = Some (x + sx)" "isz (y + sy) = Some (y + sy)"
    using nn b unfolding e by (auto intro!: isz_Some)
  then have step: "line_step dx (- ady) sx sy (x, y, e) =
      Some (x + sx * (i' - i), y + sy * (j' - j), err_at dx ady i' j')"
    unfolding e' D' by (auto simp: line_step_def e i'_def j'_def)
  have small: "2 * \<bar>D'\<bar> \<le> max dx ady"
    using nn(5-7) unfolding D' e max_def abs_if by (auto split: if_splits)
  have prog: "progress dx ady i' j' = progress dx ady i j + 1"
    using nn less unfolding i'_def j'_def e progress_def by auto
  have "near dx ady i' j'"
  proof (cases "ady \<le> dx")
    case True
    then have i: "i' = i + 1" "i + 1 \<le> dx" using prog less by (auto simp: progress_def)
    moreover have "j' \<le> ady" using near_bound [of dx j' ady i'] small True i nn by (auto simp: D'_def)
    ultimately show ?thesis using small nn by (auto simp: near_def D'_def j'_def)
  next
    case False
    then have j: "j' = j + 1" "j + 1 \<le> ady" using prog less by (auto simp: progress_def)
    moreover have "i' \<le> dx" using near_bound [of ady i' dx j'] small False j nn
      by (auto simp: D'_def abs_minus_commute mult.commute)
    ultimately show ?thesis using small nn by (auto simp: near_def D'_def i'_def)
  qed
  then show thesis using step prog unfolding e_def
    by (intro that [of i' j']) (auto simp: i'_def j'_def)
qed

text \<open>The points a line goes through, one step after the other.\<close>

definition adjacent :: "nat \<times> nat \<Rightarrow> nat \<times> nat \<Rightarrow> bool" where
  "adjacent p q \<longleftrightarrow> p \<noteq> q \<and> \<bar>int (fst q) - int (fst p)\<bar> \<le> 1 \<and> \<bar>int (snd q) - int (snd p)\<bar> \<le> 1"

definition white :: "nat \<times> nat \<Rightarrow> nat \<times> nat \<times> u8" where
  "white p = (fst p, snd p, 255)"

lemma line_loop_paints:
  assumes "near dx ady i j" "progress dx ady i j + int k = max dx ady" "dx < 2 ^ 59" "ady < 2 ^ 59"
    "\<And>i j. near dx ady i j \<Longrightarrow> 0 \<le> x0 + sx * i \<and> x0 + sx * i < 2 ^ 59 \<and> 0 \<le> y0 + sy * j \<and> y0 + sy * j < 2 ^ 59"
    "\<bar>sx\<bar> = 1" "\<bar>sy\<bar> = 1"
  shows "\<exists>ps. ps \<noteq> [] \<and> hd ps = (nat (x0 + sx * i), nat (y0 + sy * j)) \<and>
    last ps = (nat (x0 + sx * dx), nat (y0 + sy * ady)) \<and> length ps = Suc k \<and> successively adjacent ps \<and>
    (\<forall>p \<in> set ps. \<exists>i j. near dx ady i j \<and> p = (nat (x0 + sx * i), nat (y0 + sy * j))) \<and>
    (\<forall>c. line_loop (Suc k) c (x0 + sx * dx) (y0 + sy * ady) dx (- ady) sx sy
       (x0 + sx * i, y0 + sy * j, err_at dx ady i j) = paint c (map white ps))"
  using assms(1,2)
proof (induction k arbitrary: i j)
  case 0
  have ij: "i = dx" "j = ady" using near_end [OF 0(1)] 0(2) by auto
  have "as_usize (x0 + sx * i) = nat (x0 + sx * i)" "as_usize (y0 + sy * j) = nat (y0 + sy * j)"
    using assms(5) [OF 0(1)] by (simp_all add: as_usize_def)
  then show ?case using 0 ij
    by (intro exI [of _ "[(nat (x0 + sx * i), nat (y0 + sy * j))]"])
      (auto simp: white_def draw_pixel_def split: bind_splits)
next
  case (Suc k)
  let ?x = "x0 + sx * i" and ?y = "y0 + sy * j"
  have b: "0 \<le> ?x" "?x < 2 ^ 59" "0 \<le> ?y" "?y < 2 ^ 59" using assms(5) [OF Suc.prems(1)] by auto
  have less: "progress dx ady i j < max dx ady" using Suc.prems(2) by simp
  have "\<bar>?x\<bar> < 2 ^ 60" "\<bar>?y\<bar> < 2 ^ 60" "dx < 2 ^ 60" "ady < 2 ^ 60" using b assms(3,4) by auto
  from line_step_near [OF Suc.prems(1) less this(3,4,1,2) assms(6,7)] obtain i' j' where
    st: "line_step dx (- ady) sx sy (?x, ?y, err_at dx ady i j) =
      Some (?x + sx * (i' - i), ?y + sy * (j' - j), err_at dx ady i' j')"
    and n: "near dx ady i' j'" "progress dx ady i' j' = progress dx ady i j + 1"
    and one: "i' = i \<or> i' = i + 1" "j' = j \<or> j' = j + 1" by blast
  have mv: "?x + sx * (i' - i) = x0 + sx * i'" "?y + sy * (j' - j) = y0 + sy * j'"
    by (simp_all add: algebra_simps)
  have b': "0 \<le> x0 + sx * i'" "0 \<le> y0 + sy * j'" using assms(5) [OF n(1)] by auto
  have "progress dx ady i' j' + int k = max dx ady" using n(2) Suc.prems(2) by simp
  from Suc.IH [OF n(1) this] obtain ps where ps: "ps \<noteq> []" "hd ps = (nat (x0 + sx * i'), nat (y0 + sy * j'))"
    "last ps = (nat (x0 + sx * dx), nat (y0 + sy * ady))" "length ps = Suc k" "successively adjacent ps"
    "\<forall>p \<in> set ps. \<exists>i j. near dx ady i j \<and> p = (nat (x0 + sx * i), nat (y0 + sy * j))"
    "\<And>c. line_loop (Suc k) c (x0 + sx * dx) (y0 + sy * ady) dx (- ady) sx sy
       (x0 + sx * i', y0 + sy * j', err_at dx ady i' j') = paint c (map white ps)" by blast
  let ?p = "(nat ?x, nat ?y)"
  have ne: "\<not> ((sx = 0 \<or> i = dx) \<and> (sy = 0 \<or> j = ady))"
    using less assms(6,7) by (auto simp: progress_def split: if_splits)
  have moved: "i' \<noteq> i \<or> j' \<noteq> j" using n(2) by auto
  have "\<bar>sx * i' - sx * i\<bar> \<le> 1" "\<bar>sy * j' - sy * j\<bar> \<le> 1"
    using one assms(6,7) by (auto simp: algebra_simps)
  moreover have "sx * i' \<noteq> sx * i \<or> sy * j' \<noteq> sy * j" using moved assms(6,7) by auto
  then have "nat ?x \<noteq> nat (x0 + sx * i') \<or> nat ?y \<noteq> nat (y0 + sy * j')"
    using b b' by (auto simp: eq_nat_nat_iff)
  ultimately have adj: "adjacent ?p (hd ps)" using b b' ps(2) by (auto simp: adjacent_def)
  have "as_usize ?x = nat ?x" "as_usize ?y = nat ?y" using b by (simp_all add: as_usize_def)
  then have "line_loop (Suc (Suc k)) c (x0 + sx * dx) (y0 + sy * ady) dx (- ady) sx sy
       (?x, ?y, err_at dx ady i j) = paint c (map white (?p # ps))" for c
    using st ps(7) unfolding mv
    by (subst line_loop.simps) (simp add: white_def draw_pixel_def ne del: line_loop.simps)
  moreover have "successively adjacent (?p # ps)" using ps(1,5) adj by (simp add: successively_Cons)
  ultimately show ?case using ps Suc.prems(1) by (intro exI [of _ "?p # ps"]) auto
qed

lemma near_point:
  fixes x0 y0 x1 y1 :: int
  defines "dx \<equiv> \<bar>x1 - x0\<bar>" and "ady \<equiv> \<bar>y1 - y0\<bar>"
    and "sx \<equiv> if x0 < x1 then 1 else - 1" and "sy \<equiv> if y0 < y1 then 1 else - 1"
  assumes "near dx ady i j"
  shows "min x0 x1 \<le> x0 + sx * i" "x0 + sx * i \<le> max x0 x1" "min y0 y1 \<le> y0 + sy * j" "y0 + sy * j \<le> max y0 y1"
    "2 * \<bar>(x1 - x0) * (y0 + sy * j - y0) - (y1 - y0) * (x0 + sx * i - x0)\<bar> \<le> max dx ady"
proof -
  show "min x0 x1 \<le> x0 + sx * i" "x0 + sx * i \<le> max x0 x1" "min y0 y1 \<le> y0 + sy * j" "y0 + sy * j \<le> max y0 y1"
    using assms(5) by (auto simp: near_def dx_def ady_def sx_def sy_def)
  have "x1 - x0 = sx * dx" "y1 - y0 = sy * ady" by (auto simp: dx_def ady_def sx_def sy_def)
  then have "(x1 - x0) * (y0 + sy * j - y0) - (y1 - y0) * (x0 + sx * i - x0) = sx * sy * (dx * j - ady * i)"
    by (simp add: algebra_simps)
  moreover have "\<bar>sx * sy\<bar> = 1" by (simp add: sx_def sy_def)
  ultimately show "2 * \<bar>(x1 - x0) * (y0 + sy * j - y0) - (y1 - y0) * (x0 + sx * i - x0)\<bar> \<le> max dx ady"
    using assms(5) by (simp add: near_def abs_mult)
qed

definition half_pixel :: "nat \<times> nat \<Rightarrow> nat \<times> nat \<Rightarrow> nat \<times> nat \<Rightarrow> bool" where
  "half_pixel p q r \<longleftrightarrow>
     min (fst p) (fst q) \<le> fst r \<and> fst r \<le> max (fst p) (fst q) \<and>
     min (snd p) (snd q) \<le> snd r \<and> snd r \<le> max (snd p) (snd q) \<and>
     2 * \<bar>(int (fst q) - int (fst p)) * (int (snd r) - int (snd p))
          - (int (snd q) - int (snd p)) * (int (fst r) - int (fst p))\<bar>
       \<le> max \<bar>int (fst q) - int (fst p)\<bar> \<bar>int (snd q) - int (snd p)\<bar>"

lemma line_points:
  assumes "x0 < 2 ^ 58" "y0 < 2 ^ 58" "x1 < 2 ^ 58" "y1 < 2 ^ 58"
  obtains ps where "ps \<noteq> []" "hd ps = (x0, y0)" "last ps = (x1, y1)" "successively adjacent ps"
    "int (length ps) = max \<bar>int x1 - int x0\<bar> \<bar>int y1 - int y0\<bar> + 1"
    "\<forall>p \<in> set ps. half_pixel (x0, y0) (x1, y1) p"
    "\<forall>c. draw_line c x0 y0 x1 y1 = paint c (map white ps)"
proof -
  define dx ady where d: "dx = \<bar>int x1 - int x0\<bar>" "ady = \<bar>int y1 - int y0\<bar>"
  define sx sy :: int where s: "sx = (if int x0 < int x1 then 1 else - 1)" "sy = (if int y0 < int y1 then 1 else - 1)"
  define k where "k = nat (max dx ady)"
  have n0: "near dx ady 0 0" by (simp add: near_def d)
  note np = near_point [of "int x1" "int x0" "int y1" "int y0", folded d s]
  have p0: "progress dx ady 0 0 + int k = max dx ady" by (auto simp: progress_def k_def d)
  have lt: "dx < 2 ^ 59" "ady < 2 ^ 59" using assms by (auto simp: d)
  have box: "0 \<le> int x0 + sx * i \<and> int x0 + sx * i < 2 ^ 59 \<and> 0 \<le> int y0 + sy * j \<and> int y0 + sy * j < 2 ^ 59"
    if "near dx ady i j" for i j
    using np(1-4) [OF that] assms by auto
  have ends: "int x0 + sx * dx = int x1" "int y0 + sy * ady = int y1" by (auto simp: d s)
  have "\<bar>sx\<bar> = 1" "\<bar>sy\<bar> = 1" by (simp_all add: s)
  from line_loop_paints [OF n0 p0 lt box this]
  obtain ps where ps: "ps \<noteq> []" "hd ps = (x0, y0)" "last ps = (x1, y1)" "length ps = Suc k"
    "successively adjacent ps"
    "\<forall>p \<in> set ps. \<exists>i j. near dx ady i j \<and> p = (nat (int x0 + sx * i), nat (int y0 + sy * j))"
    "\<And>c. line_loop (Suc k) c (int x1) (int y1) dx (- ady) sx sy (int x0, int y0, dx - ady) =
       paint c (map white ps)"
    unfolding ends by (auto simp: err_at_def)
  have iz: "isz (int x1 - int x0) = Some (int x1 - int x0)" "isz (int y1 - int y0) = Some (int y1 - int y0)"
    "isz dx = Some dx" "isz ady = Some ady" "isz (dx - ady) = Some (dx - ady)"
    using assms by (auto simp: d intro!: isz_Some)
  have "draw_line c x0 y0 x1 y1 = paint c (map white ps)" for c
    using assms ps(7) [of c] iz
    by (simp add: draw_line_def Let_def d [symmetric] s k_def [symmetric] del: line_loop.simps)
  moreover have "half_pixel (x0, y0) (x1, y1) p" if p: "p \<in> set ps" for p
  proof -
    obtain i j where ij: "near dx ady i j" "p = (nat (int x0 + sx * i), nat (int y0 + sy * j))"
      using ps(6) p by blast
    have "0 \<le> int x0 + sx * i" "0 \<le> int y0 + sy * j" using box [OF ij(1)] by auto
    then show ?thesis using np [OF ij(1)] by (auto simp: half_pixel_def ij(2) d nat_le_iff le_nat_iff)
  qed
  ultimately show thesis using ps(1-5) by (intro that [of ps]) (auto simp: k_def d)
qed

section \<open>The properties\<close>

lemma text_ops_append: "text_ops f c (ps @ qs) = do { c \<leftarrow> text_ops f c ps; text_ops f c qs }"
  by (induction ps arbitrary: c) (simp_all split: bind_splits)

text \<open>Line breaks may leave the cursor below the screen; a character is drawn on the screen all the same.\<close>

lemma last_char_on_screen:
  assumes "text_ok f c" "y_pos c + 22 * length ops < 2 ^ 62" "ops \<noteq> []" "last ops = Put ch" "ch \<noteq> 10" "ch \<noteq> 13"
    "text_ops f c ops = Some c'"
  shows "raster_width f \<le> x_pos c'" "x_pos c' < fb_width (info c)" "y_pos c' + CHAR_RASTER_HEIGHT < fb_height (info c)"
proof -
  have ops: "ops = butlast ops @ [Put ch]" using assms(3,4) by (metis append_butlast_last_id)
  have "y_pos c + 22 * length (butlast ops) < 2 ^ 62" using assms(2) by simp
  from text_ops_ok [OF assms(1) this] obtain d where d: "text_ops f c (butlast ops) = Some d" "text_ok f d" "info d = info c"
    "y_pos d \<le> y_pos c + 22 * length (butlast ops)" by blast
  have y: "y_pos d < 2 ^ 62" using d(4) assms(2) by simp
  have "font_ok f" using assms(1) by (simp add: text_ok_def)
  then obtain g where g: "get_char_raster f ch = Some g" using glyph_found by blast
  obtain cl x y' where cell: "cell_of f d = (cl, x, y')" by (cases "cell_of f d")
  obtain e where e: "write_char f d ch = Some e" "x_pos e = x + raster_width f" "y_pos e = y'"
    using char_written [OF d(2) y assms(5,6) g cell] by blast
  have "text_ops f c ops = Some e" by (subst ops) (simp add: text_ops_append d(1) e(1))
  then have "c' = e" using assms(7) by simp
  then show "raster_width f \<le> x_pos c'" "x_pos c' < fb_width (info c)"
    "y_pos c' + CHAR_RASTER_HEIGHT < fb_height (info c)"
    using e(2,3) at_cell_ok(6,7) [OF d(2) cell] d(3) by simp_all
qed

text \<open>
  C22. Text stays on the screen: on a screen big enough for one character, whatever is typed,
  erased or cleared (fewer than \<open>2\<^sup>50\<close> operations), no operation panics, the framebuffer
  keeps its size, and the cursor never passes the right edge.  Line breaks alone may leave it below the
  bottom (they do not clear), but then it is at the left border; and when the last operation wrote a
  character, its cell (from \<open>x_pos - raster_width\<close> to \<open>x_pos\<close>, sixteen lines from \<open>y_pos\<close>) lies wholly
  on the screen, so drawing cleared the screen first where it had to.
\<close>

theorem text_stays_on_screen:
  assumes "text_ok f c" "y_pos c < 2 ^ 60" "length ops < 2 ^ 50"
  shows "\<exists>c'. text_ops f c ops = Some c' \<and> text_ok f c' \<and> info c' = info c \<and>
    length (framebuffer c') = length (framebuffer c) \<and> x_pos c' \<le> fb_width (info c) \<and>
    (x_pos c' \<noteq> BORDER_PADDING \<longrightarrow> y_pos c' + CHAR_RASTER_HEIGHT < fb_height (info c)) \<and>
    (\<forall>ch. ops \<noteq> [] \<and> last ops = Put ch \<and> ch \<noteq> 10 \<and> ch \<noteq> 13 \<longrightarrow>
       raster_width f \<le> x_pos c' \<and> x_pos c' < fb_width (info c) \<and>
       y_pos c' + CHAR_RASTER_HEIGHT < fb_height (info c))"
proof -
  have y: "y_pos c + 22 * length ops < 2 ^ 62" using assms(2,3) by simp
  from text_ops_ok [OF assms(1) this] obtain c' where c': "text_ops f c ops = Some c'" "text_ok f c'" "info c' = info c"
    "length (framebuffer c') = length (framebuffer c)" by blast
  moreover have "x_pos c' \<le> fb_width (info c)"
    "x_pos c' \<noteq> BORDER_PADDING \<longrightarrow> y_pos c' + CHAR_RASTER_HEIGHT < fb_height (info c)"
    using c'(2,3) by (auto simp: text_ok_def)
  ultimately show ?thesis using last_char_on_screen [OF assms(1) y _ _ _ _ c'(1)] by auto
qed

definition demo_font :: font where
  "demo_font = \<lparr>get_raster = (\<lambda>ch. Some \<lparr>g_width = 2, g_raster = replicate 16 [255, of_nat ch]\<rparr>),
                raster_width = 2\<rparr>"

definition demo_console :: console where
  "demo_console = console_new (replicate 240 7)
     \<lparr>fb_width = 8, fb_height = 30, stride = 8, bytes_per_pixel = 1, pixel_format = U8\<rparr>"

lemma demo_text_ok: "text_ok demo_font demo_console"
  by (simp add: text_ok_def fb_ok_def font_ok_def demo_font_def demo_console_def console_new_def clear_def)

lemma demo_y: "y_pos demo_console = 4"
  by (simp add: demo_console_def console_new_def clear_def)

theorem text_stays_on_screen_witness:
  "\<exists>c'. text_ops demo_font demo_console [Put 65, Put 10, Put 10, Back, Put 66, Wipe, Put 67] = Some c' \<and>
     text_ok demo_font c' \<and> raster_width demo_font \<le> x_pos c' \<and> x_pos c' < fb_width (info demo_console) \<and>
     y_pos c' + CHAR_RASTER_HEIGHT < fb_height (info demo_console)"
  using text_stays_on_screen [OF demo_text_ok, of "[Put 65, Put 10, Put 10, Back, Put 66, Wipe, Put 67]"]
  by (auto simp: demo_y)

text \<open>A line between points of the grid is painted.\<close>

lemma line_drawn:
  assumes "fb_ok c" "x0 < stride (info c)" "x1 < stride (info c)" "y0 < 2 ^ 32" "y1 < 2 ^ 32"
  shows "\<exists>ps c'. draw_line c x0 y0 x1 y1 = Some c' \<and> same_screen c c' \<and>
    hd ps = (x0, y0) \<and> last ps = (x1, y1) \<and> successively adjacent ps \<and>
    int (length ps) = max \<bar>int x1 - int x0\<bar> \<bar>int y1 - int y0\<bar> + 1 \<and>
    (\<forall>p \<in> set ps. half_pixel (x0, y0) (x1, y1) p) \<and>
    (\<forall>x y. on_screen c x y \<longrightarrow> pixel_at c' x y = (if (x, y) \<in> set ps then 255 else pixel_at c x y))"
proof -
  have s: "stride (info c) < 2 ^ 20" using assms(1) by (simp add: fb_ok_def)
  have "x0 < 2 ^ 58" "y0 < 2 ^ 58" "x1 < 2 ^ 58" "y1 < 2 ^ 58" using assms s by auto
  then obtain ps where "ps \<noteq> []" and ps: "hd ps = (x0, y0)" "last ps = (x1, y1)"
    "successively adjacent ps" "int (length ps) = max \<bar>int x1 - int x0\<bar> \<bar>int y1 - int y0\<bar> + 1"
    "\<forall>p \<in> set ps. half_pixel (x0, y0) (x1, y1) p" "\<forall>c. draw_line c x0 y0 x1 y1 = paint c (map white ps)"
    by (rule line_points) (rule that)
  have "\<forall>(x, y, v) \<in> set (map white ps). x < stride (info c) \<and> y < 2 ^ 32"
  proof -
    have "fst p < stride (info c) \<and> snd p < 2 ^ 32" if "p \<in> set ps" for p
    proof -
      have "half_pixel (x0, y0) (x1, y1) p" using ps(5) that by blast
      then have "fst p \<le> max x0 x1" "snd p \<le> max y0 y1" by (simp_all add: half_pixel_def)
      then show ?thesis using assms(2-5) by linarith
    qed
    then show ?thesis by (auto simp: white_def)
  qed
  from paint_paints [OF assms(1) this] obtain c' where c': "paint c (map white ps) = Some c'" "same_screen c c'"
    "\<And>x y. on_screen c x y \<Longrightarrow> pixel_at c' x y = painted (map white ps) x y (pixel_at c x y)" by blast
  have "painted (map white ps) x y d = (if (x, y) \<in> set ps then 255 else d)" for x y d
    by (subst painted_const [where w = 255]) (auto simp: white_def image_iff)
  then show ?thesis using ps c' by (intro exI [of _ ps] exI [of _ c']) auto
qed

lemma draw_line_ok:
  "fb_ok c \<Longrightarrow> x0 < stride (info c) \<Longrightarrow> x1 < stride (info c) \<Longrightarrow> y0 < 2 ^ 32 \<Longrightarrow> y1 < 2 ^ 32 \<Longrightarrow>
    \<exists>c'. draw_line c x0 y0 x1 y1 = Some c' \<and> same_screen c c'"
  using line_drawn [of c x0 x1 y0 y1] by blast

text \<open>
  C34. A printed character is what the screen shows: its glyph fills the cell that starts at the
  cursor (wrapped to the next line when the line is full, or at the top of a cleared screen when the
  page is), every other pixel is as before or black after a clear, and the cursor moves behind it.
  A character the font lacks is shown as a question mark.
\<close>

theorem char_is_shown:
  assumes "text_ok f c" "y_pos c < 2 ^ 60" "ch \<noteq> 10" "ch \<noteq> 13" "cell_of f c = (clears, x, y)"
  shows "\<exists>g c'. (get_raster f ch = Some g \<or> get_raster f ch = None \<and> get_raster f 63 = Some g) \<and>
    write_char f c ch = Some c' \<and> x_pos c' = x + raster_width f \<and> y_pos c' = y \<and>
    (\<forall>i j. on_screen c i j \<longrightarrow> pixel_at c' i j =
      (if y \<le> j \<and> j < y + 16 \<and> x \<le> i \<and> i < x + raster_width f then g_raster g ! (j - y) ! (i - x)
       else if clears then 0 else pixel_at c i j))"
proof -
  have fo: "font_ok f" using assms(1) by (simp add: text_ok_def)
  obtain g where g: "get_char_raster f ch = Some g" using glyph_found [OF fo] by blast
  have "y_pos c < 2 ^ 62" using assms(2) by simp
  from assms(1) this assms(3,4) g assms(5)
  obtain c' where "write_char f c ch = Some c'" "text_ok f c'" "x_pos c' = x + raster_width f" "y_pos c' = y"
    "info c' = info c" "length (framebuffer c') = length (framebuffer c)"
    "\<forall>i j. on_screen c i j \<longrightarrow> pixel_at c' i j =
      (if y \<le> j \<and> j < y + CHAR_RASTER_HEIGHT \<and> x \<le> i \<and> i < x + raster_width f
       then g_raster g ! (j - y) ! (i - x) else if clears then 0 else pixel_at c i j)"
    by (rule char_written) (rule that)
  moreover have "get_raster f ch = Some g \<or> get_raster f ch = None \<and> get_raster f 63 = Some g"
    using g by (auto simp: get_char_raster_def split: option.splits)
  ultimately show ?thesis by (intro exI [of _ g] exI [of _ c']) simp
qed

theorem char_is_shown_witness:
  "\<exists>g c'. (get_raster demo_font 65 = Some g \<or> get_raster demo_font 65 = None \<and> get_raster demo_font 63 = Some g) \<and>
    write_char demo_font demo_console 65 = Some c' \<and> x_pos c' = 4 + raster_width demo_font \<and> y_pos c' = 4 \<and>
    (\<forall>i j. on_screen demo_console i j \<longrightarrow> pixel_at c' i j =
      (if 4 \<le> j \<and> j < 4 + 16 \<and> 4 \<le> i \<and> i < 4 + raster_width demo_font then g_raster g ! (j - 4) ! (i - 4)
       else if False then 0 else pixel_at demo_console i j))"
  by (rule char_is_shown)
    (simp_all add: demo_text_ok demo_y, simp add: cell_of_def demo_font_def demo_console_def console_new_def clear_def)

text \<open>
  C23. Lines are Bresenham's: between any two points of the screen \<open>draw_line\<close> returns after as many
  pixels as the longer side asks for, goes from one end to the other in steps to a neighbouring
  pixel, stays in the box of the two ends and within half a pixel of the ideal line, and turns on
  exactly the pixels of its path.
\<close>

theorem line_is_bresenham:
  assumes "fb_ok c" "x0 < stride (info c)" "x1 < stride (info c)" "y0 < 2 ^ 32" "y1 < 2 ^ 32"
  shows "\<exists>ps c'. draw_line c x0 y0 x1 y1 = Some c' \<and> same_screen c c' \<and>
    hd ps = (x0, y0) \<and> last ps = (x1, y1) \<and> successively adjacent ps \<and>
    int (length ps) = max \<bar>int x1 - int x0\<bar> \<bar>int y1 - int y0\<bar> + 1 \<and>
    (\<forall>p \<in> set ps. half_pixel (x0, y0) (x1, y1) p) \<and>
    (\<forall>x y. on_screen c x y \<longrightarrow> pixel_at c' x y = (if (x, y) \<in> set ps then 255 else pixel_at c x y))"
  using assms by (rule line_drawn)

theorem line_is_bresenham_witness:
  "\<exists>ps c'. draw_line demo_console 1 2 6 0 = Some c' \<and> same_screen demo_console c' \<and>
    hd ps = (1, 2) \<and> last ps = (6, 0) \<and> successively adjacent ps \<and>
    int (length ps) = max \<bar>int 6 - int 1\<bar> \<bar>int 0 - int 2\<bar> + 1 \<and>
    (\<forall>p \<in> set ps. half_pixel (1, 2) (6, 0) p) \<and>
    (\<forall>x y. on_screen demo_console x y \<longrightarrow>
       pixel_at c' x y = (if (x, y) \<in> set ps then 255 else pixel_at demo_console x y))"
  by (rule line_is_bresenham) (simp_all add: demo_console_def console_new_def clear_def fb_ok_def)

end
