(* ===== verification/Ps2.thy ===== *)
theory Ps2
  imports Prelude "HOL-Library.Monad_Syntax"
begin

text \<open>
  The handshake with the PS/2 controller that starts the mouse (\<open>init\<close> of \<open>kernel/src/mouse.rs\<close>).  The
  controller is hardware: what a read or a write of its two ports does is a parameter.  The polling
  loops may run for ever on a controller that stays busy; they take fuel, and \<open>None\<close> is running out
  of it.
\<close>

section \<open>Definitions\<close>

record 'h ports =
  port_in :: "'h \<Rightarrow> u16 \<Rightarrow> u8 \<times> 'h"
  port_out :: "'h \<Rightarrow> u16 \<Rightarrow> u8 \<Rightarrow> 'h"

definition PS2_DATA :: u16 where "PS2_DATA = 0x60"
definition PS2_STATUS_OR_COMMAND :: u16 where "PS2_STATUS_OR_COMMAND = 0x64"

fun wait_write_ready :: "nat \<Rightarrow> 'h ports \<Rightarrow> 'h \<Rightarrow> 'h option" where
  "wait_write_ready 0 P h = None"
| "wait_write_ready (Suc n) P h =
     (case port_in P h PS2_STATUS_OR_COMMAND of
        (v, h) \<Rightarrow> if v AND 0x02 \<noteq> 0 then wait_write_ready n P h else Some h)"

fun wait_read_ready :: "nat \<Rightarrow> 'h ports \<Rightarrow> 'h \<Rightarrow> 'h option" where
  "wait_read_ready 0 P h = None"
| "wait_read_ready (Suc n) P h =
     (case port_in P h PS2_STATUS_OR_COMMAND of
        (v, h) \<Rightarrow> if v AND 0x01 = 0 then wait_read_ready n P h else Some h)"

definition controller_write :: "nat \<Rightarrow> 'h ports \<Rightarrow> u8 \<Rightarrow> 'h \<Rightarrow> 'h option" where
  "controller_write F P cmd h = do {
     h \<leftarrow> wait_write_ready F P h;
     Some (port_out P h PS2_STATUS_OR_COMMAND cmd) }"

definition data_write :: "nat \<Rightarrow> 'h ports \<Rightarrow> u8 \<Rightarrow> 'h \<Rightarrow> 'h option" where
  "data_write F P byte h = do {
     h \<leftarrow> wait_write_ready F P h;
     Some (port_out P h PS2_DATA byte) }"

definition data_read :: "nat \<Rightarrow> 'h ports \<Rightarrow> 'h \<Rightarrow> (u8 \<times> 'h) option" where
  "data_read F P h = do {
     h \<leftarrow> wait_read_ready F P h;
     Some (port_in P h PS2_DATA) }"

definition mouse_init :: "nat \<Rightarrow> 'h ports \<Rightarrow> 'h \<Rightarrow> 'h option" where
  "mouse_init F P h = do {
     h \<leftarrow> controller_write F P 0xA8 h;
     h \<leftarrow> controller_write F P 0x20 h;
     (config, h) \<leftarrow> data_read F P h;
     let config = config OR 0x02;
     let config = config AND NOT 0x20;
     h \<leftarrow> controller_write F P 0x60 h;
     h \<leftarrow> data_write F P config h;
     h \<leftarrow> controller_write F P 0xD4 h;
     h \<leftarrow> data_write F P 0xF6 h;
     (_, h) \<leftarrow> data_read F P h;
     h \<leftarrow> controller_write F P 0xD4 h;
     h \<leftarrow> data_write F P 0xF4 h;
     (_, h) \<leftarrow> data_read F P h;
     Some h }"

section \<open>What the controller is documented to do\<close>

text \<open>
  The controller's state as its manual has it: the configuration byte, whether the second port is on,
  whether the mouse streams, the bytes waiting to be read, and whom the next data byte is for.
\<close>

datatype target = To_keyboard | To_config | To_mouse

record i8042 =
  ctl_config :: u8
  aux_on :: bool
  streaming :: bool
  out_bytes :: bytes
  next_byte :: target

definition take_command :: "u8 \<Rightarrow> i8042 \<Rightarrow> i8042" where
  "take_command cmd v =
     (if cmd = 0xA8 then v\<lparr>aux_on := True\<rparr>
      else if cmd = 0x20 then v\<lparr>out_bytes := out_bytes v @ [ctl_config v]\<rparr>
      else if cmd = 0x60 then v\<lparr>next_byte := To_config\<rparr>
      else if cmd = 0xD4 then v\<lparr>next_byte := To_mouse\<rparr>
      else v)"

definition take_data :: "u8 \<Rightarrow> i8042 \<Rightarrow> i8042" where
  "take_data b v =
     (case next_byte v of
        To_keyboard \<Rightarrow> v
      | To_config \<Rightarrow> v\<lparr>ctl_config := b, next_byte := To_keyboard\<rparr>
      | To_mouse \<Rightarrow> v\<lparr>streaming := (if b = 0xF4 then True else if b = 0xF6 then False else streaming v),
                       out_bytes := out_bytes v @ [0xFA], next_byte := To_keyboard\<rparr>)"

text \<open>
  \<open>obeys P view lag K\<close>: seen through \<open>view\<close> the ports work like that, and the controller is never busy
  for more than \<open>K\<close> reads of its status (\<open>lag\<close> of them are left); what is written when it is not ready, or
  read when nothing waits, is unspecified.
\<close>

definition obeys :: "'h ports \<Rightarrow> ('h \<Rightarrow> i8042) \<Rightarrow> ('h \<Rightarrow> nat) \<Rightarrow> nat \<Rightarrow> bool" where
  "obeys P view lag K \<longleftrightarrow>
     (\<forall>h v h'. port_in P h PS2_STATUS_OR_COMMAND = (v, h') \<longrightarrow>
        view h' = view h \<and> lag h' \<le> lag h \<and>
        (v AND 0x02 \<noteq> 0 \<longrightarrow> lag h' < lag h) \<and> (v AND 0x01 = 0 \<and> out_bytes (view h) \<noteq> [] \<longrightarrow> lag h' < lag h) \<and>
        (v AND 0x02 = 0 \<longrightarrow>
           (\<forall>b. view (port_out P h' PS2_STATUS_OR_COMMAND b) = take_command b (view h) \<and> lag (port_out P h' PS2_STATUS_OR_COMMAND b) \<le> K \<and>
                view (port_out P h' PS2_DATA b) = take_data b (view h) \<and> lag (port_out P h' PS2_DATA b) \<le> K)) \<and>
        (\<forall>b bs. v AND 0x01 \<noteq> 0 \<and> out_bytes (view h) = b # bs \<longrightarrow>
           (\<exists>h''. port_in P h' PS2_DATA = (b, h'') \<and> view h'' = (view h)\<lparr>out_bytes := bs\<rparr> \<and> lag h'' \<le> K)))"

section \<open>The handshake\<close>

lemma obeysD:
  assumes "obeys P view lag K" "port_in P h PS2_STATUS_OR_COMMAND = (v, h')"
  shows "view h' = view h" "lag h' \<le> lag h" "v AND 0x02 \<noteq> 0 \<Longrightarrow> lag h' < lag h"
    "v AND 0x01 = 0 \<Longrightarrow> out_bytes (view h) \<noteq> [] \<Longrightarrow> lag h' < lag h"
    "v AND 0x02 = 0 \<Longrightarrow> view (port_out P h' PS2_STATUS_OR_COMMAND b) = take_command b (view h)"
    "v AND 0x02 = 0 \<Longrightarrow> lag (port_out P h' PS2_STATUS_OR_COMMAND b) \<le> K"
    "v AND 0x02 = 0 \<Longrightarrow> view (port_out P h' PS2_DATA b) = take_data b (view h)"
    "v AND 0x02 = 0 \<Longrightarrow> lag (port_out P h' PS2_DATA b) \<le> K"
    "v AND 0x01 \<noteq> 0 \<Longrightarrow> out_bytes (view h) = b # bs \<Longrightarrow>
      \<exists>h''. port_in P h' PS2_DATA = (b, h'') \<and> view h'' = (view h)\<lparr>out_bytes := bs\<rparr> \<and> lag h'' \<le> K"
proof -
  note o = assms(1) [unfolded obeys_def, THEN spec, of h, THEN spec, of v, THEN spec, of h', THEN mp, OF assms(2)]
  show "view h' = view h" "lag h' \<le> lag h" using o by blast+
  show "v AND 0x02 \<noteq> 0 \<Longrightarrow> lag h' < lag h" using o by blast
  show "v AND 0x01 = 0 \<Longrightarrow> out_bytes (view h) \<noteq> [] \<Longrightarrow> lag h' < lag h" using o by blast
  show "v AND 0x02 = 0 \<Longrightarrow> view (port_out P h' PS2_STATUS_OR_COMMAND b) = take_command b (view h)" using o by blast
  show "v AND 0x02 = 0 \<Longrightarrow> lag (port_out P h' PS2_STATUS_OR_COMMAND b) \<le> K" using o by blast
  show "v AND 0x02 = 0 \<Longrightarrow> view (port_out P h' PS2_DATA b) = take_data b (view h)" using o by blast
  show "v AND 0x02 = 0 \<Longrightarrow> lag (port_out P h' PS2_DATA b) \<le> K" using o by blast
  show "v AND 0x01 \<noteq> 0 \<Longrightarrow> out_bytes (view h) = b # bs \<Longrightarrow>
      \<exists>h''. port_in P h' PS2_DATA = (b, h'') \<and> view h'' = (view h)\<lparr>out_bytes := bs\<rparr> \<and> lag h'' \<le> K" using o by blast
qed

lemma write_waits:
  assumes ob: "obeys P view lag K"
  shows "lag h < F \<Longrightarrow> \<exists>h' h0 v. wait_write_ready F P h = Some h' \<and> port_in P h0 PS2_STATUS_OR_COMMAND = (v, h') \<and>
    v AND 0x02 = 0 \<and> view h0 = view h"
proof (induction F arbitrary: h)
  case (Suc F)
  obtain v h1 where r: "port_in P h PS2_STATUS_OR_COMMAND = (v, h1)" by fastforce
  show ?case
  proof (cases "v AND 0x02 = 0")
    case True
    then have "wait_write_ready (Suc F) P h = Some h1" using r by simp
    with r True show ?thesis by blast
  next
    case False
    have "lag h1 < F" using obeysD(3) [OF ob r False] Suc.prems by simp
    from Suc.IH [OF this] obtain h' h0 u where ih: "wait_write_ready F P h1 = Some h'" "port_in P h0 PS2_STATUS_OR_COMMAND = (u, h')"
      "u AND 0x02 = 0" "view h0 = view h1" by blast
    moreover have "wait_write_ready (Suc F) P h = Some h'" using r False ih(1) by simp
    ultimately show ?thesis using obeysD(1) [OF ob r] by metis
  qed
qed simp

lemma read_waits:
  assumes ob: "obeys P view lag K"
  shows "lag h < F \<Longrightarrow> out_bytes (view h) \<noteq> [] \<Longrightarrow> \<exists>h' h0 v. wait_read_ready F P h = Some h' \<and>
    port_in P h0 PS2_STATUS_OR_COMMAND = (v, h') \<and> v AND 0x01 \<noteq> 0 \<and> view h0 = view h"
proof (induction F arbitrary: h)
  case (Suc F)
  obtain v h1 where r: "port_in P h PS2_STATUS_OR_COMMAND = (v, h1)" by fastforce
  note same = obeysD(1) [OF ob r]
  show ?case
  proof (cases "v AND 0x01 = 0")
    case False
    then have "wait_read_ready (Suc F) P h = Some h1" using r by simp
    with r False show ?thesis by blast
  next
    case True
    have "lag h1 < F" using obeysD(4) [OF ob r True Suc.prems(2)] Suc.prems(1) by simp
    from Suc.IH [OF this] Suc.prems(2) same obtain h' h0 u where ih: "wait_read_ready F P h1 = Some h'"
      "port_in P h0 PS2_STATUS_OR_COMMAND = (u, h')" "u AND 0x01 \<noteq> 0" "view h0 = view h1" by metis
    moreover have "wait_read_ready (Suc F) P h = Some h'" using r True ih(1) by simp
    ultimately show ?thesis using same by metis
  qed
qed simp

lemma command_done:
  assumes ob: "obeys P view lag K" and h: "lag h < F"
  obtains h' where "controller_write F P b h = Some h'" "view h' = take_command b (view h)" "lag h' \<le> K"
proof -
  obtain h1 h0 v where r: "wait_write_ready F P h = Some h1" "port_in P h0 PS2_STATUS_OR_COMMAND = (v, h1)" "v AND 0x02 = 0" "view h0 = view h"
    using write_waits [OF ob h] by blast
  show ?thesis by (rule that [of "port_out P h1 PS2_STATUS_OR_COMMAND b"])
    (simp_all add: controller_write_def r(1) obeysD(5,6) [OF ob r(2,3)] r(4))
qed

lemma data_done:
  assumes ob: "obeys P view lag K" and h: "lag h < F"
  obtains h' where "data_write F P b h = Some h'" "view h' = take_data b (view h)" "lag h' \<le> K"
proof -
  obtain h1 h0 v where r: "wait_write_ready F P h = Some h1" "port_in P h0 PS2_STATUS_OR_COMMAND = (v, h1)" "v AND 0x02 = 0" "view h0 = view h"
    using write_waits [OF ob h] by blast
  show ?thesis by (rule that [of "port_out P h1 PS2_DATA b"])
    (simp_all add: data_write_def r(1) obeysD(7,8) [OF ob r(2,3)] r(4))
qed

lemma answer_read:
  assumes ob: "obeys P view lag K" and h: "lag h < F" and out: "out_bytes (view h) = b # bs"
  obtains h' where "data_read F P h = Some (b, h')" "view h' = (view h)\<lparr>out_bytes := bs\<rparr>" "lag h' \<le> K"
proof -
  obtain h1 h0 v where r: "wait_read_ready F P h = Some h1" "port_in P h0 PS2_STATUS_OR_COMMAND = (v, h1)" "v AND 0x01 \<noteq> 0" "view h0 = view h"
    using read_waits [OF ob h] out by auto
  obtain h2 where "port_in P h1 PS2_DATA = (b, h2)" "view h2 = (view h)\<lparr>out_bytes := bs\<rparr>" "lag h2 \<le> K"
    using obeysD(9) [OF ob r(2,3)] out r(4) by metis
  with r(1) show ?thesis by (intro that [of h2]) (simp_all add: data_read_def)
qed

text \<open>
  C27. The mouse starts.  On a controller that works as documented and answers within the polls made, with
  \<open>stale\<close> bytes still waiting to be read, \<open>init\<close> comes back with the second port on and the mouse streaming,
  and writes back as the configuration the first byte that waited, with the mouse interrupt on and its clock
  running: the controller's own configuration exactly when nothing else was waiting.
\<close>

theorem mouse_starts:
  assumes ob: "obeys P view lag K" "lag h \<le> K" "K < F"
  shows "\<exists>h'. mouse_init F P h = Some h' \<and>
    (let stale = out_bytes (view h); first = hd (stale @ [ctl_config (view h)])
     in view h' = \<lparr>ctl_config = (first OR 0x02) AND NOT 0x20, aux_on = True, streaming = True,
          out_bytes = drop 3 (stale @ [ctl_config (view h), 0xFA, 0xFA]), next_byte = To_keyboard\<rparr>)"
proof -
  let ?c = "ctl_config (view h)"
  obtain x xs where x: "out_bytes (view h) @ [?c] = x # xs" by (cases "out_bytes (view h)") auto
  obtain y ys where y: "xs @ [0xFA :: u8] = y # ys" by (cases xs) auto
  obtain z zs where z: "ys @ [0xFA :: u8] = z # zs" by (cases ys) auto
  let ?cfg = "(x OR 0x02) AND NOT 0x20"
  have "lag h < F" using ob(2,3) by simp
  then obtain h1 where h1: "controller_write F P 0xA8 h = Some h1" "view h1 = take_command 0xA8 (view h)" "lag h1 \<le> K"
    by (rule command_done [OF ob(1)])
  then have "lag h1 < F" using ob(3) by simp
  then obtain h2 where h2: "controller_write F P 0x20 h1 = Some h2" "view h2 = take_command 0x20 (view h1)" "lag h2 \<le> K"
    by (rule command_done [OF ob(1)])
  then have "lag h2 < F" "out_bytes (view h2) = x # xs" using ob(3) x h1(2) by (simp_all add: take_command_def)
  then obtain h3 where h3: "data_read F P h2 = Some (x, h3)" "view h3 = (view h2)\<lparr>out_bytes := xs\<rparr>" "lag h3 \<le> K"
    by (rule answer_read [OF ob(1)])
  then have "lag h3 < F" using ob(3) by simp
  then obtain h4 where h4: "controller_write F P 0x60 h3 = Some h4" "view h4 = take_command 0x60 (view h3)" "lag h4 \<le> K"
    by (rule command_done [OF ob(1)])
  then have "lag h4 < F" using ob(3) by simp
  then obtain h5 where h5: "data_write F P ?cfg h4 = Some h5" "view h5 = take_data ?cfg (view h4)" "lag h5 \<le> K"
    by (rule data_done [OF ob(1)])
  then have "lag h5 < F" using ob(3) by simp
  then obtain h6 where h6: "controller_write F P 0xD4 h5 = Some h6" "view h6 = take_command 0xD4 (view h5)" "lag h6 \<le> K"
    by (rule command_done [OF ob(1)])
  then have "lag h6 < F" using ob(3) by simp
  then obtain h7 where h7: "data_write F P 0xF6 h6 = Some h7" "view h7 = take_data 0xF6 (view h6)" "lag h7 \<le> K"
    by (rule data_done [OF ob(1)])
  have v7: "view h7 = \<lparr>ctl_config = ?cfg, aux_on = True, streaming = False, out_bytes = xs @ [0xFA], next_byte = To_keyboard\<rparr>"
    by (simp add: h7(2) h6(2) h5(2) h4(2) h3(2) h2(2) h1(2) take_command_def take_data_def)
  then have "lag h7 < F" "out_bytes (view h7) = y # ys" using h7(3) ob(3) y by simp_all
  then obtain h8 where h8: "data_read F P h7 = Some (y, h8)" "view h8 = (view h7)\<lparr>out_bytes := ys\<rparr>" "lag h8 \<le> K"
    by (rule answer_read [OF ob(1)])
  then have "lag h8 < F" using ob(3) by simp
  then obtain h9 where h9: "controller_write F P 0xD4 h8 = Some h9" "view h9 = take_command 0xD4 (view h8)" "lag h9 \<le> K"
    by (rule command_done [OF ob(1)])
  then have "lag h9 < F" using ob(3) by simp
  then obtain h10 where h10: "data_write F P 0xF4 h9 = Some h10" "view h10 = take_data 0xF4 (view h9)" "lag h10 \<le> K"
    by (rule data_done [OF ob(1)])
  have v10: "view h10 = \<lparr>ctl_config = ?cfg, aux_on = True, streaming = True, out_bytes = ys @ [0xFA], next_byte = To_keyboard\<rparr>"
    by (simp add: h10(2) h9(2) h8(2) v7 take_command_def take_data_def)
  then have "lag h10 < F" "out_bytes (view h10) = z # zs" using h10(3) ob(3) z by simp_all
  then obtain h11 where h11: "data_read F P h10 = Some (z, h11)" "view h11 = (view h10)\<lparr>out_bytes := zs\<rparr>" "lag h11 \<le> K"
    by (rule answer_read [OF ob(1)])
  have "mouse_init F P h = Some h11"
    by (simp add: mouse_init_def Let_def h1(1) h2(1) h3(1) h4(1) h5(1) [simplified] h6(1) h7(1) h8(1) h9(1) h10(1) h11(1))
  moreover have "hd (out_bytes (view h) @ [?c]) = x" using x by simp
  moreover have "out_bytes (view h) @ [?c, 0xFA, 0xFA] = x # y # z # zs" using x y z by (metis append.assoc append_Cons append_Nil)
  ultimately show ?thesis using h11(2) v10 by (simp add: Let_def del: drop_append)
qed

text \<open>A controller that is busy once after every write and has no byte waiting at first.\<close>

definition demo_ports :: "(nat \<times> i8042) ports" where
  "demo_ports = \<lparr>
     port_in = (\<lambda>(k, v) p.
       if p = PS2_STATUS_OR_COMMAND then (if 0 < k then (2, (k - 1, v)) else (if out_bytes v = [] then 0 else 1, (0, v)))
       else (case out_bytes v of [] \<Rightarrow> (0, (k, v)) | b # bs \<Rightarrow> (b, (0, v\<lparr>out_bytes := bs\<rparr>)))),
     port_out = (\<lambda>(k, v) p b. (1, if p = PS2_DATA then take_data b v else take_command b v))\<rparr>"

lemma demo_obeys: "obeys demo_ports snd fst 1"
  by (auto simp: obeys_def demo_ports_def PS2_DATA_def PS2_STATUS_OR_COMMAND_def split: if_splits)

lemma demo_answers:
  "mouse_init 2 demo_ports (0, \<lparr>ctl_config = 0x65, aux_on = False, streaming = False, out_bytes = [], next_byte = To_keyboard\<rparr>) \<noteq> None"
  by code_simp

theorem mouse_starts_witness:
  "\<exists>h'. mouse_init 2 demo_ports (0, \<lparr>ctl_config = 0x65, aux_on = False, streaming = False, out_bytes = [], next_byte = To_keyboard\<rparr>) = Some h' \<and>
     snd h' = \<lparr>ctl_config = 0x47, aux_on = True, streaming = True, out_bytes = [], next_byte = To_keyboard\<rparr>"
  using mouse_starts [OF demo_obeys, of "(0, \<lparr>ctl_config = 0x65, aux_on = False, streaming = False, out_bytes = [], next_byte = To_keyboard\<rparr>)" 2]
  by (simp add: Let_def)

end
