(* ===== verification/Mouse.thy ===== *)
theory Mouse
  imports Console_Props
begin

text \<open>
  The PS/2 mouse (\<open>kernel/src/mouse.rs\<close>): three-byte packets assembled from the interrupt stream, the
  relative position they add up to, and the drawing mode that turns dragged movements into lines on
  the console.  The bytes come from the controller; the prompt printed when drawing ends is the
  shell's.  \<open>None\<close> is a panic (an \<open>i32\<close> or \<open>u32\<close> overflow, a \<open>clamp\<close> with an empty range, or a
  panic of the console).
\<close>

section \<open>Definitions\<close>

record mouse_state =
  mouse_x :: int
  mouse_y :: int
  m_left :: bool
  m_right :: bool
  m_middle :: bool
  packet_count :: nat

record mouse =
  m_state :: mouse_state
  packet :: bytes
  packet_index :: nat
  drawing_enabled :: bool
  draw_last :: "(nat \<times> nat) option"
  prev_right :: bool
  screen :: "console option"

definition i32 :: "int \<Rightarrow> int option" where
  "i32 i = (if - (2 ^ 31) \<le> i \<and> i < 2 ^ 31 then Some i else None)"

definition as_i32 :: "nat \<Rightarrow> int" where
  "as_i32 n = (int n + 2 ^ 31) mod 2 ^ 32 - 2 ^ 31"

definition clamp :: "int \<Rightarrow> int \<Rightarrow> int \<Rightarrow> int option" where
  "clamp x lo hi = (if hi < lo then None else Some (if x < lo then lo else if hi < x then hi else x))"

definition mouse_boot :: "console option \<Rightarrow> mouse" where
  "mouse_boot c = \<lparr>m_state = \<lparr>mouse_x = 0, mouse_y = 0, m_left = False, m_right = False, m_middle = False,
                     packet_count = 0\<rparr>,
                   packet = [0, 0, 0], packet_index = 0, drawing_enabled = False, draw_last = None,
                   prev_right = False, screen = c\<rparr>"

definition enter_draw_mode :: "mouse \<Rightarrow> mouse" where
  "enter_draw_mode m = m\<lparr>drawing_enabled := True, draw_last := None, prev_right := False\<rparr>"

definition exit_draw_mode :: "mouse \<Rightarrow> mouse" where
  "exit_draw_mode m = m\<lparr>drawing_enabled := False, draw_last := None\<rparr>"

definition exit_message :: "nat list" where
  "exit_message = map (of_char :: char \<Rightarrow> nat)
     ([CHR 0x0A] @ ''exited drawing mode (right-click)'' @ [CHR 0x0A])"

text \<open>An operation of the console static, which does nothing before the console exists.\<close>

definition on_screen_do :: "mouse \<Rightarrow> (console \<Rightarrow> console option) \<Rightarrow> mouse option" where
  "on_screen_do m op = (case screen m of None \<Rightarrow> Some m | Some c \<Rightarrow> map_option (\<lambda>c. m\<lparr>screen := Some c\<rparr>) (op c))"

definition handle_draw_mode :: "font \<Rightarrow> nat list \<Rightarrow> mouse \<Rightarrow> int \<Rightarrow> int \<Rightarrow> bool \<Rightarrow> bool \<Rightarrow> mouse option" where
  "handle_draw_mode f prompt m x y left right =
     (if \<not> drawing_enabled m then Some m
      else let right_edge = (right \<and> \<not> prev_right m); m = m\<lparr>prev_right := right\<rparr> in
        if right_edge then do {
          let m = exit_draw_mode m;
          m \<leftarrow> on_screen_do m (\<lambda>c. write_str f c exit_message);
          on_screen_do m (\<lambda>c. write_str f c prompt) }
        else case screen m of
          None \<Rightarrow> Some m
        | Some con \<Rightarrow> do {
            mx \<leftarrow> i32 (as_i32 (fb_width (info con)) - 1);
            cx \<leftarrow> clamp x 0 mx;
            my \<leftarrow> i32 (as_i32 (fb_height (info con)) - 1);
            cy \<leftarrow> clamp y 0 my;
            let cx = nat cx; let cy = nat cy;
            if left then do {
              m \<leftarrow> (case draw_last m of
                     Some (lx, ly) \<Rightarrow> on_screen_do m (\<lambda>c. draw_line c lx ly cx cy)
                   | None \<Rightarrow> on_screen_do m (\<lambda>c. draw_pixel c cx cy True));
              Some (m\<lparr>draw_last := Some (cx, cy)\<rparr>) }
            else Some (m\<lparr>draw_last := None\<rparr>) })"

definition packet_dx :: "bytes \<Rightarrow> int" where
  "packet_dx p = (let raw = int (unat (p ! 1)) in if p ! 0 AND 0x10 \<noteq> 0 then raw - 256 else raw)"

definition packet_dy :: "bytes \<Rightarrow> int" where
  "packet_dy p = (let raw = int (unat (p ! 2)) in if p ! 0 AND 0x20 \<noteq> 0 then raw - 256 else raw)"

definition apply_packet :: "mouse_state \<Rightarrow> bytes \<Rightarrow> mouse_state option" where
  "apply_packet s p = do {
     x \<leftarrow> i32 (mouse_x s + packet_dx p);
     y \<leftarrow> i32 (mouse_y s - packet_dy p);
     n \<leftarrow> (if packet_count s + 1 < 2 ^ 32 then Some (packet_count s + 1) else None);
     Some \<lparr>mouse_x = x, mouse_y = y, m_left = (p ! 0 AND 0x01 \<noteq> 0), m_right = (p ! 0 AND 0x02 \<noteq> 0),
           m_middle = (p ! 0 AND 0x04 \<noteq> 0), packet_count = n\<rparr> }"

definition mouse_interrupt :: "font \<Rightarrow> nat list \<Rightarrow> mouse \<Rightarrow> u8 \<Rightarrow> mouse option" where
  "mouse_interrupt f prompt m byte =
     (if packet_index m = 0 \<and> byte AND 0x08 = 0 then Some m
      else if packet_index m \<ge> length (packet m) then None
      else let p = (packet m)[packet_index m := byte];
               m = m\<lparr>packet := p, packet_index := packet_index m + 1\<rparr> in
        if packet_index m = 3 then do {
          s \<leftarrow> apply_packet (m_state m) p;
          handle_draw_mode f prompt (m\<lparr>packet_index := 0, m_state := s\<rparr>)
            (mouse_x s) (mouse_y s) (m_left s) (m_right s) }
        else Some m)"

fun mouse_bytes :: "font \<Rightarrow> nat list \<Rightarrow> mouse \<Rightarrow> bytes \<Rightarrow> mouse option" where
  "mouse_bytes f prompt m [] = Some m"
| "mouse_bytes f prompt m (b # bs) = do { m \<leftarrow> mouse_interrupt f prompt m b; mouse_bytes f prompt m bs }"

lemma mouse_bytes_append:
  "mouse_bytes f prompt m (bs @ cs) = do { m \<leftarrow> mouse_bytes f prompt m bs; mouse_bytes f prompt m cs }"
  by (induction f prompt m bs rule: mouse_bytes.induct) (auto split: bind_splits)

section \<open>Packets\<close>

definition mouse_ok :: "font \<Rightarrow> mouse \<Rightarrow> bool" where
  "mouse_ok f m \<longleftrightarrow> length (packet m) = 3 \<and> packet_index m < 3 \<and>
     (\<forall>c. screen m = Some c \<longrightarrow> text_ok f c \<and>
        (\<forall>x y. draw_last m = Some (x, y) \<longrightarrow> x < fb_width (info c) \<and> y < fb_height (info c)))"

text \<open>A packet as the mouse sends it: bit 3 of the status byte is set.\<close>

definition packet_ok :: "bytes \<Rightarrow> bool" where
  "packet_ok p \<longleftrightarrow> length p = 3 \<and> p ! 0 AND 0x08 \<noteq> 0"

lemma packet_range: "- 256 \<le> packet_dx p" "packet_dx p \<le> 255" "- 256 \<le> packet_dy p" "packet_dy p \<le> 255"
proof -
  have "- 256 \<le> uint (p ! k) \<and> uint (p ! k) \<le> 255" for k
    using uint_lt2p [of "p ! k"] order_trans [OF _ uint_ge_0 [of "p ! k"], of "- 256"] by auto
  from this [of 1] this [of 2]
  show "- 256 \<le> packet_dx p" "packet_dx p \<le> 255" "- 256 \<le> packet_dy p" "packet_dy p \<le> 255"
    by (auto simp: packet_dx_def packet_dy_def Let_def)
qed

lemma packet_bytes:
  assumes "packet_index m = 0" "length (packet m) = 3" "packet_ok [b0, b1, b2]"
  shows "mouse_bytes f prompt m [b0, b1, b2] = do {
     s \<leftarrow> apply_packet (m_state m) [b0, b1, b2];
     handle_draw_mode f prompt (m\<lparr>packet := [b0, b1, b2], packet_index := 0, m_state := s\<rparr>)
       (mouse_x s) (mouse_y s) (m_left s) (m_right s) }"
proof -
  obtain q0 q1 q2 where "packet m = [q0, q1, q2]"
    using assms(2) by (auto simp: length_Suc_conv numeral_eq_Suc)
  then show ?thesis using assms(1,3)
    by (simp add: mouse_interrupt_def packet_ok_def Let_def split: bind_splits)
qed

lemma clamp_ok:
  "0 < n \<Longrightarrow> n < 2 ^ 31 \<Longrightarrow> \<exists>k. do { mx \<leftarrow> i32 (as_i32 n - 1); clamp x 0 mx } = Some k \<and> 0 \<le> k \<and> nat k < n"
  by (auto simp: i32_def as_i32_def clamp_def nat_less_iff)

lemma same_screen_text: "same_screen c c' \<Longrightarrow> text_ok f c \<Longrightarrow> text_ok f c'"
  by (auto simp: text_ok_def same_screen_def fb_ok_def)

lemma str_ok:
  assumes "text_ok f c" "y_pos c + 22 * length s < 2 ^ 62"
  obtains c' where "write_str f c s = Some c'" "text_ok f c'" "info c' = info c"
    "y_pos c' \<le> y_pos c + 22 * length s"
  using text_ops_ok [OF assms(1), of "map Put s"] assms(2) that by (auto simp: write_str_ops)

lemma handle_ok:
  assumes ok: "mouse_ok f m" and B: "\<forall>c. screen m = Some c \<longrightarrow> y_pos c \<le> B"
    and K: "22 * (length exit_message + length prompt) \<le> K" "B + K < 2 ^ 62"
  obtains m' where "handle_draw_mode f prompt m x y l r = Some m'" "mouse_ok f m'" "m_state m' = m_state m"
    "packet m' = packet m" "packet_index m' = packet_index m" "\<forall>c. screen m' = Some c \<longrightarrow> y_pos c \<le> B + K"
proof (cases "drawing_enabled m")
  case False
  then show ?thesis using that [of m] ok B by (auto simp: handle_draw_mode_def intro: le_add1 le_trans)
next
  case on: True
  define n where "n = m\<lparr>prev_right := r\<rparr>"
  show ?thesis
  proof (cases "screen m")
    case None
    then show ?thesis using on ok B
      by (cases "r \<and> \<not> prev_right m")
        (auto simp: handle_draw_mode_def on_screen_do_def exit_draw_mode_def mouse_ok_def Let_def intro!: that)
  next
    case (Some c)
    have c: "text_ok f c" "y_pos c \<le> B" using ok B Some by (auto simp: mouse_ok_def)
    then have fb: "fb_ok c" "fb_width (info c) \<le> stride (info c)" "fb_height (info c) < 2 ^ 31"
      "0 < fb_width (info c)" "0 < fb_height (info c)" "stride (info c) < 2 ^ 20"
      by (auto simp: text_ok_def fb_ok_def)
    show ?thesis
    proof (cases "r \<and> \<not> prev_right m")
      case True
      have "y_pos c + 22 * length exit_message < 2 ^ 62" using c(2) K by simp
      then obtain d where d: "write_str f c exit_message = Some d" "text_ok f d" "info d = info c"
        "y_pos d \<le> y_pos c + 22 * length exit_message" using str_ok [OF c(1)] by metis
      have "y_pos d + 22 * length prompt < 2 ^ 62" using c(2) d(4) K by simp
      then obtain e where e: "write_str f d prompt = Some e" "text_ok f e" "info e = info d"
        "y_pos e \<le> y_pos d + 22 * length prompt" using str_ok [OF d(2)] by metis
      have "y_pos e \<le> B + K" using c(2) d(4) e(4) K by simp
      moreover have "handle_draw_mode f prompt m x y l r =
          Some ((exit_draw_mode n)\<lparr>screen := Some e\<rparr>)"
        using on True d(1) e(1) Some by (simp add: handle_draw_mode_def on_screen_do_def exit_draw_mode_def n_def Let_def)
      ultimately show ?thesis using ok e
        by (intro that [of "(exit_draw_mode n)\<lparr>screen := Some e\<rparr>"])
          (auto simp: mouse_ok_def exit_draw_mode_def n_def)
    next
      case False
      have w: "fb_width (info c) < 2 ^ 31" using fb by simp
      obtain cx where cx: "do { mx \<leftarrow> i32 (as_i32 (fb_width (info c)) - 1); clamp x 0 mx } = Some cx"
        "0 \<le> cx" "nat cx < fb_width (info c)" using clamp_ok [OF fb(4) w] by blast
      obtain cy where cy: "do { mx \<leftarrow> i32 (as_i32 (fb_height (info c)) - 1); clamp y 0 mx } = Some cy"
        "0 \<le> cy" "nat cy < fb_height (info c)" using clamp_ok [OF fb(5,3)] by blast
      define op where "op = (\<lambda>c. case draw_last m of Some (lx, ly) \<Rightarrow> draw_line c lx ly (nat cx) (nat cy)
        | None \<Rightarrow> draw_pixel c (nat cx) (nat cy) True)"
      have "\<exists>d. op c = Some d \<and> same_screen c d"
      proof (cases "draw_last m")
        case None
        have "nat cx < 2 ^ 32" "nat cy < 2 ^ 32" "nat cx < stride (info c)" using cx(3) cy(3) fb by auto
        from write_pixel_paints [OF fb(1) this, of 255] obtain d where
          "write_pixel c (nat cx) (nat cy) 255 = Some d" "same_screen c d" by metis
        then show ?thesis unfolding op_def None by (simp add: draw_pixel_def)
      next
        case (Some q)
        obtain lx ly where q: "q = (lx, ly)" by (cases q)
        then have "lx < fb_width (info c)" "ly < fb_height (info c)"
          using ok Some \<open>screen m = Some c\<close> by (auto simp: mouse_ok_def)
        then have "lx < stride (info c)" "nat cx < stride (info c)" "ly < 2 ^ 32" "nat cy < 2 ^ 32"
          using cx(3) cy(3) fb by auto
        then show ?thesis using draw_line_ok [OF fb(1)] unfolding op_def Some q by auto
      qed
      then obtain d where d: "op c = Some d" "same_screen c d" by blast
      have "handle_draw_mode f prompt m x y l r =
          Some (if l then n\<lparr>screen := Some d, draw_last := Some (nat cx, nat cy)\<rparr> else n\<lparr>draw_last := None\<rparr>)"
        using on False d(1) Some cx(1) cy(1)
        by (auto simp: handle_draw_mode_def on_screen_do_def n_def op_def Let_def split: option.splits bind_splits prod.splits)
      then show ?thesis using ok c d(2) same_screen_text [OF d(2) c(1)] cx(3) cy(3) Some
        by (intro that [of "if l then n\<lparr>screen := Some d, draw_last := Some (nat cx, nat cy)\<rparr>
             else n\<lparr>draw_last := None\<rparr>"]) (auto simp: mouse_ok_def n_def same_screen_def)
    qed
  qed
qed

lemma packets_tracked:
  assumes K: "22 * (length exit_message + length prompt) \<le> K"
  shows "mouse_ok f m \<Longrightarrow> packet_index m = 0 \<Longrightarrow> \<forall>p \<in> set ps. packet_ok p \<Longrightarrow>
    \<forall>c. screen m = Some c \<longrightarrow> y_pos c \<le> B \<Longrightarrow> B + length ps * K < 2 ^ 62 \<Longrightarrow>
    \<bar>mouse_x (m_state m)\<bar> + 256 * int (length ps) < 2 ^ 31 \<Longrightarrow>
    \<bar>mouse_y (m_state m)\<bar> + 256 * int (length ps) < 2 ^ 31 \<Longrightarrow>
    packet_count (m_state m) + length ps < 2 ^ 32 \<Longrightarrow>
    \<exists>m'. mouse_bytes f prompt m (concat ps) = Some m' \<and> mouse_ok f m' \<and> packet_index m' = 0 \<and>
      mouse_x (m_state m') = mouse_x (m_state m) + sum_list (map packet_dx ps) \<and>
      mouse_y (m_state m') = mouse_y (m_state m) - sum_list (map packet_dy ps) \<and>
      packet_count (m_state m') = packet_count (m_state m) + length ps"
proof (induction ps arbitrary: m B)
  case (Cons p ps)
  obtain b0 b1 b2 where p: "p = [b0, b1, b2]" "packet_ok p"
    using Cons.prems(3) by (auto simp: packet_ok_def length_Suc_conv numeral_eq_Suc)
  let ?s = "m_state m"
  define s where "s = \<lparr>mouse_x = mouse_x ?s + packet_dx p, mouse_y = mouse_y ?s - packet_dy p,
     m_left = (p ! 0 AND 0x01 \<noteq> 0), m_right = (p ! 0 AND 0x02 \<noteq> 0), m_middle = (p ! 0 AND 0x04 \<noteq> 0),
     packet_count = packet_count ?s + 1\<rparr>"
  note r = packet_range [of p]
  have x: "\<bar>mouse_x s\<bar> + 256 * int (length ps) < 2 ^ 31" "\<bar>mouse_y s\<bar> + 256 * int (length ps) < 2 ^ 31"
    using Cons.prems(6,7) r by (auto simp: s_def)
  have "apply_packet ?s p = Some s"
    using x Cons.prems(8) by (auto simp: apply_packet_def s_def i32_def)
  moreover define m0 where "m0 = m\<lparr>packet := p, packet_index := 0, m_state := s\<rparr>"
  ultimately have b: "mouse_bytes f prompt m p = handle_draw_mode f prompt m0 (mouse_x s) (mouse_y s) (m_left s) (m_right s)"
    using packet_bytes [of m b0 b1 b2 f prompt] Cons.prems(1,2) p by (simp add: mouse_ok_def)
  have m0: "mouse_ok f m0" "\<forall>c. screen m0 = Some c \<longrightarrow> y_pos c \<le> B"
    using Cons.prems(1,4) p(1) by (auto simp: m0_def mouse_ok_def)
  have "B + K < 2 ^ 62" using Cons.prems(5) by simp
  from handle_ok [OF m0 K this] obtain m1 where m1:
    "handle_draw_mode f prompt m0 (mouse_x s) (mouse_y s) (m_left s) (m_right s) = Some m1" "mouse_ok f m1"
    "m_state m1 = m_state m0" "packet_index m1 = packet_index m0" "\<forall>c. screen m1 = Some c \<longrightarrow> y_pos c \<le> B + K"
    by metis
  have st: "m_state m1 = s" "packet_index m1 = 0" using m1(3,4) by (simp_all add: m0_def)
  have "B + K + length ps * K < 2 ^ 62" using Cons.prems(5) by simp
  from Cons.IH [OF m1(2) st(2) _ m1(5) this] obtain m' where "mouse_bytes f prompt m1 (concat ps) = Some m'"
    "mouse_ok f m'" "packet_index m' = 0" "mouse_x (m_state m') = mouse_x s + sum_list (map packet_dx ps)"
    "mouse_y (m_state m') = mouse_y s - sum_list (map packet_dy ps)"
    "packet_count (m_state m') = packet_count s + length ps"
    using Cons.prems(3,8) x unfolding st(1) by (auto simp: s_def)
  then show ?case using b m1(1) by (intro exI [of _ m']) (simp add: mouse_bytes_append s_def)
qed simp

section \<open>The properties\<close>



end
