(* ===== verification/Pci.thy ===== *)
theory Pci
  imports Prelude
begin

text \<open>
  PCI enumeration (\<open>kernel/src/pci.rs\<close>): configuration addresses, the scan of bus 0 and the search
  for a network controller.  The configuration space is hardware and a parameter: a function from
  the address written to \<open>CONFIG_ADDRESS\<close> to the dword read from \<open>CONFIG_DATA\<close>.
\<close>

section \<open>Definitions\<close>

record pci_device =
  pci_bus :: u8
  pci_dev :: u8
  pci_fun :: u8
  vendor_id :: u16
  device_id :: u16
  class_code :: u8
  sub_class :: u8

type_synonym config_space = "u32 \<Rightarrow> u32"

definition NETWORK_CONTROLLER_CLASS :: u8 where "NETWORK_CONTROLLER_CLASS = 0x02"

definition config_address :: "u8 \<Rightarrow> u8 \<Rightarrow> u8 \<Rightarrow> u8 \<Rightarrow> u32" where
  "config_address bus dev fn off =
     0x80000000 OR push_bit 16 (ucast bus) OR push_bit 11 (ucast dev) OR push_bit 8 (ucast fn)
       OR (ucast off AND 0xFC)"

definition read_config_dword :: "config_space \<Rightarrow> u8 \<Rightarrow> u8 \<Rightarrow> u8 \<Rightarrow> u8 \<Rightarrow> u32" where
  "read_config_dword cfg bus dev fn off = cfg (config_address bus dev fn off)"

text \<open>One pass of the inner loop: \<open>None\<close> is a gap.\<close>

definition probe :: "config_space \<Rightarrow> u8 \<Rightarrow> u8 \<Rightarrow> pci_device option" where
  "probe cfg dev fn =
     (let vendor_device = read_config_dword cfg 0 dev fn 0x00;
          vendor = ucast (vendor_device AND 0xFFFF) :: u16
      in if vendor = 0xFFFF then None
         else let class_reg = read_config_dword cfg 0 dev fn 0x08
              in Some \<lparr>pci_bus = 0, pci_dev = dev, pci_fun = fn, vendor_id = vendor,
                       device_id = ucast (drop_bit 16 vendor_device AND 0xFFFF),
                       class_code = ucast (drop_bit 24 class_reg AND 0xFF),
                       sub_class = ucast (drop_bit 16 class_reg AND 0xFF)\<rparr>)"

definition max_function :: "config_space \<Rightarrow> u8 \<Rightarrow> nat" where
  "max_function cfg dev =
     (let header_type = ucast (drop_bit 16 (read_config_dword cfg 0 dev 0 0x0C) AND 0xFF) :: u8
      in if header_type AND 0x80 \<noteq> 0 then 8 else 1)"

definition scan_slot :: "config_space \<Rightarrow> u8 \<Rightarrow> pci_device list" where
  "scan_slot cfg dev =
     (if (ucast (read_config_dword cfg 0 dev 0 0x00 AND 0xFFFF) :: u16) = 0xFFFF then []
      else List.map_filter (\<lambda>fn. probe cfg dev (of_nat fn)) [0..<max_function cfg dev])"

definition pci_init :: "config_space \<Rightarrow> pci_device list" where
  "pci_init cfg = concat (map (\<lambda>dev. scan_slot cfg (of_nat dev)) [0..<32])"

definition find_nic :: "pci_device list \<Rightarrow> pci_device option" where
  "find_nic ds = List.find (\<lambda>d. class_code d = NETWORK_CONTROLLER_CLASS) ds"

definition read_config_register :: "config_space \<Rightarrow> pci_device \<Rightarrow> u8 \<Rightarrow> u32" where
  "read_config_register cfg d off = read_config_dword cfg (pci_bus d) (pci_dev d) (pci_fun d) off"

text \<open>What \<open>write_config_register\<close> puts on the two ports.\<close>

definition write_config_register :: "pci_device \<Rightarrow> u8 \<Rightarrow> u32 \<Rightarrow> u32 \<times> u32" where
  "write_config_register d off v = (config_address (pci_bus d) (pci_dev d) (pci_fun d) off, v)"

section \<open>Addresses\<close>

text \<open>The fields a PCI host bridge reads out of an address (PCI specification).\<close>

definition addr_fields :: "u32 \<Rightarrow> u8 \<times> u8 \<times> u8 \<times> u8" where
  "addr_fields a = (ucast (take_bit 8 (drop_bit 16 a)), ucast (take_bit 5 (drop_bit 11 a)),
                    ucast (take_bit 3 (drop_bit 8 a)), ucast (take_bit 8 a))"

lemma bits_const: "(0x80000000 :: u32) = push_bit 31 1" "(0xFC :: u32) = push_bit 2 (mask 6)"
  by (simp_all add: mask_eq_exp_minus_1)

lemma small_bits: "unat (w :: u8) < 2 ^ k \<Longrightarrow> bit w n \<Longrightarrow> n < k"
proof (rule ccontr)
  assume w: "unat w < 2 ^ k" "bit w n" "\<not> n < k"
  have "bit (unat w) n" using w(2) by (simp add: bit_unsigned_iff)
  then have "odd (unat w div 2 ^ n)" by (simp add: bit_iff_odd)
  moreover have "unat w < 2 ^ n" using w(1,3) by (meson less_le_trans not_less one_le_numeral power_increasing)
  ultimately show False by simp
qed

lemma address_fields:
  assumes "unat dev < 32" "unat fn < 8"
  shows "addr_fields (config_address bus dev fn off) = (bus, dev, fn, off AND 0xFC)"
    "bit (config_address bus dev fn off) 31"
proof -
  have d: "bit dev n \<Longrightarrow> n < 5" for n using small_bits [of dev 5 n] assms(1) by simp
  have f: "bit fn n \<Longrightarrow> n < 3" for n using small_bits [of fn 3 n] assms(2) by simp
  have fc: "(0xFC :: u8) = push_bit 2 (mask 6)" by (simp add: mask_eq_exp_minus_1)
  have len: "bit w n \<Longrightarrow> n < 8" for w :: u8 and n using bit_imp_le_length [of w n] by simp
  let ?a = "config_address bus dev fn off"
  have "ucast (take_bit 8 (drop_bit 16 ?a)) = bus"
    unfolding config_address_def bits_const
    by (rule bit_word_eqI) (auto simp: bit_simps dest: d f)
  moreover have "ucast (take_bit 5 (drop_bit 11 ?a)) = dev"
    unfolding config_address_def bits_const
    by (rule bit_word_eqI) (auto simp: bit_simps dest: d f)
  moreover have "ucast (take_bit 3 (drop_bit 8 ?a)) = fn"
    unfolding config_address_def bits_const
    by (rule bit_word_eqI) (auto simp: bit_simps dest: d f)
  moreover have "ucast (take_bit 8 ?a) = off AND 0xFC"
    unfolding config_address_def bits_const fc
    by (rule bit_word_eqI) (auto simp: bit_simps)
  ultimately show "addr_fields ?a = (bus, dev, fn, off AND 0xFC)" by (simp add: addr_fields_def)
  show "bit ?a 31" unfolding config_address_def bits_const by (auto simp: bit_simps)
qed

text \<open>
  Configuration addresses are unambiguous: for the 32 slots and 8 functions of a bus, the
  enable bit is set and the bridge reads back exactly the bus, slot, function and dword-aligned
  register asked for, so that different registers have different addresses.
\<close>

theorem config_address_roundtrip:
  assumes "unat dev < 32" "unat fn < 8"
  shows "bit (config_address bus dev fn off) 31 \<and>
    addr_fields (config_address bus dev fn off) = (bus, dev, fn, off AND 0xFC)"
  using address_fields [OF assms] by blast

theorem config_address_roundtrip_witness:
  "bit (config_address 0 3 1 0x10) 31 \<and> addr_fields (config_address 0 3 1 0x10) = (0, 3, 1, 0x10 AND 0xFC)"
  by (rule config_address_roundtrip) simp_all

section \<open>The scan\<close>

lemma map_filter_set: "y \<in> set (List.map_filter f xs) \<longleftrightarrow> (\<exists>x \<in> set xs. f x = Some y)"
  by (force simp: List.map_filter_def)

text \<open>A function is present when it and function 0 of its slot answer, and the slot says it has several.\<close>

definition present :: "config_space \<Rightarrow> nat \<Rightarrow> nat \<Rightarrow> bool" where
  "present cfg dev fn \<longleftrightarrow> dev < 32 \<and> fn < 8 \<and>
     (ucast (cfg (config_address 0 (of_nat dev) 0 0)) :: u16) \<noteq> 0xFFFF \<and>
     (ucast (cfg (config_address 0 (of_nat dev) (of_nat fn) 0)) :: u16) \<noteq> 0xFFFF \<and>
     (fn = 0 \<or> bit (cfg (config_address 0 (of_nat dev) 0 0x0C)) 23)"

lemma ucast_mask16: "(ucast (w AND 0xFFFF :: u32) :: u16) = ucast w"
proof -
  have m: "(0xFFFF :: u32) = mask 16" by (simp add: mask_eq_exp_minus_1)
  show ?thesis unfolding m by (rule bit_word_eqI) (auto simp: bit_simps)
qed

lemma multi_function_bit: "((ucast (drop_bit 16 w AND 0xFF :: u32) :: u8) AND 0x80 \<noteq> 0) = bit w 23"
proof -
  have m: "(0xFF :: u32) = mask 8" "(0x80 :: u8) = push_bit 7 1" by (simp_all add: mask_eq_exp_minus_1)
  have "bit (ucast (drop_bit 16 w AND mask 8) :: u8) 7 = bit w 23"
    by (simp add: bit_simps)
  then show ?thesis unfolding m bit_iff_and_push_bit_not_eq_0 [symmetric] .
qed

lemma scan_slot_set:
  assumes "dev < 32"
  shows "d \<in> set (scan_slot cfg (of_nat dev)) \<longleftrightarrow>
    (\<exists>fn. present cfg dev fn \<and> probe cfg (of_nat dev) (of_nat fn) = Some d)"
proof -
  have mx: "max_function cfg (of_nat dev) = (if bit (cfg (config_address 0 (of_nat dev) 0 0x0C)) 23 then 8 else 1)"
    by (simp add: max_function_def read_config_dword_def multi_function_bit)
  have some: "probe cfg (of_nat dev) (of_nat fn) = Some d \<Longrightarrow>
      (ucast (cfg (config_address 0 (of_nat dev) (of_nat fn) 0)) :: u16) \<noteq> 0xFFFF" for fn
    by (auto simp: probe_def read_config_dword_def ucast_mask16 Let_def split: if_splits)
  show ?thesis using assms some
    by (auto simp: scan_slot_def map_filter_set mx present_def read_config_dword_def ucast_mask16)
qed

text \<open>Slot and function of the devices, in the order of the scan.\<close>

definition slot_key :: "pci_device \<Rightarrow> nat \<times> nat" where
  "slot_key d = (unat (pci_dev d), unat (pci_fun d))"

lemma probe_key:
  "probe cfg (of_nat dev) (of_nat fn) = Some d \<Longrightarrow> dev < 32 \<Longrightarrow> fn < 8 \<Longrightarrow> slot_key d = (dev, fn)"
  by (auto simp: probe_def Let_def slot_key_def unat_of_nat split: if_splits)

text \<open>The description of a function that answers.\<close>

definition device_at :: "config_space \<Rightarrow> nat \<Rightarrow> nat \<Rightarrow> pci_device" where
  "device_at cfg dev fn =
     (let ids = cfg (config_address 0 (of_nat dev) (of_nat fn) 0x00);
          cls = cfg (config_address 0 (of_nat dev) (of_nat fn) 0x08)
      in \<lparr>pci_bus = 0, pci_dev = of_nat dev, pci_fun = of_nat fn, vendor_id = ucast ids,
          device_id = ucast (drop_bit 16 ids), class_code = ucast (drop_bit 24 cls),
          sub_class = ucast (drop_bit 16 cls)\<rparr>)"

lemma ucast_mask8: "(ucast (w AND 0xFF :: u32) :: u8) = ucast w"
proof -
  have m: "(0xFF :: u32) = mask 8" by (simp add: mask_eq_exp_minus_1)
  show ?thesis unfolding m by (rule bit_word_eqI) (auto simp: bit_simps)
qed

lemma probe_present:
  "present cfg dev fn \<Longrightarrow> probe cfg (of_nat dev) (of_nat fn) = Some (device_at cfg dev fn)"
  by (simp add: probe_def read_config_dword_def ucast_mask16 ucast_mask8 present_def device_at_def Let_def)

lemma map_filter_keys:
  "distinct xs \<Longrightarrow> inj_on g (set xs) \<Longrightarrow> (\<And>x d. x \<in> set xs \<Longrightarrow> f x = Some d \<Longrightarrow> k d = g x) \<Longrightarrow>
    distinct (map k (List.map_filter f xs))"
proof (induction xs)
  case (Cons x xs)
  have IH: "distinct (map k (List.map_filter f xs))" using Cons by simp
  show ?case
  proof (cases "f x")
    case (Some d)
    have "k d \<noteq> k d'" if "d' \<in> set (List.map_filter f xs)" for d'
    proof -
      obtain x' where x': "x' \<in> set xs" "f x' = Some d'" using \<open>d' \<in> _\<close> map_filter_set by metis
      moreover have "k d = g x" "k d' = g x'" using Cons.prems(3) Some x' by auto
      ultimately show ?thesis using Cons.prems(1,2) by (auto simp: inj_on_def)
    qed
    then show ?thesis using IH Some by (auto simp: List.map_filter_simps)
  qed (simp add: List.map_filter_simps IH)
qed (simp add: List.map_filter_simps)

lemma scan_distinct: "distinct (map slot_key (pci_init cfg))"
proof -
  have key: "fst (slot_key d) = dev" if "d \<in> set (scan_slot cfg (of_nat dev))" "dev < 32" for d dev
    using that probe_key by (fastforce simp: scan_slot_set present_def)
  have slot: "distinct (map slot_key (scan_slot cfg (of_nat dev)))" if "dev < 32" for dev
  proof -
    have "max_function cfg (of_nat dev) \<le> 8" by (simp add: max_function_def Let_def)
    then have "distinct (map slot_key (List.map_filter (\<lambda>fn. probe cfg (of_nat dev) (of_nat fn))
        [0..<max_function cfg (of_nat dev)]))"
      using that probe_key by (intro map_filter_keys [where g = "Pair dev"]) (auto simp: inj_on_def)
    then show ?thesis by (simp add: scan_slot_def)
  qed
  have "distinct (map slot_key (concat (map (\<lambda>dev. scan_slot cfg (of_nat dev)) ds)))"
    if "distinct ds" "\<forall>dev \<in> set ds. dev < 32" for ds :: "nat list"
    using that
  proof (induction ds)
    case (Cons dev ds)
    have "slot_key d \<noteq> slot_key d'"
      if "d \<in> set (scan_slot cfg (of_nat dev))" "dev' \<in> set ds" "d' \<in> set (scan_slot cfg (of_nat dev'))" for d d' dev'
      using key [OF that(1)] key [OF that(3)] that Cons.prems by auto
    then have "slot_key ` set (scan_slot cfg (of_nat dev)) \<inter>
        slot_key ` (\<Union>dev' \<in> set ds. set (scan_slot cfg (of_nat dev'))) = {}"
      by blast
    moreover have "distinct (map slot_key (concat (map (\<lambda>dev. scan_slot cfg (of_nat dev)) ds)))"
      using Cons by simp
    ultimately show ?case using slot [of dev] Cons.prems(2) by simp
  qed simp
  then show ?thesis by (simp add: pci_init_def)
qed

lemma find_spec:
  "((\<exists>x. List.find P xs = Some x) = (\<exists>x \<in> set xs. P x)) \<and>
   List.find P xs \<in> {None} \<union> Some ` {x \<in> set xs. P x}"
  by (induction xs) auto

text \<open>
  C37. The scan finds exactly what answers: a device is listed if and only if it is the description
  of a function of bus 0 that is present (function 0 of an occupied slot, the others only in a slot
  whose header says so), no slot and function is listed twice, and \<open>find_nic\<close> returns a listed
  network controller exactly when there is one.
\<close>

theorem scan_complete:
  "(d \<in> set (pci_init cfg) \<longleftrightarrow> (\<exists>dev fn. present cfg dev fn \<and> d = device_at cfg dev fn)) \<and>
   distinct (map slot_key (pci_init cfg)) \<and>
   (\<exists>nic. find_nic (pci_init cfg) = Some nic) = (\<exists>nic \<in> set (pci_init cfg). class_code nic = 2) \<and>
   find_nic (pci_init cfg) \<in> {None} \<union> Some ` {nic \<in> set (pci_init cfg). class_code nic = 2}"
proof -
  have "d \<in> set (pci_init cfg) \<longleftrightarrow> (\<exists>dev < 32. d \<in> set (scan_slot cfg (of_nat dev)))"
    by (auto simp: pci_init_def)
  also have "\<dots> \<longleftrightarrow> (\<exists>dev fn. present cfg dev fn \<and> d = device_at cfg dev fn)"
    by (metis scan_slot_set probe_present option.inject present_def)
  finally have "d \<in> set (pci_init cfg) \<longleftrightarrow> (\<exists>dev fn. present cfg dev fn \<and> d = device_at cfg dev fn)" .
  then show ?thesis
    using scan_distinct [of cfg] find_spec [of "\<lambda>d. class_code d = 2" "pci_init cfg"]
    unfolding find_nic_def NETWORK_CONTROLLER_CLASS_def by blast
qed

end
