(* ===== verification/Rtc.thy ===== *)
theory Rtc
  imports Prelude "HOL-Library.Monad_Syntax"
begin

text \<open>
  The CMOS real-time clock (\<open>kernel/src/rtc.rs\<close>).  The clock is hardware that ticks on its own: it is a
  function from the number of reads made so far and the register to the byte read.  The two
  polling loops may run for ever on a clock that never settles; they take fuel, and \<open>None\<close> is
  running out of it.
\<close>

section \<open>Definitions\<close>

type_synonym cmos = "nat \<Rightarrow> u8 \<Rightarrow> u8"

record date_time =
  year :: u16
  month :: u8
  day :: u8
  hour :: u8
  minute :: u8
  second :: u8

text \<open>The raw fields of one pass over the registers, in the order of the reads.\<close>

record raw_time =
  r_second :: u8
  r_minute :: u8
  r_hour :: u8
  r_day :: u8
  r_month :: u8
  r_year :: u8

definition update_in_progress :: "cmos \<Rightarrow> nat \<Rightarrow> bool" where
  "update_in_progress h n = (h n 0x0A AND 0x80 \<noteq> 0)"

definition bcd_to_bin :: "u8 \<Rightarrow> u8" where
  "bcd_to_bin v = (v AND 0x0F) + (v div 16) * 10"

fun wait_idle :: "nat \<Rightarrow> cmos \<Rightarrow> nat \<Rightarrow> nat option" where
  "wait_idle 0 h n = None"
| "wait_idle (Suc k) h n = (if update_in_progress h n then wait_idle k h (n + 1) else Some (n + 1))"

definition read_fields :: "cmos \<Rightarrow> nat \<Rightarrow> raw_time" where
  "read_fields h n = \<lparr>r_second = h n 0x00, r_minute = h (n + 1) 0x02, r_hour = h (n + 2) 0x04,
                      r_day = h (n + 3) 0x07, r_month = h (n + 4) 0x08, r_year = h (n + 5) 0x09\<rparr>"

fun agree :: "nat \<Rightarrow> nat \<Rightarrow> cmos \<Rightarrow> raw_time \<Rightarrow> nat \<Rightarrow> (raw_time \<times> nat) option" where
  "agree F 0 h f n = None"
| "agree F (Suc k) h f n = do {
     n \<leftarrow> wait_idle F h n;
     let f2 = read_fields h n;
     if f = f2 then Some (f2, n + 6) else agree F k h f2 (n + 6) }"

definition decode_hour :: "bool \<Rightarrow> bool \<Rightarrow> u8 \<Rightarrow> u8" where
  "decode_hour is_bcd is_12h hr =
     (let hr = (if is_bcd then bcd_to_bin (hr AND 0x7F) else hr)
      in if is_12h \<and> hr AND 0x80 \<noteq> 0 then (hr AND 0x7F) mod 12 + 12 else hr)"

definition decode_time :: "u8 \<Rightarrow> raw_time \<Rightarrow> date_time" where
  "decode_time status_b f =
     (let is_bcd = (status_b AND 0x04 = 0);
          is_12h = (status_b AND 0x02 = 0);
          conv = (\<lambda>v. if is_bcd then bcd_to_bin v else v)
      in \<lparr>year = 2000 + ucast (conv (r_year f)), month = conv (r_month f), day = conv (r_day f),
          hour = decode_hour is_bcd is_12h (r_hour f), minute = conv (r_minute f),
          second = conv (r_second f)\<rparr>)"

definition now :: "nat \<Rightarrow> cmos \<Rightarrow> date_time option" where
  "now F h = do {
     n \<leftarrow> wait_idle F h 0;
     (f, n) \<leftarrow> agree F F h (read_fields h n) (n + 6);
     Some (decode_time (h n 0x0B) f) }"

section \<open>Reading a clock\<close>

text \<open>A clock that shows the registers \<open>r\<close> and is updating for the first \<open>N\<close> reads only.\<close>

definition showing :: "cmos \<Rightarrow> nat \<Rightarrow> (u8 \<Rightarrow> u8) \<Rightarrow> bool" where
  "showing h N r \<longleftrightarrow> (\<forall>n. update_in_progress h n = (n < N)) \<and> (\<forall>n \<ge> N. \<forall>reg. reg \<noteq> 0x0A \<longrightarrow> h n reg = r reg)"

lemma now_showing:
  assumes "showing h N r" "N + 2 \<le> F"
  shows "now F h = Some (decode_time (r 0x0B)
    \<lparr>r_second = r 0, r_minute = r 2, r_hour = r 4, r_day = r 7, r_month = r 8, r_year = r 9\<rparr>)"
proof -
  have up: "update_in_progress h n = (n < N)" for n using assms(1) by (simp add: showing_def)
  have rd: "read_fields h n = \<lparr>r_second = r 0, r_minute = r 2, r_hour = r 4, r_day = r 7,
      r_month = r 8, r_year = r 9\<rparr>" if "N \<le> n" for n
    using assms(1) that by (simp add: read_fields_def showing_def)
  have w: "wait_idle k h n = Some (Suc (max n N))" if "N < n + k" "0 < k" for k n
    using that
  proof (induction k arbitrary: n)
    case (Suc k)
    show ?case
    proof (cases "n < N")
      case True
      then show ?thesis using Suc.IH [of "n + 1"] Suc.prems(1) by (auto simp: up max_def)
    qed (simp add: up max_def)
  qed simp
  obtain F' where F': "F = Suc F'" using assms(2) by (cases F) auto
  have "wait_idle F h 0 = Some (Suc N)" using w [of 0 F] assms(2) by simp
  moreover have "wait_idle F h (Suc N + 6) = Some (Suc (Suc N + 6))" using w [of "Suc N + 6" F] assms(2) by simp
  moreover have "h n 0x0B = r 0x0B" if "N \<le> n" for n using assms(1) that by (simp add: showing_def)
  ultimately show ?thesis by (simp add: now_def rd F' del: wait_idle.simps)
qed

text \<open>How the chip stores a number, and an hour of the day in 24-hour and 12-hour mode (datasheet).\<close>

definition to_bcd :: "bool \<Rightarrow> nat \<Rightarrow> u8" where
  "to_bcd bcd n = of_nat (if bcd then n div 10 * 16 + n mod 10 else n)"

definition hour_reg :: "bool \<Rightarrow> bool \<Rightarrow> nat \<Rightarrow> u8" where
  "hour_reg bcd h12 t =
     (if h12 then to_bcd bcd (if t mod 12 = 0 then 12 else t mod 12) OR (if 12 \<le> t then 0x80 else 0)
      else to_bcd bcd t)"

lemma bcd_table:
  "list_all (\<lambda>n. bcd_to_bin (to_bcd True n) = of_nat n) [0..<100] \<and>
   list_all (\<lambda>n. decode_hour True False (to_bcd True n) = of_nat n) [0..<24]"
  by code_simp

lemma bcd_roundtrip: "n < 100 \<Longrightarrow> bcd_to_bin (to_bcd True n) = of_nat n"
  using bcd_table by (auto simp: list_all_iff)

lemma bcd_hour: "n < 24 \<Longrightarrow> decode_hour True False (to_bcd True n) = of_nat n"
  using bcd_table by (auto simp: list_all_iff)

text \<open>The registers of a chip in 24-hour mode that holds a date and time.\<close>

definition clock_regs :: "bool \<Rightarrow> nat \<Rightarrow> nat \<Rightarrow> nat \<Rightarrow> nat \<Rightarrow> nat \<Rightarrow> nat \<Rightarrow> u8 \<Rightarrow> u8" where
  "clock_regs bcd y mo d hr mi s =
     (\<lambda>_. 0)(0 := to_bcd bcd s, 2 := to_bcd bcd mi, 4 := hour_reg bcd False hr, 7 := to_bcd bcd d,
             8 := to_bcd bcd mo, 9 := to_bcd bcd y, 0x0B := (if bcd then 0x02 else 0x06))"

text \<open>
  C38. The date is read back: on a chip in 24-hour mode, in BCD or binary, that has finished updating
  after some number of reads, \<open>now\<close> returns with the year, month, day, hour, minute and second it holds.
\<close>

theorem rtc_reads_back:
  assumes "showing h N (clock_regs bcd y mo d hr mi s)" "N + 2 \<le> F"
    "y < 100" "mo < 100" "d < 100" "hr < 24" "mi < 60" "s < 60"
  shows "now F h = Some \<lparr>year = of_nat (2000 + y), month = of_nat mo, day = of_nat d, hour = of_nat hr,
                         minute = of_nat mi, second = of_nat s\<rparr>"
proof -
  have conv: "(if bcd then bcd_to_bin (to_bcd bcd n) else to_bcd bcd n) = of_nat n" if "n < 100" for n
    using bcd_roundtrip [OF that] by (simp add: to_bcd_def)
  have hr: "decode_hour bcd False (to_bcd bcd hr) = of_nat hr"
    using bcd_hour [OF assms(6)] by (cases bcd) (simp_all add: decode_hour_def to_bcd_def)
  have "ucast (of_nat y :: u8) = (of_nat y :: u16)" using assms(3) by (simp add: unsigned_of_nat take_bit_nat_eq_self)
  then show ?thesis
    using now_showing [OF assms(1,2)] conv [of y] conv [of mo] conv [of d] conv [of mi] conv [of s] hr assms(3-)
    by (cases bcd) (auto simp: decode_time_def clock_regs_def hour_reg_def Let_def)
qed

theorem rtc_reads_back_witness:
  "now 5 (\<lambda>n reg. if reg = 0x0A then (if n < 3 then 0x80 else 0) else clock_regs True 26 7 14 23 59 8 reg) =
     Some \<lparr>year = of_nat (2000 + 26), month = of_nat 7, day = of_nat 14, hour = of_nat 23,
           minute = of_nat 59, second = of_nat 8\<rparr>"
  by (rule rtc_reads_back [where N = 3 and bcd = True]) (simp_all add: showing_def update_in_progress_def)

lemma hour_table:
  "list_all (\<lambda>t. list_all (\<lambda>bcd. list_all (\<lambda>h12.
     (decode_hour bcd h12 (hour_reg bcd h12 t) = of_nat t) = (\<not> h12 \<or> (if bcd then 1 \<le> t \<and> t \<le> 12 else t \<noteq> 0)))
     [True, False]) [True, False]) [0..<24]"
  by code_simp

text \<open>
  Twelve-hour clocks are misread: for an hour of the day as a chip in BCD or binary, 12-hour or
  24-hour mode stores it, the hour \<open>now\<close> computes is right exactly in 24-hour mode, in binary 12-hour
  mode except at midnight, and in BCD 12-hour mode from one in the morning to noon: there the PM bit
  is masked off before it is tested, so every afternoon hour comes out as a morning hour.
\<close>

theorem rtc_twelve_hours:
  assumes "t < 24"
  shows "(decode_hour bcd h12 (hour_reg bcd h12 t) = of_nat t) \<longleftrightarrow>
    \<not> h12 \<or> (if bcd then 1 \<le> t \<and> t \<le> 12 else t \<noteq> 0)"
  using hour_table assms by (cases bcd; cases h12) (auto simp: list_all_iff)

theorem rtc_twelve_hours_witness:
  "(decode_hour True True (hour_reg True True 15) = of_nat 15) \<longleftrightarrow>
    \<not> True \<or> (if True then 1 \<le> (15 :: nat) \<and> (15 :: nat) \<le> 12 else (15 :: nat) \<noteq> 0)"
  by (rule rtc_twelve_hours) simp

end
