(* ===== verification/Nic.thy ===== *)
theory Nic
  imports Pci
begin

text \<open>
  The e1000 driver (\<open>kernel/src/nic.rs\<close>): finding and resetting the card, the transmit and receive
  rings in memory, one test frame out and one frame in.  The card is hardware and a parameter: what a
  register read returns and does, what a register write does, and what the card has done to the
  rings by the next time the driver looks; all three may change the card's state and the shared
  memory.  Register accesses are by offset from the mapped base.  The page tables the driver walks
  and the addresses of its statics are parameters as well.  \<open>None\<close> is a panic of a slot index.
\<close>

section \<open>Descriptors, rings and the card\<close>

record tx_desc =
  tx_addr :: u64
  tx_length :: u16
  tx_cso :: u8
  tx_cmd :: u8
  tx_status :: u8
  tx_css :: u8
  tx_special :: u16

record rx_desc =
  rx_addr :: u64
  rx_length :: u16
  rx_checksum :: u16
  rx_status :: u8
  rx_errors :: u8
  rx_special :: u16

record dma =
  tx_ring :: "tx_desc list"
  tx_buffers :: "bytes list"
  rx_ring :: "rx_desc list"
  rx_buffers :: "bytes list"

definition EMPTY_DESC :: tx_desc where
  "EMPTY_DESC = \<lparr>tx_addr = 0, tx_length = 0, tx_cso = 0, tx_cmd = 0, tx_status = 0, tx_css = 0, tx_special = 0\<rparr>"

definition EMPTY_RX_DESC :: rx_desc where
  "EMPTY_RX_DESC = \<lparr>rx_addr = 0, rx_length = 0, rx_checksum = 0, rx_status = 0, rx_errors = 0, rx_special = 0\<rparr>"

definition NUM_TX_DESC :: nat where [simp]: "NUM_TX_DESC = 8"
definition TX_PACKET_BUF_LEN :: nat where [simp]: "TX_PACKET_BUF_LEN = 256"
definition NUM_RX_DESC :: nat where [simp]: "NUM_RX_DESC = 8"
definition RX_PACKET_BUF_LEN :: nat where [simp]: "RX_PACKET_BUF_LEN = 2048"

definition TEST_PAYLOAD :: bytes where
  "TEST_PAYLOAD = bytes_of ''spikeling-os milestone 24 test packet''"

definition boot_dma :: dma where
  "boot_dma = \<lparr>tx_ring = replicate NUM_TX_DESC EMPTY_DESC,
               tx_buffers = replicate NUM_TX_DESC (replicate TX_PACKET_BUF_LEN 0),
               rx_ring = replicate NUM_RX_DESC EMPTY_RX_DESC,
               rx_buffers = replicate NUM_RX_DESC (replicate RX_PACKET_BUF_LEN 0)\<rparr>"

record 'h card =
  card_read :: "'h \<times> dma \<Rightarrow> nat \<Rightarrow> u32 \<times> 'h \<times> dma"
  card_write :: "'h \<times> dma \<Rightarrow> nat \<Rightarrow> u32 \<Rightarrow> 'h \<times> dma"
  card_work :: "'h \<times> dma \<Rightarrow> 'h \<times> dma"

definition REG_CTRL :: nat where "REG_CTRL = 0x0000"
definition REG_STATUS :: nat where "REG_STATUS = 0x0008"
definition REG_IMC :: nat where "REG_IMC = 0x00D8"
definition REG_MDIC :: nat where "REG_MDIC = 0x0020"
definition REG_RCTL :: nat where "REG_RCTL = 0x0100"
definition REG_TCTL :: nat where "REG_TCTL = 0x0400"
definition REG_TIPG :: nat where "REG_TIPG = 0x0410"
definition REG_RDBAL :: nat where "REG_RDBAL = 0x2800"
definition REG_RDBAH :: nat where "REG_RDBAH = 0x2804"
definition REG_RDLEN :: nat where "REG_RDLEN = 0x2808"
definition REG_RDH :: nat where "REG_RDH = 0x2810"
definition REG_RDT :: nat where "REG_RDT = 0x2818"
definition REG_TDBAL :: nat where "REG_TDBAL = 0x3800"
definition REG_TDBAH :: nat where "REG_TDBAH = 0x3804"
definition REG_TDLEN :: nat where "REG_TDLEN = 0x3808"
definition REG_TDH :: nat where "REG_TDH = 0x3810"
definition REG_TDT :: nat where "REG_TDT = 0x3818"
definition REG_RAL0 :: nat where "REG_RAL0 = 0x5400"
definition REG_RAH0 :: nat where "REG_RAH0 = 0x5404"

record nic_state =
  dma_phys_base :: u64
  nic_mac :: bytes
  nic_mac_valid :: bool
  tx_tail :: nat
  rx_next :: nat

record received_frame =
  dest_mac :: bytes
  src_mac :: bytes
  ethertype :: u16
  frame_length :: nat
  payload_matches_test :: bool

datatype nic_error =
  No_controller | Not_intel | Bar_is_io | Reset_timeout | Tx_ring_unmapped | Rx_ring_unmapped
  | Rx_buffer_unmapped | Mdic_timeout | Mdic_rejected | Not_initialized | Frame_errors | Frame_short

section \<open>Registers\<close>

text \<open>Reading a register until a condition holds, at most \<open>n\<close> times.\<close>

fun poll_reg :: "'h card \<Rightarrow> nat \<Rightarrow> (u32 \<Rightarrow> bool) \<Rightarrow> nat \<Rightarrow> 'h \<times> dma \<Rightarrow> bool \<times> 'h \<times> dma" where
  "poll_reg D off ok 0 w = (False, w)"
| "poll_reg D off ok (Suc n) w =
     (case card_read D w off of (v, w) \<Rightarrow> if ok v then (True, w) else poll_reg D off ok n w)"

definition mdic_write :: "'h card \<Rightarrow> u32 \<Rightarrow> u32 \<Rightarrow> u16 \<Rightarrow> 'h \<times> dma \<Rightarrow> (nic_error + unit) \<times> 'h \<times> dma" where
  "mdic_write D phy reg dat w =
     (let val = ucast dat OR push_bit 16 reg OR push_bit 21 phy OR push_bit 26 1;
          w = card_write D w REG_MDIC val
      in case poll_reg D REG_MDIC (\<lambda>v. v AND push_bit 28 1 \<noteq> 0) 100000 w of (ready, w) \<Rightarrow>
        if \<not> ready then (Inl Mdic_timeout, w)
        else case card_read D w REG_MDIC of (v, w) \<Rightarrow>
          if v AND push_bit 30 1 \<noteq> 0 then (Inl Mdic_rejected, w) else (Inr (), w))"

section \<open>The page walk\<close>

record walk_env =
  cr3_frame :: u64
  table_entry :: "u64 \<Rightarrow> nat \<Rightarrow> u64"

definition entry_addr :: "u64 \<Rightarrow> u64" where
  "entry_addr e = e AND 0x000FFFFFFFFFF000"

definition page_index :: "u64 \<Rightarrow> nat \<Rightarrow> nat" where
  "page_index addr level = unat (take_bit 9 (drop_bit (12 + 9 * (3 - level)) addr))"

fun walk_levels :: "walk_env \<Rightarrow> u64 \<Rightarrow> nat list \<Rightarrow> u64 \<Rightarrow> u64 option" where
  "walk_levels E addr [] frm = Some (frm + (addr AND 0xFFF))"
| "walk_levels E addr (level # ls) frm =
     (let e = table_entry E frm (page_index addr level)
      in if e = 0 then None
         else if bit e 7 then
           (case level of
              Suc 0 \<Rightarrow> Some (entry_addr e + (addr AND (push_bit 30 1 - 1)))
            | Suc (Suc 0) \<Rightarrow> Some (entry_addr e + (addr AND (push_bit 21 1 - 1)))
            | _ \<Rightarrow> None)
         else if \<not> bit e 0 then None
         else walk_levels E addr ls (entry_addr e))"

definition translate_addr :: "walk_env \<Rightarrow> u64 \<Rightarrow> u64 option" where
  "translate_addr E addr = walk_levels E addr [0, 1, 2, 3] (cr3_frame E)"

section \<open>Setting up\<close>

record nic_env =
  pci_devices :: "pci_device list"
  pci_space :: config_space
  walk :: walk_env
  dma_virt :: u64
  rx_desc_virt :: u64
  rx_buf_virt :: "nat \<Rightarrow> u64"

text \<open>The writes of \<open>init\<close>, one after the other.\<close>

fun write_regs :: "'h card \<Rightarrow> (nat \<times> u32) list \<Rightarrow> 'h \<times> dma \<Rightarrow> 'h \<times> dma" where
  "write_regs D [] w = w"
| "write_regs D ((off, v) # rs) w = write_regs D rs (card_write D w off v)"

fun set_rx_buffers :: "nic_env \<Rightarrow> nat list \<Rightarrow> 'h \<times> dma \<Rightarrow> (nic_error + unit) \<times> 'h \<times> dma" where
  "set_rx_buffers E [] w = (Inr (), w)"
| "set_rx_buffers E (i # is) (h, m) =
     (case translate_addr (walk E) (rx_buf_virt E i) of
        None \<Rightarrow> (Inl Rx_buffer_unmapped, (h, m))
      | Some p \<Rightarrow> set_rx_buffers E is
          (h, m\<lparr>rx_ring := (rx_ring m)[i := \<lparr>rx_addr = p, rx_length = 0, rx_checksum = 0, rx_status = 0,
                                           rx_errors = 0, rx_special = 0\<rparr>]\<rparr>))"

definition read_mac :: "u32 \<Rightarrow> u32 \<Rightarrow> bytes" where
  "read_mac ral rah = [ucast (ral AND 0xFF), ucast (drop_bit 8 ral AND 0xFF), ucast (drop_bit 16 ral AND 0xFF),
     ucast (drop_bit 24 ral AND 0xFF), ucast (rah AND 0xFF), ucast (drop_bit 8 rah AND 0xFF)]"

definition nic_reset :: "'h card \<Rightarrow> 'h \<times> dma \<Rightarrow> bool \<times> 'h \<times> dma" where
  "nic_reset D w =
     (case card_read D w REG_CTRL of (ctrl, w) \<Rightarrow>
        poll_reg D REG_CTRL (\<lambda>v. v AND push_bit 26 1 = 0) 100000
          (card_write D w REG_CTRL (ctrl OR push_bit 26 1)))"

definition nic_identify :: "'h card \<Rightarrow> 'h \<times> dma \<Rightarrow> (bytes \<times> bool) \<times> 'h \<times> dma" where
  "nic_identify D w =
     (case card_read D (card_write D w REG_IMC 0xFFFFFFFF) REG_CTRL of (ctrl, w) \<Rightarrow>
      case card_read D (card_write D w REG_CTRL (ctrl OR push_bit 6 1)) REG_RAL0 of (ral, w) \<Rightarrow>
      case card_read D w REG_RAH0 of (rah, w) \<Rightarrow>
        ((read_mac ral rah, rah AND push_bit 31 1 \<noteq> 0), w))"

definition tx_setup :: "u64 \<Rightarrow> (nat \<times> u32) list" where
  "tx_setup p =
     [(REG_TDBAL, ucast (p AND 0xFFFFFFFF)), (REG_TDBAH, ucast (drop_bit 32 p)),
      (REG_TDLEN, of_nat (NUM_TX_DESC * 16)), (REG_TDH, 0), (REG_TDT, 0),
      (REG_TCTL, push_bit 1 1 OR push_bit 3 1 OR push_bit 24 1 OR push_bit 4 0x0F OR push_bit 12 0x40),
      (REG_TIPG, 0x0060200A)]"

definition rx_setup :: "u64 \<Rightarrow> (nat \<times> u32) list" where
  "rx_setup p =
     [(REG_RDBAL, ucast (p AND 0xFFFFFFFF)), (REG_RDBAH, ucast (drop_bit 32 p)),
      (REG_RDLEN, of_nat (NUM_RX_DESC * 16)), (REG_RDH, 0), (REG_RDT, of_nat (NUM_RX_DESC - 1)),
      (REG_RCTL, push_bit 1 1 OR push_bit 15 1 OR push_bit 6 1)]"

definition MII_BMCR_VALUE :: u16 where
  "MII_BMCR_VALUE = push_bit 6 1 OR push_bit 8 1 OR push_bit 12 1 OR push_bit 14 1"

text \<open>
  \<open>init\<close>: the result with the write to the card's PCI command register, if it came to that, and the
  card and memory afterwards.  The driver's state is set only on success.
\<close>

definition nic_init :: "'h card \<Rightarrow> nic_env \<Rightarrow> 'h \<times> dma \<Rightarrow>
    (nic_error + nic_state) \<times> (u32 \<times> u32) option \<times> 'h \<times> dma" where
  "nic_init D E w =
     (case find_nic (pci_devices E) of None \<Rightarrow> (Inl No_controller, None, w) | Some dev \<Rightarrow>
      if vendor_id dev \<noteq> 0x8086 then (Inl Not_intel, None, w)
      else
        let command = read_config_register (pci_space E) dev 0x04 AND 0xFFFF;
            cmd = Some (write_config_register dev 0x04 (command OR push_bit 1 1 OR push_bit 2 1));
            bar0 = read_config_register (pci_space E) dev 0x10
        in if bar0 AND 0x1 \<noteq> 0 then (Inl Bar_is_io, cmd, w)
        else case nic_reset D w of (done, w) \<Rightarrow>
        if \<not> done then (Inl Reset_timeout, cmd, w)
        else case nic_identify D w of ((mac, valid), w) \<Rightarrow>
        case translate_addr (walk E) (dma_virt E) of None \<Rightarrow> (Inl Tx_ring_unmapped, cmd, w) | Some tx \<Rightarrow>
        let w = write_regs D (tx_setup tx) w in
        case translate_addr (walk E) (rx_desc_virt E) of None \<Rightarrow> (Inl Rx_ring_unmapped, cmd, w) | Some rx \<Rightarrow>
        case set_rx_buffers E [0..<NUM_RX_DESC] w of
          (Inl e, w) \<Rightarrow> (Inl e, cmd, w)
        | (Inr _, w) \<Rightarrow>
        let w = write_regs D (rx_setup rx) w in
        case mdic_write D 1 0 MII_BMCR_VALUE w of
          (Inl e, w) \<Rightarrow> (Inl e, cmd, w)
        | (Inr _, w) \<Rightarrow>
          (Inr \<lparr>dma_phys_base = tx, nic_mac = mac, nic_mac_valid = valid, tx_tail = 0, rx_next = 0\<rparr>, cmd, w))"

definition link_up :: "'h card \<Rightarrow> nic_state option \<Rightarrow> 'h \<times> dma \<Rightarrow> bool option \<times> 'h \<times> dma" where
  "link_up D s w =
     (case s of None \<Rightarrow> (None, w)
      | Some _ \<Rightarrow> (case card_read D w REG_STATUS of (v, w) \<Rightarrow> (Some (v AND push_bit 1 1 \<noteq> 0), w)))"

section \<open>Sending and receiving\<close>

definition test_frame :: "bytes \<Rightarrow> bytes" where
  "test_frame mac =
     (let f = replicate 64 0;
          f = splice f 0 (replicate 6 0xFF);
          f = splice f 6 mac;
          f = f[12 := 0x88, 13 := 0xB5]
      in splice f 14 TEST_PAYLOAD)"

definition frame_len :: nat where "frame_len = 14 + length TEST_PAYLOAD"

text \<open>Looking at memory until a condition holds, the card working in between.\<close>

fun poll_mem :: "'h card \<Rightarrow> (dma \<Rightarrow> bool) \<Rightarrow> nat \<Rightarrow> 'h \<times> dma \<Rightarrow> bool \<times> 'h \<times> dma" where
  "poll_mem D ok 0 w = (False, w)"
| "poll_mem D ok (Suc n) w = (let w = card_work D w in if ok (snd w) then (True, w) else poll_mem D ok n w)"

definition place_frame :: "nic_state \<Rightarrow> dma \<Rightarrow> dma" where
  "place_frame s m =
     (let tail = tx_tail s
      in m\<lparr>tx_buffers := (tx_buffers m)[tail := splice (tx_buffers m ! tail) 0 (take frame_len (test_frame (nic_mac s)))],
           tx_ring := (tx_ring m)[tail :=
             \<lparr>tx_addr = dma_phys_base s + of_nat (NUM_TX_DESC * 16 + tail * TX_PACKET_BUF_LEN),
              tx_length = of_nat frame_len, tx_cso = 0, tx_cmd = push_bit 0 1 OR push_bit 1 1 OR push_bit 3 1,
              tx_status = 0, tx_css = 0, tx_special = 0\<rparr>]\<rparr>)"

definition send_test_packet :: "'h card \<Rightarrow> nic_state option \<Rightarrow> 'h \<times> dma \<Rightarrow>
    ((nic_error + bool) \<times> nic_state option \<times> 'h \<times> dma) option" where
  "send_test_packet D st w =
     (case st of None \<Rightarrow> Some (Inl Not_initialized, None, w) | Some s \<Rightarrow>
      let tail = tx_tail s in
      if tail \<ge> NUM_TX_DESC then None
      else
        let w = (fst w, place_frame s (snd w));
            next_tail = (tail + 1) mod NUM_TX_DESC;
            w = card_write D w REG_TDT (of_nat next_tail)
        in case poll_mem D (\<lambda>m. tx_status (tx_ring m ! tail) AND push_bit 0 1 \<noteq> 0) 1000000 w of (dd, w) \<Rightarrow>
          Some (Inr dd, Some (s\<lparr>tx_tail := next_tail\<rparr>), w))"

definition parse_frame :: "bytes \<Rightarrow> nat \<Rightarrow> received_frame" where
  "parse_frame frame copy_len =
     \<lparr>dest_mac = slice frame 0 6, src_mac = slice frame 6 12,
      ethertype = push_bit 8 (ucast (frame ! 12)) OR ucast (frame ! 13), frame_length = copy_len,
      payload_matches_test =
        (14 + length TEST_PAYLOAD \<le> copy_len \<and> slice frame 14 (14 + length TEST_PAYLOAD) = TEST_PAYLOAD)\<rparr>"

definition recv_packet :: "'h card \<Rightarrow> nic_state option \<Rightarrow> 'h \<times> dma \<Rightarrow>
    ((nic_error + received_frame option) \<times> nic_state option \<times> 'h \<times> dma) option" where
  "recv_packet D st w =
     (case st of None \<Rightarrow> Some (Inl Not_initialized, None, w) | Some s \<Rightarrow>
      let idx = rx_next s in
      if idx \<ge> NUM_RX_DESC then None
      else case poll_mem D (\<lambda>m. rx_status (rx_ring m ! idx) AND push_bit 0 1 \<noteq> 0) 1000000 w of (dd, w) \<Rightarrow>
        if \<not> dd then Some (Inr None, Some s, w)
        else
          let m = snd w;
              d = rx_ring m ! idx;
              copy_len = min (unat (rx_length d)) RX_PACKET_BUF_LEN;
              frame = splice (replicate RX_PACKET_BUF_LEN 0) 0 (take copy_len (rx_buffers m ! idx));
              m = m\<lparr>rx_ring := (rx_ring m)[idx := d\<lparr>rx_status := 0, rx_length := 0, rx_errors := 0\<rparr>]\<rparr>;
              w = card_write D (fst w, m) REG_RDT (of_nat idx);
              s = s\<lparr>rx_next := (idx + 1) mod NUM_RX_DESC\<rparr>
          in if rx_errors d \<noteq> 0 then Some (Inl Frame_errors, Some s, w)
             else if copy_len < 14 then Some (Inl Frame_short, Some s, w)
             else Some (Inr (Some (parse_frame frame copy_len)), Some s, w))"

end
