(* ===== verification/Nic_Props.thy ===== *)
theory Nic_Props
  imports Nic
begin

text \<open>
  What the network driver guarantees: its ring indices stay in step with the card whatever the card
  does, and over a card that loops frames back a test frame sent is the frame received.
\<close>

section \<open>The rings\<close>

definition dma_shape :: "dma \<Rightarrow> bool" where
  "dma_shape m \<longleftrightarrow> length (tx_ring m) = NUM_TX_DESC \<and> length (tx_buffers m) = NUM_TX_DESC \<and>
     (\<forall>b \<in> set (tx_buffers m). length b = TX_PACKET_BUF_LEN) \<and>
     length (rx_ring m) = NUM_RX_DESC \<and> length (rx_buffers m) = NUM_RX_DESC \<and>
     (\<forall>b \<in> set (rx_buffers m). length b = RX_PACKET_BUF_LEN)"

text \<open>A card writes into the memory it is given; it does not resize it.\<close>

definition card_sane :: "'h card \<Rightarrow> bool" where
  "card_sane D \<longleftrightarrow>
     (\<forall>h m off. dma_shape m \<longrightarrow> dma_shape (snd (snd (card_read D (h, m) off)))) \<and>
     (\<forall>h m off v. dma_shape m \<longrightarrow> dma_shape (snd (card_write D (h, m) off v))) \<and>
     (\<forall>h m. dma_shape m \<longrightarrow> dma_shape (snd (card_work D (h, m))))"

lemma card_saneD:
  assumes "card_sane D" "dma_shape (snd w)"
  shows "dma_shape (snd (snd (card_read D w off)))" "dma_shape (snd (card_write D w off v))"
    "dma_shape (snd (card_work D w))"
  using assms by (cases w; simp add: card_sane_def)+

lemma card_readD:
  "card_read D w off = (v, w') \<Longrightarrow> card_sane D \<Longrightarrow> dma_shape (snd w) \<Longrightarrow> dma_shape (snd w')"
  using card_saneD(1) [of D w off] by simp

lemma poll_reg_shape:
  "card_sane D \<Longrightarrow> dma_shape (snd w) \<Longrightarrow> poll_reg D off ok n w = (b, w') \<Longrightarrow> dma_shape (snd w')"
proof (induction D off ok n w rule: poll_reg.induct)
  case (2 D off ok n w)
  obtain v w1 where r: "card_read D w off = (v, w1)" by (cases "card_read D w off")
  show ?case using 2 r card_readD [OF r] by (cases "ok v") (auto split: prod.splits)
qed simp

lemma poll_mem_shape:
  "card_sane D \<Longrightarrow> dma_shape (snd w) \<Longrightarrow> dma_shape (snd (snd (poll_mem D ok n w)))"
  by (induction D ok n w rule: poll_mem.induct) (auto simp: Let_def dest: card_saneD(3))

lemma write_regs_shape:
  "card_sane D \<Longrightarrow> dma_shape (snd w) \<Longrightarrow> dma_shape (snd (write_regs D rs w))"
  by (induction D rs w rule: write_regs.induct) (auto dest: card_saneD(2))

lemma set_rx_buffers_shape:
  "dma_shape (snd w) \<Longrightarrow> set_rx_buffers E is w = (r, w') \<Longrightarrow> dma_shape (snd w')"
  by (induction E "is" w rule: set_rx_buffers.induct) (auto simp: dma_shape_def split: option.splits)

lemma length_test_frame: "length mac = 6 \<Longrightarrow> length (test_frame mac) = 64"
  by (simp add: test_frame_def TEST_PAYLOAD_def Let_def)

lemma frame_len: "frame_len = 51"
  by (simp add: frame_len_def TEST_PAYLOAD_def)

lemma place_frame_shape:
  assumes "dma_shape m" "tx_tail s < 8" "length (nic_mac s) = 6"
  shows "dma_shape (place_frame s m)"
proof -
  have "length (splice b 0 (take frame_len (test_frame (nic_mac s)))) = 256" if "length b = 256" for b :: bytes
    using that length_test_frame [OF assms(3)] by (simp add: frame_len)
  then show ?thesis using assms
    by (auto simp: dma_shape_def place_frame_def Let_def dest!: subsetD [OF set_update_subset_insert])
qed

lemma init_shape:
  assumes "card_sane D" "dma_shape (snd w)" "nic_init D E w = (Inr s, cmd, w')"
  shows "tx_tail s = 0 \<and> rx_next s = 0 \<and> length (nic_mac s) = 6 \<and> dma_shape (snd w')"
proof -
  obtain ok w1 addr valid w2 tx rx w3 where
    steps: "nic_reset D w = (ok, w1)" "nic_identify D w1 = ((addr, valid), w2)"
      "set_rx_buffers E [0..<NUM_RX_DESC] (write_regs D (tx_setup tx) w2) = (Inr (), w3)"
      "mdic_write D 1 0 MII_BMCR_VALUE (write_regs D (rx_setup rx) w3) = (Inr (), w')"
    and s: "s = \<lparr>dma_phys_base = tx, nic_mac = addr, nic_mac_valid = valid, tx_tail = 0, rx_next = 0\<rparr>"
    using assms(3) unfolding nic_init_def Let_def
    by (auto split: option.splits if_splits prod.splits sum.splits)
  have 1: "dma_shape (snd w1)"
    using steps(1) assms(1,2) unfolding nic_reset_def
    by (auto split: prod.splits dest!: card_readD poll_reg_shape [rotated 2] intro: card_saneD(2))
  have 2: "dma_shape (snd w2)" "length addr = 6"
    using steps(2) assms(1) 1 unfolding nic_identify_def
    by (auto simp: read_mac_def split: prod.splits dest!: card_readD intro: card_saneD(2))
  have 3: "dma_shape (snd w3)"
    using set_rx_buffers_shape [OF write_regs_shape [OF assms(1) 2(1)] steps(3)] .
  have "dma_shape (snd w')"
    using steps(4) assms(1) write_regs_shape [OF assms(1) 3] unfolding mdic_write_def Let_def
    by (auto split: prod.splits if_splits dest!: card_readD poll_reg_shape [rotated 2] intro: card_saneD(2))
  with 2(2) s show ?thesis by simp
qed

section \<open>Histories\<close>

datatype nic_op = Send | Receive

datatype nic_out = Sent "nic_error + bool" | Received "nic_error + received_frame option"

fun nic_do :: "'h card \<Rightarrow> nic_op \<Rightarrow> nic_state option \<times> 'h \<times> dma \<Rightarrow> (nic_out \<times> nic_state option \<times> 'h \<times> dma) option"
  where
  "nic_do D Send (s, w) = map_option (\<lambda>(r, s, w). (Sent r, s, w)) (send_test_packet D s w)"
| "nic_do D Receive (s, w) = map_option (\<lambda>(r, s, w). (Received r, s, w)) (recv_packet D s w)"

fun nic_run :: "'h card \<Rightarrow> nic_op list \<Rightarrow> nic_state option \<times> 'h \<times> dma \<Rightarrow>
    (nic_out list \<times> nic_state option \<times> 'h \<times> dma) option" where
  "nic_run D [] st = Some ([], st)"
| "nic_run D (p # ps) st =
     (case nic_do D p st of None \<Rightarrow> None
      | Some (r, st) \<Rightarrow> map_option (\<lambda>(rs, st). (r # rs, st)) (nic_run D ps st))"

text \<open>A receive that took a frame out of the ring, good or bad.\<close>

fun took_frame :: "nic_out \<Rightarrow> bool" where
  "took_frame (Received (Inr None)) = False"
| "took_frame (Received _) = True"
| "took_frame (Sent _) = False"

fun was_sent :: "nic_out \<Rightarrow> bool" where
  "was_sent (Sent _) = True"
| "was_sent _ = False"

definition nic_ok :: "nic_state \<Rightarrow> dma \<Rightarrow> bool" where
  "nic_ok s m \<longleftrightarrow> tx_tail s < NUM_TX_DESC \<and> rx_next s < NUM_RX_DESC \<and> length (nic_mac s) = 6 \<and> dma_shape m"

text \<open>What a receive returns once the card has marked the next descriptor, and the ring after it.\<close>

definition taken_frame :: "dma \<Rightarrow> nat \<Rightarrow> nic_error + received_frame option" where
  "taken_frame m idx =
     (let d = rx_ring m ! idx; n = min (unat (rx_length d)) RX_PACKET_BUF_LEN
      in if rx_errors d \<noteq> 0 then Inl Frame_errors
         else if n < 14 then Inl Frame_short
         else Inr (Some (parse_frame (splice (replicate RX_PACKET_BUF_LEN 0) 0 (take n (rx_buffers m ! idx))) n)))"

definition recycled :: "dma \<Rightarrow> nat \<Rightarrow> dma" where
  "recycled m idx = m\<lparr>rx_ring := (rx_ring m)[idx :=
     (rx_ring m ! idx)\<lparr>rx_status := 0, rx_length := 0, rx_errors := 0\<rparr>]\<rparr>"

lemma recv_taken:
  assumes "poll_mem D (\<lambda>m. rx_status (rx_ring m ! rx_next s) AND push_bit 0 1 \<noteq> 0) 1000000 w = (True, h, m)"
    "rx_next s < NUM_RX_DESC"
  shows "recv_packet D (Some s) w =
    Some (taken_frame m (rx_next s), Some (s\<lparr>rx_next := (rx_next s + 1) mod NUM_RX_DESC\<rparr>),
          card_write D (h, recycled m (rx_next s)) REG_RDT (of_nat (rx_next s)))"
  using assms by (simp add: recv_packet_def taken_frame_def recycled_def Let_def min_less_iff_disj del: poll_mem.simps)

lemma nic_do_ok:
  assumes "card_sane D" "nic_ok s (snd w)"
  obtains r s' w' where "nic_do D p (Some s, w) = Some (r, Some s', w')" "nic_ok s' (snd w')"
    "tx_tail s' = (tx_tail s + of_bool (was_sent r)) mod 8" "rx_next s' = (rx_next s + of_bool (took_frame r)) mod 8"
    "dma_phys_base s' = dma_phys_base s" "was_sent r = (p = Send)"
proof (cases p)
  case Send
  let ?w = "card_write D (fst w, place_frame s (snd w)) REG_TDT (of_nat ((tx_tail s + 1) mod NUM_TX_DESC))"
  obtain dd w' where pm: "poll_mem D (\<lambda>m. tx_status (tx_ring m ! tx_tail s) AND push_bit 0 1 \<noteq> 0) 1000000 ?w = (dd, w')"
    by (metis prod.collapse)
  have "dma_shape (snd ?w)"
    using assms place_frame_shape [of "snd w" s] card_saneD(2) [of D "(fst w, place_frame s (snd w))"]
    by (simp add: nic_ok_def)
  then have "dma_shape (snd w')" using poll_mem_shape [OF assms(1)] pm by (metis snd_conv)
  then show ?thesis using assms(2) pm Send
    by (intro that [of "Sent (Inr dd)" "s\<lparr>tx_tail := (tx_tail s + 1) mod NUM_TX_DESC\<rparr>" w'])
      (simp_all add: send_test_packet_def nic_ok_def Let_def del: poll_mem.simps)
next
  case Receive
  obtain dd h m where pm: "poll_mem D (\<lambda>m. rx_status (rx_ring m ! rx_next s) AND push_bit 0 1 \<noteq> 0) 1000000 w = (dd, h, m)"
    by (metis prod.collapse)
  have sh: "dma_shape m" using poll_mem_shape [OF assms(1)] assms(2) pm by (metis nic_ok_def snd_conv)
  show ?thesis
  proof (cases dd)
    case False
    then show ?thesis using assms(2) pm sh Receive
      by (intro that [of "Received (Inr None)" s "(h, m)"])
        (simp_all add: recv_packet_def nic_ok_def Let_def del: poll_mem.simps)
  next
    case True
    define w' where "w' = card_write D (h, recycled m (rx_next s)) REG_RDT (of_nat (rx_next s))"
    have "dma_shape (snd w')"
      unfolding w'_def by (rule card_saneD(2) [OF assms(1)]) (use sh in \<open>simp add: dma_shape_def recycled_def\<close>)
    moreover have "took_frame (Received (taken_frame m (rx_next s)))"
      by (simp add: taken_frame_def Let_def)
    moreover have "nic_do D p (Some s, w) = Some (Received (taken_frame m (rx_next s)),
        Some (s\<lparr>rx_next := (rx_next s + 1) mod 8\<rparr>), w')"
      using recv_taken [of D s w h m] pm True assms(2) Receive by (simp add: nic_ok_def w'_def)
    ultimately show ?thesis using assms(2) Receive
      by (intro that [of "Received (taken_frame m (rx_next s))" "s\<lparr>rx_next := (rx_next s + 1) mod 8\<rparr>" w'])
        (simp_all add: nic_ok_def)
  qed
qed

lemma nic_run_ok:
  assumes "card_sane D"
  shows "nic_ok s (snd w) \<Longrightarrow> \<exists>outs s' w'. nic_run D ops (Some s, w) = Some (outs, Some s', w') \<and> nic_ok s' (snd w') \<and>
    tx_tail s' = (tx_tail s + length (filter was_sent outs)) mod 8 \<and>
    rx_next s' = (rx_next s + length (filter took_frame outs)) mod 8 \<and> dma_phys_base s' = dma_phys_base s \<and>
    map was_sent outs = map (\<lambda>p. p = Send) ops"
proof (induction ops arbitrary: s w)
  case Nil
  then show ?case by (auto simp: nic_ok_def)
next
  case (Cons p ops)
  from nic_do_ok [OF assms Cons.prems, of p] obtain r s1 w1 where 1: "nic_do D p (Some s, w) = Some (r, Some s1, w1)"
    "nic_ok s1 (snd w1)" "tx_tail s1 = (tx_tail s + of_bool (was_sent r)) mod 8"
    "rx_next s1 = (rx_next s + of_bool (took_frame r)) mod 8" "dma_phys_base s1 = dma_phys_base s"
    "was_sent r = (p = Send)" by metis
  from Cons.IH [OF 1(2)] obtain outs s' w' where 2: "nic_run D ops (Some s1, w1) = Some (outs, Some s', w')"
    "nic_ok s' (snd w')" "tx_tail s' = (tx_tail s1 + length (filter was_sent outs)) mod 8"
    "rx_next s' = (rx_next s1 + length (filter took_frame outs)) mod 8" "dma_phys_base s' = dma_phys_base s1"
    "map was_sent outs = map (\<lambda>p. p = Send) ops" by blast
  have "tx_tail s' = (tx_tail s + length (filter was_sent (r # outs))) mod 8"
    "rx_next s' = (rx_next s + length (filter took_frame (r # outs))) mod 8"
    unfolding 2(3,4) 1(3,4) by (auto simp: mod_simps)
  then show ?case using 1 2 by (intro exI [of _ "r # outs"] exI [of _ s'] exI [of _ w']) simp
qed

text \<open>
  C35. The rings stay in step: once \<open>nic_init\<close> has succeeded, any sequence of sends and receives runs
  to its end whatever the card does; the next transmit slot is the number of frames sent modulo eight
  and the next receive slot the number of frames taken (bad ones included) modulo eight, and the
  shared memory keeps its layout.
\<close>

theorem nic_rings_in_step:
  assumes "card_sane D" "nic_init D E (h, boot_dma) = (Inr s, cmd, w)"
  shows "\<exists>outs s' w'. nic_run D ops (Some s, w) = Some (outs, Some s', w') \<and> dma_shape (snd w') \<and>
    map was_sent outs = map (\<lambda>p. p = Send) ops \<and>
    tx_tail s' = length (filter was_sent outs) mod 8 \<and> rx_next s' = length (filter took_frame outs) mod 8"
proof -
  have "dma_shape boot_dma" by (simp add: dma_shape_def boot_dma_def)
  then have s: "tx_tail s = 0 \<and> rx_next s = 0 \<and> length (nic_mac s) = 6 \<and> dma_shape (snd w)"
    using init_shape [OF assms(1) _ assms(2)] by simp
  then have "nic_ok s (snd w)" by (simp add: nic_ok_def)
  from nic_run_ok [OF assms(1) this, of ops] s show ?thesis by (auto simp: nic_ok_def)
qed

section \<open>A card to try it on\<close>

lemma poll_reg_now:
  "0 < n \<Longrightarrow> card_read D w off = (v, w') \<Longrightarrow> ok v \<Longrightarrow> poll_reg D off ok n w = (True, w')"
  by (cases n) simp_all

lemma poll_mem_now:
  "0 < n \<Longrightarrow> ok (snd (card_work D w)) \<Longrightarrow> poll_mem D ok n w = (True, card_work D w)"
  by (cases n) (simp_all add: Let_def)

text \<open>A card that loops each frame back, with its two heads as its state.\<close>

definition loop_frame :: "nat \<Rightarrow> nat \<Rightarrow> dma \<Rightarrow> dma" where
  "loop_frame t r m =
     (let d = tx_ring m ! t; n = min (unat (tx_length d)) TX_PACKET_BUF_LEN
      in m\<lparr>tx_ring := (tx_ring m)[t := d\<lparr>tx_status := 1\<rparr>],
           rx_ring := (rx_ring m)[r := (rx_ring m ! r)\<lparr>rx_status := 1, rx_errors := 0, rx_length := of_nat n\<rparr>],
           rx_buffers := (rx_buffers m)[r := splice (rx_buffers m ! r) 0 (take n (tx_buffers m ! t))]\<rparr>)"

definition demo_card :: "(nat \<times> nat) card" where
  "demo_card =
     \<lparr>card_read = (\<lambda>(h, m) off. (if off = REG_MDIC then push_bit 28 1 else 0, h, m)),
      card_write = (\<lambda>((t, r), m) off v.
        if off = REG_TDT \<and> unat v \<noteq> t \<and> t < 8 \<and> r < 8
        then (((t + 1) mod 8, (r + 1) mod 8), loop_frame t r m) else ((t, r), m)),
      card_work = (\<lambda>w. w)\<rparr>"

lemma loop_frame_shape:
  assumes "dma_shape m" "t < 8" "r < 8"
  shows "dma_shape (loop_frame t r m)"
proof -
  have "length (splice (rx_buffers m ! r) 0 (take n (tx_buffers m ! t))) = 2048" for n
    using assms by (subst length_splice) (auto simp: dma_shape_def)
  then show ?thesis using assms
    by (auto simp: loop_frame_def dma_shape_def Let_def dest!: subsetD [OF set_update_subset_insert])
qed

lemma demo_card_sane: "card_sane demo_card"
  by (auto simp: card_sane_def demo_card_def loop_frame_shape)

definition demo_nic_env :: nic_env where
  "demo_nic_env = \<lparr>pci_devices = [\<lparr>pci_bus = 0, pci_dev = 3, pci_fun = 0, vendor_id = 0x8086, device_id = 0x100E,
       class_code = 2, sub_class = 0\<rparr>],
     pci_space = (\<lambda>_. 0), walk = \<lparr>cr3_frame = 0x1000, table_entry = (\<lambda>_ _. 0x1001)\<rparr>,
     dma_virt = 0, rx_desc_virt = 0x2000, rx_buf_virt = (\<lambda>i. of_nat (0x3000 + 0x1000 * i))\<rparr>"

lemma demo_translate: "translate_addr (walk demo_nic_env) a = Some (entry_addr 0x1001 + (a AND 0xFFF))"
proof -
  have "\<not> bit (0x1001 :: u64) 7" "bit (0x1001 :: u64) 0" by (simp_all add: bit_iff_odd_drop_bit)
  then show ?thesis by (simp add: translate_addr_def demo_nic_env_def Let_def)
qed

lemma demo_set_rx: "\<exists>m'. set_rx_buffers demo_nic_env is w = (Inr (), fst w, m')"
  by (induction demo_nic_env "is" w rule: set_rx_buffers.induct) (auto simp: demo_translate)

lemma demo_quiet:
  "off \<noteq> REG_TDT \<or> v = 0 \<Longrightarrow> card_write demo_card ((0, 0), m) off v = ((0, 0), m)"
  by (auto simp: demo_card_def)

lemma demo_write_regs:
  "\<forall>(off, v) \<in> set rs. off \<noteq> REG_TDT \<or> v = 0 \<Longrightarrow> write_regs demo_card rs ((0, 0), m) = ((0, 0), m)"
proof (induction rs)
  case (Cons x rs)
  obtain off v where x: "x = (off, v)" by (cases x)
  then show ?case using Cons demo_quiet [of off v m] by simp
qed simp

lemma demo_read: "card_read demo_card w off = (if off = REG_MDIC then push_bit 28 1 else 0, w)"
  by (cases w) (simp add: demo_card_def)

lemma demo_init: "\<exists>s cmd w. nic_init demo_card demo_nic_env ((0, 0), boot_dma) = (Inr s, cmd, w)"
proof -
  note regs = REG_CTRL_def REG_IMC_def REG_MDIC_def REG_TDT_def REG_RAL0_def REG_RAH0_def
  have reset: "nic_reset demo_card ((0, 0), m) = (True, ((0, 0), m))" for m
    by (simp add: nic_reset_def demo_read demo_quiet regs poll_reg_now [where v = 0])
  have ident: "nic_identify demo_card ((0, 0), m) = ((read_mac 0 0, False), ((0, 0), m))" for m
    by (simp add: nic_identify_def demo_read demo_quiet regs)
  have tx: "write_regs demo_card (tx_setup p) ((0, 0), m) = ((0, 0), m)" for p m
    by (rule demo_write_regs) (simp add: tx_setup_def REG_TDBAL_def REG_TDBAH_def REG_TDLEN_def REG_TDH_def
        REG_TCTL_def REG_TIPG_def REG_TDT_def)
  have rx: "write_regs demo_card (rx_setup p) ((0, 0), m) = ((0, 0), m)" for p m
    by (rule demo_write_regs) (simp add: rx_setup_def REG_RDBAL_def REG_RDBAH_def REG_RDLEN_def REG_RDH_def
        REG_RDT_def REG_RCTL_def REG_TDT_def)
  have mdic: "mdic_write demo_card a b c ((0, 0), m) = (Inr (), ((0, 0), m))" for a b c m
  proof -
    have "bit (push_bit 28 1 :: u32) 28" "\<not> bit (push_bit 28 1 :: u32) 30" by (simp_all add: bit_simps)
    then have "(push_bit 28 1 :: u32) AND push_bit 28 1 \<noteq> 0" "(push_bit 28 1 :: u32) AND push_bit 30 1 = 0"
      using bit_iff_and_push_bit_not_eq_0 by blast+
    then show ?thesis
      by (simp add: mdic_write_def demo_read demo_quiet regs poll_reg_now [where v = "push_bit 28 1"] Let_def
          del: push_bit_numeral)
  qed
  obtain m where m: "set_rx_buffers demo_nic_env [0..<8] ((0 :: nat, 0 :: nat), boot_dma) = (Inr (), (0, 0), m)"
    using demo_set_rx [of "[0..<8]" "((0 :: nat, 0 :: nat), boot_dma)"] by auto
  have dev: "\<exists>dev. find_nic (pci_devices demo_nic_env) = Some dev \<and> vendor_id dev = 0x8086"
    by (simp add: find_nic_def demo_nic_env_def NETWORK_CONTROLLER_CLASS_def)
  have sp: "read_config_register (pci_space demo_nic_env) dev off = 0" for dev off
    by (simp add: read_config_register_def read_config_dword_def demo_nic_env_def)
  from dev obtain dev where dev: "find_nic (pci_devices demo_nic_env) = Some dev" "vendor_id dev = 0x8086" by blast
  have "\<exists>s cmd. nic_init demo_card demo_nic_env ((0, 0), boot_dma) = (Inr s, cmd, ((0, 0), m))"
    by (simp add: nic_init_def Let_def dev sp reset ident demo_translate tx m rx mdic)
  then show ?thesis by blast
qed

theorem nic_rings_in_step_witness:
  "\<exists>s cmd w. nic_init demo_card demo_nic_env ((0, 0), boot_dma) = (Inr s, cmd, w) \<and>
    (\<exists>outs s' w'. nic_run demo_card [Send, Receive, Receive] (Some s, w) = Some (outs, Some s', w') \<and>
       dma_shape (snd w') \<and> map was_sent outs = map (\<lambda>p. p = Send) [Send, Receive, Receive] \<and>
       tx_tail s' = length (filter was_sent outs) mod 8 \<and> rx_next s' = length (filter took_frame outs) mod 8)"
proof -
  obtain s cmd w where i: "nic_init demo_card demo_nic_env ((0, 0), boot_dma) = (Inr s, cmd, w)"
    using demo_init by blast
  from nic_rings_in_step [OF demo_card_sane i, of "[Send, Receive, Receive]"] i show ?thesis by blast
qed

section \<open>Loopback\<close>

text \<open>
  A card in loopback, after the manual: writing a tail one past its transmit head makes it look at the
  descriptor there.  If that asks for a whole packet with checksum and status (\<open>EOP\<close>, \<open>IFCS\<close>, \<open>RS\<close>), its
  address is that of a packet buffer in the shared page, and the frame there is a broadcast, then the
  descriptor is marked done; and as a receive descriptor is free (head and tail differ) and its address is
  that of a receive buffer, the frame, perhaps padded, is stored there, and that descriptor marked done
  and free of errors.  A write to the receive tail gives descriptors back.  It does nothing else by itself.
\<close>

record 'h ring_view =
  tx_head :: "'h \<Rightarrow> nat"
  rx_head :: "'h \<Rightarrow> nat"
  rx_tail :: "'h \<Rightarrow> nat"

definition tx_buf_addr :: "u64 \<Rightarrow> nat \<Rightarrow> u64" where
  "tx_buf_addr base j = base + of_nat (NUM_TX_DESC * 16 + j * TX_PACKET_BUF_LEN)"

definition asks_to_send :: "u64 \<Rightarrow> nat \<Rightarrow> tx_desc \<Rightarrow> dma \<Rightarrow> bool" where
  "asks_to_send base j d m \<longleftrightarrow> j < 8 \<and> tx_addr d = tx_buf_addr base j \<and> bit (tx_cmd d) 0 \<and> bit (tx_cmd d) 1 \<and> bit (tx_cmd d) 3 \<and>
     14 \<le> unat (tx_length d) \<and> unat (tx_length d) \<le> 256 \<and> take 6 (tx_buffers m ! j) = replicate 6 0xFF"

definition loops_back :: "'h card \<Rightarrow> 'h ring_view \<Rightarrow> u64 \<Rightarrow> (nat \<Rightarrow> u64) \<Rightarrow> bool" where
  "loops_back D V base rx_buf \<longleftrightarrow>
     (\<forall>w. card_work D w = w) \<and>
     (\<forall>h m h' m' j n. dma_shape m \<and> tx_head V h < 8 \<and> rx_head V h < 8 \<and> rx_tail V h < 8 \<and> rx_head V h \<noteq> rx_tail V h \<and>
        asks_to_send base j (tx_ring m ! tx_head V h) m \<and> n < 8 \<and> rx_addr (rx_ring m ! rx_head V h) = rx_buf n \<and>
        card_write D (h, m) REG_TDT (of_nat ((tx_head V h + 1) mod 8)) = (h', m') \<longrightarrow>
        dma_shape m' \<and> tx_head V h' = (tx_head V h + 1) mod 8 \<and> rx_head V h' = (rx_head V h + 1) mod 8 \<and> rx_tail V h' = rx_tail V h \<and>
        bit (tx_status (tx_ring m' ! tx_head V h)) 0 \<and> bit (rx_status (rx_ring m' ! rx_head V h)) 0 \<and>
        rx_errors (rx_ring m' ! rx_head V h) = 0 \<and> map rx_addr (rx_ring m') = map rx_addr (rx_ring m) \<and>
        tx_length (tx_ring m ! tx_head V h) \<le> rx_length (rx_ring m' ! rx_head V h) \<and> rx_length (rx_ring m' ! rx_head V h) \<le> 2048 \<and>
        take (unat (tx_length (tx_ring m ! tx_head V h))) (rx_buffers m' ! n) =
          take (unat (tx_length (tx_ring m ! tx_head V h))) (tx_buffers m ! j)) \<and>
     (\<forall>h m v h' m'. dma_shape m \<and> card_write D (h, m) REG_RDT v = (h', m') \<longrightarrow>
        dma_shape m' \<and> tx_head V h' = tx_head V h \<and> rx_head V h' = rx_head V h \<and> rx_tail V h' = unat v \<and>
        map rx_addr (rx_ring m') = map rx_addr (rx_ring m))"

text \<open>Driver and card agree on the slots, all descriptors but one are the card's, and each has its own buffer.\<close>

definition in_step :: "'h ring_view \<Rightarrow> (nat \<Rightarrow> u64) \<Rightarrow> nic_state \<Rightarrow> 'h \<Rightarrow> dma \<Rightarrow> bool" where
  "in_step V rx_buf s h m \<longleftrightarrow> nic_ok s m \<and> tx_head V h = tx_tail s \<and> rx_head V h = rx_next s \<and>
     rx_tail V h = (rx_next s + 7) mod 8 \<and> map rx_addr (rx_ring m) = map rx_buf [0..<8]"

text \<open>The addresses are those \<open>nic_init\<close> puts there.\<close>

lemma set_rx_buffers_addr:
  "set_rx_buffers E is (h, m) = (Inr (), h', m') \<Longrightarrow> distinct is \<Longrightarrow> \<forall>i \<in> set is. i < length (rx_ring m) \<Longrightarrow>
     (\<forall>i \<in> set is. Some (rx_addr (rx_ring m' ! i)) = translate_addr (walk E) (rx_buf_virt E i)) \<and>
     (\<forall>i. i \<notin> set is \<longrightarrow> rx_ring m' ! i = rx_ring m ! i) \<and> length (rx_ring m') = length (rx_ring m)"
proof (induction E "is" "(h, m)" arbitrary: h m rule: set_rx_buffers.induct)
  case (2 E i "is" h m)
  obtain p where p: "translate_addr (walk E) (rx_buf_virt E i) = Some p" using 2(2) by (auto split: option.splits)
  define m1 where "m1 = m\<lparr>rx_ring := (rx_ring m)[i := \<lparr>rx_addr = p, rx_length = 0, rx_checksum = 0, rx_status = 0,
    rx_errors = 0, rx_special = 0\<rparr>]\<rparr>"
  have "set_rx_buffers E is (h, m1) = (Inr (), h', m')" using 2(2) p by (simp add: m1_def)
  moreover have "\<forall>i \<in> set is. i < length (rx_ring m1)" "distinct is" using 2(3,4) by (simp_all add: m1_def)
  ultimately have ih: "(\<forall>i \<in> set is. Some (rx_addr (rx_ring m' ! i)) = translate_addr (walk E) (rx_buf_virt E i)) \<and>
     (\<forall>i. i \<notin> set is \<longrightarrow> rx_ring m' ! i = rx_ring m1 ! i) \<and> length (rx_ring m') = length (rx_ring m1)"
    using 2(1) [OF p] by (simp add: m1_def)
  have "rx_addr (rx_ring m' ! i) = p" using ih 2(3,4) by (simp add: m1_def)
  with ih p show ?case by (auto simp: m1_def)
qed simp

lemma test_frame_bytes:
  assumes "length mac = 6"
  shows "take 51 (test_frame mac) = replicate 6 0xFF @ mac @ [0x88, 0xB5] @ TEST_PAYLOAD"
proof -
  obtain a b c d e f where "mac = [a, b, c, d, e, f]"
    using assms by (auto simp: length_Suc_conv numeral_eq_Suc)
  moreover have "replicate 6 (255 :: u8) = [255, 255, 255, 255, 255, 255]" by (simp add: eval_nat_numeral)
  moreover have "replicate 52 (0 :: u8) = 0 # 0 # replicate 50 0" by (simp add: eval_nat_numeral)
  ultimately show ?thesis
    by (simp add: test_frame_def splice_def TEST_PAYLOAD_def bytes_of_def Let_def)
qed

lemma parse_test_frame:
  assumes "take 51 fr = replicate 6 0xFF @ mac @ [0x88, 0xB5] @ TEST_PAYLOAD" "length mac = 6" "51 \<le> n"
  shows "parse_frame fr n =
    \<lparr>dest_mac = replicate 6 0xFF, src_mac = mac, ethertype = 0x88B5, frame_length = n, payload_matches_test = True\<rparr>"
proof -
  have sl: "slice fr a b = slice (take 51 fr) a b" if "b \<le> 51" for a b
    using that by (simp add: slice_def drop_take min_def)
  have nth: "fr ! k = take 51 fr ! k" if "k < 51" for k using that by simp
  have len: "length TEST_PAYLOAD = 37" by (simp add: TEST_PAYLOAD_def)
  note sl' = sl [unfolded assms(1)]
  have "slice fr 0 6 = replicate 6 0xFF" by (subst sl') (simp_all add: slice_def)
  moreover have "slice fr 6 12 = mac" using assms(2) by (subst sl') (simp_all add: slice_def)
  moreover have "slice fr 14 51 = TEST_PAYLOAD" using assms(2) by (subst sl') (simp_all add: slice_def len)
  moreover have "fr ! 12 = 0x88" "fr ! 13 = 0xB5"
    using assms(2) nth [unfolded assms(1)] by (simp_all add: nth_append)
  ultimately show ?thesis using assms(3) by (simp add: parse_frame_def len)
qed

text \<open>
  C15. A test frame comes back: over a card in loopback that is in step with the driver,
  \<open>send_test_packet\<close> reports the frame as done, and the next \<open>recv_packet\<close> returns a frame to the
  broadcast address, from the card's own address, of the experimental ethertype, with the test
  payload; afterwards driver and card are in step again, so that this can go on for ever.  The card does
  this only for a descriptor with the address of the buffer that holds the frame and the right
  command bits, and only into a buffer the driver has given it.
\<close>

theorem nic_loopback:
  assumes "loops_back D V (dma_phys_base s) rx_buf" "in_step V rx_buf s h m"
  shows "\<exists>s1 w1 fr s2 h2 m2. send_test_packet D (Some s) (h, m) = Some (Inr True, Some s1, w1) \<and>
    recv_packet D (Some s1) w1 = Some (Inr (Some fr), Some s2, h2, m2) \<and>
    dest_mac fr = replicate 6 0xFF \<and> src_mac fr = nic_mac s \<and> ethertype fr = 0x88B5 \<and>
    payload_matches_test fr \<and> in_step V rx_buf s2 h2 m2 \<and> nic_mac s2 = nic_mac s \<and> dma_phys_base s2 = dma_phys_base s"
proof -
  note lb = assms(1) [unfolded loops_back_def]
  let ?t = "tx_tail s" and ?r = "rx_next s"
  have ok: "?t < 8" "?r < 8" "length (nic_mac s) = 6" "dma_shape m" using assms(2) by (simp_all add: in_step_def nic_ok_def)
  have st: "tx_head V h = ?t" "rx_head V h = ?r" "rx_tail V h = (?r + 7) mod 8" "map rx_addr (rx_ring m) = map rx_buf [0..<8]"
    using assms(2) by (simp_all add: in_step_def)
  define m0 where "m0 = place_frame s m"
  have sh0: "dma_shape m0" unfolding m0_def using place_frame_shape ok by blast
  obtain h1 m1 where w: "card_write D (h, m0) REG_TDT (of_nat ((?t + 1) mod 8)) = (h1, m1)"
    by (metis prod.collapse)
  have buf: "length (tx_buffers m ! ?t) = 256" "?t < length (tx_buffers m)" "?t < length (tx_ring m)"
    using ok by (auto simp: dma_shape_def)
  have d: "unat (tx_length (tx_ring m0 ! ?t)) = 51" "take 51 (tx_buffers m0 ! ?t) = take 51 (test_frame (nic_mac s))"
    using buf length_test_frame [OF ok(3)]
    by (simp_all add: m0_def place_frame_def Let_def frame_len splice_def min_def)
  have ra: "map rx_addr (rx_ring m0) = map rx_buf [0..<8]" using st(4) by (simp add: m0_def place_frame_def Let_def)
  have rn: "rx_addr (rx_ring m0 ! ?r) = rx_buf ?r"
    using arg_cong [OF ra, of "\<lambda>xs. xs ! ?r"] sh0 ok(2) by (simp add: dma_shape_def)
  have bc: "take 6 (tx_buffers m0 ! ?t) = replicate 6 0xFF"
  proof -
    have "take 6 (tx_buffers m0 ! ?t) = take 6 (take 51 (tx_buffers m0 ! ?t))" by simp
    then show ?thesis unfolding d(2) test_frame_bytes [OF ok(3)] by simp
  qed
  have "asks_to_send (dma_phys_base s) ?t (tx_ring m0 ! ?t) m0"
    using d(1) bc ok(1) buf by (simp add: asks_to_send_def tx_buf_addr_def m0_def place_frame_def Let_def bit_simps)
  moreover have "?r \<noteq> (?r + 7) mod 8" by presburger
  ultimately have "dma_shape m0 \<and> tx_head V h < 8 \<and> rx_head V h < 8 \<and> rx_tail V h < 8 \<and> rx_head V h \<noteq> rx_tail V h \<and>
      asks_to_send (dma_phys_base s) ?t (tx_ring m0 ! tx_head V h) m0 \<and> ?r < 8 \<and> rx_addr (rx_ring m0 ! rx_head V h) = rx_buf ?r \<and>
      card_write D (h, m0) REG_TDT (of_nat ((tx_head V h + 1) mod 8)) = (h1, m1)"
    using sh0 ok(1,2) w st(1-3) rn by simp
  from lb [THEN conjunct2, THEN conjunct1, rule_format, OF this] st d
  have 1: "dma_shape m1" "tx_head V h1 = (?t + 1) mod 8" "rx_head V h1 = (?r + 1) mod 8" "bit (tx_status (tx_ring m1 ! ?t)) 0"
    "bit (rx_status (rx_ring m1 ! ?r)) 0" "rx_errors (rx_ring m1 ! ?r) = 0"
    "tx_length (tx_ring m0 ! ?t) \<le> rx_length (rx_ring m1 ! ?r)" "rx_length (rx_ring m1 ! ?r) \<le> 2048"
    "take 51 (rx_buffers m1 ! ?r) = take 51 (test_frame (nic_mac s))"
    "map rx_addr (rx_ring m1) = map rx_buf [0..<8]" using ra by simp_all
  define n where "n = unat (rx_length (rx_ring m1 ! ?r))"
  have n: "51 \<le> n" "n \<le> 2048" using 1(7,8) d(1) by (simp_all add: n_def word_le_nat_alt)
  have idle: "card_work D w = w" for w using lb by blast
  have "poll_mem D (\<lambda>m. tx_status (tx_ring m ! ?t) AND push_bit 0 1 \<noteq> 0) 1000000 (h1, m1) = (True, h1, m1)"
    using 1(4) by (subst poll_mem_now) (simp_all add: idle bit_iff_and_push_bit_not_eq_0)
  then have send: "send_test_packet D (Some s) (h, m) = Some (Inr True, Some (s\<lparr>tx_tail := (?t + 1) mod 8\<rparr>), h1, m1)"
    using ok(1) w by (simp add: send_test_packet_def m0_def Let_def del: poll_mem.simps)
  let ?s1 = "s\<lparr>tx_tail := (?t + 1) mod 8\<rparr>"
  obtain h2 m2 where w2: "card_write D (h1, recycled m1 ?r) REG_RDT (of_nat ?r) = (h2, m2)" by (metis prod.collapse)
  have rec: "dma_shape (recycled m1 ?r)" "map rx_addr (rx_ring (recycled m1 ?r)) = map rx_addr (rx_ring m1)"
    using 1(1) ok(2) by (auto simp: dma_shape_def recycled_def map_update intro: list_update_same_conv [THEN iffD2])
  have "unat (of_nat ?r :: u32) = ?r" using ok(2) by (simp add: unat_of_nat)
  with rec w2 have 2: "dma_shape m2" "tx_head V h2 = tx_head V h1" "rx_head V h2 = rx_head V h1" "rx_tail V h2 = ?r"
    "map rx_addr (rx_ring m2) = map rx_addr (rx_ring m1)"
    using lb [THEN conjunct2, THEN conjunct2, rule_format, of "recycled m1 ?r" h1 "of_nat ?r" h2 m2] by simp_all
  have "poll_mem D (\<lambda>m. rx_status (rx_ring m ! rx_next ?s1) AND push_bit 0 1 \<noteq> 0) 1000000 (h1, m1) = (True, h1, m1)"
    using 1(5) by (subst poll_mem_now) (simp_all add: idle bit_iff_and_push_bit_not_eq_0)
  from recv_taken [OF this] ok(2) w2 have recv: "recv_packet D (Some ?s1) (h1, m1) =
      Some (taken_frame m1 ?r, Some (?s1\<lparr>rx_next := (?r + 1) mod 8\<rparr>), h2, m2)" by simp
  have "length (rx_buffers m1 ! ?r) = 2048" using 1(1) ok(2) by (simp add: dma_shape_def)
  then have "take 51 (splice (replicate 2048 0) 0 (take n (rx_buffers m1 ! ?r))) = take 51 (rx_buffers m1 ! ?r)"
    using n by (simp add: splice_def min_def)
  then have taken: "taken_frame m1 ?r = Inr (Some \<lparr>dest_mac = replicate 6 0xFF, src_mac = nic_mac s, ethertype = 0x88B5,
      frame_length = n, payload_matches_test = True\<rparr>)"
    using n 1(6,9) test_frame_bytes [OF ok(3)] parse_test_frame [OF _ ok(3) n(1)]
    by (simp add: taken_frame_def Let_def n_def [symmetric] min_def)
  have "?r = ((?r + 1) mod 8 + 7) mod 8" using ok(2) by presburger
  then have "in_step V rx_buf (?s1\<lparr>rx_next := (?r + 1) mod 8\<rparr>) h2 m2"
    using 1(2,3,10) 2 ok by (simp add: in_step_def nic_ok_def)
  with send recv taken show ?thesis
    by (intro exI [of _ ?s1] exI [of _ "(h1, m1)"] exI [of _ "\<lparr>dest_mac = replicate 6 0xFF, src_mac = nic_mac s,
        ethertype = 0x88B5, frame_length = n, payload_matches_test = True\<rparr>"]
        exI [of _ "?s1\<lparr>rx_next := (?r + 1) mod 8\<rparr>"] exI [of _ h2] exI [of _ m2]) simp
qed

text \<open>A card that does this, with its page at address 0 and the receive buffers a page apart, at work.\<close>

definition wire_frame :: "nat \<Rightarrow> nat \<Rightarrow> dma \<Rightarrow> dma" where
  "wire_frame t r m =
     (let d = tx_ring m ! t; j = (unat (tx_addr d) - 128) div 256; n = unat (rx_addr (rx_ring m ! r)) div 4096
      in m\<lparr>tx_ring := (tx_ring m)[t := d\<lparr>tx_status := 1\<rparr>],
           rx_ring := (rx_ring m)[r := (rx_ring m ! r)\<lparr>rx_length := tx_length d, rx_status := 3, rx_errors := 0\<rparr>],
           rx_buffers := (rx_buffers m)[n := splice (rx_buffers m ! n) 0 (take (unat (tx_length d)) (tx_buffers m ! j))]\<rparr>)"

definition wire_card :: "(nat \<times> nat \<times> nat) card" where
  "wire_card = \<lparr>card_read = (\<lambda>w off. (0, w)),
     card_write = (\<lambda>w off v. case w of ((t, r, q), m) \<Rightarrow>
       if off = REG_RDT then ((t, r, unat v), m)
       else if off = REG_TDT \<and> r \<noteq> q then ((unat v, (r + 1) mod 8, q), wire_frame t r m) else w),
     card_work = (\<lambda>w. w)\<rparr>"

definition wire_view :: "(nat \<times> nat \<times> nat) ring_view" where
  "wire_view = \<lparr>tx_head = fst, rx_head = fst \<circ> snd, rx_tail = snd \<circ> snd\<rparr>"

lemma wire_buf:
  assumes "j < 8" shows "(unat (tx_buf_addr 0 j) - 128) div 256 = j"
proof -
  have "unat (of_nat (128 + j * 256) :: u64) = 128 + j * 256" using assms by (simp add: unat_of_nat del: of_nat_add of_nat_mult)
  then show ?thesis by (simp add: tx_buf_addr_def)
qed

lemma wire_rx_buf:
  assumes "n < 8" shows "unat (of_nat (4096 * n) :: u64) div 4096 = n"
proof -
  have "unat (of_nat (4096 * n) :: u64) = 4096 * n" using assms by (simp add: unat_of_nat del: of_nat_mult)
  then show ?thesis by simp
qed

lemma wire_frame_does:
  assumes "dma_shape m" "t < 8" "r < 8" "asks_to_send 0 j (tx_ring m ! t) m" "n < 8"
    "rx_addr (rx_ring m ! r) = of_nat (4096 * n)" "m' = wire_frame t r m"
  shows "dma_shape m'" "bit (tx_status (tx_ring m' ! t)) 0" "bit (rx_status (rx_ring m' ! r)) 0" "rx_errors (rx_ring m' ! r) = 0"
    "map rx_addr (rx_ring m') = map rx_addr (rx_ring m)" "tx_length (tx_ring m ! t) \<le> rx_length (rx_ring m' ! r)"
    "rx_length (rx_ring m' ! r) \<le> 2048"
    "take (unat (tx_length (tx_ring m ! t))) (rx_buffers m' ! n) = take (unat (tx_length (tx_ring m ! t))) (tx_buffers m ! j)"
proof -
  have j: "j < 8" "(unat (tx_addr (tx_ring m ! t)) - 128) div 256 = j" "unat (tx_length (tx_ring m ! t)) \<le> 256"
    using assms(4) wire_buf by (simp_all add: asks_to_send_def)
  have n: "unat (rx_addr (rx_ring m ! r)) div 4096 = n" using wire_rx_buf [OF assms(5)] assms(6) by simp
  have len: "length (tx_ring m) = 8" "length (rx_ring m) = 8" "length (rx_buffers m) = 8" "length (tx_buffers m) = 8"
      "length (tx_buffers m ! j) = 256" "length (rx_buffers m ! n) = 2048"
    using assms(1,5) j by (simp_all add: dma_shape_def)
  have m': "m' = m\<lparr>tx_ring := (tx_ring m)[t := (tx_ring m ! t)\<lparr>tx_status := 1\<rparr>],
     rx_ring := (rx_ring m)[r := (rx_ring m ! r)\<lparr>rx_length := tx_length (tx_ring m ! t), rx_status := 3, rx_errors := 0\<rparr>],
     rx_buffers := (rx_buffers m)[n := splice (rx_buffers m ! n) 0 (take (unat (tx_length (tx_ring m ! t))) (tx_buffers m ! j))]\<rparr>"
    by (simp only: assms(7) wire_frame_def Let_def j(2) n)
  show "dma_shape m'" using assms(1) len j(3) unfolding dma_shape_def m'
    by (auto simp: splice_def min_def dest!: subsetD [OF set_update_subset_insert])
  show "map rx_addr (rx_ring m') = map rx_addr (rx_ring m)"
    using len assms(3) by (simp add: m' map_update list_update_same_conv)
  show "rx_length (rx_ring m' ! r) \<le> 2048" using j(3) len assms(3) by (simp add: m' word_le_nat_alt)
  show "bit (tx_status (tx_ring m' ! t)) 0" "bit (rx_status (rx_ring m' ! r)) 0" "rx_errors (rx_ring m' ! r) = 0"
    "tx_length (tx_ring m ! t) \<le> rx_length (rx_ring m' ! r)"
    "take (unat (tx_length (tx_ring m ! t))) (rx_buffers m' ! n) = take (unat (tx_length (tx_ring m ! t))) (tx_buffers m ! j)"
    using assms(2,3,5) len j(3) by (simp_all add: m' splice_def min_def)
qed

lemma wire_loops_back: "loops_back wire_card wire_view 0 (\<lambda>n. of_nat (4096 * n))"
  unfolding loops_back_def
proof (intro conjI allI impI)
  fix h m h' m' j n
  assume a: "dma_shape m \<and> tx_head wire_view h < 8 \<and> rx_head wire_view h < 8 \<and> rx_tail wire_view h < 8 \<and>
    rx_head wire_view h \<noteq> rx_tail wire_view h \<and> asks_to_send 0 j (tx_ring m ! tx_head wire_view h) m \<and> n < 8 \<and>
    rx_addr (rx_ring m ! rx_head wire_view h) = of_nat (4096 * n) \<and>
    card_write wire_card (h, m) REG_TDT (of_nat ((tx_head wire_view h + 1) mod 8)) = (h', m')"
  obtain t r q where h: "h = (t, r, q)" by (cases h)
  have "Suc t mod 8 < 8" by simp
  then have "unat (of_nat (Suc t mod 8) :: u32) = Suc t mod 8" by (simp add: unat_of_nat)
  with a have w: "h' = ((t + 1) mod 8, (r + 1) mod 8, q)" "m' = wire_frame t r m"
    by (auto simp: h wire_view_def wire_card_def REG_RDT_def REG_TDT_def simp del: of_nat_mod of_nat_Suc)
  note * = wire_frame_does [of m t r j n m']
  show "dma_shape m'" "tx_head wire_view h' = (tx_head wire_view h + 1) mod 8" "rx_head wire_view h' = (rx_head wire_view h + 1) mod 8"
    "rx_tail wire_view h' = rx_tail wire_view h" "bit (tx_status (tx_ring m' ! tx_head wire_view h)) 0"
    "bit (rx_status (rx_ring m' ! rx_head wire_view h)) 0" "rx_errors (rx_ring m' ! rx_head wire_view h) = 0"
    "map rx_addr (rx_ring m') = map rx_addr (rx_ring m)"
    "tx_length (tx_ring m ! tx_head wire_view h) \<le> rx_length (rx_ring m' ! rx_head wire_view h)"
    "rx_length (rx_ring m' ! rx_head wire_view h) \<le> 2048"
    "take (unat (tx_length (tx_ring m ! tx_head wire_view h))) (rx_buffers m' ! n) =
       take (unat (tx_length (tx_ring m ! tx_head wire_view h))) (tx_buffers m ! j)"
    using a w * by (simp_all add: h wire_view_def)
qed (auto simp: wire_view_def wire_card_def REG_RDT_def REG_TDT_def)

definition wire_state :: nic_state where
  "wire_state = \<lparr>dma_phys_base = 0, nic_mac = [82, 84, 0, 18, 52, 86], nic_mac_valid = True, tx_tail = 7, rx_next = 2\<rparr>"

definition wire_dma :: dma where
  "wire_dma = boot_dma\<lparr>rx_ring := map (\<lambda>n. EMPTY_RX_DESC\<lparr>rx_addr := of_nat (4096 * n)\<rparr>) [0..<8]\<rparr>"

lemma wire_base: "dma_phys_base wire_state = 0"
  by (simp add: wire_state_def)

lemma wire_in_step: "in_step wire_view (\<lambda>n. of_nat (4096 * n)) wire_state (7, 2, 1) wire_dma"
  by (simp add: in_step_def wire_view_def wire_state_def wire_dma_def nic_ok_def dma_shape_def boot_dma_def comp_def)

theorem nic_loopback_witness:
  "\<exists>s1 w1 fr s2 h2 m2. send_test_packet wire_card (Some wire_state) ((7, 2, 1), wire_dma) = Some (Inr True, Some s1, w1) \<and>
    recv_packet wire_card (Some s1) w1 = Some (Inr (Some fr), Some s2, h2, m2) \<and>
    dest_mac fr = replicate 6 0xFF \<and> src_mac fr = nic_mac wire_state \<and> ethertype fr = 0x88B5 \<and>
    payload_matches_test fr \<and> in_step wire_view (\<lambda>n. of_nat (4096 * n)) s2 h2 m2 \<and> nic_mac s2 = nic_mac wire_state \<and>
    dma_phys_base s2 = dma_phys_base wire_state"
  by (rule nic_loopback [OF _ wire_in_step]) (simp only: wire_base wire_loops_back)

end
