(* ===== verification/Shell.thy ===== *)
theory Shell
  imports Loader Tasks Mouse Nic Rtc
begin

text \<open>
  The shell (\<open>kernel/src/shell.rs\<close>) and the speaker it drives (\<open>kernel/src/speaker.rs\<close>): the line being
  typed, the current directory, and the command table that ties the other components together.  The
  keyboard's US layout decodes to ASCII, so a character is a byte.  A command returns an \<open>answer\<close>;
  the wording printed for it (and the contents of the pure report commands) is a parameter, but the
  printing itself goes through the console.  \<open>None\<close> is a panic or a call that does not come back.
\<close>

section \<open>The speaker\<close>

definition PIT_BASE_HZ :: nat where "PIT_BASE_HZ = 1193182"

definition beep_divisor :: "nat \<Rightarrow> u16" where
  "beep_divisor freq = of_nat (PIT_BASE_HZ div max freq 20)"

text \<open>The ports written by \<open>beep\<close> and \<open>stop\<close>, given the gate register read before.\<close>

definition beep_writes :: "nat \<Rightarrow> u8 \<Rightarrow> (u16 \<times> u8) list" where
  "beep_writes freq gate =
     [(0x43, 0xB6), (0x42, ucast (beep_divisor freq AND 0xFF)),
      (0x42, ucast (drop_bit 8 (beep_divisor freq) AND 0xFF)), (0x61, gate OR 0x03)]"

definition stop_writes :: "u8 \<Rightarrow> (u16 \<times> u8) list" where
  "stop_writes gate = [(0x61, gate AND 0xFC)]"

definition speaker_enabled :: "u8 \<Rightarrow> bool" where
  "speaker_enabled gate = (gate AND 0x03 = 0x03)"

section \<open>The current directory\<close>

type_synonym cwd = "bytes list"

fun join_slash :: "bytes list \<Rightarrow> bytes" where
  "join_slash [] = []"
| "join_slash [c] = c"
| "join_slash (c # cs) = c @ [47] @ join_slash cs"

definition resolve_arg :: "cwd \<Rightarrow> bytes \<Rightarrow> bytes" where
  "resolve_arg cwd arg =
     (case strip_prefix [47] arg of
        Some rest \<Rightarrow> rest
      | None \<Rightarrow> (let p = join_slash cwd in if p = [] then arg else p @ [47] @ arg))"

definition set_cwd :: "bytes \<Rightarrow> cwd" where
  "set_cwd resolved = (if resolved = [] then [] else split_slash resolved)"

definition prompt_string :: "cwd \<Rightarrow> bytes" where
  "prompt_string cwd =
     (let p = join_slash cwd in if p = [] then bytes_of ''/> '' else bytes_of ''/'' @ p @ bytes_of ''> '')"

section \<open>Words\<close>

definition trim :: "bytes \<Rightarrow> bytes" where
  "trim s = rev (dropWhile is_space (rev (dropWhile is_space s)))"

fun split_once :: "u8 \<Rightarrow> bytes \<Rightarrow> (bytes \<times> bytes) option" where
  "split_once c [] = None"
| "split_once c (b # bs) =
     (if b = c then Some ([], bs) else map_option (apfst ((#) b)) (split_once c bs))"

definition parse_usize_args :: "nat \<Rightarrow> bytes \<Rightarrow> nat list option" where
  "parse_usize_args n rest =
     (let ws = split_whitespace rest
      in if length ws = n \<and> list_all (\<lambda>w. parse_uint 64 w \<noteq> None) ws
         then Some (map (\<lambda>w. the (parse_uint 64 w)) ws) else None)"

section \<open>Commands\<close>

datatype answer =
    Silent | Report bytes | Usage bytes | Unknown bytes
  | Finished bytes | Refused bytes
  | Listing "(bytes \<times> bool \<times> nat) list" | Contents bytes | Wrote nat bytes | Seeded nat
  | Fs_failed fs_error | Loader_failed loader_error | Process_failed proc_error
  | Weights_failed weights_error | Nic_failed nic_error
  | Live "(nat \<times> nat) list" | Spawned nat | Killed nat | Trained3 f32 f32 f32
  | Network_says dsl_answer | Packet_sent bool | Packet_in "received_frame option"
  | Beeping nat bool | Gate bool | Date date_time | At_root | In_cwd

text \<open>The file commands, on the current directory and the disk; \<open>None\<close> when the line is not one.\<close>

definition fs_unit :: "answer \<Rightarrow> (fs_error + unit) \<times> disk \<Rightarrow> answer \<times> disk" where
  "fs_unit ok r = (case r of (Inl e, d) \<Rightarrow> (Fs_failed e, d) | (Inr _, d) \<Rightarrow> (ok, d))"

definition print_listing :: "fs_error + (bytes \<times> bool \<times> nat) list \<Rightarrow> answer" where
  "print_listing r = (case r of Inl e \<Rightarrow> Fs_failed e | Inr es \<Rightarrow> Listing es)"

definition change_dir :: "bytes \<Rightarrow> cwd \<Rightarrow> disk \<Rightarrow> answer \<times> cwd" where
  "change_dir rest cwd d =
     (let target = trim rest
      in if target = bytes_of ''..'' then (if cwd = [] then (At_root, cwd) else (Silent, butlast cwd))
         else if target = [] \<or> target = [47] then (Silent, [])
         else let resolved = resolve_arg cwd target
              in (case (if resolved = [] then list_dir d None else list_dir d (Some resolved)) of
                    Inr _ \<Rightarrow> (Silent, set_cwd resolved)
                  | Inl e \<Rightarrow> (Fs_failed e, cwd)))"

definition write_command :: "bytes \<Rightarrow> cwd \<Rightarrow> disk \<Rightarrow> answer \<times> disk" where
  "write_command rest cwd d =
     (case split_once 32 rest of
        None \<Rightarrow> (Usage (bytes_of ''write''), d)
      | Some (name, text) \<Rightarrow> fs_unit (Wrote (length text) name) (write_file d (resolve_arg cwd name) text))"

definition read_command :: "bytes \<Rightarrow> cwd \<Rightarrow> disk \<Rightarrow> answer" where
  "read_command name cwd d =
     (case read_file d (resolve_arg cwd (trim name)) of
        Inl e \<Rightarrow> Fs_failed e
      | Inr data \<Rightarrow> Contents (utf8_lossy data))"

definition rmdir_command :: "bytes \<Rightarrow> cwd \<Rightarrow> disk \<Rightarrow> answer \<times> disk" where
  "rmdir_command name cwd d =
     (let target = resolve_arg cwd (trim name)
      in if target = join_slash cwd then (In_cwd, d)
         else fs_unit (Finished (bytes_of ''rmdir'')) (remove_dir d target))"

definition fs_command :: "bytes \<Rightarrow> cwd \<Rightarrow> disk \<Rightarrow> (answer \<times> cwd \<times> disk) option" where
  "fs_command cmd cwd d =
     (if cmd = bytes_of ''ls'' then
        Some (print_listing (if join_slash cwd = [] then list_dir d None else list_dir d (Some (join_slash cwd))), cwd, d)
      else if cmd = bytes_of ''cd'' then Some (Silent, [], d)
      else case strip_prefix (bytes_of ''cd '') cmd of
        Some rest \<Rightarrow> Some (case change_dir rest cwd d of (a, cwd) \<Rightarrow> (a, cwd, d))
      | None \<Rightarrow> (case strip_prefix (bytes_of ''write '') cmd of
        Some rest \<Rightarrow> Some (case write_command rest cwd d of (a, d) \<Rightarrow> (a, cwd, d))
      | None \<Rightarrow> (case strip_prefix (bytes_of ''read '') cmd of
        Some name \<Rightarrow> Some (read_command name cwd d, cwd, d)
      | None \<Rightarrow> (case strip_prefix (bytes_of ''rm '') cmd of
        Some name \<Rightarrow> Some (case fs_unit (Finished (bytes_of ''rm'')) (delete_file d (resolve_arg cwd (trim name))) of
                            (a, d) \<Rightarrow> (a, cwd, d))
      | None \<Rightarrow> (case strip_prefix (bytes_of ''rmdir '') cmd of
        Some name \<Rightarrow> Some (case rmdir_command name cwd d of (a, d) \<Rightarrow> (a, cwd, d))
      | None \<Rightarrow> (case strip_prefix (bytes_of ''mkdir '') cmd of
        Some name \<Rightarrow> Some (case fs_unit (Finished (bytes_of ''mkdir'')) (make_dir d (resolve_arg cwd (trim name))) of
                            (a, d) \<Rightarrow> (a, cwd, d))
      | None \<Rightarrow> (case strip_prefix (bytes_of ''ls '') cmd of
        Some dir \<Rightarrow> Some (print_listing (list_dir d (Some (resolve_arg cwd (trim dir)))), cwd, d)
      | None \<Rightarrow> None)))))))"

section \<open>The machine behind the shell\<close>

record 'h world =
  w_line :: bytes
  w_cwd :: cwd
  w_kern :: kstate
  w_net :: network
  w_tasking :: tasking
  w_pointer :: mouse
  w_nic :: "nic_state option"
  w_card :: "'h \<times> dma"
  w_user_mapped :: bool
  w_ports :: "(u16 \<times> u8) list"
  w_typed :: bytes

text \<open>
  \<open>w_ports\<close> is the log of the writes to the speaker's ports, \<open>w_typed\<close> the string \<open>TYPED\<close> of \<open>keyboard.rs\<close>.  What the commands need from outside: font, math library, page
  mapper, user code, card, where the heap puts the stack of the next task (if it has room for it), assets, the clock (and how often it is polled), the speaker's gate
  register as it reads now, and the wording.
\<close>

record 'h shell_env =
  e_font :: font
  e_libm :: libm
  e_map_to :: map_to_fn
  e_user :: user_run
  e_card :: "'h card"
  e_stack_base :: "tasking \<Rightarrow> u64 option"
  e_entries :: "nat \<Rightarrow> u64"
  e_test_elf :: bytes
  e_pipetest_elf :: bytes
  e_clock :: cmos
  e_patience :: nat
  e_gate :: "'h world \<Rightarrow> u8"
  e_wording :: "'h world \<Rightarrow> answer \<Rightarrow> nat list"

definition on_console :: "(console \<Rightarrow> console option) \<Rightarrow> 'h world \<Rightarrow> 'h world option" where
  "on_console op w = map_option (\<lambda>m. w\<lparr>w_pointer := m\<rparr>) (on_screen_do (w_pointer w) op)"

definition run_answer :: "bytes \<Rightarrow> ((proc_error + unit) \<times> kstate) option \<Rightarrow> 'h world \<Rightarrow> (answer \<times> 'h world) option" where
  "run_answer cmd r w =
     map_option (\<lambda>(r, k). (case r of Inl e \<Rightarrow> Process_failed e | Inr _ \<Rightarrow> Finished cmd, w\<lparr>w_kern := k\<rparr>)) r"

definition load_answer :: "bytes \<Rightarrow> ((loader_error + unit) \<times> kstate) option \<Rightarrow> 'h world \<Rightarrow> (answer \<times> 'h world) option" where
  "load_answer cmd r w =
     map_option (\<lambda>(r, k). (case r of Inl e \<Rightarrow> Loader_failed e | Inr _ \<Rightarrow> Finished cmd, w\<lparr>w_kern := k\<rparr>)) r"

definition seed_answer :: "(loader_error + nat) \<times> disk \<Rightarrow> 'h world \<Rightarrow> (answer \<times> 'h world) option" where
  "seed_answer r w =
     (case r of (r, d) \<Rightarrow> Some (case r of Inl e \<Rightarrow> Loader_failed e | Inr n \<Rightarrow> Seeded n,
                                w\<lparr>w_kern := (w_kern w)\<lparr>kdisk := d\<rparr>\<rparr>))"

definition usertest_run :: "user_run \<Rightarrow> bool \<Rightarrow> kstate \<Rightarrow> (bool \<times> kstate) option" where
  "usertest_run user mapped s =
     (if \<not> mapped then Some (False, s)
      else map_option (Pair True) (user USER_CODE_ADDR (USER_STACK_ADDR + 4096) s))"

fun trials :: "libm \<Rightarrow> bool \<Rightarrow> nat \<Rightarrow> network \<Rightarrow> network option" where
  "trials lm ltp 0 net = Some net"
| "trials lm ltp (Suc n) net = do { net \<leftarrow> run_training_trial lm ltp 2 net; trials lm ltp n net }"

definition train_command :: "libm \<Rightarrow> network \<Rightarrow> (answer \<times> network) option" where
  "train_command lm net = do {
     let before = left_to_motor_weight net;
     net \<leftarrow> trials lm True 5 net;
     let after_ltp = left_to_motor_weight net;
     net \<leftarrow> trials lm False 5 net;
     Some (Trained3 before after_ltp (left_to_motor_weight net), net) }"

text \<open>The commands without arguments that only report, and those that do something.\<close>

definition gate_enabled :: "'h shell_env \<Rightarrow> 'h world \<Rightarrow> bool" where
  "gate_enabled E w = speaker_enabled (e_gate E w)"

definition plain_reports :: "bytes list" where
  "plain_reports = map bytes_of [''help'', ''about'', ''neurons'', ''net'', ''mouse'', ''lspci'', ''nic'']"

text \<open>State of the kernel: tasks, network, clock and speaker.\<close>

definition state_command :: "'h shell_env \<Rightarrow> bytes \<Rightarrow> 'h world \<Rightarrow> (answer \<times> 'h world) option option" where
  "state_command E cmd w =
     (if cmd = bytes_of ''usertest'' then
        Some (map_option (\<lambda>(ok, k). (if ok then Finished cmd else Refused cmd, w\<lparr>w_kern := k\<rparr>))
               (usertest_run (e_user E) (w_user_mapped w) (w_kern w)))
      else if cmd = bytes_of ''tasks'' then Some (Some (Live (live_tasks (w_tasking w)), w))
      else if cmd = bytes_of ''spawn'' then
        Some (map_option (\<lambda>(r, t). (case r of Some i \<Rightarrow> Spawned i | None \<Rightarrow> Refused cmd, w\<lparr>w_tasking := t\<rparr>))
               (spawn (e_stack_base E (w_tasking w)) (e_entries E) (w_tasking w)))
      else if cmd = bytes_of ''train'' then
        Some (map_option (\<lambda>(a, n). (a, w\<lparr>w_net := n\<rparr>)) (train_command (e_libm E) (w_net w)))
      else if cmd = bytes_of ''save'' then
        Some (Some (case save_weights_to_disk (e_libm E) (w_net w) (kdisk (w_kern w)) of
          (r, d) \<Rightarrow> (case r of Inl e \<Rightarrow> Weights_failed e | Inr _ \<Rightarrow> Finished cmd,
                     w\<lparr>w_kern := (w_kern w)\<lparr>kdisk := d\<rparr>\<rparr>)))
      else if cmd = bytes_of ''date'' then
        Some (map_option (\<lambda>t. (Date t, w)) (now (e_patience E) (e_clock E)))
      else if cmd = bytes_of ''speakerstatus'' then Some (Some (Gate (gate_enabled E w), w))
      else if cmd = bytes_of ''silence'' then
        Some (let w = w\<lparr>w_ports := w_ports w @ stop_writes (e_gate E w)\<rparr>
              in Some (Gate (gate_enabled E w), w))
      else None)"

text \<open>The network card and the drawing mode.\<close>

definition device_command :: "'h shell_env \<Rightarrow> bytes \<Rightarrow> 'h world \<Rightarrow> (answer \<times> 'h world) option option" where
  "device_command E cmd w =
     (if cmd = bytes_of ''nicinfo'' then
        Some (Some (case link_up (e_card E) (w_nic w) (w_card w) of (_, c) \<Rightarrow> (Report cmd, w\<lparr>w_card := c\<rparr>)))
      else if cmd = bytes_of ''sendpacket'' then
        Some (map_option (\<lambda>(r, s, c). (case r of Inl e \<Rightarrow> Nic_failed e | Inr b \<Rightarrow> Packet_sent b, w\<lparr>w_nic := s, w_card := c\<rparr>))
               (send_test_packet (e_card E) (w_nic w) (w_card w)))
      else if cmd = bytes_of ''recvpacket'' then
        Some (map_option (\<lambda>(r, s, c). (case r of Inl e \<Rightarrow> Nic_failed e | Inr f \<Rightarrow> Packet_in f, w\<lparr>w_nic := s, w_card := c\<rparr>))
               (recv_packet (e_card E) (w_nic w) (w_card w)))
      else if cmd = bytes_of ''draw'' then Some (Some (Finished cmd, w\<lparr>w_pointer := enter_draw_mode (w_pointer w)\<rparr>))
      else if cmd = bytes_of ''stopdraw'' then
        Some (Some (if drawing_enabled (w_pointer w) then (Finished cmd, w\<lparr>w_pointer := exit_draw_mode (w_pointer w)\<rparr>)
                    else (Refused cmd, w)))
      else None)"

text \<open>The test programs: writing them to files, and running the processes built from them at boot.\<close>

definition program_command :: "'h shell_env \<Rightarrow> bytes \<Rightarrow> 'h world \<Rightarrow> (answer \<times> 'h world) option option" where
  "program_command E cmd w =
     (let run = (\<lambda>pid. Some (run_answer cmd (run_process (e_user E) pid (w_kern w)) w));
          seed = (\<lambda>r. Some (seed_answer r w)); d = kdisk (w_kern w)
      in if cmd = bytes_of ''seedtestprog'' then seed (seed_test_program d)
      else if cmd = bytes_of ''seedfdtest'' then seed (seed_fdtest_program d)
      else if cmd = bytes_of ''runfdtest'' then run 4
      else if cmd = bytes_of ''runfork'' then run 5
      else if cmd = bytes_of ''runsigsegv'' then run 6
      else if cmd = bytes_of ''runsigkill'' then run 7
      else if cmd = bytes_of ''seedtestelf'' then seed (seed_test_elf (e_test_elf E) d)
      else if cmd = bytes_of ''seedpipetest'' then seed (seed_pipetest_elf (e_pipetest_elf E) d)
      else if cmd = bytes_of ''clear'' then
        Some (map_option (Pair Silent) (on_console (\<lambda>c. Some (clear c)) w))
      else None)"

definition plain_command :: "'h shell_env \<Rightarrow> bytes \<Rightarrow> 'h world \<Rightarrow> (answer \<times> 'h world) option option" where
  "plain_command E cmd w =
     (if cmd = [] then Some (Some (Silent, w))
      else if cmd \<in> set plain_reports then Some (Some (Report cmd, w))
      else case state_command E cmd w of
        Some r \<Rightarrow> Some r
      | None \<Rightarrow> (case device_command E cmd w of
          Some r \<Rightarrow> Some r
        | None \<Rightarrow> program_command E cmd w))"

definition draw_command :: "bytes \<Rightarrow> 'h world \<Rightarrow> (answer \<times> 'h world) option option" where
  "draw_command cmd w =
     (let go = (\<lambda>name n rest op. Some (case parse_usize_args n rest of
                   None \<Rightarrow> Some (Usage (bytes_of name), w)
                 | Some xs \<Rightarrow> map_option (Pair (Finished (bytes_of name))) (on_console (op xs) w)))
      in case strip_prefix (bytes_of ''pixel '') cmd of
        Some rest \<Rightarrow> go ''pixel'' 2 rest (\<lambda>xs c. draw_pixel c (xs ! 0) (xs ! 1) True)
      | None \<Rightarrow> (case strip_prefix (bytes_of ''line '') cmd of
        Some rest \<Rightarrow> go ''line'' 4 rest (\<lambda>xs c. draw_line c (xs ! 0) (xs ! 1) (xs ! 2) (xs ! 3))
      | None \<Rightarrow> (case strip_prefix (bytes_of ''fillrect '') cmd of
        Some rest \<Rightarrow> go ''fillrect'' 4 rest (\<lambda>xs c. draw_rect c (xs ! 0) (xs ! 1) (xs ! 2) (xs ! 3) True)
      | None \<Rightarrow> (case strip_prefix (bytes_of ''rect '') cmd of
        Some rest \<Rightarrow> go ''rect'' 4 rest (\<lambda>xs c. draw_rect c (xs ! 0) (xs ! 1) (xs ! 2) (xs ! 3) False)
      | None \<Rightarrow> None))))"

definition is_dsl :: "bytes \<Rightarrow> bool" where
  "is_dsl cmd = list_ex (\<lambda>p. strip_prefix (bytes_of p) cmd \<noteq> None) [''addneuron '', ''addsynapse '', ''stim '', ''train '']"

definition argument_command :: "'h shell_env \<Rightarrow> bytes \<Rightarrow> 'h world \<Rightarrow> (answer \<times> 'h world) option option" where
  "argument_command E cmd w =
     (if is_dsl cmd then
        Some (map_option (\<lambda>(a, n). (Network_says a, w\<lparr>w_net := n\<rparr>)) (run_dsl_line (e_libm E) cmd (w_net w)))
      else case strip_prefix (bytes_of ''beep '') cmd of
        Some f \<Rightarrow> Some (Some (case parse_uint 32 (trim f) of
            None \<Rightarrow> (Usage (bytes_of ''beep''), w)
          | Some n \<Rightarrow> (let w = w\<lparr>w_ports := w_ports w @ beep_writes n (e_gate E w)\<rparr>
                       in (Beeping n (gate_enabled E w), w))))
      | None \<Rightarrow> (case strip_prefix (bytes_of ''kill '') cmd of
        Some rest \<Rightarrow> Some (Some (case parse_uint 64 (trim rest) of
            None \<Rightarrow> (Usage (bytes_of ''kill''), w)
          | Some i \<Rightarrow> (case kill_task i (w_tasking w) of
              (ok, t) \<Rightarrow> (if ok then Killed i else Refused (bytes_of ''kill''), w\<lparr>w_tasking := t\<rparr>))))
      | None \<Rightarrow> (case strip_prefix (bytes_of ''runproc '') cmd of
        Some rest \<Rightarrow> Some (case parse_uint 8 (trim rest) of
            None \<Rightarrow> Some (Usage (bytes_of ''runproc''), w)
          | Some pid \<Rightarrow> run_answer (bytes_of ''runproc'') (run_process (e_user E) pid (w_kern w)) w)
      | None \<Rightarrow> (case strip_prefix (bytes_of ''runfile '') cmd of
        Some path \<Rightarrow> Some (load_answer (bytes_of ''runfile'') (run_file (e_map_to E) (e_user E) (trim path) (w_kern w)) w)
      | None \<Rightarrow> (case strip_prefix (bytes_of ''runelf '') cmd of
        Some path \<Rightarrow> Some (load_answer (bytes_of ''runelf'') (run_elf (e_map_to E) (e_user E) (trim path) (w_kern w)) w)
      | None \<Rightarrow> draw_command cmd w)))))"

definition run_command :: "'h shell_env \<Rightarrow> bytes \<Rightarrow> 'h world \<Rightarrow> (answer \<times> 'h world) option" where
  "run_command E cmd w =
     (case plain_command E cmd w of
        Some r \<Rightarrow> r
      | None \<Rightarrow> (case fs_command cmd (w_cwd w) (kdisk (w_kern w)) of
          Some (a, cwd, d) \<Rightarrow> Some (a, w\<lparr>w_cwd := cwd, w_kern := (w_kern w)\<lparr>kdisk := d\<rparr>\<rparr>)
        | None \<Rightarrow> (case argument_command E cmd w of
            Some r \<Rightarrow> r
          | None \<Rightarrow> Some (Unknown cmd, w))))"

section \<open>Typing\<close>

definition print_out :: "'h shell_env \<Rightarrow> nat list \<Rightarrow> 'h world \<Rightarrow> 'h world option" where
  "print_out E s w = on_console (\<lambda>c. write_str (e_font E) c s) w"

definition show_prompt :: "'h shell_env \<Rightarrow> 'h world \<Rightarrow> 'h world option" where
  "show_prompt E w = print_out E (map unat (prompt_string (w_cwd w))) w"

definition is_control :: "u8 \<Rightarrow> bool" where
  "is_control b \<longleftrightarrow> b < 32 \<or> b = 127"

text \<open>\<open>on_char\<close>, with the answer of the command when the line was entered.\<close>

definition on_char :: "'h shell_env \<Rightarrow> u8 \<Rightarrow> 'h world \<Rightarrow> (answer option \<times> 'h world) option" where
  "on_char E ch w =
     (if ch = 10 \<or> ch = 13 then do {
        w \<leftarrow> print_out E [10] w;
        (a, w) \<leftarrow> run_command E (trim (w_line w)) (w\<lparr>w_line := []\<rparr>);
        w \<leftarrow> print_out E (e_wording E w a) w;
        w \<leftarrow> show_prompt E w;
        Some (Some a, w) }
      else if ch = 8 \<or> ch = 127 then
        (if w_line w = [] then Some (None, w)
         else map_option (Pair None) (on_console (backspace (e_font E)) (w\<lparr>w_line := butlast (w_line w)\<rparr>)))
      else if \<not> is_control ch then
        map_option (Pair None) (print_out E [unat ch] (w\<lparr>w_line := w_line w @ [ch]\<rparr>))
      else Some (None, w))"

text \<open>A key press (\<open>keyboard.rs\<close>): it is recorded, the network feels it, then the shell does.\<close>

definition on_key :: "'h shell_env \<Rightarrow> u8 \<Rightarrow> 'h world \<Rightarrow> (answer option \<times> 'h world) option" where
  "on_key E ch w = on_char E ch (w\<lparr>w_typed := w_typed w @ [ch], w_net := on_key_stimulus (unat ch) (w_net w)\<rparr>)"

fun on_keys :: "'h shell_env \<Rightarrow> bytes \<Rightarrow> 'h world \<Rightarrow> (answer list \<times> 'h world) option" where
  "on_keys E [] w = Some ([], w)"
| "on_keys E (ch # s) w = do {
     (a, w) \<leftarrow> on_key E ch w;
     (as, w) \<leftarrow> on_keys E s w;
     Some ((case a of Some a \<Rightarrow> a # as | None \<Rightarrow> as), w) }"

end
