(* ===== verification/Shell_Props.thy ===== *)
theory Shell_Props
  imports Shell Network_Props Tasks_Props Nic_Props
begin

text \<open>
  The shell and what it drives: the current directory stays a directory as long as names are not
  disguised (and what happens when they are), what is typed as \<open>write\<close> is what \<open>read\<close> shows, a
  coordinate that is too large brings the kernel down, and every key ever typed is kept.
\<close>

section \<open>Paths as lists of names\<close>

definition name_ok :: "bytes \<Rightarrow> bool" where
  "name_ok c \<longleftrightarrow> c \<noteq> [] \<and> 47 \<notin> set c \<and> length c \<le> 16 \<and> 0 \<notin> set c"

lemma split_slash_names: "c \<in> set (split_slash p) \<Longrightarrow> 47 \<notin> set c"
  by (induction p arbitrary: c rule: split_slash.induct) (fastforce split: if_splits list.splits)+

lemma split_slash_ne [simp]: "split_slash p \<noteq> []"
  by (cases p) (auto split: list.splits)

lemma split_slash_one: "47 \<notin> set p \<Longrightarrow> split_slash p = [p]"
  by (induction p) auto

lemma split_slash_append: "47 \<notin> set c \<Longrightarrow> split_slash (c @ 47 # p) = c # split_slash p"
  by (induction c) auto

lemma split_join: "cs \<noteq> [] \<Longrightarrow> \<forall>c \<in> set cs. 47 \<notin> set c \<Longrightarrow> split_slash (join_slash cs) = cs"
  by (induction cs rule: join_slash.induct) (auto simp: split_slash_one split_slash_append)

lemma split_join_append:
  "cs \<noteq> [] \<Longrightarrow> \<forall>c \<in> set cs. 47 \<notin> set c \<Longrightarrow> split_slash (join_slash cs @ 47 # p) = cs @ split_slash p"
  by (induction cs rule: join_slash.induct) (auto simp: split_slash_append)

lemma rsplit_None: "rsplit_slash p = None \<Longrightarrow> split_slash p = [p]"
  by (induction p) (auto split: option.splits if_splits)

lemma rsplit_Some: "rsplit_slash p = Some (a, b) \<Longrightarrow> split_slash p = split_slash a @ [b]"
proof (induction p arbitrary: a)
  case (Cons c p)
  show ?case
  proof (cases "rsplit_slash p")
    case None
    then show ?thesis using Cons.prems rsplit_None [OF None] by (auto split: if_splits)
  next
    case (Some q)
    obtain a' where a': "rsplit_slash p = Some (a', b)" "a = c # a'"
      using Cons.prems Some by (cases q) auto
    show ?thesis using Cons.IH [OF a'(1)] a'(2) by (cases "split_slash a'") auto
  qed
qed simp

lemma path_keys:
  assumes "[] \<notin> set (split_slash p)"
  shows "dir_keys p @ [leaf_key p] = map name_bytes (split_slash p)"
proof (cases "rsplit_slash p")
  case None
  then show ?thesis using rsplit_None [OF None] by (simp add: dir_keys_def leaf_key_def)
next
  case (Some q)
  obtain a b where q: "q = (a, b)" by (cases q)
  note s = rsplit_Some [OF Some [unfolded q]]
  have "a \<noteq> []" using assms s by auto
  then show ?thesis using Some q s by (simp add: dir_keys_def leaf_key_def)
qed

lemma name_bytes_inj:
  assumes "name_bytes a = name_bytes b" "length a \<le> 16" "length b \<le> 16" "0 \<notin> set a" "0 \<notin> set b"
  shows "a = b"
proof -
  have "takeWhile (\<lambda>x. x \<noteq> 0) (name_bytes c) = c" if "length c \<le> 16" "0 \<notin> set c" for c
  proof -
    have "takeWhile (\<lambda>x. x \<noteq> 0) (c @ replicate n 0) = c" for n
      using that(2) by (subst takeWhile_append2) (auto simp: takeWhile_eq_Nil_iff)
    then show ?thesis using that(1) by (simp add: name_bytes_def Let_def)
  qed
  then show ?thesis using assms by metis
qed

lemma keys_inj:
  "map name_bytes cs = map name_bytes ds \<Longrightarrow> \<forall>c \<in> set cs. length c \<le> 16 \<and> 0 \<notin> set c \<Longrightarrow>
    \<forall>d \<in> set ds. length d \<le> 16 \<and> 0 \<notin> set d \<Longrightarrow> cs = ds"
proof (induction cs arbitrary: ds)
  case (Cons c cs)
  obtain e es where ds: "ds = e # es" using Cons.prems(1) by (cases ds) auto
  have "c = e" by (rule name_bytes_inj) (use Cons.prems ds in auto)
  then show ?case using Cons ds by auto
qed simp

section \<open>Directories that stay\<close>

lemma dir_at_persists:
  "dir_at m ds = Some t \<Longrightarrow> dir_at m ks = Some u \<Longrightarrow> (\<forall>m'. u l = Some (Dir m') \<longrightarrow> m' = Map.empty) \<Longrightarrow>
    ds \<noteq> ks @ [l] \<Longrightarrow> \<exists>t'. dir_at (upd_at m ks (\<lambda>u. u(l := v))) ds = Some t'"
proof (induction ds arbitrary: m ks)
  case (Cons c ds)
  obtain m1 where m1: "m c = Some (Dir m1)" "dir_at m1 ds = Some t"
    using Cons.prems(1) by (auto split: option.splits node.splits)
  show ?case
  proof (cases ks)
    case Nil
    have "c \<noteq> l"
    proof
      assume "c = l"
      then have "m1 = Map.empty" using Cons.prems(2,3) m1 Nil by auto
      then show False using m1(2) Cons.prems(4) Nil \<open>c = l\<close> by (cases ds) auto
    qed
    with Nil m1 show ?thesis by simp
  next
    case ks: (Cons k ks')
    then obtain m2 where m2: "m k = Some (Dir m2)" "dir_at m2 ks' = Some u"
      using Cons.prems(2) by (auto split: option.splits node.splits)
    show ?thesis
    proof (cases "k = c")
      case True
      with m1 m2 have "m2 = m1" by simp
      then have "\<exists>t'. dir_at (upd_at m1 ks' (\<lambda>u. u(l := v))) ds = Some t'"
        by (intro Cons.IH [OF m1(2)]) (use m2 Cons.prems(3,4) True ks in auto)
      then show ?thesis using True m2 ks \<open>m2 = m1\<close> by (simp add: fun_upd_def)
    next
      case False
      with m1 m2 ks show ?thesis by simp
    qed
  qed
qed simp

text \<open>Every directory but the one named by the path is still there.\<close>

definition dirs_kept :: "dirmap \<Rightarrow> dirmap \<Rightarrow> bytes list \<Rightarrow> bool" where
  "dirs_kept m m' k \<longleftrightarrow> (\<forall>ds. ds \<noteq> k \<longrightarrow> dir_at m ds \<noteq> None \<longrightarrow> dir_at m' ds \<noteq> None)"

lemma dirs_kept_set:
  assumes "dir_at m (dir_keys p) = Some u" "\<forall>m'. u (leaf_key p) = Some (Dir m') \<longrightarrow> m' = Map.empty"
  shows "dirs_kept m (abs_set m p v) (dir_keys p @ [leaf_key p])"
  using dir_at_persists [OF _ assms, where v = v] by (fastforce simp: dirs_kept_def abs_set_def)

text \<open>When the path names no directory at all, all of them are.\<close>

lemma dirs_kept_all:
  assumes "dirs_kept m m' k" "dir_at m k = None" "dir_at m ds \<noteq> None"
  shows "dir_at m' ds \<noteq> None"
  using assms by (metis dirs_kept_def)

lemma dir_at_snoc: "dir_at m (ks @ [l]) = (case dir_at m ks of Some u \<Rightarrow> (case u l of Some (Dir t) \<Rightarrow> Some t | _ \<Rightarrow> None) | None \<Rightarrow> None)"
  by (induction ks arbitrary: m) (auto split: option.splits node.splits)

lemma leaf_not_dir:
  assumes "dir_at m (dir_keys p) = Some u" "\<nexists>t. u (leaf_key p) = Some (Dir t)"
  shows "dir_at m (dir_keys p @ [leaf_key p]) = None"
  using assms by (auto simp: dir_at_snoc split: option.splits node.splits)

text \<open>Every operation but \<open>remove_dir\<close> keeps all directories; that one may lose the directory it names.\<close>

lemma write_keeps_dirs:
  assumes "fs_ok d" "write_file d p data = (r, d')" "dir_at (fs_tree d) ds \<noteq> None"
  shows "fs_ok d' \<and> dir_at (fs_tree d') ds \<noteq> None"
proof -
  note w = write_file_abs [OF assms(1,2)]
  have key: "dir_at (abs_set (fs_tree d) p v) ds \<noteq> None"
    if "abs_table (fs_tree d) p = Inr u" "\<nexists>t. u (leaf_key p) = Some (Dir t)" for u v
    using that assms(3) dirs_kept_all [OF dirs_kept_set leaf_not_dir, of "fs_tree d" p u u ds]
    by (auto simp: abs_table_Inr)
  show ?thesis
  proof (rule conjI)
    show "fs_ok d'" using w by blast
    consider "d' = d" | "same_except (fs_tree d) (fs_tree d') p" | "(r, fs_tree d') = abs_write_file (fs_tree d) p data"
      using w by blast
    then show "dir_at (fs_tree d') ds \<noteq> None"
    proof cases
      case 2
      then show ?thesis using assms(3) key
        by (auto simp: same_except_def abs_read_file_def split: sum.splits option.splits node.splits)
    next
      case 3
      then show ?thesis using assms(3) key
        by (auto simp: abs_write_file_def split: if_splits sum.splits option.splits node.splits)
    qed (use assms(3) in simp)
  qed
qed

lemma delete_keeps_dirs:
  assumes "fs_ok d" "delete_file d p = (r, d')" "dir_at (fs_tree d) ds \<noteq> None"
  shows "fs_ok d' \<and> dir_at (fs_tree d') ds \<noteq> None"
proof -
  have key: "dir_at (abs_set (fs_tree d) p v) ds \<noteq> None"
    if "abs_table (fs_tree d) p = Inr u" "\<nexists>t. u (leaf_key p) = Some (Dir t)" for u v
    using that assms(3) dirs_kept_all [OF dirs_kept_set leaf_not_dir, of "fs_tree d" p u u ds]
    by (auto simp: abs_table_Inr)
  show ?thesis using delete_file_abs [OF assms(1,2)] assms(3) key
    by (auto simp: abs_delete_file_def split: sum.splits option.splits node.splits)
qed

lemma mkdir_keeps_dirs:
  assumes "fs_ok d" "length (dir_keys p) \<le> 30" "make_dir d p = (r, d')" "dir_at (fs_tree d) ds \<noteq> None"
  shows "fs_ok d' \<and> dir_at (fs_tree d') ds \<noteq> None"
proof -
  have key: "dir_at (abs_set (fs_tree d) p v) ds \<noteq> None"
    if "abs_table (fs_tree d) p = Inr u" "u (leaf_key p) = None" for u v
    using that assms(4) dirs_kept_all [OF dirs_kept_set leaf_not_dir, of "fs_tree d" p u u ds]
    by (auto simp: abs_table_Inr)
  show ?thesis using make_dir_abs [OF assms(1,2,3)] assms(4) key
    by (auto simp: abs_make_dir_def split: sum.splits option.splits)
qed

lemma rmdir_keeps_dirs:
  assumes "fs_ok d" "remove_dir d p = (r, d')" "dir_at (fs_tree d) ds \<noteq> None" "ds \<noteq> dir_keys p @ [leaf_key p]"
  shows "fs_ok d' \<and> dir_at (fs_tree d') ds \<noteq> None"
proof -
  have key: "dir_at (abs_set (fs_tree d) p v) ds \<noteq> None"
    if "abs_table (fs_tree d) p = Inr u" "u (leaf_key p) = Some (Dir Map.empty)" for u v
    using that assms(3,4) dirs_kept_set [of "fs_tree d" p u v] by (auto simp: abs_table_Inr dirs_kept_def)
  show ?thesis using remove_dir_abs [OF assms(1,2)] assms(3) key
    by (auto simp: abs_remove_dir_def split: sum.splits option.splits node.splits if_splits)
qed

section \<open>Listing and entering\<close>

lemma list_dir_Inr:
  assumes "fs_ok d" "p \<noteq> []"
  shows "(\<exists>es. list_dir d (Some p) = Inr es) \<longleftrightarrow> (\<exists>u. abs_resolve (fs_tree d) (split_slash p) 0 = Inr u)"
proof -
  have wf: "wf_dir d 32 1" using assms(1) by (simp add: fs_ok_def)
  from resolve_from_abs [OF wf, of "split_slash p" 0] assms(2) show ?thesis
    by (auto simp: list_dir_def resolve_dir_lba_def fs_tree_def split: sum.splits)
qed

lemma list_root: "\<exists>es. list_dir d None = Inr es" "\<exists>es. list_dir d (Some []) = Inr es"
  by (simp_all add: list_dir_def resolve_dir_lba_def)

definition cwd_ok :: "cwd \<Rightarrow> disk \<Rightarrow> bool" where
  "cwd_ok cwd d \<longleftrightarrow> (\<forall>c \<in> set cwd. name_ok c) \<and> length cwd \<le> 32 \<and> dir_at (fs_tree d) (map name_bytes cwd) \<noteq> None"

text \<open>An argument without its leading slash; a plain one is made of proper names of at most 16 bytes.\<close>

definition bare :: "bytes \<Rightarrow> bytes" where
  "bare arg = (case strip_prefix [47] arg of Some r \<Rightarrow> r | None \<Rightarrow> arg)"

definition plain_arg :: "bytes \<Rightarrow> bool" where
  "plain_arg arg \<longleftrightarrow> list_all name_ok (split_slash (bare arg))"

lemma strip_slash: "strip_prefix [47] arg = Some r \<longleftrightarrow> arg = 47 # r"
  by (cases arg) (auto simp: strip_prefix_def)

lemma join_slash_Nil: "\<forall>c \<in> set cs. c \<noteq> [] \<Longrightarrow> join_slash cs = [] \<longleftrightarrow> cs = []"
  by (induction cs rule: join_slash.induct) auto

lemma resolve_split:
  assumes "\<forall>c \<in> set cwd. name_ok c"
  shows "split_slash (resolve_arg cwd arg) =
    (if strip_prefix [47] arg \<noteq> None \<or> cwd = [] then [] else cwd) @ split_slash (bare arg)"
proof -
  have j: "join_slash cwd = [] \<longleftrightarrow> cwd = []" "\<forall>c \<in> set cwd. 47 \<notin> set c"
    using assms join_slash_Nil [of cwd] by (auto simp: name_ok_def)
  show ?thesis using j split_join_append [of cwd arg]
    by (auto simp: resolve_arg_def bare_def Let_def split: option.splits)
qed

lemma resolve_names:
  assumes "\<forall>c \<in> set cwd. name_ok c" "plain_arg arg"
  shows "\<forall>c \<in> set (split_slash (resolve_arg cwd arg)). name_ok c" "resolve_arg cwd arg \<noteq> []"
proof -
  show names: "\<forall>c \<in> set (split_slash (resolve_arg cwd arg)). name_ok c"
    using resolve_split [OF assms(1), of arg] assms by (auto simp: plain_arg_def list_all_iff)
  show "resolve_arg cwd arg \<noteq> []" using names by (auto simp: name_ok_def)
qed

definition plain_line :: "cwd \<Rightarrow> bytes \<Rightarrow> bool" where
  "plain_line cwd cmd \<longleftrightarrow>
     (\<forall>arg. strip_prefix (bytes_of ''cd '') cmd = Some arg \<longrightarrow>
        trim arg \<in> {[], [47], bytes_of ''..''} \<or> plain_arg (trim arg)) \<and>
     (\<forall>arg. strip_prefix (bytes_of ''rmdir '') cmd = Some arg \<longrightarrow> plain_arg (trim arg)) \<and>
     (\<forall>arg. strip_prefix (bytes_of ''mkdir '') cmd = Some arg \<longrightarrow> length (dir_keys (resolve_arg cwd (trim arg))) \<le> 30)"

lemma dir_at_butlast: "dir_at m ds \<noteq> None \<Longrightarrow> dir_at m (butlast ds) \<noteq> None"
  by (induction ds arbitrary: m) (auto split: option.splits node.splits)

lemma change_dir_ok:
  assumes "fs_ok d" "cwd_ok cwd d" "trim arg \<in> {[], [47], bytes_of ''..''} \<or> plain_arg (trim arg)"
    "change_dir arg cwd d = (a, cwd')"
  shows "cwd_ok cwd' d"
proof (cases "trim arg \<in> {[], [47], bytes_of ''..''}")
  case True
  have "cwd_ok (butlast cwd) d" using assms(2) dir_at_butlast [of "fs_tree d" "map name_bytes cwd"]
    by (auto simp: cwd_ok_def map_butlast dest: in_set_butlastD)
  moreover have "cwd_ok [] d" by (simp add: cwd_ok_def)
  ultimately show ?thesis using True assms(2,4) by (auto simp: change_dir_def Let_def split: if_splits)
next
  case False
  then have pl: "plain_arg (trim arg)" using assms(3) by simp
  let ?r = "resolve_arg cwd (trim arg)"
  have c: "\<forall>c \<in> set cwd. name_ok c" using assms(2) by (simp add: cwd_ok_def)
  note n = resolve_names [OF c pl]
  have ch: "(a, cwd') = (case list_dir d (Some ?r) of Inr _ \<Rightarrow> (Silent, set_cwd ?r) | Inl e \<Rightarrow> (Fs_failed e, cwd))"
    using assms(4) False n(2) by (auto simp: change_dir_def Let_def)
  show ?thesis
  proof (cases "list_dir d (Some ?r)")
    case (Inl e)
    then show ?thesis using ch assms(2) by simp
  next
    case (Inr es)
    then obtain u where "abs_resolve (fs_tree d) (split_slash ?r) 0 = Inr u"
      using list_dir_Inr [OF assms(1) n(2)] by blast
    then have "dir_at (fs_tree d) (map name_bytes (split_slash ?r)) = Some u" "length (split_slash ?r) \<le> 32"
      by (auto simp: abs_resolve_Inr)
    then show ?thesis using ch Inr n by (simp add: cwd_ok_def set_cwd_def)
  qed
qed

lemma rmdir_ok:
  assumes "fs_ok d" "cwd_ok cwd d" "plain_arg (trim arg)" "rmdir_command arg cwd d = (a, d')"
  shows "fs_ok d' \<and> cwd_ok cwd d'"
proof (cases "resolve_arg cwd (trim arg) = join_slash cwd")
  case True
  then show ?thesis using assms by (simp add: rmdir_command_def)
next
  case False
  let ?r = "resolve_arg cwd (trim arg)"
  have c: "\<forall>c \<in> set cwd. name_ok c" "dir_at (fs_tree d) (map name_bytes cwd) \<noteq> None"
    using assms(2) by (simp_all add: cwd_ok_def)
  note n = resolve_names [OF c(1) assms(3)]
  obtain r where r: "remove_dir d ?r = (r, d')"
    using assms(4) False by (auto simp: rmdir_command_def fs_unit_def split: prod.splits sum.splits)
  have "map name_bytes cwd \<noteq> dir_keys ?r @ [leaf_key ?r]"
  proof
    assume "map name_bytes cwd = dir_keys ?r @ [leaf_key ?r]"
    then have "map name_bytes cwd = map name_bytes (split_slash ?r)"
      using path_keys [of ?r] n(1) by (auto simp: name_ok_def)
    then have eq: "cwd = split_slash ?r" by (rule keys_inj) (use c n in \<open>auto simp: name_ok_def\<close>)
    have "join_slash (split_slash p) = p" for p
    proof (induction p)
      case (Cons b p)
      then show ?case by (cases "split_slash p" rule: join_slash.cases) auto
    qed simp
    with eq False show False by metis
  qed
  from rmdir_keeps_dirs [OF assms(1) r c(2) this] show ?thesis using assms(2) by (simp add: cwd_ok_def)
qed

lemma fs_command_ok:
  assumes "fs_ok d" "cwd_ok cwd d" "plain_line cwd cmd" "fs_command cmd cwd d = Some (a, cwd', d')"
  shows "fs_ok d' \<and> cwd_ok cwd' d'"
proof -
  have keep: "cwd_ok cwd e" if "dir_at (fs_tree e) (map name_bytes cwd) \<noteq> None" for e
    using that assms(2) by (simp add: cwd_ok_def)
  have at: "dir_at (fs_tree d) (map name_bytes cwd) \<noteq> None" using assms(2) by (simp add: cwd_ok_def)
  note pl = assms(3) [unfolded plain_line_def]
  have fu: "\<exists>r'. r = (r', e)" if "fs_unit x r = (y, e)" for r x y e
    using that by (auto simp: fs_unit_def split: prod.splits sum.splits)
  have wr: "fs_ok e \<and> cwd_ok cwd e" if "write_command rest cwd d = (b, e)" for rest b e
    using that assms(1,2) write_keeps_dirs [OF assms(1) _ at] keep
    by (auto simp: write_command_def split: option.splits prod.splits dest!: fu)
  have del: "fs_ok e \<and> cwd_ok cwd e" if "fs_unit x (delete_file d p) = (b, e)" for x p b e
    using fu [OF that] delete_keeps_dirs [OF assms(1) _ at] keep by auto
  have mk: "fs_ok e \<and> cwd_ok cwd e" if "fs_unit x (make_dir d p) = (b, e)" "length (dir_keys p) \<le> 30" for x p b e
    using fu [OF that(1)] mkdir_keeps_dirs [OF assms(1) that(2) _ at] keep by auto
  show ?thesis
  proof (cases "strip_prefix (bytes_of ''cd '') cmd")
    case (Some arg)
    then show ?thesis using assms(1,2,4) pl change_dir_ok [OF assms(1,2)]
      by (auto simp: fs_command_def cwd_ok_def split: if_splits prod.splits)
  next
    case None
    then show ?thesis using assms(1,2,4) pl wr del mk rmdir_ok [OF assms(1,2)]
      by (auto simp: fs_command_def cwd_ok_def [of "[]"] split: if_splits option.splits prod.splits)
  qed
qed

text \<open>Sessions: file commands one after the other.\<close>

inductive file_session :: "cwd \<Rightarrow> disk \<Rightarrow> cwd \<Rightarrow> disk \<Rightarrow> bool" where
  start: "file_session c d c d"
| command: "file_session c d c1 d1 \<Longrightarrow> plain_line c1 cmd \<Longrightarrow> fs_command cmd c1 d1 = Some (a, c2, d2) \<Longrightarrow>
    file_session c d c2 d2"

lemma file_session_ok: "file_session c d c' d' \<Longrightarrow> fs_ok d \<Longrightarrow> cwd_ok c d \<Longrightarrow> fs_ok d' \<and> cwd_ok c' d'"
  by (induction rule: file_session.induct) (auto dest: fs_command_ok)

lemma ls_works:
  assumes "fs_ok d" "cwd_ok cwd d"
  shows "\<exists>es. fs_command (bytes_of ''ls'') cwd d = Some (Listing es, cwd, d)"
proof (cases "cwd = []")
  case True
  then show ?thesis using list_root(1) [of d] by (auto simp: fs_command_def print_listing_def)
next
  case False
  have ok: "\<forall>c \<in> set cwd. name_ok c" "length cwd \<le> 32" "dir_at (fs_tree d) (map name_bytes cwd) \<noteq> None"
    using assms(2) by (simp_all add: cwd_ok_def)
  have j: "join_slash cwd \<noteq> []" "split_slash (join_slash cwd) = cwd"
    using join_slash_Nil [of cwd] split_join [OF False] ok(1) False by (auto simp: name_ok_def)
  have "\<exists>u. abs_resolve (fs_tree d) cwd 0 = Inr u"
    using ok by (auto simp: abs_resolve_Inr name_ok_def)
  then obtain es where "list_dir d (Some (join_slash cwd)) = Inr es"
    using list_dir_Inr [OF assms(1) j(1)] j(2) by auto
  then show ?thesis using j(1) by (simp add: fs_command_def print_listing_def)
qed

text \<open>
  C25. The current directory exists: from the root of a sound disk, after any session of file commands
  (failed ones included) whose \<open>cd\<close> and \<open>rmdir\<close> arguments are proper names of at most sixteen bytes and
  whose \<open>mkdir\<close> has at most 30 directories above the new one, the disk is sound and \<open>ls\<close> lists the
  current directory.
\<close>

theorem cwd_stays_valid:
  assumes "fs_ok d" "file_session [] d cwd d'"
  shows "fs_ok d' \<and> (\<exists>es. fs_command (bytes_of ''ls'') cwd d' = Some (Listing es, cwd, d'))"
  using file_session_ok [OF assms(2,1)] ls_works [of d' cwd] by (auto simp: cwd_ok_def)

lemma blank_mkdir:
  assumes "rsplit_slash nm = None"
  shows "fst (make_dir blank_disk nm) = Inr ()"
proof -
  have res: "resolve_table blank_disk nm = Inr (1, nm)" by (simp add: resolve_table_def assms(1))
  have free: "find_free_span [] (Suc 0) = Inr (Some 0)"
    by (simp add: find_free_span_def upt_rec)
  have none: "\<not> list_ex (used_named n) (replicate 8 empty_entry)" for n
    by (simp add: list_ex_iff used_named_def)
  have w: "\<forall>l. disk_writable blank_disk l" by (simp add: blank_disk_def disk_writable_def)
  obtain r d1 where s: "save_dir_at blank_disk 2 (replicate 8 empty_entry) = (r, d1)" by fastforce
  have r: "r = Inr ()" using fs_dev.wr_succeeds [of blank_disk 2] w s unfolding save_dir_at_def by (metis fst_conv)
  have "disk_writable d1 l" for l
    using fs_dev.writable_wr [of blank_disk 2] w s unfolding save_dir_at_def by (metis snd_conv)
  then have "fst (save_dir_at d1 l t) = Inr ()" for l t
    unfolding save_dir_at_def by (rule fs_dev.wr_succeeds)
  then show ?thesis using r s
    by (simp add: make_dir_def res blank_table blank_unused none collect_occupied_def blank_occupied free Let_def
        del: fs_dev.wr_succeeds)
qed

lemma demo_mkdir:
  obtains d1 where "make_dir blank_disk [110] = (Inr (), d1)" "fs_ok d1"
    "fs_tree d1 = [110 # replicate 15 0 \<mapsto> Dir Map.empty]" "fs_command (bytes_of ''mkdir n'') [] blank_disk =
       Some (Finished (bytes_of ''mkdir''), [], d1)"
proof -
  obtain d1 where d1: "make_dir blank_disk [110] = (Inr (), d1)"
    using blank_mkdir [of "[110]"] by (metis demo_path_simps(1) prod.collapse)
  have "fs_ok d1 \<and> fs_tree d1 = [110 # replicate 15 0 \<mapsto> Dir Map.empty]"
    using make_dir_abs [OF blank_ok _ d1] by (auto simp: blank_tree abs_make_dir_def abs_table_def abs_set_def)
  moreover have "fs_command (bytes_of ''mkdir n'') [] blank_disk = Some (Finished (bytes_of ''mkdir''), [], d1)"
    by (simp add: fs_command_def strip_prefix_def bytes_of_def trim_def is_space_def resolve_arg_def fs_unit_def d1)
  ultimately show thesis using d1 by (intro that [of d1]) auto
qed

theorem cwd_stays_valid_witness:
  "\<exists>d'. file_session [] blank_disk [[110]] d' \<and> fs_ok d' \<and>
     (\<exists>es. fs_command (bytes_of ''ls'') [[110]] d' = Some (Listing es, [[110]], d'))"
proof -
  obtain d1 where d1: "make_dir blank_disk [110] = (Inr (), d1)" "fs_ok d1"
    "fs_tree d1 = [110 # replicate 15 0 \<mapsto> Dir Map.empty]"
    "fs_command (bytes_of ''mkdir n'') [] blank_disk = Some (Finished (bytes_of ''mkdir''), [], d1)"
    using demo_mkdir by metis
  have sp: "split_slash [110] = [[110]]" "name_bytes [110] = 110 # replicate 15 0"
    by (simp_all add: name_bytes_def)
  have "\<exists>u. abs_resolve (fs_tree d1) (split_slash [110]) 0 = Inr u" by (simp add: d1(3) sp)
  then obtain es where "list_dir d1 (Some [110]) = Inr es" using list_dir_Inr [OF d1(2), of "[110]"] by auto
  then have cd: "fs_command (bytes_of ''cd n'') [] d1 = Some (Silent, [[110]], d1)"
    by (simp add: fs_command_def strip_prefix_def bytes_of_def trim_def is_space_def resolve_arg_def
        change_dir_def set_cwd_def Let_def sp)
  have "plain_line [] (bytes_of ''mkdir n'')" "plain_line [] (bytes_of ''cd n'')"
    by (simp_all add: plain_line_def strip_prefix_def bytes_of_def trim_def is_space_def resolve_arg_def
        plain_arg_def bare_def name_ok_def)
  then have s: "file_session [] blank_disk [[110]] d1"
    using file_session.start file_session.command d1(4) cd by metis
  from cwd_stays_valid [OF blank_ok s] s show ?thesis by blast
qed

lemma abs_resolve_error: "abs_resolve m cs k \<noteq> Inl DiskError"
  by (induction m cs k rule: abs_resolve.induct) (auto split: option.splits node.splits)

lemma remove_dir_writable:
  assumes "fs_ok d" "\<forall>l. disk_writable d l"
  shows "fst (remove_dir d p) \<noteq> Inl DiskError"
proof -
  have s: "fst (save_dir_at d l t) = Inr ()" for l t
    unfolding save_dir_at_def by (rule fs_dev.wr_succeeds) (use assms(2) in blast)
  have "resolve_table d p \<noteq> Inl DiskError"
    using resolve_table_abs(1) [OF assms(1), of p] abs_resolve_error
    by (fastforce simp: abs_table_def split: option.splits if_splits)
  then show ?thesis using s by (auto simp: remove_dir_def Let_def split: sum.splits option.splits)
qed

lemma save_dir_faults: "save_dir_at d l t = (r, d') \<Longrightarrow> write_fails d' = write_fails d"
  by (auto simp: save_dir_at_def fs_write_def split: prod.splits sum.splits dest!: write_sector_faults)

lemma make_dir_faults: "make_dir d p = (r, d') \<Longrightarrow> write_fails d' = write_fails d"
  by (auto simp: make_dir_def Let_def split: sum.splits option.splits if_splits prod.splits dest!: save_dir_faults)

text \<open>
  The shell can remove the directory it is in: the guard of \<open>rmdir\<close> compares path strings, and the
  filesystem takes an empty first component for the root, so that in an empty directory \<open>c\<close> of the
  root \<open>rmdir //c\<close> succeeds unless the drive fails, and the next \<open>ls\<close> finds no such directory.
\<close>

theorem rmdir_removes_cwd:
  assumes "fs_ok d" "fs_tree d (name_bytes c) = Some (Dir Map.empty)" "name_ok c" "\<not> is_space (last c)"
    "fst (remove_dir d (47 # c)) \<noteq> Inl DiskError"
  shows "\<exists>d'. fs_command (bytes_of ''rmdir //'' @ c) [c] d = Some (Finished (bytes_of ''rmdir''), [c], d') \<and>
    fs_command (bytes_of ''ls'') [c] d' = Some (Fs_failed NoSuchDirectory, [c], d')"
proof -
  have c: "c \<noteq> []" "47 \<notin> set c" using assms(3) by (auto simp: name_ok_def)
  obtain r d' where rm: "remove_dir d (47 # c) = (r, d')" by fastforce
  have rs: "rsplit_slash c = None" using c(2) by (induction c) auto
  then have k: "rsplit_slash (47 # c) = Some ([], c)" by simp
  have tab: "abs_table (fs_tree d) (47 # c) = Inr (fs_tree d)" "leaf_key (47 # c) = name_bytes c" "dir_keys (47 # c) = []"
    using k c(1) by (simp_all add: abs_table_def leaf_key_def dir_keys_def)
  have "fs_ok d' \<and> r = Inr () \<and> fs_tree d' = (fs_tree d)(name_bytes c := None)"
    using remove_dir_abs [OF assms(1) rm] assms(5) rm tab assms(2)
    by (simp add: abs_remove_dir_def abs_set_def fun_upd_def)
  then have d': "fs_ok d'" "r = Inr ()" "fs_tree d' (name_bytes c) = None" by auto
  have tr: "trim (47 # 47 # c) = 47 # 47 # c"
    using c(1) assms(4) by (cases c rule: rev_cases) (auto simp: trim_def is_space_def)
  have "fs_command (bytes_of ''rmdir //'' @ c) [c] d = Some (Finished (bytes_of ''rmdir''), [c], d')"
    using c rm d'(2) by (auto simp: fs_command_def strip_prefix_def bytes_of_def tr resolve_arg_def rmdir_command_def fs_unit_def)
  moreover have "list_dir d' (Some c) = Inl NoSuchDirectory"
  proof -
    have "resolve_from d' [c] 0 1 = Inl NoSuchDirectory"
    proof -
      have "abs_resolve (fs_tree d') [c] 0 = Inl NoSuchDirectory" using c(1) d'(3) by simp
      moreover have "wf_dir d' 32 1" using d'(1) by (simp add: fs_ok_def)
      ultimately show ?thesis using resolve_from_abs [of d' 32 1 "[c]" 0]
        by (auto simp: fs_tree_def split: sum.splits)
    qed
    then show ?thesis using c by (simp add: list_dir_def resolve_dir_lba_def split_slash_one)
  qed
  then have "fs_command (bytes_of ''ls'') [c] d' = Some (Fs_failed NoSuchDirectory, [c], d')"
    using c(1) by (simp add: fs_command_def print_listing_def)
  ultimately show ?thesis by blast
qed

theorem rmdir_removes_cwd_witness:
  "\<exists>d d'. fs_command (bytes_of ''rmdir //'' @ [110]) [[110]] d = Some (Finished (bytes_of ''rmdir''), [[110]], d') \<and>
    fs_command (bytes_of ''ls'') [[110]] d' = Some (Fs_failed NoSuchDirectory, [[110]], d')"
proof -
  obtain d1 where d1: "make_dir blank_disk [110] = (Inr (), d1)" "fs_ok d1"
    "fs_tree d1 = [110 # replicate 15 0 \<mapsto> Dir Map.empty]"
    using demo_mkdir by metis
  have "\<forall>l. disk_writable d1 l"
    using make_dir_faults [OF d1(1)] by (simp add: disk_writable_def blank_disk_def)
  note rw = remove_dir_writable [OF d1(2) this]
  have "fs_tree d1 (name_bytes [110]) = Some (Dir Map.empty)" by (simp add: d1(3) name_bytes_def)
  from rmdir_removes_cwd [OF d1(2) this _ _ rw] show ?thesis
    by (fastforce simp: name_ok_def is_space_def)
qed

section \<open>Typing commands\<close>

definition screen_ready :: "font \<Rightarrow> nat \<Rightarrow> 'h world \<Rightarrow> bool" where
  "screen_ready f B w \<longleftrightarrow> (\<forall>c. screen (w_pointer w) = Some c \<longrightarrow> text_ok f c \<and> y_pos c \<le> B)"

lemma screen_ready_mono: "screen_ready f A w \<Longrightarrow> A \<le> B \<Longrightarrow> screen_ready f B w"
  by (auto simp: screen_ready_def intro: le_trans)

lemma print_ready:
  assumes "screen_ready (e_font E) B w" "B + 22 * length s < 2 ^ 62"
  obtains m where "print_out E s w = Some (w\<lparr>w_pointer := m\<rparr>)"
    "screen_ready (e_font E) (B + 22 * length s) (w\<lparr>w_pointer := m\<rparr>)"
proof (cases "screen (w_pointer w)")
  case None
  then show ?thesis using that [of "w_pointer w"]
    by (simp add: print_out_def on_console_def on_screen_do_def screen_ready_def)
next
  case (Some c)
  then have c: "text_ok (e_font E) c" "y_pos c \<le> B" using assms(1) by (auto simp: screen_ready_def)
  have "y_pos c + 22 * length s < 2 ^ 62" using c(2) assms(2) by simp
  from str_ok [OF c(1) this] obtain c' where "write_str (e_font E) c s = Some c'" "text_ok (e_font E) c'"
    "y_pos c' \<le> y_pos c + 22 * length s" by metis
  then show ?thesis using Some c(2) that [of "(w_pointer w)\<lparr>screen := Some c'\<rparr>"]
    by (simp add: print_out_def on_console_def on_screen_do_def screen_ready_def)
qed

lemma on_keys_append:
  "on_keys E (s @ t) w = do { (as, w) \<leftarrow> on_keys E s w; (bs, w) \<leftarrow> on_keys E t w; Some (as @ bs, w) }"
  by (induction E s w rule: on_keys.induct) (auto split: bind_splits option.splits prod.splits)

lemma on_keys_then:
  "on_keys E s w = Some (as, v) \<Longrightarrow> on_keys E t v = Some (bs, u) \<Longrightarrow> on_keys E (s @ t) w = Some (as @ bs, u)"
  by (simp add: on_keys_append)

lemma plain_key:
  assumes "32 \<le> ch" "ch < 127"
  shows "on_key E ch w = map_option (Pair None)
    (print_out E [unat ch] (w\<lparr>w_typed := w_typed w @ [ch], w_net := on_key_stimulus (unat ch) (w_net w), w_line := w_line w @ [ch]\<rparr>))"
proof -
  have "ch \<noteq> 10" "ch \<noteq> 13" "ch \<noteq> 8" "ch \<noteq> 127" "\<not> ch < 32" using assms by auto
  then show ?thesis by (simp add: on_key_def on_char_def is_control_def)
qed

lemma text_typed:
  assumes "\<forall>ch \<in> set s. 32 \<le> ch \<and> ch < 127" "screen_ready (e_font E) B w" "B + 22 * length s < 2 ^ 62"
  shows "\<exists>n m y. on_keys E s w = Some ([], w\<lparr>w_line := w_line w @ s, w_net := n, w_typed := y, w_pointer := m\<rparr>) \<and>
    screen_ready (e_font E) (B + 22 * length s) (w\<lparr>w_line := w_line w @ s, w_net := n, w_typed := y, w_pointer := m\<rparr>)"
  using assms
proof (induction s arbitrary: w B)
  case Nil
  then show ?case by (intro exI [of _ "w_net w"] exI [of _ "w_pointer w"] exI [of _ "w_typed w"]) simp
next
  case (Cons ch s)
  let ?v = "w\<lparr>w_typed := w_typed w @ [ch], w_net := on_key_stimulus (unat ch) (w_net w), w_line := w_line w @ [ch]\<rparr>"
  have v: "screen_ready (e_font E) B ?v" using Cons.prems(2) by (simp add: screen_ready_def)
  have "B + 22 * length [unat ch] < 2 ^ 62" using Cons.prems(3) by simp
  from print_ready [OF v this] obtain m where m: "print_out E [unat ch] ?v = Some (?v\<lparr>w_pointer := m\<rparr>)"
    "screen_ready (e_font E) (B + 22) (?v\<lparr>w_pointer := m\<rparr>)" by auto
  have "\<forall>b \<in> set s. 32 \<le> b \<and> b < 127" "B + 22 + 22 * length s < 2 ^ 62" using Cons.prems(1,3) by auto
  from Cons.IH [OF this(1) m(2) this(2)] obtain n m' y where
    "on_keys E s (?v\<lparr>w_pointer := m\<rparr>) =
       Some ([], ?v\<lparr>w_line := w_line w @ ch # s, w_net := n, w_typed := y, w_pointer := m'\<rparr>)"
    "screen_ready (e_font E) (B + 22 + 22 * length s) (?v\<lparr>w_line := w_line w @ ch # s, w_net := n, w_typed := y, w_pointer := m'\<rparr>)"
    by auto
  then show ?case using plain_key [of ch E w] Cons.prems(1) m(1)
    by (intro exI [of _ n] exI [of _ m'] exI [of _ y]) (simp add: add.assoc add.commute)
qed

lemma enter_typed:
  assumes run: "\<And>v. w_kern v = w_kern w \<Longrightarrow> w_cwd v = w_cwd w \<Longrightarrow>
      run_command E (trim (w_line w)) v = Some (a, v\<lparr>w_kern := k\<rparr>)"
    and scr: "screen_ready (e_font E) B w" "B + 44 * (2 ^ 32 + 1) < 2 ^ 62"
    and len: "\<And>v. length (e_wording E v a) \<le> 2 ^ 32" "length (prompt_string (w_cwd w)) \<le> 2 ^ 32"
  shows "\<exists>n m y. on_keys E [10] w = Some ([a], w\<lparr>w_line := [], w_net := n, w_typed := y, w_pointer := m, w_kern := k\<rparr>) \<and>
    screen_ready (e_font E) (B + 44 * (2 ^ 32 + 1)) (w\<lparr>w_line := [], w_net := n, w_typed := y, w_pointer := m, w_kern := k\<rparr>)"
proof -
  let ?n = "on_key_stimulus 10 (w_net w)"
  let ?y = "w_typed w @ [10]"
  let ?w = "w\<lparr>w_typed := ?y, w_net := ?n\<rparr>"
  have "screen_ready (e_font E) B ?w" "B + 22 * length [10 :: nat] < 2 ^ 62"
    using scr by (auto simp: screen_ready_def)
  from print_ready [OF this] obtain m1 where m1: "print_out E [10] ?w = Some (?w\<lparr>w_pointer := m1\<rparr>)"
    "screen_ready (e_font E) (B + 22) (?w\<lparr>w_pointer := m1\<rparr>)" by auto
  let ?v = "?w\<lparr>w_pointer := m1, w_line := [], w_kern := k\<rparr>"
  have r: "run_command E (trim (w_line w)) (?w\<lparr>w_pointer := m1, w_line := []\<rparr>) = Some (a, ?v)"
    using run [of "?w\<lparr>w_pointer := m1, w_line := []\<rparr>"] by simp
  let ?s = "e_wording E ?v a"
  have s: "length ?s \<le> 2 ^ 32" by (rule len(1))
  have "screen_ready (e_font E) (B + 22) ?v" "B + 22 + 22 * length ?s < 2 ^ 62"
    using m1(2) s scr(2) by (simp_all add: screen_ready_def)
  from print_ready [OF this] obtain m2 where m2: "print_out E ?s ?v = Some (?v\<lparr>w_pointer := m2\<rparr>)"
    "screen_ready (e_font E) (B + 22 + 22 * length ?s) (?v\<lparr>w_pointer := m2\<rparr>)" by auto
  let ?t = "map unat (prompt_string (w_cwd w))"
  have "B + 22 + 22 * length ?s + 22 * length ?t < 2 ^ 62" using len(2) s scr(2) by simp
  from print_ready [OF m2(2) this] obtain m3 where m3: "print_out E ?t (?v\<lparr>w_pointer := m2\<rparr>) = Some (?v\<lparr>w_pointer := m3\<rparr>)"
    "screen_ready (e_font E) (B + 22 + 22 * length ?s + 22 * length ?t) (?v\<lparr>w_pointer := m3\<rparr>)" by auto
  have "screen_ready (e_font E) (B + 44 * (2 ^ 32 + 1)) (?v\<lparr>w_pointer := m3\<rparr>)"
    by (rule screen_ready_mono [OF m3(2)]) (use len(2) s in simp)
  moreover have "on_keys E [10] w = Some ([a], ?v\<lparr>w_pointer := m3\<rparr>)"
    using m1(1) r m2(1) m3(1) by (simp add: on_key_def on_char_def show_prompt_def)
  ultimately show ?thesis by (intro exI [of _ ?n] exI [of _ m3] exI [of _ ?y]) (simp add: screen_ready_def)
qed

text \<open>A line with a blank in it is none of the commands without arguments.\<close>

lemma plain_none: "32 \<in> set cmd \<Longrightarrow> plain_command E cmd w = None"
proof -
  assume sp: "32 \<in> set cmd"
  have "cmd \<noteq> []" using sp by auto
  moreover have "cmd \<notin> set plain_reports" using sp by (auto simp: plain_reports_def bytes_of_def)
  moreover have "list_all (\<lambda>s. cmd \<noteq> bytes_of s) [''usertest'', ''tasks'', ''spawn'', ''train'', ''save'', ''date'',
      ''speakerstatus'', ''silence'', ''nicinfo'', ''sendpacket'', ''recvpacket'', ''draw'', ''stopdraw'',
      ''seedtestprog'', ''seedfdtest'', ''seedtestelf'', ''seedpipetest'', ''runfdtest'', ''runfork'', ''runsigsegv'',
      ''runsigkill'', ''clear'']"
    using sp by (auto simp: list_all_iff bytes_of_def)
  ultimately show ?thesis
    by (simp add: plain_command_def state_command_def device_command_def program_command_def Let_def)
qed

lemma drop_none: "xs = [] \<or> \<not> P (hd xs) \<Longrightarrow> dropWhile P xs = xs"
  by (cases xs) auto

lemma trim_same: "s \<noteq> [] \<Longrightarrow> \<not> is_space (hd s) \<Longrightarrow> \<not> is_space (last s) \<Longrightarrow> trim s = s"
  using drop_none [of s is_space] drop_none [of "rev s" is_space] by (simp add: trim_def hd_rev)

lemma split_once_first: "32 \<notin> set nm \<Longrightarrow> split_once 32 (nm @ 32 # text) = Some (nm, text)"
  by (induction nm) auto

lemma write_line:
  assumes "32 \<notin> set nm" "write_file (kdisk (w_kern v)) (resolve_arg (w_cwd v) nm) text = (Inr (), d)"
  shows "run_command E (bytes_of ''write '' @ nm @ 32 # text) v =
    Some (Wrote (length text) nm, v\<lparr>w_kern := (w_kern v)\<lparr>kdisk := d\<rparr>\<rparr>)"
  using assms by (simp add: run_command_def plain_none fs_command_def strip_prefix_def bytes_of_def write_command_def
      split_once_first fs_unit_def)

lemma read_line:
  assumes "trim nm = nm" "read_file (kdisk (w_kern v)) (resolve_arg (w_cwd v) nm) = Inr text" "utf8_valid text"
  shows "run_command E (bytes_of ''read '' @ nm) v = Some (Contents text, v)"
  using assms by (simp add: run_command_def plain_none fs_command_def strip_prefix_def bytes_of_def read_command_def
      utf8_lossy_valid)

text \<open>
  C14. What is typed is what is read: at a ready screen and an empty line, typing \<open>write NAME TEXT\<close> and
  Enter, then \<open>read NAME\<close> and Enter, answers that all of the text was written and then shows exactly
  the text, in whatever directory the shell is, if the name has no blanks, the text is printable and
  does not end in a blank (a line is trimmed), and the filesystem accepts the write.
\<close>

theorem shell_write_read:
  assumes "w_line w = []" "fs_ok (kdisk (w_kern w))"
    "write_file (kdisk (w_kern w)) (resolve_arg (w_cwd w) nm) text = (Inr (), d)"
    "nm \<noteq> []" "\<forall>b \<in> set nm. 32 < b \<and> b < 127" "text \<noteq> []" "\<forall>b \<in> set text. 32 \<le> b \<and> b < 127" "last text \<noteq> 32"
    "screen_ready (e_font E) (2 ^ 40) w" "length nm + length text \<le> 2 ^ 32"
    "\<forall>v a. length (e_wording E v a) \<le> 2 ^ 32" "length (prompt_string (w_cwd w)) \<le> 2 ^ 32"
  shows "\<exists>w'. on_keys E (bytes_of ''write '' @ nm @ [32] @ text @ [10] @ bytes_of ''read '' @ nm @ [10]) w =
      Some ([Wrote (length text) nm, Contents text], w') \<and> kdisk (w_kern w') = d \<and> w_cwd w' = w_cwd w"
proof -
  let ?k = "(w_kern w)\<lparr>kdisk := d\<rparr>"
  let ?s = "bytes_of ''write '' @ nm @ 32 # text" and ?t = "bytes_of ''read '' @ nm"
  have b: "\<forall>b \<in> set ?s. 32 \<le> b \<and> b < 127" "\<forall>b \<in> set ?t. 32 \<le> b \<and> b < 127" "32 \<notin> set nm"
    using assms(5,7) by (auto simp: bytes_of_def)
  have sp: "\<not> is_space b" if "32 \<le> b" "b \<noteq> 32" for b :: u8
    using that by (auto simp: is_space_def word_le_nat_alt)
  have nms: "\<not> is_space b" if "b \<in> set nm" for b by (rule sp) (use assms(5) that in auto)
  have last: "\<not> is_space (last text)" "\<not> is_space (last nm)" "\<not> is_space (hd nm)"
    using sp [of "last text"] assms(6-8) nms last_in_set [OF assms(4)] hd_in_set [OF assms(4)] by simp_all
  have tr: "trim ?s = ?s" "trim ?t = ?t" "trim nm = nm"
    by (rule trim_same; use last assms(4,6) in \<open>simp add: bytes_of_def is_space_def\<close>)+
  have len: "length ?s \<le> 2 ^ 32 + 7" "length ?t \<le> 2 ^ 32 + 5" using assms(10) by (simp_all add: bytes_of_def)
  have ok: "fs_ok d"
    and wr: "(Inr (), fs_tree d) = abs_write_file (fs_tree (kdisk (w_kern w))) (resolve_arg (w_cwd w) nm) text"
    using write_file_abs [OF assms(2,3)] by auto
  have rd: "read_file d (resolve_arg (w_cwd w) nm) = Inr text"
    using abs_write_same [OF wr [symmetric]] by (simp add: read_file_abs [OF ok])
  have u: "utf8_valid text" by (rule utf8_valid_ascii) (use assms(7) in \<open>auto intro: less_trans\<close>)
  obtain n1 m1 y1 where t1: "on_keys E ?s w = Some ([], w\<lparr>w_line := ?s, w_net := n1, w_typed := y1, w_pointer := m1\<rparr>)"
    "screen_ready (e_font E) (2 ^ 40 + 22 * length ?s) (w\<lparr>w_line := ?s, w_net := n1, w_typed := y1, w_pointer := m1\<rparr>)"
    using text_typed [OF b(1) assms(9)] len(1) assms(1) by auto
  let ?w1 = "w\<lparr>w_line := ?s, w_net := n1, w_typed := y1, w_pointer := m1\<rparr>"
  have "run_command E (trim (w_line ?w1)) v = Some (Wrote (length text) nm, v\<lparr>w_kern := ?k\<rparr>)"
    if "w_kern v = w_kern ?w1" "w_cwd v = w_cwd ?w1" for v
    using that tr(1) write_line [OF b(3), of v "text" d E] assms(3) by simp
  from enter_typed [OF this t1(2)] obtain n2 m2 y2 where
    e1: "on_keys E [10] ?w1 = Some ([Wrote (length text) nm], ?w1\<lparr>w_line := [], w_net := n2, w_typed := y2, w_pointer := m2, w_kern := ?k\<rparr>)"
    "screen_ready (e_font E) (2 ^ 40 + 22 * length ?s + 44 * (2 ^ 32 + 1))
       (?w1\<lparr>w_line := [], w_net := n2, w_typed := y2, w_pointer := m2, w_kern := ?k\<rparr>)"
    using assms(11,12) len(1) by auto
  let ?w2 = "?w1\<lparr>w_line := [], w_net := n2, w_typed := y2, w_pointer := m2, w_kern := ?k\<rparr>"
  obtain n3 m3 y3 where t2: "on_keys E ?t ?w2 = Some ([], ?w2\<lparr>w_line := ?t, w_net := n3, w_typed := y3, w_pointer := m3\<rparr>)"
    "screen_ready (e_font E) (2 ^ 40 + 22 * length ?s + 44 * (2 ^ 32 + 1) + 22 * length ?t)
       (?w2\<lparr>w_line := ?t, w_net := n3, w_typed := y3, w_pointer := m3\<rparr>)"
    using text_typed [OF b(2) e1(2)] len by auto
  let ?w3 = "?w2\<lparr>w_line := ?t, w_net := n3, w_typed := y3, w_pointer := m3\<rparr>"
  have "run_command E (trim (w_line ?w3)) v = Some (Contents text, v\<lparr>w_kern := ?k\<rparr>)"
    if "w_kern v = w_kern ?w3" "w_cwd v = w_cwd ?w3" for v
    using that tr(2) read_line [OF tr(3), of v "text" E] rd u by simp
  from enter_typed [OF this t2(2)] obtain n4 m4 y4 where
    e2: "on_keys E [10] ?w3 = Some ([Contents text], ?w3\<lparr>w_line := [], w_net := n4, w_typed := y4, w_pointer := m4, w_kern := ?k\<rparr>)"
    using assms(11,12) len by auto
  from on_keys_then [OF t1(1) on_keys_then [OF e1(1) on_keys_then [OF t2(1) e2]]]
  show ?thesis by simp
qed

definition demo_env :: "(nat \<times> nat) shell_env" where
  "demo_env = \<lparr>e_font = demo_font, e_libm = demo_libm, e_map_to = demo_mapper, e_user = (\<lambda>_ _ s. Some s),
     e_card = demo_card, e_stack_base = (\<lambda>_. Some 0), e_entries = (\<lambda>_. 0), e_test_elf = [], e_pipetest_elf = [],
     e_clock = (\<lambda>_ _. 0), e_patience = 10, e_gate = (\<lambda>_. 0), e_wording = (\<lambda>_ _. [33, 10])\<rparr>"

definition demo_world :: "(nat \<times> nat) world" where
  "demo_world = \<lparr>w_line = [], w_cwd = [], w_kern = demo_kernel, w_net = booted_net blank_disk,
     w_tasking = demo_tasking, w_pointer = mouse_boot (Some demo_console), w_nic = None, w_card = ((0, 0), boot_dma),
     w_user_mapped = True, w_ports = [], w_typed = []\<rparr>"

theorem shell_write_read_witness:
  "\<exists>w'. on_keys demo_env (bytes_of ''write n hi there'' @ [10] @ bytes_of ''read n'' @ [10]) demo_world =
     Some ([Wrote 8 [110], Contents (bytes_of ''hi there'')], w')"
proof -
  have "write_file (kdisk (w_kern demo_world)) (resolve_arg (w_cwd demo_world) [110]) (bytes_of ''hi there'')
      = (Inr (), snd (write_file blank_disk [110] (bytes_of ''hi there'')))"
    using run_blank [of "bytes_of ''hi there''" demo_path]
    by (simp add: demo_world_def demo_kernel_def resolve_arg_def strip_prefix_def bytes_of_def)
  from shell_write_read [OF _ _ this, of demo_env] show ?thesis
    by (fastforce simp: demo_world_def demo_env_def demo_kernel_def blank_ok screen_ready_def mouse_boot_def demo_text_ok
        demo_y prompt_string_def bytes_of_def)
qed

text \<open>
  A coordinate brings the kernel down: with a console whose lines are at least two pixels apart,
  the command \<open>pixel 0 18446744073709551615\<close> is parsed as two numbers and panics, since the offset of the
  pixel is computed before it is checked against the size of the framebuffer.
\<close>

theorem huge_pixel_panics:
  assumes "screen (w_pointer w) = Some c" "2 \<le> stride (info c)"
  shows "run_command E (bytes_of ''pixel 0 18446744073709551615'') w = None"
proof -
  let ?cmd = "bytes_of ''pixel 0 18446744073709551615''"
  have args: "parse_usize_args 2 (bytes_of ''0 18446744073709551615'') = Some [0, 2 ^ 64 - 1]"
    by (simp add: parse_usize_args_def split_whitespace_def is_space_def bytes_of_def parse_uint_def is_digit_def
        digits_value_def)
  have "(2 ^ 64 - 1) * stride (info c) \<ge> (2 ^ 64 - 1) * 2" using assms(2) by (intro mult_le_mono) simp_all
  then have "\<not> (2 ^ 64 - 1) * stride (info c) < 2 ^ 64" by simp
  then have px: "draw_pixel c 0 (2 ^ 64 - 1) True = None"
    by (simp add: draw_pixel_def write_pixel_def usz_def)
  have pl: "plain_command E ?cmd w = None" by (rule plain_none) (simp add: bytes_of_def)
  have "fs_command ?cmd (w_cwd w) (kdisk (w_kern w)) = None"
    by (simp add: fs_command_def strip_prefix_def bytes_of_def)
  moreover have "argument_command E ?cmd w = Some None"
  proof -
    have pre: "strip_prefix (bytes_of ''pixel '') ?cmd = Some (bytes_of ''0 18446744073709551615'')"
      by (simp add: strip_prefix_def bytes_of_def)
    have "argument_command E ?cmd w = draw_command ?cmd w"
      by (simp add: argument_command_def is_dsl_def strip_prefix_def bytes_of_def)
    also have "\<dots> = Some None"
      using px assms(1) by (simp add: draw_command_def pre args on_console_def on_screen_do_def)
    finally show ?thesis .
  qed
  ultimately show ?thesis using pl by (simp add: run_command_def)
qed

theorem huge_pixel_panics_witness:
  "run_command demo_env (bytes_of ''pixel 0 18446744073709551615'') demo_world = None"
  by (rule huge_pixel_panics [of _ demo_console])
    (simp_all add: demo_world_def mouse_boot_def demo_console_def console_new_def clear_def)

section \<open>The record of keys\<close>

text \<open>
  What is typed is never forgotten: \<open>TYPED\<close> holds every character since boot, and no command takes one out, so
  the string alone outgrows the heap of 100 KiB in the end.
\<close>

definition keeps_typed :: "'h world \<Rightarrow> ('a \<times> 'h world) option \<Rightarrow> bool" where
  "keeps_typed w r \<longleftrightarrow> (case r of None \<Rightarrow> True | Some (_, v) \<Rightarrow> w_typed v = w_typed w)"

lemma keeps_typed_Some [simp]: "keeps_typed w (Some (a, v)) = (w_typed v = w_typed w)"
  by (simp add: keeps_typed_def)

lemma on_console_typed: "on_console op w = Some v \<Longrightarrow> w_typed v = w_typed w"
  by (auto simp: on_console_def)

lemma command_typed:
  "state_command E cmd w = Some r \<Longrightarrow> keeps_typed w r" "device_command E cmd w = Some r \<Longrightarrow> keeps_typed w r"
  "program_command E cmd w = Some r \<Longrightarrow> keeps_typed w r" "draw_command cmd w = Some r \<Longrightarrow> keeps_typed w r"
proof -
  show "state_command E cmd w = Some r \<Longrightarrow> keeps_typed w r"
    by (auto simp: state_command_def keeps_typed_def Let_def split: if_splits prod.splits option.splits)
  show "device_command E cmd w = Some r \<Longrightarrow> keeps_typed w r"
    by (auto simp: device_command_def keeps_typed_def split: if_splits prod.splits option.splits)
  show "program_command E cmd w = Some r \<Longrightarrow> keeps_typed w r" "draw_command cmd w = Some r \<Longrightarrow> keeps_typed w r"
    by (auto simp: program_command_def draw_command_def run_answer_def seed_answer_def keeps_typed_def Let_def
        split: if_splits option.splits prod.splits dest: on_console_typed)
qed

lemma run_command_typed: "keeps_typed w (run_command E cmd w)"
proof -
  have "argument_command E cmd w = Some r \<Longrightarrow> keeps_typed w r" for r
    using command_typed(4) [of cmd w r]
    by (auto simp: argument_command_def run_answer_def load_answer_def keeps_typed_def Let_def
        split: if_splits option.splits prod.splits)
  moreover have "plain_command E cmd w = Some r \<Longrightarrow> keeps_typed w r" for r
    by (auto simp: plain_command_def split: if_splits option.splits intro: command_typed(1-3))
  ultimately show ?thesis by (auto simp: run_command_def split: option.split prod.split)
qed

lemma run_command_kept: "run_command E cmd w = Some (a, v) \<Longrightarrow> w_typed v = w_typed w"
  using run_command_typed [of w E cmd] by simp

lemma on_key_typed: "on_key E ch w = Some (a, v) \<Longrightarrow> w_typed v = w_typed w @ [ch]"
  by (auto simp: on_key_def on_char_def print_out_def show_prompt_def split: if_splits bind_splits
      dest!: on_console_typed run_command_kept)

lemma typed_is_kept: "on_keys E s w = Some (as, v) \<Longrightarrow> w_typed v = w_typed w @ s"
  by (induction E s w arbitrary: as rule: on_keys.induct) (auto split: bind_splits dest!: on_key_typed)

end
