(* ===== verification/System.thy ===== *)
theory System
  imports Shell Ps2
begin

text \<open>
  The kernel as a whole: what \<open>kernel_main\<close> (\<open>kernel/src/main.rs\<close>) sets up, in its order, with the
  heap mapping of \<open>kernel/src/allocator.rs\<close>, the user pages of \<open>usertest.rs\<close> and the self-tests, and
  the interrupt handlers of \<open>kernel/src/interrupts.rs\<close> that drive everything afterwards.  \<open>None\<close> is a
  panic, or a program that never comes back.
\<close>

section \<open>Fresh pages\<close>

datatype boot_error = Frames_exhausted | Map_refused

definition KERNEL_HEAP_START :: nat where "KERNEL_HEAP_START = 0x444444440000"
definition KERNEL_HEAP_SIZE :: nat where "KERNEL_HEAP_SIZE = 100 * 1024"

fun map_fresh :: "map_to_fn \<Rightarrow> nat \<Rightarrow> nat list \<Rightarrow> machine \<Rightarrow> (boot_error + nat list) \<times> machine" where
  "map_fresh mt pml4 [] m = (Inr [], m)"
| "map_fresh mt pml4 (page # pages) m =
     andThen (alloc_frame Frames_exhausted m) (\<lambda>f m.
     andThen (map_page mt Map_refused pml4 page f m) (\<lambda>_ m.
     andThen (map_fresh mt pml4 pages m) (\<lambda>fs m. (Inr (f # fs), m))))"

text \<open>\<open>Page::range_inclusive\<close> from the page of the first byte to the page of the last.\<close>

definition pages_between :: "nat \<Rightarrow> nat \<Rightarrow> nat list" where
  "pages_between a b = map (\<lambda>i. i * PAGE_SIZE) [a div PAGE_SIZE ..< b div PAGE_SIZE + 1]"

definition init_heap :: "map_to_fn \<Rightarrow> machine \<Rightarrow> (boot_error + nat list) \<times> machine" where
  "init_heap mt m =
     map_fresh mt (cr3 m) (pages_between KERNEL_HEAP_START (KERNEL_HEAP_START + KERNEL_HEAP_SIZE - 1)) m"

definition LEGACY_MESSAGE :: bytes where
  "LEGACY_MESSAGE = bytes_of ''hello from ring 3, CPL=3 confirmed -- real write() syscall''"

text \<open>\<open>usertest::setup\<close>: whether the pages are mapped, and the machine.\<close>

definition usertest_setup :: "map_to_fn \<Rightarrow> machine \<Rightarrow> bool \<times> machine" where
  "usertest_setup mt m =
     (case map_fresh mt (cr3 m) [page_of USER_CODE_ADDR, page_of USER_STACK_ADDR] m of
        (Inl _, m) \<Rightarrow> (False, m)
      | (Inr fs, m) \<Rightarrow>
          (True, m\<lparr>phys := (phys m)(hd fs := put_message (splice (phys m (hd fs)) 0 USER_PROGRAM) LEGACY_MESSAGE)\<rparr>))"

section \<open>Boot-time self-tests\<close>

definition SELF_TEST_PATH :: bytes where "SELF_TEST_PATH = bytes_of ''selftestwrite''"
definition SELF_TEST_CONTENT :: bytes where
  "SELF_TEST_CONTENT = bytes_of ''fs self-test disk write/read roundtrip''"

definition self_test_disk_write :: "disk \<Rightarrow> (fs_error + bool) \<times> disk" where
  "self_test_disk_write d =
     (case write_file d SELF_TEST_PATH SELF_TEST_CONTENT of
        (Inl e, d) \<Rightarrow> (Inl e, d)
      | (Inr _, d) \<Rightarrow> (case read_file d SELF_TEST_PATH of
          Inl e \<Rightarrow> (Inl e, d)
        | Inr b \<Rightarrow> (Inr (b = SELF_TEST_CONTENT), d)))"

definition self_test_signals :: "user_run \<Rightarrow> kstate \<Rightarrow> kstate option" where
  "self_test_signals user k = do {
     (_, k) \<leftarrow> run_process user 6 k;
     (_, k) \<leftarrow> run_process user 1 k;
     (_, k) \<leftarrow> run_process user 7 k;
     Some k }"

section \<open>The picture at boot\<close>

text \<open>
  \<open>draw_gradient\<close>, on the framebuffer's bytes: a sweep from red over green to blue along every row.
  \<open>None\<close> is a panic, from an offset of more than 64 bits or an index past the buffer.
\<close>

definition f_to_u8 :: "f32 \<Rightarrow> u8" where
  "f_to_u8 x = of_nat (min (f_to_u32 x) 255)"

definition f_of_u8 :: "u8 \<Rightarrow> f32" where
  "f_of_u8 v = f_of_nat (unat v)"

definition gradient_rgb :: "nat \<Rightarrow> nat \<Rightarrow> u8 \<times> u8 \<times> u8" where
  "gradient_rgb width x =
     (let half = f_of_ratio 5 10; full = f_of_nat 255; t = f_div (f_of_nat x) (f_of_nat (max width 1))
      in if f_lt t half
         then let s = f_div t half in (f_to_u8 (f_mul (f_sub f_one s) full), f_to_u8 (f_mul s full), 0)
         else let s = f_div (f_sub t half) half in (0, f_to_u8 (f_mul (f_sub f_one s) full), f_to_u8 (f_mul s full)))"

definition gray_of :: "u8 \<times> u8 \<times> u8 \<Rightarrow> u8" where
  "gray_of = (\<lambda>(r, g, b). f_to_u8
     (f_add (f_add (f_mul (f_of_ratio 299 1000) (f_of_u8 r)) (f_mul (f_of_ratio 587 1000) (f_of_u8 g)))
            (f_mul (f_of_ratio 114 1000) (f_of_u8 b))))"

fun put_bytes :: "bytes \<Rightarrow> nat \<Rightarrow> bytes \<Rightarrow> bytes option" where
  "put_bytes buf off [] = Some buf"
| "put_bytes buf off (v # vs) = (if off < length buf then put_bytes (buf[off := v]) (off + 1) vs else None)"

definition gradient_cell :: "fb_info \<Rightarrow> nat \<Rightarrow> nat \<Rightarrow> bytes \<Rightarrow> bytes option" where
  "gradient_cell i row_start x buf = do {
     d \<leftarrow> usz (x * bytes_per_pixel i);
     off \<leftarrow> usz (row_start + d);
     e \<leftarrow> usz (off + bytes_per_pixel i);
     if e > length buf then Some buf
     else let (r, g, b) = gradient_rgb (fb_width i) x
          in case pixel_format i of
               Rgb \<Rightarrow> put_bytes buf off [r, g, b]
             | Bgr \<Rightarrow> put_bytes buf off [b, g, r]
             | U8 \<Rightarrow> put_bytes buf off [gray_of (r, g, b)]
             | Other_format \<Rightarrow> Some buf }"

fun gradient_row :: "fb_info \<Rightarrow> nat \<Rightarrow> nat list \<Rightarrow> bytes \<Rightarrow> bytes option" where
  "gradient_row i row_start [] buf = Some buf"
| "gradient_row i row_start (x # xs) buf = do { buf \<leftarrow> gradient_cell i row_start x buf; gradient_row i row_start xs buf }"

fun gradient_rows :: "fb_info \<Rightarrow> nat list \<Rightarrow> bytes \<Rightarrow> bytes option" where
  "gradient_rows i [] buf = Some buf"
| "gradient_rows i (y # ys) buf = do {
     r \<leftarrow> usz (y * stride i);
     row_start \<leftarrow> usz (r * bytes_per_pixel i);
     buf \<leftarrow> gradient_row i row_start [0..<fb_width i] buf;
     gradient_rows i ys buf }"

definition draw_gradient :: "bytes \<Rightarrow> fb_info \<Rightarrow> bytes option" where
  "draw_gradient buf i = gradient_rows i [0..<fb_height i] buf"

section \<open>Boot\<close>

text \<open>
  \<open>kernel_main\<close> up to the point where interrupts are enabled, from what the boot loader hands over (a
  framebuffer or none, and the kernel's first state), the hardware (\<open>ps2\<close> is the mouse's controller and how
  often it is polled) and the processor.  What is only
  logged is left out, and its requests of the heap are taken to be granted.
\<close>

definition kernel_main :: "'h shell_env \<Rightarrow> nic_env \<Rightarrow> 'p ports \<times> nat \<times> 'p \<Rightarrow> (bytes \<times> fb_info) option \<Rightarrow> kstate \<Rightarrow> 'h \<times> dma \<Rightarrow> core \<Rightarrow> 'h world option" where
  "kernel_main E N ps2 fb k hw c = do {
     con \<leftarrow> (case fb of None \<Rightarrow> Some None
            | Some (b, i) \<Rightarrow> do { b \<leftarrow> draw_gradient b i; Some (Some (console_new b i)) });
     m \<leftarrow> (case init_heap (e_map_to E) (mach k) of (Inl _, _) \<Rightarrow> None | (Inr _, m) \<Rightarrow> Some m);
     let (mapped, m) = usertest_setup (e_map_to E) m;
     let k = init_processes (e_map_to E) (k\<lparr>mach := m, kernel_pml4 := cr3 m\<rparr>);
     let k = k\<lparr>kdisk := snd (self_test_disk_write (kdisk k))\<rparr>;
     let k = snd (self_test_pipe_mechanics k);
     let net = snd (neurons_init (kdisk k) empty_network);
     _ \<leftarrow> run_trial (f_of_ratio 6 10);
     _ \<leftarrow> run_trial (f_of_ratio (- 6) 10);
     k \<leftarrow> self_test_signals (e_user E) k;
     _ \<leftarrow> (case ps2 of (P, F, p) \<Rightarrow> mouse_init F P p);
     let (nic, hw) = (case nic_init (e_card E) (N\<lparr>pci_devices := pci_init (pci_space N)\<rparr>) hw of
                        (r, _, hw) \<Rightarrow> (case r of Inl _ \<Rightarrow> None | Inr s \<Rightarrow> Some s, hw));
     show_prompt E
       \<lparr>w_line = [], w_cwd = [], w_kern = k, w_net = net, w_tasking = boot_tasking c, w_pointer = mouse_boot con,
        w_nic = nic, w_card = hw, w_user_mapped = mapped, w_ports = [], w_typed = []\<rparr> }"

section \<open>Interrupts\<close>

record 'h system =
  sys_world :: "'h world"
  timer_irqs :: u64

definition timer_interrupt_handler :: "'h shell_env \<Rightarrow> u64 \<Rightarrow> 'h system \<Rightarrow> 'h system option" where
  "timer_interrupt_handler E ret s = do {
     let w = sys_world s;
     net \<leftarrow> net_tick (e_libm E) (w_net w);
     t \<leftarrow> timer_tick_switch ret (w_tasking w);
     Some (s\<lparr>sys_world := w\<lparr>w_net := net, w_tasking := t\<rparr>, timer_irqs := timer_irqs s + 1\<rparr>) }"

definition keyboard_interrupt_handler :: "'h shell_env \<Rightarrow> u8 \<Rightarrow> 'h system \<Rightarrow> (answer option \<times> 'h system) option" where
  "keyboard_interrupt_handler E ch s = do {
     (a, w) \<leftarrow> on_key E ch (sys_world s);
     Some (a, s\<lparr>sys_world := w\<rparr>) }"

definition mouse_interrupt_handler :: "'h shell_env \<Rightarrow> u8 \<Rightarrow> 'h system \<Rightarrow> 'h system option" where
  "mouse_interrupt_handler E byte s = do {
     let w = sys_world s;
     m \<leftarrow> mouse_interrupt (e_font E) (map unat (prompt_string (w_cwd w))) (w_pointer w) byte;
     Some (s\<lparr>sys_world := w\<lparr>w_pointer := m\<rparr>\<rparr>) }"

text \<open>
  What happens once interrupts are on: the three interrupts, the two calls \<open>kernel_main\<close> still makes (the
  task demo and background scheduling), and whatever code runs in between (it moves the processor's
  registers and memory, and a worker counts its rounds).
\<close>

datatype event =
    Timer_irq u64 | Keyboard_irq u8 | Mouse_irq u8
  | Start_demo "nat \<Rightarrow> u64 option" "nat \<Rightarrow> u64" u64 | Start_background
  | Code_runs core | Worker_round nat

definition on_tasking :: "(tasking \<Rightarrow> tasking option) \<Rightarrow> 'h system \<Rightarrow> 'h system option" where
  "on_tasking f s = map_option (\<lambda>t. s\<lparr>sys_world := (sys_world s)\<lparr>w_tasking := t\<rparr>\<rparr>) (f (w_tasking (sys_world s)))"

text \<open>
  \<open>heap x s\<close>: the heap grants everything that is asked of it while \<open>x\<close> is handled (characters of \<open>TYPED\<close> and of the
  line, strings, vectors, buffers); if it does not, the allocator's error handler panics.  The stacks of new tasks are
  asked for separately (\<open>Start_demo\<close>, \<open>e_stack_base\<close>).
\<close>

definition event_do :: "'h shell_env \<Rightarrow> (event \<Rightarrow> 'h system \<Rightarrow> bool) \<Rightarrow> event \<Rightarrow> 'h system \<Rightarrow> (answer option \<times> 'h system) option" where
  "event_do E heap x s =
     (if \<not> heap x s then None else case x of
        Timer_irq ret \<Rightarrow> map_option (Pair None) (timer_interrupt_handler E ret s)
      | Keyboard_irq ch \<Rightarrow> keyboard_interrupt_handler E ch s
      | Mouse_irq b \<Rightarrow> map_option (Pair None) (mouse_interrupt_handler E b s)
      | Start_demo stacks entries ret \<Rightarrow> map_option (Pair None) (on_tasking (run_preemption_demo stacks entries ret) s)
      | Start_background \<Rightarrow> map_option (Pair None) (on_tasking (\<lambda>t. Some (enable_background_scheduling t)) s)
      | Code_runs c \<Rightarrow> map_option (Pair None) (on_tasking (\<lambda>t. Some (t\<lparr>core := c\<rparr>)) s)
      | Worker_round i \<Rightarrow> map_option (Pair None) (on_tasking (\<lambda>t. Some (worker_count i t)) s))"

end
