(* ===== verification/System_Props.thy ===== *)
theory System_Props
  imports System Shell_Props
begin

text \<open>
  The kernel as a whole keeps running: the invariants of the components put together, and preserved by
  every interrupt and every command that is not one of the known ways to stop the kernel, while the heap lasts.
\<close>

section \<open>The screen and the pointer\<close>

definition pointer_ok :: "font \<Rightarrow> nat \<Rightarrow> nat \<Rightarrow> mouse \<Rightarrow> bool" where
  "pointer_ok f B P m \<longleftrightarrow> mouse_ok f m \<and> (\<forall>c. screen m = Some c \<longrightarrow> y_pos c \<le> B) \<and>
     \<bar>mouse_x (m_state m)\<bar> \<le> 256 * int P \<and> \<bar>mouse_y (m_state m)\<bar> \<le> 256 * int P \<and> packet_count (m_state m) \<le> P"

lemma pointer_mono: "pointer_ok f A P m \<Longrightarrow> A \<le> B \<Longrightarrow> P \<le> Q \<Longrightarrow> pointer_ok f B Q m"
  by (fastforce simp: pointer_ok_def)

lemma pointer_op:
  assumes "pointer_ok f A P m" "A \<le> B"
    and op: "\<And>c. text_ok f c \<Longrightarrow> y_pos c \<le> A \<Longrightarrow> \<exists>d. op c = Some d \<and> text_ok f d \<and> info d = info c \<and> y_pos d \<le> B"
  shows "\<exists>m'. on_screen_do m op = Some m' \<and> pointer_ok f B P m'"
proof (cases "screen m")
  case None
  then show ?thesis using pointer_mono [OF assms(1,2) order_refl] by (simp add: on_screen_do_def)
next
  case (Some c)
  then have "text_ok f c" "y_pos c \<le> A" using assms(1) by (auto simp: pointer_ok_def mouse_ok_def)
  from op [OF this] obtain d where "op c = Some d" "text_ok f d" "info d = info c" "y_pos d \<le> B" by blast
  then show ?thesis using assms(1) Some by (auto simp: on_screen_do_def pointer_ok_def mouse_ok_def)
qed

lemma pointer_print:
  assumes "pointer_ok f A P m" "A + 22 * length s \<le> B" "B < 2 ^ 62"
  shows "\<exists>m'. on_screen_do m (\<lambda>c. write_str f c s) = Some m' \<and> pointer_ok f B P m'"
proof (rule pointer_op [OF assms(1)])
  fix c assume c: "text_ok f c" "y_pos c \<le> A"
  have "y_pos c + 22 * length s < 2 ^ 62" using c(2) assms(2,3) by simp
  from str_ok [OF c(1) this] obtain d where "write_str f c s = Some d" "text_ok f d" "info d = info c"
    "y_pos d \<le> y_pos c + 22 * length s" by metis
  then show "\<exists>d. write_str f c s = Some d \<and> text_ok f d \<and> info d = info c \<and> y_pos d \<le> B"
    using c(2) assms(2) by (intro exI [of _ d]) simp
qed (use assms(2) in simp)

lemma pointer_back:
  assumes "pointer_ok f A P m"
  shows "\<exists>m'. on_screen_do m (backspace f) = Some m' \<and> pointer_ok f A P m'"
  by (rule pointer_op [OF assms order_refl]) (metis backspace_ok)

lemma pointer_clear:
  assumes "pointer_ok f A P m" "4 \<le> A"
  shows "\<exists>m'. on_screen_do m (\<lambda>c. Some (clear c)) = Some m' \<and> pointer_ok f A P m'"
  by (rule pointer_op [OF assms(1) order_refl]) (use assms(2) in \<open>auto simp: text_ok_def clear_def fb_ok_def\<close>)

lemma pointer_modes:
  "pointer_ok f A P m \<Longrightarrow> pointer_ok f A P (enter_draw_mode m)" "pointer_ok f A P m \<Longrightarrow> pointer_ok f A P (exit_draw_mode m)"
  by (simp_all add: pointer_ok_def mouse_ok_def enter_draw_mode_def exit_draw_mode_def)

lemma pointer_byte:
  assumes ok: "pointer_ok f A P m" and K: "22 * (length exit_message + length prompt) \<le> K" "A + K < 2 ^ 62" and P: "P < 2 ^ 22"
  shows "\<exists>m'. mouse_interrupt f prompt m b = Some m' \<and> pointer_ok f (A + K) (P + 1) m'"
proof -
  have m: "mouse_ok f m" "length (packet m) = 3" "packet_index m < 3" using ok by (auto simp: pointer_ok_def mouse_ok_def)
  let ?p = "(packet m)[packet_index m := b]"
  consider "packet_index m = 0 \<and> b AND 8 = 0" | "\<not> (packet_index m = 0 \<and> b AND 8 = 0)" "packet_index m < 2"
    | "\<not> (packet_index m = 0 \<and> b AND 8 = 0)" "packet_index m = 2" using m(3) by linarith
  then show ?thesis
  proof cases
    case 1
    then show ?thesis using pointer_mono [OF ok] by (simp add: mouse_interrupt_def)
  next
    case 2
    have "pointer_ok f A P (m\<lparr>packet := ?p, packet_index := packet_index m + 1\<rparr>)"
      using ok 2(2) by (auto simp: pointer_ok_def mouse_ok_def)
    from pointer_mono [OF this, of "A + K" "P + 1"] show ?thesis using 2 m by (auto simp: mouse_interrupt_def)
  next
    case 3
    note r = packet_range [of ?p]
    let ?s = "m_state m"
    define s where "s = \<lparr>mouse_x = mouse_x ?s + packet_dx ?p, mouse_y = mouse_y ?s - packet_dy ?p,
       m_left = (?p ! 0 AND 0x01 \<noteq> 0), m_right = (?p ! 0 AND 0x02 \<noteq> 0), m_middle = (?p ! 0 AND 0x04 \<noteq> 0),
       packet_count = packet_count ?s + 1\<rparr>"
    have x: "\<bar>mouse_x s\<bar> \<le> 256 * int (P + 1)" "\<bar>mouse_y s\<bar> \<le> 256 * int (P + 1)" "packet_count s \<le> P + 1"
      using ok r by (auto simp: pointer_ok_def s_def)
    have i: "i32 k = Some k" if "\<bar>k\<bar> \<le> 256 * int (P + 1)" for k using that P by (auto simp: i32_def)
    have ap: "apply_packet ?s ?p = Some s"
      using i [OF x(1)] i [OF x(2)] x(3) P by (simp add: apply_packet_def s_def)
    let ?m = "m\<lparr>packet := ?p, packet_index := 0, m_state := s\<rparr>"
    have "mouse_ok f ?m" "\<forall>c. screen ?m = Some c \<longrightarrow> y_pos c \<le> A" using ok by (auto simp: pointer_ok_def mouse_ok_def)
    from handle_ok [OF this K] obtain m' where m': "handle_draw_mode f prompt ?m (mouse_x s) (mouse_y s) (m_left s) (m_right s) = Some m'"
      "mouse_ok f m'" "m_state m' = m_state ?m" "\<forall>c. screen m' = Some c \<longrightarrow> y_pos c \<le> A + K" by metis
    have "mouse_interrupt f prompt m b = Some m'" using 3 m(2) ap m'(1) by (simp add: mouse_interrupt_def Let_def)
    moreover have "pointer_ok f (A + K) (P + 1) m'" using m' x by (simp add: pointer_ok_def)
    ultimately show ?thesis by blast
  qed
qed

section \<open>Tasks before and after the demo\<close>

definition tasks_idle :: "tasking \<Rightarrow> bool" where
  "tasks_idle st \<longleftrightarrow> (\<exists>c. st = boot_tasking c)"

definition tasks_fine :: "nat \<Rightarrow> tasking \<Rightarrow> bool" where
  "tasks_fine t st \<longleftrightarrow> tasks_idle st \<or> (\<exists>k \<le> t. tasks_ok k st)"

lemma tasks_fine_mono: "tasks_fine t st \<Longrightarrow> t \<le> u \<Longrightarrow> tasks_fine u st"
  by (auto simp: tasks_fine_def intro: le_trans)

lemma tasks_fine_do:
  assumes "tasks_fine t st" "t < u32_max" "\<not> tasks_idle st" "granted x"
  shows "\<exists>st'. task_do entries x st = Some st' \<and> tasks_fine (if is_tick x then Suc t else t) st'"
proof -
  obtain k where k: "k \<le> t" "tasks_ok k st" using assms(1,3) by (auto simp: tasks_fine_def)
  have "k < u32_max" using k(1) assms(2) by simp
  from task_do_ok [OF k(2) this assms(4)] obtain st' where "task_do entries x st = Some st'"
    "tasks_ok (if is_tick x then Suc k else k) st'" by blast
  then show ?thesis using k(1) by (intro exI [of _ st']) (auto simp: tasks_fine_def split: if_splits)
qed

lemma tasks_fine_tick:
  assumes "tasks_fine t st" "t < u32_max"
  shows "\<exists>st'. timer_tick_switch ret st = Some st' \<and> tasks_fine (Suc t) st'"
proof (cases "tasks_idle st")
  case True
  then show ?thesis by (auto simp: tasks_fine_def tasks_idle_def boot_tasking_def timer_tick_switch_def reap_zombies_def)
next
  case False
  from tasks_fine_do [OF assms False, of "TimerTick ret"] show ?thesis by (simp add: task_do_def is_tick_def granted_def)
qed

lemma tasks_fine_spawn:
  assumes "tasks_fine t st" "t < u32_max" "stack \<noteq> None"
  shows "\<exists>r st'. spawn stack entries st = Some (r, st') \<and> tasks_fine t st'"
proof (cases "tasks_idle st")
  case True
  then show ?thesis using assms(1) by (auto simp: tasks_idle_def boot_tasking_def spawn_def)
next
  case False
  from tasks_fine_do [OF assms(1,2) False, of "SpawnTask stack" entries] assms(3) show ?thesis by (auto simp: task_do_def is_tick_def granted_def)
qed

lemma tasks_fine_kill:
  assumes "tasks_fine t st" "t < u32_max"
  shows "tasks_fine t (snd (kill_task i st))"
proof (cases "tasks_idle st")
  case True
  then show ?thesis using assms(1) by (auto simp: tasks_idle_def boot_tasking_def kill_task_def)
next
  case False
  from tasks_fine_do [OF assms False, of "KillTask i"] show ?thesis by (auto simp: task_do_def is_tick_def granted_def)
qed

section \<open>The world between two events\<close>

text \<open>\<open>T\<close> bounds the network's ticks, \<open>t\<close> those of the scheduler, \<open>B\<close> the cursor, \<open>P\<close> the mouse packets.\<close>

definition world_inv :: "'h shell_env \<Rightarrow> nat \<Rightarrow> nat \<Rightarrow> nat \<Rightarrow> nat \<Rightarrow> 'h world \<Rightarrow> bool" where
  "world_inv E T t B P w \<longleftrightarrow> net_ok (w_net w) \<and> tick_count (w_net w) \<le> T \<and> tasks_fine t (w_tasking w) \<and>
     pointer_ok (e_font E) B P (w_pointer w) \<and> fs_ok (kdisk (w_kern w)) \<and> cwd_ok (w_cwd w) (kdisk (w_kern w))"

lemma world_inv_mono:
  "world_inv E T t B P w \<Longrightarrow> T \<le> T' \<Longrightarrow> t \<le> t' \<Longrightarrow> B \<le> B' \<Longrightarrow> P \<le> P' \<Longrightarrow> world_inv E T' t' B' P' w"
  using pointer_mono tasks_fine_mono by (fastforce simp: world_inv_def)

text \<open>A command that runs to an answer and keeps the invariant, taking at most 100 ticks of the network.\<close>

definition runs_well :: "'h shell_env \<Rightarrow> nat \<Rightarrow> nat \<Rightarrow> nat \<Rightarrow> nat \<Rightarrow> (answer \<times> 'h world) option \<Rightarrow> bool" where
  "runs_well E T t B P r \<longleftrightarrow> (\<exists>a w. r = Some (a, w) \<and> world_inv E (T + 100) t B P w)"

lemma runs_wellI: "world_inv E T t B P w \<Longrightarrow> runs_well E T t B P (Some (a, w))"
  using world_inv_mono [of E T t B P w "T + 100" t B P] by (simp add: runs_well_def)

lemma new_disk:
  assumes "world_inv E T t B P w" "fs_ok d" "\<And>ds. dir_at (fs_tree (kdisk (w_kern w))) ds \<noteq> None \<Longrightarrow> dir_at (fs_tree d) ds \<noteq> None"
  shows "world_inv E T t B P (w\<lparr>w_kern := (w_kern w)\<lparr>kdisk := d\<rparr>\<rparr>)"
  using assms by (auto simp: world_inv_def cwd_ok_def)

lemma seed_well:
  assumes "world_inv E T t B P w"
  shows "runs_well E T t B P (seed_answer (seed path img (kdisk (w_kern w))) w)"
proof -
  have ok: "fs_ok (kdisk (w_kern w))" using assms by (simp add: world_inv_def)
  obtain r d where r: "write_file (kdisk (w_kern w)) path img = (r, d)" by fastforce
  have "world_inv E T t B P (w\<lparr>w_kern := (w_kern w)\<lparr>kdisk := d\<rparr>\<rparr>)"
    by (rule new_disk [OF assms]) (use write_keeps_dirs [OF ok r] cwd_ok_def assms in \<open>auto simp: world_inv_def\<close>)
  then show ?thesis by (cases r) (auto simp: seed_answer_def seed_def r intro!: runs_wellI)
qed

lemma save_well:
  assumes "world_inv E T t B P w"
  shows "world_inv E T t B P (w\<lparr>w_kern := (w_kern w)\<lparr>kdisk := snd (save_weights_to_disk lm net (kdisk (w_kern w)))\<rparr>\<rparr>)"
proof (rule new_disk [OF assms])
  have ok: "fs_ok (kdisk (w_kern w))" using assms by (simp add: world_inv_def)
  note k = weights_keep_tree [OF ok prod.collapse [symmetric]]
  show "fs_ok (snd (save_weights_to_disk lm net (kdisk (w_kern w))))"
    using ok k(1) by (auto simp: save_weights_to_disk_def)
  show "dir_at (fs_tree (snd (save_weights_to_disk lm net (kdisk (w_kern w))))) ds \<noteq> None"
    if "dir_at (fs_tree (kdisk (w_kern w))) ds \<noteq> None" for ds
    using that k(2) by (auto simp: save_weights_to_disk_def)
qed

lemma pointer_well:
  assumes "world_inv E T t B P w" "\<exists>m. on_screen_do (w_pointer w) op = Some m \<and> pointer_ok (e_font E) B P m"
  shows "runs_well E T t B P (map_option (Pair a) (on_console op w))"
  using assms by (auto simp: on_console_def world_inv_def intro!: runs_wellI)

section \<open>Calm commands\<close>

text \<open>
  A line is calm unless it runs a program or polls the clock or the network card, draws at typed
  coordinates, trains for more than 100 ticks, or disguises the name of a directory, or makes one more than 30 levels deep,
  or spawns a task whose stack the heap has no room for.
\<close>

definition wild_commands :: "bytes list" where
  "wild_commands = map bytes_of [''usertest'', ''train'', ''date'', ''sendpacket'', ''recvpacket'', ''runfdtest'',
     ''runfork'', ''runsigsegv'', ''runsigkill'']"

definition wild_prefixes :: "bytes list" where
  "wild_prefixes = map bytes_of [''runproc '', ''runfile '', ''runelf '', ''pixel '', ''line '', ''rect '', ''fillrect '']"

definition calm_line :: "cwd \<Rightarrow> u64 option \<Rightarrow> bytes \<Rightarrow> bool" where
  "calm_line cwd stack cmd \<longleftrightarrow> (cmd = bytes_of ''spawn'' \<longrightarrow> stack \<noteq> None) \<and> cmd \<notin> set wild_commands \<and> list_all (\<lambda>p. strip_prefix p cmd = None) wild_prefixes \<and>
     op_ticks (Line cmd) \<le> 100 \<and> plain_line cwd cmd"

lemma state_well:
  assumes inv: "world_inv E T t B P w" "t < u32_max" and calm: "cmd \<notin> set wild_commands" and r: "state_command E cmd w = Some r"
    and stack: "cmd = bytes_of ''spawn'' \<Longrightarrow> e_stack_base E (w_tasking w) \<noteq> None"
  shows "runs_well E T t B P r"
proof -
  have calm': "cmd \<noteq> bytes_of ''usertest''" "cmd \<noteq> bytes_of ''train''" "cmd \<noteq> bytes_of ''date''"
    using calm by (auto simp: wild_commands_def)
  have sp: "\<exists>x st. spawn (e_stack_base E (w_tasking w)) (e_entries E) (w_tasking w) = Some (x, st) \<and> tasks_fine t st"
    if "cmd = bytes_of ''spawn''"
    using tasks_fine_spawn [OF _ inv(2) stack [OF that]] inv(1) by (metis world_inv_def)
  have "world_inv E T t B P (w\<lparr>w_tasking := st\<rparr>)" if "tasks_fine t st" for st using inv(1) that by (simp add: world_inv_def)
  moreover have "world_inv E T t B P (w\<lparr>w_ports := ps\<rparr>)" for ps using inv(1) by (simp add: world_inv_def)
  moreover have "snd (save_weights_to_disk (e_libm E) (w_net w) (kdisk (w_kern w))) = d" if
    "save_weights_to_disk (e_libm E) (w_net w) (kdisk (w_kern w)) = (y, d)" for y d using that by simp
  ultimately show ?thesis using r inv(1) sp calm' save_well [OF inv(1), of "e_libm E" "w_net w"]
    by (auto simp: state_command_def Let_def split: if_splits prod.splits intro!: runs_wellI)
qed

lemma device_well:
  assumes inv: "world_inv E T t B P w" and calm: "cmd \<notin> set wild_commands" and r: "device_command E cmd w = Some r"
  shows "runs_well E T t B P r"
proof -
  have "cmd \<noteq> bytes_of ''sendpacket''" "cmd \<noteq> bytes_of ''recvpacket''" using calm by (auto simp: wild_commands_def)
  then show ?thesis using r inv pointer_modes [of "e_font E" B P "w_pointer w"]
    by (auto simp: device_command_def world_inv_def split: if_splits prod.splits intro!: runs_wellI)
qed

lemma program_well:
  assumes inv: "world_inv E T t B P w" "4 \<le> B" and calm: "cmd \<notin> set wild_commands" and r: "program_command E cmd w = Some r"
  shows "runs_well E T t B P r"
proof -
  have c: "cmd \<noteq> bytes_of ''runfdtest''" "cmd \<noteq> bytes_of ''runfork''" "cmd \<noteq> bytes_of ''runsigsegv''" "cmd \<noteq> bytes_of ''runsigkill''"
    using calm by (auto simp: wild_commands_def)
  have "pointer_ok (e_font E) B P (w_pointer w)" using inv(1) by (simp add: world_inv_def)
  note cl = pointer_well [OF inv(1) pointer_clear [OF this inv(2)]]
  show ?thesis using r c cl seed_well [OF inv(1)]
    by (auto simp: program_command_def Let_def seed_test_program_def seed_fdtest_program_def seed_test_elf_def
        seed_pipetest_elf_def split: if_splits)
qed

lemma file_well:
  assumes inv: "world_inv E T t B P w" and calm: "plain_line (w_cwd w) cmd"
    and r: "fs_command cmd (w_cwd w) (kdisk (w_kern w)) = Some (a, cwd, d)"
  shows "runs_well E T t B P (Some (a, w\<lparr>w_cwd := cwd, w_kern := (w_kern w)\<lparr>kdisk := d\<rparr>\<rparr>))"
  using inv fs_command_ok [OF _ _ calm r] by (intro runs_wellI) (auto simp: world_inv_def)

lemma dsl_well:
  assumes inv: "world_inv E T t B P w" and T: "T + 100 < 2 ^ 31" "op_ticks (Line cmd) \<le> 100"
  shows "runs_well E T t B P (map_option (\<lambda>(a, n). (Network_says a, w\<lparr>w_net := n\<rparr>)) (run_dsl_line (e_libm E) cmd (w_net w)))"
proof -
  have n: "net_ok (w_net w)" "tick_count (w_net w) \<le> T" using inv by (simp_all add: world_inv_def)
  have "tick_count (w_net w) + op_ticks (Line cmd) < 2 ^ 31" using n(2) T by simp
  from good_dsl_line [OF n(1) this, of "e_libm E"] obtain a net where
    "run_dsl_line (e_libm E) cmd (w_net w) = Some (a, net)" "net_ok net" "tick_count net \<le> tick_count (w_net w) + op_ticks (Line cmd)"
    by (auto simp: good_step_def)
  then show ?thesis using inv T(2) n(2) by (auto simp: runs_well_def world_inv_def)
qed

lemma argument_well:
  assumes inv: "world_inv E T t B P w" "t < u32_max" and T: "T + 100 < 2 ^ 31" and calm: "calm_line (w_cwd w) (e_stack_base E (w_tasking w)) cmd"
    and r: "argument_command E cmd w = Some r"
  shows "runs_well E T t B P r"
proof (cases "is_dsl cmd")
  case True
  then show ?thesis using r dsl_well [OF inv(1) T] calm by (auto simp: argument_command_def calm_line_def)
next
  case False
  have none: "strip_prefix (bytes_of ''runproc '') cmd = None" "strip_prefix (bytes_of ''runfile '') cmd = None"
    "strip_prefix (bytes_of ''runelf '') cmd = None" "draw_command cmd w = None"
    using calm by (simp_all add: calm_line_def wild_prefixes_def draw_command_def)
  have gate: "world_inv E T t B P (w\<lparr>w_ports := ps\<rparr>)" for ps using inv(1) by (simp add: world_inv_def)
  have kill: "world_inv E T t B P (w\<lparr>w_tasking := snd (kill_task i (w_tasking w))\<rparr>)" for i
    using inv(1) tasks_fine_kill [OF _ inv(2)] by (simp add: world_inv_def)
  show ?thesis
  proof (cases "strip_prefix (bytes_of ''beep '') cmd")
    case (Some f)
    then show ?thesis using r False runs_wellI [OF inv(1)] runs_wellI [OF gate]
      by (cases "parse_uint 32 (trim f)") (auto simp: argument_command_def Let_def)
  next
    case nobeep: None
    show ?thesis
    proof (cases "strip_prefix (bytes_of ''kill '') cmd")
      case (Some f)
      then show ?thesis using r False nobeep runs_wellI [OF inv(1)] runs_wellI [OF kill]
        by (cases "parse_uint 64 (trim f)") (auto simp: argument_command_def case_prod_unfold split: if_splits)
    next
      case None
      then show ?thesis using r False nobeep none by (simp add: argument_command_def)
    qed
  qed
qed

lemma command_well:
  assumes inv: "world_inv E T t B P w" "t < u32_max" "4 \<le> B" and T: "T + 100 < 2 ^ 31" and calm: "calm_line (w_cwd w) (e_stack_base E (w_tasking w)) cmd"
  shows "runs_well E T t B P (run_command E cmd w)"
proof -
  have wild: "cmd \<notin> set wild_commands" and plain: "plain_line (w_cwd w) cmd"
    and stack: "cmd = bytes_of ''spawn'' \<Longrightarrow> e_stack_base E (w_tasking w) \<noteq> None"
    using calm by (simp_all add: calm_line_def)
  show ?thesis
  proof (cases "plain_command E cmd w")
    case None
    then show ?thesis using file_well [OF inv(1) plain] argument_well [OF inv(1,2) T calm] runs_wellI [OF inv(1)]
      by (auto simp: run_command_def split: option.splits)
  next
    case (Some r)
    have "runs_well E T t B P r"
    proof (cases "cmd = [] \<or> cmd \<in> set plain_reports")
      case True
      then show ?thesis using Some runs_wellI [OF inv(1)] by (auto simp: plain_command_def split: if_splits)
    next
      case False
      then show ?thesis using Some state_well [OF inv(1,2) wild _ stack] device_well [OF inv(1) wild] program_well [OF inv(1,3) wild]
        by (auto simp: plain_command_def split: option.splits)
    qed
    then show ?thesis using Some by (simp add: run_command_def)
  qed
qed

section \<open>Events\<close>

text \<open>The wording of an answer is of some reasonable length, and so is the prompt of a proper directory.\<close>

definition wording_ok :: "'h shell_env \<Rightarrow> bool" where
  "wording_ok E \<longleftrightarrow> (\<forall>w a. length (e_wording E w a) \<le> 2 ^ 16)"

lemma join_slash_length: "\<forall>c \<in> set cs. length c \<le> 16 \<Longrightarrow> length (join_slash cs) \<le> 17 * length cs"
  by (induction cs rule: join_slash.induct) auto

lemma prompt_length:
  assumes "world_inv E T t B P w"
  shows "length (prompt_string (w_cwd w)) \<le> 600"
proof -
  have "length (join_slash (w_cwd w)) \<le> 17 * length (w_cwd w)" "length (w_cwd w) \<le> 32"
    using assms join_slash_length [of "w_cwd w"] by (auto simp: world_inv_def cwd_ok_def name_ok_def)
  then show ?thesis by (simp add: prompt_string_def Let_def bytes_of_def)
qed

lemma print_well:
  assumes "world_inv E T t A P w" "A + 22 * length s \<le> B" "B < 2 ^ 62"
  obtains m where "print_out E s w = Some (w\<lparr>w_pointer := m\<rparr>)" "world_inv E T t B P (w\<lparr>w_pointer := m\<rparr>)"
proof -
  have "pointer_ok (e_font E) A P (w_pointer w)" using assms(1) by (simp add: world_inv_def)
  from pointer_print [OF this assms(2,3)] obtain m where
    "on_screen_do (w_pointer w) (\<lambda>c. write_str (e_font E) c s) = Some m" "pointer_ok (e_font E) B P m" by blast
  then show ?thesis using assms(1) by (intro that [of m]) (auto simp: print_out_def on_console_def world_inv_def)
qed

lemma stimulus_well: "world_inv E T t B P w \<Longrightarrow> world_inv E T t B P (w\<lparr>w_typed := y, w_net := on_key_stimulus c (w_net w)\<rparr>)"
  by (auto simp: world_inv_def on_key_stimulus_def stimulate_ok)

lemma enter_well:
  assumes inv: "world_inv E T t B P w" "t < u32_max" "4 \<le> B" "B + 2 ^ 23 < 2 ^ 62" "T + 100 < 2 ^ 31"
    and calm: "calm_line (w_cwd w) (e_stack_base E (w_tasking w)) (trim (w_line w))" and len: "wording_ok E" and ch: "ch = 10 \<or> ch = 13"
  shows "\<exists>a w'. on_char E ch w = Some (a, w') \<and> world_inv E (T + 100) t (B + 2 ^ 23) P w'"
proof -
  have "B + 22 < 2 ^ 62" "B + 22 * length [10 :: nat] \<le> B + 22" using inv(4) by simp_all
  from print_well [OF inv(1) this(2,1)] obtain m1 where
    p1: "print_out E [10] w = Some (w\<lparr>w_pointer := m1\<rparr>)" "world_inv E T t (B + 22) P (w\<lparr>w_pointer := m1\<rparr>)" .
  have "world_inv E T t (B + 22) P (w\<lparr>w_pointer := m1, w_line := []\<rparr>)" using p1(2) by (simp add: world_inv_def)
  from command_well [OF this inv(2) _ inv(5), of "trim (w_line w)"] calm inv(3) obtain a v where
    c: "run_command E (trim (w_line w)) (w\<lparr>w_pointer := m1, w_line := []\<rparr>) = Some (a, v)"
      "world_inv E (T + 100) t (B + 22) P v" by (auto simp: runs_well_def)
  let ?s = "e_wording E v a" and ?t = "map unat (prompt_string (w_cwd v))"
  have s: "length ?s \<le> 2 ^ 16" using len by (simp add: wording_ok_def)
  have t: "length ?t \<le> 600" using prompt_length [OF c(2)] by simp
  have "B + 22 + 22 * length ?s \<le> B + 22 + 22 * 2 ^ 16" "B + 22 + 22 * 2 ^ 16 < 2 ^ 62" using s inv(4) by simp_all
  from print_well [OF c(2) this] obtain m2 where
    p2: "print_out E ?s v = Some (v\<lparr>w_pointer := m2\<rparr>)" "world_inv E (T + 100) t (B + 22 + 22 * 2 ^ 16) P (v\<lparr>w_pointer := m2\<rparr>)" .
  have "B + 22 + 22 * 2 ^ 16 + 22 * length ?t \<le> B + 2 ^ 23" using t by simp
  from print_well [OF p2(2) this inv(4)] obtain m3 where
    p3: "print_out E ?t (v\<lparr>w_pointer := m2\<rparr>) = Some (v\<lparr>w_pointer := m3\<rparr>)" "world_inv E (T + 100) t (B + 2 ^ 23) P (v\<lparr>w_pointer := m3\<rparr>)"
    by auto
  have "on_char E ch w = Some (Some a, v\<lparr>w_pointer := m3\<rparr>)"
    using ch p1(1) c(1) p2(1) p3(1) by (simp add: on_char_def show_prompt_def)
  then show ?thesis using p3(2) by blast
qed

lemma char_well:
  assumes inv: "world_inv E T t B P w" "t < u32_max" "4 \<le> B" "B + 2 ^ 23 < 2 ^ 62" "T + 100 < 2 ^ 31"
    and calm: "ch = 10 \<or> ch = 13 \<Longrightarrow> calm_line (w_cwd w) (e_stack_base E (w_tasking w)) (trim (w_line w))" and len: "wording_ok E"
  shows "\<exists>a w'. on_char E ch w = Some (a, w') \<and> world_inv E (T + 100) t (B + 2 ^ 23) P w'"
proof -
  have mono: "world_inv E T t B P v \<Longrightarrow> world_inv E (T + 100) t (B + 2 ^ 23) P v" for v
    by (erule world_inv_mono) simp_all
  have ln: "world_inv E T t B P (w\<lparr>w_line := l\<rparr>)" for l using inv(1) by (simp add: world_inv_def)
  consider "ch = 10 \<or> ch = 13" | "ch \<noteq> 10" "ch \<noteq> 13" "ch = 8 \<or> ch = 127" "w_line w \<noteq> []"
    | "ch \<noteq> 10" "ch \<noteq> 13" "ch \<noteq> 8" "ch \<noteq> 127" "\<not> is_control ch"
    | "ch \<noteq> 10" "ch \<noteq> 13" "(ch = 8 \<or> ch = 127) \<and> w_line w = [] \<or> ch \<noteq> 8 \<and> ch \<noteq> 127 \<and> is_control ch" by blast
  then show ?thesis
  proof cases
    case 1
    then show ?thesis using enter_well [OF inv calm len] by blast
  next
    case 2
    have "pointer_ok (e_font E) B P (w_pointer w)" using inv(1) by (simp add: world_inv_def)
    from pointer_back [OF this] obtain m where m: "on_screen_do (w_pointer w) (backspace (e_font E)) = Some m" "pointer_ok (e_font E) B P m"
      by blast
    have "world_inv E T t B P (w\<lparr>w_line := butlast (w_line w), w_pointer := m\<rparr>)" using inv(1) m(2) by (simp add: world_inv_def)
    with mono m(1) 2 show ?thesis by (auto simp: on_char_def on_console_def)
  next
    case 3
    have "B + 22 * length [unat ch] \<le> B + 2 ^ 23" by simp
    from print_well [OF ln this inv(4)] obtain m where
      "print_out E [unat ch] (w\<lparr>w_line := w_line w @ [ch]\<rparr>) = Some (w\<lparr>w_line := w_line w @ [ch], w_pointer := m\<rparr>)"
      "world_inv E T t (B + 2 ^ 23) P (w\<lparr>w_line := w_line w @ [ch], w_pointer := m\<rparr>)" by auto
    then show ?thesis using 3 world_inv_mono [of E T t "B + 2 ^ 23" P _ "T + 100" t "B + 2 ^ 23" P]
      by (auto simp: on_char_def)
  next
    case 4
    then show ?thesis using mono [OF inv(1)] by (auto simp: on_char_def)
  qed
qed

text \<open>Events that are not known to stop the kernel, with a heap that grants what they ask for; the demo and background scheduling start as \<open>kernel_main\<close> starts them.\<close>

definition calm_event :: "'h shell_env \<Rightarrow> (event \<Rightarrow> 'h system \<Rightarrow> bool) \<Rightarrow> event \<Rightarrow> 'h system \<Rightarrow> bool" where
  "calm_event E heap x s \<longleftrightarrow> heap x s \<and>
     (let w = sys_world s in case x of
        Keyboard_irq ch \<Rightarrow> ch = 10 \<or> ch = 13 \<longrightarrow> calm_line (w_cwd w) (e_stack_base E (w_tasking w)) (trim (w_line w))
      | Start_demo stacks _ _ \<Rightarrow> tasks_idle (w_tasking w) \<and> (\<forall>i < N_TASKS. stacks i \<noteq> None)
      | Start_background \<Rightarrow> \<not> tasks_idle (w_tasking w)
      | Worker_round _ \<Rightarrow> \<not> tasks_idle (w_tasking w)
      | _ \<Rightarrow> True)"

definition sound_at :: "'h shell_env \<Rightarrow> nat \<Rightarrow> 'h system \<Rightarrow> bool" where
  "sound_at E n s \<longleftrightarrow> world_inv E (101 * n) n (2 ^ 40 + n * 2 ^ 23) n (sys_world s)"

lemma tasking_well:
  assumes "sound_at E n s" "f (w_tasking (sys_world s)) = Some st" "tasks_fine (Suc n) st"
  shows "\<exists>s'. on_tasking f s = Some s' \<and> sound_at E (Suc n) s'"
proof -
  have "world_inv E (101 * Suc n) (Suc n) (2 ^ 40 + Suc n * 2 ^ 23) (Suc n) (sys_world s)"
    by (rule world_inv_mono [OF assms(1) [unfolded sound_at_def]]) simp_all
  then show ?thesis using assms(2,3) by (auto simp: on_tasking_def sound_at_def world_inv_def)
qed

lemma event_well:
  assumes sound: "sound_at E n s" and n: "n < 2 ^ 22" and calm: "calm_event E heap x s" and len: "wording_ok E"
  shows "\<exists>a s'. event_do E heap x s = Some (a, s') \<and> sound_at E (Suc n) s'"
proof -
  let ?w = "sys_world s" and ?B = "2 ^ 40 + n * 2 ^ 23"
  note inv = sound [unfolded sound_at_def]
  have heap: "event_do E heap x s = event_do E (\<lambda>_ _. True) x s" using calm by (simp add: calm_event_def event_do_def)
  have fine: "tasks_fine n (w_tasking ?w)" "n < u32_max" using inv n by (simp_all add: world_inv_def u32_max_def)
  have b: "4 \<le> ?B" "?B + 2 ^ 23 < 2 ^ 62" "101 * n + 100 < 2 ^ 31" using n by simp_all
  have "\<exists>a s'. event_do E (\<lambda>_ _. True) x s = Some (a, s') \<and> sound_at E (Suc n) s'"
  proof (cases x)
    case (Timer_irq ret)
    obtain t where t: "timer_tick_switch ret (w_tasking ?w) = Some t" "tasks_fine (Suc n) t" using tasks_fine_tick [OF fine] by blast
    have net: "net_ok (w_net ?w)" "tick_count (w_net ?w) + op_ticks Tick < 2 ^ 31" using inv b by (simp_all add: world_inv_def op_ticks_def)
    from good_op [OF this, of "e_libm E"] obtain m where m: "net_tick (e_libm E) (w_net ?w) = Some m" "net_ok m"
      "tick_count m \<le> tick_count (w_net ?w) + 1" by (auto simp: good_step_def net_do_def op_ticks_def)
    have "world_inv E (101 * Suc n) (Suc n) (2 ^ 40 + Suc n * 2 ^ 23) (Suc n) ?w" by (rule world_inv_mono [OF inv]) simp_all
    then show ?thesis using Timer_irq t m inv
      by (auto simp: event_do_def timer_interrupt_handler_def sound_at_def world_inv_def)
  next
    case (Keyboard_irq ch)
    let ?v = "?w\<lparr>w_typed := w_typed ?w @ [ch], w_net := on_key_stimulus (unat ch) (w_net ?w)\<rparr>"
    have "ch = 10 \<or> ch = 13 \<Longrightarrow> calm_line (w_cwd ?v) (e_stack_base E (w_tasking ?v)) (trim (w_line ?v))" using calm Keyboard_irq by (simp add: calm_event_def Let_def)
    from char_well [OF stimulus_well [OF inv] fine(2) b(1,2,3) this len] obtain a w' where
      "on_char E ch ?v = Some (a, w')" "world_inv E (101 * n + 100) n (?B + 2 ^ 23) n w'" by blast
    then show ?thesis using Keyboard_irq world_inv_mono [of E "101 * n + 100" n "?B + 2 ^ 23" n w' "101 * Suc n" "Suc n" "2 ^ 40 + Suc n * 2 ^ 23" "Suc n"]
      by (auto simp: event_do_def keyboard_interrupt_handler_def on_key_def sound_at_def)
  next
    case (Mouse_irq byte)
    have "length (map unat (prompt_string (w_cwd ?w))) \<le> 600" using prompt_length [OF inv] by simp
    then have K: "22 * (length exit_message + length (map unat (prompt_string (w_cwd ?w)))) \<le> 2 ^ 23" by (simp add: exit_message_def)
    have "pointer_ok (e_font E) ?B n (w_pointer ?w)" using inv by (simp add: world_inv_def)
    from pointer_byte [OF this K b(2), of byte] n obtain m where
      "mouse_interrupt (e_font E) (map unat (prompt_string (w_cwd ?w))) (w_pointer ?w) byte = Some m"
      "pointer_ok (e_font E) (?B + 2 ^ 23) (n + 1) m" by auto
    moreover have "world_inv E (101 * Suc n) (Suc n) (2 ^ 40 + Suc n * 2 ^ 23) (Suc n) ?w" by (rule world_inv_mono [OF inv]) simp_all
    ultimately show ?thesis using Mouse_irq
      by (auto simp: event_do_def mouse_interrupt_handler_def sound_at_def world_inv_def algebra_simps)
  next
    case (Start_demo stacks entries ret)
    then obtain c where "w_tasking ?w = boot_tasking c" and g: "\<forall>i < 3. stacks i \<noteq> None"
      using calm by (auto simp: calm_event_def Let_def tasks_idle_def)
    moreover obtain st where "run_preemption_demo stacks entries ret (boot_tasking c) = Some st" "tasks_ok 0 st"
      using demo_starts [of stacks entries ret c] g by auto
    ultimately have "\<exists>s'. on_tasking (run_preemption_demo stacks entries ret) s = Some s' \<and> sound_at E (Suc n) s'"
      by (intro tasking_well [OF sound, of _ st]) (auto simp: tasks_fine_def)
    then show ?thesis using Start_demo by (auto simp: event_do_def)
  next
    case Start_background
    then have "\<not> tasks_idle (w_tasking ?w)" using calm by (simp add: calm_event_def Let_def)
    from tasks_fine_do [OF fine this, of EnableBackground undefined] have "tasks_fine (Suc n) (enable_background_scheduling (w_tasking ?w))"
      by (auto simp: task_do_def is_tick_def granted_def intro: tasks_fine_mono)
    from tasking_well [OF sound _ this, of "\<lambda>t. Some (enable_background_scheduling t)"] show ?thesis
      using Start_background by (auto simp: event_do_def)
  next
    case (Code_runs c)
    have "tasks_fine (Suc n) ((w_tasking ?w)\<lparr>core := c\<rparr>)"
    proof (cases "tasks_idle (w_tasking ?w)")
      case True
      then show ?thesis by (auto simp: tasks_fine_def tasks_idle_def boot_tasking_def)
    next
      case False
      from tasks_fine_do [OF fine this, of "RunCode c" undefined] show ?thesis
        by (auto simp: task_do_def is_tick_def granted_def intro: tasks_fine_mono)
    qed
    from tasking_well [OF sound _ this, of "\<lambda>t. Some (t\<lparr>core := c\<rparr>)"] show ?thesis
      using Code_runs by (auto simp: event_do_def)
  next
    case (Worker_round i)
    then have "\<not> tasks_idle (w_tasking ?w)" using calm by (simp add: calm_event_def Let_def)
    from tasks_fine_do [OF fine this, of "CountUp i" undefined] have "tasks_fine (Suc n) (worker_count i (w_tasking ?w))"
      by (auto simp: task_do_def is_tick_def granted_def intro: tasks_fine_mono)
    from tasking_well [OF sound _ this, of "\<lambda>t. Some (worker_count i t)"] show ?thesis
      using Worker_round by (auto simp: event_do_def)
  qed
  then show ?thesis by (simp only: heap)
qed

section \<open>Boot\<close>

text \<open>Programs come back and keep the disk sound (they reach it through the system calls only).\<close>

definition user_ok :: "user_run \<Rightarrow> bool" where
  "user_ok user \<longleftrightarrow> (\<forall>rip rsp s. fs_ok (kdisk s) \<longrightarrow> (\<exists>s'. user rip rsp s = Some s' \<and> fs_ok (kdisk s')))"

lemma run_process_disk:
  assumes "user_ok user" "fs_ok (kdisk s)"
  shows "\<exists>r s'. run_process user pid s = Some (r, s') \<and> fs_ok (kdisk s')"
proof (cases "pid \<in> {1, 2, 4, 5, 6, 7} \<and> kstate.slots s pid \<noteq> None")
  case False
  then show ?thesis using assms(2) by (auto simp: run_process_def run_slot_def)
next
  case True
  then obtain p where p: "kstate.slots s pid = Some p" by blast
  have "fs_ok (kdisk (write_cr3 (pml4_frame p) (s\<lparr>active := pid\<rparr>)))" using assms(2) by (simp add: write_cr3_def)
  with assms(1) obtain s' where
    "user USER_CODE_ADDR (USER_STACK_ADDR + 4096) (write_cr3 (pml4_frame p) (s\<lparr>active := pid\<rparr>)) = Some s'" "fs_ok (kdisk s')"
    unfolding user_ok_def by blast
  then show ?thesis using True p by (auto simp: run_process_def run_slot_def)
qed

lemma signals_disk:
  assumes "user_ok user" "fs_ok (kdisk s)"
  shows "\<exists>s'. self_test_signals user s = Some s' \<and> fs_ok (kdisk s')"
proof -
  obtain r1 s1 where 1: "run_process user 6 s = Some (r1, s1)" "fs_ok (kdisk s1)" using run_process_disk [OF assms] by blast
  obtain r2 s2 where 2: "run_process user 1 s1 = Some (r2, s2)" "fs_ok (kdisk s2)" using run_process_disk [OF assms(1) 1(2)] by blast
  obtain r3 s3 where 3: "run_process user 7 s2 = Some (r3, s3)" "fs_ok (kdisk s3)" using run_process_disk [OF assms(1) 2(2)] by blast
  show ?thesis using 1 2 3 by (simp add: self_test_signals_def)
qed

lemma named_disk [simp]: "kdisk (snd (init_named_process mt pid lbl img s)) = kdisk s"
  by (auto simp: init_named_process_def split: prod.splits sum.splits)

lemma processes_disk [simp]: "kdisk (init_processes mt s) = kdisk s"
proof -
  have "kdisk (snd (andThen r (\<lambda>_. init_named_process mt pid lbl img))) = kdisk (snd r)"
    for r :: "(proc_error + unit) \<times> kstate" and pid lbl img
    by (cases r; cases "fst r") (auto simp: andThen_def)
  then show ?thesis
    by (simp add: init_processes_def Let_def init_test_processes_def init_fdtest_process_def init_fork_test_process_def
        init_sigsegv_test_process_def init_sigkill_test_process_def)
qed

lemma write_file_sound: "fs_ok d \<Longrightarrow> fs_ok (snd (write_file d p x))"
  using write_file_abs by (metis prod.collapse)

lemma self_test_disk_sound: "fs_ok d \<Longrightarrow> fs_ok (snd (self_test_disk_write d))"
  using write_file_sound [of d SELF_TEST_PATH SELF_TEST_CONTENT]
  by (auto simp: self_test_disk_write_def split: prod.splits sum.splits)

lemma descriptor_disk:
  "with_process_mut pid f s = (r, s') \<Longrightarrow> kdisk s' = kdisk s"
  "pipe_create pid s = (x, s') \<Longrightarrow> kdisk s' = kdisk s"
  "read_fd pid fd len s = (y, s') \<Longrightarrow> kdisk s' = kdisk s"
  "write_fd pid fd bs s = (z, s') \<Longrightarrow> kdisk s' = kdisk s"
  "dup_fd pid fd s = (z, s') \<Longrightarrow> kdisk s' = kdisk s"
proof -
  show w: "with_process_mut pid f s = (r, s') \<Longrightarrow> kdisk s' = kdisk s" for pid and f :: "proc \<Rightarrow> 'e \<times> proc" and s r s'
    by (auto simp: with_process_mut_def set_proc_def split: option.splits prod.splits)
  have ref: "kdisk (ref_pipe e s) = kdisk s" for e by (auto simp: ref_pipe_def split: fd_entry.split option.split)
  show "pipe_create pid s = (x, s') \<Longrightarrow> kdisk s' = kdisk s"
    by (auto simp: pipe_create_def Let_def split: option.splits prod.splits dest!: w)
  show "read_fd pid fd len s = (y, s') \<Longrightarrow> kdisk s' = kdisk s"
    by (auto simp: read_fd_def pipe_read_def split: option.splits prod.splits fd_entry.splits dest!: w)
  show "write_fd pid fd bs s = (z, s') \<Longrightarrow> kdisk s' = kdisk s"
    by (auto simp: write_fd_def pipe_write_def split: option.splits prod.splits fd_entry.splits dest!: w)
  show "dup_fd pid fd s = (z, s') \<Longrightarrow> kdisk s' = kdisk s"
    by (auto simp: dup_fd_def ref split: option.splits prod.splits dest!: w)
qed

lemma close_sound: "fs_ok (kdisk s) \<Longrightarrow> close_fd pid fd s = (r, s') \<Longrightarrow> fs_ok (kdisk s')"
  using write_file_sound [of "kdisk s"]
  by (auto simp: close_fd_def Let_def set_proc_def unref_pipe_def split: option.splits fd_entry.splits if_splits prod.splits sum.splits)
    (metis snd_conv)+

lemma dup2_sound:
  assumes "fs_ok (kdisk s)" "dup2_fd pid fd newfd s = (r, s')"
  shows "fs_ok (kdisk s')"
proof -
  have ref: "kdisk (ref_pipe e s) = kdisk s" for e s by (auto simp: ref_pipe_def split: fd_entry.split option.split)
  show ?thesis using assms close_sound [OF assms(1)]
    by (auto simp: dup2_fd_def ref split: if_splits option.splits prod.splits dest!: descriptor_disk(1))
qed

lemma pipe_check_disk: "pipe_check pid w r msg s = (b, s') \<Longrightarrow> kdisk s' = kdisk s"
  by (auto simp: pipe_check_def split: prod.splits dest!: descriptor_disk(3,4))

lemma pipe_test_sound: "fs_ok (kdisk s) \<Longrightarrow> fs_ok (kdisk (snd (self_test_pipe_mechanics s)))"
  by (auto simp: self_test_pipe_mechanics_def split: option.splits prod.splits bool.splits
      dest!: descriptor_disk(2) descriptor_disk(5) pipe_check_disk dup2_sound [rotated])

text \<open>The picture at boot needs a framebuffer as sound as the console does, and changes no sizes.\<close>

lemma put_bytes_works: "off + length vs \<le> length buf \<Longrightarrow> \<exists>b. put_bytes buf off vs = Some b \<and> length b = length buf"
  by (induction buf off vs rule: put_bytes.induct) auto

lemma gradient_cell_works:
  assumes ok: "fb_ok (console_new buf0 i)" and small: "row_start < 2 ^ 60" "x < 2 ^ 20"
  shows "\<exists>b. gradient_cell i row_start x buf = Some b \<and> length b = length buf"
proof -
  have bpp: "0 < bytes_per_pixel i" "bytes_per_pixel i \<le> 8" "pixel_format i \<noteq> U8 \<Longrightarrow> 3 \<le> bytes_per_pixel i"
    using ok by (auto simp: fb_ok_def console_new_def clear_def)
  have "x * bytes_per_pixel i \<le> 2 ^ 20 * 8" using small(2) bpp(2) by (intro mult_le_mono) auto
  then have off: "x * bytes_per_pixel i < 2 ^ 64" "row_start + x * bytes_per_pixel i < 2 ^ 64"
    "row_start + x * bytes_per_pixel i + bytes_per_pixel i < 2 ^ 64"
    using small(1) bpp(2) by auto
  obtain r g b where rgb: "gradient_rgb (fb_width i) x = (r, g, b)" by (metis prod_cases3)
  let ?o = "row_start + x * bytes_per_pixel i"
  show ?thesis
  proof (cases "length buf < ?o + bytes_per_pixel i")
    case False
    then show ?thesis using off rgb bpp put_bytes_works [of ?o "[r, g, b]" buf] put_bytes_works [of ?o "[b, g, r]" buf]
        put_bytes_works [of ?o "[gray_of (r, g, b)]" buf]
      by (cases "pixel_format i") (auto simp: gradient_cell_def simp del: put_bytes.simps)
  qed (use off in \<open>simp add: gradient_cell_def\<close>)
qed

lemma gradient_row_works:
  assumes ok: "fb_ok (console_new buf0 i)" and small: "row_start < 2 ^ 60"
  shows "\<forall>x \<in> set xs. x < 2 ^ 20 \<Longrightarrow> \<exists>b. gradient_row i row_start xs buf = Some b \<and> length b = length buf"
proof (induction xs arbitrary: buf)
  case (Cons x xs)
  then obtain b where "gradient_cell i row_start x buf = Some b" "length b = length buf"
    using gradient_cell_works [OF ok small, of x buf] by auto
  then show ?case using Cons.IH [of b] Cons.prems by simp
qed simp

lemma gradient_rows_works:
  assumes ok: "fb_ok (console_new buf0 i)" and w: "fb_width i < 2 ^ 20"
  shows "\<forall>y \<in> set ys. y < 2 ^ 31 \<Longrightarrow> \<exists>b. gradient_rows i ys buf = Some b \<and> length b = length buf"
proof (induction ys arbitrary: buf)
  case (Cons y ys)
  have s: "stride i < 2 ^ 20" "bytes_per_pixel i \<le> 8" using ok by (auto simp: fb_ok_def console_new_def clear_def)
  have "y * stride i \<le> 2 ^ 31 * 2 ^ 20" using Cons.prems s by (intro mult_le_mono) auto
  moreover from this s(2) have "y * stride i * bytes_per_pixel i \<le> 2 ^ 51 * 8" by (intro mult_le_mono) auto
  ultimately have off: "y * stride i < 2 ^ 64" "y * stride i * bytes_per_pixel i < 2 ^ 60" by simp_all
  obtain b where "gradient_row i (y * stride i * bytes_per_pixel i) [0..<fb_width i] buf = Some b" "length b = length buf"
    using gradient_row_works [OF ok off(2), of "[0..<fb_width i]" buf] w by auto
  then show ?case using off Cons.IH [of b] Cons.prems by simp
qed simp

lemma gradient_drawn:
  assumes "text_ok f (console_new buf i)"
  shows "\<exists>b. draw_gradient buf i = Some b \<and> console_new b i = console_new buf i"
proof -
  have ok: "fb_ok (console_new buf i)" "fb_width i < 2 ^ 20" "fb_height i < 2 ^ 31"
    using assms by (auto simp: text_ok_def fb_ok_def console_new_def clear_def)
  obtain b where "draw_gradient buf i = Some b" "length b = length buf"
    using gradient_rows_works [OF ok(1,2), of "[0..<fb_height i]" buf] ok(3) by (auto simp: draw_gradient_def)
  then show ?thesis by (simp add: console_new_def clear_def)
qed

lemma pointer_boot:
  assumes "\<forall>b i. fb = Some (b, i) \<longrightarrow> text_ok f (console_new b i)"
  shows "pointer_ok f 4 0 (mouse_boot (map_option (\<lambda>(b, i). console_new b i) fb))"
  using assms by (auto simp: pointer_ok_def mouse_ok_def mouse_boot_def console_new_def clear_def)

lemma boot_well:
  assumes heap: "init_heap (e_map_to E) (mach k) = (Inr fs, m)" and user: "user_ok (e_user E)" and disk: "fs_ok (kdisk k)"
    and fb: "\<forall>b i. fb = Some (b, i) \<longrightarrow> text_ok (e_font E) (console_new b i)" and ps2: "mouse_init F P p0 \<noteq> None"
  obtains w where "kernel_main E N (P, F, p0) fb k hw c = Some w" "world_inv E 0 0 (2 ^ 40) 0 w"
proof -
  obtain mapped m1 where set: "usertest_setup (e_map_to E) m = (mapped, m1)" by fastforce
  define k1 where "k1 = init_processes (e_map_to E) (k\<lparr>mach := m1, kernel_pml4 := cr3 m1\<rparr>)"
  define k2 where "k2 = k1\<lparr>kdisk := snd (self_test_disk_write (kdisk k1))\<rparr>"
  define k3 where "k3 = snd (self_test_pipe_mechanics k2)"
  have "fs_ok (kdisk k3)" using disk by (simp add: k1_def k2_def k3_def pipe_test_sound self_test_disk_sound)
  then obtain k4 where k4: "self_test_signals (e_user E) k3 = Some k4" "fs_ok (kdisk k4)" using signals_disk [OF user] by blast
  obtain r x hw1 where nic: "nic_init (e_card E) (N\<lparr>pci_devices := pci_init (pci_space N)\<rparr>) hw = (r, x, hw1)" by (metis prod_cases3)
  obtain t1 t2 where tr: "run_trial (f_of_ratio 6 10) = Some t1" "run_trial (f_of_ratio (- 6) 10) = Some t2"
    using trial_ok gaps_ok by blast
  define w where "w = \<lparr>w_line = [], w_cwd = [], w_kern = k4, w_net = booted_net (kdisk k3), w_tasking = boot_tasking c,
    w_pointer = mouse_boot (map_option (\<lambda>(b, i). console_new b i) fb), w_nic = (case r of Inl _ \<Rightarrow> None | Inr s \<Rightarrow> Some s),
    w_card = hw1, w_user_mapped = mapped, w_ports = [], w_typed = []\<rparr>"
  have inv: "world_inv E 0 0 4 0 w"
    using k4(2) pointer_boot [OF fb] booted_ok [of "kdisk k3"]
    by (auto simp: world_inv_def w_def tasks_fine_def tasks_idle_def cwd_ok_def)
  have "4 + 22 * length (map unat (prompt_string (w_cwd w))) \<le> 2 ^ 40" using prompt_length [OF inv] by simp
  from print_well [OF inv this] obtain p where p: "print_out E (map unat (prompt_string (w_cwd w))) w = Some (w\<lparr>w_pointer := p\<rparr>)"
    "world_inv E 0 0 (2 ^ 40) 0 (w\<lparr>w_pointer := p\<rparr>)" by auto
  have con: "(case fb of None \<Rightarrow> Some None | Some (b, i) \<Rightarrow> do { b \<leftarrow> draw_gradient b i; Some (Some (console_new b i)) })
      = Some (map_option (\<lambda>(b, i). console_new b i) fb)"
  proof (cases fb)
    case (Some bi)
    obtain b i where bi: "bi = (b, i)" by fastforce
    with Some fb obtain d where "draw_gradient b i = Some d" "console_new d i = console_new b i"
      using gradient_drawn [of "e_font E" b i] by auto
    then show ?thesis using Some bi by simp
  qed simp
  obtain p1 where p1: "mouse_init F P p0 = Some p1" using ps2 by blast
  have "kernel_main E N (P, F, p0) fb k hw c = show_prompt E w"
    using k4(1) p1 by (simp add: kernel_main_def con heap set nic tr w_def booted_net_def Let_def k3_def k2_def k1_def)
  with p show ?thesis by (intro that) (auto simp: show_prompt_def)
qed

text \<open>\<open>calm_run E heap s n s'\<close>: from \<open>s\<close> the kernel may get to \<open>s'\<close> by \<open>n\<close> calm events.\<close>

inductive calm_run :: "'h shell_env \<Rightarrow> (event \<Rightarrow> 'h system \<Rightarrow> bool) \<Rightarrow> 'h system \<Rightarrow> nat \<Rightarrow> 'h system \<Rightarrow> bool" for E heap s where
  booted: "calm_run E heap s 0 s"
| happens: "calm_run E heap s n u \<Longrightarrow> calm_event E heap x u \<Longrightarrow> event_do E heap x u = Some (a, v) \<Longrightarrow> calm_run E heap s (Suc n) v"

inductive_cases calm_run_SucE: "calm_run E heap s (Suc n) v"

lemma calm_run_sound:
  assumes "calm_run E heap s n v" "wording_ok E" "sound_at E 0 s" "n \<le> 2 ^ 22"
  shows "sound_at E n v"
  using assms
proof (induction rule: calm_run.induct)
  case (happens n u x a v)
  then have "sound_at E n u" by simp
  from event_well [OF this _ happens.hyps(2) assms(2)] happens.hyps(3) happens.prems(3) show ?case by simp
qed simp

text \<open>What remains of the invariant when the bounds are forgotten.\<close>

definition kernel_sound :: "'h shell_env \<Rightarrow> 'h world \<Rightarrow> bool" where
  "kernel_sound E w \<longleftrightarrow> net_ok (w_net w) \<and> (tasks_idle (w_tasking w) \<or> (\<exists>t. tasks_ok t (w_tasking w))) \<and>
     mouse_ok (e_font E) (w_pointer w) \<and> fs_ok (kdisk (w_kern w)) \<and> cwd_ok (w_cwd w) (kdisk (w_kern w))"

lemma sound_forget: "sound_at E n s \<Longrightarrow> kernel_sound E (sys_world s)"
  by (auto simp: sound_at_def world_inv_def kernel_sound_def pointer_ok_def tasks_fine_def)

text \<open>A machine whose heap can be mapped, for examples.\<close>

lemma demo_map_page:
  "maps m q p = None \<Longrightarrow> map_page demo_mapper e q p f m = (Inr (), m\<lparr>maps := (maps m)(q := (maps m q)(p \<mapsto> f))\<rparr>)"
  by (simp add: map_page_def demo_mapper_def)

lemma map_fresh_works:
  assumes "distinct pages" "\<forall>p \<in> set pages. maps m pml4 p = None" "next_frame (falloc m) + length pages \<le> length (usable_frames (falloc m))"
  shows "\<exists>fs m'. map_fresh demo_mapper pml4 pages m = (Inr fs, m')"
  using assms
proof (induction pages arbitrary: m)
  case (Cons p ps)
  let ?f = "usable_frames (falloc m) ! next_frame (falloc m)"
  let ?fa = "(falloc m)\<lparr>next_frame := next_frame (falloc m) + 1\<rparr>"
  let ?m = "m\<lparr>falloc := ?fa, maps := (maps m)(pml4 := (maps m pml4)(p \<mapsto> ?f))\<rparr>"
  have u: "usable_frames ?fa = usable_frames (falloc m)" by (rule usable_frames_regions) simp
  have "\<exists>fs m'. map_fresh demo_mapper pml4 ps ?m = (Inr fs, m')"
    by (rule Cons.IH) (use Cons.prems u in auto)
  then show ?case using Cons.prems
    by (auto simp: alloc_frame_def allocate_frame_def Let_def demo_map_page)
qed simp

lemma demo_heap: "\<exists>fs m. init_heap demo_mapper demo_machine = (Inr fs, m)"
proof -
  have "pages_between KERNEL_HEAP_START (KERNEL_HEAP_START + KERNEL_HEAP_SIZE - 1) = map (\<lambda>i. i * 4096) [0x44444444 * 0x10 ..< 0x44444444 * 0x10 + 25]"
    by (simp add: pages_between_def KERNEL_HEAP_START_def KERNEL_HEAP_SIZE_def PAGE_SIZE_def)
  then show ?thesis unfolding init_heap_def
    by (intro map_fresh_works) (auto simp: demo_machine_def demo_frames distinct_map inj_on_def)
qed

end
