(* ===== verification/Userland.thy ===== *)
theory Userland
  imports Syscall_Props
begin

text \<open>
  Programs of ring 3 written in Rust (\<open>tools/libc_test_src\<close>, \<open>tools/pipetest_src\<close>,
  \<open>tools/testelf_src\<close>): the system-call wrappers of \<open>libc.rs\<close> and the programs built on them, run
  against the kernel's own \<open>syscall_dispatch\<close>.  Where the linker and the stack put a program's
  constants and variables is a parameter, and so is what runs next when another program takes over (a
  forked child, an \<open>exec\<close>ed image).  An access to a byte without a page is a page fault.
\<close>

section \<open>Code in ring 3\<close>

text \<open>
  Code either goes on with a value or its process has ended; \<open>None\<close> is a kernel that never comes
  back.
\<close>

datatype 'a ran = Goes_on 'a | Ended

type_synonym 'a ring3 = "kstate \<Rightarrow> ('a ran \<times> kstate) option"

record ring3_env =
  r_map_to :: map_to_fn
  r_regs :: regs
  r_child :: user_run
  r_execed :: user_run

definition u_ret :: "'a \<Rightarrow> 'a ring3" where
  "u_ret a s = Some (Goes_on a, s)"

definition u_then :: "'a ring3 \<Rightarrow> ('a \<Rightarrow> 'b ring3) \<Rightarrow> 'b ring3" where
  "u_then m k s =
     (case m s of
        None \<Rightarrow> None
      | Some (Ended, s) \<Rightarrow> Some (Ended, s)
      | Some (Goes_on a, s) \<Rightarrow> k a s)"

definition u_fault :: "'a ring3" where
  "u_fault s = map_option (Pair Ended) (page_fault_handler s)"

definition u_load :: "u64 \<Rightarrow> nat \<Rightarrow> bytes ring3" where
  "u_load ptr n s = (case read_user s ptr n of None \<Rightarrow> u_fault s | Some bs \<Rightarrow> u_ret bs s)"

fun u_store :: "u64 \<Rightarrow> bytes \<Rightarrow> unit ring3" where
  "u_store ptr [] s = u_ret () s"
| "u_store ptr (b # bs) s =
     (case poke (unat ptr) b s of None \<Rightarrow> u_fault s | Some s \<Rightarrow> u_store (ptr + 1) bs s)"

text \<open>\<open>int 0x80\<close> with a number and three arguments in \<open>rax\<close>, \<open>rdi\<close>, \<open>rsi\<close>, \<open>rdx\<close>; the result is \<open>rax\<close>.\<close>

definition int80 :: "ring3_env \<Rightarrow> u64 \<Rightarrow> u64 \<Rightarrow> u64 \<Rightarrow> u64 \<Rightarrow> u64 ring3" where
  "int80 E n a b c s =
     (case syscall_dispatch (r_map_to E) (r_child E) ((r_regs E)\<lparr>rax := n, rdi := a, rsi := b, rdx := c\<rparr>) s of
        None \<Rightarrow> None
      | Some (Resume r, s) \<Rightarrow> Some (Goes_on (rax r), s)
      | Some (ToKernel, s) \<Rightarrow> Some (Ended, s)
      | Some (Enter ip sp, s) \<Rightarrow> map_option (Pair Ended) (r_execed E ip sp s))"

text \<open>A program as the kernel sees it: it runs until its process has ended.\<close>

definition as_user_run :: "unit ring3 \<Rightarrow> user_run" where
  "as_user_run m ip sp s = (case m s of Some (Ended, s) \<Rightarrow> Some s | _ \<Rightarrow> None)"

section \<open>The C library\<close>

abbreviation arg :: "ring3_env \<Rightarrow> (regs \<Rightarrow> u64) \<Rightarrow> u64" where
  "arg E field \<equiv> field (r_regs E)"

definition SYSCALL_FAIL :: u64 where "SYSCALL_FAIL = - 1"

definition libc_write :: "ring3_env \<Rightarrow> u64 \<Rightarrow> u64 \<Rightarrow> unit ring3" where
  "libc_write E ptr len = u_then (int80 E 0 ptr len (arg E rdx)) (\<lambda>_. u_ret ())"

definition libc_exit :: "ring3_env \<Rightarrow> u64 \<Rightarrow> unit ring3" where
  "libc_exit E code = u_then (int80 E 1 code (arg E rsi) (arg E rdx)) (\<lambda>_. u_ret ())"

definition libc_sbrk :: "ring3_env \<Rightarrow> u64 \<Rightarrow> u64 ring3" where
  "libc_sbrk E n = int80 E 2 n (arg E rsi) (arg E rdx)"

definition libc_open :: "ring3_env \<Rightarrow> u64 \<Rightarrow> u64 \<Rightarrow> u64 ring3" where
  "libc_open E path_ptr path_len = int80 E 3 path_ptr path_len (arg E rdx)"

definition libc_read :: "ring3_env \<Rightarrow> u64 \<Rightarrow> u64 \<Rightarrow> u64 \<Rightarrow> u64 ring3" where
  "libc_read E fd buf_ptr len = int80 E 4 fd buf_ptr len"

definition libc_fdwrite :: "ring3_env \<Rightarrow> u64 \<Rightarrow> u64 \<Rightarrow> u64 \<Rightarrow> u64 ring3" where
  "libc_fdwrite E fd ptr len = int80 E 5 fd ptr len"

definition libc_close :: "ring3_env \<Rightarrow> u64 \<Rightarrow> u64 ring3" where
  "libc_close E fd = int80 E 6 fd (arg E rsi) (arg E rdx)"

definition libc_fork :: "ring3_env \<Rightarrow> u64 ring3" where
  "libc_fork E = int80 E 7 (arg E rdi) (arg E rsi) (arg E rdx)"

definition libc_wait :: "ring3_env \<Rightarrow> u64 \<Rightarrow> u64 ring3" where
  "libc_wait E child_pid = int80 E 8 child_pid (arg E rsi) (arg E rdx)"

definition libc_exec :: "ring3_env \<Rightarrow> u64 \<Rightarrow> u64 \<Rightarrow> u64 ring3" where
  "libc_exec E path_ptr path_len = int80 E 9 path_ptr path_len (arg E rdx)"

section \<open>The libc test program\<close>

definition STARTUP_MSG :: bytes where
  "STARTUP_MSG = bytes_of ''hello from a REAL Rust program via the real libc (write())''"
definition CHILD_MSG :: bytes where
  "CHILD_MSG = bytes_of ''hello from the CHILD -- forked via libc'' @ [39] @ bytes_of ''s sys_fork()''"
definition DONE_MSG :: bytes where
  "DONE_MSG = bytes_of ''parent: wait() returned -- libc fork/wait round-trip OK''"
definition HEAP_MSG_PREFIX :: bytes where
  "HEAP_MSG_PREFIX = bytes_of ''heap marker byte read: ''"

record libc_layout =
  at_startup :: u64
  at_prefix :: u64
  at_byte_buf :: u64
  at_child :: u64
  at_done :: u64

text \<open>From the return of \<open>fork\<close> on, in either process.\<close>

definition libctest_forked :: "ring3_env \<Rightarrow> libc_layout \<Rightarrow> u64 \<Rightarrow> unit ring3" where
  "libctest_forked E L fork_result =
     (if fork_result = 0
      then u_then (libc_write E (at_child L) (of_nat (length CHILD_MSG))) (\<lambda>_. libc_exit E 0)
      else u_then
        (if fork_result \<noteq> SYSCALL_FAIL
         then u_then (libc_wait E fork_result) (\<lambda>_. libc_write E (at_done L) (of_nat (length DONE_MSG)))
         else u_ret ())
        (\<lambda>_. libc_exit E 0))"

definition libctest_heap :: "ring3_env \<Rightarrow> libc_layout \<Rightarrow> u64 \<Rightarrow> unit ring3" where
  "libctest_heap E L heap_ptr =
     (if heap_ptr \<noteq> SYSCALL_FAIL
      then u_then (u_store heap_ptr [75]) (\<lambda>_.
           u_then (u_load heap_ptr 1) (\<lambda>readback.
           u_then (libc_write E (at_prefix L) (of_nat (length HEAP_MSG_PREFIX))) (\<lambda>_.
           u_then (u_store (at_byte_buf L) readback) (\<lambda>_.
           libc_write E (at_byte_buf L) 1))))
      else u_ret ())"

text \<open>The child of this program runs \<open>libctest_forked\<close> with 0; it does not wait itself.\<close>

definition libctest_start :: "ring3_env \<Rightarrow> libc_layout \<Rightarrow> unit ring3" where
  "libctest_start E L =
     (let E = E\<lparr>r_child := as_user_run (libctest_forked (E\<lparr>r_child := \<lambda>_ _ _. None\<rparr>) L 0)\<rparr>
      in u_then (libc_write E (at_startup L) (of_nat (length STARTUP_MSG))) (\<lambda>_.
         u_then (libc_sbrk E 16) (\<lambda>heap_ptr.
         u_then (libctest_heap E L heap_ptr) (\<lambda>_.
         u_then (libc_fork E) (libctest_forked E L)))))"

section \<open>The pipe test program\<close>

definition MSG1 :: bytes where "MSG1 = bytes_of ''PIPETEST''"
definition MSG2 :: bytes where "MSG2 = bytes_of ''DUPTEST!''"
definition PASS_MSG :: bytes where "PASS_MSG = bytes_of ''milestone 40 pipetest: pipe=PASS dup2=PASS'' @ [10]"
definition FAIL_PIPE_MSG :: bytes where "FAIL_PIPE_MSG = bytes_of ''milestone 40 pipetest: pipe=FAIL dup2=SKIPPED'' @ [10]"
definition FAIL_DUP_MSG :: bytes where "FAIL_DUP_MSG = bytes_of ''milestone 40 pipetest: pipe=PASS dup2=FAIL'' @ [10]"

record pipe_layout =
  at_pipefd :: u64
  at_readbuf1 :: u64
  at_readbuf2 :: u64
  at_msg1 :: u64
  at_msg2 :: u64
  at_pass :: u64
  at_fail_pipe :: u64
  at_fail_dup :: u64

definition u_load64 :: "u64 \<Rightarrow> u64 ring3" where
  "u_load64 ptr = u_then (u_load ptr 8) (\<lambda>bs. u_ret (of_nat (le_val bs)))"

definition send_and_receive :: "ring3_env \<Rightarrow> u64 \<Rightarrow> u64 \<Rightarrow> u64 \<Rightarrow> u64 \<Rightarrow> bytes ring3" where
  "send_and_receive E wfd at_msg rfd buf =
     u_then (int80 E 5 wfd at_msg 8) (\<lambda>_.
     u_then (int80 E 4 rfd buf 8) (\<lambda>_.
     u_load buf 8))"

definition pipetest_start :: "ring3_env \<Rightarrow> pipe_layout \<Rightarrow> unit ring3" where
  "pipetest_start E L =
     u_then (u_store (at_pipefd L) (replicate 16 0)) (\<lambda>_.
     u_then (u_store (at_readbuf1 L) (replicate 8 0)) (\<lambda>_.
     u_then (u_store (at_readbuf2 L) (replicate 8 0)) (\<lambda>_.
     u_then (int80 E 10 (at_pipefd L) (arg E rsi) (arg E rdx)) (\<lambda>_.
     u_then (u_load64 (at_pipefd L)) (\<lambda>read_fd.
     u_then (u_load64 (at_pipefd L + 8)) (\<lambda>write_fd.
     u_then (send_and_receive E write_fd (at_msg1 L) read_fd (at_readbuf1 L)) (\<lambda>readbuf1.
     u_then (if readbuf1 = MSG1
             then u_then (int80 E 12 write_fd 3 (arg E rdx)) (\<lambda>_.
                  send_and_receive E 3 (at_msg2 L) read_fd (at_readbuf2 L))
             else u_load (at_readbuf2 L) 8) (\<lambda>readbuf2.
     let pipe_ok = (readbuf1 = MSG1); dup_ok = (pipe_ok \<and> readbuf2 = MSG2);
         (ptr, len) = (if pipe_ok \<and> dup_ok then (at_pass L, length PASS_MSG)
                       else if \<not> pipe_ok then (at_fail_pipe L, length FAIL_PIPE_MSG)
                       else (at_fail_dup L, length FAIL_DUP_MSG))
     in u_then (int80 E 0 ptr (of_nat len) (arg E rdx)) (\<lambda>_.
        u_then (int80 E 1 (arg E rdi) (arg E rsi) (arg E rdx)) (\<lambda>_. u_ret ()))))))))))"

section \<open>The two-segment test program\<close>

definition MESSAGE :: bytes where
  "MESSAGE = bytes_of ''hello from ELF PT_LOAD segment #2 (non-zero vaddr, real call) -- milestone 36 real ELF loader confirmed!''"

text \<open>\<open>_start\<close> only calls \<open>seg2_entry\<close>, pushing its return address on the stack at \<open>sp\<close>.\<close>

definition seg2_entry :: "ring3_env \<Rightarrow> u64 \<Rightarrow> unit ring3" where
  "seg2_entry E at_message =
     u_then (int80 E 0 at_message (of_nat (length MESSAGE)) (arg E rdx)) (\<lambda>_.
     u_then (int80 E 1 (arg E rdi) (arg E rsi) (arg E rdx)) (\<lambda>_. u_ret ()))"

definition testelf_start :: "ring3_env \<Rightarrow> u64 \<Rightarrow> u64 \<Rightarrow> u64 \<Rightarrow> unit ring3" where
  "testelf_start E sp ret_addr at_message =
     u_then (u_store (sp - 8) (le_bytes 8 (unat ret_addr))) (\<lambda>_. seg2_entry E at_message)"

end
