(* ===== verification/Userland_Props.thy ===== *)
theory Userland_Props
  imports Userland
begin

text \<open>
  What the programs of ring 3 do on this kernel: the pipe test prints that it passed, and two things
  the libc test expects of the kernel that it does not get, a failure value of \<open>sbrk\<close> and a \<open>fork\<close>
  that returns when the program was loaded by \<open>runelf\<close>.
\<close>

section \<open>Reading and writing memory\<close>

lemma those_Some: "those xs = Some ys \<longleftrightarrow> xs = map Some ys"
proof
  show "those xs = Some ys \<Longrightarrow> xs = map Some ys" by (induction xs arbitrary: ys) (auto split: option.splits)
qed (simp add: those_map_Some)

lemma read_user_iff:
  "read_user s ptr n = Some bs \<longleftrightarrow> length bs = n \<and> (\<forall>i < n. user_byte s (unat (ptr + of_nat i)) = Some (bs ! i))"
  by (auto simp: read_user_def those_Some list_eq_iff_nth_eq)

lemma read_user_split:
  assumes "read_user s ptr (length a + length b) = Some (a @ b)"
  shows "read_user s ptr (length a) = Some a" "read_user s (ptr + of_nat (length a)) (length b) = Some b"
proof -
  have all: "user_byte s (unat (ptr + of_nat i)) = Some ((a @ b) ! i)" if "i < length a + length b" for i
    using assms that by (simp add: read_user_iff)
  show "read_user s ptr (length a) = Some a" using all by (auto simp: read_user_iff nth_append)
  have "user_byte s (unat (ptr + of_nat (length a) + of_nat i)) = Some (b ! i)" if "i < length b" for i
    using all [of "length a + i"] that by (simp add: add.assoc)
  then show "read_user s (ptr + of_nat (length a)) (length b) = Some b" by (simp add: read_user_iff)
qed

lemma read_user_None: "read_user s ptr n = None \<longleftrightarrow> None \<in> set (buffer_locs s ptr n)"
proof -
  have "those xs = None \<longleftrightarrow> None \<in> set xs" for xs :: "u8 option list"
    by (induction xs) (auto split: option.splits)
  then show ?thesis by (auto simp: read_user_locs)
qed

text \<open>
  \<open>steady W s0 s\<close>: since \<open>s0\<close> only the bytes at the places of \<open>W\<close>, and processes and pipes, have changed.
\<close>

definition steady :: "(nat \<times> nat) option set \<Rightarrow> kstate \<Rightarrow> kstate \<Rightarrow> bool" where
  "steady W s0 s \<longleftrightarrow> user_loc s = user_loc s0 \<and> whole_frames s \<and> active s = active s0 \<and> kernel_pml4 s = kernel_pml4 s0 \<and>
     serial_out s = serial_out s0 \<and> kdisk s = kdisk s0 \<and> in_child s = in_child s0 \<and>
     (\<forall>l. snd l < 4096 \<longrightarrow> Some l \<notin> W \<longrightarrow> mem_at s l = mem_at s0 l)"

lemma steady_refl: "whole_frames s \<Longrightarrow> steady W s s"
  by (simp add: steady_def)

lemma steady_locs: "steady W s0 s \<Longrightarrow> buffer_locs s = buffer_locs s0"
  by (simp add: steady_def buffer_locs_def fun_eq_iff)

lemma steady_read:
  assumes st: "steady W s0 s" and out: "set (buffer_locs s0 ptr n) \<inter> W = {}"
  shows "read_user s ptr n = read_user s0 ptr n"
proof -
  have "map_option (mem_at s) x = map_option (mem_at s0) x" if x: "x \<in> set (buffer_locs s0 ptr n)" for x
  proof (cases x)
    case (Some l)
    then obtain va where "user_loc s0 va = Some l" using x by (auto simp: buffer_locs_def intro: sym)
    then have "snd l < 4096" by (rule user_loc_offset)
    moreover have "Some l \<notin> W" using Some x out by auto
    ultimately show ?thesis using Some st by (cases l) (simp add: steady_def)
  qed simp
  then show ?thesis by (simp add: read_user_locs steady_locs [OF st] cong: map_cong)
qed

lemma steady_store:
  assumes st: "steady W s0 s" and room: "set (buffer_locs s0 ptr (length bs)) \<subseteq> W" "distinct (buffer_locs s0 ptr (length bs))"
    and mapped: "None \<notin> W"
  obtains s' where "write_user ptr bs s = Some s'" "steady W s0 s'" "read_user s' ptr (length bs) = Some bs"
    "s' = s\<lparr>mach := mach s'\<rparr>"
proof -
  note bl = steady_locs [OF st]
  have "None \<notin> set (buffer_locs s ptr (length bs))" using room(1) mapped bl by auto
  then obtain s' where w: "write_user ptr bs s = Some s'" using write_user_mapped by blast
  have wf: "whole_frames s" using st by (simp add: steady_def)
  note wl = write_user_locs [OF wf w, unfolded bl]
  have s': "s' = s\<lparr>mach := mach s'\<rparr>" "same_ctl s s'" using write_user_ctl [OF w] by auto
  then have same: "serial_out s' = serial_out s" "kdisk s' = kdisk s" "in_child s' = in_child s" "active s' = active s"
    "kernel_pml4 s' = kernel_pml4 s" by (metis kstate.select_convs kstate.surjective kstate.update_convs(5))+
  have "steady W s0 s'" using st wl room(1) same by (fastforce simp: steady_def)
  moreover have "read_user s' ptr (length bs) = Some bs"
    using wl room(2) steady_locs [OF \<open>steady W s0 s'\<close>] by (simp add: read_user_locs those_map_Some)
  ultimately show ?thesis using w s'(1) that by blast
qed

lemma kernel_only_locs [simp]:
  "user_loc (s\<lparr>slots := a, ptable := b, pipes := c\<rparr>) = user_loc s" "user_loc (s\<lparr>pipes := c\<rparr>) = user_loc s"
  "user_loc (s\<lparr>slots := a, ptable := b\<rparr>) = user_loc s" "user_loc (s\<lparr>serial_out := bs\<rparr>) = user_loc s"
  "user_loc (s\<lparr>slots := a\<rparr>) = user_loc s" "user_loc (s\<lparr>ptable := b\<rparr>) = user_loc s"
  by (simp_all add: fun_eq_iff user_loc_def translate_def)

lemma steady_kernel:
  assumes "steady W s0 s"
  shows "steady W s0 (s\<lparr>slots := a, ptable := b, pipes := c\<rparr>)" "steady W s0 (s\<lparr>pipes := c\<rparr>)"
  using assms by (simp_all add: steady_def whole_frames_def mem_at_def)

lemma proc_mach [simp]: "get_proc (s\<lparr>mach := m\<rparr>) = get_proc s" "get_proc (s\<lparr>serial_out := bs\<rparr>) = get_proc s"
  by (simp_all add: fun_eq_iff get_proc_def)

lemma waiting_mach [simp]: "waiting pid (s\<lparr>mach := m\<rparr>) t i bs = waiting pid s t i bs"
  by (simp add: waiting_def ids_ok_def)

lemma u_store_write: "write_user ptr bs s = Some s' \<Longrightarrow> u_store ptr bs s = Some (Goes_on (), s')"
  by (induction ptr bs s rule: write_user.induct) (auto simp: u_ret_def split: option.splits)

lemma u_load_read: "read_user s ptr n = Some bs \<Longrightarrow> u_load ptr n s = Some (Goes_on bs, s)"
  by (simp add: u_load_def u_ret_def)

lemma u_then_on: "m s = Some (Goes_on a, s1) \<Longrightarrow> u_then m k s = k a s1"
  by (simp add: u_then_def)

section \<open>System calls of a program with a pipe\<close>

lemma fdwrite_call:
  assumes st: "steady W s0 s" "active s0 \<noteq> 0" and q: "waiting (active s0) s t i []"
    and fd: "fd_at t (unat fd) = Some (FdPipeWrite i)" and msg: "read_user s ptr (length msg) = Some msg" "length msg \<le> 512"
  obtains s' v where "int80 E 5 fd ptr (of_nat (length msg)) s = Some (Goes_on v, s')" "steady W s0 s'" "waiting (active s0) s' t i msg"
proof -
  have a: "active s = active s0" using st by (simp add: steady_def)
  obtain s' where s': "write_fd (active s0) (unat fd) msg s = (Some (length msg), s')" "waiting (active s0) s' t i msg"
    "s' = s\<lparr>pipes := pipes s'\<rparr>" using pipe_put [OF q fd msg(2)] by blast
  have "unat (of_nat (length msg) :: u64) = length msg" using msg(2) by (simp add: unat_of_nat)
  then have "int80 E 5 fd ptr (of_nat (length msg)) s = Some (Goes_on (of_nat (length msg)), s')"
    using s'(1) a st(2) msg by (simp add: int80_def syscall_dispatch_def sys_fdwrite_def min_absorb1)
  moreover have "steady W s0 s'" using steady_kernel(2) [OF st(1)] s'(3) by metis
  ultimately show ?thesis using s'(2) that by blast
qed

lemma read_call:
  assumes st: "steady W s0 s" "active s0 \<noteq> 0" and q: "waiting (active s0) s t i msg"
    and fd: "fd_at t (unat fd) = Some (FdPipeRead i)" and len: "length msg \<le> 512"
    and room: "set (buffer_locs s0 ptr (length msg)) \<subseteq> W" "distinct (buffer_locs s0 ptr (length msg))" "None \<notin> W"
  obtains s' v where "int80 E 4 fd ptr (of_nat (length msg)) s = Some (Goes_on v, s')" "steady W s0 s'" "waiting (active s0) s' t i []"
    "read_user s' ptr (length msg) = Some msg"
proof -
  have a: "active s = active s0" using st by (simp add: steady_def)
  obtain s1 where s1: "read_fd (active s0) (unat fd) (length msg) s = (Some msg, s1)" "waiting (active s0) s1 t i []"
    "s1 = s\<lparr>pipes := pipes s1\<rparr>" using pipe_take [OF q fd] by blast
  have "steady W s0 s1" using steady_kernel(2) [OF st(1)] s1(3) by metis
  then obtain s' where s': "write_user ptr msg s1 = Some s'" "steady W s0 s'" "read_user s' ptr (length msg) = Some msg"
    "s' = s1\<lparr>mach := mach s'\<rparr>" by (rule steady_store [OF _ room])
  have "unat (of_nat (length msg) :: u64) = length msg" using len by (simp add: unat_of_nat)
  then have "int80 E 4 fd ptr (of_nat (length msg)) s = Some (Goes_on (of_nat (length msg)), s')"
    using s1(1) s'(1) a st(2) len by (simp add: int80_def syscall_dispatch_def sys_read_def min_absorb1)
  moreover have "waiting (active s0) s' t i []" using s1(2) s'(4) waiting_mach by metis
  ultimately show ?thesis using s'(2,3) that by blast
qed

lemma exchange:
  assumes st: "steady W s0 s" "active s0 \<noteq> 0" and q: "waiting (active s0) s t i []"
    and fds: "fd_at t (unat wfd) = Some (FdPipeWrite i)" "fd_at t (unat rfd) = Some (FdPipeRead i)"
    and msg: "read_user s0 ptr 8 = Some msg" "set (buffer_locs s0 ptr 8) \<inter> W = {}"
    and room: "set (buffer_locs s0 buf 8) \<subseteq> W" "distinct (buffer_locs s0 buf 8)" "None \<notin> W"
  obtains s' where "send_and_receive E wfd ptr rfd buf s = Some (Goes_on msg, s')" "steady W s0 s'" "waiting (active s0) s' t i []"
proof -
  have len: "length msg = 8" using msg(1) by (simp add: read_user_iff)
  have "read_user s ptr (length msg) = Some msg" using steady_read [OF st(1) msg(2)] msg(1) len by simp
  then obtain s1 v where s1: "int80 E 5 wfd ptr (of_nat (length msg)) s = Some (Goes_on v, s1)" "steady W s0 s1"
    "waiting (active s0) s1 t i msg" by (rule fdwrite_call [OF st q fds(1)]) (use len in simp)
  obtain s2 u where s2: "int80 E 4 rfd buf (of_nat (length msg)) s1 = Some (Goes_on u, s2)" "steady W s0 s2"
    "waiting (active s0) s2 t i []" "read_user s2 buf (length msg) = Some msg"
    by (rule read_call [OF s1(2) st(2) s1(3) fds(2)]) (use len room in simp_all)
  have "send_and_receive E wfd ptr rfd buf s = Some (Goes_on msg, s2)"
    using s1(1) s2(1,4) len by (simp add: send_and_receive_def u_then_def u_load_read)
  then show ?thesis using s2(2,3) by (rule that)
qed

lemma pipe_call:
  assumes st: "steady W s0 s" "active s0 \<noteq> 0" and ids: "ids_ok s" and p: "get_proc s (active s0) = Some p" "fds p = [None, None, None, None]"
    and free: "None \<in> set (pipes s)" and al: "unat ptr mod 8 = 0"
    and room: "set (buffer_locs s0 ptr 16) \<subseteq> W" "distinct (buffer_locs s0 ptr 16)" "None \<notin> W"
  obtains i s' where "int80 E 10 ptr b c s = Some (Goes_on 0, s')" "steady W s0 s'"
    "waiting (active s0) s' [Some (FdPipeRead i), Some (FdPipeWrite i), None, None] i []"
    "read_user s' ptr 16 = Some (le_bytes 8 0 @ le_bytes 8 1)"
proof -
  have a: "active s = active s0" using st by (simp add: steady_def)
  obtain i s1 where s1: "pipe_create (active s0) s = (Some (0, 1), s1)"
    "waiting (active s0) s1 [Some (FdPipeRead i), Some (FdPipeWrite i), None, None] i []"
    "s1 = s\<lparr>slots := slots s1, ptable := ptable s1, pipes := pipes s1\<rparr>"
    by (rule pipe_made [OF ids p free])
  have t: "steady W s0 s1" using steady_kernel(1) [OF st(1)] s1(3) by metis
  let ?w = "le_bytes 8 0 @ le_bytes 8 1"
  have len: "length ?w = 16" by simp
  have big: "set (buffer_locs s0 ptr (length ?w)) \<subseteq> W" "distinct (buffer_locs s0 ptr (length ?w))" using room len by simp_all
  obtain s' where s': "write_user ptr ?w s1 = Some s'" "steady W s0 s'" "read_user s' ptr (length ?w) = Some ?w"
    "s' = s1\<lparr>mach := mach s'\<rparr>" by (rule steady_store [OF t big room(3)])
  have "int80 E 10 ptr b c s = Some (Goes_on 0, s')"
    using s1(1) s'(1) a st(2) al by (simp add: int80_def syscall_dispatch_def sys_pipe_def)
  moreover have "waiting (active s0) s' [Some (FdPipeRead i), Some (FdPipeWrite i), None, None] i []"
    using s1(2) s'(4) waiting_mach by metis
  ultimately show ?thesis using s'(2,3) len that by metis
qed

lemma dup2_call:
  assumes st: "steady W s0 s" "active s0 \<noteq> 0"
    and q: "waiting (active s0) s [Some (FdPipeRead i), Some (FdPipeWrite i), None, None] i []"
  obtains s' where "int80 E 12 1 3 c s = Some (Goes_on 3, s')" "steady W s0 s'"
    "waiting (active s0) s' [Some (FdPipeRead i), Some (FdPipeWrite i), None, Some (FdPipeWrite i)] i []"
proof -
  have a: "active s = active s0" using st by (simp add: steady_def)
  let ?t = "[Some (FdPipeRead i), Some (FdPipeWrite i), None, Some (FdPipeWrite i)]"
  obtain p where p: "get_proc s (active s0) = Some p" "fds p = [Some (FdPipeRead i), Some (FdPipeWrite i), None, None]"
    using q by (auto simp: waiting_def)
  let ?s = "set_proc (active s0) (p\<lparr>fds := ?t\<rparr>) (ref_pipe (FdPipeWrite i) s)"
  have "dup2_fd (active s0) 1 3 s = (Some True, ?s)"
    using p by (simp add: dup2_fd_def proc_fd_def fd_at_def with_process_mut_def)
  then have "int80 E 12 1 3 c s = Some (Goes_on 3, ?s)"
    using a st(2) by (simp add: int80_def syscall_dispatch_def sys_dup2_def)
  moreover have "?s = s\<lparr>slots := slots ?s, ptable := ptable ?s, pipes := pipes ?s\<rparr>"
    by (simp add: set_proc_def ref_pipe_def split: option.split)
  then have "steady W s0 ?s" using steady_kernel(1) [OF st(1)] by metis
  moreover have "waiting (active s0) ?s ?t i []" using waiting_put [OF q, of 3 "FdPipeWrite i" p] p(1) by simp
  ultimately show ?thesis by (rule that)
qed

lemma write_exit:
  assumes st: "steady W s0 s" "active s0 \<noteq> 0" and heap: "user_byte s0 HEAP_START \<noteq> None"
    and msg: "read_user s ptr (length msg) = Some msg" "length msg \<le> 4096"
  shows "u_then (int80 E 0 ptr (of_nat (length msg)) a) (\<lambda>_. u_then (int80 E 1 b c d) k) s
    = Some (Ended, (restore_kernel_cr3 (s\<lparr>serial_out := serial_out s0 @ msg\<rparr>))\<lparr>active := 0\<rparr>)"
proof -
  have "user_byte s HEAP_START \<noteq> None" using heap st(1) by (simp add: user_byte_loc steady_def)
  moreover have "unat (of_nat (length msg) :: u64) = length msg" using msg(2) by (simp add: unat_of_nat)
  ultimately show ?thesis using st msg
    by (simp add: u_then_def int80_def syscall_dispatch_def sys_write_def sys_exit_def min_absorb1 steady_def)
qed

section \<open>The pipe test passes\<close>

text \<open>
  The variables of the program are mapped to different places, apart from its messages, which are in
  place, and the first page of the heap is mapped (the kernel logs its first byte with every \<open>write\<close>).
\<close>

definition pipe_room :: "kstate \<Rightarrow> pipe_layout \<Rightarrow> (nat \<times> nat) option list" where
  "pipe_room s L = buffer_locs s (at_pipefd L) 16 @ buffer_locs s (at_readbuf1 L) 8 @ buffer_locs s (at_readbuf2 L) 8"

definition in_place :: "kstate \<Rightarrow> pipe_layout \<Rightarrow> u64 \<Rightarrow> bytes \<Rightarrow> bool" where
  "in_place s L ptr msg \<longleftrightarrow> read_user s ptr (length msg) = Some msg \<and> set (buffer_locs s ptr (length msg)) \<inter> set (pipe_room s L) = {}"

definition pipe_layout_ok :: "kstate \<Rightarrow> pipe_layout \<Rightarrow> bool" where
  "pipe_layout_ok s L \<longleftrightarrow> distinct (pipe_room s L) \<and> None \<notin> set (pipe_room s L) \<and> unat (at_pipefd L) mod 8 = 0 \<and>
     in_place s L (at_msg1 L) MSG1 \<and> in_place s L (at_msg2 L) MSG2 \<and> in_place s L (at_pass L) PASS_MSG \<and>
     user_byte s HEAP_START \<noteq> None"

lemma messages [simp]: "length MSG1 = 8" "length MSG2 = 8" "length PASS_MSG = 43"
  by (simp_all add: MSG1_def MSG2_def PASS_MSG_def bytes_of_def)

lemma store_var:
  assumes "steady W s0 s" "set (buffer_locs s0 ptr (length bs)) \<subseteq> W" "distinct (buffer_locs s0 ptr (length bs))" "None \<notin> W"
  obtains m where "u_store ptr bs s = Some (Goes_on (), s\<lparr>mach := m\<rparr>)" "steady W s0 (s\<lparr>mach := m\<rparr>)"
  using steady_store [OF assms] u_store_write by metis

text \<open>
  C13. The pipe test program passes.  In a process without open descriptors, with a pipe slot free and
  its memory laid out as the linker and the stack do, it runs to its exit: what went through the pipe
  and through the \<open>dup2\<close>ed descriptor came back, it has printed exactly its message of success, the
  disk is as before, and the kernel is back in its own context.
\<close>

theorem pipetest_passes:
  assumes act: "active s \<noteq> 0" "get_proc s (active s) = Some p" "fds p = [None, None, None, None]" "ids_ok s"
    and free: "None \<in> set (pipes s)" and mem: "whole_frames s" "pipe_layout_ok s L"
  shows "\<exists>s'. pipetest_start E L s = Some (Ended, s') \<and> serial_out s' = serial_out s @ PASS_MSG \<and> kdisk s' = kdisk s \<and>
    back_in_kernel s s'"
proof -
  let ?W = "set (pipe_room s L)"
  have W: "None \<notin> ?W" "unat (at_pipefd L) mod 8 = 0" and d: "distinct (pipe_room s L)" and heap: "user_byte s HEAP_START \<noteq> None"
    and msgs: "in_place s L (at_msg1 L) MSG1" "in_place s L (at_msg2 L) MSG2" "in_place s L (at_pass L) PASS_MSG"
    using mem(2) by (auto simp: pipe_layout_ok_def)
  have r: "set (buffer_locs s (at_pipefd L) 16) \<subseteq> ?W" "distinct (buffer_locs s (at_pipefd L) 16)"
    "set (buffer_locs s (at_readbuf1 L) 8) \<subseteq> ?W" "distinct (buffer_locs s (at_readbuf1 L) 8)"
    "set (buffer_locs s (at_readbuf2 L) 8) \<subseteq> ?W" "distinct (buffer_locs s (at_readbuf2 L) 8)"
    using d by (auto simp: pipe_room_def)
  obtain m1 where s1: "u_store (at_pipefd L) (replicate 16 0) s = Some (Goes_on (), s\<lparr>mach := m1\<rparr>)" "steady ?W s (s\<lparr>mach := m1\<rparr>)"
    by (rule store_var [OF steady_refl [OF mem(1)] _ _ W(1), of "at_pipefd L" "replicate 16 0"]) (use r in simp_all)
  obtain m2 where s2: "u_store (at_readbuf1 L) (replicate 8 0) (s\<lparr>mach := m1\<rparr>) = Some (Goes_on (), s\<lparr>mach := m1\<rparr>\<lparr>mach := m2\<rparr>)"
    "steady ?W s (s\<lparr>mach := m1\<rparr>\<lparr>mach := m2\<rparr>)"
    by (rule store_var [OF s1(2) _ _ W(1), of "at_readbuf1 L" "replicate 8 0"]) (use r in simp_all)
  obtain m where s3: "u_store (at_readbuf2 L) (replicate 8 0) (s\<lparr>mach := m1\<rparr>\<lparr>mach := m2\<rparr>)
      = Some (Goes_on (), s\<lparr>mach := m1\<rparr>\<lparr>mach := m2\<rparr>\<lparr>mach := m\<rparr>)" "steady ?W s (s\<lparr>mach := m1\<rparr>\<lparr>mach := m2\<rparr>\<lparr>mach := m\<rparr>)"
    by (rule store_var [OF s2(2) _ _ W(1), of "at_readbuf2 L" "replicate 8 0"]) (use r in simp_all)
  let ?s3 = "s\<lparr>mach := m\<rparr>"
  have stores: "u_store (at_readbuf1 L) (replicate 8 0) (s\<lparr>mach := m1\<rparr>) = Some (Goes_on (), s\<lparr>mach := m2\<rparr>)"
    "u_store (at_readbuf2 L) (replicate 8 0) (s\<lparr>mach := m2\<rparr>) = Some (Goes_on (), ?s3)"
    using s2(1) s3(1) by simp_all
  have t3: "steady ?W s ?s3" using s3(2) by simp
  have k: "ids_ok ?s3" "get_proc ?s3 (active s) = Some p" "None \<in> set (pipes ?s3)"
    using act free by (simp_all add: ids_ok_def)
  obtain i s4 where s4: "int80 E 10 (at_pipefd L) (arg E rsi) (arg E rdx) ?s3 = Some (Goes_on 0, s4)" "steady ?W s s4"
    "waiting (active s) s4 [Some (FdPipeRead i), Some (FdPipeWrite i), None, None] i []"
    "read_user s4 (at_pipefd L) 16 = Some (le_bytes 8 0 @ le_bytes 8 1)"
    by (rule pipe_call [OF t3 act(1) k(1,2) act(3) k(3) W(2) r(1,2) W(1)])
  have fd: "u_load64 (at_pipefd L) s4 = Some (Goes_on 0, s4)" "u_load64 (at_pipefd L + 8) s4 = Some (Goes_on 1, s4)"
    using read_user_split [of s4 "at_pipefd L" "le_bytes 8 0" "le_bytes 8 1"] s4(4)
    by (simp_all add: u_load64_def u_then_def u_load_read u_ret_def del: le_bytes.simps)
  obtain s5 where s5: "send_and_receive E 1 (at_msg1 L) 0 (at_readbuf1 L) s4 = Some (Goes_on MSG1, s5)" "steady ?W s s5"
    "waiting (active s) s5 [Some (FdPipeRead i), Some (FdPipeWrite i), None, None] i []"
    by (rule exchange [OF s4(2) act(1) s4(3), of 1 0 "at_msg1 L" MSG1 "at_readbuf1 L"])
      (use msgs r W in \<open>simp_all add: fd_at_def in_place_def\<close>)
  obtain s6 where s6: "int80 E 12 1 3 (arg E rdx) s5 = Some (Goes_on 3, s6)" "steady ?W s s6"
    "waiting (active s) s6 [Some (FdPipeRead i), Some (FdPipeWrite i), None, Some (FdPipeWrite i)] i []"
    by (rule dup2_call [OF s5(2) act(1) s5(3)])
  obtain s7 where s7: "send_and_receive E 3 (at_msg2 L) 0 (at_readbuf2 L) s6 = Some (Goes_on MSG2, s7)" "steady ?W s s7"
    by (rule exchange [OF s6(2) act(1) s6(3), of 3 0 "at_msg2 L" MSG2 "at_readbuf2 L"])
      (use msgs r W in \<open>simp_all add: fd_at_def in_place_def\<close>)
  have pass: "read_user s7 (at_pass L) (length PASS_MSG) = Some PASS_MSG"
    using steady_read [OF s7(2)] msgs(3) by (simp add: in_place_def)
  let ?s = "(restore_kernel_cr3 (s7\<lparr>serial_out := serial_out s @ PASS_MSG\<rparr>))\<lparr>active := 0\<rparr>"
  have "pipetest_start E L s = Some (Ended, ?s)"
    using write_exit [OF s7(2) act(1) heap pass, where E = E and a = "arg E rdx" and b = "arg E rdi" and c = "arg E rsi"
        and d = "arg E rdx" and k = "\<lambda>_. u_ret ()"]
    by (simp add: pipetest_start_def u_then_on s1(1) stores s4(1) fd s5(1) s6(1) s7(1))
  moreover have "back_in_kernel s ?s \<and> kdisk ?s = kdisk s"
    using s7(2) by (simp add: back_in_kernel_def restore_kernel_cr3_def write_cr3_def steady_def)
  ultimately show ?thesis by (intro exI [of _ ?s]) (simp add: restore_kernel_cr3_def write_cr3_def)
qed

text \<open>A process whose pages are all one frame, with the program's messages behind its variables.\<close>

definition test_page :: bytes where
  "test_page = replicate 32 7 @ MSG1 @ MSG2 @ PASS_MSG @ replicate 4005 7"

definition demo_tester :: kstate where
  "demo_tester = demo_kernel\<lparr>mach := demo_machine\<lparr>maps := \<lambda>_ _. Some 9, phys := (phys demo_machine)(9 := test_page)\<rparr>\<rparr>"

definition demo_layout :: pipe_layout where
  "demo_layout = \<lparr>at_pipefd = 0, at_readbuf1 = 16, at_readbuf2 = 24, at_msg1 = 32, at_msg2 = 40, at_pass = 48,
     at_fail_pipe = 0, at_fail_dup = 0\<rparr>"

lemma tester_byte: "va < 4096 \<Longrightarrow> user_loc demo_tester va = Some (9, va)"
  by (simp add: user_loc_def translate_def demo_tester_def canonical_def)

lemma small_offset: "unat (ptr :: u64) + n \<le> 4096 \<Longrightarrow> i < n \<Longrightarrow> unat (ptr + of_nat i) = unat ptr + i"
  by (simp add: unat_word_ariths unat_of_nat)

lemma tester_locs: "unat ptr + n \<le> 4096 \<Longrightarrow> buffer_locs demo_tester ptr n = map (\<lambda>i. Some (9, unat ptr + i)) [0..<n]"
  by (simp add: buffer_locs_def small_offset tester_byte)

lemma tester_message:
  assumes "unat ptr + length msg \<le> 4096" "32 \<le> unat ptr" "\<And>i. i < length msg \<Longrightarrow> test_page ! (unat ptr + i) = msg ! i"
  shows "in_place demo_tester demo_layout ptr msg"
proof -
  have "mem_at demo_tester (9, j) = test_page ! j" for j by (simp add: mem_at_def demo_tester_def)
  then have "read_user demo_tester ptr (length msg) = Some msg"
    using assms by (simp add: read_user_iff user_byte_loc small_offset tester_byte)
  moreover have "set (buffer_locs demo_tester ptr (length msg)) \<inter> set (pipe_room demo_tester demo_layout) = {}"
    using assms(1,2) by (auto simp: tester_locs pipe_room_def demo_layout_def)
  ultimately show ?thesis by (simp add: in_place_def)
qed

lemma tester_ok: "pipe_layout_ok demo_tester demo_layout" "whole_frames demo_tester"
proof -
  have room: "pipe_room demo_tester demo_layout =
      map (\<lambda>i. Some (9, i)) [0..<16] @ map (\<lambda>i. Some (9, 16 + i)) [0..<8] @ map (\<lambda>i. Some (9, 24 + i)) [0..<8]"
    by (simp add: pipe_room_def demo_layout_def tester_locs)
  have d: "distinct (pipe_room demo_tester demo_layout)" "None \<notin> set (pipe_room demo_tester demo_layout)"
    unfolding room by (auto simp: distinct_map inj_on_def simp del: upt_Suc)
  have "in_place demo_tester demo_layout 32 MSG1" "in_place demo_tester demo_layout 40 MSG2" "in_place demo_tester demo_layout 48 PASS_MSG"
    by (rule tester_message; simp add: test_page_def nth_append)+
  moreover have "user_byte demo_tester HEAP_START \<noteq> None"
    by (simp add: user_byte_def translate_def demo_tester_def canonical_def HEAP_START_def)
  ultimately show "pipe_layout_ok demo_tester demo_layout" using d by (simp add: pipe_layout_ok_def demo_layout_def)
  show "whole_frames demo_tester" by (simp add: whole_frames_def demo_tester_def demo_machine_def test_page_def)
qed

theorem pipetest_passes_witness:
  "\<exists>s'. pipetest_start \<lparr>r_map_to = demo_mapper, r_regs = zero_regs, r_child = exits_at_once, r_execed = exits_at_once\<rparr>
       demo_layout demo_tester = Some (Ended, s') \<and>
     serial_out s' = bytes_of ''milestone 40 pipetest: pipe=PASS dup2=PASS'' @ [10] \<and> active s' = 0"
proof -
  have act: "active demo_tester \<noteq> 0" "get_proc demo_tester (active demo_tester) = Some demo_proc"
    "fds demo_proc = [None, None, None, None]" "ids_ok demo_tester" "None \<in> set (pipes demo_tester)"
    using get_demo [of 1] by (simp_all add: demo_tester_def) (simp_all add: demo_kernel_def demo_proc_def ids_ok_def)
  from pipetest_passes [OF act tester_ok(2,1), of "\<lparr>r_map_to = demo_mapper, r_regs = zero_regs, r_child = exits_at_once,
      r_execed = exits_at_once\<rparr>"]
  show ?thesis by (auto simp: back_in_kernel_def PASS_MSG_def demo_tester_def demo_kernel_def)
qed

section \<open>What the libc test relies on\<close>

text \<open>
  C39. A refused \<open>sbrk\<close> looks like success.  When a request does not fit in the heap, the library's
  wrapper returns 0 and not \<open>SYSCALL_FAIL\<close>, so the test program goes on to use the pointer: with no
  page at address 0 the kernel ends it with a page fault before it writes anything.
\<close>

theorem refused_sbrk_kills:
  assumes act: "active s \<noteq> 0" "get_proc s (active s) = Some p" and full: "HEAP_SIZE < heap_used p + unat n"
    and null: "translate s 0 = None"
  shows "\<exists>s1 s'. libc_sbrk E n s = Some (Goes_on 0, s1) \<and> 0 \<noteq> SYSCALL_FAIL \<and>
    u_then (libc_sbrk E n) (libctest_heap E L) s = Some (Ended, s') \<and> back_in_kernel s s' \<and> serial_out s' = serial_out s"
proof -
  let ?s1 = "set_proc (active s) p s"
  have "sbrk (active s) n s = (None, ?s1)"
    using act(2) full by (simp add: sbrk_def with_process_mut_def proc_sbrk_def Let_def)
  then have s1: "libc_sbrk E n s = Some (Goes_on 0, ?s1)"
    using act(1) by (simp add: libc_sbrk_def int80_def syscall_dispatch_def sys_sbrk_def)
  have same: "active ?s1 = active s" "mach ?s1 = mach s" "in_child ?s1 = in_child s" "serial_out ?s1 = serial_out s"
    by (simp_all add: set_proc_def)
  have "translate ?s1 = translate s" by (simp add: fun_eq_iff translate_def set_proc_def)
  with null have "translate ?s1 0 = None" by simp
  then have "libctest_heap E L 0 ?s1 = Some (Ended, terminate_faulted_process_and_resume_kernel ?s1)"
    using act(1) same by (simp add: libctest_heap_def SYSCALL_FAIL_def u_then_def poke_def u_fault_def page_fault_handler_def)
  then have "u_then (libc_sbrk E n) (libctest_heap E L) s = Some (Ended, terminate_faulted_process_and_resume_kernel ?s1)"
    using s1 by (simp add: u_then_def)
  moreover have "back_in_kernel s (terminate_faulted_process_and_resume_kernel ?s1)"
    "serial_out (terminate_faulted_process_and_resume_kernel ?s1) = serial_out s"
    using same by (simp_all add: back_in_kernel_def terminate_faulted_process_and_resume_kernel_def restore_kernel_cr3_def write_cr3_def)
  ultimately show ?thesis using s1 by (auto simp: SYSCALL_FAIL_def)
qed

theorem refused_sbrk_kills_witness:
  "\<exists>s'. u_then (libc_sbrk \<lparr>r_map_to = demo_mapper, r_regs = zero_regs, r_child = exits_at_once, r_execed = exits_at_once\<rparr> 20000)
      (libctest_heap \<lparr>r_map_to = demo_mapper, r_regs = zero_regs, r_child = exits_at_once, r_execed = exits_at_once\<rparr>
        \<lparr>at_startup = 0, at_prefix = 0, at_byte_buf = 0, at_child = 0, at_done = 0\<rparr>) demo_kernel = Some (Ended, s') \<and> active s' = 0"
proof -
  have act: "active demo_kernel \<noteq> 0" "get_proc demo_kernel (active demo_kernel) = Some demo_proc"
    using get_demo [of 1] by (simp_all add: demo_kernel_def)
  have full: "HEAP_SIZE < heap_used demo_proc + unat (20000 :: u64)" by (simp add: HEAP_SIZE_def demo_proc_def)
  have null: "translate demo_kernel 0 = None" by (simp add: translate_def demo_kernel_def demo_machine_def)
  from refused_sbrk_kills [OF act full null] show ?thesis by (auto simp: back_in_kernel_def)
qed

text \<open>
  What stays while the libc test runs up to its \<open>fork\<close>: the mapping, the process and the lock that
  \<open>runelf\<close> holds.
\<close>

definition held :: "proc \<Rightarrow> kstate \<Rightarrow> kstate \<Rightarrow> bool" where
  "held p s0 s \<longleftrightarrow> user_loc s = user_loc s0 \<and> whole_frames s \<and> active s = active s0 \<and> fa_locked s \<and> \<not> in_child s \<and>
     get_proc s (active s0) = Some p \<and> ids_ok s"

lemma held_write:
  assumes h: "held p s0 s" and act: "active s0 \<noteq> 0" and mapped: "None \<notin> set (buffer_locs s0 ptr n)" "n \<le> 4096"
    and heap: "user_loc s0 HEAP_START \<noteq> None"
  obtains s' where "libc_write E ptr (of_nat n) s = Some (Goes_on (), s')" "held p s0 s'"
proof -
  have "buffer_locs s = buffer_locs s0" using h by (simp add: held_def buffer_locs_def fun_eq_iff)
  then obtain bs where bs: "read_user s ptr n = Some bs" using read_user_None [of s ptr n] mapped(1) by auto
  have "user_byte s HEAP_START \<noteq> None" using heap h by (simp add: user_byte_loc held_def)
  moreover have "unat (of_nat n :: u64) = n" using mapped(2) by (simp add: unat_of_nat)
  ultimately have "libc_write E ptr (of_nat n) s = Some (Goes_on (), s\<lparr>serial_out := serial_out s @ bs\<rparr>)"
    using h act bs mapped(2)
    by (simp add: libc_write_def u_then_def u_ret_def int80_def syscall_dispatch_def sys_write_def min_absorb1 held_def)
  moreover have "held p s0 (s\<lparr>serial_out := serial_out s @ bs\<rparr>)"
    using h by (simp add: held_def whole_frames_def ids_ok_def)
  ultimately show ?thesis by (rule that)
qed

lemma held_store:
  assumes h: "held p s0 s" and mapped: "None \<notin> set (buffer_locs s0 ptr (length bs))"
  obtains s' where "u_store ptr bs s = Some (Goes_on (), s')" "held p s0 s'"
proof -
  have "buffer_locs s = buffer_locs s0" and wf: "whole_frames s"
    using h by (simp_all add: held_def buffer_locs_def fun_eq_iff)
  then obtain s' where w: "write_user ptr bs s = Some s'" using write_user_mapped [of s ptr bs] mapped by auto
  have "user_loc s' = user_loc s" "whole_frames s'" using write_user_locs [OF wf w] by auto
  moreover obtain m where "s' = s\<lparr>mach := m\<rparr>" using write_user_ctl [OF w] by metis
  ultimately have "held p s0 s'" using h by (simp add: held_def ids_ok_def)
  with u_store_write [OF w] show ?thesis by (rule that)
qed

text \<open>
  The libc test program hangs the kernel when it is run by \<open>runelf\<close>: the lock on the frame allocator
  is held while it runs, and its \<open>fork\<close> waits for it forever.
\<close>

theorem libctest_hangs:
  assumes act: "active s \<noteq> 0" "get_proc s (active s) = Some p" "heap_used p = 0"
    and locked: "fa_locked s" "\<not> in_child s" "ids_ok s" and mem: "whole_frames s" "user_byte s HEAP_START \<noteq> None"
      "None \<notin> set (buffer_locs s (at_startup L) (length STARTUP_MSG))" "None \<notin> set (buffer_locs s (at_prefix L) (length HEAP_MSG_PREFIX))"
      "None \<notin> set (buffer_locs s (at_byte_buf L) 1)"
  shows "libctest_start E L s = None"
proof -
  let ?E = "E\<lparr>r_child := as_user_run (libctest_forked (E\<lparr>r_child := \<lambda>_ _ _. None\<rparr>) L 0)\<rparr>"
  have heap: "user_loc s HEAP_START \<noteq> None" using mem(2) by (simp add: user_byte_loc)
  have len: "length STARTUP_MSG \<le> 4096" "length HEAP_MSG_PREFIX \<le> 4096"
    by (simp_all add: STARTUP_MSG_def HEAP_MSG_PREFIX_def bytes_of_def)
  have h0: "held p s s" using act locked mem(1) by (simp add: held_def)
  have hp: "unat (of_nat HEAP_START :: u64) = HEAP_START" by (simp add: HEAP_START_def)
  then have room: "None \<notin> set (buffer_locs s (of_nat HEAP_START) 1)" using heap by (auto simp: buffer_locs_def)
  obtain s1 where s1: "libc_write ?E (at_startup L) (of_nat (length STARTUP_MSG)) s = Some (Goes_on (), s1)" "held p s s1"
    by (rule held_write [OF h0 act(1) mem(3) len(1) heap])
  let ?p = "p\<lparr>heap_used := 16\<rparr>"
  let ?s2 = "set_proc (active s) ?p s1"
  have h1: "user_loc s1 = user_loc s" "whole_frames s1" "active s1 = active s" "fa_locked s1" "\<not> in_child s1" "get_proc s1 (active s) = Some p" "ids_ok s1"
    using s1(2) by (simp_all add: held_def)
  have "sbrk (active s) 16 s1 = (Some HEAP_START, ?s2)"
    using h1 act(3) by (simp add: sbrk_def with_process_mut_def proc_sbrk_def Let_def HEAP_SIZE_def)
  then have s2: "libc_sbrk ?E 16 s1 = Some (Goes_on (of_nat HEAP_START), ?s2)"
    using act(1) h1(3) by (simp add: libc_sbrk_def int80_def syscall_dispatch_def sys_sbrk_def)
  have "get_proc ?s2 (active s) = Some ?p" using h1 by simp
  then have h2: "held ?p s ?s2" using h1 by (simp add: held_def set_proc_def whole_frames_def ids_ok_def)
  obtain s3 where s3: "u_store (of_nat HEAP_START) [75] ?s2 = Some (Goes_on (), s3)" "held ?p s s3"
    by (rule held_store [OF h2, of "of_nat HEAP_START" "[75]"]) (use room in simp_all)
  have "buffer_locs s3 = buffer_locs s" using s3(2) by (simp add: held_def buffer_locs_def fun_eq_iff)
  then obtain bs where bs: "read_user s3 (of_nat HEAP_START) 1 = Some bs" using read_user_None [of s3 "of_nat HEAP_START" 1] room by auto
  then have "length bs = 1" by (simp add: read_user_iff)
  obtain s4 where s4: "libc_write ?E (at_prefix L) (of_nat (length HEAP_MSG_PREFIX)) s3 = Some (Goes_on (), s4)" "held ?p s s4"
    by (rule held_write [OF s3(2) act(1) mem(4) len(2) heap])
  obtain s5 where s5: "u_store (at_byte_buf L) bs s4 = Some (Goes_on (), s5)" "held ?p s s5"
    by (rule held_store [OF s4(2), of "at_byte_buf L" bs]) (use mem(5) \<open>length bs = 1\<close> in simp_all)
  obtain s6 where s6: "libc_write ?E (at_byte_buf L) (of_nat 1) s5 = Some (Goes_on (), s6)" "held ?p s s6"
    by (rule held_write [OF s5(2) act(1) mem(5) _ heap]) simp
  have "(of_nat HEAP_START :: u64) \<noteq> SYSCALL_FAIL" by (simp add: HEAP_START_def SYSCALL_FAIL_def)
  then have "libctest_heap ?E L (of_nat HEAP_START) ?s2 = Some (Goes_on (), s6)"
    using s3(1) s4(1) s5(1) s6(1) u_load_read [OF bs] by (simp add: libctest_heap_def u_then_on)
  moreover have "libc_fork ?E s6 = None"
    using s6(2) act(1) fork_locked by (simp add: held_def libc_fork_def int80_def syscall_dispatch_def sys_fork_def)
  ultimately have "u_then (libctest_heap ?E L (of_nat HEAP_START)) (\<lambda>_. u_then (libc_fork ?E) (libctest_forked ?E L)) ?s2 = None"
    by (simp add: u_then_def)
  then show ?thesis using s1(1) s2 by (simp add: libctest_start_def Let_def u_then_on)
qed

end
