(* ===== verification/Disk_Props.thy ===== *)
theory Disk_Props
  imports System_Props Syscall_Props
begin

text \<open>
  Programs and the disk: a program of ring 3 reaches the disk through the system calls only, and none of
  them leaves it unsound.
\<close>

definition keeps_disk :: "user_run \<Rightarrow> bool" where
  "keeps_disk user \<longleftrightarrow> (\<forall>ip sp s s'. user ip sp s = Some s' \<longrightarrow> fs_ok (kdisk s) \<longrightarrow> fs_ok (kdisk s'))"

lemma ref_all_disk [simp]: "kdisk (ref_all t s) = kdisk s"
proof (induction t arbitrary: s)
  case (Cons e t)
  have "kdisk (ref_pipe x s) = kdisk s" for x by (simp add: ref_pipe_def split: fd_entry.split option.split)
  then show ?case using Cons by (cases e) (simp_all add: ref_all_def)
qed (simp add: ref_all_def)

lemma fork_disk: "fork mt parent ip sp s = Some (r, s') \<Longrightarrow> kdisk s' = kdisk s"
  by (erule fork_cases) simp_all

lemma write_user_disk: "write_user ptr bs s = Some s' \<Longrightarrow> kdisk s' = kdisk s"
  using write_user_ctl by (metis kstate.select_convs(4) kstate.surjective kstate.update_convs(5))

lemma process_disk:
  "sbrk pid n s = (a, s') \<Longrightarrow> kdisk s' = kdisk s" "open_file pid path s = (a, s') \<Longrightarrow> kdisk s' = kdisk s"
  "exec_process pid img s = (b, s') \<Longrightarrow> kdisk s' = kdisk s" "kill c t s = (d, s') \<Longrightarrow> kdisk s' = kdisk s"
  by (auto simp: sbrk_def open_file_def exec_process_def kill_def split: prod.splits if_splits option.splits
      dest!: descriptor_disk(1))

lemma run_child_disk:
  assumes "keeps_disk user" "fs_ok (kdisk s)" "run_forked_child user child s = Some (r, s')"
  shows "fs_ok (kdisk s')"
  using assms
  by (auto simp: run_forked_child_def enter_ring3_as_forked_child_def keeps_disk_def write_cr3_def split: prod.splits option.splits
      dest!: descriptor_disk(1))

lemma wait_disk:
  assumes "keeps_disk user" "fs_ok (kdisk s)" "wait_for_child user parent child s = Some (r, s')"
  shows "fs_ok (kdisk s')"
  using assms run_child_disk [OF assms(1,2)]
  by (auto simp: wait_for_child_def Let_def write_cr3_def split: if_splits option.splits prod.splits sum.splits)
    (metis sumE old.unit.exhaust)

lemma calls_keep_disk:
  "sys_write r s = Some (x, s') \<Longrightarrow> kdisk s' = kdisk s" "sys_exit r s = Some (x, s') \<Longrightarrow> kdisk s' = kdisk s"
  "sys_sbrk r s = Some (x, s') \<Longrightarrow> kdisk s' = kdisk s" "sys_open r s = Some (x, s') \<Longrightarrow> kdisk s' = kdisk s"
  "sys_read r s = Some (x, s') \<Longrightarrow> kdisk s' = kdisk s" "sys_fdwrite r s = Some (x, s') \<Longrightarrow> kdisk s' = kdisk s"
  "sys_fork mt r s = Some (x, s') \<Longrightarrow> kdisk s' = kdisk s" "sys_exec r s = Some (x, s') \<Longrightarrow> kdisk s' = kdisk s"
  "sys_pipe r s = Some (x, s') \<Longrightarrow> kdisk s' = kdisk s" "sys_dup r s = Some (x, s') \<Longrightarrow> kdisk s' = kdisk s"
  "sys_kill r s = Some (x, s') \<Longrightarrow> kdisk s' = kdisk s"
proof -
  show "sys_write r s = Some (x, s') \<Longrightarrow> kdisk s' = kdisk s" "sys_exit r s = Some (x, s') \<Longrightarrow> kdisk s' = kdisk s"
    by (auto simp: sys_write_def sys_exit_def restore_kernel_cr3_def write_cr3_def Let_def split: option.splits if_splits)
  show "sys_sbrk r s = Some (x, s') \<Longrightarrow> kdisk s' = kdisk s" "sys_open r s = Some (x, s') \<Longrightarrow> kdisk s' = kdisk s"
    by (auto simp: sys_sbrk_def sys_open_def Let_def split: option.splits if_splits prod.splits dest!: process_disk)
  show "sys_read r s = Some (x, s') \<Longrightarrow> kdisk s' = kdisk s" "sys_fdwrite r s = Some (x, s') \<Longrightarrow> kdisk s' = kdisk s"
    by (auto simp: sys_read_def sys_fdwrite_def Let_def split: option.splits if_splits prod.splits
        dest!: descriptor_disk(3,4) write_user_disk)
  show "sys_fork mt r s = Some (x, s') \<Longrightarrow> kdisk s' = kdisk s" "sys_exec r s = Some (x, s') \<Longrightarrow> kdisk s' = kdisk s"
    by (auto simp: sys_fork_def sys_exec_def Let_def split: option.splits if_splits prod.splits sum.splits
        dest!: fork_disk process_disk(3))
  show "sys_pipe r s = Some (x, s') \<Longrightarrow> kdisk s' = kdisk s" "sys_dup r s = Some (x, s') \<Longrightarrow> kdisk s' = kdisk s"
    by (auto simp: sys_pipe_def sys_dup_def Let_def split: option.splits if_splits prod.splits
        dest!: descriptor_disk(2,5) write_user_disk)
  show "sys_kill r s = Some (x, s') \<Longrightarrow> kdisk s' = kdisk s"
    by (auto simp: sys_kill_def split: if_splits prod.splits dest!: process_disk(4))
qed

lemma closes_keep_disk:
  "sys_close r s = Some (x, s') \<Longrightarrow> fs_ok (kdisk s) \<Longrightarrow> fs_ok (kdisk s')"
  "sys_dup2 r s = Some (x, s') \<Longrightarrow> fs_ok (kdisk s) \<Longrightarrow> fs_ok (kdisk s')"
  "sys_wait user r s = Some (x, s') \<Longrightarrow> keeps_disk user \<Longrightarrow> fs_ok (kdisk s) \<Longrightarrow> fs_ok (kdisk s')"
proof -
  show "sys_close r s = Some (x, s') \<Longrightarrow> fs_ok (kdisk s) \<Longrightarrow> fs_ok (kdisk s')"
    by (auto simp: sys_close_def split: if_splits option.splits prod.splits bool.splits dest: close_sound [rotated])
  show "sys_dup2 r s = Some (x, s') \<Longrightarrow> fs_ok (kdisk s) \<Longrightarrow> fs_ok (kdisk s')"
    by (auto simp: sys_dup2_def split: if_splits option.splits prod.splits bool.splits dest: dup2_sound [rotated])
  show "sys_wait user r s = Some (x, s') \<Longrightarrow> keeps_disk user \<Longrightarrow> fs_ok (kdisk s) \<Longrightarrow> fs_ok (kdisk s')"
    by (auto simp: sys_wait_def split: if_splits option.splits prod.splits dest: wait_disk [rotated 2])
qed

lemma dispatch_keeps_disk:
  assumes "keeps_disk user" "fs_ok (kdisk s)" "syscall_dispatch mt user r s = Some (x, s')"
  shows "fs_ok (kdisk s')"
  using assms(3,1,2) unfolding syscall_dispatch_def Let_def
  by (auto split: if_splits dest: calls_keep_disk closes_keep_disk)

lemma excursion_keeps_disk:
  assumes "keeps_disk user"
  shows "excursion mt cpu user n r s = Some s' \<Longrightarrow> fs_ok (kdisk s) \<Longrightarrow> fs_ok (kdisk s')"
proof (induction n arbitrary: r s)
  case (Suc n)
  from Suc.prems(1) show ?case
  proof (cases rule: excursion_SucE)
    case (fault m)
    then show ?thesis using Suc.prems(2)
      by (auto simp: page_fault_handler_def terminate_faulted_process_and_resume_kernel_def restore_kernel_cr3_def write_cr3_def
          split: if_splits)
  next
    case (exit r' m)
    then show ?thesis using dispatch_keeps_disk [OF assms, of "s\<lparr>mach := m\<rparr>"] Suc.prems(2) by simp
  next
    case (call r' m x s1 r'')
    then have "fs_ok (kdisk s1)" using dispatch_keeps_disk [OF assms, of "s\<lparr>mach := m\<rparr>"] Suc.prems(2) by simp
    then show ?thesis using Suc.IH call(3) by blast
  qed
qed simp

lemma ring3_keeps_disk: "keeps_disk (enter_ring3_now mt cpu junk n)"
proof -
  have none: "keeps_disk (\<lambda>_ _ _. None)" by (simp add: keeps_disk_def)
  have child: "keeps_disk (child_run mt cpu junk n)"
    unfolding keeps_disk_def child_run_def by (intro allI impI) (rule excursion_keeps_disk [OF none])
  show ?thesis
    unfolding keeps_disk_def enter_ring3_now_def by (intro allI impI) (rule excursion_keeps_disk [OF child])
qed

text \<open>So the programs of the boot theorem are those that come back.\<close>

lemma ring3_user_ok:
  assumes "\<And>ip sp (s :: kstate). fs_ok (kdisk s) \<Longrightarrow> enter_ring3_now mt cpu junk n ip sp s \<noteq> None"
  shows "user_ok (enter_ring3_now mt cpu junk n)"
  unfolding user_ok_def
proof (intro allI impI)
  fix ip sp and s :: kstate assume s: "fs_ok (kdisk s)"
  then obtain s' where "enter_ring3_now mt cpu junk n ip sp s = Some s'" using assms by blast
  with s show "\<exists>s'. enter_ring3_now mt cpu junk n ip sp s = Some s' \<and> fs_ok (kdisk s')"
    using ring3_keeps_disk [of mt cpu junk n] by (auto simp: keeps_disk_def)
qed

lemma run_keeps_disk:
  assumes "fs_ok (kdisk s)" "run_process (enter_ring3_now mt cpu junk n) pid s = Some (r, s')"
  shows "fs_ok (kdisk s')"
proof (cases "pid \<in> {1, 2, 4, 5, 6, 7} \<and> kstate.slots s pid \<noteq> None")
  case True
  then obtain p where p: "kstate.slots s pid = Some p" by blast
  let ?s = "write_cr3 (pml4_frame p) (s\<lparr>active := pid\<rparr>)"
  have "enter_ring3_now mt cpu junk n USER_CODE_ADDR (USER_STACK_ADDR + 4096) ?s = Some s'"
    using assms(2) True p by (auto simp: run_process_def run_slot_def)
  moreover have "fs_ok (kdisk ?s)" using assms(1) by (simp add: write_cr3_def)
  ultimately show ?thesis using ring3_keeps_disk [of mt cpu junk n] unfolding keeps_disk_def by blast
qed (use assms in \<open>auto simp: run_process_def run_slot_def split: if_splits\<close>)

text \<open>
  C8. No program that keeps to its own part of the address space damages the disk.  Whatever it does in ring 3, with
  every system call it makes, every child it forks and every file it writes, and however it ends,
  it comes back (if it does not go astray, see C7) and the file system is as sound after its run as before.
\<close>

theorem programs_keep_disk:
  assumes "fs_ok (kdisk s)" "\<not> fa_locked s" "\<not> run_astray mt cpu junk n pid s"
  shows "\<exists>r s'. run_process (enter_ring3_now mt cpu junk n) pid s = Some (r, s') \<and> fs_ok (kdisk s')"
  using run_total [OF assms(2,3)] run_keeps_disk [OF assms(1)] by blast

theorem programs_keep_disk_witness:
  "\<exists>r s'. run_process (enter_ring3_now demo_mapper pipe_cpu zero_regs (Suc (Suc 0))) 1 demo_mapped = Some (r, s') \<and> fs_ok (kdisk s')"
  by (rule programs_keep_disk [OF _ _ demo_run_astray]) (simp_all add: demo_mapped_def demo_kernel_def blank_ok)

end
