(* ===== verification/Ring3.thy ===== *)
theory Ring3
  imports Prelude
begin

text \<open>
  The way into ring 3 and back (\<open>kernel/src/usertest.rs\<close>, with the task state segment of
  \<open>kernel/src/gdt.rs\<close>): the hand-written assembly as programs of a small register machine, and what the
  processor does at \<open>int 0x80\<close> and \<open>iretq\<close>.  Memory is seen as words at the addresses a stack pointer
  takes.  The Rust code between entry and exit of a system call is a parameter.
\<close>

section \<open>The machine\<close>

datatype gpr = RAX | RBX | RCX | RDX | RSI | RDI | RBP | RSP | R8 | R9 | R10 | R11 | R12 | R13 | R14 | R15

record hart =
  reg :: "gpr \<Rightarrow> u64"
  mem :: "u64 \<Rightarrow> u64"
  h_rip :: u64
  h_cs :: u64
  h_flags :: u64
  h_ss :: u64
  tss_rsp0 :: u64

datatype instr = Push gpr | Pop gpr | Mov gpr gpr | Store gpr gpr | Xor_eax | Call_dispatch | Ret | Iretq

definition push_word :: "u64 \<Rightarrow> hart \<Rightarrow> hart" where
  "push_word v h = h\<lparr>reg := (reg h)(RSP := reg h RSP - 8), mem := (mem h)(reg h RSP - 8 := v)\<rparr>"

fun exec :: "(hart \<Rightarrow> hart) \<Rightarrow> instr \<Rightarrow> hart \<Rightarrow> hart" where
  "exec d (Push r) h = push_word (reg h r) h"
| "exec d (Pop r) h = h\<lparr>reg := (reg h)(RSP := reg h RSP + 8, r := mem h (reg h RSP))\<rparr>"
| "exec d (Mov r q) h = h\<lparr>reg := (reg h)(r := reg h q)\<rparr>"
| "exec d (Store r q) h = h\<lparr>mem := (mem h)(reg h r := reg h q)\<rparr>"
| "exec d Xor_eax h = h\<lparr>reg := (reg h)(RAX := 0)\<rparr>"
| "exec d Call_dispatch h = d h"
| "exec d Ret h = h\<lparr>h_rip := mem h (reg h RSP), reg := (reg h)(RSP := reg h RSP + 8)\<rparr>"
| "exec d Iretq h = (let sp = reg h RSP in
     h\<lparr>h_rip := mem h sp, h_cs := mem h (sp + 8), h_flags := mem h (sp + 16), h_ss := mem h (sp + 32),
       reg := (reg h)(RSP := mem h (sp + 24))\<rparr>)"

definition run_code :: "(hart \<Rightarrow> hart) \<Rightarrow> instr list \<Rightarrow> hart \<Rightarrow> hart" where
  "run_code d code h = fold (exec d) code h"

text \<open>
  \<open>int 0x80\<close> in ring 3: the processor takes the stack from the task state segment, aligns it to sixteen
  bytes and saves five words.  What the gate does to the flags while the handler runs is left out: \<open>iretq\<close>
  loads them again.
\<close>

definition aligned :: "u64 \<Rightarrow> u64" where "aligned t = t AND NOT 15"

definition int80_entry :: "u64 \<Rightarrow> u64 \<Rightarrow> hart \<Rightarrow> hart" where
  "int80_entry handler kernel_cs h =
     (push_word (h_rip h) (push_word (h_cs h) (push_word (h_flags h) (push_word (reg h RSP) (push_word (h_ss h)
       (h\<lparr>reg := (reg h)(RSP := aligned (tss_rsp0 h))\<rparr>))))))
     \<lparr>h_rip := handler, h_cs := kernel_cs, h_ss := 0\<rparr>"

section \<open>The assembly\<close>

definition saved_gprs :: "gpr list" where
  "saved_gprs = [RAX, RBX, RCX, RDX, RSI, RDI, RBP, R8, R9, R10, R11, R12, R13, R14, R15]"

definition syscall_entry :: "instr list" where
  "syscall_entry =
     [Push RAX, Push RBX, Push RCX, Push RDX, Push RSI, Push RDI, Push RBP, Push R8, Push R9, Push R10, Push R11,
      Push R12, Push R13, Push R14, Push R15, Mov RDI RSP, Call_dispatch,
      Pop R15, Pop R14, Pop R13, Pop R12, Pop R11, Pop R10, Pop R9, Pop R8, Pop RBP, Pop RDI, Pop RSI, Pop RDX,
      Pop RCX, Pop RBX, Pop RAX, Iretq]"

definition enter_ring3 :: "instr list" where
  "enter_ring3 =
     [Push RBX, Push RBP, Push R12, Push R13, Push R14, Push R15, Store RDI RSP,
      Push R8, Push RSI, Push R9, Push RCX, Push RDX, Iretq]"

definition enter_ring3_as_child :: "instr list" where
  "enter_ring3_as_child =
     [Push RBX, Push RBP, Push R12, Push R13, Push R14, Push R15, Store RDI RSP,
      Push R8, Push RSI, Push R9, Push RCX, Push RDX, Xor_eax, Iretq]"

definition resume_kernel :: "instr list" where
  "resume_kernel = [Mov RSP RDI, Pop R15, Pop R14, Pop R13, Pop R12, Pop RBP, Pop RBX, Ret]"

definition exec_into_ring3 :: "instr list" where
  "exec_into_ring3 = [Push RCX, Push RDI, Push R8, Push RDX, Push RSI, Iretq]"

text \<open>The fields of \<open>SyscallRegs\<close>, in the order of their addresses.\<close>

datatype saved_field = F_gpr gpr | F_rip | F_cs | F_rflags | F_rsp | F_ss

definition SyscallRegs :: "saved_field list" where
  "SyscallRegs = map F_gpr [R15, R14, R13, R12, R11, R10, R9, R8, RBP, RDI, RSI, RDX, RCX, RBX, RAX] @
     [F_rip, F_cs, F_rflags, F_rsp, F_ss]"

definition field_of :: "hart \<Rightarrow> saved_field \<Rightarrow> u64" where
  "field_of h f = (case f of F_gpr r \<Rightarrow> reg h r | F_rip \<Rightarrow> h_rip h | F_cs \<Rightarrow> h_cs h | F_rflags \<Rightarrow> h_flags h
     | F_rsp \<Rightarrow> reg h RSP | F_ss \<Rightarrow> h_ss h)"

section \<open>The stacks of the task state segment\<close>

definition CHILD_EXCURSION_STACK_SIZE :: u64 where "CHILD_EXCURSION_STACK_SIZE = 4096 * 5"

definition child_excursion_stack_top :: "u64 \<Rightarrow> u64" where
  "child_excursion_stack_top stack_start = stack_start + CHILD_EXCURSION_STACK_SIZE"

definition set_syscall_stack_top :: "u64 \<Rightarrow> hart \<Rightarrow> u64 \<times> hart" where
  "set_syscall_stack_top new_top h = (tss_rsp0 h, h\<lparr>tss_rsp0 := new_top\<rparr>)"

section \<open>Pushes and pops\<close>

lemma run_simps [simp]:
  "run_code d [] h = h" "run_code d (i # is) h = run_code d is (exec d i h)"
  by (simp_all add: run_code_def)

lemma run_append: "run_code d (a @ b) h = run_code d b (run_code d a h)"
  by (simp add: run_code_def)

text \<open>Memory after the words \<open>vs\<close> were pushed, one after the other, with the stack pointer at \<open>sp\<close>.\<close>

fun pushed :: "u64 \<Rightarrow> u64 list \<Rightarrow> (u64 \<Rightarrow> u64) \<Rightarrow> u64 \<Rightarrow> u64" where
  "pushed sp [] m = m"
| "pushed sp (v # vs) m = pushed (sp - 8) vs (m(sp - 8 := v))"

definition slots_below :: "u64 \<Rightarrow> nat \<Rightarrow> u64 set" where
  "slots_below sp n = (\<lambda>k. sp - 8 * of_nat (Suc k)) ` {..<n}"

lemma slot_eq: "i < 2 ^ 60 \<Longrightarrow> j < 2 ^ 60 \<Longrightarrow> (sp :: u64) - 8 * of_nat i = sp - 8 * of_nat j \<longleftrightarrow> i = j"
proof
  assume ij: "i < 2 ^ 60" "j < 2 ^ 60" and eq: "(sp :: u64) - 8 * of_nat i = sp - 8 * of_nat j"
  have "unat (8 * of_nat k :: u64) = 8 * k" if "k < 2 ^ 60" for k using that by (simp add: unat_word_ariths unat_of_nat)
  then show "i = j" using ij eq by (metis diff_left_imp_eq mult_left_cancel zero_neq_numeral)
qed simp

lemma slots_below_Suc: "slots_below sp (Suc n) = insert (sp - 8) (slots_below (sp - 8) n)"
proof -
  have "slots_below sp (Suc n) = insert (sp - 8) ((\<lambda>k. sp - 8 * of_nat (Suc (Suc k))) ` {..<n})"
    unfolding slots_below_def lessThan_Suc_eq_insert_0 by (simp add: image_image)
  then show ?thesis by (simp add: slots_below_def algebra_simps)
qed

lemma pushed_other: "a \<notin> slots_below sp (length vs) \<Longrightarrow> pushed sp vs m a = m a"
  by (induction vs arbitrary: sp m) (auto simp: slots_below_Suc)

lemma not_below: "Suc i < 2 ^ 60 \<Longrightarrow> n \<le> 2 ^ 59 \<Longrightarrow> i \<le> 0 \<Longrightarrow> (sp :: u64) - 8 \<notin> slots_below (sp - 8) n"
proof -
  assume n: "n \<le> 2 ^ 59"
  have "sp - 8 * of_nat 1 \<noteq> sp - 8 * of_nat (Suc (Suc k))" if "k < n" for k
    using slot_eq [of 1 "Suc (Suc k)" sp] that n by simp
  then show ?thesis by (auto simp: slots_below_def algebra_simps)
qed

lemma pushed_nth:
  "k < length vs \<Longrightarrow> length vs \<le> 2 ^ 59 \<Longrightarrow> pushed sp vs m (sp - 8 * of_nat (Suc k)) = vs ! k"
proof (induction vs arbitrary: sp m k)
  case (Cons v vs)
  show ?case
  proof (cases k)
    case 0
    have "sp - 8 \<notin> slots_below (sp - 8) (length vs)" using not_below [of 0 "length vs" sp] Cons.prems by simp
    then show ?thesis using 0 by (simp add: pushed_other)
  next
    case (Suc j)
    have "pushed (sp - 8) vs (m(sp - 8 := v)) (sp - 8 - 8 * of_nat (Suc j)) = vs ! j"
      by (rule Cons.IH) (use Cons.prems Suc in simp_all)
    then show ?thesis using Suc by (simp add: algebra_simps)
  qed
qed simp

lemma map_sp: "RSP \<notin> set rs \<Longrightarrow> map (\<lambda>r. if r = RSP then v else f r) rs = map f rs"
  by auto

lemma sub8: "(sp :: u64) - 8 * of_nat (Suc n) = sp - 8 - 8 * of_nat n"
  by (simp add: algebra_simps)

lemma run_pushes:
  "RSP \<notin> set rs \<Longrightarrow> run_code d (map Push rs) h =
     h\<lparr>reg := (reg h)(RSP := reg h RSP - 8 * of_nat (length rs)), mem := pushed (reg h RSP) (map (reg h) rs) (mem h)\<rparr>"
proof (induction rs arbitrary: h)
  case (Cons r rs)
  show ?case using Cons.IH [of "push_word (reg h r) h"] Cons.prems
    by (simp add: push_word_def map_sp sub8 fun_upd_def del: of_nat_Suc cong: if_cong)
qed simp

lemma run_pops:
  "RSP \<notin> set rs \<Longrightarrow> distinct rs \<Longrightarrow> \<exists>R. run_code d (map Pop rs) c = c\<lparr>reg := R\<rparr> \<and> R RSP = reg c RSP + 8 * of_nat (length rs) \<and>
     (\<forall>k < length rs. R (rs ! k) = mem c (reg c RSP + 8 * of_nat k)) \<and> (\<forall>r. r \<notin> set rs \<and> r \<noteq> RSP \<longrightarrow> R r = reg c r)"
proof (induction rs arbitrary: c)
  case Nil
  show ?case by (intro exI [of _ "reg c"]) simp
next
  case (Cons r rs)
  let ?c = "exec d (Pop r) c"
  obtain R where R: "run_code d (map Pop rs) ?c = ?c\<lparr>reg := R\<rparr>" "R RSP = reg ?c RSP + 8 * of_nat (length rs)"
    "\<forall>k < length rs. R (rs ! k) = mem ?c (reg ?c RSP + 8 * of_nat k)" "\<forall>q. q \<notin> set rs \<and> q \<noteq> RSP \<longrightarrow> R q = reg ?c q"
    using Cons.IH [of ?c] Cons.prems by auto
  have "R ((r # rs) ! k) = mem c (reg c RSP + 8 * of_nat k)" if "k < length (r # rs)" for k
    using R(3,4) Cons.prems that by (cases k) (auto simp: algebra_simps)
  moreover have "R RSP = reg c RSP + 8 * of_nat (length (r # rs))" using R(2) Cons.prems by (simp add: algebra_simps)
  moreover have "\<forall>q. q \<notin> set (r # rs) \<and> q \<noteq> RSP \<longrightarrow> R q = reg c q" using R(4) by simp
  ultimately show ?case using R(1) by (intro exI [of _ R]) simp
qed

lemma pushed_append: "pushed sp (a @ b) m = pushed (sp - 8 * of_nat (length a)) b (pushed sp a m)"
  by (induction a arbitrary: sp m) (simp_all add: sub8 del: of_nat_Suc)

section \<open>A system call\<close>

text \<open>The state in which \<open>syscall_dispatch\<close> is called.\<close>

definition at_dispatch :: "(hart \<Rightarrow> hart) \<Rightarrow> u64 \<Rightarrow> u64 \<Rightarrow> hart \<Rightarrow> hart" where
  "at_dispatch d handler kcs h = run_code d (take 16 syscall_entry) (int80_entry handler kcs h)"

lemma entry_parts: "syscall_entry = map Push saved_gprs @ [Mov RDI RSP, Call_dispatch] @ map Pop (rev saved_gprs) @ [Iretq]"
  by (simp add: syscall_entry_def saved_gprs_def)

lemma gprs_ok: "RSP \<notin> set saved_gprs" "distinct saved_gprs" "length saved_gprs = 15" "r \<noteq> RSP \<Longrightarrow> r \<in> set saved_gprs"
  by (simp_all add: saved_gprs_def) (cases r; simp)

lemma fields_rev: "SyscallRegs = rev ([F_ss, F_rsp, F_rflags, F_cs, F_rip] @ map F_gpr saved_gprs)"
  by (simp add: SyscallRegs_def saved_gprs_def)

lemma int80_state:
  "int80_entry handler kcs h = h\<lparr>h_rip := handler, h_cs := kcs, h_ss := 0, reg := (reg h)(RSP := aligned (tss_rsp0 h) - 40),
     mem := pushed (aligned (tss_rsp0 h)) [h_ss h, reg h RSP, h_flags h, h_cs h, h_rip h] (mem h)\<rparr>"
  by (simp add: int80_entry_def push_word_def fun_upd_def cong: if_cong)

lemma at_dispatch_state:
  "at_dispatch d handler kcs h = h\<lparr>h_rip := handler, h_cs := kcs, h_ss := 0,
     reg := (reg h)(RSP := aligned (tss_rsp0 h) - 160, RDI := aligned (tss_rsp0 h) - 160),
     mem := pushed (aligned (tss_rsp0 h)) (rev (map (field_of h) SyscallRegs)) (mem h)\<rparr>"
proof -
  let ?i = "int80_entry handler kcs h"
  have "take 16 syscall_entry = map Push saved_gprs @ [Mov RDI RSP]" by (simp add: syscall_entry_def saved_gprs_def)
  then have "at_dispatch d handler kcs h = exec d (Mov RDI RSP) (?i\<lparr>reg := (reg ?i)(RSP := reg ?i RSP - 8 * of_nat 15),
      mem := pushed (reg ?i RSP) (map (reg ?i) saved_gprs) (mem ?i)\<rparr>)"
    by (simp add: at_dispatch_def run_append run_pushes gprs_ok)
  moreover have "rev (map (field_of h) SyscallRegs) = [h_ss h, reg h RSP, h_flags h, h_cs h, h_rip h] @ map (reg h) saved_gprs"
    by (simp add: fields_rev rev_map [symmetric] field_of_def comp_def)
  ultimately show ?thesis
    by (simp add: int80_state pushed_append [of _ "[h_ss h, reg h RSP, h_flags h, h_cs h, h_rip h]"] map_sp gprs_ok(1) fun_upd_def
        cong: if_cong)
qed

lemma frame_saved:
  assumes k: "k < 20"
  shows "mem (at_dispatch d handler kcs h) (aligned (tss_rsp0 h) - 160 + 8 * of_nat k) = field_of h (SyscallRegs ! k)"
proof -
  have len: "length SyscallRegs = 20" by (simp add: SyscallRegs_def)
  have "k + Suc (19 - k) = 20" using k by simp
  then have "(of_nat k :: u64) + of_nat (Suc (19 - k)) = 20" by (metis of_nat_add of_nat_numeral)
  then have "8 * (of_nat k :: u64) + 8 * of_nat (Suc (19 - k)) = 8 * 20" by (metis distrib_left)
  then have e: "aligned (tss_rsp0 h) - 160 + 8 * of_nat k = aligned (tss_rsp0 h) - 8 * of_nat (Suc (19 - k))"
    by (simp add: algebra_simps del: of_nat_Suc)
  have p: "pushed (aligned (tss_rsp0 h)) (rev (map (field_of h) SyscallRegs)) (mem h) (aligned (tss_rsp0 h) - 8 * of_nat (Suc (19 - k)))
      = rev (map (field_of h) SyscallRegs) ! (19 - k)" by (rule pushed_nth) (simp_all add: len)
  show ?thesis using k len by (simp add: at_dispatch_state e p rev_nth del: of_nat_Suc)
qed

text \<open>
  C30. A system call saves and restores the caller.  Where \<open>syscall_dispatch\<close> is called, its argument points
  to the twenty words of \<open>SyscallRegs\<close>, each holding what its field says; and when it returns having changed
  of them only \<open>rax\<close>, the program goes on with that value in \<open>rax\<close> and everything else as it was, on its own
  stack and in ring 3.
\<close>

theorem syscall_saves_and_restores:
  assumes c: "c = at_dispatch d handler kcs h"
    and abi: "reg (d c) RSP = reg c RSP" "tss_rsp0 (d c) = tss_rsp0 c"
    and frame: "\<forall>k < 20. mem (d c) (reg c RDI + 8 * of_nat k) = (if SyscallRegs ! k = F_gpr RAX then v else mem c (reg c RDI + 8 * of_nat k))"
  shows "(\<forall>k < 20. mem c (reg c RDI + 8 * of_nat k) = field_of h (SyscallRegs ! k)) \<and>
    (\<exists>m. run_code d syscall_entry (int80_entry handler kcs h) = h\<lparr>reg := (reg h)(RAX := v), mem := m\<rparr>)"
proof -
  let ?f = "aligned (tss_rsp0 h) - 160" and ?z = "run_code d syscall_entry (int80_entry handler kcs h)"
  have saved: "mem c (?f + 8 * of_nat k) = field_of h (SyscallRegs ! k)" if "k < 20" for k
    unfolding c by (rule frame_saved [OF that])
  have regs: "reg c RDI = ?f" "reg c RSP = ?f" "tss_rsp0 c = tss_rsp0 h" by (simp_all add: c at_dispatch_state)
  have w: "mem (d c) (?f + 8 * of_nat k) = (if SyscallRegs ! k = F_gpr RAX then v else field_of h (SyscallRegs ! k))" if "k < 20" for k
    using frame that saved [OF that] regs(1) by simp
  obtain R where R: "run_code d (map Pop (rev saved_gprs)) (d c) = (d c)\<lparr>reg := R\<rparr>" "R RSP = ?f + 120"
    "\<And>k. k < 15 \<Longrightarrow> R (rev saved_gprs ! k) = mem (d c) (?f + 8 * of_nat k)"
    using run_pops [of "rev saved_gprs" d "d c"] gprs_ok abi regs by auto
  have z: "?z = exec d Iretq ((d c)\<lparr>reg := R\<rparr>)"
  proof -
    have "syscall_entry = take 16 syscall_entry @ [Call_dispatch] @ map Pop (rev saved_gprs) @ [Iretq]"
      by (simp add: syscall_entry_def saved_gprs_def)
    then have "?z = run_code d [Iretq] (run_code d (map Pop (rev saved_gprs)) (run_code d [Call_dispatch] c))"
      by (metis run_append c at_dispatch_def)
    then show ?thesis using R(1) by simp
  qed
  have last: "mem (d c) (?f + 120) = h_rip h" "mem (d c) (?f + 128) = h_cs h" "mem (d c) (?f + 136) = h_flags h"
    "mem (d c) (?f + 144) = reg h RSP" "mem (d c) (?f + 152) = h_ss h"
    using w [of 15] w [of 16] w [of 17] w [of 18] w [of 19] by (simp_all add: SyscallRegs_def field_of_def)
  have "reg ?z r = ((reg h)(RAX := v)) r" for r
  proof (cases "r = RSP")
    case True
    then show ?thesis using last R(2) by (simp add: z Let_def)
  next
    case False
    then obtain k where k: "k < 15" "rev saved_gprs ! k = r"
      using gprs_ok(3,4) by (metis in_set_conv_nth length_rev set_rev)
    have "SyscallRegs ! k = F_gpr r" using k gprs_ok(3) by (simp add: fields_rev rev_map nth_append)
    then have "R r = (if r = RAX then v else reg h r)" using R(3) [OF k(1)] w [of k] k by (simp add: field_of_def)
    then show ?thesis using False by (simp add: z Let_def)
  qed
  moreover have "h_rip ?z = h_rip h" "h_cs ?z = h_cs h" "h_flags ?z = h_flags h" "h_ss ?z = h_ss h" "tss_rsp0 ?z = tss_rsp0 h"
    using last R(2) abi regs by (simp_all add: z Let_def)
  ultimately have "?z = h\<lparr>reg := (reg h)(RAX := v), mem := mem ?z\<rparr>" by (simp add: fun_eq_iff)
  then show ?thesis using saved regs(1) by metis
qed

section \<open>Excursions\<close>

definition callee_saved :: "gpr list" where "callee_saved = [RBX, RBP, R12, R13, R14, R15]"

lemma excursion_parts:
  "enter_ring3 = map Push callee_saved @ [Store RDI RSP] @ map Push [R8, RSI, R9, RCX, RDX] @ [Iretq]"
  "enter_ring3_as_child = map Push callee_saved @ [Store RDI RSP] @ map Push [R8, RSI, R9, RCX, RDX] @ [Xor_eax, Iretq]"
  "resume_kernel = [Mov RSP RDI] @ map Pop (rev callee_saved) @ [Ret]"
  by (simp_all add: enter_ring3_def enter_ring3_as_child_def resume_kernel_def callee_saved_def)

lemma callee_ok: "RSP \<notin> set callee_saved" "distinct callee_saved" "length callee_saved = 6"
  "RDI \<notin> set callee_saved"
  by (simp_all add: callee_saved_def)

lemma slots_mono: "n \<le> n' \<Longrightarrow> slots_below sp n \<subseteq> slots_below sp n'"
  by (auto simp: slots_below_def)

text \<open>The state before the last \<open>iretq\<close>: six registers, the slot, and the frame of five words.\<close>

definition frame_ready :: "hart \<Rightarrow> hart" where
  "frame_ready h = h\<lparr>reg := (reg h)(RSP := reg h RSP - 88),
     mem := pushed (reg h RSP - 48) [reg h R8, reg h RSI, reg h R9, reg h RCX, reg h RDX]
       ((pushed (reg h RSP) (map (reg h) callee_saved) (mem h))(reg h RDI := reg h RSP - 48))\<rparr>"

lemma to_frame_ready:
  "run_code d (map Push callee_saved @ [Store RDI RSP] @ map Push [R8, RSI, R9, RCX, RDX]) h = frame_ready h"
  by (simp only: run_append run_pushes [OF callee_ok(1)])
    (simp add: callee_ok(3) run_append frame_ready_def push_word_def fun_upd_def cong: if_cong)

lemma frame_words:
  assumes "k < 5"
  shows "mem (frame_ready h) (reg h RSP - 88 + 8 * of_nat k) = [reg h RDX, reg h RCX, reg h R9, reg h RSI, reg h R8] ! k"
proof -
  have k: "k = 0 \<or> k = 1 \<or> k = 2 \<or> k = 3 \<or> k = 4" using assms by auto
  show ?thesis using k by (auto simp: frame_ready_def)
qed

lemma excursion_starts:
  assumes u: "u = run_code d code h" and code: "code = enter_ring3 \<or> code = enter_ring3_as_child"
  shows "h_rip u = reg h RDX \<and> h_cs u = reg h RCX \<and> h_flags u = reg h R9 \<and> h_ss u = reg h R8 \<and> reg u RSP = reg h RSI"
    "tss_rsp0 u = tss_rsp0 h" "mem u = mem (frame_ready h)" "code = enter_ring3_as_child \<Longrightarrow> reg u RAX = 0"
proof -
  let ?f = "frame_ready h"
  have f: "mem ?f (reg h RSP - 88) = reg h RDX" "mem ?f (reg h RSP - 80) = reg h RCX" "mem ?f (reg h RSP - 72) = reg h R9"
    "mem ?f (reg h RSP - 64) = reg h RSI" "mem ?f (reg h RSP - 56) = reg h R8" "reg ?f RSP = reg h RSP - 88"
    "tss_rsp0 ?f = tss_rsp0 h"
    using frame_words [of 0 h] frame_words [of 1 h] frame_words [of 2 h] frame_words [of 3 h] frame_words [of 4 h]
    by (simp_all add: frame_ready_def)
  have "u = run_code d (if code = enter_ring3 then [Iretq] else [Xor_eax, Iretq]) ?f"
    using code unfolding u to_frame_ready [of d, symmetric] run_append [symmetric] excursion_parts by auto
  moreover have "enter_ring3 \<noteq> enter_ring3_as_child" by (simp add: enter_ring3_def enter_ring3_as_child_def)
  ultimately show "h_rip u = reg h RDX \<and> h_cs u = reg h RCX \<and> h_flags u = reg h R9 \<and> h_ss u = reg h R8 \<and> reg u RSP = reg h RSI"
    "tss_rsp0 u = tss_rsp0 h" "mem u = mem ?f" "code = enter_ring3_as_child \<Longrightarrow> reg u RAX = 0"
    using f by (auto simp: Let_def)
qed

text \<open>What an excursion leaves on the kernel's stack to come back with.\<close>

lemma slots_add: "slots_below sp (m + n) = slots_below sp m \<union> slots_below (sp - 8 * of_nat m) n"
  by (induction m arbitrary: sp) (simp_all add: slots_below_Suc sub8 slots_below_def [of _ 0] del: of_nat_Suc)

lemma slot_in: "sp - 8 * of_nat (Suc k) \<in> slots_below sp n \<longleftrightarrow> k < n" if "k < 2 ^ 59" "n \<le> 2 ^ 59"
  using slot_eq [of "Suc k" _ sp] that by (auto simp: slots_below_def simp del: of_nat_Suc)

lemma pushed_five: "a \<notin> slots_below sp 5 \<Longrightarrow> pushed sp [v, w, x, y, z] m a = m a"
  by (rule pushed_other) (simp add: eval_nat_numeral)

lemma anchor_stored:
  assumes slot: "reg h RDI \<notin> slots_below (reg h RSP) 11"
  shows "mem (frame_ready h) (reg h RDI) = reg h RSP - 48"
    "k < 6 \<Longrightarrow> mem (frame_ready h) (reg h RSP - 8 * of_nat (Suc k)) = reg h (callee_saved ! k)"
    "a \<notin> slots_below (reg h RSP) 11 \<Longrightarrow> a \<noteq> reg h RDI \<Longrightarrow> mem (frame_ready h) a = mem h a"
proof -
  have split: "slots_below (reg h RSP) 11 = slots_below (reg h RSP) 6 \<union> slots_below (reg h RSP - 48) 5"
    using slots_add [of "reg h RSP" 6 5] by simp
  show "mem (frame_ready h) (reg h RDI) = reg h RSP - 48"
    using slot unfolding split frame_ready_def by (simp add: pushed_five del: pushed.simps)
  show "mem (frame_ready h) a = mem h a" if "a \<notin> slots_below (reg h RSP) 11" "a \<noteq> reg h RDI"
    using that unfolding split frame_ready_def by (simp add: pushed_five pushed_other callee_ok(3) del: pushed.simps)
  assume k: "k < 6"
  let ?a = "reg h RSP - 8 * of_nat (Suc k)"
  have in11: "?a \<in> slots_below (reg h RSP) 11" and in6: "?a \<in> slots_below (reg h RSP) 6"
    using k by (auto simp: slot_in simp del: of_nat_Suc)
  have "?a \<notin> slots_below (reg h RSP - 48) 5"
  proof
    assume "?a \<in> slots_below (reg h RSP - 48) 5"
    then obtain j where j: "j < 5" "?a = reg h RSP - 48 - 8 * of_nat (Suc j)" by (auto simp: slots_below_def simp del: of_nat_Suc)
    have "reg h RSP - 48 - 8 * of_nat (Suc j) = reg h RSP - 8 * of_nat (Suc (j + 6))" by (simp add: algebra_simps)
    then have "Suc k = Suc (j + 6)" using j k slot_eq [of "Suc k" "Suc (j + 6)" "reg h RSP"] by (simp del: of_nat_Suc)
    then show False using k by simp
  qed
  moreover have "?a \<noteq> reg h RDI" using in11 slot by metis
  ultimately show "mem (frame_ready h) ?a = reg h (callee_saved ! k)"
    using k unfolding frame_ready_def by (simp add: pushed_five pushed_nth callee_ok(3) del: pushed.simps of_nat_Suc)
qed

text \<open>The way back: \<open>resume_kernel\<close> on the anchor an excursion left.\<close>

lemma resume_restores:
  assumes rdi: "reg x RDI = p - 48"
    and words: "\<And>k. k < 6 \<Longrightarrow> mem x (p - 8 * of_nat (Suc k)) = reg h (callee_saved ! k)"
  shows "h_rip (run_code d resume_kernel x) = mem x p \<and> reg (run_code d resume_kernel x) RSP = p + 8 \<and>
    (\<forall>r \<in> set callee_saved. reg (run_code d resume_kernel x) r = reg h r) \<and>
    mem (run_code d resume_kernel x) = mem x \<and> tss_rsp0 (run_code d resume_kernel x) = tss_rsp0 x"
proof -
  let ?x = "x\<lparr>reg := (reg x)(RSP := p - 48)\<rparr>"
  obtain R where R: "run_code d (map Pop (rev callee_saved)) ?x = ?x\<lparr>reg := R\<rparr>" "R RSP = p"
    "\<And>k. k < 6 \<Longrightarrow> R (rev callee_saved ! k) = mem x (p - 48 + 8 * of_nat k)"
    using run_pops [of "rev callee_saved" d ?x] callee_ok by auto
  have z: "run_code d resume_kernel x = exec d Ret (?x\<lparr>reg := R\<rparr>)"
    using R(1) rdi by (simp add: excursion_parts run_append del: exec.simps) simp
  have "R (callee_saved ! k) = reg h (callee_saved ! k)" if k: "k < 6" for k
  proof -
    have "p - 48 + 8 * of_nat (5 - k) = p - 8 * of_nat (Suc k)"
      using k by (simp add: of_nat_diff algebra_simps)
    moreover have "R (callee_saved ! k) = mem x (p - 48 + 8 * of_nat (5 - k))"
      using R(3) [of "5 - k"] k by (simp add: rev_nth callee_ok(3) del: of_nat_diff)
    ultimately show ?thesis using words [OF k] by metis
  qed
  then have "\<forall>r \<in> set callee_saved. R r = reg h r" by (metis callee_ok(3) in_set_conv_nth)
  then show ?thesis using R(2) callee_ok(1) by (auto simp: z)
qed

section \<open>A child's excursion inside its parent's \<open>wait\<close>\<close>

text \<open>
  What may happen between entry and exit: ring-3 code that changes registers and the words \<open>W\<close> it can write,
  and system calls.
\<close>

inductive child_runs :: "u64 set \<Rightarrow> (hart \<Rightarrow> hart) \<Rightarrow> u64 \<Rightarrow> u64 \<Rightarrow> hart \<Rightarrow> hart \<Rightarrow> bool"
  for W d handler kcs u where
  start: "child_runs W d handler kcs u u"
| user: "child_runs W d handler kcs u x \<Longrightarrow> tss_rsp0 y = tss_rsp0 x \<Longrightarrow> (\<And>a. a \<notin> W \<Longrightarrow> mem y a = mem x a) \<Longrightarrow>
    child_runs W d handler kcs u y"
| syscall: "child_runs W d handler kcs u x \<Longrightarrow>
    child_runs W d handler kcs u (run_code d syscall_entry (int80_entry handler kcs x))"

text \<open>The kernel's part of a call writes the words \<open>W\<close> and its own stack, and leaves the task state segment.\<close>

definition dispatch_confined :: "u64 set \<Rightarrow> (hart \<Rightarrow> hart) \<Rightarrow> bool" where
  "dispatch_confined W d \<longleftrightarrow> (\<forall>c. tss_rsp0 (d c) = tss_rsp0 c \<and>
     (\<forall>a. a \<notin> W \<longrightarrow> a \<notin> slots_below (aligned (tss_rsp0 c)) 2560 \<longrightarrow> mem (d c) a = mem c a))"

lemma regs_len: "length SyscallRegs = 20"
  by (simp add: SyscallRegs_def)

lemma at_dispatch_keeps:
  "tss_rsp0 (at_dispatch d handler kcs x) = tss_rsp0 x"
  "a \<notin> slots_below (aligned (tss_rsp0 x)) 2560 \<Longrightarrow> mem (at_dispatch d handler kcs x) a = mem x a"
proof -
  have "slots_below (aligned (tss_rsp0 x)) 20 \<subseteq> slots_below (aligned (tss_rsp0 x)) 2560" by (rule slots_mono) simp
  then show "tss_rsp0 (at_dispatch d handler kcs x) = tss_rsp0 x"
    "a \<notin> slots_below (aligned (tss_rsp0 x)) 2560 \<Longrightarrow> mem (at_dispatch d handler kcs x) a = mem x a"
    using pushed_other [of a "aligned (tss_rsp0 x)" "rev (map (field_of x) SyscallRegs)" "mem x"]
    by (auto simp: at_dispatch_state regs_len)
qed

lemma pops_keep: "mem (run_code d (map Pop rs @ [Iretq]) c) = mem c \<and> tss_rsp0 (run_code d (map Pop rs @ [Iretq]) c) = tss_rsp0 c"
  by (induction rs arbitrary: c) (simp_all add: Let_def)

lemma syscall_keeps:
  assumes d: "dispatch_confined W d"
  shows "tss_rsp0 (run_code d syscall_entry (int80_entry handler kcs x)) = tss_rsp0 x"
    "a \<notin> W \<Longrightarrow> a \<notin> slots_below (aligned (tss_rsp0 x)) 2560 \<Longrightarrow> mem (run_code d syscall_entry (int80_entry handler kcs x)) a = mem x a"
proof -
  let ?c = "at_dispatch d handler kcs x"
  have "syscall_entry = take 16 syscall_entry @ [Call_dispatch] @ (map Pop (rev saved_gprs) @ [Iretq])"
    by (simp add: syscall_entry_def saved_gprs_def)
  then have z: "run_code d syscall_entry (int80_entry handler kcs x) = run_code d (map Pop (rev saved_gprs) @ [Iretq]) (d ?c)"
    by (metis run_append at_dispatch_def run_simps exec.simps(6))
  show "tss_rsp0 (run_code d syscall_entry (int80_entry handler kcs x)) = tss_rsp0 x"
    using d by (simp add: z pops_keep dispatch_confined_def at_dispatch_keeps)
  show "mem (run_code d syscall_entry (int80_entry handler kcs x)) a = mem x a"
    if "a \<notin> W" "a \<notin> slots_below (aligned (tss_rsp0 x)) 2560"
    using d that by (simp add: z pops_keep dispatch_confined_def at_dispatch_keeps)
qed

lemma child_runs_keeps:
  assumes "child_runs W d handler kcs u x" and "dispatch_confined W d"
  shows "tss_rsp0 x = tss_rsp0 u \<and> (\<forall>a. a \<notin> W \<longrightarrow> a \<notin> slots_below (aligned (tss_rsp0 u)) 2560 \<longrightarrow> mem x a = mem u a)"
  using assms(1)
proof induction
  case (syscall x)
  then show ?case using syscall_keeps [OF assms(2)] by metis
qed simp_all


text \<open>Without the switch the child's first call writes its frame over the parent's.\<close>

lemma shared_stack_overwrites:
  "mem (int80_entry handler kcs x) (aligned (tss_rsp0 x) - 8) = h_ss x"
  "mem (int80_entry handler kcs x) (aligned (tss_rsp0 x) - 40) = h_rip x"
  using pushed_nth [of 0 "[h_ss x, reg x RSP, h_flags x, h_cs x, h_rip x]" "aligned (tss_rsp0 x)" "mem x"]
    pushed_nth [of 4 "[h_ss x, reg x RSP, h_flags x, h_cs x, h_rip x]" "aligned (tss_rsp0 x)" "mem x"]
  by (simp_all add: int80_state del: pushed.simps)

section \<open>Witnesses\<close>

definition idle_hart :: hart where
  "idle_hart = \<lparr>reg = (\<lambda>r. if r = RSP then 0x9000 else if r = RDI then 0x100 else 7), mem = (\<lambda>_. 0), h_rip = 0x400000,
     h_cs = 0x33, h_flags = 0x202, h_ss = 0x2b, tss_rsp0 = 0xA000\<rparr>"

definition answer_3 :: "hart \<Rightarrow> hart" where
  "answer_3 c = c\<lparr>mem := (mem c)(reg c RDI + 112 := 3)\<rparr>"

lemma syscall_saves_and_restores_witness:
  "\<exists>m. run_code answer_3 syscall_entry (int80_entry 0x5000 8 idle_hart) =
     idle_hart\<lparr>reg := (reg idle_hart)(RAX := 3), mem := m\<rparr>"
proof -
  let ?c = "at_dispatch answer_3 0x5000 8 idle_hart"
  have f: "mem (answer_3 ?c) (reg ?c RDI + 8 * of_nat k) =
      (if SyscallRegs ! k = F_gpr RAX then 3 else mem ?c (reg ?c RDI + 8 * of_nat k))" if k: "k < 20" for k
  proof -
    have "k \<in> set [0..<20]" using k by simp
    then show ?thesis by (auto simp: answer_3_def SyscallRegs_def upt_rec)
  qed
  show ?thesis
    using syscall_saves_and_restores [where d = answer_3 and handler = "0x5000" and kcs = 8 and h = idle_hart and v = 3, OF refl] f by (simp add: answer_3_def)
qed

lemma slots_range:
  assumes "a \<in> slots_below sp n" "8 * n \<le> unat sp"
  shows "unat sp - 8 * n \<le> unat a \<and> unat a < unat sp"
proof -
  obtain k where k: "k < n" "a = sp - 8 * of_nat (Suc k)" using assms(1) by (auto simp: slots_below_def simp del: of_nat_Suc)
  have "8 * Suc k \<le> unat sp" "unat sp < 2 ^ 64" using k assms(2) unsigned_less [of sp] by auto
  then have "unat (8 * of_nat (Suc k) :: u64) = 8 * Suc k" by (simp add: unat_word_ariths unat_of_nat del: of_nat_Suc)
  then have "unat a = unat sp - 8 * Suc k" using k(2) \<open>8 * Suc k \<le> unat sp\<close> by (simp add: unat_sub word_le_nat_alt del: of_nat_Suc)
  then show ?thesis using k(1) \<open>8 * Suc k \<le> unat sp\<close> by (simp only: mult_Suc_right) (intro conjI; arith)
qed

definition writes_word :: "hart \<Rightarrow> hart" where
  "writes_word x = x\<lparr>mem := (mem x)(0x7FFFF8 := 1), reg := \<lambda>_. 5\<rparr>"


end
