(* ===== verification/Tables.thy ===== *)
theory Tables
  imports Ring3
begin

text \<open>
  The descriptor tables (\<open>kernel/src/gdt.rs\<close>, \<open>kernel/src/interrupts.rs\<close>): which selectors the kernel and ring 3
  run with, which handler an interrupt vector has, who may raise it and on which stack it runs.  The
  \<open>x86_64\<close> crate's \<open>GlobalDescriptorTable::append\<close> is a parameter with the law its documentation gives.
\<close>

section \<open>The task state segment and the GDT\<close>

definition DOUBLE_FAULT_IST_INDEX :: u16 where "DOUBLE_FAULT_IST_INDEX = 0"
definition TSS_STACK_SIZE :: u64 where "TSS_STACK_SIZE = 4096 * 5"

record TaskStateSegment =
  interrupt_stack_table :: "u16 \<Rightarrow> u64"
  privilege_stack_table :: "nat \<Rightarrow> u64"

definition TSS :: "u64 \<Rightarrow> u64 \<Rightarrow> TaskStateSegment" where
  "TSS fault_stack call_stack = \<lparr>interrupt_stack_table = (\<lambda>_. 0)(DOUBLE_FAULT_IST_INDEX := fault_stack + TSS_STACK_SIZE),
     privilege_stack_table = (\<lambda>_. 0)(0 := call_stack + TSS_STACK_SIZE)\<rparr>"

datatype descriptor = Kernel_code_segment | User_data_segment | User_code_segment | Tss_segment TaskStateSegment

record selectors =
  code_selector :: u16
  user_data_selector :: u16
  user_code_selector :: u16
  tss_selector :: u16

definition GDT :: "('g \<Rightarrow> descriptor \<Rightarrow> u16 \<times> 'g) \<Rightarrow> 'g \<Rightarrow> TaskStateSegment \<Rightarrow> 'g \<times> selectors" where
  "GDT add_entry gdt tss = (let (code, gdt) = add_entry gdt Kernel_code_segment; (user_data, gdt) = add_entry gdt User_data_segment;
     (user_code, gdt) = add_entry gdt User_code_segment; (tss_sel, gdt) = add_entry gdt (Tss_segment tss)
   in (gdt, \<lparr>code_selector = code, user_data_selector = user_data, user_code_selector = user_code, tss_selector = tss_sel\<rparr>))"

record segment_registers =
  cs :: u16
  ss :: u16
  tr :: u16

definition gdt_init :: "selectors \<Rightarrow> segment_registers \<Rightarrow> segment_registers" where
  "gdt_init sel r = r\<lparr>ss := 0, cs := code_selector sel, tr := tss_selector sel\<rparr>"

text \<open>
  What the crate documents: \<open>append\<close> returns \<open>SegmentSelector::new(index, dpl)\<close>, that is eight times the index
  of the first free entry plus the privilege level; the descriptor of a task state segment takes two
  entries and the first entry of a new table is the null descriptor.
\<close>

fun dpl :: "descriptor \<Rightarrow> nat" where
  "dpl User_data_segment = 3"
| "dpl User_code_segment = 3"
| "dpl _ = 0"

fun entries_of :: "descriptor \<Rightarrow> nat" where
  "entries_of (Tss_segment _) = 2"
| "entries_of _ = 1"

definition append_documented :: "('g \<Rightarrow> descriptor \<Rightarrow> u16 \<times> 'g) \<Rightarrow> ('g \<Rightarrow> nat) \<Rightarrow> 'g \<Rightarrow> bool" where
  "append_documented add_entry len new \<longleftrightarrow> len new = 1 \<and>
     (\<forall>g d. fst (add_entry g d) = of_nat (8 * len g + dpl d) \<and> len (snd (add_entry g d)) = len g + entries_of d)"

lemma selectors_of_gdt:
  assumes "append_documented add_entry len new"
  shows "snd (GDT add_entry new tss) = \<lparr>code_selector = 8, user_data_selector = 0x13, user_code_selector = 0x1b, tss_selector = 0x20\<rparr>"
proof -
  have a: "fst (add_entry g d) = of_nat (8 * len g + dpl d)" "len (snd (add_entry g d)) = len g + entries_of d" "len new = 1" for g d
    using assms by (simp_all add: append_documented_def)
  show ?thesis by (simp add: GDT_def Let_def case_prod_unfold a)
qed

section \<open>The IDT\<close>

definition PIC_1_OFFSET :: u8 where "PIC_1_OFFSET = 32"
definition PIC_2_OFFSET :: u8 where "PIC_2_OFFSET = PIC_1_OFFSET + 8"
definition SYSCALL_VECTOR :: u8 where "SYSCALL_VECTOR = 0x80"

datatype InterruptIndex = Timer | Keyboard | Mouse

fun as_u8 :: "InterruptIndex \<Rightarrow> u8" where
  "as_u8 Timer = PIC_1_OFFSET"
| "as_u8 Keyboard = PIC_1_OFFSET + 1"
| "as_u8 Mouse = PIC_1_OFFSET + 12"

datatype handler = H_breakpoint | H_page_fault | H_double_fault | H_irq InterruptIndex | H_syscall_entry

record gate =
  handler :: handler
  privilege :: nat
  stack_index :: "u16 option"

definition IDT :: "u8 \<Rightarrow> gate option" where
  "IDT = (let own = (\<lambda>h. \<lparr>handler = h, privilege = 0, stack_index = None\<rparr>) in
     [3 \<mapsto> own H_breakpoint, 14 \<mapsto> own H_page_fault, as_u8 Timer \<mapsto> own (H_irq Timer), as_u8 Keyboard \<mapsto> own (H_irq Keyboard),
      as_u8 Mouse \<mapsto> own (H_irq Mouse), 8 \<mapsto> (own H_double_fault)\<lparr>stack_index := Some DOUBLE_FAULT_IST_INDEX\<rparr>,
      SYSCALL_VECTOR \<mapsto> (own H_syscall_entry)\<lparr>privilege := 3\<rparr>])"

text \<open>
  The vector of an interrupt line, with the \<open>pic8259\<close> crate as a parameter: it is documented to put the lines
  of the first controller at the first offset and those of the second at the second.
\<close>

definition PICS :: "(u8 \<Rightarrow> u8 \<Rightarrow> nat \<Rightarrow> u8) \<Rightarrow> nat \<Rightarrow> u8" where
  "PICS chained n = chained PIC_1_OFFSET PIC_2_OFFSET n"

definition pics_documented :: "(u8 \<Rightarrow> u8 \<Rightarrow> nat \<Rightarrow> u8) \<Rightarrow> bool" where
  "pics_documented chained \<longleftrightarrow> (\<forall>a b. (\<forall>n < 8. chained a b n = a + of_nat n) \<and> (\<forall>n < 8. chained a b (n + 8) = b + of_nat n))"

text \<open>The processor: who may raise a vector by \<open>int\<close>, and the stack the handler starts on.\<close>

definition raised :: "nat \<Rightarrow> u8 \<Rightarrow> gate option" where
  "raised cpl v = (case IDT v of Some g \<Rightarrow> if cpl \<le> privilege g then Some g else None | None \<Rightarrow> None)"

definition stack_for :: "TaskStateSegment \<Rightarrow> nat \<Rightarrow> u64 \<Rightarrow> gate \<Rightarrow> u64" where
  "stack_for tss cpl sp g = (case stack_index g of Some i \<Rightarrow> interrupt_stack_table tss i
     | None \<Rightarrow> if cpl = 0 then sp else privilege_stack_table tss 0)"

lemmas idt_defs = IDT_def PIC_1_OFFSET_def PIC_2_OFFSET_def SYSCALL_VECTOR_def Let_def

text \<open>A device's line reaches the handler written for it, and none falls among the processor's exceptions.\<close>

lemma irqs_reach_handlers:
  assumes "pics_documented chained"
  shows "map_option handler (IDT (PICS chained 0)) = Some (H_irq Timer)"
    "map_option handler (IDT (PICS chained 1)) = Some (H_irq Keyboard)"
    "map_option handler (IDT (PICS chained 12)) = Some (H_irq Mouse)"
    "n < 16 \<Longrightarrow> 32 \<le> PICS chained n \<and> PICS chained n \<le> 47"
proof -
  have lo: "PICS chained k = 32 + of_nat k" if "k < 8" for k
    using assms that by (simp add: pics_documented_def PICS_def idt_defs)
  have hi: "PICS chained (k + 8) = 40 + of_nat k" if "k < 8" for k
    using assms that by (simp add: pics_documented_def PICS_def idt_defs)
  have all: "PICS chained k = 32 + of_nat k" if "k < 16" for k
    using lo [of k] hi [of "k - 8"] that by (cases "k < 8") (auto simp: of_nat_diff)
  show "map_option handler (IDT (PICS chained 0)) = Some (H_irq Timer)"
    "map_option handler (IDT (PICS chained 1)) = Some (H_irq Keyboard)"
    "map_option handler (IDT (PICS chained 12)) = Some (H_irq Mouse)"
    using all [of 0] all [of 1] all [of 12] by (simp_all add: idt_defs)
  assume "n < 16"
  then have "n \<in> set [0..<16]" by simp
  then show "32 \<le> PICS chained n \<and> PICS chained n \<le> 47" using all by (auto simp: upt_rec)
qed

text \<open>From ring 3 only the system call can be raised; it runs on the system-call stack.\<close>

lemma ring3_raises_syscall_only: "raised 3 v = Some g \<longleftrightarrow> v = 0x80 \<and> g = \<lparr>handler = H_syscall_entry, privilege = 3, stack_index = None\<rparr>"
  by (auto simp: raised_def idt_defs split: if_splits)

lemma syscall_stack: "raised 3 v = Some g \<Longrightarrow> stack_for (TSS f c) 3 sp g = c + TSS_STACK_SIZE"
  by (simp add: ring3_raises_syscall_only stack_for_def TSS_def)

lemma double_fault_own_stack:
  "stack_for (TSS f c) cpl sp (the (IDT 8)) = f + TSS_STACK_SIZE" "map_option handler (IDT 8) = Some H_double_fault"
  by (simp_all add: stack_for_def TSS_def idt_defs)

text \<open>
  The two excursions with the selectors of this GDT: ring 3 for code and stack, and the only door back is
  the system call.
\<close>

theorem enters_ring3:
  assumes doc: "append_documented add_entry len new" and sel: "sel = snd (GDT add_entry new tss)"
    and code: "code = enter_ring3 \<or> code = enter_ring3_as_child"
    and args: "reg h RCX = ucast (user_code_selector sel)" "reg h R8 = ucast (user_data_selector sel)"
  shows "h_cs (run_code d code h) AND 3 = 3 \<and> h_ss (run_code d code h) AND 3 = 3 \<and> cs (gdt_init sel r) AND 3 = 0 \<and>
    raised (unat (h_cs (run_code d code h) AND 3)) v = (if v = SYSCALL_VECTOR then IDT SYSCALL_VECTOR else None)"
proof -
  have s: "sel = \<lparr>code_selector = 8, user_data_selector = 0x13, user_code_selector = 0x1b, tss_selector = 0x20\<rparr>"
    using selectors_of_gdt [OF doc] sel by simp
  have e: "h_cs (run_code d code h) = 0x1b" "h_ss (run_code d code h) = 0x13"
    using excursion_starts(1) [OF refl code, of d h] args by (simp_all add: s)
  have "raised 3 v = (if v = SYSCALL_VECTOR then IDT SYSCALL_VECTOR else None)"
    by (auto simp: raised_def idt_defs)
  then show ?thesis by (simp add: e s gdt_init_def)
qed

lemma enters_ring3_witness:
  "h_cs (run_code (\<lambda>h. h) enter_ring3 (idle_hart\<lparr>reg := (reg idle_hart)(RCX := 0x1b, R8 := 0x13)\<rparr>)) AND 3 = 3"
proof -
  let ?append = "\<lambda>n d. (of_nat (8 * n + dpl d), n + entries_of d)"
  have doc: "append_documented ?append (\<lambda>n. n) 1" by (simp add: append_documented_def)
  note sel = selectors_of_gdt [OF doc, of "TSS 0 0"]
  let ?h = "idle_hart\<lparr>reg := (reg idle_hart)(RCX := 0x1b, R8 := 0x13)\<rparr>"
  have args: "reg ?h RCX = ucast (user_code_selector (snd (GDT ?append 1 (TSS 0 0))))"
    "reg ?h R8 = ucast (user_data_selector (snd (GDT ?append 1 (TSS 0 0))))"
    by (simp_all only: sel) simp_all
  show ?thesis by (rule conjunct1 [OF enters_ring3 [OF doc refl disjI1 [OF refl] args]])
qed

end
