(* ===== verification/Spec2Isabelle.thy ===== *)
theory Spec2Isabelle
  imports Fs_Props Store Pipe Machine Elf Process Fd_Props Fork_Props Programs Loader Syscall_Props
    Network_Props Tasks_Props Console_Props Ps2 Mouse Pci Rtc Nic_Props Shell_Props System_Props Userland_Props Disk_Props Tables
begin

text \<open>
  The Spikeling kernel: an x86-64 hobby operating system in Rust (\<open>kernel/src\<close>), with a spiking neural
  network and a scheduler coupled like a topological chain beside the usual parts.  This library models
  the program's own logic as functions on explicit state and proves what makes each part correct.

  \<^bold>\<open>How the program works.\<close>  \<open>kernel_main\<close> (\<open>main.rs\<close>) maps the heap and the user test pages, creates the
  built-in processes, runs self-tests of disk, pipes and signals, restores the network from disk, starts
  the mouse and the network card and prints the prompt.  From then on three interrupts drive everything:
  the timer ticks the network and switches tasks, the keyboard feeds the shell, the mouse moves and
  draws.  The shell's commands use the file system, the network, the tasks, the card, the clock, the
  screen and the program loader; a loaded program runs in ring 3 and comes back through system calls.

  \<^bold>\<open>Theories and code\<close> (files of \<open>kernel/src\<close> unless said otherwise; every definition is named after the
  function, type or constant it models, up to a suffix where HOL has the name).
  \<^item> \<open>Prelude\<close>: words, byte slices, little-endian integers, first-match searches.
  \<^item> \<open>Ata\<close>, \<open>Weights\<close> (\<open>ata.rs\<close>): the disk as a function from sectors to words, reads and writes that may
    fail, and the weight list of sector 0.  \<open>Ternary\<close> (\<open>ternary.rs\<close>) packs weights, \<open>F32\<close> is Rust's \<open>f32\<close>.
  \<^item> \<open>Utf8\<close>, \<open>Fs\<close> (\<open>fs.rs\<close>): directory tables, the path walk and all operations, with \<open>Fs_Inv\<close> (what a disk means
    and when it is sound), \<open>Fs_Ops\<close> and \<open>Fs_Mut\<close> (each operation refines the abstract tree), \<open>Fs_Props\<close> and
    \<open>Store\<close> (the view the kernel has: load and save whole files).
  \<^item> \<open>Pipe\<close>, \<open>Fds\<close>, \<open>Fork\<close>, \<open>Process\<close> (\<open>process.rs\<close>), \<open>Machine\<close> (\<open>memory.rs\<close>), \<open>Elf\<close> (\<open>elf.rs\<close>): pipes, descriptors,
    the heap, process construction, fork, wait, kill, exec, physical frames and page tables.  The record
    \<open>kstate\<close> holds the processes, pipes, disk, machine and the active process; \<open>Fd_Inv\<close>, \<open>Fd_Props\<close>, \<open>Fork_Inv\<close> and
    \<open>Fork_Props\<close> hold invariants and properties.
  \<^item> \<open>Programs\<close>, \<open>Loader\<close> (\<open>loader.rs\<close>, parts of \<open>usertest.rs\<close> and \<open>process.rs\<close>): the machine code built in and the
    commands that load programs.  \<open>Syscall\<close> (\<open>usertest.rs\<close>, \<open>interrupts.rs\<close>): every system call, page faults,
    excursions to ring 3; \<open>Syscall_Props\<close>.  \<open>Ring3\<close> (\<open>usertest.rs\<close>, \<open>gdt.rs\<close>): the assembly of the switch, with
    the frame the processor pushes and the two kernel stacks; \<open>Tables\<close> (\<open>gdt.rs\<close>, \<open>interrupts.rs\<close>): selectors,
    interrupt vectors, their privilege levels and stacks.  \<open>Userland\<close> (\<open>tools/\<close>): the C library and the test programs written
    against it, run on these system calls; \<open>Userland_Props\<close>.
  \<^item> \<open>Network\<close> (\<open>network.rs\<close>), \<open>Neurons\<close> (\<open>neurons.rs\<close>): neurons, synapses, plasticity, gates, the tick and the
    command language; \<open>Network_Props\<close>.  \<open>Scheduler\<close> (\<open>scheduler.rs\<close>) and \<open>Tasks\<close> (\<open>tasks.rs\<close>): the coupled slots, context
    switches, spawn and kill; \<open>Tasks_Props\<close>.
  \<^item> \<open>Console\<close> (\<open>console.rs\<close>), \<open>Ps2\<close> and \<open>Mouse\<close> (\<open>mouse.rs\<close>), \<open>Pci\<close> (\<open>pci.rs\<close>), \<open>Nic\<close> (\<open>nic.rs\<close>), \<open>Rtc\<close> (\<open>rtc.rs\<close>): the drivers,
    with \<open>Console_Props\<close> and \<open>Nic_Props\<close>.
  \<^item> \<open>Shell\<close> (\<open>shell.rs\<close>, \<open>keyboard.rs\<close>, \<open>speaker.rs\<close>): the line editor and every command over the record
    \<open>world\<close>, which joins the states of all parts; \<open>Shell_Props\<close>.
  \<^item> \<open>System\<close> (\<open>main.rs\<close>, \<open>allocator.rs\<close>, \<open>interrupts.rs\<close>): boot and the interrupt handlers; \<open>System_Props\<close> puts the
    invariants of the parts together, for the theorem at the end of this file.  \<open>Disk_Props\<close>: no program of
    ring 3 makes the disk unsound.

  \<^bold>\<open>What is shown.\<close>  The file system refines a tree of files with its errors, and what was written is read
  back (through the shell and through descriptors too).  Processes own their memory, forks are isolated
  copies, pipe counters count the ends held under every history of descriptor operations and under every
  system call but the ones named, and every run of a program that does not go astray (that traps again, makes
  finitely many calls and passes pointers to its own mapped memory) ends with the kernel in its own context.  The
  assembly saves and restores a caller, and a child run inside its parent's \<open>wait\<close> leaves the parent's stack.
  The network never panics, delivers the sums of its spikes and keeps its weights in range and over a reboot.
  Tasks never panic while the heap grants their stacks, the demo gives the processor back and killed tasks are reclaimed; some slot of the
  scheduler always fires soon.  Characters and lines stay on the screen and look as they should; the drivers
  stay in step with their devices.  The kernel as a whole boots and keeps running while the heap lasts.  Where the code does
  not do what it means to, a theorem says so (\<open>huge_pixel_panics\<close>, \<open>elf_noncanonical_panics\<close>,
  \<open>runelf_fork_hangs\<close>, \<open>libctest_hangs\<close>, \<open>refused_sbrk_kills\<close>, \<open>kill_keeps_pipe_refs\<close>, \<open>dup_full_leaks\<close>,
  \<open>level_32_unseen\<close>, \<open>duplicate_entry_wins\<close>, \<open>no_stack_panics\<close>, \<open>typed_is_kept\<close>,
  \<open>rmdir_removes_cwd\<close>, \<open>rtc_twelve_hours\<close>, \<open>train_gap_panics\<close>).

  \<^bold>\<open>Interfaces.\<close>  \<open>block_device\<close> (sectors that read back what was written), \<open>byte_channel\<close> (a bounded queue of
  bytes) and \<open>file_store\<close> (files loaded and saved by path) are locales; the drive, the pipe buffer and the file
  system are their interpretations.

  \<^bold>\<open>Conventions.\<close>  \<open>None\<close> is a panic or a kernel that does not come back; an error the code returns is a
  constructor of an error type in a sum.  Machine integers are words where they wrap and checked numbers
  where the build checks for overflow (the dev profile does).  A loop whose end depends on hardware takes
  fuel: the clock (\<open>e_patience\<close> polls), the mouse's controller, and the run of a program (a number of traps);
  the theorems hold for every fuel, or say how much is enough.  The driver's own bounded polls are recursion
  on the number of polls left, and the loop of \<open>draw_line\<close> has as much fuel as the line has pixels.  The bound of \<open>2 ^ 22\<close> events in the last theorem (hours at the timer's rate) keeps the
  checked counters of network, tasks, cursor and mouse from overflowing.  The kernel's own state is kept apart
  from physical memory: a system call that stores through a pointer out of the caller's slot, which the code does
  not check, would change frames only, so the theorems on runs of programs exclude it by hypothesis
  (\<open>bad_call\<close>).  An allocation the heap refuses panics; where a theorem depends on it, the allocator's answer is an
  argument (the stack of a new task, \<open>heap\<close> of \<open>event_do\<close>), elsewhere it is taken to be granted.

  \<^bold>\<open>Parameters.\<close>  Code that is not in the repository is an argument: the page-table crate (\<open>map_to\<close>), the
  processor in ring 3, \<open>expf\<close> and \<open>roundf\<close> of \<open>libm\<close>, the font, the memory map, the heap allocator's answers, the embedded
  ELF files, and the hardware (drive failures, the card with its DMA memory, configuration space, clock
  chip, PS/2 controller, speaker gate).  The wording of reports and answers is a parameter too: what a
  command answers is modelled as a value, not as text.

  \<^bold>\<open>Not modelled.\<close>  The layout of the descriptor tables in memory and the initialisation
  of the interrupt controllers (the \<open>x86_64\<close> and \<open>pic8259\<close> crates); the flags while a gate's handler runs, and interrupts that arrive
  during the assembly of the ring-3 switch or while \<open>kernel_main\<close> holds a lock (events are handled one after
  the other); the log lines on the serial port; the text of reports;
  the heap allocator behind the mapped pages (a library), but for its answers; scancode decoding (a library); the host-side
  runner and image builder (\<open>src/main.rs\<close>, \<open>build.rs\<close>).
\<close>

section \<open>The kernel keeps running\<close>

text \<open>
  C1. Given a machine whose heap can be mapped, a sound disk, a screen whose text area holds at least one
  glyph, programs that come back and a PS/2 controller that answers, \<open>kernel_main\<close> boots.  From then on,
  as long as the heap grants what is asked of it (\<open>heap\<close>, and the stacks of new tasks),
  through every sequence of calm events, one handled after the other (at most \<open>2 ^ 22\<close>: timer, keyboard and mouse interrupts, in any
  order and with any bytes, typed commands included), no handler panics or hangs, and after each of them
  the network, the tasks, the console with the pointer, the file system and the current directory satisfy
  their invariants.  A line is calm unless it runs a program, polls the clock or the card, draws at typed
  coordinates, trains for more than 100 ticks, disguises the name of a directory or makes one more than 30 levels
  deep.  The heap does not grant requests for ever: every key typed stays in it (\<open>typed_is_kept\<close>).
\<close>

theorem kernel_keeps_running:
  assumes mapped: "init_heap (e_map_to E) (mach k) = (Inr fs, m)" and user: "user_ok (e_user E)"
    and disk: "fs_ok (kdisk k)" and screen: "\<forall>b i. fb = Some (b, i) \<longrightarrow> text_ok (e_font E) (console_new b i)"
    and ps2: "mouse_init F P p0 \<noteq> None" and wording: "wording_ok E"
  shows "\<exists>w. kernel_main E N (P, F, p0) fb k hw c = Some w \<and>
    (\<forall>n s. calm_run E heap \<lparr>sys_world = w, timer_irqs = 0\<rparr> n s \<and> n < 2 ^ 22 \<longrightarrow>
       kernel_sound E (sys_world s) \<and>
       (\<forall>x. calm_event E heap x s \<longrightarrow> (\<exists>a s'. event_do E heap x s = Some (a, s') \<and> kernel_sound E (sys_world s'))))"
proof -
  obtain w where w: "kernel_main E N (P, F, p0) fb k hw c = Some w" "world_inv E 0 0 (2 ^ 40) 0 w"
    by (rule boot_well [OF mapped user disk screen ps2])
  let ?s = "\<lparr>sys_world = w, timer_irqs = 0\<rparr>"
  have start: "sound_at E 0 ?s" using w(2) by (simp add: sound_at_def)
  have "kernel_sound E (sys_world s) \<and>
      (\<forall>x. calm_event E heap x s \<longrightarrow> (\<exists>a s'. event_do E heap x s = Some (a, s') \<and> kernel_sound E (sys_world s')))"
    if run: "calm_run E heap ?s n s" and n: "n < 2 ^ 22" for n s
  proof -
    have "sound_at E n s" using calm_run_sound [OF run wording start] n by simp
    then show ?thesis using event_well [OF _ n _ wording] sound_forget by blast
  qed
  with w(1) show ?thesis by blast
qed

lemma boot_typed: "kernel_main E N ps2 fb k hw c = Some w \<Longrightarrow> w_typed w = []"
  by (auto simp: kernel_main_def show_prompt_def print_out_def Let_def split: bind_splits option.splits prod.splits sum.splits
      dest!: on_console_typed)

lemma timer_typed: "event_do E heap (Timer_irq ret) s = Some (a, s') \<Longrightarrow> w_typed (sys_world s') = w_typed (sys_world s)"
  by (auto simp: event_do_def timer_interrupt_handler_def Let_def split: if_splits bind_splits)

text \<open>A heap with room for 1000 characters typed.\<close>

definition demo_heap_room :: "event \<Rightarrow> (nat \<times> nat) system \<Rightarrow> bool" where
  "demo_heap_room x s \<longleftrightarrow> length (w_typed (sys_world s)) < 1000"

theorem kernel_keeps_running_witness:
  "\<exists>w a s b s'. kernel_main demo_env demo_nic_env
      (demo_ports, 2, 0, \<lparr>ctl_config = 0x65, aux_on = False, streaming = False, out_bytes = [], next_byte = To_keyboard\<rparr>)
      (Some (replicate 240 7, \<lparr>fb_width = 8, fb_height = 30, stride = 8, bytes_per_pixel = 1, pixel_format = U8\<rparr>)) demo_kernel
      ((0, 0), boot_dma) idle_core = Some w \<and>
    event_do demo_env demo_heap_room (Timer_irq 0) \<lparr>sys_world = w, timer_irqs = 0\<rparr> = Some (a, s) \<and>
    event_do demo_env demo_heap_room (Keyboard_irq 65) s = Some (b, s') \<and> kernel_sound demo_env (sys_world s')"
proof -
  let ?fb = "(Some (replicate 240 7, \<lparr>fb_width = 8, fb_height = 30, stride = 8, bytes_per_pixel = 1, pixel_format = U8\<rparr>))"
  let ?ps2 = "(demo_ports, 2, 0, \<lparr>ctl_config = 0x65, aux_on = False, streaming = False, out_bytes = [], next_byte = To_keyboard\<rparr>)"
  obtain fs m where heap: "init_heap (e_map_to demo_env) (mach demo_kernel) = (Inr fs, m)"
    using demo_heap by (auto simp: demo_env_def demo_kernel_def)
  have user: "user_ok (e_user demo_env)" by (simp add: user_ok_def demo_env_def)
  have disk: "fs_ok (kdisk demo_kernel)" by (simp add: demo_kernel_def blank_ok)
  have wording: "wording_ok demo_env" by (simp add: wording_ok_def demo_env_def)
  have screen: "\<forall>b i. ?fb = Some (b, i) \<longrightarrow> text_ok (e_font demo_env) (console_new b i)"
    using demo_text_ok by (simp add: demo_env_def demo_console_def)
  obtain w where w: "kernel_main demo_env demo_nic_env ?ps2 ?fb demo_kernel ((0, 0), boot_dma) idle_core = Some w"
    and all: "\<And>n s x. calm_run demo_env demo_heap_room \<lparr>sys_world = w, timer_irqs = 0\<rparr> n s \<Longrightarrow> n < 2 ^ 22 \<Longrightarrow> calm_event demo_env demo_heap_room x s \<Longrightarrow>
       \<exists>a s'. event_do demo_env demo_heap_room x s = Some (a, s') \<and> kernel_sound demo_env (sys_world s')"
    using kernel_keeps_running [OF heap user disk screen demo_answers wording, of demo_nic_env "((0, 0), boot_dma)" idle_core] by blast
  have no: "w_typed w = []" by (rule boot_typed [OF w])
  then have timer: "calm_event demo_env demo_heap_room (Timer_irq 0) \<lparr>sys_world = w, timer_irqs = 0\<rparr>"
    by (simp add: calm_event_def demo_heap_room_def)
  have key: "calm_event demo_env demo_heap_room (Keyboard_irq 65) u" if "w_typed (sys_world u) = []" for u
    using that by (simp add: calm_event_def demo_heap_room_def)
  obtain a s where s: "event_do demo_env demo_heap_room (Timer_irq 0) \<lparr>sys_world = w, timer_irqs = 0\<rparr> = Some (a, s)"
    using all [OF booted _ timer] by auto
  have "w_typed (sys_world s) = []" using timer_typed [OF s] no by simp
  then show ?thesis using w s all [OF happens [OF booted timer s] _ key] by auto
qed

end
